(* ===== verification/Prelude.thy ===== *)
theory Prelude
  imports Main "HOL-Library.Word"
begin

unbundle bit_operations_syntax

text \<open>
  Shared ground of the development: the widths of the C integers, the collections of
  simplification rules, the loops that several components share (a linear search over an
  index range, a fold over a container that threads a state), and the locale of event-driven
  components whose invariant is kept by every event.
\<close>

section \<open>Types\<close>

type_synonym u8 = "8 word"
type_synonym u16 = "16 word"
type_synonym u32 = "32 word"
type_synonym u64 = "64 word"

text \<open>A nullable C string: \<open>None\<close> is the null pointer. The class \<open>xmrig::String\<close> is the same
  value (a null or an owned buffer).\<close>

type_synonym cstr = "string option"

abbreviation nul :: char where "nul \<equiv> CHR 0x00"

section \<open>Collections\<close>

named_theorems frame_simps \<open>what an operation leaves alone\<close>
named_theorems inv_intros \<open>preservation of a component's invariant by its operations\<close>

section \<open>Linear search over an index range\<close>

text \<open>\<open>for (i = lo; i < hi; ++i) if (p(i)) return i;\<close> and what comes after the loop is the
  \<open>None\<close> case.\<close>

function first_from :: "(nat \<Rightarrow> bool) \<Rightarrow> nat \<Rightarrow> nat \<Rightarrow> nat option" where
  "first_from p lo hi = (if lo < hi then if p lo then Some lo else first_from p (Suc lo) hi else None)"
  by pat_completeness auto
termination
  by (relation "measure (\<lambda>(p, lo, hi). hi - lo)") auto

declare first_from.simps [simp del]

lemma first_from_None_iff: "first_from p lo hi = None \<longleftrightarrow> (\<forall>i. lo \<le> i \<longrightarrow> i < hi \<longrightarrow> \<not> p i)"
proof (induction p lo hi rule: first_from.induct)
  case (1 p lo hi)
  show ?case
  proof (cases "lo < hi \<and> \<not> p lo")
    case True
    have "(\<forall>i. lo \<le> i \<longrightarrow> i < hi \<longrightarrow> \<not> p i) \<longleftrightarrow> (\<forall>i. Suc lo \<le> i \<longrightarrow> i < hi \<longrightarrow> \<not> p i)"
      using True by (metis le_eq_less_or_eq Suc_leI Suc_leD)
    with True 1 show ?thesis by (simp add: first_from.simps [of p lo hi])
  next
    case False
    then show ?thesis by (auto simp: first_from.simps [of p lo hi])
  qed
qed

lemma first_from_Some:
  "first_from p lo hi = Some i \<Longrightarrow> lo \<le> i \<and> i < hi \<and> p i \<and> (\<forall>j. lo \<le> j \<longrightarrow> j < i \<longrightarrow> \<not> p j)"
proof (induction p lo hi rule: first_from.induct)
  case (1 p lo hi)
  then show ?case
    by (auto simp: first_from.simps [of p lo hi] split: if_splits)
       (metis le_eq_less_or_eq Suc_leI)
qed

section \<open>Components driven by events\<close>

text \<open>A run handles a list of events in order; \<open>run_ok\<close> says that each event meets the guard of
  the environment in the state where it arrives.\<close>

fun run :: "('s \<Rightarrow> 'e \<Rightarrow> 's) \<Rightarrow> 's \<Rightarrow> 'e list \<Rightarrow> 's" where
  "run step s [] = s"
| "run step s (e # es) = run step (step s e) es"

fun run_ok :: "('s \<Rightarrow> 'e \<Rightarrow> bool) \<Rightarrow> ('s \<Rightarrow> 'e \<Rightarrow> 's) \<Rightarrow> 's \<Rightarrow> 'e list \<Rightarrow> bool" where
  "run_ok ok step s [] = True"
| "run_ok ok step s (e # es) = (ok s e \<and> run_ok ok step (step s e) es)"

locale event_component =
  fixes init :: "'s \<Rightarrow> bool"
    and ok :: "'s \<Rightarrow> 'e \<Rightarrow> bool"
    and step :: "'s \<Rightarrow> 'e \<Rightarrow> 's"
    and inv :: "'s \<Rightarrow> bool"
  assumes init_inv: "init s \<Longrightarrow> inv s"
    and step_inv: "inv s \<Longrightarrow> ok s e \<Longrightarrow> inv (step s e)"
begin

lemma run_inv: "inv s \<Longrightarrow> run_ok ok step s es \<Longrightarrow> inv (run step s es)"
  by (induction es arbitrary: s) (auto intro: step_inv)

lemma run_init_inv: "init s \<Longrightarrow> run_ok ok step s es \<Longrightarrow> inv (run step s es)"
  by (rule run_inv [OF init_inv])

end

section \<open>Writes into a buffer\<close>

text \<open>\<open>memcpy(buf + off, bytes, n)\<close>; \<open>None\<close> when it would write behind the buffer.\<close>

definition poke :: "nat \<Rightarrow> 'a list \<Rightarrow> 'a list \<Rightarrow> 'a list option" where
  "poke off bytes buf =
     (if off + length bytes \<le> length buf
      then Some (take off buf @ bytes @ drop (off + length bytes) buf) else None)"

lemma poke_length: "poke off bytes buf = Some buf' \<Longrightarrow> length buf' = length buf"
  by (auto simp: poke_def split: if_splits)

lemma poke_id: "poke off bytes buf = Some buf' \<Longrightarrow>
    take (length bytes) (drop off buf') = bytes \<and> take off buf' = take off buf \<and>
    drop (off + length bytes) buf' = drop (off + length bytes) buf"
  by (auto simp: poke_def split: if_splits)

section \<open>Generic facts\<close>

lemma map_upd_eq_None: "(m(k \<mapsto> v)) x = None \<longleftrightarrow> x \<noteq> k \<and> m x = None"
  by simp

lemma nth_list_update_cases: "i < length xs \<Longrightarrow> (xs[i := v]) ! j = (if j = i then v else xs ! j)"
  by auto

end
