(* ===== verification/Counters.thy ===== *)
theory Counters
  imports Prelude Complex_Main
begin

text \<open>
  The process-wide counters (\<open>src/proxy/Counters.h\<close>), the ticking counter behind every hashrate
  (\<open>src/proxy/TickingCounter.h\<close>) and the upstream statistics of a splitter
  (\<open>src/proxy/interfaces/ISplitter.h\<close>). Counters keep their C widths. A \<open>double\<close> is
  modelled by the rational it approximates.
\<close>

section \<open>Counters\<close>

text \<open>The static fields of the class.\<close>

record counters =
  c_added :: u32
  c_removed :: u32
  c_accepted :: u64
  c_connections :: u64
  c_expired :: u64
  c_maxMiners :: u64
  c_miners :: u64

definition counters_zero :: counters where
  "counters_zero = \<lparr>c_added = 0, c_removed = 0, c_accepted = 0, c_connections = 0,
     c_expired = 0, c_maxMiners = 0, c_miners = 0\<rparr>"

definition counters_reset :: "counters \<Rightarrow> counters" where
  "counters_reset c = c\<lparr>c_added := 0, c_removed := 0, c_accepted := 0\<rparr>"

definition counters_add :: "counters \<Rightarrow> counters" where
  "counters_add c =
     (let c = c\<lparr>c_miners := c_miners c + 1, c_added := c_added c + 1\<rparr>
      in if c_maxMiners c < c_miners c then c\<lparr>c_maxMiners := c_miners c\<rparr> else c)"

definition counters_remove :: "counters \<Rightarrow> counters" where
  "counters_remove c = c\<lparr>c_miners := c_miners c - 1, c_removed := c_removed c + 1\<rparr>"

definition counters_expire :: "counters \<Rightarrow> counters" where
  "counters_expire c = c\<lparr>c_expired := c_expired c + 1\<rparr>"

lemma counters_add_miners [simp]: "c_miners (counters_add c) = c_miners c + 1"
  by (simp add: counters_add_def Let_def)

lemma counters_remove_miners [simp]: "c_miners (counters_remove c) = c_miners c - 1"
  by (simp add: counters_remove_def)

lemma counters_expire_miners [simp]: "c_miners (counters_expire c) = c_miners c"
  by (simp add: counters_expire_def)

lemma counters_add_max: "c_miners (counters_add c) \<le> c_maxMiners (counters_add c)"
  by (simp add: counters_add_def Let_def not_less)

lemma counters_add_max_mono: "c_maxMiners c \<le> c_maxMiners (counters_add c)"
  by (simp add: counters_add_def Let_def order.strict_implies_order)

section \<open>TickingCounter\<close>

record ticking_counter =
  tc_tickTime :: nat
  tc_data :: "u32 list"
  tc_pending :: u32

definition tc_new :: "nat \<Rightarrow> ticking_counter" where
  "tc_new tickTime = \<lparr>tc_tickTime = tickTime, tc_data = [], tc_pending = 0\<rparr>"

text \<open>\<open>add(T count)\<close> with \<open>T = uint32_t\<close>: a 64-bit argument is narrowed at the call.\<close>

definition tc_add :: "u64 \<Rightarrow> ticking_counter \<Rightarrow> ticking_counter" where
  "tc_add count tc = tc\<lparr>tc_pending := tc_pending tc + ucast count\<rparr>"

definition tc_tick :: "ticking_counter \<Rightarrow> ticking_counter" where
  "tc_tick tc = tc\<lparr>tc_data := tc_data tc @ [tc_pending tc], tc_pending := 0\<rparr>"

text \<open>The loop of \<open>calc\<close> sums the last \<open>ticks\<close> entries in a 64-bit counter.\<close>

definition tc_count :: "ticking_counter \<Rightarrow> nat \<Rightarrow> u64" where
  "tc_count tc ticks =
     (let size = length (tc_data tc); i = (if size < ticks then 0 else size - ticks)
      in foldl (\<lambda>count v. count + ucast v) 0 (drop i (tc_data tc)))"

definition tc_calc :: "ticking_counter \<Rightarrow> nat \<Rightarrow> rat" where
  "tc_calc tc seconds =
     (let ticks = seconds div tc_tickTime tc; count = tc_count tc ticks
      in if count = 0 then 0 else of_nat (unat count) / of_nat (ticks * tc_tickTime tc * 1000))"

lemma foldl_add_word: "foldl (\<lambda>(c::u64) v. c + ucast (v::u32)) a vs = a + (\<Sum>v\<leftarrow>vs. ucast v)"
  by (induction vs arbitrary: a) (auto simp: add.assoc)

lemma tc_count_sum:
  "tc_count tc ticks = (\<Sum>v\<leftarrow>drop (length (tc_data tc) - ticks) (tc_data tc). ucast v)"
  by (auto simp: tc_count_def Let_def foldl_add_word)

lemma tc_calc_short: "seconds < tc_tickTime tc \<Longrightarrow> tc_calc tc seconds = 0"
  by (simp add: tc_calc_def tc_count_def Let_def)

section \<open>Upstreams\<close>

record upstreams =
  u_active :: u64
  u_sleep :: u64
  u_total :: u64
  u_error :: u64

definition mk_upstreams :: "u64 \<Rightarrow> u64 \<Rightarrow> u64 \<Rightarrow> upstreams" where
  "mk_upstreams active sleep all =
     \<lparr>u_active = active, u_sleep = sleep, u_total = all, u_error = all - active - sleep\<rparr>"

definition upstreams_ratio :: "upstreams \<Rightarrow> u64 \<Rightarrow> rat" where
  "upstreams_ratio u miners =
     (if 0 < u_active u then of_nat (unat miners) / of_nat (unat (u_active u)) else 0)"

definition upstreams_add :: "upstreams \<Rightarrow> upstreams \<Rightarrow> upstreams" where
  "upstreams_add u v = \<lparr>u_active = u_active u + u_active v, u_sleep = u_sleep u + u_sleep v,
     u_total = u_total u + u_total v, u_error = u_error u + u_error v\<rparr>"

text \<open>The four numbers stay consistent under aggregation.\<close>

lemma upstreams_total_mk:
  "u_total (mk_upstreams a s t) = u_active (mk_upstreams a s t) + u_sleep (mk_upstreams a s t)
     + u_error (mk_upstreams a s t)"
  by (simp add: mk_upstreams_def)

lemma upstreams_total_add:
  assumes "u_total u = u_active u + u_sleep u + u_error u"
    and "u_total v = u_active v + u_sleep v + u_error v"
  shows "u_total (upstreams_add u v)
    = u_active (upstreams_add u v) + u_sleep (upstreams_add u v) + u_error (upstreams_add u v)"
  using assms by (simp add: upstreams_add_def)

end
