(* ===== verification/CText.thy ===== *)
theory CText
  imports Prelude
begin

text \<open>
  The C text functions the code uses: searching (\<open>strchr\<close>, \<open>strrchr\<close>, \<open>strstr\<close>), parsing of
  decimals (\<open>strtol\<close>, \<open>strtoul\<close> with base 10), printing of decimals (\<open>%d\<close>), case-insensitive
  comparison, and the operations of \<open>xmrig::String\<close> (\<open>src/base/tools/String.h\<close>,
  \<open>String.cpp\<close>). A C string is the list of its characters without the terminating NUL.
\<close>

section \<open>Searching\<close>

text \<open>\<open>strchr\<close> and \<open>strrchr\<close> return a pointer into the string: the index of the match.\<close>

fun strchr :: "string \<Rightarrow> char \<Rightarrow> nat option" where
  "strchr [] c = None"
| "strchr (x # xs) c = (if x = c then Some 0 else map_option Suc (strchr xs c))"

fun strrchr :: "string \<Rightarrow> char \<Rightarrow> nat option" where
  "strrchr [] c = None"
| "strrchr (x # xs) c =
     (case strrchr xs c of Some i \<Rightarrow> Some (Suc i) | None \<Rightarrow> if x = c then Some 0 else None)"

fun is_prefix :: "string \<Rightarrow> string \<Rightarrow> bool" where
  "is_prefix [] s = True"
| "is_prefix (p # ps) [] = False"
| "is_prefix (p # ps) (x # xs) = (p = x \<and> is_prefix ps xs)"

fun strstr :: "string \<Rightarrow> string \<Rightarrow> nat option" where
  "strstr [] p = (if p = [] then Some 0 else None)"
| "strstr (x # xs) p = (if is_prefix p (x # xs) then Some 0 else map_option Suc (strstr xs p))"

lemma strchr_None_iff: "strchr s c = None \<longleftrightarrow> c \<notin> set s"
  by (induction s) auto

lemma strchr_Some:
  "strchr s c = Some i \<Longrightarrow> i < length s \<and> s ! i = c \<and> c \<notin> set (take i s)"
  by (induction s arbitrary: i) (auto split: if_splits)

lemma strchr_split: "c \<notin> set a \<Longrightarrow> strchr (a @ c # b) c = Some (length a)"
  by (induction a) auto

lemma strrchr_None_iff: "strrchr s c = None \<longleftrightarrow> c \<notin> set s"
  by (induction s) (auto split: option.splits)

lemma strrchr_Some:
  "strrchr s c = Some i \<Longrightarrow> i < length s \<and> s ! i = c \<and> c \<notin> set (drop (Suc i) s)"
  by (induction s arbitrary: i) (auto split: if_splits option.splits simp: strrchr_None_iff)

lemma strrchr_split: "c \<notin> set b \<Longrightarrow> strrchr (a @ c # b) c = Some (length a)"
  by (induction a) (auto split: option.splits simp: strrchr_None_iff)

section \<open>Letter case\<close>

definition to_lower :: "char \<Rightarrow> char" where
  "to_lower c = (if (65 :: nat) \<le> of_char c \<and> of_char c \<le> (90 :: nat)
     then char_of (of_char c + 32 :: nat) else c)"

lemma to_lower_bit5 [simp]:
  "to_lower (Char b0 b1 b2 b3 b4 True b6 b7) = Char b0 b1 b2 b3 b4 True b6 b7"
  by (cases b0; cases b1; cases b2; cases b3; cases b4; cases b6; cases b7)
    (simp_all add: to_lower_def)

lemma to_lower_underscore [simp]: "to_lower (CHR ''_'') = CHR ''_''"
  by (simp add: to_lower_def)

text \<open>\<open>strcasecmp(a, b) == 0\<close> and \<open>strncasecmp(a, b, n) == 0\<close> with \<open>n\<close> the length of \<open>b\<close>.\<close>

definition strcasecmp_eq :: "string \<Rightarrow> string \<Rightarrow> bool" where
  "strcasecmp_eq a b \<longleftrightarrow> map to_lower a = map to_lower b"

definition strncasecmp_eq :: "string \<Rightarrow> string \<Rightarrow> bool" where
  "strncasecmp_eq a b \<longleftrightarrow> is_prefix (map to_lower b) (map to_lower a)"

section \<open>Decimal numbers\<close>

definition is_digit :: "char \<Rightarrow> bool" where
  "is_digit c \<longleftrightarrow> (48 :: nat) \<le> of_char c \<and> of_char c \<le> (57 :: nat)"

definition digit_val :: "char \<Rightarrow> nat" where
  "digit_val c = of_char c - 48"

definition is_space :: "char \<Rightarrow> bool" where
  "is_space c \<longleftrightarrow> of_char c = (32 :: nat) \<or> ((9 :: nat) \<le> of_char c \<and> of_char c \<le> (13 :: nat))"

definition dec_value :: "string \<Rightarrow> nat" where
  "dec_value ds = foldl (\<lambda>v c. 10 * v + digit_val c) 0 ds"

text \<open>\<open>strtol\<close> in base 10: white space, an optional sign, the longest run of digits, with
  the result clamped to a 64-bit \<open>long\<close>. \<open>strtoul\<close> negates modulo \<open>2 ^ 64\<close> and clamps above.\<close>

definition strto_parts :: "string \<Rightarrow> bool \<times> nat" where
  "strto_parts s =
     (let s = dropWhile is_space s;
          neg = (case s of c # _ \<Rightarrow> c = CHR ''-'' | [] \<Rightarrow> False);
          s = (case s of c # cs \<Rightarrow> if c = CHR ''-'' \<or> c = CHR ''+'' then cs else s | [] \<Rightarrow> s)
      in (neg, dec_value (takeWhile is_digit s)))"

definition strtol :: "string \<Rightarrow> int" where
  "strtol s =
     (case strto_parts s of (neg, v) \<Rightarrow>
        if neg then max (- (2 ^ 63)) (- int v) else min (2 ^ 63 - 1) (int v))"

definition strtoul :: "string \<Rightarrow> u64" where
  "strtoul s =
     (case strto_parts s of (neg, v) \<Rightarrow>
        if 2 ^ 64 \<le> v then - 1 else if neg then - of_nat v else of_nat v)"

text \<open>\<open>%d\<close> and \<open>%u\<close>: the digits without leading zeros.\<close>

definition digit_char :: "nat \<Rightarrow> char" where
  "digit_char d = char_of (48 + d)"

fun dec_nat :: "nat \<Rightarrow> string" where
  "dec_nat n = (if n < 10 then [digit_char n] else dec_nat (n div 10) @ [digit_char (n mod 10)])"

declare dec_nat.simps [simp del]

definition dec_int :: "int \<Rightarrow> string" where
  "dec_int i = (if i < 0 then CHR ''-'' # dec_nat (nat (- i)) else dec_nat (nat i))"

lemma of_char_digit_char [simp]: "d < 10 \<Longrightarrow> of_char (digit_char d) = (48 + d :: nat)"
  by (simp add: digit_char_def take_bit_eq_mod)

lemma is_digit_digit_char [simp]: "d < 10 \<Longrightarrow> is_digit (digit_char d)"
  by (simp add: is_digit_def)

lemma digit_val_digit_char [simp]: "d < 10 \<Longrightarrow> digit_val (digit_char d) = d"
  by (simp add: digit_val_def)

lemma dec_nat_digits: "\<forall>c \<in> set (dec_nat n). is_digit c"
proof (induction n rule: dec_nat.induct)
  case (1 n)
  then show ?case by (cases "n < 10") (auto simp: dec_nat.simps [of n])
qed

lemma dec_nat_nonempty [simp]: "dec_nat n \<noteq> []"
  by (subst dec_nat.simps) simp

lemma dec_value_append: "dec_value (ds @ [c]) = 10 * dec_value ds + digit_val c"
  by (simp add: dec_value_def)

lemma dec_value_dec_nat [simp]: "dec_value (dec_nat n) = n"
proof (induction n rule: dec_nat.induct)
  case (1 n)
  show ?case
  proof (cases "n < 10")
    case True
    then show ?thesis by (simp add: dec_nat.simps [of n] dec_value_def)
  next
    case False
    with 1 show ?thesis by (simp add: dec_nat.simps [of n] dec_value_append)
  qed
qed

lemma digit_not_space: "is_digit c \<Longrightarrow> \<not> is_space c"
  by (auto simp: is_digit_def is_space_def)

lemma digit_not_sign: "is_digit c \<Longrightarrow> c \<noteq> CHR ''-'' \<and> c \<noteq> CHR ''+''"
  by (auto simp: is_digit_def)

lemma digit_neq [simp]: "is_digit c \<Longrightarrow> c \<noteq> CHR '':''"
  by (auto simp: is_digit_def)

lemma strto_parts_digits:
  assumes "ds \<noteq> []" and "\<forall>c \<in> set ds. is_digit c" and "rest = [] \<or> \<not> is_digit (hd rest)"
  shows "strto_parts (ds @ rest) = (False, dec_value ds)"
proof -
  obtain d ds' where ds: "ds = d # ds'" using assms(1) by (cases ds) auto
  with assms(2) have d: "is_digit d" by simp
  have tw: "takeWhile is_digit (ds @ rest) = ds"
    using assms(2,3) by (simp add: takeWhile_append) (cases rest; simp)
  have "dropWhile is_space (ds @ rest) = ds @ rest"
    using d by (simp add: ds digit_not_space)
  then show ?thesis
    using d tw by (simp add: strto_parts_def Let_def ds digit_not_sign)
qed

lemma strtol_dec_nat:
  assumes "n < 2 ^ 63"
  shows "strtol (dec_nat n) = int n"
  using strto_parts_digits [of "dec_nat n" "[]"] assms
  by (simp add: strtol_def dec_nat_digits)

section \<open>xmrig::String\<close>

definition str_isNull :: "cstr \<Rightarrow> bool" where
  "str_isNull s \<longleftrightarrow> s = None"

definition str_size :: "cstr \<Rightarrow> nat" where
  "str_size s = (case s of None \<Rightarrow> 0 | Some t \<Rightarrow> length t)"

definition str_isEmpty :: "cstr \<Rightarrow> bool" where
  "str_isEmpty s \<longleftrightarrow> str_size s = 0"

definition str_isEqual :: "cstr \<Rightarrow> cstr \<Rightarrow> bool" where
  "str_isEqual a b =
     (if str_size a \<noteq> str_size b then False
      else (a \<noteq> None \<and> b \<noteq> None \<and> the a = the b) \<or> (a = None \<and> b = None))"

definition str_contains :: "cstr \<Rightarrow> string \<Rightarrow> bool" where
  "str_contains s p = (if str_isNull s then False else strstr (the s) p \<noteq> None)"

lemma str_isEqual_iff [simp]: "str_isEqual a b \<longleftrightarrow> a = b"
  by (auto simp: str_isEqual_def str_size_def split: option.splits)

text \<open>\<open>split\<close>: the loop keeps the start of the current field; empty fields are dropped.\<close>

fun split_loop :: "char \<Rightarrow> string \<Rightarrow> string \<Rightarrow> string list" where
  "split_loop sep acc [] = (if acc = [] then [] else [rev acc])"
| "split_loop sep acc (c # cs) =
     (if c = sep then (if acc = [] then [] else [rev acc]) @ split_loop sep [] cs
      else split_loop sep (c # acc) cs)"

definition str_split :: "cstr \<Rightarrow> char \<Rightarrow> cstr list" where
  "str_split s sep = (if str_size s = 0 then [s] else map Some (split_loop sep [] (the s)))"

text \<open>\<open>join\<close>: the fields with \<open>sep\<close> between them, null for an empty vector.\<close>

fun join_loop :: "char \<Rightarrow> string list \<Rightarrow> string" where
  "join_loop sep [] = []"
| "join_loop sep [x] = x"
| "join_loop sep (x # y # ys) = x @ sep # join_loop sep (y # ys)"

definition str_join :: "string list \<Rightarrow> char \<Rightarrow> cstr" where
  "str_join xs sep = (if xs = [] then None else Some (join_loop sep xs))"

lemma split_loop_field:
  "sep \<notin> set x \<Longrightarrow> split_loop sep acc (x @ sep # cs)
     = (if rev acc @ x = [] then [] else [rev acc @ x]) @ split_loop sep [] cs"
  by (induction x arbitrary: acc) auto

lemma split_loop_last:
  "sep \<notin> set x \<Longrightarrow> split_loop sep acc x = (if rev acc @ x = [] then [] else [rev acc @ x])"
  by (induction x arbitrary: acc) auto

lemma split_join_loop:
  assumes "xs \<noteq> []" and "\<forall>x \<in> set xs. x \<noteq> [] \<and> sep \<notin> set x"
  shows "split_loop sep [] (join_loop sep xs) = xs"
  using assms
proof (induction sep xs rule: join_loop.induct)
  case (1 sep)
  then show ?case by simp
next
  case (2 sep x)
  then show ?case by (simp add: split_loop_last)
next
  case (3 sep x y ys)
  then show ?case by (simp add: split_loop_field)
qed

lemma join_loop_nonempty: "xs \<noteq> [] \<Longrightarrow> \<forall>x \<in> set xs. x \<noteq> [] \<Longrightarrow> join_loop sep xs \<noteq> []"
  by (induction sep xs rule: join_loop.induct) auto

end
