(* ===== verification/Cvt.thy ===== *)
theory Cvt
  imports CText
begin

text \<open>
  Hexadecimal conversion (\<open>src/base/tools/Cvt.cpp\<close>). The branch-free digit arithmetic is kept at
  the widths of the code: \<open>unsigned int\<close> intermediates, narrowed to \<open>unsigned char\<close>. The decoder
  returns the bytes it wrote before it stopped, because some callers ignore its verdict.
\<close>

definition byte_of :: "char \<Rightarrow> u8" where
  "byte_of c = of_nat (of_char c)"

definition char_of_byte :: "u8 \<Rightarrow> char" where
  "char_of_byte b = char_of (unat b)"

lemma byte_of_char_of_byte [simp]: "byte_of (char_of_byte b) = b"
proof -
  have "unat b < 256" using unsigned_less [of b] by simp
  then show ?thesis by (simp add: byte_of_def char_of_byte_def)
qed

lemma char_of_byte_byte_of [simp]: "char_of_byte (byte_of c) = c"
proof -
  have "of_char c < (256 :: nat)" by simp
  then show ?thesis by (simp add: byte_of_def char_of_byte_def unat_of_nat)
qed

section \<open>Encoding\<close>

definition hex_digit :: "u8 \<Rightarrow> u8" where
  "hex_digit c = (let c = ucast c :: u32 in ucast (87 + c + (drop_bit 8 (c - 10) AND NOT 38)))"

fun cvt_bin2hex_loop :: "u8 list \<Rightarrow> string" where
  "cvt_bin2hex_loop [] = []"
| "cvt_bin2hex_loop (b # bs) =
     char_of_byte (hex_digit (drop_bit 4 b)) # char_of_byte (hex_digit (b AND 0xf)) # cvt_bin2hex_loop bs"

text \<open>\<open>None\<close> is the null result for a buffer that is too small (the guard against
  \<open>SIZE_MAX / 2\<close> bytes of input is out of reach of a list of bytes in memory).\<close>

definition cvt_bin2hex :: "nat \<Rightarrow> u8 list \<Rightarrow> cstr" where
  "cvt_bin2hex hex_maxlen bin =
     (if 2 ^ 63 - 1 \<le> length bin \<or> hex_maxlen < length bin * 2 then None
      else Some (cvt_bin2hex_loop bin))"

definition toHex_buf :: "nat \<Rightarrow> u8 list \<Rightarrow> cstr" where
  "toHex_buf hex_maxlen bin = cvt_bin2hex hex_maxlen bin"

definition toHex :: "u8 list \<Rightarrow> cstr" where
  "toHex bin = (if bin = [] then None else toHex_buf (length bin * 2 + 1) bin)"

section \<open>Decoding\<close>

definition hex_num :: "u8 \<Rightarrow> u8" where
  "hex_num c = c XOR 48"

definition hex_num0 :: "u8 \<Rightarrow> u8" where
  "hex_num0 c = ucast (drop_bit 8 ((ucast (hex_num c) :: u32) - 10))"

definition hex_alpha :: "u8 \<Rightarrow> u8" where
  "hex_alpha c = ucast (((ucast c :: u32) AND NOT 32) - 55)"

definition hex_alpha0 :: "u8 \<Rightarrow> u8" where
  "hex_alpha0 c =
     (let a = ucast (hex_alpha c) :: u32 in ucast (drop_bit 8 ((a - 10) XOR (a - 16))))"

definition hex_bad :: "u8 \<Rightarrow> bool" where
  "hex_bad c \<longleftrightarrow> hex_num0 c OR hex_alpha0 c = 0"

definition hex_val :: "u8 \<Rightarrow> u8" where
  "hex_val c = (hex_num0 c AND hex_num c) OR (hex_alpha0 c AND hex_alpha c)"

text \<open>The loop: no error so far, the bytes written, the half-byte flag, the unread rest.\<close>

fun hex2bin_loop :: "nat \<Rightarrow> string \<Rightarrow> u8 \<Rightarrow> bool \<Rightarrow> u8 list \<Rightarrow> bool \<times> u8 list \<times> bool \<times> string" where
  "hex2bin_loop bin_maxlen [] c_acc state bin = (True, bin, state, [])"
| "hex2bin_loop bin_maxlen (h # hs) c_acc state bin =
     (let c = byte_of h in
      if hex_bad c then (True, bin, state, h # hs)
      else if bin_maxlen \<le> length bin then (False, bin, state, h # hs)
      else if \<not> state then hex2bin_loop bin_maxlen hs (hex_val c * 16) True bin
      else hex2bin_loop bin_maxlen hs c_acc False (bin @ [c_acc OR hex_val c]))"

text \<open>The verdict (\<open>ret = 0\<close>, with \<open>hex_end\<close> null) and what was written to \<open>bin\<close>.\<close>

definition cvt_hex2bin :: "nat \<Rightarrow> string \<Rightarrow> bool \<times> u8 list" where
  "cvt_hex2bin bin_maxlen hex =
     (case hex2bin_loop bin_maxlen hex 0 False [] of
        (ok, bin, state, rest) \<Rightarrow> (ok \<and> \<not> state \<and> rest = [], bin))"

text \<open>\<open>fromHex(Buffer &, \<dots>)\<close> and the overload that returns a buffer, empty on failure.\<close>

definition fromHex_buf :: "string \<Rightarrow> bool \<times> u8 list" where
  "fromHex_buf hex =
     (if hex = [] then (False, [])
      else let n = length hex div 2; r = cvt_hex2bin n hex
           in (fst r, snd r @ replicate (n - length (snd r)) 0))"

definition fromHex :: "string \<Rightarrow> u8 list" where
  "fromHex hex = (let r = fromHex_buf hex in if fst r then snd r else [])"

text \<open>\<open>fromHex(uint8_t *bin, size_t bin_maxlen, \<dots>)\<close>: the buffer after the call.\<close>

definition fromHex_to :: "u8 list \<Rightarrow> string \<Rightarrow> bool \<times> u8 list" where
  "fromHex_to bin hex =
     (if hex = [] then (False, bin)
      else let r = cvt_hex2bin (length bin) hex
           in (fst r, snd r @ drop (length (snd r)) bin))"

section \<open>Round trip\<close>

lemmas hex_defs = hex_digit_def hex_bad_def hex_val_def hex_num0_def hex_num_def
  hex_alpha0_def hex_alpha_def Let_def mask_eq_exp_minus_1

lemma hex_digits_ok: "list_all (\<lambda>n. \<not> hex_bad (hex_digit (of_nat n)) \<and> hex_val (hex_digit (of_nat n)) = of_nat n) [0..<16]"
  by (simp add: upt_rec hex_defs)

lemma hex_digit_ok:
  assumes "x < 16"
  shows "\<not> hex_bad (hex_digit x) \<and> hex_val (hex_digit x) = x"
proof -
  have "unat x \<in> set [0..<16]" using assms by (simp add: word_less_nat_alt)
  with hex_digits_ok show ?thesis unfolding list_all_iff by fastforce
qed

lemma high_nibble_less: "drop_bit 4 (b :: u8) < 16"
proof -
  have "unat (drop_bit 4 b) = unat b div 16"
    by (simp add: unat_drop_bit_eq drop_bit_eq_div [of 4 "unat b"])
  moreover have "unat b < 256" using unsigned_less [of b] by simp
  ultimately show ?thesis by (simp add: word_less_nat_alt less_mult_imp_div_less)
qed

lemma low_nibble_less: "(b :: u8) AND 15 < 16"
proof -
  have "b AND 15 \<le> 15" by (rule word_and_le1)
  then show ?thesis by (simp add: word_le_nat_alt word_less_nat_alt)
qed

lemma nibbles_join: "(drop_bit 4 (b :: u8) * 16) OR (b AND 15) = b"
proof -
  have 15: "(15 :: u8) = mask 4" by (simp add: mask_eq_exp_minus_1)
  have "drop_bit 4 b * 16 = push_bit 4 (drop_bit 4 b)" by (simp add: push_bit_eq_mult)
  then show ?thesis
    unfolding 15 take_bit_eq_mask [symmetric]
    by (auto simp: bit_eq_iff bit_simps)
qed

lemma hex2bin_bin2hex_loop:
  assumes "length bin + length bs \<le> bin_maxlen"
  shows "hex2bin_loop bin_maxlen (cvt_bin2hex_loop bs) acc False bin = (True, bin @ bs, False, [])"
  using assms
proof (induction bs arbitrary: acc bin)
  case Nil
  then show ?case by simp
next
  case (Cons b bs)
  note h = hex_digit_ok [OF high_nibble_less [of b]] and l = hex_digit_ok [OF low_nibble_less [of b]]
  from Cons.prems have "length bin < bin_maxlen" by simp
  with h l Cons.prems show ?case
    by (simp add: Let_def nibbles_join Cons.IH)
qed

lemma length_bin2hex_loop [simp]: "length (cvt_bin2hex_loop bs) = 2 * length bs"
  by (induction bs) auto

lemma cvt_hex2bin_bin2hex:
  "length bs \<le> bin_maxlen \<Longrightarrow> cvt_hex2bin bin_maxlen (cvt_bin2hex_loop bs) = (True, bs)"
  by (simp add: cvt_hex2bin_def hex2bin_bin2hex_loop)

lemma fromHex_bin2hex: "bs \<noteq> [] \<Longrightarrow> fromHex (cvt_bin2hex_loop bs) = bs"
proof -
  assume "bs \<noteq> []"
  then have "cvt_bin2hex_loop bs \<noteq> []" by (cases bs) auto
  then show ?thesis by (simp add: fromHex_def fromHex_buf_def Let_def cvt_hex2bin_bin2hex)
qed

text \<open>What the decoder writes never exceeds the buffer, and half of the digits read.\<close>

lemma hex2bin_loop_bound:
  "hex2bin_loop n hex acc st bin = (ok, out, st', rest) \<Longrightarrow> length bin \<le> n \<Longrightarrow>
     length out \<le> n \<and> length bin \<le> length out \<and>
     2 * length out + (if st' then 1 else 0) + length rest
       = 2 * length bin + (if st then 1 else 0) + length hex"
proof (induction hex arbitrary: acc st bin)
  case Nil
  then show ?case by auto
next
  case (Cons h hs)
  consider (stop) "hex_bad (byte_of h) \<or> n \<le> length bin"
    | (hi) "\<not> hex_bad (byte_of h)" "length bin < n" "\<not> st"
    | (lo) "\<not> hex_bad (byte_of h)" "length bin < n" "st"
    by linarith
  then show ?case
  proof cases
    case stop
    with Cons.prems show ?thesis by (auto simp: Let_def split: if_splits)
  next
    case hi
    with Cons.prems Cons.IH [of "hex_val (byte_of h) * 16" True bin] show ?thesis
      by (simp add: Let_def)
  next
    case lo
    with Cons.prems Cons.IH [of acc False "bin @ [acc OR hex_val (byte_of h)]"] show ?thesis
      by (simp add: Let_def)
  qed
qed

end
