(* ===== verification/Algorithm.thy ===== *)
theory Algorithm
  imports CText
begin

text \<open>
  Algorithm identifiers, families, names and aliases (\<open>src/base/crypto/Algorithm.h\<close>,
  \<open>Algorithm.cpp\<close>) in the configuration of the build files: RandomX, CryptoNight lite, heavy,
  pico and femto, and Argon2 are compiled in, KawPow and GhostRider are not.
\<close>

section \<open>Identifiers\<close>

type_synonym algo_id = u32

text \<open>One byte each: family, L3 memory, base variant or L2 memory, extra variant.\<close>

abbreviation ALGO_INVALID :: algo_id where "ALGO_INVALID \<equiv> 0"
abbreviation CN_0 :: algo_id where "CN_0 \<equiv> 0x63150000"
abbreviation CN_1 :: algo_id where "CN_1 \<equiv> 0x63150100"
abbreviation CN_2 :: algo_id where "CN_2 \<equiv> 0x63150200"
abbreviation CN_R :: algo_id where "CN_R \<equiv> 0x63150272"
abbreviation CN_FAST :: algo_id where "CN_FAST \<equiv> 0x63150166"
abbreviation CN_HALF :: algo_id where "CN_HALF \<equiv> 0x63150268"
abbreviation CN_XAO :: algo_id where "CN_XAO \<equiv> 0x63150078"
abbreviation CN_RTO :: algo_id where "CN_RTO \<equiv> 0x63150172"
abbreviation CN_RWZ :: algo_id where "CN_RWZ \<equiv> 0x63150277"
abbreviation CN_ZLS :: algo_id where "CN_ZLS \<equiv> 0x6315027a"
abbreviation CN_DOUBLE :: algo_id where "CN_DOUBLE \<equiv> 0x63150264"
abbreviation CN_CCX :: algo_id where "CN_CCX \<equiv> 0x63150063"
abbreviation CN_LITE_0 :: algo_id where "CN_LITE_0 \<equiv> 0x63140000"
abbreviation CN_LITE_1 :: algo_id where "CN_LITE_1 \<equiv> 0x63140100"
abbreviation CN_HEAVY_0 :: algo_id where "CN_HEAVY_0 \<equiv> 0x63160000"
abbreviation CN_HEAVY_TUBE :: algo_id where "CN_HEAVY_TUBE \<equiv> 0x63160172"
abbreviation CN_HEAVY_XHV :: algo_id where "CN_HEAVY_XHV \<equiv> 0x63160068"
abbreviation CN_PICO_0 :: algo_id where "CN_PICO_0 \<equiv> 0x63120200"
abbreviation CN_PICO_TLO :: algo_id where "CN_PICO_TLO \<equiv> 0x63120274"
abbreviation CN_UPX2 :: algo_id where "CN_UPX2 \<equiv> 0x63110200"
abbreviation CN_GR_0 :: algo_id where "CN_GR_0 \<equiv> 0x63130100"
abbreviation CN_GR_1 :: algo_id where "CN_GR_1 \<equiv> 0x63130101"
abbreviation CN_GR_2 :: algo_id where "CN_GR_2 \<equiv> 0x63150102"
abbreviation CN_GR_3 :: algo_id where "CN_GR_3 \<equiv> 0x63140103"
abbreviation CN_GR_4 :: algo_id where "CN_GR_4 \<equiv> 0x63120104"
abbreviation CN_GR_5 :: algo_id where "CN_GR_5 \<equiv> 0x63120105"
abbreviation GHOSTRIDER_RTM :: algo_id where "GHOSTRIDER_RTM \<equiv> 0x6c150000"
abbreviation RX_0 :: algo_id where "RX_0 \<equiv> 0x72151200"
abbreviation RX_WOW :: algo_id where "RX_WOW \<equiv> 0x72141177"
abbreviation RX_ARQ :: algo_id where "RX_ARQ \<equiv> 0x72121061"
abbreviation RX_GRAFT :: algo_id where "RX_GRAFT \<equiv> 0x72151267"
abbreviation RX_SFX :: algo_id where "RX_SFX \<equiv> 0x72151273"
abbreviation RX_YADA :: algo_id where "RX_YADA \<equiv> 0x72151279"
abbreviation AR2_CHUKWA :: algo_id where "AR2_CHUKWA \<equiv> 0x61130000"
abbreviation AR2_CHUKWA_V2 :: algo_id where "AR2_CHUKWA_V2 \<equiv> 0x61140000"
abbreviation AR2_WRKZ :: algo_id where "AR2_WRKZ \<equiv> 0x61120000"
abbreviation KAWPOW_RVN :: algo_id where "KAWPOW_RVN \<equiv> 0x6b0f0000"

abbreviation FAM_UNKNOWN :: u32 where "FAM_UNKNOWN \<equiv> 0"
abbreviation FAM_CN_ANY :: u32 where "FAM_CN_ANY \<equiv> 0x63000000"
abbreviation FAM_CN :: u32 where "FAM_CN \<equiv> 0x63150000"
abbreviation FAM_CN_LITE :: u32 where "FAM_CN_LITE \<equiv> 0x63140000"
abbreviation FAM_CN_HEAVY :: u32 where "FAM_CN_HEAVY \<equiv> 0x63160000"
abbreviation FAM_CN_PICO :: u32 where "FAM_CN_PICO \<equiv> 0x63120000"
abbreviation FAM_CN_FEMTO :: u32 where "FAM_CN_FEMTO \<equiv> 0x63110000"
abbreviation FAM_RANDOM_X :: u32 where "FAM_RANDOM_X \<equiv> 0x72000000"
abbreviation FAM_ARGON2 :: u32 where "FAM_ARGON2 \<equiv> 0x61000000"
abbreviation FAM_GHOSTRIDER :: u32 where "FAM_GHOSTRIDER \<equiv> 0x6c000000"
abbreviation FAM_KAWPOW :: u32 where "FAM_KAWPOW \<equiv> 0x6b000000"

definition algo_isCN :: "algo_id \<Rightarrow> bool" where
  "algo_isCN i \<longleftrightarrow> i AND 0xff000000 = FAM_CN_ANY"

definition algo_base :: "algo_id \<Rightarrow> algo_id" where
  "algo_base i = (if algo_isCN i then CN_0 OR (i AND 0xff00) else ALGO_INVALID)"

definition algo_family :: "algo_id \<Rightarrow> u32" where
  "algo_family i = i AND (if algo_isCN i then 0xffff0000 else 0xff000000)"

definition algo_isValid :: "algo_id \<Rightarrow> bool" where
  "algo_isValid i \<longleftrightarrow> i \<noteq> ALGO_INVALID \<and> FAM_UNKNOWN < algo_family i"

section \<open>Names and aliases\<close>

definition kAlgorithmNames :: "(algo_id \<times> string) list" where
  "kAlgorithmNames =
    [(CN_0, ''cn/0''),
     (CN_1, ''cn/1''),
     (CN_2, ''cn/2''),
     (CN_R, ''cn/r''),
     (CN_FAST, ''cn/fast''),
     (CN_HALF, ''cn/half''),
     (CN_XAO, ''cn/xao''),
     (CN_RTO, ''cn/rto''),
     (CN_RWZ, ''cn/rwz''),
     (CN_ZLS, ''cn/zls''),
     (CN_DOUBLE, ''cn/double''),
     (CN_CCX, ''cn/ccx''),
     (CN_LITE_0, ''cn-lite/0''),
     (CN_LITE_1, ''cn-lite/1''),
     (CN_HEAVY_0, ''cn-heavy/0''),
     (CN_HEAVY_TUBE, ''cn-heavy/tube''),
     (CN_HEAVY_XHV, ''cn-heavy/xhv''),
     (CN_PICO_0, ''cn-pico''),
     (CN_PICO_TLO, ''cn-pico/tlo''),
     (CN_UPX2, ''cn/upx2''),
     (RX_0, ''rx/0''),
     (RX_WOW, ''rx/wow''),
     (RX_ARQ, ''rx/arq''),
     (RX_GRAFT, ''rx/graft''),
     (RX_SFX, ''rx/sfx''),
     (RX_YADA, ''rx/yada''),
     (AR2_CHUKWA, ''argon2/chukwa''),
     (AR2_CHUKWA_V2, ''argon2/chukwav2''),
     (AR2_WRKZ, ''argon2/ninja'')]"

definition kAlgorithmAliases :: "(string \<times> algo_id) list" where
  "kAlgorithmAliases =
    [(''cn/0'', CN_0),
     (''cryptonight/0'', CN_0),
     (''cryptonight'', CN_0),
     (''cn'', CN_0),
     (''cn/1'', CN_1),
     (''cryptonight/1'', CN_1),
     (''cryptonight-monerov7'', CN_1),
     (''cryptonight_v7'', CN_1),
     (''cn/2'', CN_2),
     (''cryptonight/2'', CN_2),
     (''cryptonight-monerov8'', CN_2),
     (''cryptonight_v8'', CN_2),
     (''cn/fast'', CN_FAST),
     (''cryptonight/fast'', CN_FAST),
     (''cryptonight/msr'', CN_FAST),
     (''cn/msr'', CN_FAST),
     (''cn/r'', CN_R),
     (''cryptonight/r'', CN_R),
     (''cryptonight_r'', CN_R),
     (''cn/xao'', CN_XAO),
     (''cryptonight/xao'', CN_XAO),
     (''cryptonight_alloy'', CN_XAO),
     (''cn/half'', CN_HALF),
     (''cryptonight/half'', CN_HALF),
     (''cn/rto'', CN_RTO),
     (''cryptonight/rto'', CN_RTO),
     (''cn/rwz'', CN_RWZ),
     (''cryptonight/rwz'', CN_RWZ),
     (''cn/zls'', CN_ZLS),
     (''cryptonight/zls'', CN_ZLS),
     (''cn/double'', CN_DOUBLE),
     (''cryptonight/double'', CN_DOUBLE),
     (''cn/ccx'', CN_CCX),
     (''cryptonight/ccx'', CN_CCX),
     (''cryptonight/conceal'', CN_CCX),
     (''cn/conceal'', CN_CCX),
     (''cn-lite/0'', CN_LITE_0),
     (''cryptonight-lite/0'', CN_LITE_0),
     (''cryptonight-lite'', CN_LITE_0),
     (''cryptonight-light'', CN_LITE_0),
     (''cn-lite'', CN_LITE_0),
     (''cn-light'', CN_LITE_0),
     (''cryptonight_lite'', CN_LITE_0),
     (''cn-lite/1'', CN_LITE_1),
     (''cryptonight-lite/1'', CN_LITE_1),
     (''cryptonight-aeonv7'', CN_LITE_1),
     (''cryptonight_lite_v7'', CN_LITE_1),
     (''cn-heavy/0'', CN_HEAVY_0),
     (''cryptonight-heavy/0'', CN_HEAVY_0),
     (''cryptonight-heavy'', CN_HEAVY_0),
     (''cn-heavy'', CN_HEAVY_0),
     (''cryptonight_heavy'', CN_HEAVY_0),
     (''cn-heavy/xhv'', CN_HEAVY_XHV),
     (''cryptonight-heavy/xhv'', CN_HEAVY_XHV),
     (''cryptonight_haven'', CN_HEAVY_XHV),
     (''cn-heavy/tube'', CN_HEAVY_TUBE),
     (''cryptonight-heavy/tube'', CN_HEAVY_TUBE),
     (''cryptonight-bittube2'', CN_HEAVY_TUBE),
     (''cn-pico'', CN_PICO_0),
     (''cryptonight-pico'', CN_PICO_0),
     (''cn-pico/0'', CN_PICO_0),
     (''cryptonight-pico/trtl'', CN_PICO_0),
     (''cn-pico/trtl'', CN_PICO_0),
     (''cryptonight-turtle'', CN_PICO_0),
     (''cn-trtl'', CN_PICO_0),
     (''cryptonight-ultralite'', CN_PICO_0),
     (''cn-ultralite'', CN_PICO_0),
     (''cryptonight_turtle'', CN_PICO_0),
     (''cn_turtle'', CN_PICO_0),
     (''cn-pico/tlo'', CN_PICO_TLO),
     (''cryptonight-pico/tlo'', CN_PICO_TLO),
     (''cryptonight/ultra'', CN_PICO_TLO),
     (''cn/ultra'', CN_PICO_TLO),
     (''cryptonight-talleo'', CN_PICO_TLO),
     (''cn-talleo'', CN_PICO_TLO),
     (''cryptonight_talleo'', CN_PICO_TLO),
     (''cn_talleo'', CN_PICO_TLO),
     (''cn/upx2'', CN_UPX2),
     (''cryptonight/upx2'', CN_UPX2),
     (''cn-extremelite/upx2'', CN_UPX2),
     (''cryptonight-upx/2'', CN_UPX2),
     (''rx/0'', RX_0),
     (''randomx/0'', RX_0),
     (''randomx/test'', RX_0),
     (''rx/test'', RX_0),
     (''randomx'', RX_0),
     (''rx'', RX_0),
     (''rx/wow'', RX_WOW),
     (''randomx/wow'', RX_WOW),
     (''randomwow'', RX_WOW),
     (''rx/arq'', RX_ARQ),
     (''randomx/arq'', RX_ARQ),
     (''randomarq'', RX_ARQ),
     (''rx/graft'', RX_GRAFT),
     (''randomx/graft'', RX_GRAFT),
     (''randomgraft'', RX_GRAFT),
     (''rx/sfx'', RX_SFX),
     (''randomx/sfx'', RX_SFX),
     (''randomsfx'', RX_SFX),
     (''rx/yada'', RX_YADA),
     (''randomx/yada'', RX_YADA),
     (''randomyada'', RX_YADA),
     (''argon2/chukwa'', AR2_CHUKWA),
     (''chukwa'', AR2_CHUKWA),
     (''argon2/chukwav2'', AR2_CHUKWA_V2),
     (''chukwav2'', AR2_CHUKWA),
     (''argon2/ninja'', AR2_WRKZ),
     (''argon2/wrkz'', AR2_WRKZ)]"

definition algo_name :: "algo_id \<Rightarrow> string" where
  "algo_name i =
     (if \<not> algo_isValid i then ''invalid''
      else case map_of kAlgorithmNames i of Some n \<Rightarrow> n | None \<Rightarrow> ''invalid'')"

definition algo_of_u32 :: "u32 \<Rightarrow> algo_id" where
  "algo_of_u32 i = (if map_of kAlgorithmNames i \<noteq> None then i else ALGO_INVALID)"

text \<open>\<open>find\<close> on a map ordered by \<open>strcasecmp\<close>: the entry that differs only in letter case.\<close>

fun alias_find :: "(string \<times> algo_id) list \<Rightarrow> string \<Rightarrow> algo_id option" where
  "alias_find [] name = None"
| "alias_find ((a, i) # t) name = (if strcasecmp_eq a name then Some i else alias_find t name)"

definition algo_parse :: "cstr \<Rightarrow> algo_id" where
  "algo_parse name =
     (case name of None \<Rightarrow> ALGO_INVALID
      | Some n \<Rightarrow> if length n < 1 then ALGO_INVALID
          else case alias_find kAlgorithmAliases n of Some i \<Rightarrow> i | None \<Rightarrow> ALGO_INVALID)"

definition algo_order :: "algo_id list" where
  "algo_order = [CN_0, CN_1, CN_2, CN_R, CN_FAST, CN_HALF, CN_XAO, CN_RTO,
     CN_RWZ, CN_ZLS, CN_DOUBLE, CN_CCX, CN_LITE_0, CN_LITE_1, CN_HEAVY_0, CN_HEAVY_TUBE,
     CN_HEAVY_XHV, CN_PICO_0, CN_PICO_TLO, CN_UPX2, RX_0, RX_WOW, RX_ARQ, RX_GRAFT,
     RX_SFX, RX_YADA, AR2_CHUKWA, AR2_CHUKWA_V2, AR2_WRKZ, KAWPOW_RVN, GHOSTRIDER_RTM]"

definition algo_all :: "(algo_id \<Rightarrow> bool) option \<Rightarrow> algo_id list" where
  "algo_all flt = filter (\<lambda>i. map_of kAlgorithmNames i \<noteq> None
     \<and> (case flt of None \<Rightarrow> True | Some f \<Rightarrow> f i)) algo_order"

section \<open>The tables agree\<close>

lemma kAlgorithmNames_valid: "(i, n) \<in> set kAlgorithmNames \<Longrightarrow> algo_isValid i"
proof -
  have "list_all (\<lambda>(i, n). algo_isValid i) kAlgorithmNames"
    by (simp add: kAlgorithmNames_def algo_isValid_def algo_family_def algo_isCN_def)
  then show "(i, n) \<in> set kAlgorithmNames \<Longrightarrow> algo_isValid i" by (auto simp: list_all_iff)
qed

lemma kAlgorithmNames_distinct: "distinct (map fst kAlgorithmNames)"
  by (simp add: kAlgorithmNames_def)

lemma kAlgorithmNames_lower: "(i, n) \<in> set kAlgorithmNames \<Longrightarrow> map to_lower n = n \<and> n \<noteq> []"
proof -
  have "list_all (\<lambda>(i, n). map to_lower n = n \<and> n \<noteq> []) kAlgorithmNames"
    by (simp add: kAlgorithmNames_def)
  then show "(i, n) \<in> set kAlgorithmNames \<Longrightarrow> map to_lower n = n \<and> n \<noteq> []"
    by (auto simp: list_all_iff)
qed

lemma alias_find_map_of:
  "alias_find t n = map_of (map (\<lambda>(a, i). (map to_lower a, i)) t) (map to_lower n)"
  by (induction t n rule: alias_find.induct) (auto simp: strcasecmp_eq_def)

lemma kAlgorithmAliases_lower: "map (\<lambda>(a, i). (map to_lower a, i)) kAlgorithmAliases = kAlgorithmAliases"
  by (simp add: kAlgorithmAliases_def)

lemma kAlgorithmAliases_names:
  "(i, n) \<in> set kAlgorithmNames \<Longrightarrow> map_of kAlgorithmAliases n = Some i"
proof -
  have "list_all (\<lambda>(i, n). map_of kAlgorithmAliases n = Some i) kAlgorithmNames"
    by code_simp
  then show "(i, n) \<in> set kAlgorithmNames \<Longrightarrow> map_of kAlgorithmAliases n = Some i"
    by (auto simp: list_all_iff)
qed

lemma algo_parse_table:
  assumes "(i, n) \<in> set kAlgorithmNames" and "map to_lower m = n"
  shows "algo_parse (Some m) = i"
proof -
  have "alias_find kAlgorithmAliases m = Some i"
    using kAlgorithmAliases_names [OF assms(1)]
    by (simp add: alias_find_map_of kAlgorithmAliases_lower assms(2))
  moreover have "1 \<le> length m"
    using kAlgorithmNames_lower [OF assms(1)] assms(2) by (cases m) auto
  ultimately show ?thesis by (cases m) (simp_all add: algo_parse_def)
qed

lemma algo_name_table: "(i, n) \<in> set kAlgorithmNames \<Longrightarrow> algo_name i = n"
  using kAlgorithmNames_distinct
  by (simp add: algo_name_def kAlgorithmNames_valid)

end
