(* ===== verification/Keccak.thy ===== *)
theory Keccak
  imports Prelude
begin

text \<open>
  The Keccak permutation and sponge (\<open>src/base/crypto/keccak.cpp\<close>, \<open>keccak.h\<close>). The state is
  the array of 25 lanes; every in-place assignment of the C code is a list update in the same
  order. The permutation is compared with the specification of Keccak-f[1600] by coordinates.
\<close>

section \<open>The permutation as the code computes it\<close>

definition ROTL64 :: "u64 \<Rightarrow> nat \<Rightarrow> u64" where
  "ROTL64 x y = push_bit y x OR drop_bit (64 - y) x"

definition keccakf_rndc :: "u64 list" where
  "keccakf_rndc =
    [0x0000000000000001, 0x0000000000008082, 0x800000000000808a,
     0x8000000080008000, 0x000000000000808b, 0x0000000080000001,
     0x8000000080008081, 0x8000000000008009, 0x000000000000008a,
     0x0000000000000088, 0x0000000080008009, 0x000000008000000a,
     0x000000008000808b, 0x800000000000008b, 0x8000000000008089,
     0x8000000000008003, 0x8000000000008002, 0x8000000000000080,
     0x000000000000800a, 0x800000008000000a, 0x8000000080008081,
     0x8000000000008080, 0x0000000080000001, 0x8000000080008008]"

definition keccakf_bc :: "u64 list \<Rightarrow> u64 list" where
  "keccakf_bc st =
     [st ! 0 XOR st ! 5 XOR st ! 10 XOR st ! 15 XOR st ! 20,
      st ! 1 XOR st ! 6 XOR st ! 11 XOR st ! 16 XOR st ! 21,
      st ! 2 XOR st ! 7 XOR st ! 12 XOR st ! 17 XOR st ! 22,
      st ! 3 XOR st ! 8 XOR st ! 13 XOR st ! 18 XOR st ! 23,
      st ! 4 XOR st ! 9 XOR st ! 14 XOR st ! 19 XOR st ! 24]"

definition keccakf_X :: "u64 list \<Rightarrow> nat \<Rightarrow> u64 list \<Rightarrow> u64 list" where
  "keccakf_X bc i st =
     (let t = bc ! ((i + 4) mod 5) XOR ROTL64 (bc ! ((i + 1) mod 5)) 1;
          st = st[i := st ! i XOR t];
          st = st[i + 5 := st ! (i + 5) XOR t];
          st = st[i + 10 := st ! (i + 10) XOR t];
          st = st[i + 15 := st ! (i + 15) XOR t]
      in st[i + 20 := st ! (i + 20) XOR t])"

definition keccakf_theta :: "u64 list \<Rightarrow> u64 list" where
  "keccakf_theta st =
     (let bc = keccakf_bc st
      in keccakf_X bc 4 (keccakf_X bc 3 (keccakf_X bc 2 (keccakf_X bc 1 (keccakf_X bc 0 st)))))"

text \<open>The assignments \<open>st[d] = ROTL64(st[s], r)\<close> in their order; the last one uses the saved
  \<open>st[1]\<close>.\<close>

definition rho_pi_steps :: "(nat \<times> nat \<times> nat) list" where
  "rho_pi_steps =
    [(1, 6, 44), (6, 9, 20), (9, 22, 61), (22, 14, 39), (14, 20, 18), (20, 2, 62),
     (2, 12, 43), (12, 13, 25), (13, 19, 8), (19, 23, 56), (23, 15, 41), (15, 4, 27),
     (4, 24, 14), (24, 21, 2), (21, 8, 55), (8, 16, 45), (16, 5, 36), (5, 3, 28),
     (3, 18, 21), (18, 17, 15), (17, 11, 10), (11, 7, 6), (7, 10, 3)]"

definition keccakf_rho_pi :: "u64 list \<Rightarrow> u64 list" where
  "keccakf_rho_pi st =
     (let t = st ! 1
      in (foldl (\<lambda>st (d, s, r). st[d := ROTL64 (st ! s) r]) st rho_pi_steps)[10 := ROTL64 t 1])"

definition keccakf_chi_row :: "nat \<Rightarrow> u64 list \<Rightarrow> u64 list" where
  "keccakf_chi_row j st =
     (let bc0 = st ! j; bc1 = st ! (j + 1);
          st = st[j := st ! j XOR (NOT (st ! (j + 1)) AND st ! (j + 2))];
          st = st[j + 1 := st ! (j + 1) XOR (NOT (st ! (j + 2)) AND st ! (j + 3))];
          st = st[j + 2 := st ! (j + 2) XOR (NOT (st ! (j + 3)) AND st ! (j + 4))];
          st = st[j + 3 := st ! (j + 3) XOR (NOT (st ! (j + 4)) AND bc0)]
      in st[j + 4 := st ! (j + 4) XOR (NOT bc0 AND bc1)])"

definition keccakf_chi_last :: "u64 list \<Rightarrow> u64 list" where
  "keccakf_chi_last st =
     (let bc0 = st ! 20; bc1 = st ! 21; bc2 = st ! 22; bc3 = st ! 23; bc4 = st ! 24;
          st = st[20 := st ! 20 XOR (NOT bc1 AND bc2)];
          st = st[21 := st ! 21 XOR (NOT bc2 AND bc3)];
          st = st[22 := st ! 22 XOR (NOT bc3 AND bc4)];
          st = st[23 := st ! 23 XOR (NOT bc4 AND bc0)]
      in st[24 := st ! 24 XOR (NOT bc0 AND bc1)])"

definition keccakf_chi :: "u64 list \<Rightarrow> u64 list" where
  "keccakf_chi st =
     keccakf_chi_last (keccakf_chi_row 15 (keccakf_chi_row 10 (keccakf_chi_row 5 (keccakf_chi_row 0 st))))"

definition keccakf_round :: "u64 list \<Rightarrow> u64 \<Rightarrow> u64 list" where
  "keccakf_round st rc =
     (let st = keccakf_chi (keccakf_rho_pi (keccakf_theta st)) in st[0 := st ! 0 XOR rc])"

text \<open>Every call is with 24 rounds; with more the code would read behind its constants, where the model stops.\<close>

definition keccakf :: "nat \<Rightarrow> u64 list \<Rightarrow> u64 list" where
  "keccakf rounds st = foldl keccakf_round st (take rounds keccakf_rndc)"

section \<open>The sponge\<close>

definition HASH_DATA_AREA :: nat where "HASH_DATA_AREA = 136"

definition KECCAK_ROUNDS :: nat where "KECCAK_ROUNDS = 24"

text \<open>A little-endian load and store of a lane.\<close>

fun le_word :: "u8 list \<Rightarrow> u64" where
  "le_word [] = 0"
| "le_word (b # bs) = ucast b OR push_bit 8 (le_word bs)"

definition le_bytes :: "u64 \<Rightarrow> u8 list" where
  "le_bytes w = map (\<lambda>i. ucast (drop_bit (8 * i) w)) [0..<8]"

definition absorb :: "nat \<Rightarrow> u8 list \<Rightarrow> u64 list \<Rightarrow> u64 list" where
  "absorb rsizw bs st =
     map (\<lambda>i. if i < rsizw then st ! i XOR le_word (take 8 (drop (8 * i) bs)) else st ! i) [0..<25]"

function keccak_blocks :: "nat \<Rightarrow> u8 list \<Rightarrow> u64 list \<Rightarrow> u8 list \<times> u64 list" where
  "keccak_blocks rsiz ins st =
     (if 0 < rsiz \<and> rsiz \<le> length ins
      then keccak_blocks rsiz (drop rsiz ins)
             (keccakf KECCAK_ROUNDS (absorb (rsiz div 8) ins st))
      else (ins, st))"
  by pat_completeness auto
termination
  by (relation "measure (\<lambda>(rsiz, ins, st). length ins)") auto

declare keccak_blocks.simps [simp del]

definition keccak :: "u8 list \<Rightarrow> nat \<Rightarrow> u8 list" where
  "keccak ins mdlen =
     (let rsiz = (if mdlen = 200 then HASH_DATA_AREA else 200 - 2 * mdlen);
          (ins, st) = keccak_blocks rsiz ins (replicate 25 0);
          temp = ins @ 1 # replicate (rsiz - length ins - 1) 0;
          temp = temp[rsiz - 1 := temp ! (rsiz - 1) OR 0x80];
          st = keccakf KECCAK_ROUNDS (absorb (rsiz div 8) temp st)
      in take mdlen (concat (map le_bytes st)))"

definition keccak200 :: "u8 list \<Rightarrow> u8 list" where
  "keccak200 ins = keccak ins 200"

section \<open>The specification of Keccak-f[1600]\<close>

text \<open>Lanes are addressed by coordinates, the offsets of rho come from the walk
  \<open>(x, y) \<mapsto> (y, 2x + 3y)\<close> with the triangular numbers.\<close>

fun rho_walk :: "nat \<Rightarrow> nat \<Rightarrow> nat \<Rightarrow> nat \<Rightarrow> ((nat \<times> nat) \<times> nat) list" where
  "rho_walk 0 t x y = []"
| "rho_walk (Suc n) t x y =
     ((x, y), (t + 1) * (t + 2) div 2 mod 64) # rho_walk n (t + 1) y ((2 * x + 3 * y) mod 5)"

definition rho_offset :: "nat \<Rightarrow> nat \<Rightarrow> nat" where
  "rho_offset x y = (case map_of (rho_walk 24 0 1 0) (x, y) of Some r \<Rightarrow> r | None \<Rightarrow> 0)"

definition spec_theta :: "(nat \<Rightarrow> nat \<Rightarrow> u64) \<Rightarrow> nat \<Rightarrow> nat \<Rightarrow> u64" where
  "spec_theta A x y =
     (let C = (\<lambda>x. A x 0 XOR A x 1 XOR A x 2 XOR A x 3 XOR A x 4)
      in A x y XOR (C ((x + 4) mod 5) XOR word_rotl 1 (C ((x + 1) mod 5))))"

definition spec_rho_pi :: "(nat \<Rightarrow> nat \<Rightarrow> u64) \<Rightarrow> nat \<Rightarrow> nat \<Rightarrow> u64" where
  "spec_rho_pi A x y =
     (let x' = (x + 3 * y) mod 5 in word_rotl (rho_offset x' x) (A x' x))"

definition spec_chi :: "(nat \<Rightarrow> nat \<Rightarrow> u64) \<Rightarrow> nat \<Rightarrow> nat \<Rightarrow> u64" where
  "spec_chi A x y = A x y XOR (NOT (A ((x + 1) mod 5) y) AND A ((x + 2) mod 5) y)"

definition spec_iota :: "u64 \<Rightarrow> (nat \<Rightarrow> nat \<Rightarrow> u64) \<Rightarrow> nat \<Rightarrow> nat \<Rightarrow> u64" where
  "spec_iota rc A x y = (if x = 0 \<and> y = 0 then A x y XOR rc else A x y)"

definition lanes :: "u64 list \<Rightarrow> nat \<Rightarrow> nat \<Rightarrow> u64" where
  "lanes st x y = st ! (x + 5 * y)"

definition of_lanes :: "(nat \<Rightarrow> nat \<Rightarrow> u64) \<Rightarrow> u64 list" where
  "of_lanes A = map (\<lambda>i. A (i mod 5) (i div 5)) [0..<25]"

definition spec_round :: "u64 list \<Rightarrow> u64 \<Rightarrow> u64 list" where
  "spec_round st rc = of_lanes (spec_iota rc (spec_chi (spec_rho_pi (spec_theta (lanes st)))))"

lemma bit_ROTL64: "n < 64 \<Longrightarrow> bit (ROTL64 x y) n \<longleftrightarrow> y \<le> n \<and> bit x (n - y) \<or> bit x ((64 - y) + n)"
  by (simp only: ROTL64_def bit_or_iff bit_push_bit_iff bit_drop_bit_eq o_apply) auto

lemma ROTL64_word_rotl: "y < 64 \<Longrightarrow> ROTL64 x y = word_rotl y x"
proof (rule bit_word_eqI)
  fix n
  assume y: "y < 64" and "n < LENGTH(64)"
  then have n: "n < 64" by simp
  define k where "k = 64 - y"
  have r: "bit (word_rotl y x) n = bit x ((n + k) mod 64)"
    using n y by (simp add: bit_word_rotl_iff k_def)
  show "bit (ROTL64 x y) n = bit (word_rotl y x) n"
  proof (cases "y \<le> n")
    case True
    have m: "(n + k) mod 64 = n - y" using True n y by (simp add: mod_if k_def)
    have "\<not> bit x (k + n)"
    proof
      assume "bit x (k + n)"
      then have "k + n < LENGTH(64)" by (rule bit_imp_le_length)
      with True y show False by (simp add: k_def)
    qed
    with True m r show ?thesis by (simp add: bit_ROTL64 [OF n] flip: k_def)
  next
    case False
    have m: "(n + k) mod 64 = k + n" using False n y by (simp add: k_def)
    with False r show ?thesis by (simp add: bit_ROTL64 [OF n] flip: k_def)
  qed
qed

lemma word_rotl_0: "word_rotl 0 (w :: u64) = w"
  by (rule bit_word_eqI) (simp add: bit_word_rotl_iff)

lemma list_update_numeral [simp]: "(x # xs)[numeral v := y] = x # xs[pred_numeral v := y]"
  by (simp add: numeral_eq_Suc)

lemma length_25_cases:
  assumes "length (st :: 'a list) = 25"
  obtains a0 a1 a2 a3 a4 a5 a6 a7 a8 a9 a10 a11 a12 a13 a14 a15 a16 a17 a18 a19 a20 a21 a22 a23 a24
  where "st = [a0,a1,a2,a3,a4,a5,a6,a7,a8,a9,a10,a11,a12,a13,a14,a15,a16,a17,a18,a19,a20,a21,a22,a23,a24]"
  using assms by (auto simp: numeral_eq_Suc length_Suc_conv)

lemma theta_spec:
  assumes "length st = 25"
  shows "keccakf_theta st = of_lanes (spec_theta (lanes st))"
  by (rule length_25_cases [OF assms])
    (simp add: keccakf_theta_def keccakf_X_def keccakf_bc_def Let_def of_lanes_def spec_theta_def
      lanes_def upt_rec ROTL64_word_rotl)

lemma length_of_lanes [simp]: "length (of_lanes A) = 25"
  by (simp add: of_lanes_def)

lemma rho_walk_table:
  "rho_walk 24 0 1 0 =
     [((1, 0), 1), ((0, 2), 3), ((2, 1), 6), ((1, 2), 10), ((2, 3), 15), ((3, 3), 21), ((3, 0), 28),
      ((0, 1), 36), ((1, 3), 45), ((3, 1), 55), ((1, 4), 2), ((4, 4), 14), ((4, 0), 27), ((0, 3), 41),
      ((3, 4), 56), ((4, 3), 8), ((3, 2), 25), ((2, 2), 43), ((2, 0), 62), ((0, 4), 18), ((4, 2), 39),
      ((2, 4), 61), ((4, 1), 20), ((1, 1), 44)]"
  by code_simp

lemma rho_pi_spec:
  assumes "length st = 25"
  shows "keccakf_rho_pi st = of_lanes (spec_rho_pi (lanes st))"
  by (rule length_25_cases [OF assms])
    (simp add: keccakf_rho_pi_def rho_pi_steps_def Let_def of_lanes_def spec_rho_pi_def
      lanes_def upt_rec ROTL64_word_rotl rho_offset_def word_rotl_0 rho_walk_table [unfolded One_nat_def])

lemma chi_spec:
  assumes "length st = 25"
  shows "keccakf_chi st = of_lanes (spec_chi (lanes st))"
  by (rule length_25_cases [OF assms])
    (simp add: keccakf_chi_def keccakf_chi_row_def keccakf_chi_last_def Let_def of_lanes_def spec_chi_def
      lanes_def upt_rec)

lemma lanes_of_lanes: "x < 5 \<Longrightarrow> y < 5 \<Longrightarrow> lanes (of_lanes A) x y = A x y"
  by (simp add: lanes_def of_lanes_def)

lemma of_lanes_eqI: "(\<And>x y. x < 5 \<Longrightarrow> y < 5 \<Longrightarrow> A x y = B x y) \<Longrightarrow> of_lanes A = of_lanes B"
  by (auto simp: of_lanes_def)

lemma of_lanes_iota: "(of_lanes A)[0 := of_lanes A ! 0 XOR rc] = of_lanes (spec_iota rc A)"
  by (rule nth_equalityI) (auto simp: of_lanes_def spec_iota_def nth_list_update)

lemma keccakf_round_spec:
  assumes "length st = 25"
  shows "keccakf_round st rc = spec_round st rc"
proof -
  have rp: "of_lanes (spec_rho_pi (lanes (of_lanes A))) = of_lanes (spec_rho_pi A)" for A
    by (rule of_lanes_eqI) (simp add: spec_rho_pi_def Let_def lanes_of_lanes)
  have ch: "of_lanes (spec_chi (lanes (of_lanes A))) = of_lanes (spec_chi A)" for A
    by (rule of_lanes_eqI) (simp add: spec_chi_def lanes_of_lanes)
  show ?thesis
    using assms
    by (simp add: keccakf_round_def Let_def theta_spec rho_pi_spec chi_spec rp ch of_lanes_iota
        spec_round_def)
qed

lemma length_keccakf_round [simp]: "length st = 25 \<Longrightarrow> length (keccakf_round st rc) = 25"
  by (simp add: keccakf_round_spec spec_round_def)

lemma length_foldl_round: "length st = 25 \<Longrightarrow> length (foldl keccakf_round st rcs) = 25"
  by (induction rcs arbitrary: st) auto

lemma length_keccakf [simp]: "length st = 25 \<Longrightarrow> length (keccakf n st) = 25"
  by (simp add: keccakf_def length_foldl_round)

lemma length_absorb [simp]: "length (absorb r bs st) = 25"
  by (simp add: absorb_def)

lemma length_le_bytes [simp]: "length (le_bytes w) = 8"
  by (simp add: le_bytes_def)

lemma keccakf_spec: "length st = 25 \<Longrightarrow> keccakf n st = foldl spec_round st (take n keccakf_rndc)"
proof -
  assume "length st = 25"
  moreover have "length st = 25 \<Longrightarrow> foldl keccakf_round st rcs = foldl spec_round st rcs" for rcs st
    by (induction rcs arbitrary: st) (simp_all flip: keccakf_round_spec)
  ultimately show ?thesis by (simp add: keccakf_def)
qed

lemma length_keccak: "n \<le> 200 \<Longrightarrow> length (keccak ins n) = n"
proof -
  assume n: "n \<le> 200"
  have "length (concat (map le_bytes st)) = 8 * length st" for st
    by (induction st) auto
  with n show ?thesis
    by (simp add: keccak_def Let_def case_prod_beta)
qed

text \<open>The bits of a little-endian word.\<close>

lemma bit_le_word:
  "n < 64 \<Longrightarrow> bit (le_word bs) n \<longleftrightarrow> n div 8 < length bs \<and> bit (bs ! (n div 8)) (n mod 8)"
proof (induction bs arbitrary: n)
  case (Cons b bs)
  show ?case
  proof (cases "n < 8")
    case True
    then show ?thesis by (simp add: bit_simps)
  next
    case False
    then obtain m where n: "n = m + 8" by (metis le_add_diff_inverse2 not_less)
    have "\<not> bit b n" using False bit_imp_le_length [of b n] by auto
    moreover have "bit (le_word bs) m \<longleftrightarrow> m div 8 < length bs \<and> bit (bs ! (m div 8)) (m mod 8)"
      using Cons n by simp
    moreover have "(m + 8) div 8 = Suc (m div 8)" by simp
    ultimately show ?thesis using Cons.prems by (simp add: n bit_simps)
  qed
qed simp

end
