(* ===== verification/Coin.thy ===== *)
theory Coin
  imports Algorithm
begin

text \<open>
  Coins (\<open>src/base/crypto/Coin.h\<close>, \<open>Coin.cpp\<close>): the table of coins, their algorithms, and the
  case-insensitive parser of codes and names.
\<close>

datatype coin =
    COIN_INVALID | MONERO | SUMO | ARQMA | GRAFT | RAVEN | WOWNERO | ZEPHYR | TOWNFORGE | YADA

record coin_info =
  ci_algorithm :: algo_id
  ci_code :: cstr
  ci_name :: cstr
  ci_target :: u64
  ci_units :: u64

fun coinInfo :: "coin \<Rightarrow> coin_info" where
  "coinInfo COIN_INVALID = \<lparr>ci_algorithm = ALGO_INVALID, ci_code = None, ci_name = None, ci_target = 0, ci_units = 0\<rparr>"
| "coinInfo MONERO = \<lparr>ci_algorithm = RX_0, ci_code = Some ''XMR'', ci_name = Some ''Monero'', ci_target = 120, ci_units = 1000000000000\<rparr>"
| "coinInfo SUMO = \<lparr>ci_algorithm = CN_R, ci_code = Some ''SUMO'', ci_name = Some ''Sumokoin'', ci_target = 240, ci_units = 1000000000\<rparr>"
| "coinInfo ARQMA = \<lparr>ci_algorithm = RX_ARQ, ci_code = Some ''ARQ'', ci_name = Some ''ArQmA'', ci_target = 120, ci_units = 1000000000\<rparr>"
| "coinInfo GRAFT = \<lparr>ci_algorithm = RX_GRAFT, ci_code = Some ''GRFT'', ci_name = Some ''Graft'', ci_target = 120, ci_units = 10000000000\<rparr>"
| "coinInfo RAVEN = \<lparr>ci_algorithm = KAWPOW_RVN, ci_code = Some ''RVN'', ci_name = Some ''Ravencoin'', ci_target = 0, ci_units = 0\<rparr>"
| "coinInfo WOWNERO = \<lparr>ci_algorithm = RX_WOW, ci_code = Some ''WOW'', ci_name = Some ''Wownero'', ci_target = 300, ci_units = 100000000000\<rparr>"
| "coinInfo ZEPHYR = \<lparr>ci_algorithm = RX_0, ci_code = Some ''ZEPH'', ci_name = Some ''Zephyr'', ci_target = 120, ci_units = 1000000000000\<rparr>"
| "coinInfo TOWNFORGE = \<lparr>ci_algorithm = RX_0, ci_code = Some ''Townforge'', ci_name = Some ''Townforge'', ci_target = 30, ci_units = 100000000\<rparr>"
| "coinInfo YADA = \<lparr>ci_algorithm = RX_YADA, ci_code = Some ''YDA'', ci_name = Some ''YadaCoin'', ci_target = 120, ci_units = 100000000\<rparr>"

text \<open>The identifiers from 1 in their order.\<close>

definition coin_ids :: "coin list" where
  "coin_ids = [MONERO, SUMO, ARQMA, GRAFT, RAVEN, WOWNERO, ZEPHYR, TOWNFORGE, YADA]"

definition coin_algorithm :: "coin \<Rightarrow> algo_id" where
  "coin_algorithm c = ci_algorithm (coinInfo c)"

definition coin_code :: "coin \<Rightarrow> cstr" where "coin_code c = ci_code (coinInfo c)"

definition coin_name :: "coin \<Rightarrow> cstr" where "coin_name c = ci_name (coinInfo c)"

definition coin_target :: "coin \<Rightarrow> u64" where "coin_target c = ci_target (coinInfo c)"

definition coin_units :: "coin \<Rightarrow> u64" where "coin_units c = ci_units (coinInfo c)"

definition coin_is :: "string \<Rightarrow> coin \<Rightarrow> bool" where
  "coin_is n c \<longleftrightarrow> strcasecmp_eq n (the (coin_code c)) \<or> strcasecmp_eq n (the (coin_name c))"

definition coin_parse :: "cstr \<Rightarrow> coin" where
  "coin_parse name =
     (case name of
        None \<Rightarrow> COIN_INVALID
      | Some n \<Rightarrow>
          if length n < 3 then COIN_INVALID
          else (case find (coin_is n) coin_ids of Some c \<Rightarrow> c | None \<Rightarrow> COIN_INVALID))"

section \<open>Lemmas\<close>

lemma coin_is_lower: "map to_lower n = map to_lower m \<Longrightarrow> coin_is n c = coin_is m c"
  by (simp add: coin_is_def strcasecmp_eq_def)

lemma coin_parse_lower:
  "map to_lower n = map to_lower m \<Longrightarrow> coin_parse (Some n) = coin_parse (Some m)"
proof -
  assume a: "map to_lower n = map to_lower m"
  then have "length n = length m" by (metis length_map)
  moreover have "coin_is n = coin_is m" using coin_is_lower [OF a] by blast
  ultimately show ?thesis by (simp add: coin_parse_def)
qed

lemma coin_parse_code: "c \<noteq> COIN_INVALID \<Longrightarrow> coin_parse (coin_code c) = c"
  by (cases c) (simp_all add: coin_parse_def coin_code_def coin_name_def coin_ids_def coin_is_def strcasecmp_eq_def
      to_lower_def)

lemma coin_parse_name: "c \<noteq> COIN_INVALID \<Longrightarrow> coin_parse (coin_name c) = c"
  by (cases c) (simp_all add: coin_parse_def coin_code_def coin_name_def coin_ids_def coin_is_def strcasecmp_eq_def
      to_lower_def)

end
