(* ===== verification/BlobReader.thy ===== *)
theory BlobReader
  imports Prelude
begin

text \<open>
  The reader of binary blobs (\<open>src/base/tools/cryptonote/BlobReader.h\<close>, the instance with
  exceptions) and the varint writer of \<open>BlockTemplate::generateHashingBlob\<close>. A reader holds the
  bytes that lie behind its pointer, the size it was given and its index, both \<open>size_t\<close>; the
  bounds test adds in \<open>size_t\<close> and wraps. \<open>Rejected\<close> is a caller's \<open>return false\<close>,
  \<open>OutOfRange\<close> the exception, \<open>Fault\<close> the behaviour the language leaves undefined (a read
  behind the bytes, a shift by 64 or more).
\<close>

datatype 'a rd = Got 'a | Rejected | OutOfRange | Fault

fun rd_bind :: "'a rd \<Rightarrow> ('a \<Rightarrow> 'b rd) \<Rightarrow> 'b rd" where
  "rd_bind (Got x) f = f x"
| "rd_bind Rejected f = Rejected"
| "rd_bind OutOfRange f = OutOfRange"
| "rd_bind Fault f = Fault"

definition rd_guard :: "bool \<Rightarrow> unit rd" where
  "rd_guard b = (if b then Got () else Rejected)"

record reader =
  br_data :: "u8 list"
  br_size :: u64
  br_index :: u64

definition br_new :: "u8 list \<Rightarrow> u64 \<Rightarrow> reader" where
  "br_new bs n = \<lparr>br_data = bs, br_size = n, br_index = 0\<rparr>"

definition br_skip :: "u64 \<Rightarrow> reader \<Rightarrow> reader rd" where
  "br_skip n r =
     (if br_index r + n > br_size r then OutOfRange else Got (r\<lparr>br_index := br_index r + n\<rparr>))"

text \<open>\<open>operator()(uint8_t(&)[N])\<close> copies \<open>N\<close> bytes.\<close>

definition br_array :: "nat \<Rightarrow> reader \<Rightarrow> (u8 list \<times> reader) rd" where
  "br_array N r =
     (if br_index r + of_nat N > br_size r then OutOfRange
      else if unat (br_index r) + N > length (br_data r) then Fault
      else Got (take N (drop (unat (br_index r)) (br_data r)), r\<lparr>br_index := br_index r + of_nat N\<rparr>))"

text \<open>\<open>operator()(T &, size_t)\<close> with a span stores where the bytes are and their number.\<close>

definition br_span :: "u64 \<Rightarrow> reader \<Rightarrow> ((u64 \<times> u64) \<times> reader) rd" where
  "br_span n r =
     (if br_index r + n > br_size r then OutOfRange
      else Got ((br_index r, n), r\<lparr>br_index := br_index r + n\<rparr>))"

definition br_byte :: "reader \<Rightarrow> (u8 \<times> reader) rd" where
  "br_byte r =
     (if br_index r \<ge> br_size r then OutOfRange
      else if unat (br_index r) \<ge> length (br_data r) then Fault
      else Got (br_data r ! unat (br_index r), r\<lparr>br_index := br_index r + 1\<rparr>))"

text \<open>The loop of \<open>getVarint\<close>; a shift of 64 or more is undefined.\<close>

function varint_loop :: "nat \<Rightarrow> u64 \<Rightarrow> reader \<Rightarrow> (u64 \<times> reader) rd" where
  "varint_loop shift acc r =
     rd_bind (br_byte r) (\<lambda>(t, r).
       if shift \<ge> 64 then Fault
       else let acc = acc OR push_bit shift (ucast (t AND 0x7F))
            in if t AND 0x80 \<noteq> 0 then varint_loop (shift + 7) acc r else Got (acc, r))"
  by pat_completeness auto
termination
  by (relation "measure (\<lambda>(shift, acc, r). 64 - shift)") auto

declare varint_loop.simps [simp del]

definition br_varint :: "reader \<Rightarrow> (u64 \<times> reader) rd" where
  "br_varint r = varint_loop 0 0 r"

text \<open>The writer at the end of \<open>generateHashingBlob\<close>.\<close>

function put_varint :: "u64 \<Rightarrow> u8 list" where
  "put_varint k =
     (if k \<ge> 0x80 then ((ucast k AND 0x7F) OR 0x80) # put_varint (drop_bit 7 k) else [ucast k])"
  by pat_completeness auto
termination
proof (relation "measure unat", simp)
  fix k :: u64
  assume "k \<ge> 0x80"
  then have "unat k \<ge> 128" by (simp add: word_le_nat_alt)
  then show "(drop_bit 7 k, k) \<in> measure unat"
    by (simp add: drop_bit_eq_div unat_div)
qed

declare put_varint.simps [simp del]

section \<open>Lemmas\<close>

text \<open>A reader of \<open>n\<close> of the bytes that lie behind its pointer, which stands at \<open>p\<close>.\<close>

definition br_at :: "u8 list \<Rightarrow> nat \<Rightarrow> nat \<Rightarrow> reader \<Rightarrow> bool" where
  "br_at bs n p r \<longleftrightarrow> br_data r = bs \<and> n \<le> length bs \<and> n < 2 ^ 64 \<and> br_size r = of_nat n \<and>
     br_index r = of_nat p \<and> p \<le> n"

lemma unat_of_nat64: "n < 2 ^ 64 \<Longrightarrow> unat (of_nat n :: u64) = n"
  by (simp add: unsigned_of_nat take_bit_nat_eq_self)

lemma br_at_new: "n \<le> length bs \<Longrightarrow> n < 2 ^ 64 \<Longrightarrow> br_at bs n 0 (br_new bs (of_nat n))"
  by (simp add: br_at_def br_new_def)

lemma br_byte_at:
  assumes "br_at bs n p r"
  shows "p < n \<Longrightarrow> \<exists>r'. br_byte r = Got (bs ! p, r') \<and> br_at bs n (Suc p) r'"
    and "p = n \<Longrightarrow> br_byte r = OutOfRange"
proof -
  have u: "unat (br_index r) = p" "unat (br_size r) = n"
    using assms by (auto simp: br_at_def unat_of_nat64)
  show "p < n \<Longrightarrow> \<exists>r'. br_byte r = Got (bs ! p, r') \<and> br_at bs n (Suc p) r'"
    using assms u by (auto simp: br_byte_def br_at_def word_le_nat_alt)
  show "p = n \<Longrightarrow> br_byte r = OutOfRange"
    using u by (simp add: br_byte_def word_le_nat_alt)
qed

text \<open>On bytes that are there a reader never reads behind them.\<close>

lemma br_byte_no_fault: "br_at bs n p r \<Longrightarrow> br_byte r \<noteq> Fault"
  using br_byte_at [of bs n p r] by (auto simp: br_at_def le_less)

lemma word_7F: "(0x7F :: u8) = mask 7" "(0x7F :: u64) = mask 7"
  by (simp_all add: mask_eq_exp_minus_1)

lemma word_80: "(0x80 :: u8) = push_bit 7 1"
  by simp

lemma bit64_lt: "bit (k :: u64) n \<Longrightarrow> n < 64"
  using bit_imp_le_length [of k n] by simp

lemma low7_high: "(k AND 0x7F) OR push_bit 7 (drop_bit 7 k) = (k :: u64)"
  unfolding word_7F
proof (rule bit_word_eqI)
  fix n
  assume "n < LENGTH(64)"
  then show "bit ((k AND mask 7) OR push_bit 7 (drop_bit 7 k)) n = bit k n"
    by (cases "n < 7") (simp_all add: bit_simps)
qed

lemma unat_drop7: "unat (drop_bit 7 (k :: u64)) = unat k div 128"
  by (simp add: drop_bit_eq_div unat_div)

lemma put_byte_low: "ucast (((ucast (k :: u64) AND 0x7F) OR 0x80 :: u8) AND 0x7F) = k AND 0x7F"
  unfolding word_7F word_80 by (rule bit_word_eqI) (auto simp: bit_simps bit_1_iff simp del: push_bit_of_1)

lemma put_byte_high: "((ucast (k :: u64) AND 0x7F) OR 0x80 :: u8) AND 0x80 \<noteq> 0"
proof -
  have "bit (((ucast k AND 0x7F) OR 0x80 :: u8) AND 0x80) 7"
    unfolding word_80 by (simp add: bit_simps bit_1_iff del: push_bit_of_1)
  then show ?thesis by (metis bit_0_eq bot_apply bot_bool_def)
qed

lemma bits_below:
  assumes "unat (k :: u64) < 2 ^ m" and "bit k n"
  shows "n < m"
proof (rule ccontr)
  assume "\<not> n < m"
  then have "unat k < 2 ^ n" using assms(1) by (meson less_le_trans not_less one_le_numeral power_increasing)
  then have "\<not> bit (unat k) n" by (simp add: bit_iff_odd)
  with assms(2) show False by (simp add: bit_unsigned_iff)
qed

lemma last_byte:
  assumes "(k :: u64) < 0x80"
  shows "ucast ((ucast k :: u8) AND 0x7F) = k" and "(ucast k :: u8) AND 0x80 = 0"
proof -
  have b: "bit k n \<Longrightarrow> n < 7" for n using bits_below [of k 7 n] assms by (simp add: word_less_nat_alt)
  show "ucast ((ucast k :: u8) AND 0x7F) = k"
    unfolding word_7F by (rule bit_word_eqI) (auto simp: bit_simps dest: b)
  show "(ucast k :: u8) AND 0x80 = 0"
    unfolding word_80 by (rule bit_word_eqI) (auto simp: bit_simps bit_1_iff simp del: push_bit_of_1 dest: b)
qed

text \<open>Reading a written varint, with the accumulator and the shift of the loop.\<close>

lemma varint_loop_put:
  assumes "br_at (pre @ put_varint k @ post) n (length pre) r" and "length pre + length (put_varint k) \<le> n" and "shift < 64" and "unat k < 2 ^ (64 - shift)"
  shows "\<exists>r'. varint_loop shift acc r = Got (acc OR push_bit shift k, r') \<and>
    br_at (pre @ put_varint k @ post) n (length pre + length (put_varint k)) r'"
  using assms
proof (induction k arbitrary: pre r shift acc rule: put_varint.induct)
  case (1 k)
  show ?case
  proof (cases "k \<ge> 0x80")
    case True
    let ?t = "(ucast k AND 0x7F) OR 0x80 :: u8"
    have p: "put_varint k = ?t # put_varint (drop_bit 7 k)" using True by (simp add: put_varint.simps [of k])
    obtain r1 where r1: "br_byte r = Got (?t, r1)" "br_at (pre @ put_varint k @ post) n (Suc (length pre)) r1"
      using br_byte_at(1) [OF 1(2)] 1(3) by (auto simp: p nth_append)
    have k: "128 \<le> unat k" using True by (simp add: word_le_nat_alt)
    have sh: "shift + 7 < 64"
    proof (rule ccontr)
      assume "\<not> shift + 7 < 64"
      then have "(2 :: nat) ^ (64 - shift) \<le> 2 ^ 7" by (intro power_increasing) auto
      with k 1(5) show False by simp
    qed
    obtain m where m: "64 - (shift + 7) = m" "64 - shift = m + 7" using sh by simp
    then have "unat k < 2 ^ (64 - (shift + 7)) * 128" using 1(5) by (simp add: power_add)
    then have nx: "unat (drop_bit 7 k) < 2 ^ (64 - (shift + 7))"
      by (simp only: unat_drop7 less_mult_imp_div_less)
    have r1': "br_at ((pre @ [?t]) @ put_varint (drop_bit 7 k) @ post) n (length (pre @ [?t])) r1"
      using r1(2) by (simp add: p)
    obtain r' where r': "varint_loop (shift + 7) (acc OR push_bit shift (k AND 0x7F)) r1 =
        Got ((acc OR push_bit shift (k AND 0x7F)) OR push_bit (shift + 7) (drop_bit 7 k), r')"
      "br_at ((pre @ [?t]) @ put_varint (drop_bit 7 k) @ post) n
        (length (pre @ [?t]) + length (put_varint (drop_bit 7 k))) r'"
      using 1(1) [OF True r1' _ sh nx] 1(3) p by auto
    have "push_bit shift (k AND 0x7F) OR push_bit (shift + 7) (drop_bit 7 k) =
        push_bit shift ((k AND 0x7F) OR push_bit 7 (drop_bit 7 k))"
      by (simp add: push_bit_or)
    then have "(acc OR push_bit shift (k AND 0x7F)) OR push_bit (shift + 7) (drop_bit 7 k) =
        acc OR push_bit shift k"
      by (simp add: or.assoc low7_high)
    with r' r1 1(4) show ?thesis
      by (subst varint_loop.simps) (simp add: put_byte_low put_byte_high p Let_def)
  next
    case False
    then have p: "put_varint k = [ucast k]" by (simp add: put_varint.simps [of k])
    obtain r1 where r1: "br_byte r = Got (ucast k, r1)" "br_at (pre @ put_varint k @ post) n (Suc (length pre)) r1"
      using br_byte_at(1) [OF 1(2)] 1(3) by (auto simp: p nth_append)
    have "k < 0x80" using False by simp
    with r1 1(4) show ?thesis
      by (subst varint_loop.simps) (simp add: last_byte p Let_def)
  qed
qed

end
