(* ===== verification/BlockTemplate.thy ===== *)
theory BlockTemplate
  imports BlobReader Coin Keccak Cvt
begin

text \<open>
  Block templates (\<open>src/base/tools/cryptonote/BlockTemplate.h\<close>, \<open>BlockTemplate.cpp\<close>): the parser,
  the transaction tree hash and the hashing blob. Buffers of records of \<open>kHashSize\<close> bytes are
  lists of records. The loop over the extra field of the miner transaction does not always end
  (the reader's index can move backwards), so it has fuel and \<open>None\<close> is running out of it.
  \<open>heap\<close> is the largest buffer the allocator grants, \<open>resize\<close> throws above it.
\<close>

definition kHashSize :: nat where "kHashSize = 32"

definition kKeySize :: u64 where "kKeySize = 32"

definition kMinSize :: nat where "kMinSize = 76"

datatype offset =
    NONCE_OFFSET | MINER_TX_PREFIX_OFFSET | MINER_TX_PREFIX_END_OFFSET | EPH_PUBLIC_KEY_OFFSET
  | TX_EXTRA_OFFSET | TX_PUBKEY_OFFSET | TX_EXTRA_NONCE_OFFSET | TX_EXTRA_MERGE_MINING_TAG_OFFSET

type_synonym hash = "u8 list"

text \<open>A span is its position and its length; positions in the extra field count from
  \<open>TX_EXTRA_OFFSET\<close>, the others from the start of the blob.\<close>

record block_template =
  bt_blob :: "u8 list"
  bt_coin :: coin
  bt_offsets :: "offset \<Rightarrow> u32"
  bt_major :: u8
  bt_minor :: u8
  bt_timestamp :: u64
  bt_prevId :: "u64 \<times> u64"
  bt_minerSignature :: "u64 \<times> u64"
  bt_vote :: "u8 list"
  bt_txVersion :: u64
  bt_unlockTime :: u64
  bt_numInputs :: u64
  bt_inputType :: u8
  bt_height :: u64
  bt_numOutputs :: u64
  bt_amount :: u64
  bt_outputType :: u8
  bt_ephPublicKey :: "u64 \<times> u64"
  bt_viewTag :: u8
  bt_extraSize :: u64
  bt_txExtraNonce :: "u64 \<times> u64"
  bt_txMergeMiningTag :: "u64 \<times> u64"
  bt_numHashes :: u64
  bt_hashes :: "hash list"
  bt_branch :: "hash list"
  bt_rootHash :: hash

definition bt_new :: "block_template" where
  "bt_new = \<lparr>bt_blob = [], bt_coin = COIN_INVALID, bt_offsets = (\<lambda>_. 0), bt_major = 0, bt_minor = 0,
     bt_timestamp = 0, bt_prevId = (0, 0), bt_minerSignature = (0, 0), bt_vote = [0, 0],
     bt_txVersion = 0, bt_unlockTime = 0, bt_numInputs = 0, bt_inputType = 0, bt_height = 0,
     bt_numOutputs = 0, bt_amount = 0, bt_outputType = 0, bt_ephPublicKey = (0, 0), bt_viewTag = 0,
     bt_extraSize = 0, bt_txExtraNonce = (0, 0), bt_txMergeMiningTag = (0, 0), bt_numHashes = 0,
     bt_hashes = [], bt_branch = [], bt_rootHash = replicate kHashSize 0\<rparr>"

definition bt_setOffset :: "offset \<Rightarrow> u64 \<Rightarrow> block_template \<Rightarrow> block_template" where
  "bt_setOffset f v bt = bt\<lparr>bt_offsets := (bt_offsets bt)(f := ucast v)\<rparr>"

definition bt_offset :: "offset \<Rightarrow> block_template \<Rightarrow> nat" where
  "bt_offset f bt = unat (bt_offsets bt f)"

section \<open>The transaction tree\<close>

definition known_second_hash :: hash where
  "known_second_hash =
     [188,54,120,158,122,30,40,20,54,70,66,41,130,143,129,125,102,18,247,180,119,214,101,145,255,150,169,224,100,188,201,138]"

definition calculateMinerTxHash :: "u8 list \<Rightarrow> hash" where
  "calculateMinerTxHash prefix =
     keccak (keccak prefix kHashSize @ known_second_hash @ replicate kHashSize 0) kHashSize"

text \<open>\<open>keccak(h, kHashSize * 2, ...)\<close> of two records that lie one behind the other.\<close>

definition hash2 :: "hash \<Rightarrow> hash \<Rightarrow> hash" where
  "hash2 a b = keccak (a @ b) kHashSize"

definition calculateRootHash :: "u8 list \<Rightarrow> hash list \<Rightarrow> hash" where
  "calculateRootHash prefix branch = foldl hash2 (calculateMinerTxHash prefix) branch"

text \<open>\<open>for (i = 0, cnt = 1; cnt <= count; ++i, cnt <<= 1) {}\<close>\<close>

function merkle_cnt :: "nat \<Rightarrow> nat \<Rightarrow> nat" where
  "merkle_cnt count cnt = (if 0 < cnt \<and> cnt \<le> count then merkle_cnt count (cnt * 2) else cnt)"
  by pat_completeness auto
termination
  by (relation "measure (\<lambda>(count, cnt). count + 1 - cnt)") auto

declare merkle_cnt.simps [simp del]

text \<open>The first level reads \<open>h\<close> and writes \<open>ints\<close>; the other levels work in place.\<close>

function merkle_first :: "hash list \<Rightarrow> nat \<Rightarrow> nat \<Rightarrow> nat \<Rightarrow> hash list \<times> hash list \<Rightarrow> hash list \<times> hash list" where
  "merkle_first h cnt i j (ints, branch) =
     (if j < cnt then
        merkle_first h cnt (i + 2) (j + 1)
          (ints[j := hash2 (h ! i) (h ! (i + 1))], if i = 0 then branch @ [h ! 1] else branch)
      else (ints, branch))"
  by pat_completeness auto
termination
  by (relation "measure (\<lambda>(h, cnt, i, j, s). cnt - j)") auto

function merkle_level :: "nat \<Rightarrow> nat \<Rightarrow> nat \<Rightarrow> hash list \<times> hash list \<Rightarrow> hash list \<times> hash list" where
  "merkle_level cnt i j (ints, branch) =
     (if j < cnt then
        merkle_level cnt (i + 2) (j + 1)
          (ints[j := hash2 (ints ! i) (ints ! (i + 1))], if i = 0 then branch @ [ints ! 1] else branch)
      else (ints, branch))"
  by pat_completeness auto
termination
  by (relation "measure (\<lambda>(cnt, i, j, s). cnt - j)") auto

declare merkle_first.simps [simp del] merkle_level.simps [simp del]

function merkle_up :: "nat \<Rightarrow> hash list \<times> hash list \<Rightarrow> hash list \<times> hash list" where
  "merkle_up cnt s = (if cnt > 2 then merkle_up (cnt div 2) (merkle_level (cnt div 2) 0 0 s) else s)"
  by pat_completeness auto
termination
  by (relation "measure fst") auto

declare merkle_up.simps [simp del]

text \<open>The branch and the root of \<open>h\<close>, which has \<open>m_numHashes + 1\<close> records.\<close>

definition merkle_tree :: "hash list \<Rightarrow> hash list \<times> hash" where
  "merkle_tree h =
     (let count = length h in
      if count = 1 then ([], h ! 0)
      else if count = 2 then ([h ! 1], hash2 (h ! 0) (h ! 1))
      else
        let cnt = merkle_cnt count 1 div 2;
            k = cnt * 2 - count;
            ints = take k h @ replicate (cnt - k) (replicate kHashSize 0);
            (ints, branch) = merkle_up cnt (merkle_first h cnt k k (ints, []))
        in (branch @ [ints ! 1], hash2 (ints ! 0) (ints ! 1)))"

definition calculateMerkleTreeHash :: "block_template \<Rightarrow> block_template" where
  "calculateMerkleTreeHash bt =
     (let (branch, root) = merkle_tree (bt_hashes bt) in bt\<lparr>bt_branch := branch, bt_rootHash := root\<rparr>)"

definition generateHashingBlob :: "block_template \<Rightarrow> u8 list" where
  "generateHashingBlob bt =
     take (bt_offset MINER_TX_PREFIX_OFFSET bt) (bt_blob bt) @ bt_rootHash bt @
     put_varint (bt_numHashes bt + 1)"

section \<open>The parser\<close>

text \<open>Bytes of the blob between two offsets.\<close>

definition bt_slice :: "offset \<Rightarrow> offset \<Rightarrow> block_template \<Rightarrow> u8 list rd" where
  "bt_slice a b bt =
     (if bt_offset a bt \<le> bt_offset b bt \<and> bt_offset b bt \<le> length (bt_blob bt)
      then Got (take (bt_offset b bt - bt_offset a bt) (drop (bt_offset a bt) (bt_blob bt)))
      else Fault)"

definition parse_header :: "reader \<Rightarrow> block_template \<Rightarrow> (reader \<times> block_template) rd" where
  "parse_header r bt =
     rd_bind (br_byte r) (\<lambda>(major, r).
     rd_bind (br_byte r) (\<lambda>(minor, r).
     rd_bind (br_varint r) (\<lambda>(timestamp, r).
     rd_bind (br_span 32 r) (\<lambda>(prevId, r).
     let bt = bt\<lparr>bt_major := major, bt_minor := minor, bt_timestamp := timestamp, bt_prevId := prevId\<rparr>;
         bt = bt_setOffset NONCE_OFFSET (br_index r) bt in
     rd_bind (br_skip 4 r) (\<lambda>r.
     rd_bind (if bt_coin bt = WOWNERO \<and> major \<ge> 18
              then rd_bind (br_span 64 r) (\<lambda>(sig, r).
                   rd_bind (br_array 2 r) (\<lambda>(vote, r).
                   Got (r, bt\<lparr>bt_minerSignature := sig, bt_vote := vote\<rparr>)))
              else Got (r, bt)) (\<lambda>(r, bt).
     rd_bind (if bt_coin bt = ZEPHYR then rd_bind (br_array 120 r) (\<lambda>(_, r). Got r) else Got r) (\<lambda>r.
     Got (r, bt_setOffset MINER_TX_PREFIX_OFFSET (br_index r) bt))))))))"

definition parse_inputs :: "reader \<Rightarrow> block_template \<Rightarrow> (reader \<times> block_template) rd" where
  "parse_inputs r bt =
     rd_bind (br_varint r) (\<lambda>(txVersion, r).
     rd_bind (if bt_coin bt \<noteq> TOWNFORGE then br_varint r else Got (bt_unlockTime bt, r)) (\<lambda>(unlockTime, r).
     rd_bind (br_varint r) (\<lambda>(numInputs, r).
     rd_bind (rd_guard (numInputs = 1)) (\<lambda>_.
     rd_bind (br_byte r) (\<lambda>(inputType, r).
     rd_bind (rd_guard (inputType = 0xFF)) (\<lambda>_.
     Got (r, bt\<lparr>bt_txVersion := txVersion, bt_unlockTime := unlockTime, bt_numInputs := numInputs,
                bt_inputType := inputType\<rparr>)))))))"

text \<open>The further outputs of a Zephyr template.\<close>

fun zephyr_outputs :: "nat \<Rightarrow> reader \<Rightarrow> reader rd" where
  "zephyr_outputs 0 r = Got r"
| "zephyr_outputs (Suc k) r =
     rd_bind (br_varint r) (\<lambda>(amount2, r).
     rd_bind (br_byte r) (\<lambda>(output_type2, r).
     rd_bind (rd_guard (output_type2 = 2)) (\<lambda>_.
     rd_bind (br_span kKeySize r) (\<lambda>(key2, r).
     rd_bind (br_varint r) (\<lambda>(asset_type_len, r).
     rd_bind (br_skip asset_type_len r) (\<lambda>r.
     rd_bind (br_byte r) (\<lambda>(view_tag2, r).
     zephyr_outputs k r)))))))"

definition parse_outputs :: "reader \<Rightarrow> block_template \<Rightarrow> (reader \<times> block_template) rd" where
  "parse_outputs r bt =
     rd_bind (br_varint r) (\<lambda>(height, r).
     rd_bind (br_varint r) (\<lambda>(numOutputs, r).
     rd_bind (rd_guard (if bt_coin bt = ZEPHYR then numOutputs \<ge> 2 else numOutputs = 1)) (\<lambda>_.
     rd_bind (br_varint r) (\<lambda>(amount, r).
     rd_bind (br_byte r) (\<lambda>(outputType, r).
     rd_bind (rd_guard (outputType = 2 \<or> outputType = 3)) (\<lambda>_.
     let bt = bt\<lparr>bt_height := height, bt_numOutputs := numOutputs, bt_amount := amount,
                bt_outputType := outputType\<rparr>;
         bt = bt_setOffset EPH_PUBLIC_KEY_OFFSET (br_index r) bt in
     rd_bind (br_span kKeySize r) (\<lambda>(key, r).
     let bt = bt\<lparr>bt_ephPublicKey := key\<rparr> in
     if bt_coin bt = ZEPHYR then
       rd_bind (rd_guard (outputType = 2)) (\<lambda>_.
       rd_bind (br_varint r) (\<lambda>(asset_type_len, r).
       rd_bind (br_skip asset_type_len r) (\<lambda>r.
       rd_bind (br_byte r) (\<lambda>(viewTag, r).
       rd_bind (zephyr_outputs (unat numOutputs - 1) r) (\<lambda>r.
       Got (r, bt\<lparr>bt_viewTag := viewTag\<rparr>))))))
     else if outputType = 3 then
       rd_bind (br_byte r) (\<lambda>(viewTag, r). Got (r, bt\<lparr>bt_viewTag := viewTag\<rparr>))
     else Got (r, bt))))))))"

text \<open>One turn of the loop over the extra field: the reader \<open>ar_extra\<close>, the flag
  \<open>pubkey_offset_first\<close> and the template.\<close>

type_synonym extra_state = "reader \<times> bool \<times> block_template"

definition extra_offset :: "reader \<Rightarrow> block_template \<Rightarrow> u64" where
  "extra_offset e bt = of_nat (bt_offset TX_EXTRA_OFFSET bt) + br_index e"

fun extra_step :: "extra_state \<Rightarrow> extra_state rd" where
  "extra_step (e, first, bt) =
     rd_bind (br_varint e) (\<lambda>(extra_tag, e).
       if extra_tag = 0x01 then
         let bt = (if first then bt_setOffset TX_PUBKEY_OFFSET (extra_offset e bt) bt else bt) in
         rd_bind (br_skip kKeySize e) (\<lambda>e. Got (e, False, bt))
       else if extra_tag = 0x02 then
         rd_bind (br_varint e) (\<lambda>(size, e).
           let bt = bt_setOffset TX_EXTRA_NONCE_OFFSET (extra_offset e bt) bt in
           rd_bind (br_span size e) (\<lambda>(s, e). Got (e, first, bt\<lparr>bt_txExtraNonce := s\<rparr>)))
       else if extra_tag = 0x03 then
         rd_bind (br_varint e) (\<lambda>(size, e).
           let bt = bt_setOffset TX_EXTRA_MERGE_MINING_TAG_OFFSET (extra_offset e bt) bt in
           rd_bind (br_span size e) (\<lambda>(s, e). Got (e, first, bt\<lparr>bt_txMergeMiningTag := s\<rparr>)))
       else Rejected)"

fun extra_more :: "extra_state \<Rightarrow> bool" where
  "extra_more (e, first, bt) \<longleftrightarrow> br_index e < bt_extraSize bt"

fun extra_loop :: "nat \<Rightarrow> extra_state \<Rightarrow> extra_state rd option" where
  "extra_loop 0 s = None"
| "extra_loop (Suc fuel) s =
     (if extra_more s then
        (case extra_step s of
           Got s' \<Rightarrow> extra_loop fuel s'
         | Rejected \<Rightarrow> Some Rejected
         | OutOfRange \<Rightarrow> Some OutOfRange
         | Fault \<Rightarrow> Some Fault)
      else Some (Got s))"

text \<open>The start of the extra field: its size, the second reader over it, and the first
  reader moved behind it.\<close>

definition parse_extra_start :: "reader \<Rightarrow> block_template \<Rightarrow> (reader \<times> extra_state) rd" where
  "parse_extra_start r bt =
     rd_bind (if bt_coin bt = TOWNFORGE then br_varint r else Got (bt_unlockTime bt, r)) (\<lambda>(unlockTime, r).
     rd_bind (br_varint r) (\<lambda>(extraSize, r).
     let bt = bt\<lparr>bt_unlockTime := unlockTime, bt_extraSize := extraSize\<rparr>;
         bt = bt_setOffset TX_EXTRA_OFFSET (br_index r) bt;
         e = br_new (drop (bt_offset TX_EXTRA_OFFSET bt) (bt_blob bt)) extraSize in
     rd_bind (br_skip extraSize r) (\<lambda>r. Got (r, (e, True, bt)))))"

text \<open>\<open>n\<close> is the size of the resized buffer; every record read is written into it.\<close>

fun read_hashes :: "nat \<Rightarrow> nat \<Rightarrow> nat \<Rightarrow> reader \<Rightarrow> hash list rd" where
  "read_hashes n i 0 r = Got []"
| "read_hashes n i (Suc k) r =
     rd_bind (br_array kHashSize r) (\<lambda>(h, r).
     if kHashSize * (i + 1) > n then Fault
     else rd_bind (read_hashes n (i + 1) k r) (\<lambda>hs. Got (h # hs)))"

definition parse_hashes :: "nat \<Rightarrow> reader \<Rightarrow> block_template \<Rightarrow> block_template rd" where
  "parse_hashes heap r bt =
     (let n = unat ((bt_numHashes bt + 1) * 32) in
      if n > heap then OutOfRange
      else rd_bind (bt_slice MINER_TX_PREFIX_OFFSET MINER_TX_PREFIX_END_OFFSET bt) (\<lambda>prefix.
        if n < kHashSize then Fault
        else rd_bind (read_hashes n 1 (unat (bt_numHashes bt)) r) (\<lambda>hs.
          Got (calculateMerkleTreeHash (bt\<lparr>bt_hashes := calculateMinerTxHash prefix # hs\<rparr>)))))"

definition parse_tail :: "nat \<Rightarrow> bool \<Rightarrow> reader \<Rightarrow> block_template \<Rightarrow> block_template rd" where
  "parse_tail heap hashes r bt =
     rd_bind (if bt_coin bt = ZEPHYR
              then rd_bind (br_varint r) (\<lambda>(pricing_record_height, r).
                   rd_bind (br_varint r) (\<lambda>(amount_burnt, r).
                   rd_bind (br_varint r) (\<lambda>(amount_minted, r). Got r)))
              else Got r) (\<lambda>r.
     let bt = bt_setOffset MINER_TX_PREFIX_END_OFFSET (br_index r) bt in
     rd_bind (br_byte r) (\<lambda>(vin_rct_type, r).
     if bt_coin bt = TOWNFORGE \<and> bt_height bt mod 720 = 0 then Got bt
     else
       rd_bind (rd_guard (vin_rct_type = 0)) (\<lambda>_.
       rd_bind (rd_guard (unat (br_index r) = bt_offset MINER_TX_PREFIX_END_OFFSET bt + 1 \<and>
                          bt_blob bt ! bt_offset MINER_TX_PREFIX_END_OFFSET bt = 0)) (\<lambda>_.
       rd_bind (br_varint r) (\<lambda>(numHashes, r).
       let bt = bt\<lparr>bt_numHashes := numHashes\<rparr> in
       if hashes then parse_hashes heap r bt else Got bt)))))"

text \<open>\<open>parse(bool)\<close>.\<close>

definition parse_body :: "nat \<Rightarrow> nat \<Rightarrow> bool \<Rightarrow> block_template \<Rightarrow> block_template rd option" where
  "parse_body fuel heap hashes bt =
     (case rd_bind (parse_header (br_new (bt_blob bt) (of_nat (length (bt_blob bt)))) bt) (\<lambda>(r, bt).
           rd_bind (parse_inputs r bt) (\<lambda>(r, bt).
           rd_bind (parse_outputs r bt) (\<lambda>(r, bt).
           parse_extra_start r bt)))
      of Got (r, s) \<Rightarrow>
           (case extra_loop fuel s of
              None \<Rightarrow> None
            | Some res \<Rightarrow> Some (rd_bind res (\<lambda>(e, first, bt). parse_tail heap hashes r bt)))
       | Rejected \<Rightarrow> Some Rejected
       | OutOfRange \<Rightarrow> Some OutOfRange
       | Fault \<Rightarrow> Some Fault)"

text \<open>\<open>parse(const Buffer &, ...)\<close> and \<open>parse(const char *, size_t, ...)\<close>. An exception is caught
  and makes the result \<open>false\<close>, so a caller sees \<open>Got\<close> or not.\<close>

definition bt_parse :: "nat \<Rightarrow> nat \<Rightarrow> u8 list \<Rightarrow> coin \<Rightarrow> bool \<Rightarrow> block_template \<Rightarrow> block_template rd option" where
  "bt_parse fuel heap blob c hashes bt =
     (if length blob < kMinSize then Some Rejected
      else parse_body fuel heap hashes (bt\<lparr>bt_blob := blob, bt_coin := c\<rparr>))"

definition bt_parse_hex :: "nat \<Rightarrow> nat \<Rightarrow> string \<Rightarrow> coin \<Rightarrow> bool \<Rightarrow> block_template \<Rightarrow> block_template rd option" where
  "bt_parse_hex fuel heap s c hashes bt =
     (if length s < kMinSize * 2 then Some Rejected
      else
        let (ok, blob) = fromHex_buf s in
        if \<not> ok then Some Rejected
        else parse_body fuel heap hashes (bt\<lparr>bt_blob := blob, bt_coin := c\<rparr>))"

section \<open>The tree and its branch\<close>

lemma merkle_level_spec:
  "merkle_level cnt (2 * j) j (ints, br) = (ints', br') \<Longrightarrow> 2 * cnt \<le> length ints \<Longrightarrow>
     length ints' = length ints \<and> (\<forall>k < j. ints' ! k = ints ! k) \<and>
     (\<forall>k. j \<le> k \<longrightarrow> k < cnt \<longrightarrow> ints' ! k = hash2 (ints ! (2 * k)) (ints ! (2 * k + 1))) \<and>
     br' = (if j = 0 \<and> 0 < cnt then br @ [ints ! 1] else br)"
proof (induction "cnt - j" arbitrary: j ints br)
  case 0
  then show ?case by (auto simp: merkle_level.simps [of cnt "2 * j"])
next
  case (Suc n)
  let ?ints = "ints[j := hash2 (ints ! (2 * j)) (ints ! (2 * j + 1))]"
  let ?br = "if j = 0 then br @ [ints ! 1] else br"
  have j: "j < cnt" and n: "n = cnt - Suc j" using Suc(2) by auto
  then have "merkle_level cnt (2 * Suc j) (Suc j) (?ints, ?br) = (ints', br')"
    using Suc(3) by (simp add: merkle_level.simps [of cnt "2 * j"])
  from Suc(1) [OF n this] Suc(4)
  have IH: "length ints' = length ints" "\<And>k. k < Suc j \<Longrightarrow> ints' ! k = ?ints ! k"
    "\<And>k. Suc j \<le> k \<Longrightarrow> k < cnt \<Longrightarrow> ints' ! k = hash2 (?ints ! (2 * k)) (?ints ! (2 * k + 1))"
    "br' = ?br" by auto
  have "ints' ! k = hash2 (ints ! (2 * k)) (ints ! (2 * k + 1))" if "j \<le> k" "k < cnt" for k
  proof (cases "k = j")
    case True
    then show ?thesis using IH(2) [of j] j Suc(4) by simp
  next
    case False
    then show ?thesis using IH(3) [of k] that by simp
  qed
  then show ?case using IH j by auto
qed

lemma merkle_first_spec:
  "merkle_first h cnt i j (ints, br) = (ints', br') \<Longrightarrow> 0 < i \<Longrightarrow>
     length ints' = length ints \<and> (\<forall>k < j. ints' ! k = ints ! k) \<and> br' = br"
proof (induction "cnt - j" arbitrary: i j ints)
  case 0
  then show ?case by (auto simp: merkle_first.simps [of h cnt i j])
next
  case (Suc n)
  have j: "j < cnt" and n: "n = cnt - (j + 1)" using Suc(2) by auto
  have "merkle_first h cnt (i + 2) (j + 1) (ints[j := hash2 (h ! i) (h ! (i + 1))], br) = (ints', br')"
    using Suc(3,4) j by (simp add: merkle_first.simps [of h cnt i j])
  from Suc(1) [OF n this] show ?case by auto
qed

lemma merkle_up_fold:
  "merkle_up cnt (ints, br) = (ints', br') \<Longrightarrow> cnt \<le> length ints \<Longrightarrow> foldl hash2 x br = ints ! 0 \<Longrightarrow>
     foldl hash2 x br' = ints' ! 0"
proof (induction cnt arbitrary: ints br rule: less_induct)
  case (less cnt)
  show ?case
  proof (cases "cnt > 2")
    case True
    obtain ints1 br1 where l: "merkle_level (cnt div 2) (2 * 0) 0 (ints, br) = (ints1, br1)"
      by fastforce
    have "2 * (cnt div 2) \<le> length ints" using less(3) by linarith
    note sp = merkle_level_spec [OF l this]
    have pos: "0 < cnt div 2" using True by simp
    have "foldl hash2 x br1 = ints1 ! 0" using sp less(4) pos by auto
    moreover have "merkle_up (cnt div 2) (ints1, br1) = (ints', br')"
      using less(2) True l by (simp add: merkle_up.simps [of cnt])
    moreover have "cnt div 2 \<le> length ints1" using sp less(3) by simp
    ultimately show ?thesis using less(1) [of "cnt div 2" ints1 br1] True by simp
  next
    case False
    then show ?thesis using less(2,4) by (simp add: merkle_up.simps [of cnt])
  qed
qed

lemma merkle_cnt_bounds:
  "0 < cnt \<Longrightarrow> count < merkle_cnt count cnt \<and> (cnt \<le> count \<longrightarrow> merkle_cnt count cnt \<le> 2 * count) \<and>
     (\<exists>n. merkle_cnt count cnt = cnt * 2 ^ n)"
proof (induction count cnt rule: merkle_cnt.induct)
  case (1 count cnt)
  show ?case
  proof (cases "cnt \<le> count")
    case True
    with 1 have IH: "count < merkle_cnt count (cnt * 2)"
      "cnt * 2 \<le> count \<longrightarrow> merkle_cnt count (cnt * 2) \<le> 2 * count"
      "\<exists>n. merkle_cnt count (cnt * 2) = cnt * 2 * 2 ^ n" by auto
    have e: "merkle_cnt count cnt = merkle_cnt count (cnt * 2)"
      using True 1(2) by (simp add: merkle_cnt.simps [of count cnt])
    have "merkle_cnt count (cnt * 2) \<le> 2 * count"
    proof (cases "cnt * 2 \<le> count")
      case False
      then show ?thesis using True by (simp add: merkle_cnt.simps [of count "cnt * 2"])
    qed (use IH in simp)
    moreover obtain n where "merkle_cnt count (cnt * 2) = cnt * 2 * 2 ^ n" using IH(3) by blast
    then have "merkle_cnt count (cnt * 2) = cnt * 2 ^ Suc n" by simp
    ultimately show ?thesis using IH(1) e by metis
  next
    case False
    then show ?thesis by (auto simp: merkle_cnt.simps [of count cnt] intro: exI [of _ 0])
  qed
qed

text \<open>The number of leaves of the perfect tree and of the records it takes over.\<close>

lemma merkle_leaves:
  assumes "2 < count" and "cnt = merkle_cnt count 1 div 2" and "k = cnt * 2 - count"
  shows "0 < k" "k \<le> cnt" "cnt \<le> count" "2 \<le> cnt" "count < cnt * 2"
proof -
  have b: "count < merkle_cnt count 1" "merkle_cnt count 1 \<le> 2 * count"
    "\<exists>n. merkle_cnt count 1 = 2 ^ n"
    using merkle_cnt_bounds [of 1 count] assms(1) by auto
  then obtain n where n: "merkle_cnt count 1 = 2 ^ n" by auto
  with b assms(1) have "n \<noteq> 0" by (cases n) auto
  then have "merkle_cnt count 1 = cnt * 2" using n assms(2) by (cases n) auto
  with b assms show "0 < k" "k \<le> cnt" "cnt \<le> count" "2 \<le> cnt" "count < cnt * 2" by auto
qed

lemma merkle_tree_fold:
  assumes "h \<noteq> []"
  shows "foldl hash2 (h ! 0) (fst (merkle_tree h)) = snd (merkle_tree h)"
proof -
  consider "length h = 1" | "length h = 2" | "2 < length h"
    using assms by (cases h; cases "tl h") fastforce+
  then show ?thesis
  proof cases
    case 3
    define cnt where "cnt = merkle_cnt (length h) 1 div 2"
    define k where "k = cnt * 2 - length h"
    note b = merkle_leaves [OF 3 cnt_def k_def]
    let ?ints = "take k h @ replicate (cnt - k) (replicate kHashSize 0)"
    obtain ints1 br1 where f: "merkle_first h cnt k k (?ints, []) = (ints1, br1)" by fastforce
    obtain ints2 br2 where u: "merkle_up cnt (ints1, br1) = (ints2, br2)" by fastforce
    have sf: "length ints1 = length ?ints" "ints1 ! 0 = ?ints ! 0" "br1 = []"
      using merkle_first_spec [OF f b(1)] b(1) by auto
    have "h ! 0 = ints1 ! 0" using sf(2) b(1) assms by (simp add: nth_append)
    moreover have "cnt \<le> length ints1" using sf(1) b by simp
    ultimately have "foldl hash2 (h ! 0) br2 = ints2 ! 0"
      using merkle_up_fold [OF u, of "h ! 0"] sf(3) by simp
    moreover have "merkle_tree h = (br2 @ [ints2 ! 1], hash2 (ints2 ! 0) (ints2 ! 1))"
      using 3 f u unfolding merkle_tree_def Let_def cnt_def [symmetric] k_def [symmetric]
      by simp
    ultimately show ?thesis by simp
  qed (simp_all add: merkle_tree_def hash2_def)
qed

text \<open>The branch does not depend on the first record.\<close>

lemma merkle_up_tail:
  "merkle_up (2 ^ Suc n) (ints, br) = (ints1, br1) \<Longrightarrow> merkle_up (2 ^ Suc n) (ints', br) = (ints1', br1') \<Longrightarrow>
     2 ^ Suc n \<le> length ints \<Longrightarrow> length ints' = length ints \<Longrightarrow>
     (\<And>k. 0 < k \<Longrightarrow> k < 2 ^ Suc n \<Longrightarrow> ints ! k = ints' ! k) \<Longrightarrow> br1 = br1' \<and> ints1 ! 1 = ints1' ! 1"
proof (induction n arbitrary: ints ints' br)
  case 0
  then show ?case using 0(5) [of 1] by (auto simp: merkle_up.simps [of 2])
next
  case (Suc n)
  let ?c = "(2 :: nat) ^ Suc n"
  obtain i2 b2 where l: "merkle_level ?c (2 * 0) 0 (ints, br) = (i2, b2)" by fastforce
  obtain i2' b2' where l': "merkle_level ?c (2 * 0) 0 (ints', br) = (i2', b2')" by fastforce
  have c: "2 * ?c \<le> length ints" "2 * ?c \<le> length ints'" using Suc(4,5) by auto
  note sp = merkle_level_spec [OF l c(1)] merkle_level_spec [OF l' c(2)]
  have one: "ints ! 1 = ints' ! 1" using one_less_power [of "2 :: nat" "Suc (Suc n)"] by (intro Suc(6)) simp_all
  then have b: "b2' = b2" using sp by auto
  have t: "i2 ! k = i2' ! k" if k: "0 < k" "k < ?c" for k
  proof -
    have "ints ! (2 * k) = ints' ! (2 * k)" "ints ! (2 * k + 1) = ints' ! (2 * k + 1)"
      using k by (auto intro!: Suc(6))
    then show ?thesis using sp k by simp
  qed
  have "2 ^ Suc (Suc n) > (2 :: nat)" "2 ^ Suc (Suc n) div 2 = ?c"
    using one_less_power [of "2 :: nat" "Suc n"] by simp_all
  then have up: "merkle_up (2 ^ Suc (Suc n)) s = merkle_up ?c (merkle_level ?c 0 0 s)" for s
    by (subst merkle_up.simps) (simp only: if_True)
  have u: "merkle_up ?c (i2, b2) = (ints1, br1)" "merkle_up ?c (i2', b2) = (ints1', br1')"
    using Suc(2,3) [unfolded up] l l' b by (simp_all only: mult_0_right)
  show ?case by (rule Suc(1) [OF u]) (use sp c t Suc(5) in auto)
qed

lemma merkle_first_tail:
  "merkle_first (x # t) cnt i j (ints, br) = (ints1, br1) \<Longrightarrow>
   merkle_first (y # t) cnt i j (ints', br) = (ints1', br1') \<Longrightarrow> 0 < i \<Longrightarrow> length ints' = length ints \<Longrightarrow>
   (\<And>k. 0 < k \<Longrightarrow> ints ! k = ints' ! k) \<Longrightarrow> 0 < m \<Longrightarrow> ints1 ! m = ints1' ! m"
proof (induction "cnt - j" arbitrary: i j ints ints')
  case 0
  then show ?case by (auto simp: merkle_first.simps [of _ cnt i j])
next
  case (Suc n)
  have j: "j < cnt" and n: "n = cnt - (j + 1)" using Suc(2) by auto
  have s: "merkle_first (x # t) cnt (i + 2) (j + 1) (ints[j := hash2 ((x # t) ! i) ((x # t) ! (i + 1))], br) = (ints1, br1)"
    "merkle_first (y # t) cnt (i + 2) (j + 1) (ints'[j := hash2 ((y # t) ! i) ((y # t) ! (i + 1))], br) = (ints1', br1')"
    using Suc(3-5) j by (simp_all add: merkle_first.simps [of _ cnt i j])
  show ?case
  proof (rule Suc(1) [OF n s])
    show "ints[j := hash2 ((x # t) ! i) ((x # t) ! (i + 1))] ! k =
        ints'[j := hash2 ((y # t) ! i) ((y # t) ! (i + 1))] ! k" if "0 < k" for k
      using Suc(5-7) that by (cases "j < length ints"; cases "j = k") (simp_all add: nth_Cons' list_update_beyond)
  qed (use Suc in simp_all)
qed

lemma merkle_branch_tail: "fst (merkle_tree (x # t)) = fst (merkle_tree (y # t))"
proof -
  consider "t = []" | "length t = 1" | "2 < length (x # t)"
    by (cases t; cases "tl t") fastforce+
  then show ?thesis
  proof cases
    case 3
    let ?h = "x # t" and ?h' = "y # t"
    define cnt where "cnt = merkle_cnt (length ?h) 1 div 2"
    define k where "k = cnt * 2 - length ?h"
    note b = merkle_leaves [OF 3 cnt_def k_def]
    have len: "length ?h' = length ?h" by simp
    let ?r = "replicate (cnt - k) (replicate kHashSize 0)"
    obtain ints1 br1 where f: "merkle_first ?h cnt k k (take k ?h @ ?r, []) = (ints1, br1)" by fastforce
    obtain ints1' br1' where f': "merkle_first ?h' cnt k k (take k ?h' @ ?r, []) = (ints1', br1')" by fastforce
    have sf: "length ints1 = cnt" "br1 = []" "length ints1' = cnt" "br1' = []"
      using merkle_first_spec [OF f b(1)] merkle_first_spec [OF f' b(1)] b by auto
    have tk: "take k ?h = x # take (k - 1) t" "take k ?h' = y # take (k - 1) t"
      using b(1) by (cases k, simp_all)+
    have t1: "ints1 ! i = ints1' ! i" if "0 < i" for i
      by (rule merkle_first_tail [OF f f' b(1) _ _ that]) (auto simp: tk nth_Cons')
    obtain ints2 br2 where u: "merkle_up cnt (ints1, br1) = (ints2, br2)" by fastforce
    obtain ints2' br2' where u': "merkle_up cnt (ints1', br1) = (ints2', br2')" by fastforce
    have m: "merkle_tree ?h = (br2 @ [ints2 ! 1], hash2 (ints2 ! 0) (ints2 ! 1))"
      using 3 f u unfolding merkle_tree_def Let_def cnt_def [symmetric] k_def [symmetric] by auto
    have m': "merkle_tree ?h' = (br2' @ [ints2' ! 1], hash2 (ints2' ! 0) (ints2' ! 1))"
      using 3 f' u' sf
      unfolding merkle_tree_def Let_def len cnt_def [symmetric] k_def [symmetric] by auto
    obtain n where n: "cnt = 2 ^ Suc n"
    proof -
      obtain m where m: "merkle_cnt (length ?h) 1 = 2 ^ m" using merkle_cnt_bounds [of 1 "length ?h"] by auto
      moreover have "merkle_cnt (length ?h) 1 div 2 \<ge> 2" using b(4) cnt_def by simp
      ultimately obtain m' where "m = Suc (Suc m')" by (cases m; cases "m - 1") auto
      with m cnt_def that show thesis by auto
    qed
    have "br2 = br2' \<and> ints2 ! 1 = ints2' ! 1"
      using merkle_up_tail [OF u [unfolded n] u' [unfolded n]] sf t1 n by simp
    with m m' show ?thesis by simp
  qed (auto simp: merkle_tree_def length_Suc_conv)
qed

text \<open>Replacing the miner transaction needs the branch only: folding the new hash over the branch
  of the old tree gives the root of the tree with the new hash.\<close>

lemma merkle_replace: "foldl hash2 x (fst (merkle_tree (y # t))) = snd (merkle_tree (x # t))"
  using merkle_tree_fold [of "x # t"] merkle_branch_tail [of x t y] by simp

section \<open>The loop over the extra field\<close>

text \<open>The loop after \<open>k\<close> turns, and its end: while every turn moves the reader forward, the
  number of bytes left bounds the turns.\<close>

fun extra_iter :: "nat \<Rightarrow> extra_state \<Rightarrow> extra_state rd" where
  "extra_iter 0 s = Got s"
| "extra_iter (Suc k) s = rd_bind (extra_step s) (extra_iter k)"

definition extra_left :: "extra_state \<Rightarrow> nat" where
  "extra_left s = (case s of (e, _, bt) \<Rightarrow> unat (bt_extraSize bt) - unat (br_index e))"

lemma extra_more_left: "extra_more s \<longleftrightarrow> 0 < extra_left s"
  by (cases s) (auto simp: extra_left_def word_less_nat_alt)

lemma rd_bind_Got: "rd_bind m f = Got y \<longleftrightarrow> (\<exists>x. m = Got x \<and> f x = Got y)"
  by (cases m) auto

lemma extra_step_size: "extra_step (e, first, bt) = Got (e', first', bt') \<Longrightarrow> bt_extraSize bt' = bt_extraSize bt"
  by (auto simp: rd_bind_Got bt_setOffset_def split: if_splits)

lemma extra_loop_ends:
  assumes "\<And>k t t'. extra_iter k s = Got t \<Longrightarrow> extra_more t \<Longrightarrow> extra_step t = Got t' \<Longrightarrow>
      br_index (fst t) < br_index (fst t')"
  shows "extra_left s < fuel \<Longrightarrow> extra_loop fuel s \<noteq> None"
  using assms
proof (induction fuel arbitrary: s)
  case 0
  then show ?case by simp
next
  case (Suc fuel)
  show ?case
  proof (cases "extra_more s")
    case True
    show ?thesis
    proof (cases "extra_step s")
      case (Got s')
      have lt: "br_index (fst s) < br_index (fst s')" using Suc.prems(2) [of 0 s s'] True Got by simp
      obtain e first bt e' first' bt' where s: "s = (e, first, bt)" "s' = (e', first', bt')"
        by (cases s; cases s')
      have "bt_extraSize bt' = bt_extraSize bt" using extra_step_size Got s by blast
      then have "extra_left s' < extra_left s"
        using lt True s by (auto simp: extra_left_def word_less_nat_alt)
      then have "extra_left s' < fuel" using Suc.prems(1) by simp
      moreover have "br_index (fst t) < br_index (fst t')"
        if "extra_iter k s' = Got t" "extra_more t" "extra_step t = Got t'" for k t t'
        using Suc.prems(2) [of "Suc k" t t'] that Got by simp
      ultimately have "extra_loop fuel s' \<noteq> None" using Suc.IH by blast
      then show ?thesis using True Got by simp
    qed (use True in simp_all)
  qed simp
qed

text \<open>A nonce field whose length makes the index wrap to the start of the extra field.\<close>

definition wrap_size :: u64 where "wrap_size = - 11"

definition wrap_extra :: "u8 list \<Rightarrow> nat \<Rightarrow> reader" where
  "wrap_extra rest n = br_new (0x02 # put_varint wrap_size @ rest) (of_nat n)"

definition wrap_bt :: "block_template \<Rightarrow> block_template" where
  "wrap_bt bt = (bt_setOffset TX_EXTRA_NONCE_OFFSET (of_nat (bt_offset TX_EXTRA_OFFSET bt) + 11) bt)
     \<lparr>bt_txExtraNonce := (11, wrap_size)\<rparr>"

lemma put_wrap: "length (put_varint wrap_size) = 10"
  by (simp add: wrap_size_def put_varint.simps word_le_nat_alt drop_bit_eq_div)

lemma br_at_unique: "br_at bs n p r \<Longrightarrow> r = \<lparr>br_data = bs, br_size = of_nat n, br_index = of_nat p\<rparr>"
  by (simp add: br_at_def)

lemma wrap_step:
  assumes "11 \<le> n" and "n \<le> 11 + length rest" and "n < 2 ^ 64"
  shows "extra_step (wrap_extra rest n, first, bt) = Got (wrap_extra rest n, first, wrap_bt bt)"
proof -
  let ?bs = "0x02 # put_varint wrap_size @ rest"
  let ?r = "\<lambda>p. \<lparr>br_data = ?bs, br_size = of_nat n, br_index = of_nat p\<rparr>"
  have two: "put_varint 2 = [2]" by (simp add: put_varint.simps)
  have a0: "br_at ?bs n 0 (?r 0)" and a1: "br_at ?bs n 1 (?r 1)"
    using assms by (auto simp: br_at_def put_wrap)
  from a0 have "br_at ([] @ put_varint 2 @ (put_varint wrap_size @ rest)) n (length ([] :: u8 list)) (?r 0)"
    by (simp add: two)
  from varint_loop_put [OF this, of 0 0] obtain r1
    where r1: "br_varint (?r 0) = Got (2, r1)" "br_at ?bs n 1 r1"
    using assms(1) by (auto simp: two br_varint_def)
  from a1 have "br_at ([2] @ put_varint wrap_size @ rest) n (length [2 :: u8]) (?r 1)"
    by simp
  from varint_loop_put [OF this, of 0 0] obtain r2
    where r2: "br_varint (?r 1) = Got (wrap_size, r2)" "br_at ?bs n 11 r2"
    using assms(1) unsigned_less [of wrap_size] by (auto simp: put_wrap br_varint_def)
  have e: "r1 = ?r 1" "r2 = ?r 11" using br_at_unique r1(2) r2(2) by blast+
  have "wrap_extra rest n = ?r 0" by (simp add: wrap_extra_def br_new_def)
  then show ?thesis
    using r1(1) r2(1)
    by (simp add: e extra_offset_def br_span_def wrap_bt_def wrap_size_def bt_setOffset_def bt_offset_def)
qed

lemma wrap_bt_extraSize [simp]: "bt_extraSize (wrap_bt bt) = bt_extraSize bt"
  by (simp add: wrap_bt_def bt_setOffset_def)

lemma wrap_diverges:
  assumes "11 \<le> n" and "n \<le> 11 + length rest" and "n < 2 ^ 64" and "0 < bt_extraSize bt"
  shows "extra_loop fuel (wrap_extra rest n, first, bt) = None"
  using assms(4)
proof (induction fuel arbitrary: bt)
  case (Suc fuel)
  have "extra_more (wrap_extra rest n, first, bt)"
    using Suc.prems by (simp add: wrap_extra_def br_new_def)
  with Suc show ?case by (simp add: wrap_step [OF assms(1-3)] del: extra_step.simps)
qed simp

end
