(* ===== verification/Job.thy ===== *)
theory Job
  imports BlockTemplate
begin

text \<open>
  Jobs and results (\<open>src/base/net/stratum/Job.h\<close>, \<open>Job.cpp\<close>, \<open>src/net/JobResult.h\<close>,
  \<open>JobResult.cpp\<close>, \<open>SubmitResult.h\<close>). The character arrays \<open>m_rawBlob\<close> and \<open>m_rawTarget\<close> are the
  C strings they hold. The curve arithmetic of the miner signatures is a parameter (\<open>crypto\<close>).
\<close>

section \<open>The record\<close>

definition kMaxBlobSize :: nat where "kMaxBlobSize = 408"

definition kMaxSeedSize :: nat where "kMaxSeedSize = 32"

record job =
  j_algorithm :: algo_id
  j_nicehash :: bool
  j_seed :: "u8 list"
  j_size :: nat
  j_clientId :: cstr
  j_extraNonce :: cstr
  j_id :: cstr
  j_poolWallet :: cstr
  j_backend :: u32
  j_diff :: u64
  j_height :: u64
  j_target :: u64
  j_blob :: "u8 list"
  j_index :: u8
  j_rawBlob :: string
  j_rawTarget :: string
  j_rawSeedHash :: cstr
  j_rawSigKey :: cstr
  j_spendSecretKey :: "u8 list"
  j_viewSecretKey :: "u8 list"
  j_spendPublicKey :: "u8 list"
  j_viewPublicKey :: "u8 list"
  j_minerTxPrefix :: "u8 list"
  j_ephPubKeyOffset :: nat
  j_pubKeyOffset :: nat
  j_extraNonceOffset :: nat
  j_extraNonceSize :: nat
  j_branch :: "hash list"
  j_hasViewTag :: bool
  j_hasMinerSignature :: bool

definition job_default :: job where
  "job_default = \<lparr>j_algorithm = ALGO_INVALID, j_nicehash = False, j_seed = [], j_size = 0, j_clientId = None,
     j_extraNonce = None, j_id = None, j_poolWallet = None, j_backend = 0, j_diff = 0, j_height = 0,
     j_target = 0, j_blob = replicate kMaxBlobSize 0, j_index = 0, j_rawBlob = [], j_rawTarget = [],
     j_rawSeedHash = None, j_rawSigKey = None, j_spendSecretKey = replicate 32 0,
     j_viewSecretKey = replicate 32 0, j_spendPublicKey = replicate 32 0, j_viewPublicKey = replicate 32 0,
     j_minerTxPrefix = [], j_ephPubKeyOffset = 0, j_pubKeyOffset = 0, j_extraNonceOffset = 0,
     j_extraNonceSize = 0, j_branch = [], j_hasViewTag = False, j_hasMinerSignature = False\<rparr>"

definition job_new :: "bool \<Rightarrow> algo_id \<Rightarrow> cstr \<Rightarrow> job" where
  "job_new nicehash algorithm clientId =
     job_default\<lparr>j_algorithm := algorithm, j_nicehash := nicehash, j_clientId := clientId\<rparr>"

definition job_isValid :: "job \<Rightarrow> bool" where
  "job_isValid j \<longleftrightarrow> (j_size j > 0 \<and> j_diff j > 0) \<or> \<not> str_isEmpty (j_poolWallet j)"

definition job_reset :: "job \<Rightarrow> job" where
  "job_reset j = j\<lparr>j_size := 0, j_diff := 0\<rparr>"

definition toDiff :: "u64 \<Rightarrow> u64" where
  "toDiff target = (if target \<noteq> 0 then 0xFFFFFFFFFFFFFFFF div target else 0)"

definition nonceSize :: "job \<Rightarrow> nat" where
  "nonceSize j = (if algo_family (j_algorithm j) = FAM_KAWPOW then 8 else 4)"

definition nonceOffset :: "job \<Rightarrow> nat" where
  "nonceOffset j =
     (if algo_family (j_algorithm j) = FAM_KAWPOW then 32
      else if algo_family (j_algorithm j) = FAM_GHOSTRIDER then 76
      else if j_algorithm j = RX_YADA then 147
      else 39)"

definition fixedByte :: "job \<Rightarrow> u8" where
  "fixedByte j = j_blob j ! 42"

text \<open>The four bytes of the nonce.\<close>

definition nonce_bytes :: "job \<Rightarrow> u8 list" where
  "nonce_bytes j = take 4 (drop (nonceOffset j) (j_blob j))"

definition nonceMask :: "job \<Rightarrow> u64" where
  "nonceMask j =
     (if j_nicehash j then 0xFFFFFF
      else if nonceSize j = 8 then drop_bit (str_size (j_extraNonce j) * 4) (- 1)
      else 0xFFFFFFFF)"

section \<open>Equality, copy and move\<close>

definition isEqualBlob :: "job \<Rightarrow> job \<Rightarrow> bool" where
  "isEqualBlob a b \<longleftrightarrow> j_size a = j_size b \<and> take (j_size a) (j_blob a) = take (j_size a) (j_blob b)"

definition job_isEqual :: "job \<Rightarrow> job \<Rightarrow> bool" where
  "job_isEqual a b \<longleftrightarrow> str_isEqual (j_id a) (j_id b) \<and> str_isEqual (j_clientId a) (j_clientId b) \<and>
     isEqualBlob a b \<and> j_target a = j_target b"

definition job_copy :: "job \<Rightarrow> job \<Rightarrow> job" where
  "job_copy self other = self\<lparr>
     j_algorithm := j_algorithm other, j_nicehash := j_nicehash other, j_size := j_size other,
     j_clientId := j_clientId other, j_id := j_id other, j_backend := j_backend other,
     j_diff := j_diff other, j_height := j_height other, j_target := j_target other,
     j_index := j_index other, j_seed := j_seed other, j_extraNonce := j_extraNonce other,
     j_poolWallet := j_poolWallet other, j_blob := j_blob other,
     j_rawSeedHash := j_rawSeedHash other, j_rawSigKey := j_rawSigKey other,
     j_rawBlob := j_rawBlob other, j_rawTarget := j_rawTarget other,
     j_spendSecretKey := j_spendSecretKey other, j_viewSecretKey := j_viewSecretKey other,
     j_spendPublicKey := j_spendPublicKey other, j_viewPublicKey := j_viewPublicKey other,
     j_minerTxPrefix := j_minerTxPrefix other, j_ephPubKeyOffset := j_ephPubKeyOffset other,
     j_pubKeyOffset := j_pubKeyOffset other, j_extraNonceOffset := j_extraNonceOffset other,
     j_extraNonceSize := j_extraNonceSize other, j_branch := j_branch other,
     j_hasViewTag := j_hasViewTag other, j_hasMinerSignature := j_hasMinerSignature other\<rparr>"

text \<open>The moved-from job keeps its arrays and numbers, its strings and buffers are empty.\<close>

definition job_move :: "job \<Rightarrow> job \<Rightarrow> job \<times> job" where
  "job_move self other =
     (job_copy self other,
      other\<lparr>j_clientId := None, j_id := None, j_seed := [], j_extraNonce := None, j_poolWallet := None,
        j_size := 0, j_diff := 0, j_algorithm := ALGO_INVALID, j_rawSeedHash := None,
        j_rawSigKey := None, j_minerTxPrefix := [], j_branch := []\<rparr>)"

section \<open>Setters\<close>

definition job_setId :: "cstr \<Rightarrow> job \<Rightarrow> bool \<times> job" where
  "job_setId i j = (i \<noteq> None, j\<lparr>j_id := i\<rparr>)"

definition setBlob :: "cstr \<Rightarrow> job \<Rightarrow> bool \<times> job" where
  "setBlob blob j =
     (case blob of
        None \<Rightarrow> (False, j)
      | Some s \<Rightarrow>
          if length s mod 2 \<noteq> 0 then (False, j)
          else
            let size = length s div 2; minSize = nonceOffset j + nonceSize j in
            if size < minSize \<or> size \<ge> kMaxBlobSize then (False, j)
            else
              let (ok, bin) = fromHex_to (j_blob j) s; j = j\<lparr>j_blob := bin\<rparr> in
              if \<not> ok then (False, j)
              else
                let j = (if nonce_bytes j \<noteq> [0, 0, 0, 0] \<and> \<not> j_nicehash j then j\<lparr>j_nicehash := True\<rparr> else j)
                in (True, j\<lparr>j_rawBlob := s, j_size := size\<rparr>))"

definition setSeedHash :: "cstr \<Rightarrow> job \<Rightarrow> bool \<times> job" where
  "setSeedHash hash j =
     (case hash of
        None \<Rightarrow> (False, j)
      | Some s \<Rightarrow>
          if length s \<noteq> kMaxSeedSize * 2 then (False, j)
          else let j = j\<lparr>j_rawSeedHash := hash, j_seed := fromHex s\<rparr> in (j_seed j \<noteq> [], j))"

text \<open>\<open>strtoull(s, nullptr, 16)\<close>: white space, a sign, an optional prefix, the longest run of
  digits; the value saturates, a minus sign negates it.\<close>

definition is_xdigit :: "char \<Rightarrow> bool" where
  "is_xdigit c \<longleftrightarrow> \<not> hex_bad (byte_of c)"

definition hex_value :: "string \<Rightarrow> nat" where
  "hex_value s = foldl (\<lambda>a c. 16 * a + unat (hex_val (byte_of c))) 0 s"

definition strtoull16 :: "string \<Rightarrow> u64" where
  "strtoull16 s =
     (let s = dropWhile is_space s;
          neg = (s \<noteq> [] \<and> hd s = CHR ''-'');
          s = (if s \<noteq> [] \<and> (hd s = CHR ''-'' \<or> hd s = CHR ''+'') then tl s else s);
          s = (if 3 \<le> length s \<and> s ! 0 = CHR ''0'' \<and> to_lower (s ! 1) = CHR ''x'' \<and> is_xdigit (s ! 2)
               then drop 2 s else s);
          v = hex_value (takeWhile is_xdigit s)
      in if v \<ge> 2 ^ 64 then - 1 else if neg then - of_nat v else of_nat v)"

text \<open>The lambda \<open>parse\<close> of \<open>setTarget\<close>; \<open>None\<close> is a division by zero.\<close>

definition parse_target :: "string \<Rightarrow> algo_id \<Rightarrow> u64 option" where
  "parse_target target algorithm =
     (if algorithm = RX_YADA then Some (strtoull16 target)
      else
        let raw = fromHex target in
        if length raw = 4 then
          (let v = le_word raw in
           if v = 0 \<or> 0xFFFFFFFF div v = 0 then None
           else Some (0xFFFFFFFFFFFFFFFF div (0xFFFFFFFF div v)))
        else if length raw = 8 then Some (le_word raw)
        else Some 0)"

definition kRawTargetSize :: nat where "kRawTargetSize = 24"

definition setTarget :: "cstr \<Rightarrow> job \<Rightarrow> (bool \<times> job) option" where
  "setTarget target j =
     (let size = str_size target in
      if size < 4 then Some (False, j)
      else
        case parse_target (the target) (j_algorithm j) of
          None \<Rightarrow> None
        | Some t \<Rightarrow>
            let j = j\<lparr>j_target := t\<rparr> in
            if t = 0 then Some (False, j)
            else
              let j = j\<lparr>j_diff := toDiff t\<rparr> in
              if size \<ge> kRawTargetSize then Some (False, j)
              else Some (True, j\<lparr>j_rawTarget := the target\<rparr>))"

definition setDiff :: "u64 \<Rightarrow> job \<Rightarrow> job" where
  "setDiff d j =
     (let t = toDiff d
      in j\<lparr>j_diff := d, j_target := t,
           j_rawTarget := the (toHex_buf kRawTargetSize (le_bytes t))\<rparr>)"

definition setSigKey :: "cstr \<Rightarrow> job \<Rightarrow> job" where
  "setSigKey k j = (if str_size k \<noteq> 128 then j else j\<lparr>j_rawSigKey := k\<rparr>)"

fun num_tx_loop :: "u8 list \<Rightarrow> nat \<Rightarrow> u32 \<Rightarrow> u32" where
  "num_tx_loop [] k n = n"
| "num_tx_loop (b # bs) k n =
     (let n = n OR push_bit k (ucast (b AND 0x7F))
      in if b AND 0x80 = 0 then n else num_tx_loop bs (k + 7) n)"

definition getNumTransactions :: "job \<Rightarrow> u32" where
  "getNumTransactions j =
     (if \<not> (algo_isCN (j_algorithm j) \<or> algo_family (j_algorithm j) = FAM_RANDOM_X) then 0
      else
        let off = (if j_algorithm j = RX_WOW then 141 else 75) in
        if j_size j > off \<and> j_size j \<le> off + 4
        then num_tx_loop (take (j_size j - off) (drop off (j_blob j))) 0 0 else 0)"

section \<open>Miner signatures\<close>

text \<open>The curve operations of \<open>Signatures.cpp\<close>. \<open>cr_generate_keys\<close> is the pair (public, secret) the
  random generator yields; a derivation comes with its view tag.\<close>

record crypto =
  cr_generate_keys :: "u8 list \<times> u8 list"
  cr_key_derivation :: "u8 list \<Rightarrow> u8 list \<Rightarrow> u8 list \<times> u8"
  cr_derive_public_key :: "u8 list \<Rightarrow> u8 list \<Rightarrow> u8 list"
  cr_derive_secret_key :: "u8 list \<Rightarrow> u8 list \<Rightarrow> u8 list"
  cr_derive_view_secret_key :: "u8 list \<Rightarrow> u8 list"
  cr_secret_to_public :: "u8 list \<Rightarrow> u8 list"

definition setSpendSecretKey :: "crypto \<Rightarrow> u8 list \<Rightarrow> job \<Rightarrow> job" where
  "setSpendSecretKey cr key j =
     (let view = cr_derive_view_secret_key cr key
      in j\<lparr>j_hasMinerSignature := True, j_spendSecretKey := key, j_viewSecretKey := view,
           j_spendPublicKey := cr_secret_to_public cr key, j_viewPublicKey := cr_secret_to_public cr view\<rparr>)"

definition setMinerTx ::
  "u8 list \<Rightarrow> nat \<Rightarrow> nat \<Rightarrow> nat \<Rightarrow> nat \<Rightarrow> hash list \<Rightarrow> bool \<Rightarrow> job \<Rightarrow> job" where
  "setMinerTx prefix eph pub extra extraSize branch viewTag j =
     j\<lparr>j_minerTxPrefix := prefix, j_ephPubKeyOffset := eph, j_pubKeyOffset := pub,
       j_extraNonceOffset := extra, j_extraNonceSize := extraSize, j_branch := branch,
       j_hasViewTag := viewTag\<rparr>"

text \<open>Writes behind the prefix are \<open>None\<close>.\<close>

definition job_poke :: "nat \<Rightarrow> u8 list \<Rightarrow> job \<Rightarrow> job option" where
  "job_poke off bytes j = map_option (\<lambda>p. j\<lparr>j_minerTxPrefix := p\<rparr>) (poke off bytes (j_minerTxPrefix j))"

definition setViewTagInMinerTx :: "u8 \<Rightarrow> job \<Rightarrow> job option" where
  "setViewTagInMinerTx view_tag j = job_poke (j_ephPubKeyOffset j + 32) [view_tag] j"

definition setExtraNonceInMinerTx :: "u32 \<Rightarrow> job \<Rightarrow> job option" where
  "setExtraNonceInMinerTx extra_nonce j =
     job_poke (j_extraNonceOffset j) (take (min (j_extraNonceSize j) 4) (le_bytes (ucast extra_nonce))) j"

text \<open>The text of the signature data, the view tag, and the job with its new keys in the prefix.\<close>

definition generateSignatureData :: "crypto \<Rightarrow> job \<Rightarrow> (cstr \<times> u8 \<times> job) option" where
  "generateSignatureData cr j =
     (let (txkey_pub, txkey_sec) = cr_generate_keys cr;
          (derivation, view_tag) = cr_key_derivation cr (j_viewPublicKey j) txkey_sec;
          eph_public_key = cr_derive_public_key cr derivation (j_spendPublicKey j);
          (derivation2, _) = cr_key_derivation cr txkey_pub (j_viewSecretKey j);
          sec = cr_derive_secret_key cr derivation2 (j_spendSecretKey j)
      in case job_poke (j_pubKeyOffset j) txkey_pub j of
           None \<Rightarrow> None
         | Some j \<Rightarrow>
             (case job_poke (j_ephPubKeyOffset j) eph_public_key j of
                None \<Rightarrow> None
              | Some j \<Rightarrow>
                  Some (toHex (take 32 (drop (j_pubKeyOffset j) (j_minerTxPrefix j)) @
                               take 32 (drop (j_ephPubKeyOffset j) (j_minerTxPrefix j)) @ sec), view_tag, j)))"

definition generateHashingBlob_job :: "job \<Rightarrow> string option" where
  "generateHashingBlob_job j =
     (let root_hash = calculateRootHash (j_minerTxPrefix j) (j_branch j);
          off = nonceOffset j + nonceSize j;
          off = (if j_hasMinerSignature j then off + 64 + 2 else off)
      in poke (off * 2) (the (toHex_buf 64 root_hash)) (j_rawBlob j))"

section \<open>Results\<close>

record job_result =
  jr_algorithm :: algo_id
  jr_nonce :: cstr
  jr_result :: cstr
  jr_sig :: cstr
  jr_sig_data :: cstr
  jr_view_tag :: u8
  jr_id :: int
  jr_extra_nonce :: int
  jr_jobId :: cstr
  jr_diff :: u64
  jr_actualDiff :: u64

definition result_target :: "string \<Rightarrow> u64" where
  "result_target result = le_word (snd (fromHex_to (replicate 8 0) (take 16 (drop 48 result))))"

definition mk_job_result ::
  "int \<Rightarrow> cstr \<Rightarrow> cstr \<Rightarrow> cstr \<Rightarrow> algo_id \<Rightarrow> cstr \<Rightarrow> cstr \<Rightarrow> u8 \<Rightarrow> int \<Rightarrow> job_result" where
  "mk_job_result i jobId nonce result algorithm sig sig_data view_tag extra_nonce =
     \<lparr>jr_algorithm = algorithm, jr_nonce = nonce, jr_result = result, jr_sig = sig,
      jr_sig_data = sig_data, jr_view_tag = view_tag, jr_id = i, jr_extra_nonce = extra_nonce,
      jr_jobId = jobId, jr_diff = 0,
      jr_actualDiff =
        (case result of
           Some r \<Rightarrow>
             if length r = 64 then
               (let target = result_target r in if target > 0 then toDiff target else 0)
             else 0
         | None \<Rightarrow> 0)\<rparr>"

text \<open>\<open>fromHex(n, sizeof(n), nonce, 8)\<close> reads eight characters; the terminator is not a digit.\<close>

definition jr_isCompatible :: "u8 \<Rightarrow> job_result \<Rightarrow> bool" where
  "jr_isCompatible fixed r =
     (case jr_nonce r of
        None \<Rightarrow> False
      | Some nonce \<Rightarrow>
          let (ok, n) = fromHex_to [0, 0, 0, 0] (take 8 (nonce @ [nul]))
          in ok \<and> n ! 3 = fixed)"

definition jr_isValid :: "job_result \<Rightarrow> bool" where
  "jr_isValid r =
     (if jr_nonce r = None \<or> jr_actualDiff r = 0 then False
      else length (the (jr_nonce r)) = 8 \<and> \<not> str_isNull (jr_jobId r))"

record submit_result =
  sr_reqId :: int
  sr_seq :: int
  sr_backend :: u32
  sr_actualDiff :: u64
  sr_diff :: u64
  sr_elapsed :: u64
  sr_start :: u64

definition mk_submit_result :: "u64 \<Rightarrow> int \<Rightarrow> u64 \<Rightarrow> u64 \<Rightarrow> int \<Rightarrow> u32 \<Rightarrow> submit_result" where
  "mk_submit_result now seq diff actualDiff reqId backend =
     \<lparr>sr_reqId = reqId, sr_seq = seq, sr_backend = backend, sr_actualDiff = actualDiff, sr_diff = diff,
      sr_elapsed = 0, sr_start = now\<rparr>"

definition sr_done :: "u64 \<Rightarrow> submit_result \<Rightarrow> submit_result" where
  "sr_done now r = r\<lparr>sr_elapsed := now - sr_start r\<rparr>"

section \<open>Lemmas\<close>

lemma le_word_le_bytes: "le_word (le_bytes w) = w"
proof (rule bit_word_eqI)
  fix n
  assume "n < LENGTH(64)"
  then have n: "n < 64" "n div 8 < 8" by auto
  then have "le_bytes w ! (n div 8) = ucast (drop_bit (8 * (n div 8)) w)"
    by (simp add: le_bytes_def)
  then show "bit (le_word (le_bytes w)) n = bit w n"
    using n by (simp add: bit_le_word bit_simps)
qed

lemma unat_u64: "unat (w :: u64) \<le> 2 ^ 64 - 1"
proof -
  have "unat w < 2 ^ 64" using unsigned_less [of w] by simp
  then show ?thesis by simp
qed

lemma le_word_4: "length bs = 4 \<Longrightarrow> le_word bs \<le> 0xFFFFFFFF"
proof -
  assume l: "length bs = 4"
  have "take_bit 32 (le_word bs) = le_word bs"
  proof (rule bit_word_eqI)
    fix n
    assume "n < LENGTH(64)"
    then show "bit (take_bit 32 (le_word bs)) n = bit (le_word bs) n"
      using l by (auto simp: bit_simps bit_le_word)
  qed
  then have "le_word bs = le_word bs AND mask 32" by (simp add: take_bit_eq_mask)
  also have "\<dots> \<le> mask 32" by (rule word_and_le1)
  finally show ?thesis by (simp add: mask_eq_exp_minus_1)
qed

lemma job_copy_eq: "job_copy self other = other"
  by (simp add: job_copy_def)

lemma job_move_to: "fst (job_move self other) = other"
  by (simp add: job_move_def job_copy_eq)

lemma job_move_from_invalid: "\<not> job_isValid (snd (job_move self other))"
  by (simp add: job_move_def job_isValid_def str_isEmpty_def str_size_def)

lemma unat_toDiff: "t \<noteq> 0 \<Longrightarrow> unat (toDiff t) = (2 ^ 64 - 1) div unat t"
  by (simp add: toDiff_def unat_div)

lemma div_div_ge: "0 < (d :: nat) \<Longrightarrow> d \<le> m \<Longrightarrow> d \<le> m div (m div d)"
proof -
  assume "0 < d" "d \<le> m"
  then have "0 < m div d" by (simp add: div_greater_zero_iff)
  then show ?thesis by (simp add: less_eq_div_iff_mult_less_eq mult.commute)
qed

lemma toDiff_nonzero: "d \<noteq> 0 \<Longrightarrow> toDiff d \<noteq> 0"
proof -
  assume d: "d \<noteq> 0"
  have "0 < (2 ^ 64 - 1) div unat d" using d by (simp add: div_greater_zero_iff unat_gt_0 unat_u64 [simplified])
  then show ?thesis using unat_toDiff [OF d] by auto
qed

lemma toDiff_toDiff: "d \<noteq> 0 \<Longrightarrow> d \<le> toDiff (toDiff d)"
proof -
  assume d: "d \<noteq> 0"
  have "unat d \<le> 2 ^ 64 - 1" by (rule unat_u64)
  moreover have "0 < unat d" using d by (simp add: unat_gt_0)
  ultimately have "unat d \<le> (2 ^ 64 - 1) div ((2 ^ 64 - 1) div unat d)" by (rule div_div_ge [rotated])
  also have "\<dots> = unat (toDiff (toDiff d))" using d by (simp only: unat_toDiff toDiff_nonzero not_False_eq_True)
  finally show ?thesis by (simp add: word_le_nat_alt)
qed

lemma rawTarget_setDiff: "j_rawTarget (setDiff d j) = cvt_bin2hex_loop (le_bytes (toDiff d))"
  by (simp add: setDiff_def Let_def toHex_buf_def cvt_bin2hex_def kRawTargetSize_def)

lemma setTarget_setDiff:
  assumes "d \<noteq> 0" and "j_algorithm k \<noteq> RX_YADA"
  shows "setTarget (Some (j_rawTarget (setDiff d j))) k =
    Some (True, k\<lparr>j_target := toDiff d, j_diff := toDiff (toDiff d), j_rawTarget := j_rawTarget (setDiff d j)\<rparr>)"
proof -
  have "le_bytes (toDiff d) \<noteq> []" by (simp add: le_bytes_def)
  then have "fromHex (cvt_bin2hex_loop (le_bytes (toDiff d))) = le_bytes (toDiff d)" by (rule fromHex_bin2hex)
  then show ?thesis
    using assms toDiff_nonzero
    by (simp add: rawTarget_setDiff setTarget_def str_size_def parse_target_def Let_def le_word_le_bytes
        kRawTargetSize_def)
qed

text \<open>The 4-byte target is the only way to a division by zero.\<close>

lemma parse_target_None:
  "parse_target s a = None \<longleftrightarrow> a \<noteq> RX_YADA \<and> length (fromHex s) = 4 \<and> le_word (fromHex s) = 0"
proof -
  have "0xFFFFFFFF div v \<noteq> 0" if "v \<noteq> 0" "v \<le> 0xFFFFFFFF" for v :: u64
  proof -
    have "0 < unat v" "unat v \<le> 4294967295" using that by (auto simp: unat_gt_0 word_le_nat_alt)
    then have "unat (0xFFFFFFFF div v) \<noteq> 0" by (simp add: unat_div div_eq_0_iff)
    then show ?thesis by auto
  qed
  then show ?thesis using le_word_4 [of "fromHex s"] by (auto simp: parse_target_def Let_def)
qed

lemma setTarget_None:
  "setTarget t j = None \<longleftrightarrow>
     (\<exists>s. t = Some s \<and> 4 \<le> length s \<and> j_algorithm j \<noteq> RX_YADA \<and> length (fromHex s) = 4 \<and> le_word (fromHex s) = 0)"
proof (cases t)
  case (Some s)
  show ?thesis
  proof (cases "parse_target s (j_algorithm j)")
    case None
    then show ?thesis using Some parse_target_None [of s "j_algorithm j"]
      by (auto simp: setTarget_def Let_def str_size_def)
  next
    case (Some v)
    then have "\<not> (j_algorithm j \<noteq> RX_YADA \<and> length (fromHex s) = 4 \<and> le_word (fromHex s) = 0)"
      using parse_target_None [of s "j_algorithm j"] by simp
    then show ?thesis using Some \<open>t = Some s\<close> by (auto simp: setTarget_def Let_def str_size_def)
  qed
qed (simp add: setTarget_def str_size_def)

lemma fromHex_to_length: "length (snd (fromHex_to bin s)) = length bin"
proof -
  obtain ok out st rest where r: "hex2bin_loop (length bin) s 0 False [] = (ok, out, st, rest)"
    by (metis prod_cases4)
  then have "length out \<le> length bin" using hex2bin_loop_bound by fastforce
  with r show ?thesis by (simp add: fromHex_to_def cvt_hex2bin_def Let_def)
qed

lemma setBlob_True:
  assumes "setBlob b j = (True, j')"
  obtains s where "b = Some s" and "even (length s)"
    and "nonceOffset j + nonceSize j \<le> length s div 2" and "length s div 2 < kMaxBlobSize"
    and "fst (fromHex_to (j_blob j) s)"
    and "j' = j\<lparr>j_blob := snd (fromHex_to (j_blob j) s), j_rawBlob := s, j_size := length s div 2,
        j_nicehash := j_nicehash j \<or> nonce_bytes (j\<lparr>j_blob := snd (fromHex_to (j_blob j) s)\<rparr>) \<noteq> [0, 0, 0, 0]\<rparr>"
proof -
  from assms obtain s where b: "b = Some s" by (cases b) (auto simp: setBlob_def)
  have nc: "nonce_bytes (k\<lparr>j_nicehash := x\<rparr>) = nonce_bytes k" for k x
    by (simp add: nonce_bytes_def nonceOffset_def)
  obtain ok bin where f: "fromHex_to (j_blob j) s = (ok, bin)" by fastforce
  show thesis
    by (rule that [OF b])
      (use assms b f in \<open>auto simp: setBlob_def Let_def split: if_splits\<close>)
qed

lemma setBlob_False: "setBlob b j = (False, j') \<Longrightarrow> \<exists>bin. length bin = length (j_blob j) \<and> j' = j\<lparr>j_blob := bin\<rparr>"
  using fromHex_to_length [of "j_blob j" "the b"]
  by (auto simp: setBlob_def Let_def case_prod_beta split: option.splits if_splits intro: exI [of _ "j_blob j"])

text \<open>The rewritten blob of a miner with a signature keeps its length and everything up to the
  root hash, the nonce included.\<close>

lemma generateHashingBlob_job_frame:
  assumes "generateHashingBlob_job j = Some b"
  shows "length b = length (j_rawBlob j)"
    and "take (2 * (nonceOffset j + nonceSize j)) b = take (2 * (nonceOffset j + nonceSize j)) (j_rawBlob j)"
proof -
  obtain off h where p: "poke off h (j_rawBlob j) = Some b" "2 * (nonceOffset j + nonceSize j) \<le> off"
    using assms by (auto simp: generateHashingBlob_job_def Let_def split: if_splits)
  then show "length b = length (j_rawBlob j)" by (simp add: poke_length)
  have "take off b = take off (j_rawBlob j)" using poke_id [OF p(1)] by simp
  then show "take (2 * (nonceOffset j + nonceSize j)) b = take (2 * (nonceOffset j + nonceSize j)) (j_rawBlob j)"
    using p(2) by (metis min.absorb1 take_take)
qed

end
