(* ===== verification/NetBuffer.thy ===== *)
theory NetBuffer
  imports Prelude
begin

text \<open>
  Network buffers: the pool of chunks (\<open>src/base/net/tools/MemPool.h\<close>, behind
  \<open>NetBuffer.cpp\<close>), the keyed store of live objects (\<open>Storage.h\<close>) and the reader that cuts a
  byte stream into lines (\<open>LineReader.h\<close>, \<open>LineReader.cpp\<close>).
\<close>

definition XMRIG_NET_BUFFER_CHUNK_SIZE :: nat where "XMRIG_NET_BUFFER_CHUNK_SIZE = 65536"

definition XMRIG_NET_BUFFER_INIT_CHUNKS :: nat where "XMRIG_NET_BUFFER_INIT_CHUNKS = 4"

section \<open>MemPool\<close>

text \<open>An address is the row of \<open>m_data\<close> and the offset in it; the set of free chunks is its
  ascending list.\<close>

type_synonym chunk_ptr = "nat \<times> nat"

record mempool =
  mp_used :: "chunk_ptr \<Rightarrow> nat option"
  mp_rows :: nat
  mp_free :: "nat list"

definition mp_new :: mempool where
  "mp_new = \<lparr>mp_used = Map.empty, mp_rows = 0, mp_free = []\<rparr>"

definition mp_chunk :: "nat \<Rightarrow> chunk_ptr" where
  "mp_chunk i =
     (let r = i div XMRIG_NET_BUFFER_INIT_CHUNKS
      in (r, (i - r * XMRIG_NET_BUFFER_INIT_CHUNKS) * XMRIG_NET_BUFFER_CHUNK_SIZE))"

definition mp_resize :: "mempool \<Rightarrow> mempool" where
  "mp_resize p =
     (let index = mp_rows p
      in p\<lparr>mp_rows := index + 1,
           mp_free := fold insort_insert
             (map (\<lambda>i. index * XMRIG_NET_BUFFER_INIT_CHUNKS + i) [0..<XMRIG_NET_BUFFER_INIT_CHUNKS]) (mp_free p)\<rparr>)"

definition mp_allocate :: "mempool \<Rightarrow> chunk_ptr \<times> mempool" where
  "mp_allocate p =
     (let p = (if mp_free p = [] then mp_resize p else p);
          i = hd (mp_free p);
          ptr = mp_chunk i
      in (ptr, p\<lparr>mp_used := (mp_used p)(ptr \<mapsto> i), mp_free := tl (mp_free p)\<rparr>))"

text \<open>\<open>m_used[ptr]\<close> of an address that is not in use is the default \<open>0\<close>.\<close>

definition mp_deallocate :: "chunk_ptr option \<Rightarrow> mempool \<Rightarrow> mempool" where
  "mp_deallocate ptr p =
     (case ptr of
        None \<Rightarrow> p
      | Some a \<Rightarrow>
          let i = (case mp_used p a of Some i \<Rightarrow> i | None \<Rightarrow> 0)
          in p\<lparr>mp_free := insort_insert i (mp_free p), mp_used := (mp_used p)(a := None)\<rparr>)"

text \<open>Every chunk of the rows is free or in use under its own address, never both.\<close>

definition mp_inv :: "mempool \<Rightarrow> bool" where
  "mp_inv p \<longleftrightarrow> sorted (mp_free p) \<and> distinct (mp_free p) \<and>
     (\<forall>a i. mp_used p a = Some i \<longrightarrow> a = mp_chunk i \<and> i \<notin> set (mp_free p)) \<and>
     (\<forall>i. i < mp_rows p * XMRIG_NET_BUFFER_INIT_CHUNKS \<longleftrightarrow> i \<in> set (mp_free p) \<or> mp_used p (mp_chunk i) = Some i)"

lemma mp_invD:
  assumes "mp_inv p"
  shows "sorted (mp_free p)" "distinct (mp_free p)"
    and "mp_used p a = Some i \<Longrightarrow> a = mp_chunk i"
    and "mp_used p a = Some i \<Longrightarrow> i \<notin> set (mp_free p)"
    and "i < mp_rows p * XMRIG_NET_BUFFER_INIT_CHUNKS \<longleftrightarrow> i \<in> set (mp_free p) \<or> mp_used p (mp_chunk i) = Some i"
  using assms unfolding mp_inv_def by blast+

lemma mp_invI:
  assumes "sorted (mp_free p)" "distinct (mp_free p)"
    and "\<And>a i. mp_used p a = Some i \<Longrightarrow> a = mp_chunk i \<and> i \<notin> set (mp_free p)"
    and "\<And>i. i < mp_rows p * XMRIG_NET_BUFFER_INIT_CHUNKS \<longleftrightarrow> i \<in> set (mp_free p) \<or> mp_used p (mp_chunk i) = Some i"
  shows "mp_inv p"
  unfolding mp_inv_def using assms by blast

lemma mp_chunk_inj: "mp_chunk i = mp_chunk j \<Longrightarrow> i = j"
proof -
  assume "mp_chunk i = mp_chunk j"
  then have d: "i div 4 = j div 4" "(i - i div 4 * 4) = (j - j div 4 * 4)"
    by (auto simp: mp_chunk_def Let_def XMRIG_NET_BUFFER_INIT_CHUNKS_def XMRIG_NET_BUFFER_CHUNK_SIZE_def)
  then have "i mod 4 = j mod 4" by (metis minus_div_mult_eq_mod)
  with d(1) show "i = j" by (metis div_mult_mod_eq)
qed

lemma mp_inv_new: "mp_inv mp_new"
  by (simp add: mp_inv_def mp_new_def)

lemma fold_insort_insert:
  "sorted xs \<Longrightarrow> distinct xs \<Longrightarrow>
     sorted (fold insort_insert ys xs) \<and> distinct (fold insort_insert ys xs) \<and>
     set (fold insort_insert ys xs) = set xs \<union> set ys"
  by (induction ys arbitrary: xs)
    (auto simp: sorted_insort_insert distinct_insort_insert set_insort_insert)

lemma mp_inv_resize:
  assumes "mp_inv p"
  shows "mp_inv (mp_resize p)" "mp_free (mp_resize p) \<noteq> []" "mp_used (mp_resize p) = mp_used p"
proof -
  let ?n = "XMRIG_NET_BUFFER_INIT_CHUNKS"
  let ?new = "map (\<lambda>i. mp_rows p * ?n + i) [0..<?n]"
  have s: "set ?new = {mp_rows p * ?n ..< (mp_rows p + 1) * ?n}"
    by (auto simp: image_iff intro: bexI [of _ "x - mp_rows p * ?n" for x])
  have f: "sorted (mp_free (mp_resize p))" "distinct (mp_free (mp_resize p))"
    "set (mp_free (mp_resize p)) = set (mp_free p) \<union> {mp_rows p * ?n ..< (mp_rows p + 1) * ?n}"
    using fold_insort_insert [of "mp_free p" ?new] assms s by (auto simp: mp_inv_def mp_resize_def Let_def)
  show "mp_used (mp_resize p) = mp_used p" by (simp add: mp_resize_def Let_def)
  have "mp_rows p * ?n \<in> set (mp_free (mp_resize p))"
    using f(3) by (simp add: XMRIG_NET_BUFFER_INIT_CHUNKS_def)
  then show "mp_free (mp_resize p) \<noteq> []" by auto
  have u: "i < mp_rows p * ?n" if "mp_used p a = Some i" for a i
    using mp_invD(3,5) [OF assms] that by blast
  have r: "mp_rows (mp_resize p) = mp_rows p + 1" by (simp add: mp_resize_def Let_def)
  have "i < (mp_rows p + 1) * ?n \<longleftrightarrow>
      i < mp_rows p * ?n \<or> i \<in> {mp_rows p * ?n ..< (mp_rows p + 1) * ?n}" for i
    by auto
  note range = this
  show "mp_inv (mp_resize p)"
  proof (rule mp_invI)
    fix a i
    assume "mp_used (mp_resize p) a = Some i"
    then have "mp_used p a = Some i" using \<open>mp_used (mp_resize p) = mp_used p\<close> by simp
    then show "a = mp_chunk i \<and> i \<notin> set (mp_free (mp_resize p))"
      using u [of a i] f(3) mp_invD(3,4) [OF assms, of a i] by auto
  next
    fix i
    show "i < mp_rows (mp_resize p) * ?n \<longleftrightarrow>
        i \<in> set (mp_free (mp_resize p)) \<or> mp_used (mp_resize p) (mp_chunk i) = Some i"
      unfolding r f(3) \<open>mp_used (mp_resize p) = mp_used p\<close> range using mp_invD(5) [OF assms, of i] by blast
  qed (rule f)+
qed

lemma mp_inv_allocate:
  assumes "mp_inv p" and "mp_allocate p = (a, p')"
  shows "mp_inv p'" and "mp_used p a = None" and "mp_used p' = (mp_used p)(a := mp_used p' a)"
    and "mp_used p' a \<noteq> None"
proof -
  define q where "q = (if mp_free p = [] then mp_resize p else p)"
  have q: "mp_inv q" "mp_free q \<noteq> []" "mp_used q = mp_used p"
    using mp_inv_resize [OF assms(1)] assms(1) by (auto simp: q_def)
  obtain i fs where f: "mp_free q = i # fs" using q(2) by (cases "mp_free q") auto
  have p': "a = mp_chunk i" "p' = q\<lparr>mp_used := (mp_used q)(mp_chunk i \<mapsto> i), mp_free := fs\<rparr>"
    using assms(2) f by (auto simp: mp_allocate_def Let_def simp flip: q_def)
  have free: "mp_used q (mp_chunk i) = None"
  proof (rule ccontr)
    assume "mp_used q (mp_chunk i) \<noteq> None"
    then obtain k where "mp_used q (mp_chunk i) = Some k" by auto
    moreover from this have "mp_chunk i = mp_chunk k" "k \<notin> set (mp_free q)" using mp_invD(3,4) [OF q(1)] by blast+
    ultimately show False using mp_chunk_inj f by fastforce
  qed
  then show "mp_used p a = None" using q(3) p' by simp
  show "mp_used p' = (mp_used p)(a := mp_used p' a)" "mp_used p' a \<noteq> None" using p' q(3) by auto
  have A: "a = mp_chunk j \<and> j \<notin> set fs" if "((mp_used q)(mp_chunk i \<mapsto> i)) a = Some j" for a j
    using that mp_invD [OF q(1)] f by (cases "a = mp_chunk i") auto
  have B: "j < mp_rows q * XMRIG_NET_BUFFER_INIT_CHUNKS \<longleftrightarrow>
      j \<in> set fs \<or> ((mp_used q)(mp_chunk i \<mapsto> i)) (mp_chunk j) = Some j" for j
    using mp_invD(5) [OF q(1), of j] f free mp_chunk_inj [of j i] by auto
  show "mp_inv p'"
    unfolding p'(2)
  proof (rule mp_invI, goal_cases)
    case (3 a j)
    then show ?case using A [of a j] by simp
  next
    case (4 j)
    then show ?case using B [of j] by simp
  qed (use mp_invD(1,2) [OF q(1)] f in simp_all)
qed

lemma mp_inv_deallocate:
  assumes "mp_inv p" and "mp_used p a \<noteq> None"
  shows "mp_inv (mp_deallocate (Some a) p)"
proof -
  obtain i where i: "mp_used p a = Some i" using assms(2) by auto
  note d = mp_invD [OF assms(1)]
  have a: "a = mp_chunk i" "i \<notin> set (mp_free p)" using d(3,4) i by blast+
  have A: "b = mp_chunk j \<and> j \<notin> set (insort_insert i (mp_free p))"
    if "((mp_used p)(a := None)) b = Some j" for b j
    using that d(3,4) [of b j] a by (cases "b = a") (auto simp: set_insort_insert)
  have B: "j < mp_rows p * XMRIG_NET_BUFFER_INIT_CHUNKS \<longleftrightarrow>
      j \<in> set (insort_insert i (mp_free p)) \<or> ((mp_used p)(a := None)) (mp_chunk j) = Some j" for j
    using d(5) [of j] a i mp_chunk_inj [of j i] by (auto simp: set_insort_insert)
  have e: "mp_deallocate (Some a) p = p\<lparr>mp_free := insort_insert i (mp_free p), mp_used := (mp_used p)(a := None)\<rparr>"
    using i by (simp add: mp_deallocate_def)
  show ?thesis
    unfolding e
  proof (rule mp_invI, goal_cases)
    case (3 b j)
    then show ?case using A [of b j] by simp
  next
    case (4 j)
    then show ?case using B [of j] by simp
  qed (use d(1,2) in \<open>simp_all add: sorted_insort_insert distinct_insort_insert\<close>)
qed

text \<open>The pool as a component: chunks are taken, and given back by their holders.\<close>

datatype pool_event = Take | Give chunk_ptr

fun pool_step :: "mempool \<Rightarrow> pool_event \<Rightarrow> mempool" where
  "pool_step p Take = snd (mp_allocate p)"
| "pool_step p (Give a) = mp_deallocate (Some a) p"

fun pool_ok :: "mempool \<Rightarrow> pool_event \<Rightarrow> bool" where
  "pool_ok p Take \<longleftrightarrow> True"
| "pool_ok p (Give a) \<longleftrightarrow> mp_used p a \<noteq> None"

interpretation pool: event_component "\<lambda>p. p = mp_new" pool_ok pool_step mp_inv
proof
  show "p = mp_new \<Longrightarrow> mp_inv p" for p by (simp add: mp_inv_new)
  show "mp_inv p \<Longrightarrow> pool_ok p e \<Longrightarrow> mp_inv (pool_step p e)" for p e
    by (cases e) (auto simp: mp_inv_deallocate intro: mp_inv_allocate(1) [OF _ surjective_pairing])
qed

text \<open>After any history a chunk handed out is one nobody holds.\<close>

lemma pool_fresh:
  assumes "run_ok pool_ok pool_step mp_new es" and "mp_allocate (run pool_step mp_new es) = (a, p)"
  shows "mp_used (run pool_step mp_new es) a = None" and "mp_used p a \<noteq> None"
proof -
  have "mp_inv (run pool_step mp_new es)" using pool.run_init_inv [OF refl assms(1)] .
  from mp_inv_allocate [OF this assms(2)]
  show "mp_used (run pool_step mp_new es) a = None" "mp_used p a \<noteq> None" by simp_all
qed

section \<open>LineReader\<close>

text \<open>\<open>lr_buf\<close> says that \<open>m_buf\<close> is allocated, \<open>lr_data\<close> are its first \<open>m_pos\<close> characters.\<close>

record line_reader =
  lr_buf :: bool
  lr_data :: string

definition newline :: char where "newline = CHR 0x0A"

definition lr_new :: line_reader where
  "lr_new = \<lparr>lr_buf = False, lr_data = []\<rparr>"

definition lr_reset :: "line_reader \<Rightarrow> line_reader" where
  "lr_reset r = (if lr_buf r then r\<lparr>lr_buf := False, lr_data := []\<rparr> else r)"

definition lr_add :: "string \<Rightarrow> line_reader \<Rightarrow> line_reader" where
  "lr_add data r =
     (if length data + length (lr_data r) > XMRIG_NET_BUFFER_CHUNK_SIZE then r
      else let r = (if lr_buf r then r else r\<lparr>lr_buf := True, lr_data := []\<rparr>)
           in r\<lparr>lr_data := lr_data r @ data\<rparr>)"

text \<open>The loop over the received bytes: the lines handed to the listener, in order, and the
  reader after the call. The newline is overwritten with a terminator before the line is copied.\<close>

function lr_getline :: "string \<Rightarrow> line_reader \<Rightarrow> string list \<times> line_reader" where
  "lr_getline start r =
     (let pre = takeWhile (\<lambda>c. c \<noteq> newline) start in
      if length pre < length start then
        let line = pre @ [nul];
            (out, r) =
              (if lr_data r \<noteq> [] then
                 let r = lr_add line r in ([butlast (lr_data r)], r\<lparr>lr_data := []\<rparr>)
               else if length line > 1 then ([butlast line], r)
               else ([], r));
            (outs, r) = lr_getline (drop (Suc (length pre)) start) r
        in (out @ outs, r)
      else if start = [] then ([], lr_reset r)
      else ([], lr_add start r))"
  by pat_completeness auto
termination
  by (relation "measure (\<lambda>(start, r). length start)") auto

declare lr_getline.simps [simp del]

definition lr_parse :: "string \<Rightarrow> line_reader \<Rightarrow> string list \<times> line_reader" where
  "lr_parse data r = (if data = [] then ([], r) else lr_getline data r)"

text \<open>What a reader without a bound would do: all complete lines that are not empty, and the
  unfinished one.\<close>

function cut_lines :: "string \<Rightarrow> string list \<times> string" where
  "cut_lines s =
     (let pre = takeWhile (\<lambda>c. c \<noteq> newline) s in
      if length pre < length s then
        let (ls, rest) = cut_lines (drop (Suc (length pre)) s)
        in (if pre = [] then ls else pre # ls, rest)
      else ([], s))"
  by pat_completeness auto
termination
  by (relation "measure length") auto

declare cut_lines.simps [simp del]

text \<open>No line of the stream is longer than a chunk, its terminator counted.\<close>

function short_lines :: "string \<Rightarrow> bool" where
  "short_lines s =
     (let pre = takeWhile (\<lambda>c. c \<noteq> newline) s in
      if length pre < length s
      then length pre < XMRIG_NET_BUFFER_CHUNK_SIZE \<and> short_lines (drop (Suc (length pre)) s)
      else length pre \<le> XMRIG_NET_BUFFER_CHUNK_SIZE)"
  by pat_completeness auto
termination
  by (relation "measure length") auto

declare short_lines.simps [simp del]

lemma line_cases:
  obtains (none) "newline \<notin> set s" | (line) p t where "newline \<notin> set p" "s = p @ newline # t"
  using split_list_first [of newline s] by blast

lemma takeWhile_none: "newline \<notin> set s \<Longrightarrow> takeWhile (\<lambda>c. c \<noteq> newline) s = s"
  by (metis (mono_tags, lifting) takeWhile_eq_all_conv)

lemma takeWhile_line: "newline \<notin> set p \<Longrightarrow> takeWhile (\<lambda>c. c \<noteq> newline) (p @ newline # t) = p"
  by (induction p) auto

lemma cut_lines_none: "newline \<notin> set s \<Longrightarrow> cut_lines s = ([], s)"
  by (simp add: cut_lines.simps [of s] takeWhile_none)

lemma cut_lines_line: "newline \<notin> set p \<Longrightarrow> cut_lines (p @ newline # t) =
    ((if p = [] then fst (cut_lines t) else p # fst (cut_lines t)), snd (cut_lines t))"
  by (simp add: cut_lines.simps [of "p @ newline # t"] takeWhile_line case_prod_beta)

lemma short_lines_none: "newline \<notin> set s \<Longrightarrow> short_lines s \<longleftrightarrow> length s \<le> XMRIG_NET_BUFFER_CHUNK_SIZE"
  by (simp add: short_lines.simps [of s] takeWhile_none)

lemma short_lines_line: "newline \<notin> set p \<Longrightarrow>
    short_lines (p @ newline # t) \<longleftrightarrow> length p < XMRIG_NET_BUFFER_CHUNK_SIZE \<and> short_lines t"
  by (simp add: short_lines.simps [of "p @ newline # t"] takeWhile_line)

lemma lr_getline_none: "newline \<notin> set s \<Longrightarrow>
    lr_getline s r = (if s = [] then ([], lr_reset r) else ([], lr_add s r))"
  by (simp add: lr_getline.simps [of s] takeWhile_none)

lemma lr_getline_line: "newline \<notin> set p \<Longrightarrow> lr_getline (p @ newline # t) r =
    (let (out, r) = (if lr_data r \<noteq> [] then
         let r = lr_add (p @ [nul]) r in ([butlast (lr_data r)], r\<lparr>lr_data := []\<rparr>)
       else if p \<noteq> [] then ([p], r) else ([], r));
       (outs, r) = lr_getline t r in (out @ outs, r))"
  by (simp add: lr_getline.simps [of "p @ newline # t"] takeWhile_line Let_def)

text \<open>A reader that has not dropped anything holds data only in an allocated buffer.\<close>

definition lr_inv :: "line_reader \<Rightarrow> bool" where
  "lr_inv r \<longleftrightarrow> newline \<notin> set (lr_data r) \<and> (lr_data r \<noteq> [] \<longrightarrow> lr_buf r)"

lemma lr_getline_cut:
  assumes "lr_inv r" and "short_lines (lr_data r @ s)"
  shows "fst (lr_getline s r) = fst (cut_lines (lr_data r @ s)) \<and>
    (s \<noteq> [] \<longrightarrow> lr_data (snd (lr_getline s r)) = snd (cut_lines (lr_data r @ s))) \<and>
    (s = [] \<longrightarrow> lr_data r = [] \<longrightarrow> lr_data (snd (lr_getline s r)) = []) \<and> lr_inv (snd (lr_getline s r))"
  using assms
proof (induction "length s" arbitrary: s r rule: less_induct)
  case less
  from less.prems(1) have d: "newline \<notin> set (lr_data r)" by (simp add: lr_inv_def)
  show ?case
  proof (cases s rule: line_cases)
    case none
    then have n: "newline \<notin> set (lr_data r @ s)" using d by simp
    then have "length (lr_data r @ s) \<le> XMRIG_NET_BUFFER_CHUNK_SIZE" using less.prems(2) short_lines_none by blast
    then show ?thesis
      using none n less.prems(1)
      by (auto simp: lr_getline_none cut_lines_none lr_reset_def lr_add_def lr_inv_def Let_def)
  next
    case (line p t)
    let ?q = "lr_data r @ p"
    have q: "newline \<notin> set ?q" "lr_data r @ s = ?q @ newline # t" using d line by auto
    have sl: "length ?q < XMRIG_NET_BUFFER_CHUNK_SIZE" "short_lines t"
      using less.prems(2) short_lines_line [OF q(1), of t] q(2) by auto
    define r1 where "r1 = (if lr_data r \<noteq> [] then (lr_add (p @ [nul]) r)\<lparr>lr_data := []\<rparr> else r)"
    have r1: "lr_inv r1" "lr_data r1 = []" by (auto simp: r1_def lr_inv_def)
    have g: "lr_getline s r = ((if ?q \<noteq> [] then [?q] else []) @ fst (lr_getline t r1), snd (lr_getline t r1))"
      using sl(1) less.prems(1)
      by (auto simp: line lr_getline_line r1_def lr_add_def lr_inv_def Let_def case_prod_beta butlast_append)
    have c: "cut_lines (lr_data r @ s) = ((if ?q = [] then fst (cut_lines t) else ?q # fst (cut_lines t)), snd (cut_lines t))"
      unfolding q(2) by (rule cut_lines_line [OF q(1)])
    have "length t < length s" using line by simp
    from less.hyps [OF this r1(1)] r1(2) sl(2)
    have IH: "fst (lr_getline t r1) = fst (cut_lines t)"
      "t \<noteq> [] \<longrightarrow> lr_data (snd (lr_getline t r1)) = snd (cut_lines t)"
      "t = [] \<longrightarrow> lr_data (snd (lr_getline t r1)) = []" "lr_inv (snd (lr_getline t r1))"
      by auto
    have z: "t = [] \<Longrightarrow> snd (cut_lines t) = []" by (simp add: cut_lines_none)
    have ne: "s \<noteq> []" using line by simp
    show ?thesis unfolding g c using IH z ne by (cases "t = []") simp_all
  qed
qed

text \<open>The stream cut at arbitrary points gives the lines of the whole stream.\<close>

fun lr_feed :: "string list \<Rightarrow> line_reader \<Rightarrow> string list \<times> line_reader" where
  "lr_feed [] r = ([], r)"
| "lr_feed (c # cs) r =
     (let (out, r) = lr_parse c r; (outs, r) = lr_feed cs r in (out @ outs, r))"

lemma cut_lines_append:
  "cut_lines (a @ b) = (fst (cut_lines a) @ fst (cut_lines (snd (cut_lines a) @ b)), snd (cut_lines (snd (cut_lines a) @ b)))"
proof (induction "length a" arbitrary: a rule: less_induct)
  case less
  show ?case
  proof (cases a rule: line_cases)
    case none
    then show ?thesis by (simp add: cut_lines_none)
  next
    case (line p t)
    then have "length t < length a" by simp
    from less.hyps [OF this] show ?thesis
      using cut_lines_line [OF line(1), of t] cut_lines_line [OF line(1), of "t @ b"]
      by (simp add: line(2))
  qed
qed

lemma short_lines_append: "short_lines (a @ b) \<Longrightarrow> short_lines a \<and> short_lines (snd (cut_lines a) @ b)"
proof (induction "length a" arbitrary: a rule: less_induct)
  case less
  show ?case
  proof (cases a rule: line_cases)
    case none
    have "length a \<le> XMRIG_NET_BUFFER_CHUNK_SIZE"
    proof (cases b rule: line_cases)
      case none2: none
      then have "newline \<notin> set (a @ b)" using none by simp
      then show ?thesis using less.prems short_lines_none by fastforce
    next
      case (line p t)
      then have "newline \<notin> set (a @ p)" using none by simp
      from short_lines_line [OF this, of t] less.prems line show ?thesis by simp
    qed
    then show ?thesis using none less.prems by (simp add: cut_lines_none short_lines_none)
  next
    case (line p t)
    then have "length t < length a" by simp
    moreover have "short_lines (t @ b)" "length p < XMRIG_NET_BUFFER_CHUNK_SIZE"
      using less.prems short_lines_line [OF line(1), of "t @ b"] by (simp_all add: line(2))
    ultimately show ?thesis
      using less.hyps [of t] line short_lines_line [OF line(1), of t] cut_lines_line [OF line(1), of t] by simp
  qed
qed

lemma lr_feed_cut:
  "lr_inv r \<Longrightarrow> short_lines (lr_data r @ concat cs) \<Longrightarrow>
     fst (lr_feed cs r) = fst (cut_lines (lr_data r @ concat cs)) \<and>
     lr_data (snd (lr_feed cs r)) = snd (cut_lines (lr_data r @ concat cs))"
proof (induction cs arbitrary: r)
  case Nil
  then show ?case by (simp add: lr_inv_def cut_lines_none)
next
  case (Cons c cs)
  show ?case
  proof (cases "c = []")
    case True
    then show ?thesis using Cons by (simp add: lr_parse_def case_prod_beta)
  next
    case False
    have s: "short_lines (lr_data r @ c)" "short_lines (snd (cut_lines (lr_data r @ c)) @ concat cs)"
      using short_lines_append [of "lr_data r @ c" "concat cs"] Cons.prems(2) by simp_all
    obtain out r1 where p: "lr_parse c r = (out, r1)" by fastforce
    have g: "out = fst (cut_lines (lr_data r @ c))" "lr_data r1 = snd (cut_lines (lr_data r @ c))" "lr_inv r1"
      using lr_getline_cut [OF Cons.prems(1) s(1)] False p by (auto simp: lr_parse_def)
    from Cons.IH [OF g(3)] s(2) g(2)
    show ?thesis
      using cut_lines_append [of "lr_data r @ c" "concat cs"] p g(1,2) by (simp add: case_prod_beta)
  qed
qed

end
