(* ===== verification/Events.thy ===== *)
theory Events
  imports Prelude
begin

text \<open>
  Error codes (\<open>src/proxy/Error.h\<close>, \<open>Error.cpp\<close>) and the event bus (\<open>src/proxy/Events.cpp\<close>,
  \<open>events/Event.h\<close>): listeners of a type are called in the order of their subscription, each with
  \<open>onEvent\<close> or \<open>onRejectedEvent\<close> as the event stands when its turn comes, and no event is
  handled while another one is.
\<close>

section \<open>Errors\<close>

datatype error_code =
    NoError | BadGateway | InvalidJobId | InvalidMethod | InvalidNonce | LowDifficulty
  | Unauthenticated | IncompatibleAlgorithm | IncorrectAlgorithm | Forbidden | RouteNotFound

fun error_toString :: "error_code \<Rightarrow> string" where
  "error_toString BadGateway = ''Bad gateway''"
| "error_toString InvalidJobId = ''Invalid job id''"
| "error_toString InvalidMethod = ''Invalid method''"
| "error_toString InvalidNonce = ''Invalid nonce; is miner not compatible with NiceHash?''"
| "error_toString LowDifficulty = ''Low difficulty share''"
| "error_toString Unauthenticated = ''Unauthenticated''"
| "error_toString IncompatibleAlgorithm = ''No compatible algorithm found, change algo option in your miner.''"
| "error_toString IncorrectAlgorithm = ''Incorrect algorithm''"
| "error_toString Forbidden = ''Permission denied''"
| "error_toString RouteNotFound = ''Algorithm negotiation failed''"
| "error_toString NoError = ''Unknown error''"

section \<open>The bus\<close>

datatype event_type = ConnectionType | CloseType | LoginType | SubmitType | AcceptType

text \<open>The order of the enumeration, which orders the map of the listeners.\<close>

primrec event_type_code :: "event_type \<Rightarrow> nat" where
  "event_type_code ConnectionType = 0"
| "event_type_code CloseType = 1"
| "event_type_code LoginType = 2"
| "event_type_code SubmitType = 3"
| "event_type_code AcceptType = 4"

instantiation event_type :: linorder
begin

definition less_eq_event_type :: "event_type \<Rightarrow> event_type \<Rightarrow> bool" where
  "less_eq_event_type a b \<longleftrightarrow> event_type_code a \<le> event_type_code b"

definition less_event_type :: "event_type \<Rightarrow> event_type \<Rightarrow> bool" where
  "less_event_type a b \<longleftrightarrow> event_type_code a < event_type_code b"

instance
proof
  fix x y z :: event_type
  show "(x < y) = (x \<le> y \<and> \<not> y \<le> x)" by (auto simp: less_eq_event_type_def less_event_type_def)
  show "x \<le> x" by (simp add: less_eq_event_type_def)
  show "x \<le> y \<Longrightarrow> y \<le> z \<Longrightarrow> x \<le> z" by (simp add: less_eq_event_type_def)
  show "x \<le> y \<Longrightarrow> y \<le> x \<Longrightarrow> x = y" by (cases x; cases y) (auto simp: less_eq_event_type_def)
  show "x \<le> y \<or> y \<le> x" by (auto simp: less_eq_event_type_def)
qed

end

text \<open>\<open>'e\<close> is the event, \<open>'s\<close> the state the listeners work on.\<close>

record ('e, 's) listener =
  on_event :: "'e \<Rightarrow> 's \<Rightarrow> 'e \<times> 's"
  on_rejected :: "'e \<Rightarrow> 's \<Rightarrow> 'e \<times> 's"

record ('e, 's) bus =
  bus_ready :: bool
  bus_listeners :: "event_type \<Rightarrow> ('e, 's) listener list"

definition bus_new :: "('e, 's) bus" where
  "bus_new = \<lparr>bus_ready = True, bus_listeners = (\<lambda>_. [])\<rparr>"

definition events_subscribe :: "event_type \<Rightarrow> ('e, 's) listener \<Rightarrow> ('e, 's) bus \<Rightarrow> ('e, 's) bus" where
  "events_subscribe t l b = b\<lparr>bus_listeners := (bus_listeners b)(t := bus_listeners b t @ [l])\<rparr>"

definition events_stop :: "('e, 's) bus \<Rightarrow> ('e, 's) bus" where
  "events_stop b = b\<lparr>bus_listeners := (\<lambda>_. [])\<rparr>"

fun call_listeners :: "('e \<Rightarrow> bool) \<Rightarrow> ('e, 's) listener list \<Rightarrow> 'e \<Rightarrow> 's \<Rightarrow> 'e \<times> 's" where
  "call_listeners rejected [] e s = (e, s)"
| "call_listeners rejected (l # ls) e s =
     (let (e, s) = (if rejected e then on_rejected l e s else on_event l e s)
      in call_listeners rejected ls e s)"

text \<open>The result, the event as the listeners left it, and the state. A listener that starts an
  event finds \<open>m_ready\<close> false; the bus is ready again after the call.\<close>

definition events_exec ::
  "('e \<Rightarrow> bool) \<Rightarrow> ('e, 's) bus \<Rightarrow> event_type \<Rightarrow> 'e \<Rightarrow> 's \<Rightarrow> bool \<times> 'e \<times> 's" where
  "events_exec rejected b t e s =
     (if \<not> bus_ready b then (False, e, s)
      else let (e, s) = call_listeners rejected (bus_listeners b t) e s in (\<not> rejected e, e, s))"

lemma call_listeners_append:
  "call_listeners rej (xs @ ys) e s =
     (let (e, s) = call_listeners rej xs e s in call_listeners rej ys e s)"
  by (induction xs arbitrary: e s) (auto simp: Let_def split: prod.splits)

text \<open>Once rejected, an event whose rejection handlers keep it so reaches no \<open>onEvent\<close>.\<close>

lemma call_listeners_rejected:
  assumes "rej e" and "\<And>l e s. l \<in> set ls \<Longrightarrow> rej e \<Longrightarrow> on_rejected l e s = (e, s)"
  shows "call_listeners rej ls e s = (e, s)"
  using assms by (induction ls) auto

end
