(* ===== verification/Url.thy ===== *)
theory Url
  imports CText
begin

text \<open>
  Pool addresses (\<open>src/base/net/stratum/Url.h\<close>, \<open>Url.cpp\<close>) and listening addresses
  (\<open>src/proxy/BindHost.h\<close>, \<open>BindHost.cpp\<close>). Ports are parsed with \<open>strtol\<close> and narrowed to
  sixteen bits.
\<close>

section \<open>Url\<close>

datatype scheme = UNSPECIFIED | STRATUM | DAEMON | SOCKS5

record url =
  u_tls :: bool
  u_scheme :: scheme
  u_host :: cstr
  u_url :: cstr
  u_port :: u16

definition url_new :: url where
  "url_new = \<lparr>u_tls = False, u_scheme = UNSPECIFIED, u_host = None, u_url = None, u_port = 3333\<rparr>"

text \<open>\<open>Url(host, port, tls, scheme)\<close>: the text is cut to the size of the buffer.\<close>

definition mk_url :: "string \<Rightarrow> u16 \<Rightarrow> bool \<Rightarrow> scheme \<Rightarrow> url" where
  "mk_url host port tls scheme =
     \<lparr>u_tls = tls, u_scheme = scheme, u_host = Some host,
      u_url = Some (take (length host + 8 - 2) (host @ '':'' @ dec_nat (unat port))), u_port = port\<rparr>"

definition url_isValid :: "url \<Rightarrow> bool" where
  "url_isValid u \<longleftrightarrow> \<not> str_isNull (u_host u) \<and> u_port u > 0"

definition url_isEqual :: "url \<Rightarrow> url \<Rightarrow> bool" where
  "url_isEqual a b \<longleftrightarrow> u_tls a = u_tls b \<and> u_scheme a = u_scheme b \<and> str_isEqual (u_host a) (u_host b) \<and>
     str_isEqual (u_url a) (u_url b) \<and> u_port a = u_port b"

definition kStratumTcp :: string where "kStratumTcp = ''stratum+tcp://''"
definition kStratumSsl :: string where "kStratumSsl = ''stratum+ssl://''"
definition kSOCKS5 :: string where "kSOCKS5 = ''socks5://''"
definition kDaemonHttp :: string where "kDaemonHttp = ''daemon+http://''"
definition kDaemonHttps :: string where "kDaemonHttps = ''daemon+https://''"

definition parse_port :: "string \<Rightarrow> u16" where
  "parse_port s = of_int (strtol s)"

text \<open>\<open>[address]:port\<close>.\<close>

definition url_parseIPv6 :: "string \<Rightarrow> url \<Rightarrow> bool \<times> url" where
  "url_parseIPv6 addr u =
     (case strchr addr (CHR '']'') of
        None \<Rightarrow> (False, u)
      | Some e \<Rightarrow>
          (case strchr (drop e addr) (CHR '':'') of
             None \<Rightarrow> (False, u)
           | Some p \<Rightarrow>
               (True, u\<lparr>u_host := Some (take (e - 1) (drop 1 addr)),
                        u_port := parse_port (drop (e + p + 1) addr)\<rparr>)))"

definition url_scheme :: "string \<Rightarrow> (scheme \<times> bool) option" where
  "url_scheme s =
     (if strncasecmp_eq s kStratumTcp then Some (STRATUM, False)
      else if strncasecmp_eq s kStratumSsl then Some (STRATUM, True)
      else if strncasecmp_eq s kSOCKS5 then Some (SOCKS5, False)
      else if strncasecmp_eq s kDaemonHttps then Some (DAEMON, True)
      else if strncasecmp_eq s kDaemonHttp then Some (DAEMON, False)
      else None)"

definition url_parse :: "cstr \<Rightarrow> url \<Rightarrow> bool \<times> url" where
  "url_parse t u =
     (case t of
        None \<Rightarrow> (False, u)
      | Some s \<Rightarrow>
          let p = strstr s ''://'' in
          case (case p of
                  None \<Rightarrow> Some (u, s)
                | Some i \<Rightarrow>
                    map_option (\<lambda>(sc, tls). (u\<lparr>u_scheme := sc, u_tls := tls\<rparr>, drop (i + 3) s)) (url_scheme s)) of
            None \<Rightarrow> (False, u)
          | Some (u, base) \<Rightarrow>
              if base = [] \<or> hd base = CHR ''/'' then (False, u)
              else
                let u = u\<lparr>u_url := Some s\<rparr> in
                if hd base = CHR ''['' then url_parseIPv6 base u
                else
                  case strchr base (CHR '':'') of
                    None \<Rightarrow> (True, u\<lparr>u_host := Some base\<rparr>)
                  | Some i \<Rightarrow>
                      (True, u\<lparr>u_host := Some (take i base), u_port := parse_port (drop (i + 1) base)\<rparr>))"

section \<open>BindHost\<close>

record bind_host =
  bh_tls :: bool
  bh_version :: nat
  bh_port :: u16
  bh_host :: cstr

definition bh_none :: bind_host where
  "bh_none = \<lparr>bh_tls = False, bh_version = 0, bh_port = 0, bh_host = None\<rparr>"

definition bh_isValid :: "bind_host \<Rightarrow> bool" where
  "bh_isValid h \<longleftrightarrow> bh_version h \<noteq> 0 \<and> \<not> str_isNull (bh_host h) \<and> bh_port h > 0"

definition bh_parseIPv4 :: "string \<Rightarrow> bind_host \<Rightarrow> bind_host" where
  "bh_parseIPv4 addr h =
     (case strchr addr (CHR '':'') of
        None \<Rightarrow> h
      | Some p \<Rightarrow>
          h\<lparr>bh_version := 4, bh_host := Some (take p addr), bh_port := parse_port (drop (p + 1) addr)\<rparr>)"

definition bh_parseIPv6 :: "string \<Rightarrow> bind_host \<Rightarrow> bind_host" where
  "bh_parseIPv6 addr h =
     (case strchr addr (CHR '']'') of
        None \<Rightarrow> h
      | Some e \<Rightarrow>
          (case strchr (drop e addr) (CHR '':'') of
             None \<Rightarrow> h
           | Some p \<Rightarrow>
               h\<lparr>bh_version := 6, bh_host := Some (take (e - 1) (drop 1 addr)),
                 bh_port := parse_port (drop (e + p + 1) addr)\<rparr>))"

definition mk_bind_host :: "cstr \<Rightarrow> bind_host" where
  "mk_bind_host addr =
     (case addr of
        None \<Rightarrow> bh_none
      | Some a \<Rightarrow>
          if length a < 5 then bh_none
          else if hd a = CHR ''['' then bh_parseIPv6 a bh_none
          else bh_parseIPv4 a bh_none)"

definition mk_bind_host_port :: "string \<Rightarrow> u16 \<Rightarrow> nat \<Rightarrow> bind_host" where
  "mk_bind_host_port host port version =
     \<lparr>bh_tls = False, bh_version = version, bh_port = port, bh_host = Some host\<rparr>"

definition bh_parseHost :: "cstr \<Rightarrow> bind_host \<Rightarrow> bool \<times> bind_host" where
  "bh_parseHost host h =
     (let h = h\<lparr>bh_version := 0\<rparr> in
      case host of
        None \<Rightarrow> (False, h)
      | Some s \<Rightarrow>
          if length s < 2 then (False, h)
          else if hd s = CHR ''['' then
            (case strchr s (CHR '']'') of
               None \<Rightarrow> (False, h)
             | Some e \<Rightarrow> (True, h\<lparr>bh_version := 6, bh_host := Some (take (e - 1) (drop 1 s))\<rparr>))
          else
            (True, h\<lparr>bh_version := (if strchr s (CHR '':'') \<noteq> None then 6 else 4), bh_host := Some s\<rparr>))"

text \<open>\<open>BindHost(const rapidjson::Value &)\<close>: the members \<open>host\<close>, \<open>port\<close> (an unsigned number) and \<open>tls\<close>.\<close>

definition mk_bind_host_json :: "cstr \<Rightarrow> u32 \<Rightarrow> bool \<Rightarrow> bind_host" where
  "mk_bind_host_json host port tls =
     (let (ok, h) = bh_parseHost host bh_none
      in if ok then h\<lparr>bh_port := ucast port, bh_tls := tls\<rparr> else h)"

section \<open>Lemmas\<close>

lemma strstr_Some_prefix: "strstr s p = Some i \<Longrightarrow> is_prefix p (drop i s)"
  by (induction s arbitrary: i) (auto split: if_splits)

lemma is_prefix_hd: "is_prefix (c # ps) s \<Longrightarrow> s \<noteq> [] \<and> hd s = c"
  by (cases s) auto

lemma is_prefix_in: "is_prefix p s \<Longrightarrow> set p \<subseteq> set s"
  by (induction p s rule: is_prefix.induct) auto

lemma strstr_in: "strstr s p = Some i \<Longrightarrow> set p \<subseteq> set s"
  using strstr_Some_prefix is_prefix_in set_drop_subset by fast

lemma dec_nat_ok: "c \<in> set (dec_nat n) \<Longrightarrow> is_digit c"
  using dec_nat_digits by blast

lemma parse_port_dec_nat: "n < 2 ^ 63 \<Longrightarrow> parse_port (dec_nat n) = of_nat n"
  by (simp add: parse_port_def strtol_dec_nat)

lemma parse_port_self: "parse_port (dec_nat (unat port)) = port"
proof -
  have "unat port < 2 ^ 16" using unsigned_less [of port] by simp
  then have "unat port < 2 ^ 63" by simp
  then show ?thesis by (simp add: parse_port_dec_nat)
qed

lemma length_dec_nat: "n < 10 ^ k \<Longrightarrow> 0 < k \<Longrightarrow> length (dec_nat n) \<le> k"
proof (induction k arbitrary: n)
  case (Suc k)
  show ?case
  proof (cases "n < 10")
    case False
    then have "n div 10 < 10 ^ k" "0 < k" using Suc.prems by (auto simp: less_mult_imp_div_less intro: gr0I)
    then show ?thesis using Suc.IH [of "n div 10"] False by (simp add: dec_nat.simps [of n])
  qed (simp add: dec_nat.simps [of n])
qed simp

text \<open>The buffer of the constructor is long enough for every port.\<close>

lemma mk_url_text: "u_url (mk_url host port tls sc) = Some (host @ '':'' @ dec_nat (unat port))"
proof -
  have "unat port < 2 ^ 16" using unsigned_less [of port] by simp
  then have "unat port < 10 ^ 5" by simp
  then have "length (dec_nat (unat port)) \<le> 5" by (rule length_dec_nat) simp
  then show ?thesis by (simp add: mk_url_def)
qed

lemma strstr_scheme_None:
  assumes "CHR ''/'' \<notin> set s"
  shows "strstr s ''://'' = None"
  using strstr_in [of s "''://''"] assms by (cases "strstr s ''://''") auto

lemma url_roundtrip:
  assumes "host \<noteq> []" and "CHR '':'' \<notin> set host" and "CHR ''/'' \<notin> set host" and "hd host \<noteq> CHR ''[''"
  shows "url_parse (u_url (mk_url host port tls sc)) u =
    (True, u\<lparr>u_url := Some (host @ '':'' @ dec_nat (unat port)), u_host := Some host, u_port := port\<rparr>)"
proof -
  have "CHR ''/'' \<notin> set (dec_nat n)" for n using dec_nat_ok [of "CHR ''/''" n] by (auto simp: is_digit_def)
  then have p: "strstr (host @ '':'' @ dec_nat (unat port)) ''://'' = None"
    using assms(3) by (intro strstr_scheme_None) simp
  have c: "strchr (host @ '':'' @ dec_nat (unat port)) (CHR '':'') = Some (length host)"
    using strchr_split [OF assms(2)] by simp
  have "hd host \<noteq> CHR ''/''" using assms(1,3) by (cases host) auto
  then show ?thesis
    using assms(1,4) p c by (simp add: mk_url_text url_parse_def Let_def parse_port_self)
qed

lemma bh_roundtrip:
  assumes "CHR '':'' \<notin> set host" and "hd host \<noteq> CHR ''[''" and "3 \<le> length host"
  shows "mk_bind_host (Some (host @ '':'' @ dec_nat (unat port))) = mk_bind_host_port host port 4"
proof -
  have c: "strchr (host @ '':'' @ dec_nat (unat port)) (CHR '':'') = Some (length host)"
    using strchr_split [OF assms(1)] by simp
  have "1 \<le> length (dec_nat (unat port))" by (simp add: Suc_le_eq)
  moreover have "length (host @ '':'' @ dec_nat (unat port)) = length host + 1 + length (dec_nat (unat port))"
    by simp
  ultimately have "\<not> length (host @ '':'' @ dec_nat (unat port)) < 5" using assms(3) by linarith
  moreover have "host \<noteq> []" using assms(3) by auto
  ultimately show ?thesis
    using assms(2) c
    by (simp add: mk_bind_host_def bh_parseIPv4_def mk_bind_host_port_def bh_none_def parse_port_self)
qed

end
