(* ===== verification/Config.thy ===== *)
theory Config
  imports Url
begin

text \<open>
  The configuration of the proxy (\<open>src/core/config/Config.h\<close>, \<open>Config.cpp\<close>) as far as the modelled
  components read it, and the modes of the worker table
  (\<open>Workers::parseMode\<close> in \<open>src/proxy/workers/Workers.cpp\<close>). A JSON value the code tests is the
  datatype of the cases it distinguishes.
\<close>

datatype mode = NICEHASH_MODE | SIMPLE_MODE | EXTRA_NONCE_MODE

datatype workers_mode = WNone | RigID | WUser | WPassword | WAgent | WIP

record config =
  cfg_bind :: "bind_host list"
  cfg_algoExt :: bool
  cfg_customDiffStats :: bool
  cfg_debug :: bool
  cfg_mode :: mode
  cfg_reuseTimeout :: int
  cfg_accessLog :: cstr
  cfg_password :: cstr
  cfg_diff :: u64
  cfg_workersMode :: workers_mode
  cfg_donateLevel :: nat

definition config_new :: "nat \<Rightarrow> config" where
  "config_new donateLevel =
     \<lparr>cfg_bind = [], cfg_algoExt = True, cfg_customDiffStats = False, cfg_debug = False,
      cfg_mode = NICEHASH_MODE, cfg_reuseTimeout = 0, cfg_accessLog = None, cfg_password = None,
      cfg_diff = 0, cfg_workersMode = RigID, cfg_donateLevel = donateLevel\<rparr>"

definition isDonateOverProxy :: "config \<Rightarrow> bool" where
  "isDonateOverProxy c \<longleftrightarrow> cfg_donateLevel c = 0 \<or> cfg_mode c = SIMPLE_MODE"

definition hasAlgoExt :: "config \<Rightarrow> bool" where
  "hasAlgoExt c = (if isDonateOverProxy c then cfg_algoExt c else True)"

definition modeNames :: "(string \<times> mode) list" where
  "modeNames = [(''nicehash'', NICEHASH_MODE), (''simple'', SIMPLE_MODE), (''extra_nonce'', EXTRA_NONCE_MODE)]"

definition modeName :: "mode \<Rightarrow> string" where
  "modeName m = (case m of NICEHASH_MODE \<Rightarrow> ''nicehash'' | SIMPLE_MODE \<Rightarrow> ''simple'' | EXTRA_NONCE_MODE \<Rightarrow> ''extra_nonce'')"

definition setMode :: "cstr \<Rightarrow> config \<Rightarrow> config" where
  "setMode s c =
     (case s of
        None \<Rightarrow> c\<lparr>cfg_mode := NICEHASH_MODE\<rparr>
      | Some t \<Rightarrow> (case map_of modeNames t of Some m \<Rightarrow> c\<lparr>cfg_mode := m\<rparr> | None \<Rightarrow> c))"

definition int_max :: nat where "int_max = 2147483647"

definition setCustomDiff :: "u64 \<Rightarrow> config \<Rightarrow> config" where
  "setCustomDiff d c = (if d \<ge> 100 \<and> unat d < int_max then c\<lparr>cfg_diff := d\<rparr> else c)"

definition worker_modes :: "(string \<times> workers_mode) list" where
  "worker_modes = [(''none'', WNone), (''rig_id'', RigID), (''user'', WUser), (''password'', WPassword),
     (''agent'', WAgent), (''ip'', WIP)]"

definition parseMode :: "string \<Rightarrow> workers_mode" where
  "parseMode s =
     (case find (\<lambda>(n, m). strcasecmp_eq s n) worker_modes of Some (n, m) \<Rightarrow> m | None \<Rightarrow> RigID)"

datatype json_value = JBool bool | JString string | JBind cstr u32 bool | JOther

definition setWorkersMode :: "json_value \<Rightarrow> config \<Rightarrow> config" where
  "setWorkersMode v c =
     (case v of
        JBool b \<Rightarrow> c\<lparr>cfg_workersMode := (if b then RigID else WNone)\<rparr>
      | JString s \<Rightarrow> c\<lparr>cfg_workersMode := parseMode s\<rparr>
      | _ \<Rightarrow> c)"

text \<open>\<open>modeToJSON\<close>.\<close>

definition modeToJSON :: "workers_mode \<Rightarrow> json_value" where
  "modeToJSON m =
     (case m of
        WNone \<Rightarrow> JBool False
      | RigID \<Rightarrow> JBool True
      | WUser \<Rightarrow> JString ''user''
      | WPassword \<Rightarrow> JString ''password''
      | WAgent \<Rightarrow> JString ''agent''
      | WIP \<Rightarrow> JString ''ip'')"

definition bind_of_json :: "json_value \<Rightarrow> bind_host option" where
  "bind_of_json v =
     (case v of
        JBind h p t \<Rightarrow> Some (mk_bind_host_json h p t)
      | JString s \<Rightarrow> Some (mk_bind_host (Some s))
      | _ \<Rightarrow> None)"

definition read_bind :: "json_value list option \<Rightarrow> bind_host list \<Rightarrow> bind_host list" where
  "read_bind vs bind =
     (let bind = bind @ (case vs of None \<Rightarrow> [] | Some vs \<Rightarrow> List.filter bh_isValid (List.map_filter bind_of_json vs))
      in if bind = []
         then bind @ [mk_bind_host_port ''0.0.0.0'' 3333 4, mk_bind_host_port ''::'' 3333 6] else bind)"

text \<open>The members of the document; \<open>base_ok\<close> is the verdict of \<open>BaseConfig::read\<close>.\<close>

record reader_values =
  rv_custom_diff_stats :: "bool option"
  rv_debug :: "bool option"
  rv_algo_ext :: "bool option"
  rv_reuse_timeout :: "int option"
  rv_access_log :: cstr
  rv_password :: cstr
  rv_custom_diff :: "u64 option"
  rv_mode :: cstr
  rv_workers :: json_value
  rv_bind :: "json_value list option"

definition or_default :: "'a option \<Rightarrow> 'a \<Rightarrow> 'a" where
  "or_default v d = (case v of Some x \<Rightarrow> x | None \<Rightarrow> d)"

definition config_read :: "bool \<Rightarrow> reader_values \<Rightarrow> config \<Rightarrow> bool \<times> config" where
  "config_read base_ok rv c =
     (if \<not> base_ok then (False, c)
      else
        let c = c\<lparr>cfg_customDiffStats := or_default (rv_custom_diff_stats rv) (cfg_customDiffStats c),
                  cfg_debug := or_default (rv_debug rv) (cfg_debug c),
                  cfg_algoExt := or_default (rv_algo_ext rv) (cfg_algoExt c),
                  cfg_reuseTimeout := or_default (rv_reuse_timeout rv) (cfg_reuseTimeout c),
                  cfg_accessLog := rv_access_log rv, cfg_password := rv_password rv\<rparr>;
            c = setCustomDiff (or_default (rv_custom_diff rv) (cfg_diff c)) c;
            c = setMode (rv_mode rv) c;
            c = setWorkersMode (rv_workers rv) c
        in (True, c\<lparr>cfg_bind := read_bind (rv_bind rv) (cfg_bind c)\<rparr>))"

section \<open>Lemmas\<close>

lemma parseMode_modeToJSON: "setWorkersMode (modeToJSON m) c = c\<lparr>cfg_workersMode := m\<rparr>"
  by (cases m) (simp_all add: setWorkersMode_def modeToJSON_def parseMode_def worker_modes_def strcasecmp_eq_def
      to_lower_def)

lemma setMode_modeName: "cfg_mode (setMode (Some (modeName m)) c) = m"
  by (cases m) (simp_all add: setMode_def modeName_def modeNames_def)

text \<open>The custom difficulty of a configuration is zero or within the bounds.\<close>

definition diff_ok :: "u64 \<Rightarrow> bool" where
  "diff_ok d \<longleftrightarrow> d = 0 \<or> (100 \<le> d \<and> unat d < int_max)"

lemma diff_ok_32: "diff_ok d \<Longrightarrow> d < 2 ^ 32"
  by (auto simp: diff_ok_def int_max_def word_less_nat_alt)

lemma setCustomDiff_ok: "diff_ok (cfg_diff c) \<Longrightarrow> diff_ok (cfg_diff (setCustomDiff d c))"
  by (auto simp: setCustomDiff_def diff_ok_def)

lemma cfg_diff_frame [simp]: "cfg_diff (setMode s c) = cfg_diff c" "cfg_diff (setWorkersMode v c) = cfg_diff c"
  by (auto simp: setMode_def setWorkersMode_def split: option.splits json_value.splits)

lemma config_read_ok:
  assumes "config_read ok rv c = (r, c')" and "diff_ok (cfg_diff c)" and "list_all bh_isValid (cfg_bind c)"
  shows "diff_ok (cfg_diff c')" and "list_all bh_isValid (cfg_bind c')" and "r \<Longrightarrow> cfg_bind c' \<noteq> []"
proof -
  show "diff_ok (cfg_diff c')"
    using assms by (auto simp: config_read_def Let_def setCustomDiff_ok split: if_splits)
  have bm: "cfg_bind (setMode s c) = cfg_bind c" "cfg_bind (setWorkersMode v c) = cfg_bind c"
    "cfg_bind (setCustomDiff d c) = cfg_bind c" for s v d c
    by (auto simp: setMode_def setWorkersMode_def setCustomDiff_def split: option.splits json_value.splits)
  have "list_all bh_isValid (read_bind vs (cfg_bind c))" for vs
    using assms(3)
    by (auto simp: read_bind_def Let_def list_all_iff mk_bind_host_port_def bh_isValid_def str_isNull_def split: option.splits)
  then show "list_all bh_isValid (cfg_bind c')"
    using assms by (auto simp: config_read_def Let_def bm split: if_splits)
  show "r \<Longrightarrow> cfg_bind c' \<noteq> []"
    using assms(1) by (auto simp: config_read_def Let_def read_bind_def split: if_splits)
qed

end
