(* ===== verification/Miner.thy ===== *)
theory Miner
  imports Job Counters Events NetBuffer
begin

text \<open>
  One connected miner (\<open>src/proxy/Miner.h\<close>, \<open>Miner.cpp\<close>): its state machine, the replies and jobs
  it sends, the parser of its requests, and the closing of its socket. Every operation maps the
  miner and the process counters. What the event loop, the TLS library, the JSON library and the
  clock answer is an argument (\<open>env\<close>); a reply is logged with the result of the write.
\<close>

section \<open>State\<close>

datatype miner_state = WaitLoginState | WaitReadyState | ReadyState | ClosingState

text \<open>The TCP handle: open, being shut down, being closed.\<close>

datatype socket = SockOpen | SockShutdown | SockClosing

text \<open>The members of a job message.\<close>

record job_msg =
  jm_blob :: string
  jm_job_id :: cstr
  jm_target :: string
  jm_algo :: string
  jm_height :: "u64 option"
  jm_seed_hash :: cstr
  jm_sig_key :: cstr

datatype out =
    ErrorReply int string
  | SuccessReply int string
  | JobNotify job_msg
  | LoginReply int cstr job_msg "string list"

record miner =
  m_id :: int
  m_rpcId :: cstr
  m_ip :: string
  m_strictTls :: bool
  m_tlsCtx :: bool
  m_tls :: bool
  m_routeId :: int
  m_loginId :: int
  m_reader :: line_reader
  m_mapperId :: int
  m_state :: miner_state
  m_ext_algo :: bool
  m_ext_nicehash :: bool
  m_ext_connect :: bool
  m_agent :: cstr
  m_password :: cstr
  m_rigId :: cstr
  m_user :: cstr
  m_signatureData :: cstr
  m_viewTag :: u8
  m_localPort :: u16
  m_customDiff :: u64
  m_diff :: u64
  m_expire :: u64
  m_rx :: u64
  m_tx :: u64
  m_timestamp :: u64
  m_fixedByte :: u8
  m_extraNonce :: int
  m_socket :: socket
  m_sent :: "(out \<times> int) list"

definition kLoginTimeout :: u64 where "kLoginTimeout = 10 * 1000"

definition kSocketTimeout :: u64 where "kSocketTimeout = 60 * 10 * 1000"

definition sendBufSize :: nat where "sendBufSize = 16384"

text \<open>The world: the wall clock and the clock of the event loop (milliseconds), the state of the
  TCP stream, the result of \<open>uv_try_write\<close>, the TLS session, and the text the JSON library writes.\<close>

record env =
  e_now :: u64
  e_loop_now :: u64
  e_writable :: "miner \<Rightarrow> bool"
  e_try_write :: "miner \<Rightarrow> out \<Rightarrow> int"
  e_tls_send :: "miner \<Rightarrow> out \<Rightarrow> bool"
  e_json :: "out \<Rightarrow> string"
  e_crypto :: crypto

type_synonym mc = "miner \<times> counters"

definition miner_new :: "env \<Rightarrow> int \<Rightarrow> cstr \<Rightarrow> bool \<Rightarrow> u16 \<Rightarrow> bool \<Rightarrow> counters \<Rightarrow> mc" where
  "miner_new env nid rpcId ctx port strictTls c =
     (\<lparr>m_id = nid, m_rpcId = rpcId, m_ip = [], m_strictTls = strictTls, m_tlsCtx = ctx, m_tls = False,
       m_routeId = - 1, m_loginId = 0, m_reader = lr_new, m_mapperId = - 1, m_state = WaitLoginState,
       m_ext_algo = False, m_ext_nicehash = False, m_ext_connect = False, m_agent = None,
       m_password = None, m_rigId = None, m_user = None, m_signatureData = None, m_viewTag = 0,
       m_localPort = port, m_customDiff = 0, m_diff = 0, m_expire = e_now env + kLoginTimeout, m_rx = 0,
       m_tx = 0, m_timestamp = e_now env, m_fixedByte = 0, m_extraNonce = - 1, m_socket = SockOpen,
       m_sent = []\<rparr>,
      c\<lparr>c_connections := c_connections c + 1\<rparr>)"

definition miner_delete :: "counters \<Rightarrow> counters" where
  "miner_delete c = c\<lparr>c_connections := c_connections c - 1\<rparr>"

text \<open>\<open>rigId(safe)\<close> and \<open>diff()\<close>.\<close>

definition miner_rigId :: "bool \<Rightarrow> miner \<Rightarrow> cstr" where
  "miner_rigId safe m = (if safe then (if str_size (m_rigId m) > 0 then m_rigId m else m_user m) else m_rigId m)"

definition miner_diff :: "miner \<Rightarrow> u64" where
  "miner_diff m = (if m_customDiff m \<noteq> 0 then min (m_customDiff m) (m_diff m) else m_diff m)"

section \<open>States\<close>

definition heartbeat :: "env \<Rightarrow> miner \<Rightarrow> miner" where
  "heartbeat env m = m\<lparr>m_expire := e_now env + kSocketTimeout\<rparr>"

definition setState :: "env \<Rightarrow> miner_state \<Rightarrow> mc \<Rightarrow> mc" where
  "setState env st s =
     (case s of (m, c) \<Rightarrow>
       if m_state m = st then (m, c)
       else
         let (m, c) = (if st = ReadyState then (heartbeat env m, counters_add c) else (m, c));
             c = (if st = ClosingState \<and> m_state m = ReadyState then counters_remove c else c)
         in (m\<lparr>m_state := st\<rparr>, c))"

definition shutdown :: "env \<Rightarrow> bool \<Rightarrow> mc \<Rightarrow> mc" where
  "shutdown env had_error s =
     (if m_state (fst s) = ClosingState then s
      else
        let (m, c) = setState env ClosingState s
        in if had_error
           then (if m_socket m \<noteq> SockClosing then m\<lparr>m_socket := SockClosing\<rparr> else m, c)
           else (m\<lparr>m_socket := SockShutdown\<rparr>, c))"

text \<open>The callback of \<open>uv_shutdown\<close> closes the handle; the callback of \<open>uv_close\<close> is in the process
  model, it starts a close event and deletes the miner.\<close>

definition on_shutdown :: "miner \<Rightarrow> miner" where
  "on_shutdown m = (if m_socket m \<noteq> SockClosing then m\<lparr>m_socket := SockClosing\<rparr> else m)"

definition isWritable :: "env \<Rightarrow> miner \<Rightarrow> bool" where
  "isWritable env m \<longleftrightarrow> m_state m \<noteq> ClosingState \<and> e_writable env m"

section \<open>Sending\<close>

definition json_str :: "string \<Rightarrow> string" where
  "json_str s = CHR 0x22 # s @ [CHR 0x22]"

text \<open>The two replies printed with \<open>snprintf\<close>; the message is not escaped.\<close>

definition error_text :: "int \<Rightarrow> string \<Rightarrow> string" where
  "error_text i msg =
     ''{'' @ json_str ''id'' @ '':'' @ dec_int i @ '','' @ json_str ''jsonrpc'' @ '':'' @ json_str ''2.0'' @
     '','' @ json_str ''error'' @ '':{'' @ json_str ''code'' @ '':-1,'' @ json_str ''message'' @ '':'' @
     json_str msg @ ''}}'' @ [newline]"

definition success_text :: "int \<Rightarrow> string \<Rightarrow> string" where
  "success_text i status =
     ''{'' @ json_str ''id'' @ '':'' @ dec_int i @ '','' @ json_str ''jsonrpc'' @ '':'' @ json_str ''2.0'' @
     '','' @ json_str ''error'' @ '':null,'' @ json_str ''result'' @ '':{'' @ json_str ''status'' @ '':'' @
     json_str status @ ''}}'' @ [newline]"

fun wire :: "env \<Rightarrow> out \<Rightarrow> string" where
  "wire env (ErrorReply i msg) = error_text i msg"
| "wire env (SuccessReply i status) = success_text i status"
| "wire env (JobNotify j) = e_json env (JobNotify j)"
| "wire env (LoginReply i r j x) = e_json env (LoginReply i r j x)"

text \<open>\<open>send(int size)\<close>.\<close>

definition send_size :: "env \<Rightarrow> nat \<Rightarrow> out \<Rightarrow> mc \<Rightarrow> mc" where
  "send_size env n x s =
     (case s of (m, c) \<Rightarrow>
       if n = 0 \<or> \<not> isWritable env m then (m, c)
       else
         let rc = (if m_tls m then (if e_tls_send env m x then 0 else - 1) else e_try_write env m x);
             m = m\<lparr>m_sent := m_sent m @ [(x, rc)]\<rparr>
         in if rc < 0 then shutdown env True (m, c)
            else (m\<lparr>m_tx := m_tx m + of_nat n\<rparr>, c))"

text \<open>\<open>send(const Document &)\<close>.\<close>

definition send_doc :: "env \<Rightarrow> out \<Rightarrow> mc \<Rightarrow> mc" where
  "send_doc env x s =
     (let n = length (wire env x) in
      if n > sendBufSize - 2 then shutdown env True s else send_size env (n + 1) x s)"

text \<open>\<open>send(BIO *)\<close>: \<open>len\<close> bytes wait in the TLS buffer, \<open>rc\<close> is the result of the write.\<close>

definition send_bio :: "env \<Rightarrow> nat \<Rightarrow> int \<Rightarrow> mc \<Rightarrow> bool \<times> mc" where
  "send_bio env len rc s =
     (case s of (m, c) \<Rightarrow>
       if len = 0 then (True, m, c)
       else if \<not> isWritable env m then (False, m, c)
       else if rc < 0 then (False, shutdown env True (m, c))
       else (True, m\<lparr>m_tx := m_tx m + of_nat len\<rparr>, c))"

definition replyWithError :: "env \<Rightarrow> int \<Rightarrow> string \<Rightarrow> mc \<Rightarrow> mc" where
  "replyWithError env i msg s = send_size env (length (error_text i msg)) (ErrorReply i msg) s"

definition success :: "env \<Rightarrow> int \<Rightarrow> string \<Rightarrow> mc \<Rightarrow> mc" where
  "success env i status s = send_size env (length (success_text i status)) (SuccessReply i status) s"

section \<open>Jobs\<close>

definition miner_extensions :: "miner \<Rightarrow> string list" where
  "miner_extensions m =
     (if m_ext_algo m then [''algo''] else []) @ (if m_ext_nicehash m then [''nicehash''] else []) @
     (if m_ext_connect m then [''connect'', ''tls''] else []) @ [''keepalive'']"

text \<open>The key without the transaction public key when it has all three parts.\<close>

definition sig_key_text :: "cstr \<Rightarrow> cstr" where
  "sig_key_text k = (if str_size k = 192 then map_option (drop 64) k else k)"

definition sendJob ::
  "env \<Rightarrow> string \<Rightarrow> cstr \<Rightarrow> string \<Rightarrow> string \<Rightarrow> u64 \<Rightarrow> cstr \<Rightarrow> cstr \<Rightarrow> mc \<Rightarrow> mc" where
  "sendJob env blob jobId target algo height seedHash signatureKey s =
     (let params = \<lparr>jm_blob = blob, jm_job_id = jobId, jm_target = target, jm_algo = algo,
            jm_height = (if height \<noteq> 0 then Some height else None), jm_seed_hash = seedHash,
            jm_sig_key = sig_key_text signatureKey\<rparr>
      in if m_state (fst s) = WaitReadyState then
           let (m, c) = setState env ReadyState s
           in send_doc env (LoginReply (m_loginId m) (m_rpcId m) params (miner_extensions m)) (m, c)
         else send_doc env (JobNotify params) s)"

definition forwardJob :: "env \<Rightarrow> job \<Rightarrow> string option \<Rightarrow> mc \<Rightarrow> mc" where
  "forwardJob env job algo s =
     (case s of (m, c) \<Rightarrow>
       let m = m\<lparr>m_diff := j_diff job, m_fixedByte := fixedByte job\<rparr>
       in sendJob env (j_rawBlob job) (j_id job) (j_rawTarget job)
            (case algo of Some a \<Rightarrow> a | None \<Rightarrow> algo_name (j_algorithm job))
            (j_height job) (j_rawSeedHash job) (j_rawSigKey job) (m, c))"

text \<open>The text of a custom target: the high four bytes of \<open>2 ^ 64 - 1\<close> divided by the difficulty.\<close>

definition custom_target :: "u64 \<Rightarrow> string" where
  "custom_target d = cvt_bin2hex_loop (drop 4 (le_bytes (0xFFFFFFFFFFFFFFFF div d)))"

text \<open>The fixed byte is written into the character array; behind its terminator it is not seen.\<close>

definition setJob_nicehash :: "miner \<Rightarrow> job \<Rightarrow> job" where
  "setJob_nicehash m job =
     (if m_ext_nicehash m then
        (case poke ((nonceOffset job + 3) * 2) (cvt_bin2hex_loop [m_fixedByte m]) (j_rawBlob job) of
           Some b \<Rightarrow> job\<lparr>j_rawBlob := b\<rparr>
         | None \<Rightarrow> job)
      else job)"

text \<open>The signature data, the view tag and the extra nonce: the job and the miner after them.\<close>

definition setJob_keys :: "env \<Rightarrow> int \<Rightarrow> miner \<Rightarrow> job \<Rightarrow> (miner \<times> job) option" where
  "setJob_keys env extra_nonce m job =
     (case (if j_hasMinerSignature job then
              map_option (\<lambda>(d, v, j). (m\<lparr>m_signatureData := d, m_viewTag := v\<rparr>, j))
                (generateSignatureData (e_crypto env) job)
            else if j_rawSigKey job \<noteq> None then Some (m\<lparr>m_signatureData := j_rawSigKey job\<rparr>, job)
            else Some (m, job)) of
        None \<Rightarrow> None
      | Some (m, job) \<Rightarrow>
          (case (if j_hasViewTag job then setViewTagInMinerTx (m_viewTag m) job else Some job) of
             None \<Rightarrow> None
           | Some job \<Rightarrow>
               if extra_nonce \<ge> 0 then
                 map_option (\<lambda>j. (m\<lparr>m_extraNonce := extra_nonce\<rparr>, j))
                   (setExtraNonceInMinerTx (of_int extra_nonce) job)
               else Some (m, job)))"

text \<open>\<open>setJob\<close> writes into the caller's job. \<open>None\<close> is a write behind one of its buffers.\<close>

definition setJob :: "env \<Rightarrow> job \<Rightarrow> int \<Rightarrow> mc \<Rightarrow> (job \<times> mc) option" where
  "setJob env job extra_nonce s =
     (case s of (m, c) \<Rightarrow>
       let job = setJob_nicehash m job;
           m = m\<lparr>m_diff := j_diff job\<rparr>;
           customDiff = (m_customDiff m \<noteq> 0 \<and> m_customDiff m < m_diff m)
       in (case setJob_keys env extra_nonce m job of
             None \<Rightarrow> None
           | Some (m, job) \<Rightarrow>
               (case (if j_hasMinerSignature job \<or> extra_nonce \<ge> 0
                      then generateHashingBlob_job job else Some (j_rawBlob job)) of
                  None \<Rightarrow> None
                | Some blob \<Rightarrow>
                    Some (job, sendJob env blob (j_id job)
                      (if customDiff then custom_target (m_customDiff m) else j_rawTarget job)
                      (algo_name (j_algorithm job)) (j_height job) (j_rawSeedHash job)
                      (m_signatureData m) (m, c)))))"

section \<open>Requests\<close>

text \<open>The members of a request the code reads, as \<open>Json::getString\<close> and the tests give them
  (\<open>None\<close> for a member that is missing or not a string); \<open>rp_algos\<close> is the array of the login.\<close>

record params =
  rp_is_object :: bool
  rp_algos :: "string list option"
  rp_login :: cstr
  rp_pass :: cstr
  rp_agent :: cstr
  rp_rigid :: cstr
  rp_id :: cstr
  rp_job_id :: cstr
  rp_nonce :: cstr
  rp_result :: cstr
  rp_algo :: cstr
  rp_sig :: cstr
  rp_url :: cstr

datatype request =
    ParseError
  | NotObject
  | Request "int option" cstr params

record login_event =
  le_miner :: int
  le_id :: int
  le_algorithms :: "algo_id list"
  le_params :: params
  le_rejected :: bool
  le_error :: int
  le_flow :: cstr

record submit_event =
  se_miner :: int
  se_request :: job_result
  se_error :: error_code
  se_expired :: bool

record accept_event =
  ae_mapperId :: int
  ae_miner :: "int option"
  ae_result :: submit_result
  ae_donate :: bool
  ae_customDiff :: bool
  ae_error :: cstr

text \<open>A request ends at once, or it starts an event: the login event decides nothing for the
  miner, the submit event comes back to \<open>submit_done\<close>, the accept event is the custom share.\<close>

datatype request_step =
    RequestDone bool
  | StartLogin login_event
  | StartSubmit submit_event
  | StartAccept accept_event

definition login_algorithms :: "params \<Rightarrow> algo_id list" where
  "login_algorithms ps =
     (case rp_algos ps of
        None \<Rightarrow> []
      | Some as \<Rightarrow> List.filter algo_isValid (map (\<lambda>a. algo_parse (Some a)) as))"

definition submit_event_of :: "int \<Rightarrow> params \<Rightarrow> miner \<Rightarrow> submit_event" where
  "submit_event_of i ps m =
     (let r = mk_job_result i (rp_job_id ps) (rp_nonce ps) (rp_result ps) (algo_parse (rp_algo ps))
            (rp_sig ps) (m_signatureData m) (m_viewTag m) (m_extraNonce m)
      in \<lparr>se_miner = m_id m, se_request = r,
          se_error =
            (if \<not> jr_isValid r \<or> jr_actualDiff r < miner_diff m then LowDifficulty
             else if m_ext_nicehash m \<and> \<not> jr_isCompatible (m_fixedByte m) r then InvalidNonce
             else NoError),
          se_expired = False\<rparr>)"

definition parse_submit :: "env \<Rightarrow> int \<Rightarrow> params \<Rightarrow> mc \<Rightarrow> request_step \<times> mc" where
  "parse_submit env i ps s =
     (case s of (m, c) \<Rightarrow>
       let m = heartbeat env m in
       if rp_id ps = None \<or> \<not> str_isEqual (m_rpcId m) (rp_id ps)
       then (RequestDone True, replyWithError env i (error_toString Unauthenticated) (m, c))
       else
         let event = submit_event_of i ps m in
         if se_error event = NoError \<and> m_customDiff m \<noteq> 0 \<and> jr_actualDiff (se_request event) < m_diff m
         then
           let result = mk_submit_result (e_now env) 1 (m_customDiff m) (jr_actualDiff (se_request event))
                 (jr_id (se_request event)) 0
           in (StartAccept \<lparr>ae_mapperId = m_mapperId m, ae_miner = Some (m_id m), ae_result = result,
                 ae_donate = False, ae_customDiff = True, ae_error = None\<rparr>,
               success env i ''OK'' (m, c))
         else (StartSubmit event, m, c))"

text \<open>What follows \<open>event->start()\<close>: the verdict of the event and the event after its handlers.\<close>

definition submit_done :: "env \<Rightarrow> int \<Rightarrow> bool \<Rightarrow> submit_event \<Rightarrow> mc \<Rightarrow> bool \<times> mc" where
  "submit_done env i started event s =
     (se_error event \<noteq> InvalidNonce,
      if started then s else replyWithError env i (error_toString (se_error event)) s)"

definition parseRequest :: "env \<Rightarrow> int \<Rightarrow> cstr \<Rightarrow> params \<Rightarrow> mc \<Rightarrow> request_step \<times> mc" where
  "parseRequest env i meth ps s =
     (if meth = None \<or> \<not> rp_is_object ps then (RequestDone False, s)
      else
        case m_state (fst s) of
          WaitLoginState \<Rightarrow>
            if meth = Some ''login'' then
              let (m, c) = setState env WaitReadyState s;
                  m = m\<lparr>m_loginId := i, m_user := rp_login ps, m_password := rp_pass ps,
                        m_agent := rp_agent ps, m_rigId := rp_rigid ps\<rparr>
              in (StartLogin \<lparr>le_miner = m_id m, le_id = i, le_algorithms = login_algorithms ps,
                    le_params = ps, le_rejected = False, le_error = - 1, le_flow = None\<rparr>, m, c)
            else (RequestDone False, s)
        | WaitReadyState \<Rightarrow> (RequestDone False, s)
        | _ \<Rightarrow>
            if meth = Some ''submit'' then parse_submit env i ps s
            else if meth = Some ''keepalived'' then
              (RequestDone True, success env i ''KEEPALIVED'' (heartbeat env (fst s), snd s))
            else (RequestDone True, replyWithError env i (error_toString InvalidMethod) s))"

definition kMinLine :: nat where "kMinLine = 32"

text \<open>\<open>parse(char *line, size_t len)\<close>; \<open>decode\<close> is the JSON library. Whatever the request returns
  as \<open>false\<close> closes the connection.\<close>

definition miner_parse :: "env \<Rightarrow> (string \<Rightarrow> request) \<Rightarrow> string \<Rightarrow> mc \<Rightarrow> request_step \<times> mc" where
  "miner_parse env decode line s =
     (if m_state (fst s) = ClosingState then (RequestDone True, s)
      else if length line < kMinLine \<or> hd line \<noteq> CHR ''{'' then (RequestDone True, shutdown env True s)
      else
        case decode line of
          ParseError \<Rightarrow> (RequestDone True, shutdown env True s)
        | NotObject \<Rightarrow> (RequestDone True, shutdown env True s)
        | Request (Some i) meth ps \<Rightarrow>
            (case parseRequest env i meth ps s of
               (RequestDone False, s) \<Rightarrow> (RequestDone True, shutdown env True s)
             | (st, s) \<Rightarrow> (st, s))
        | Request None meth ps \<Rightarrow> (RequestDone True, shutdown env True s))"

text \<open>\<open>startTLS\<close> and \<open>read\<close>: the lines of the received bytes, which the process handles one after
  the other; a TLS session takes the bytes instead.\<close>

definition startTLS :: "string \<Rightarrow> miner \<Rightarrow> miner" where
  "startTLS data m =
     (if m_tlsCtx m \<and> (m_strictTls m \<or> hd data \<noteq> CHR ''{'') then m\<lparr>m_tls := True\<rparr> else m)"

definition miner_read :: "string \<Rightarrow> miner \<Rightarrow> string list \<times> miner" where
  "miner_read data m =
     (let m = (if data \<noteq> [] \<and> m_rx m = 0 then startTLS data m else m);
          m = m\<lparr>m_rx := m_rx m + of_nat (length data)\<rparr>
      in if m_tls m then ([], m)
         else let (lines, r) = lr_parse data (m_reader m) in (lines, m\<lparr>m_reader := r\<rparr>))"

text \<open>A negative length from the event loop.\<close>

definition miner_read_error :: "env \<Rightarrow> bool \<Rightarrow> mc \<Rightarrow> mc" where
  "miner_read_error env eof s = shutdown env (\<not> eof) s"

section \<open>The state machine\<close>

inductive state_next :: "miner_state \<Rightarrow> miner_state \<Rightarrow> bool" where
  sn_login: "state_next WaitLoginState WaitReadyState"
| sn_ready: "state_next WaitReadyState ReadyState"
| sn_close: "st \<noteq> ClosingState \<Longrightarrow> state_next st ClosingState"

inductive_cases state_next_closingE: "state_next ClosingState st"
inductive_simps state_next_readyI: "state_next st ReadyState"

code_pred state_next .

lemma closing_final: "state_next\<^sup>*\<^sup>* ClosingState st \<longleftrightarrow> st = ClosingState"
  by (auto elim: converse_rtranclpE state_next_closingE)

text \<open>What identifies a miner for the rest of the proxy.\<close>

definition miner_core :: "miner \<Rightarrow> int \<times> cstr \<times> int \<times> int \<times> bool \<times> bool \<times> bool \<times> u64" where
  "miner_core m = (m_id m, m_rpcId m, m_mapperId m, m_routeId m, m_ext_algo m, m_ext_nicehash m,
     m_ext_connect m, m_customDiff m)"

text \<open>The number of ready miners without this one.\<close>

definition other_miners :: "mc \<Rightarrow> u64" where
  "other_miners s = c_miners (snd s) - of_bool (m_state (fst s) = ReadyState)"

text \<open>The frame of every operation: identity kept, the state moved along the machine, the
  counter of ready miners moved with it, replies only appended, and none once closing.\<close>

definition miner_frame :: "mc \<Rightarrow> mc \<Rightarrow> bool" where
  "miner_frame s s' \<longleftrightarrow> miner_core (fst s') = miner_core (fst s) \<and>
     state_next\<^sup>*\<^sup>* (m_state (fst s)) (m_state (fst s')) \<and> other_miners s' = other_miners s \<and>
     c_connections (snd s') = c_connections (snd s) \<and>
     (\<exists>l. m_sent (fst s') = m_sent (fst s) @ l \<and> (m_state (fst s) = ClosingState \<longrightarrow> l = []))"

lemma miner_frame_refl [simp, intro]: "miner_frame s s"
  by (auto simp: miner_frame_def)

lemma miner_frame_trans [trans]: "miner_frame s t \<Longrightarrow> miner_frame t u \<Longrightarrow> miner_frame s u"
  using closing_final unfolding miner_frame_def
  by (smt (verit) append.assoc append_Nil2 rtranclp_trans)

text \<open>Updates of other members.\<close>

lemma miner_frame_upd:
  assumes "miner_core m' = miner_core m" "m_state m' = m_state m" "m_sent m' = m_sent m"
  shows "miner_frame (m, c) (m', c)" and "miner_frame (m', c) s = miner_frame (m, c) s"
  using assms by (auto simp: miner_frame_def other_miners_def)

lemma heartbeat_simps [simp]:
  "miner_core (heartbeat env m) = miner_core m" "m_state (heartbeat env m) = m_state m"
  "m_sent (heartbeat env m) = m_sent m" "m_id (heartbeat env m) = m_id m"
  "m_socket (heartbeat env m) = m_socket m"
  by (simp_all add: heartbeat_def miner_core_def)

lemma setState_frame:
  assumes "m_state (fst s) = st \<or> state_next (m_state (fst s)) st"
  shows "miner_frame s (setState env st s)" and "m_state (fst (setState env st s)) = st"
    and "m_sent (fst (setState env st s)) = m_sent (fst s)"
proof -
  obtain m c where s: "s = (m, c)" by (cases s)
  have "other_miners (setState env st s) = other_miners s"
    using assms by (auto simp: s setState_def Let_def other_miners_def elim: state_next.cases)
  moreover have "miner_core (fst (setState env st s)) = miner_core (fst s)"
    by (simp add: s setState_def Let_def miner_core_def heartbeat_def)
  moreover show "m_state (fst (setState env st s)) = st" "m_sent (fst (setState env st s)) = m_sent (fst s)"
    by (simp_all add: s setState_def Let_def)
  moreover have "c_connections (snd (setState env st s)) = c_connections (snd s)"
    by (simp add: s setState_def Let_def counters_add_def counters_remove_def)
  ultimately show "miner_frame s (setState env st s)"
    using assms by (auto simp: miner_frame_def)
qed

lemma miner_frame_socket: "miner_frame s (m, c) \<Longrightarrow> miner_frame s (m\<lparr>m_socket := x\<rparr>, c)"
  by (erule miner_frame_trans) (rule miner_frame_upd, simp_all add: miner_core_def)

lemma shutdown_frame: "miner_frame s (shutdown env e s)"
  and shutdown_closing: "m_state (fst (shutdown env e s)) = ClosingState"
  and shutdown_sent [simp]: "m_sent (fst (shutdown env e s)) = m_sent (fst s)"
proof -
  show "m_state (fst (shutdown env e s)) = ClosingState" "m_sent (fst (shutdown env e s)) = m_sent (fst s)"
    by (simp_all add: shutdown_def case_prod_beta setState_def Let_def)
  show "miner_frame s (shutdown env e s)"
  proof (cases "m_state (fst s) = ClosingState")
    case False
    then have f: "miner_frame s (setState env ClosingState s)" using setState_frame sn_close by blast
    obtain m c where m: "setState env ClosingState s = (m, c)" by (cases "setState env ClosingState s")
    show ?thesis using False f by (simp add: shutdown_def m miner_frame_socket)
  qed (simp add: shutdown_def)
qed

lemma on_shutdown_frame: "miner_frame (m, c) (on_shutdown m, c)"
  by (rule miner_frame_upd) (simp_all add: on_shutdown_def miner_core_def)

lemma send_size_frame: "miner_frame s (send_size env n x s)"
proof -
  obtain m c where s: "s = (m, c)" by (cases s)
  show ?thesis
  proof (cases "n = 0 \<or> \<not> isWritable env m")
    case False
    then have open_st: "m_state m \<noteq> ClosingState" by (simp add: isWritable_def)
    define rc where "rc = (if m_tls m then (if e_tls_send env m x then 0 else - 1) else e_try_write env m x)"
    have a: "miner_frame (m, c) (m\<lparr>m_sent := m_sent m @ [(x, rc)]\<rparr>, c)"
      using open_st by (auto simp: miner_frame_def other_miners_def miner_core_def)
    have b: "miner_frame (m', c) (m'\<lparr>m_tx := t\<rparr>, c)" for m' t
      by (rule miner_frame_upd) (simp_all add: miner_core_def)
    show ?thesis
    proof (cases "rc < 0")
      case True
      then have "send_size env n x s = shutdown env True (m\<lparr>m_sent := m_sent m @ [(x, rc)]\<rparr>, c)"
        using False by (simp add: s send_size_def Let_def flip: rc_def)
      then show ?thesis using miner_frame_trans [OF a shutdown_frame] s by simp
    next
      case rc: False
      then have "send_size env n x s = (m\<lparr>m_sent := m_sent m @ [(x, rc)], m_tx := m_tx m + of_nat n\<rparr>, c)"
        using False by (simp add: s send_size_def Let_def flip: rc_def)
      then show ?thesis
        using miner_frame_trans [OF a b [of "m\<lparr>m_sent := m_sent m @ [(x, rc)]\<rparr>" "m_tx m + of_nat n"]] s
        by simp
    qed
  qed (auto simp: s send_size_def)
qed

lemma send_doc_frame: "miner_frame s (send_doc env x s)"
  by (simp add: send_doc_def Let_def shutdown_frame send_size_frame)

lemma replyWithError_frame: "miner_frame s (replyWithError env i msg s)"
  and success_frame: "miner_frame s (success env i st s)"
  by (simp_all add: replyWithError_def success_def send_size_frame)

lemma send_bio_frame: "miner_frame s (snd (send_bio env len rc s))"
proof -
  obtain m c where s: "s = (m, c)" by (cases s)
  have "miner_frame (m, c) (m\<lparr>m_tx := t\<rparr>, c)" for t
    by (rule miner_frame_upd) (simp_all add: miner_core_def)
  then show ?thesis by (simp add: s send_bio_def shutdown_frame)
qed

lemma sendJob_frame: "miner_frame s (sendJob env blob i t a h sh sk s)"
proof (cases "m_state (fst s) = WaitReadyState")
  case True
  then have "miner_frame s (setState env ReadyState s)" using setState_frame sn_ready by metis
  also obtain m c where "setState env ReadyState s = (m, c)" by fastforce
  note e = this
  have "miner_frame (setState env ReadyState s) (send_doc env x (setState env ReadyState s))" for x
    by (rule send_doc_frame)
  finally show ?thesis using True e by (simp add: sendJob_def Let_def)
qed (simp add: sendJob_def Let_def send_doc_frame)

lemma forwardJob_frame: "miner_frame s (forwardJob env job algo s)"
proof -
  obtain m c where s: "s = (m, c)" by (cases s)
  have "miner_frame (m, c) (m\<lparr>m_diff := j_diff job, m_fixedByte := fixedByte job\<rparr>, c)"
    by (rule miner_frame_upd) (simp_all add: miner_core_def)
  then show ?thesis
    unfolding s forwardJob_def prod.case Let_def by (rule miner_frame_trans [OF _ sendJob_frame])
qed

lemma setJob_keys_same:
  "setJob_keys env x m job = Some (m', job') \<Longrightarrow>
     miner_core m' = miner_core m \<and> m_state m' = m_state m \<and> m_sent m' = m_sent m \<and> m_fixedByte m' = m_fixedByte m \<and>
     m_diff m' = m_diff m"
  by (auto simp: setJob_keys_def miner_core_def split: option.splits if_splits prod.splits)

lemma setJob_frame:
  assumes "setJob env job x s = Some (job', s')"
  shows "miner_frame s s'"
proof -
  obtain m c where s: "s = (m, c)" by (cases s)
  let ?m = "m\<lparr>m_diff := j_diff (setJob_nicehash m job)\<rparr>"
  obtain m1 job1 where k: "setJob_keys env x ?m (setJob_nicehash m job) = Some (m1, job1)"
    using assms by (auto simp: s setJob_def Let_def split: option.splits)
  obtain b i t a h sh sk where "s' = sendJob env b i t a h sh sk (m1, c)"
    using assms k by (auto simp: s setJob_def Let_def split: option.splits)
  moreover have "miner_frame (m, c) (m1, c)"
    by (rule miner_frame_upd) (use setJob_keys_same [OF k] in \<open>simp_all add: miner_core_def\<close>)
  ultimately show ?thesis using miner_frame_trans sendJob_frame s by metis
qed

text \<open>The fixed byte changes in \<open>forwardJob\<close> only.\<close>

lemma fixedByte_simps [frame_simps]:
  "m_fixedByte (heartbeat env m) = m_fixedByte m"
  "m_fixedByte (fst (setState env st s)) = m_fixedByte (fst s)"
  "m_fixedByte (fst (shutdown env e s)) = m_fixedByte (fst s)"
  "m_fixedByte (fst (send_size env n x s)) = m_fixedByte (fst s)"
  "m_fixedByte (fst (send_doc env x s)) = m_fixedByte (fst s)"
  "m_fixedByte (fst (replyWithError env i msg s)) = m_fixedByte (fst s)"
  "m_fixedByte (fst (success env i msg s)) = m_fixedByte (fst s)"
proof -
  show h: "m_fixedByte (heartbeat env m) = m_fixedByte m" for m by (simp add: heartbeat_def)
  show st: "m_fixedByte (fst (setState env st s)) = m_fixedByte (fst s)" for st s
    by (simp add: setState_def case_prod_beta Let_def h)
  show sh: "m_fixedByte (fst (shutdown env e s)) = m_fixedByte (fst s)" for e s
    using st [of ClosingState s] by (simp add: shutdown_def case_prod_beta Let_def)
  show ss: "m_fixedByte (fst (send_size env n x s)) = m_fixedByte (fst s)" for n x s
    by (simp add: send_size_def case_prod_beta Let_def sh)
  show "m_fixedByte (fst (send_doc env x s)) = m_fixedByte (fst s)"
    by (simp add: send_doc_def Let_def sh ss)
  show "m_fixedByte (fst (replyWithError env i msg s)) = m_fixedByte (fst s)"
    "m_fixedByte (fst (success env i msg s)) = m_fixedByte (fst s)"
    by (simp_all add: replyWithError_def success_def ss)
qed

lemma sendJob_fixedByte [frame_simps]:
  "m_fixedByte (fst (sendJob env blob i t a h sh sk s)) = m_fixedByte (fst s)"
  using fixedByte_simps(2) [of env ReadyState s]
  by (simp add: sendJob_def Let_def case_prod_beta frame_simps)

lemma setJob_fixedByte:
  assumes "setJob env job x s = Some (job', s')"
  shows "m_fixedByte (fst s') = m_fixedByte (fst s)"
  using assms setJob_keys_same
  by (cases s) (fastforce simp: setJob_def Let_def frame_simps split: option.splits)

section \<open>Requests\<close>

lemma heartbeat_frame: "miner_frame (m, c) (heartbeat env m, c)"
  by (rule miner_frame_upd) simp_all

lemma parse_submit_frame: "miner_frame s (snd (parse_submit env i ps s))"
proof -
  obtain m c where s: "s = (m, c)" by (cases s)
  have "miner_frame (m, c) (replyWithError env i x (heartbeat env m, c))"
    "miner_frame (m, c) (success env i x (heartbeat env m, c))" for x
    using miner_frame_trans [OF heartbeat_frame replyWithError_frame]
      miner_frame_trans [OF heartbeat_frame success_frame] by blast+
  then show ?thesis by (simp add: s parse_submit_def Let_def heartbeat_frame)
qed

lemma parseRequest_frame: "miner_frame s (snd (parseRequest env i meth ps s))"
proof -
  obtain m c where s: "s = (m, c)" by (cases s)
  consider (guard) "meth = None \<or> \<not> rp_is_object ps"
    | (login) "m_state m = WaitLoginState" "meth \<noteq> None" "rp_is_object ps"
    | (ready) "m_state m = WaitReadyState" "meth \<noteq> None" "rp_is_object ps"
    | (other) "m_state m = ReadyState \<or> m_state m = ClosingState" "meth \<noteq> None" "rp_is_object ps"
    using miner_state.exhaust [of "m_state m"] by metis
  then show ?thesis
  proof cases
    case login
    obtain m1 c1 where e: "setState env WaitReadyState s = (m1, c1)" by fastforce
    have "miner_frame s (m1, c1)" using setState_frame(1) [of s WaitReadyState env] login e by (simp add: s sn_login)
    moreover have "miner_frame (m1, c1) (m1\<lparr>m_loginId := i, m_user := u, m_password := p, m_agent := a, m_rigId := r\<rparr>, c1)"
      for u p a r by (rule miner_frame_upd) (simp_all add: miner_core_def)
    ultimately show ?thesis
      using login e miner_frame_trans s by (auto simp: parseRequest_def Let_def)
  next
    case other
    have "miner_frame (m, c) (success env i x (heartbeat env m, c))" for x
      using miner_frame_trans [OF heartbeat_frame success_frame] by blast
    then show ?thesis
      using other by (auto simp: s parseRequest_def parse_submit_frame replyWithError_frame)
  qed (auto simp: s parseRequest_def)
qed

lemma submit_done_frame: "miner_frame s (snd (submit_done env i started event s))"
  by (simp add: submit_done_def replyWithError_frame)

lemma miner_parse_frame: "miner_frame s (snd (miner_parse env decode line s))"
proof -
  consider (closing) "m_state (fst s) = ClosingState"
    | (bad) "m_state (fst s) \<noteq> ClosingState" "length line < kMinLine \<or> hd line \<noteq> CHR ''{''"
    | (ok) "m_state (fst s) \<noteq> ClosingState" "\<not> (length line < kMinLine \<or> hd line \<noteq> CHR ''{'')"
    by blast
  then show ?thesis
  proof cases
    case ok
    show ?thesis
    proof (cases "decode line")
      case (Request i meth ps)
      show ?thesis
      proof (cases i)
        case (Some k)
        obtain st s1 where r: "parseRequest env k meth ps s = (st, s1)"
          by (cases "parseRequest env k meth ps s")
        then have f: "miner_frame s s1" using parseRequest_frame [of s env k meth ps] by simp
        then have "miner_frame s (shutdown env True s1)" using miner_frame_trans shutdown_frame by blast
        with f show ?thesis
          using ok Request Some r
          by (cases st) (auto simp: miner_parse_def split: bool.splits)
      qed (use ok Request in \<open>simp add: miner_parse_def shutdown_frame\<close>)
    qed (use ok in \<open>simp_all add: miner_parse_def shutdown_frame\<close>)
  qed (simp_all add: miner_parse_def shutdown_frame)
qed

lemma miner_read_frame: "miner_frame (m, c) (snd (miner_read data m), c)"
  by (rule miner_frame_upd)
    (simp_all add: miner_read_def startTLS_def Let_def miner_core_def split: prod.splits)

text \<open>What a login and a share start.\<close>

lemma parseRequest_login:
  assumes "m_state m = WaitLoginState" and "rp_is_object ps"
  shows "\<exists>ev m' c'. parseRequest env i (Some ''login'') ps (m, c) = (StartLogin ev, m', c') \<and>
    le_miner ev = m_id m \<and> le_id ev = i \<and> \<not> le_rejected ev \<and> m_state m' = WaitReadyState \<and> m_loginId m' = i \<and>
    list_all algo_isValid (le_algorithms ev)"
  using assms
  by (auto simp: parseRequest_def setState_def Let_def login_algorithms_def list_all_iff split: option.splits)

lemma submit_event_ok:
  assumes "se_error (submit_event_of i ps m) = NoError"
  shows "jr_isValid (se_request (submit_event_of i ps m))"
    and "miner_diff m \<le> jr_actualDiff (se_request (submit_event_of i ps m))"
    and "m_ext_nicehash m \<Longrightarrow> jr_isCompatible (m_fixedByte m) (se_request (submit_event_of i ps m))"
    and "jr_id (se_request (submit_event_of i ps m)) = i"
  using assms by (auto simp: submit_event_of_def Let_def mk_job_result_def split: if_splits)

section \<open>The custom difficulty\<close>

text \<open>The value a miner reads from the text of a custom target.\<close>

lemma custom_target_bytes: "drop 4 (le_bytes w) = map (\<lambda>i. ucast (drop_bit (8 * i) w)) [4, 5, 6, 7]"
  by (simp add: le_bytes_def upt_rec)

lemma le_word_high: "le_word (drop 4 (le_bytes w)) = drop_bit 32 w"
proof (rule bit_word_eqI)
  fix n
  assume "n < LENGTH(64)"
  then have n: "n < 64" by simp
  show "bit (le_word (drop 4 (le_bytes w))) n = bit (drop_bit 32 w) n"
  proof (cases "n < 32")
    case True
    then have "n div 8 < 4" by simp
    moreover from this have "le_bytes w ! (4 + n div 8) = ucast (drop_bit (8 * (4 + n div 8)) w)"
      by (simp add: le_bytes_def)
    moreover have "bit (ucast (drop_bit k w) :: u8) j = bit w (k + j)" if "j < 8" for k j
      using that by (simp add: bit_simps)
    moreover have "8 * (4 + n div 8) + n mod 8 = n + 32" by simp
    moreover have "bit (drop_bit 32 w) n = bit w (n + 32)" by (simp add: bit_drop_bit_eq add.commute)
    ultimately show ?thesis using n by (simp only: bit_le_word) simp
  next
    case False
    then have "\<not> bit w (32 + n)" using bit_imp_le_length [of w "32 + n"] by auto
    moreover have "\<not> n div 8 < 4" using False by simp
    ultimately show ?thesis using n by (simp add: bit_le_word bit_simps)
  qed
qed

lemma custom_target_value:
  assumes "0 < d" and "d < 2 ^ 32" and "a \<noteq> RX_YADA"
  shows "parse_target (custom_target d) a =
    Some (0xFFFFFFFFFFFFFFFF div (0xFFFFFFFF div drop_bit 32 (0xFFFFFFFFFFFFFFFF div d)))"
    and "0 < drop_bit 32 (0xFFFFFFFFFFFFFFFF div d)"
proof -
  let ?w = "0xFFFFFFFFFFFFFFFF div d"
  have d: "0 < unat d" "unat d < 2 ^ 32" using assms by (auto simp: unat_gt_0 word_less_nat_alt)
  then have "2 ^ 32 * unat d \<le> 2 ^ 32 * (2 ^ 32 - 1)" by (intro mult_left_mono) auto
  then have "2 ^ 32 * unat d \<le> 2 ^ 64 - 1" by simp
  then have "2 ^ 32 \<le> (2 ^ 64 - 1) div unat d" using d by (simp add: less_eq_div_iff_mult_less_eq)
  then have "0 < unat (drop_bit 32 ?w)" by (simp add: drop_bit_eq_div unat_div div_greater_zero_iff)
  then show "0 < drop_bit 32 ?w" by (simp add: word_less_nat_alt)
  then have nz: "drop_bit 32 ?w \<noteq> 0" by simp
  have l: "length (drop 4 (le_bytes ?w)) = 4" by simp
  then have "drop 4 (le_bytes ?w) \<noteq> []" by auto
  from fromHex_bin2hex [OF this] have f: "fromHex (custom_target d) = drop 4 (le_bytes ?w)"
    by (simp add: custom_target_def)
  have "parse_target (custom_target d) a \<noteq> None"
    using nz l by (simp add: parse_target_None f le_word_high)
  then show "parse_target (custom_target d) a = Some (0xFFFFFFFFFFFFFFFF div (0xFFFFFFFF div drop_bit 32 ?w))"
    using assms(3) nz l by (auto simp: parse_target_def f le_word_high Let_def split: if_splits)
qed

lemma custom_target_sound_nat:
  assumes "0 < (d :: nat)" and "t = (2 ^ 64 - 1) div d div 2 ^ 32" and "0 < t" and "0 < v"
    and "v \<le> (2 ^ 64 - 1) div ((2 ^ 32 - 1) div t)"
  shows "d \<le> (2 ^ 64 - 1) div v"
proof -
  have "t * 2 ^ 32 \<le> (2 ^ 64 - 1) div d" using assms(2) by simp
  then have "t * 2 ^ 32 * d \<le> 2 ^ 64 - 1" using assms(1) by (simp add: less_eq_div_iff_mult_less_eq)
  then have "(t * d) * 2 ^ 32 < 2 ^ 32 * 2 ^ 32" by (simp add: mult.commute mult.left_commute)
  then have "d * t < 2 ^ 32" by (simp add: mult.commute)
  then have "d * t \<le> 2 ^ 32 - 1" by simp
  then have d: "d \<le> (2 ^ 32 - 1) div t" using assms(3) by (simp add: less_eq_div_iff_mult_less_eq)
  have "v * ((2 ^ 32 - 1) div t) \<le> 2 ^ 64 - 1"
    using assms(5) d assms(1) by (simp add: less_eq_div_iff_mult_less_eq)
  moreover have "d * v \<le> v * ((2 ^ 32 - 1) div t)" using d by (simp only: mult.commute [of d] mult_le_mono2)
  ultimately have "d * v \<le> 2 ^ 64 - 1" by (rule order_trans [rotated])
  then show ?thesis using assms(4) by (simp add: less_eq_div_iff_mult_less_eq)
qed

text \<open>A share below the target the miner reads has at least the custom difficulty.\<close>

lemma custom_target_sound:
  assumes "0 < d" and "d < 2 ^ 32" and "a \<noteq> RX_YADA"
    and "parse_target (custom_target d) a = Some t" and "0 < v" and "v \<le> t"
  shows "d \<le> toDiff v"
proof -
  let ?t = "drop_bit 32 (0xFFFFFFFFFFFFFFFF div d) :: u64"
  have t: "t = 0xFFFFFFFFFFFFFFFF div (0xFFFFFFFF div ?t)" "0 < ?t"
    using custom_target_value [OF assms(1-3)] assms(4) by auto
  have "unat ?t = (2 ^ 64 - 1) div unat d div 2 ^ 32" by (simp add: drop_bit_eq_div unat_div)
  moreover have "unat v \<le> (2 ^ 64 - 1) div ((2 ^ 32 - 1) div unat ?t)"
    using assms(6) unfolding t(1) word_le_nat_alt by (simp add: unat_div)
  ultimately have "unat d \<le> (2 ^ 64 - 1) div unat v"
    using custom_target_sound_nat [of "unat d" "unat ?t" "unat v"] assms(1,5) t(2) by (simp add: word_less_nat_alt)
  moreover have "v \<noteq> 0" using assms(5) by auto
  ultimately show ?thesis by (simp add: word_le_nat_alt unat_toDiff)
qed

end
