(* ===== verification/Miners.thy ===== *)
theory Miners
  imports Miner Config
begin

text \<open>
  The miners of the process (\<open>Storage<Miner>\<close>, \<open>src/proxy/Miners.cpp\<close>, \<open>Server.cpp\<close>) and the two
  listeners of the login event that come before the splitters (\<open>src/proxy/Login.cpp\<close>,
  \<open>CustomDiff.cpp\<close>). A pointer to a miner is its identifier, which no other miner ever has;
  following the pointer of a deleted miner sets \<open>p_fault\<close>.
\<close>

section \<open>The process\<close>

record proc =
  p_objs :: "int \<Rightarrow> miner option"
  p_cnt :: counters
  p_next :: int
  p_fault :: bool

definition proc_new :: proc where
  "proc_new = \<lparr>p_objs = Map.empty, p_cnt = counters_zero, p_next = 0, p_fault = False\<rparr>"

definition put_miner :: "int \<Rightarrow> mc \<Rightarrow> proc \<Rightarrow> proc" where
  "put_miner i s p = p\<lparr>p_objs := (p_objs p)(i \<mapsto> fst s), p_cnt := snd s\<rparr>"

definition on_miner :: "(mc \<Rightarrow> mc) \<Rightarrow> int \<Rightarrow> proc \<Rightarrow> proc" where
  "on_miner f i p =
     (case p_objs p i of
        None \<Rightarrow> p\<lparr>p_fault := True\<rparr>
      | Some m \<Rightarrow> put_miner i (f (m, p_cnt p)) p)"

definition upd_miner :: "(miner \<Rightarrow> miner) \<Rightarrow> int \<Rightarrow> proc \<Rightarrow> proc" where
  "upd_miner f i p = on_miner (\<lambda>(m, c). (f m, c)) i p"

text \<open>\<open>miner->setJob(job)\<close>; the job it writes to comes back.\<close>

definition proc_setJob :: "env \<Rightarrow> int \<Rightarrow> job \<Rightarrow> int \<Rightarrow> proc \<Rightarrow> job \<times> proc" where
  "proc_setJob env i job extra_nonce p =
     (case p_objs p i of
        None \<Rightarrow> (job, p\<lparr>p_fault := True\<rparr>)
      | Some m \<Rightarrow>
          (case setJob env job extra_nonce (m, p_cnt p) of
             None \<Rightarrow> (job, p\<lparr>p_fault := True\<rparr>)
           | Some (job, s) \<Rightarrow> (job, put_miner i s p)))"

section \<open>Server\<close>

text \<open>\<open>Server::create\<close>: a connection that cannot be accepted is deleted again; otherwise the result
  is the miner of the connection event. \<open>ip\<close> is the peer's address.\<close>

definition server_create ::
  "env \<Rightarrow> cstr \<Rightarrow> bool \<Rightarrow> u16 \<Rightarrow> bool \<Rightarrow> bool \<Rightarrow> string \<Rightarrow> proc \<Rightarrow> int option \<times> proc" where
  "server_create env rpcId ctx port strictTls accepted ip p =
     (let i = p_next p + 1;
          (m, c) = miner_new env i rpcId ctx port strictTls (p_cnt p)
      in if accepted
         then (Some i, p\<lparr>p_objs := (p_objs p)(i \<mapsto> m\<lparr>m_ip := ip\<rparr>), p_cnt := c, p_next := i\<rparr>)
         else (None, p\<lparr>p_cnt := miner_delete c, p_next := i\<rparr>))"

text \<open>The end of the close callback, after the close event.\<close>

definition proc_delete :: "int \<Rightarrow> proc \<Rightarrow> proc" where
  "proc_delete i p =
     (case p_objs p i of
        None \<Rightarrow> p
      | Some m \<Rightarrow> p\<lparr>p_objs := (p_objs p)(i := None), p_cnt := miner_delete (p_cnt p)\<rparr>)"

section \<open>Miners\<close>

text \<open>The ordered map \<open>m_miners\<close> from identifiers to miners is the ascending list of identifiers.\<close>

definition miners_add :: "int \<Rightarrow> int list \<Rightarrow> int list" where
  "miners_add i ms = insort_insert i ms"

definition miners_remove :: "int \<Rightarrow> int list \<Rightarrow> int list" where
  "miners_remove i ms = List.filter (\<lambda>x. x \<noteq> i) ms"

definition is_expired :: "env \<Rightarrow> proc \<Rightarrow> int \<Rightarrow> bool" where
  "is_expired env p i = (case p_objs p i of None \<Rightarrow> False | Some m \<Rightarrow> e_loop_now env > m_expire m)"

text \<open>\<open>miner->close()\<close>.\<close>

definition proc_close :: "env \<Rightarrow> int \<Rightarrow> proc \<Rightarrow> proc" where
  "proc_close env i p = on_miner (shutdown env True) i p"

definition miners_tick :: "env \<Rightarrow> int list \<Rightarrow> proc \<Rightarrow> proc" where
  "miners_tick env ms p =
     (let p = (if \<exists>i \<in> set ms. p_objs p i = None then p\<lparr>p_fault := True\<rparr> else p);
          expired = List.filter (is_expired env p) ms
      in fold (proc_close env) expired p)"

section \<open>Login and CustomDiff\<close>

definition login_reject :: "env \<Rightarrow> string \<Rightarrow> login_event \<Rightarrow> proc \<Rightarrow> login_event \<times> proc" where
  "login_reject env message ev p =
     (ev\<lparr>le_rejected := True\<rparr>,
      proc_close env (le_miner ev) (on_miner (replyWithError env (le_id ev) message) (le_miner ev) p))"

definition login_login :: "env \<Rightarrow> config \<Rightarrow> login_event \<Rightarrow> proc \<Rightarrow> login_event \<times> proc" where
  "login_login env cfg ev p =
     (case p_objs p (le_miner ev) of
        None \<Rightarrow> (ev, p\<lparr>p_fault := True\<rparr>)
      | Some m \<Rightarrow>
          if \<not> str_isNull (cfg_password cfg) \<and> \<not> str_isEqual (m_password m) (cfg_password cfg)
          then login_reject env (error_toString Forbidden) ev p else (ev, p))"

text \<open>The difficulty behind the last plus sign of the user.\<close>

definition user_diff :: "string \<Rightarrow> u64 option" where
  "user_diff user =
     (case strrchr user (CHR ''+'') of
        None \<Rightarrow> None
      | Some i \<Rightarrow>
          let d = strtoul (drop (i + 1) user)
          in if d < 100 \<or> unat d \<ge> int_max then None else Some d)"

definition customDiff_of :: "config \<Rightarrow> miner \<Rightarrow> miner" where
  "customDiff_of cfg m =
     (if m_routeId m \<noteq> - 1 then m
      else
        let m = m\<lparr>m_customDiff := cfg_diff cfg\<rparr> in
        case m_user m of
          None \<Rightarrow> m
        | Some u \<Rightarrow> (case user_diff u of None \<Rightarrow> m | Some d \<Rightarrow> m\<lparr>m_customDiff := d\<rparr>))"

definition customDiff_login :: "config \<Rightarrow> login_event \<Rightarrow> proc \<Rightarrow> proc" where
  "customDiff_login cfg ev p = upd_miner (customDiff_of cfg) (le_miner ev) p"

section \<open>Well-formed processes\<close>

definition ready_ids :: "proc \<Rightarrow> int set" where
  "ready_ids p = {i. \<exists>m. p_objs p i = Some m \<and> m_state m = ReadyState}"

text \<open>A pointer is the identifier of what it points to, identifiers are not reused, the counters
  are the numbers of ready and of live miners.\<close>

definition proc_ok :: "proc \<Rightarrow> bool" where
  "proc_ok p \<longleftrightarrow> finite (dom (p_objs p)) \<and>
     (\<forall>i m. p_objs p i = Some m \<longrightarrow> m_id m = i \<and> 0 < i \<and> i \<le> p_next p) \<and> 0 \<le> p_next p \<and>
     c_miners (p_cnt p) = of_nat (card (ready_ids p)) \<and>
     c_connections (p_cnt p) = of_nat (card (dom (p_objs p)))"

lemma proc_ok_new: "proc_ok proc_new"
  by (simp add: proc_ok_def proc_new_def ready_ids_def counters_zero_def)

lemma finite_ready: "finite (dom (p_objs p)) \<Longrightarrow> finite (ready_ids p)"
  by (erule rev_finite_subset) (auto simp: ready_ids_def)

text \<open>The counter of ready miners is moved by an operation the way the set of ready miners is.\<close>

lemma ready_put_miner:
  "ready_ids (put_miner i s p) = (if m_state (fst s) = ReadyState then insert i (ready_ids p - {i}) else ready_ids p - {i})"
  by (auto simp: ready_ids_def put_miner_def)

lemma card_ready_put:
  assumes "finite (dom (p_objs p))" and "p_objs p i = Some m" and "miner_frame (m, p_cnt p) s"
    and "c_miners (p_cnt p) = of_nat (card (ready_ids p))"
  shows "c_miners (snd s) = of_nat (card (ready_ids (put_miner i s p)))"
proof -
  have f: "finite (ready_ids p - {i})" using finite_ready [OF assms(1)] by simp
  have "i \<in> ready_ids p \<longleftrightarrow> m_state m = ReadyState" using assms(2) by (simp add: ready_ids_def)
  then have "card (ready_ids p) = card (ready_ids p - {i}) + of_bool (m_state m = ReadyState)"
    using card_Suc_Diff1 [OF finite_ready [OF assms(1)], of i] by (cases "i \<in> ready_ids p") simp_all
  then have "c_miners (p_cnt p) - of_bool (m_state m = ReadyState) = of_nat (card (ready_ids p - {i}))"
    using assms(4) by simp
  moreover have "c_miners (snd s) - of_bool (m_state (fst s) = ReadyState) = c_miners (p_cnt p) - of_bool (m_state m = ReadyState)"
    using assms(3) by (simp add: miner_frame_def other_miners_def)
  ultimately show ?thesis using f by (auto simp: ready_put_miner diff_eq_eq card.insert_remove)
qed

lemma on_miner_ok:
  assumes "\<And>s. miner_frame s (f s)" and "proc_ok p"
  shows "proc_ok (on_miner f i p)"
proof (cases "p_objs p i")
  case None
  then show ?thesis using assms(2) by (simp add: on_miner_def proc_ok_def ready_ids_def)
next
  case (Some m)
  let ?s = "f (m, p_cnt p)"
  have fr: "miner_frame (m, p_cnt p) ?s" by (rule assms(1))
  have e: "on_miner f i p = put_miner i ?s p" using Some by (simp add: on_miner_def)
  have o: "p_objs (put_miner i ?s p) = (p_objs p)(i \<mapsto> fst ?s)" "p_cnt (put_miner i ?s p) = snd ?s"
    "p_next (put_miner i ?s p) = p_next p"
    by (simp_all add: put_miner_def)
  have "c_miners (snd ?s) = of_nat (card (ready_ids (put_miner i ?s p)))"
    using card_ready_put [OF _ Some fr] assms(2) by (simp add: proc_ok_def)
  moreover have "m_id (fst ?s) = m_id m" "c_connections (snd ?s) = c_connections (p_cnt p)"
    using fr by (simp_all add: miner_frame_def miner_core_def)
  moreover have "dom ((p_objs p)(i \<mapsto> fst ?s)) = dom (p_objs p)" using Some by auto
  ultimately show ?thesis
    using assms(2) Some unfolding e proc_ok_def o by (auto simp: insert_absorb)
qed

text \<open>What no operation on miners changes: who is alive, the identifier counter, the
  identity of each miner, and a fault once raised.\<close>

definition proc_frame :: "proc \<Rightarrow> proc \<Rightarrow> bool" where
  "proc_frame p p' \<longleftrightarrow> dom (p_objs p') = dom (p_objs p) \<and> p_next p' = p_next p \<and> (p_fault p \<longrightarrow> p_fault p') \<and>
     (proc_ok p \<longrightarrow> proc_ok p') \<and>
     (\<forall>i m m'. p_objs p i = Some m \<longrightarrow> p_objs p' i = Some m' \<longrightarrow>
        state_next\<^sup>*\<^sup>* (m_state m) (m_state m') \<and> m_id m' = m_id m \<and> m_rpcId m' = m_rpcId m)"

lemma proc_frame_refl [simp, intro]: "proc_frame p p"
  by (auto simp: proc_frame_def)

lemma proc_frame_trans [trans]: "proc_frame p q \<Longrightarrow> proc_frame q r \<Longrightarrow> proc_frame p r"
  unfolding proc_frame_def
  by (smt (verit, ccfv_threshold) domD domI rtranclp_trans)

lemma on_miner_frame: "(\<And>s. miner_frame s (f s)) \<Longrightarrow> proc_frame p (on_miner f i p)"
proof -
  assume f: "\<And>s. miner_frame s (f s)"
  show ?thesis
  proof (cases "p_objs p i")
    case (Some m)
    have "miner_frame (m, p_cnt p) (f (m, p_cnt p))" by (rule f)
    then show ?thesis
      using on_miner_ok [OF f, of p i] Some
      by (auto simp: proc_frame_def on_miner_def put_miner_def miner_frame_def miner_core_def split: if_splits)
  qed (use on_miner_ok [OF f, of p i] in \<open>auto simp: proc_frame_def on_miner_def\<close>)
qed

lemma upd_miner_frame:
  assumes "\<And>m. m_state (f m) = m_state m" "\<And>m. m_sent (f m) = m_sent m" "\<And>m. m_id (f m) = m_id m" "\<And>m. m_rpcId (f m) = m_rpcId m"
  shows "proc_frame p (upd_miner f i p)"
proof (cases "p_objs p i")
  case (Some m)
  have r: "ready_ids (upd_miner f i p) = ready_ids p"
    using Some assms(1) by (auto simp: ready_ids_def upd_miner_def on_miner_def put_miner_def)
  have "dom ((p_objs p)(i \<mapsto> f m)) = dom (p_objs p)" using Some by auto
  then have "proc_ok p \<longrightarrow> proc_ok (upd_miner f i p)"
    using Some assms(3) r
    by (auto simp: proc_ok_def upd_miner_def on_miner_def put_miner_def insert_absorb)
  then show ?thesis
    using Some assms by (auto simp: proc_frame_def upd_miner_def on_miner_def put_miner_def split: if_splits)
next
  case None
  then show ?thesis
    by (auto simp: proc_frame_def upd_miner_def on_miner_def proc_ok_def ready_ids_def)
qed

lemma proc_fault_frame: "proc_frame p (p\<lparr>p_fault := True\<rparr>)"
  by (auto simp: proc_frame_def proc_ok_def ready_ids_def)

lemma put_miner_frame:
  assumes "p_objs p i = Some m" and "miner_frame (m, p_cnt p) s"
  shows "proc_frame p (put_miner i s p)"
proof -
  have "put_miner i s p = on_miner (\<lambda>t. if t = (m, p_cnt p) then s else t) i p"
    using assms(1) by (simp add: on_miner_def)
  then show ?thesis using on_miner_frame [of "\<lambda>t. if t = (m, p_cnt p) then s else t" p i] assms(2) by auto
qed

lemma proc_setJob_frame: "proc_frame p (snd (proc_setJob env i job x p))"
proof (cases "p_objs p i")
  case (Some m)
  show ?thesis
  proof (cases "setJob env job x (m, p_cnt p)")
    case (Some r)
    obtain job' s where r: "r = (job', s)" by (cases r)
    with Some have "miner_frame (m, p_cnt p) s" using setJob_frame by simp
    then show ?thesis
      using put_miner_frame [OF \<open>p_objs p i = Some m\<close>] Some r \<open>p_objs p i = Some m\<close> by (simp add: proc_setJob_def)
  qed (use Some proc_fault_frame in \<open>simp add: proc_setJob_def\<close>)
qed (simp add: proc_setJob_def proc_fault_frame)

lemma proc_close_frame: "proc_frame p (proc_close env i p)"
  unfolding proc_close_def by (rule on_miner_frame) (rule shutdown_frame)

lemma reply_frame: "proc_frame p (on_miner (replyWithError env k msg) i p)"
  "proc_frame p (on_miner (success env k msg) i p)"
  by (rule on_miner_frame, rule replyWithError_frame, rule on_miner_frame, rule success_frame)

lemma fold_close_frame: "proc_frame p (fold (proc_close env) is p)"
  by (induction "is" arbitrary: p) (auto intro: proc_frame_trans proc_close_frame)

lemma miners_tick_frame: "proc_frame p (miners_tick env ms p)"
  unfolding miners_tick_def Let_def
  using proc_frame_trans [OF proc_fault_frame fold_close_frame] fold_close_frame by auto

lemma login_login_frame: "proc_frame p (snd (login_login env cfg ev p))"
  using proc_frame_trans [OF reply_frame(1) proc_close_frame] proc_fault_frame
  by (auto simp: login_login_def login_reject_def split: option.splits)

lemma customDiff_login_frame: "proc_frame p (customDiff_login cfg ev p)"
  unfolding customDiff_login_def
  by (rule upd_miner_frame)
    (auto simp: customDiff_of_def Let_def split: option.splits)

text \<open>Views of the miners that an operation keeps.\<close>

definition proc_same :: "(miner \<Rightarrow> 'a) \<Rightarrow> proc \<Rightarrow> proc \<Rightarrow> bool" where
  "proc_same f p p' \<longleftrightarrow> (\<forall>i. map_option f (p_objs p' i) = map_option f (p_objs p i))"

lemma proc_same_refl [simp, intro]: "proc_same f p p"
  by (simp add: proc_same_def)

lemma proc_same_trans [trans]: "proc_same f p q \<Longrightarrow> proc_same f q r \<Longrightarrow> proc_same f p r"
  by (simp add: proc_same_def)

lemma proc_same_fault [simp]: "proc_same f p (p\<lparr>p_fault := True\<rparr>)"
  by (simp add: proc_same_def)

lemma proc_same_mono:
  assumes "proc_same f p q" and "\<And>m m'. f m = f m' \<Longrightarrow> g m = g m'"
  shows "proc_same g p q"
  unfolding proc_same_def
proof
  fix i
  have "map_option f (p_objs q i) = map_option f (p_objs p i)" using assms(1) by (simp add: proc_same_def)
  then consider "p_objs q i = None" "p_objs p i = None"
    | m m' where "p_objs q i = Some m" "p_objs p i = Some m'" "f m = f m'"
    by (cases "p_objs p i"; cases "p_objs q i") simp_all
  then show "map_option g (p_objs q i) = map_option g (p_objs p i)"
  proof cases
    case 2
    from assms(2) [OF this(3)] this show ?thesis by simp
  qed simp
qed

lemma on_miner_same: "(\<And>m c. f (fst (g (m, c))) = f m) \<Longrightarrow> proc_same f p (on_miner g i p)"
  by (auto simp: proc_same_def on_miner_def put_miner_def split: option.splits)

definition miner_view :: "miner \<Rightarrow> u8 \<times> int \<times> cstr \<times> int \<times> int \<times> bool \<times> bool \<times> bool \<times> u64" where
  "miner_view m = (m_fixedByte m, miner_core m)"

lemma proc_setJob_same: "proc_same miner_view p (snd (proc_setJob env i job x p))"
  using setJob_fixedByte setJob_frame
  by (fastforce simp: proc_same_def proc_setJob_def put_miner_def miner_view_def miner_frame_def split: option.splits)

lemma reply_same: "proc_same miner_view p (on_miner (replyWithError env k msg) i p)"
  "proc_same miner_view p (on_miner (success env k msg) i p)"
  "proc_same miner_view p (proc_close env i p)"
  unfolding proc_close_def
  using replyWithError_frame success_frame shutdown_frame
  by (auto intro!: on_miner_same simp: miner_view_def frame_simps miner_frame_def)

section \<open>Creation, deletion and the timer\<close>

lemma server_create_ok:
  assumes "proc_ok p" and "server_create env r ctx port tls acc ip p = (res, p')"
  shows "proc_ok p'" and "res = Some i \<Longrightarrow> p_objs p i = None \<and> (\<exists>m. p_objs p' i = Some m \<and> m_state m = WaitLoginState)"
proof -
  let ?i = "p_next p + 1"
  have new: "p_objs p ?i = None" using assms(1) by (cases "p_objs p ?i") (fastforce simp: proc_ok_def)+
  obtain m c where mc: "miner_new env ?i r ctx port tls (p_cnt p) = (m, c)" by fastforce
  then have m: "m_id m = ?i" "m_state m = WaitLoginState" "c = (p_cnt p)\<lparr>c_connections := c_connections (p_cnt p) + 1\<rparr>"
    by (auto simp: miner_new_def)
  show "proc_ok p'"
  proof (cases acc)
    case True
    then have p': "p' = p\<lparr>p_objs := (p_objs p)(?i \<mapsto> m\<lparr>m_ip := ip\<rparr>), p_cnt := c, p_next := ?i\<rparr>"
      using assms(2) mc by (simp add: server_create_def Let_def)
    have "ready_ids p' = ready_ids p" using new m(2) by (auto simp: p' ready_ids_def)
    moreover have "card (insert ?i (dom (p_objs p))) = Suc (card (dom (p_objs p)))"
      using assms(1) new by (intro card_insert_disjoint) (auto simp: proc_ok_def)
    ultimately show ?thesis
      using assms(1) m by (fastforce simp: proc_ok_def p')
  next
    case False
    then have p': "p' = p\<lparr>p_cnt := miner_delete c, p_next := ?i\<rparr>"
      using assms(2) mc by (simp add: server_create_def Let_def)
    have "ready_ids (q\<lparr>p_cnt := c1, p_next := n\<rparr>) = ready_ids q" for q c1 n by (auto simp: ready_ids_def)
    moreover have "i \<le> p_next p + 1" if "p_objs p i = Some m0" for i m0
      using assms(1) that by (fastforce simp: proc_ok_def)
    ultimately show ?thesis using assms(1) m by (auto simp: proc_ok_def p' miner_delete_def)
  qed
  show "res = Some i \<Longrightarrow> p_objs p i = None \<and> (\<exists>m. p_objs p' i = Some m \<and> m_state m = WaitLoginState)"
    using assms(2) mc new m by (auto simp: server_create_def Let_def split: if_splits)
qed

lemma proc_delete_ok:
  assumes "proc_ok p" and "\<And>m. p_objs p i = Some m \<Longrightarrow> m_state m = ClosingState"
  shows "proc_ok (proc_delete i p)"
proof (cases "p_objs p i")
  case (Some m)
  have r: "ready_ids (proc_delete i p) = ready_ids p"
    using assms(2) Some by (auto simp: ready_ids_def proc_delete_def)
  have f: "finite (dom (p_objs p))" "i \<in> dom (p_objs p)" using assms(1) Some by (auto simp: proc_ok_def)
  have "card (dom (p_objs p)) = Suc (card (dom (p_objs p) - {i}))" using card_Suc_Diff1 [OF f] by simp
  then show ?thesis
    using assms(1) Some r by (auto simp: proc_ok_def proc_delete_def miner_delete_def)
qed (use assms(1) in \<open>simp add: proc_delete_def\<close>)

text \<open>The timer compares the clock of the event loop with an expiry of the wall clock: while the
  loop clock is behind, no miner is ever closed.\<close>

lemma miners_tick_none:
  assumes "\<And>i. i \<in> set ms \<Longrightarrow> \<exists>m. p_objs p i = Some m \<and> e_loop_now env \<le> m_expire m"
  shows "miners_tick env ms p = p"
proof -
  have "List.filter (is_expired env p) ms = []"
    using assms by (fastforce simp: filter_empty_conv is_expired_def)
  moreover have "\<not> (\<exists>i \<in> set ms. p_objs p i = None)" using assms by fastforce
  ultimately show ?thesis unfolding miners_tick_def Let_def by (simp only: if_False fold_simps id_apply)
qed

lemma proc_close_objs:
  "p_objs (proc_close env i p) j =
     (if j = i then map_option (\<lambda>m. fst (shutdown env True (m, p_cnt p))) (p_objs p i) else p_objs p j)"
  by (auto simp: proc_close_def on_miner_def put_miner_def split: option.splits)

lemma fold_close_closing:
  assumes "i \<in> set is" and "p_objs (fold (proc_close env) is p) i = Some m"
  shows "m_state m = ClosingState"
  using assms
proof (induction "is" arbitrary: p)
  case (Cons a xs)
  have dom: "dom (p_objs (fold (proc_close env) xs q)) = dom (p_objs q)" for q
    using fold_close_frame [of q env xs] by (simp add: proc_frame_def)
  show ?case
  proof (cases "i \<in> set xs")
    case True
    then show ?thesis using Cons by simp
  next
    case False
    then have a: "a = i" using Cons.prems by simp
    let ?q = "proc_close env i p"
    have "i \<in> dom (p_objs ?q)" using dom [of ?q] Cons.prems(2) a by auto
    then obtain m0 where m0: "p_objs ?q i = Some m0" by auto
    then have "m_state m0 = ClosingState"
      by (auto simp: proc_close_objs shutdown_closing)
    moreover have "state_next\<^sup>*\<^sup>* (m_state m0) (m_state m)"
      using fold_close_frame [of ?q env xs] m0 Cons.prems(2) a by (auto simp: proc_frame_def)
    ultimately show ?thesis using closing_final by simp
  qed
qed simp

lemma miners_tick_closes:
  assumes "i \<in> set ms" and "p_objs p i = Some m" and "m_expire m < e_loop_now env"
    and "p_objs (miners_tick env ms p) i = Some m'"
  shows "m_state m' = ClosingState"
proof -
  let ?p = "if \<exists>i \<in> set ms. p_objs p i = None then p\<lparr>p_fault := True\<rparr> else p"
  have "is_expired env ?p i" using assms(2,3) by (simp add: is_expired_def)
  then have "i \<in> set (List.filter (is_expired env ?p) ms)" using assms(1) by simp
  from fold_close_closing [OF this] assms(4) show ?thesis by (simp add: miners_tick_def Let_def)
qed

text \<open>The difficulty given to a miner is zero or within the bounds.\<close>

lemma user_diff_ok: "user_diff u = Some d \<Longrightarrow> diff_ok d"
  by (auto simp: user_diff_def diff_ok_def Let_def split: option.splits if_splits)

lemma customDiff_of_ok: "diff_ok (cfg_diff cfg) \<Longrightarrow> diff_ok (m_customDiff m) \<Longrightarrow> diff_ok (m_customDiff (customDiff_of cfg m))"
  by (auto simp: customDiff_of_def Let_def user_diff_ok split: option.splits)

end
