(* ===== verification/NonceStorage.thy ===== *)
theory NonceStorage
  imports Miners
begin

text \<open>
  The fixed bytes of one upstream (\<open>src/proxy/splitters/nicehash/NonceStorage.h\<close>,
  \<open>NonceStorage.cpp\<close>). \<open>ns_used\<close> holds per byte the identifier of its miner, its negation once the
  miner is gone (until the next job), or zero; \<open>ns_miners\<close> is the map from identifiers to miners.
\<close>

record nonce_storage =
  ns_active :: bool
  ns_job :: job
  ns_prevJob :: job
  ns_miners :: "int \<Rightarrow> int option"
  ns_used :: "int list"
  ns_index :: u8

text \<open>\<open>r\<close> is the result of \<open>rand()\<close>.\<close>

definition ns_new :: "nat \<Rightarrow> nonce_storage" where
  "ns_new r = \<lparr>ns_active = False, ns_job = job_default, ns_prevJob = job_default, ns_miners = Map.empty,
     ns_used = replicate 256 0, ns_index = of_nat (r mod 256)\<rparr>"

definition ns_nextIndex :: "nat \<Rightarrow> nonce_storage \<Rightarrow> nat option" where
  "ns_nextIndex start ns =
     (case first_from (\<lambda>i. ns_used ns ! i = 0) (unat (ns_index ns)) (length (ns_used ns)) of
        Some i \<Rightarrow> Some i
      | None \<Rightarrow> first_from (\<lambda>i. ns_used ns ! i = 0) start (unat (ns_index ns)))"

definition ns_isUsed :: "nonce_storage \<Rightarrow> bool" where
  "ns_isUsed ns \<longleftrightarrow> (\<exists>v \<in> set (ns_used ns). v > 0)"

text \<open>The result and the counters (an expired job is counted).\<close>

definition ns_isValidJobId :: "cstr \<Rightarrow> nonce_storage \<Rightarrow> counters \<Rightarrow> bool \<times> counters" where
  "ns_isValidJobId i ns c =
     (if str_isEqual (j_id (ns_job ns)) i then (True, c)
      else if job_isValid (ns_prevJob ns) \<and> str_isEqual (j_id (ns_prevJob ns)) i then (True, counters_expire c)
      else (False, c))"

definition ns_miner :: "int \<Rightarrow> nonce_storage \<Rightarrow> int option" where
  "ns_miner i ns = ns_miners ns i"

definition ns_add :: "env \<Rightarrow> int \<Rightarrow> proc \<Rightarrow> nonce_storage \<Rightarrow> bool \<times> proc \<times> nonce_storage" where
  "ns_add env i p ns =
     (case ns_nextIndex 0 ns of
        None \<Rightarrow> (False, p, ns)
      | Some index \<Rightarrow>
          let p = upd_miner (\<lambda>m. m\<lparr>m_fixedByte := of_nat index\<rparr>) i p;
              ns = ns\<lparr>ns_index := of_nat index, ns_used := (ns_used ns)[index := i],
                      ns_miners := (ns_miners ns)(i \<mapsto> i)\<rparr>
          in if ns_active ns then
               let (job, p) = proc_setJob env i (ns_job ns) (- 1) p in (True, p, ns\<lparr>ns_job := job\<rparr>)
             else (True, p, ns))"

definition ns_remove :: "int \<Rightarrow> proc \<Rightarrow> nonce_storage \<Rightarrow> proc \<times> nonce_storage" where
  "ns_remove i p ns =
     (case p_objs p i of
        None \<Rightarrow> (p\<lparr>p_fault := True\<rparr>, ns)
      | Some m \<Rightarrow>
          (p, ns\<lparr>ns_used := (ns_used ns)[unat (m_fixedByte m) := - i],
                 ns_miners := (ns_miners ns)(i := None)\<rparr>))"

definition ns_reset :: "nonce_storage \<Rightarrow> nonce_storage" where
  "ns_reset ns = ns\<lparr>ns_used := map (\<lambda>_. 0) (ns_used ns)\<rparr>"

text \<open>The loop that sends the job: the job is written by every miner it is sent to.\<close>

fun ns_send :: "env \<Rightarrow> (int \<Rightarrow> int option) \<Rightarrow> int list \<Rightarrow> job \<Rightarrow> proc \<Rightarrow> job \<times> proc" where
  "ns_send env ms [] job p = (job, p)"
| "ns_send env ms (u # us) job p =
     (if u = 0 then ns_send env ms us job p
      else case ms u of
        None \<Rightarrow> ns_send env ms us job p
      | Some i \<Rightarrow> let (job, p) = proc_setJob env i job (- 1) p in ns_send env ms us job p)"

definition ns_setJob :: "env \<Rightarrow> job \<Rightarrow> proc \<Rightarrow> nonce_storage \<Rightarrow> proc \<times> nonce_storage" where
  "ns_setJob env job p ns =
     (let ns = ns\<lparr>ns_used := map (\<lambda>v. if v < 0 then 0 else v) (ns_used ns)\<rparr>;
          ns = (if str_isEqual (j_clientId (ns_job ns)) (j_clientId job)
                then ns\<lparr>ns_prevJob := job_copy (ns_prevJob ns) (ns_job ns)\<rparr>
                else ns\<lparr>ns_prevJob := job_reset (ns_prevJob ns)\<rparr>);
          ns = ns\<lparr>ns_job := job_copy (ns_job ns) job\<rparr>;
          (job, p) = ns_send env (ns_miners ns) (ns_used ns) (ns_job ns) p
      in (p, ns\<lparr>ns_job := job\<rparr>))"

definition ns_setActive :: "bool \<Rightarrow> nonce_storage \<Rightarrow> nonce_storage" where
  "ns_setActive b ns = ns\<lparr>ns_active := b\<rparr>"

text \<open>\<open>printState\<close>: the numbers of available, dead and used bytes.\<close>

definition ns_counts :: "nonce_storage \<Rightarrow> nat \<times> nat \<times> nat" where
  "ns_counts ns =
     (let available = length (List.filter (\<lambda>v. v = 0) (ns_used ns));
          dead = length (List.filter (\<lambda>v. v < 0) (ns_used ns))
      in (available, dead, 256 - available - dead))"

section \<open>The invariant\<close>

text \<open>The positive entries are exactly the miners of the map, each at one byte.\<close>

definition ns_inv :: "nonce_storage \<Rightarrow> bool" where
  "ns_inv ns \<longleftrightarrow> length (ns_used ns) = 256 \<and>
     (\<forall>i k. ns_miners ns i = Some k \<longrightarrow> k = i \<and> 0 < i \<and> (\<exists>b < 256. ns_used ns ! b = i)) \<and>
     (\<forall>b < 256. 0 < ns_used ns ! b \<longrightarrow> ns_miners ns (ns_used ns ! b) = Some (ns_used ns ! b)) \<and>
     (\<forall>b < 256. \<forall>b' < 256. 0 < ns_used ns ! b \<longrightarrow> ns_used ns ! b = ns_used ns ! b' \<longrightarrow> b = b')"

lemma ns_invD:
  assumes "ns_inv ns"
  shows "length (ns_used ns) = 256"
    and "ns_miners ns i = Some k \<Longrightarrow> k = i \<and> 0 < i \<and> (\<exists>b < 256. ns_used ns ! b = i)"
    and "b < 256 \<Longrightarrow> 0 < ns_used ns ! b \<Longrightarrow> ns_miners ns (ns_used ns ! b) = Some (ns_used ns ! b)"
    and "b < 256 \<Longrightarrow> b' < 256 \<Longrightarrow> 0 < ns_used ns ! b \<Longrightarrow> ns_used ns ! b = ns_used ns ! b' \<Longrightarrow> b = b'"
  using assms unfolding ns_inv_def by blast+

lemma ns_invI:
  assumes "length (ns_used ns) = 256"
    and "\<And>i k. ns_miners ns i = Some k \<Longrightarrow> k = i \<and> 0 < i \<and> (\<exists>b < 256. ns_used ns ! b = i)"
    and "\<And>b. b < 256 \<Longrightarrow> 0 < ns_used ns ! b \<Longrightarrow> ns_miners ns (ns_used ns ! b) = Some (ns_used ns ! b)"
    and "\<And>b b'. b < 256 \<Longrightarrow> b' < 256 \<Longrightarrow> 0 < ns_used ns ! b \<Longrightarrow> ns_used ns ! b = ns_used ns ! b' \<Longrightarrow> b = b'"
  shows "ns_inv ns"
  unfolding ns_inv_def using assms by blast

text \<open>The fixed byte of each miner of the map is the byte that holds it.\<close>

definition ns_bytes :: "proc \<Rightarrow> nonce_storage \<Rightarrow> bool" where
  "ns_bytes p ns \<longleftrightarrow> (\<forall>i m. ns_miners ns i \<noteq> None \<longrightarrow> p_objs p i = Some m \<longrightarrow>
     ns_used ns ! unat (m_fixedByte m) = i)"

lemma ns_inv_new: "ns_inv (ns_new r)"
  by (simp add: ns_inv_def ns_new_def)

lemma u8_index: "unat (of_nat n :: u8) = n mod 256"
  by (simp add: unsigned_of_nat take_bit_eq_mod)

lemma unat_u8_less [simp]: "unat (w :: u8) < 256"
  using unsigned_less [of w] by simp

text \<open>A free byte is found exactly when there is one.\<close>

lemma ns_nextIndex_Some:
  assumes "ns_nextIndex 0 ns = Some b" and "length (ns_used ns) = 256"
  shows "b < 256 \<and> ns_used ns ! b = 0"
proof -
  consider (up) "first_from (\<lambda>i. ns_used ns ! i = 0) (unat (ns_index ns)) 256 = Some b"
    | (down) "first_from (\<lambda>i. ns_used ns ! i = 0) 0 (unat (ns_index ns)) = Some b"
    using assms by (auto simp: ns_nextIndex_def split: option.splits)
  then show ?thesis
  proof cases
    case up
    from first_from_Some [OF up] show ?thesis by simp
  next
    case down
    from first_from_Some [OF down] show ?thesis using unat_u8_less [of "ns_index ns"] by linarith
  qed
qed

lemma ns_nextIndex_None:
  assumes "length (ns_used ns) = 256"
  shows "ns_nextIndex 0 ns = None \<longleftrightarrow> (\<forall>b < 256. ns_used ns ! b \<noteq> 0)"
proof -
  let ?free = "\<lambda>i. ns_used ns ! i = 0" and ?n = "unat (ns_index ns)"
  have "ns_nextIndex 0 ns = None \<longleftrightarrow> first_from ?free ?n 256 = None \<and> first_from ?free 0 ?n = None"
    using assms by (simp add: ns_nextIndex_def split: option.splits)
  also have "\<dots> \<longleftrightarrow> (\<forall>b < 256. ns_used ns ! b \<noteq> 0)"
  proof
    assume a: "first_from ?free ?n 256 = None \<and> first_from ?free 0 ?n = None"
    show "\<forall>b < 256. ns_used ns ! b \<noteq> 0"
    proof (intro allI impI)
      fix b :: nat
      assume "b < 256"
      then show "ns_used ns ! b \<noteq> 0" using a by (cases "?n \<le> b") (auto simp: first_from_None_iff)
    qed
  next
    assume "\<forall>b < 256. ns_used ns ! b \<noteq> 0"
    then show "first_from ?free ?n 256 = None \<and> first_from ?free 0 ?n = None"
      using less_trans [OF _ unat_u8_less [of "ns_index ns"]] by (auto simp: first_from_None_iff)
  qed
  finally show ?thesis .
qed

lemma ns_used_update:
  "length us = 256 \<Longrightarrow> b < 256 \<Longrightarrow> us[b := v] ! k = (if k = b then v else us ! k)"
  by (auto simp: nth_list_update)

lemma ns_bytes_same:
  assumes "ns_bytes p ns" and "proc_same miner_view p p'"
  shows "ns_bytes p' ns"
  unfolding ns_bytes_def
proof (intro allI impI)
  fix i m'
  assume a: "ns_miners ns i \<noteq> None" "p_objs p' i = Some m'"
  then obtain m where "p_objs p i = Some m" "miner_view m' = miner_view m"
    using assms(2) unfolding proc_same_def by (metis map_option_eq_Some)
  then show "ns_used ns ! unat (m_fixedByte m') = i"
    using assms(1) a by (simp add: ns_bytes_def miner_view_def)
qed

lemma ns_send_frame: "proc_frame p (snd (ns_send env ms us job p)) \<and> proc_same miner_view p (snd (ns_send env ms us job p))"
proof (induction us arbitrary: job p)
  case (Cons u us)
  show ?case
  proof (cases "u = 0 \<or> ms u = None")
    case False
    then obtain i where i: "ms u = Some i" "u \<noteq> 0" by auto
    obtain job1 p1 where s: "proc_setJob env i job (- 1) p = (job1, p1)" by fastforce
    have "proc_frame p p1" "proc_same miner_view p p1"
      using proc_setJob_frame [of p env i job "- 1"] proc_setJob_same [of p env i job "- 1"] s by simp_all
    then show ?thesis
      using Cons.IH [of p1 job1] i s proc_frame_trans proc_same_trans by (auto simp: Let_def)
  qed (use Cons in auto)
qed simp

lemma ns_setJob_frame:
  "proc_frame p (fst (ns_setJob env job p ns)) \<and> proc_same miner_view p (fst (ns_setJob env job p ns))"
  using ns_send_frame by (simp add: ns_setJob_def Let_def case_prod_beta)

lemma ns_setJob_fields:
  "ns_used (snd (ns_setJob env job p ns)) = map (\<lambda>v. if v < 0 then 0 else v) (ns_used ns)"
  "ns_miners (snd (ns_setJob env job p ns)) = ns_miners ns"
  "ns_active (snd (ns_setJob env job p ns)) = ns_active ns"
  by (simp_all add: ns_setJob_def Let_def case_prod_beta)

text \<open>The invariant reads the positive entries only.\<close>

lemma ns_inv_cong:
  assumes inv: "ns_inv ns" and m: "ns_miners ns' = ns_miners ns" and l: "length (ns_used ns') = 256"
    and u: "\<And>b i. b < 256 \<Longrightarrow> 0 < i \<Longrightarrow> ns_used ns' ! b = i \<longleftrightarrow> ns_used ns ! b = i"
  shows "ns_inv ns'"
proof (rule ns_invI [OF l])
  fix i k
  assume "ns_miners ns' i = Some k"
  then have "ns_miners ns i = Some k" using m by simp
  from ns_invD(2) [OF inv this] show "k = i \<and> 0 < i \<and> (\<exists>b < 256. ns_used ns' ! b = i)"
    using u by auto
next
  fix b :: nat
  assume b: "b < 256" "0 < ns_used ns' ! b"
  then have "ns_used ns ! b = ns_used ns' ! b" using u by blast
  then show "ns_miners ns' (ns_used ns' ! b) = Some (ns_used ns' ! b)"
    using ns_invD(3) [OF inv b(1)] b(2) m by simp
next
  fix b b' :: nat
  assume b: "b < 256" "b' < 256" "0 < ns_used ns' ! b" "ns_used ns' ! b = ns_used ns' ! b'"
  then have "ns_used ns ! b = ns_used ns' ! b" "ns_used ns ! b' = ns_used ns' ! b"
    using u [of b "ns_used ns' ! b"] u [of b' "ns_used ns' ! b"] by simp_all
  then show "b = b'" using ns_invD(4) [OF inv b(1,2)] b(3) by simp
qed

lemma ns_setJob_inv:
  assumes "ns_inv ns"
  shows "ns_inv (snd (ns_setJob env job p ns))"
  by (rule ns_inv_cong [OF assms]) (use ns_invD(1) [OF assms] in \<open>auto simp: ns_setJob_fields\<close>)

lemma ns_setJob_bytes:
  assumes "ns_inv ns" and "ns_bytes p ns"
  shows "ns_bytes (fst (ns_setJob env job p ns)) (snd (ns_setJob env job p ns))"
proof -
  let ?p = "fst (ns_setJob env job p ns)"
  have "ns_bytes ?p ns" using ns_bytes_same [OF assms(2)] ns_setJob_frame by blast
  moreover have "0 < i" if "ns_miners ns i \<noteq> None" for i using ns_invD(2) [OF assms(1)] that by auto
  moreover have "length (ns_used ns) = 256" by (rule ns_invD(1) [OF assms(1)])
  ultimately show ?thesis by (fastforce simp: ns_bytes_def ns_setJob_fields)
qed

section \<open>Adding and removing\<close>

lemma ns_add_fields:
  assumes "ns_add env i p ns = (True, p', ns')"
  obtains b where "ns_nextIndex 0 ns = Some b" and "ns_used ns' = (ns_used ns)[b := i]"
    and "ns_miners ns' = (ns_miners ns)(i \<mapsto> i)" and "ns_active ns' = ns_active ns"
    and "proc_same miner_view (upd_miner (\<lambda>m. m\<lparr>m_fixedByte := of_nat b\<rparr>) i p) p'" and "proc_frame p p'"
proof -
  obtain b where b: "ns_nextIndex 0 ns = Some b" using assms by (auto simp: ns_add_def split: option.splits)
  let ?p = "upd_miner (\<lambda>m. m\<lparr>m_fixedByte := of_nat b\<rparr>) i p"
  have f: "proc_frame p ?p" by (rule upd_miner_frame) simp_all
  show thesis
  proof (rule that [OF b])
    show "ns_used ns' = (ns_used ns)[b := i]" "ns_miners ns' = (ns_miners ns)(i \<mapsto> i)" "ns_active ns' = ns_active ns"
      using assms b by (auto simp: ns_add_def Let_def split: if_splits prod.splits)
    obtain j1 p1 where j: "proc_setJob env i (ns_job ns) (- 1) ?p = (j1, p1)" by fastforce
    have k: "p' = (if ns_active ns then p1 else ?p)"
      using assms b j by (auto simp: ns_add_def Let_def split: if_splits)
    then show "proc_same miner_view ?p p'" "proc_frame p p'"
      using f proc_setJob_same [of ?p env i "ns_job ns" "- 1"] proc_setJob_frame [of ?p env i "ns_job ns" "- 1"] j
        proc_frame_trans by auto
  qed
qed

lemma ns_add_False: "ns_add env i p ns = (False, p', ns') \<Longrightarrow> p' = p \<and> ns' = ns \<and> ns_nextIndex 0 ns = None"
  by (auto simp: ns_add_def Let_def split: option.splits if_splits prod.splits)

lemma ns_add_inv:
  assumes inv: "ns_inv ns" and add: "ns_add env i p ns = (True, p', ns')" and i: "0 < i" and new: "ns_miners ns i = None"
  shows "ns_inv ns'"
proof -
  obtain b where b: "ns_nextIndex 0 ns = Some b" "ns_used ns' = (ns_used ns)[b := i]"
    "ns_miners ns' = (ns_miners ns)(i \<mapsto> i)"
    using ns_add_fields [OF add] by metis
  note l = ns_invD(1) [OF inv]
  have free: "b < 256" "ns_used ns ! b = 0" using ns_nextIndex_Some [OF b(1) l] by simp_all
  have notin: "ns_used ns ! k \<noteq> i" if "k < 256" for k
    using ns_invD(3) [OF inv that] i new by auto
  have u: "ns_used ns' ! k = (if k = b then i else ns_used ns ! k)" for k
    unfolding b(2) by (rule ns_used_update [OF l free(1)])
  show ?thesis
  proof (rule ns_invI)
    show "length (ns_used ns') = 256" using l b(2) by simp
  next
    fix j k
    assume a: "ns_miners ns' j = Some k"
    show "k = j \<and> 0 < j \<and> (\<exists>b' < 256. ns_used ns' ! b' = j)"
    proof (cases "j = i")
      case True
      then show ?thesis using a b(3) i free(1) u by auto
    next
      case False
      then have "ns_miners ns j = Some k" using a b(3) by simp
      from ns_invD(2) [OF inv this] obtain b' where "k = j" "0 < j" "b' < 256" "ns_used ns ! b' = j" by blast
      moreover from this have "b' \<noteq> b" using free(2) by auto
      ultimately show ?thesis using u by auto
    qed
  next
    fix k :: nat
    assume "k < 256" "0 < ns_used ns' ! k"
    then show "ns_miners ns' (ns_used ns' ! k) = Some (ns_used ns' ! k)"
      using ns_invD(3) [OF inv] u b(3) by auto
  next
    fix k k' :: nat
    assume "k < 256" "k' < 256" "0 < ns_used ns' ! k" "ns_used ns' ! k = ns_used ns' ! k'"
    then show "k = k'" using ns_invD(4) [OF inv, of k k'] u notin by (auto split: if_splits)
  qed
qed

lemma ns_add_bytes:
  assumes inv: "ns_inv ns" and byt: "ns_bytes p ns" and add: "ns_add env i p ns = (True, p', ns')"
    and i: "0 < i" and new: "ns_miners ns i = None"
  shows "ns_bytes p' ns'"
proof -
  obtain b where b: "ns_nextIndex 0 ns = Some b" "ns_used ns' = (ns_used ns)[b := i]"
    "ns_miners ns' = (ns_miners ns)(i \<mapsto> i)"
    "proc_same miner_view (upd_miner (\<lambda>m. m\<lparr>m_fixedByte := of_nat b\<rparr>) i p) p'"
    using ns_add_fields [OF add] by metis
  let ?p = "upd_miner (\<lambda>m. m\<lparr>m_fixedByte := of_nat b\<rparr>) i p"
  note l = ns_invD(1) [OF inv]
  have free: "b < 256" "ns_used ns ! b = 0" using ns_nextIndex_Some [OF b(1) l] by simp_all
  have u: "ns_used ns' ! k = (if k = b then i else ns_used ns ! k)" for k
    unfolding b(2) by (rule ns_used_update [OF l free(1)])
  have "ns_bytes ?p ns'"
    unfolding ns_bytes_def
  proof (intro allI impI)
    fix j m
    assume a: "ns_miners ns' j \<noteq> None" "p_objs ?p j = Some m"
    show "ns_used ns' ! unat (m_fixedByte m) = j"
    proof (cases "j = i")
      case True
      then have "m_fixedByte m = of_nat b"
        using a(2) by (auto simp: upd_miner_def on_miner_def put_miner_def split: option.splits)
      then show ?thesis using free(1) True u by (simp add: u8_index)
    next
      case False
      then have o: "p_objs p j = Some m" and mj: "ns_miners ns j \<noteq> None"
        using a b(3) by (auto simp: upd_miner_def on_miner_def put_miner_def split: option.splits)
      then have "ns_used ns ! unat (m_fixedByte m) = j" using byt by (simp add: ns_bytes_def)
      moreover have "0 < j" using ns_invD(2) [OF inv] mj by auto
      ultimately show ?thesis using u free(2) by auto
    qed
  qed
  then show ?thesis using ns_bytes_same b(4) by blast
qed

lemma ns_remove_inv:
  assumes inv: "ns_inv ns" and byt: "ns_bytes p ns" and m: "p_objs p i = Some m" and mem: "ns_miners ns i \<noteq> None"
    and rem: "ns_remove i p ns = (p', ns')"
  shows "p' = p" "ns_inv ns'" "ns_bytes p ns'" "ns_used ns' = (ns_used ns)[unat (m_fixedByte m) := - i]"
    "ns_miners ns' = (ns_miners ns)(i := None)"
proof -
  let ?b = "unat (m_fixedByte m)"
  show p': "p' = p" and us: "ns_used ns' = (ns_used ns)[?b := - i]" and ms: "ns_miners ns' = (ns_miners ns)(i := None)"
    using rem m by (auto simp: ns_remove_def)
  note l = ns_invD(1) [OF inv]
  have b: "?b < 256" "ns_used ns ! ?b = i" using byt m mem by (simp_all add: ns_bytes_def)
  have i: "0 < i" using ns_invD(2) [OF inv] mem by auto
  have u: "ns_used ns' ! k = (if k = ?b then - i else ns_used ns ! k)" for k
    unfolding us by (rule ns_used_update [OF l b(1)])
  show "ns_inv ns'"
  proof (rule ns_invI)
    show "length (ns_used ns') = 256" using l us by simp
  next
    fix j k
    assume "ns_miners ns' j = Some k"
    then have "j \<noteq> i" "ns_miners ns j = Some k" using ms by (auto split: if_splits)
    with ns_invD(2) [OF inv, of j k] obtain b' where "k = j" "0 < j" "b' < 256" "ns_used ns ! b' = j" by blast
    moreover from this have "b' \<noteq> ?b" using b(2) \<open>j \<noteq> i\<close> by auto
    ultimately show "k = j \<and> 0 < j \<and> (\<exists>b < 256. ns_used ns' ! b = j)" using u by auto
  next
    fix k :: nat
    assume k: "k < 256" "0 < ns_used ns' ! k"
    then have "k \<noteq> ?b" "ns_used ns' ! k = ns_used ns ! k" using u i by (auto split: if_splits)
    moreover from this have "ns_used ns ! k \<noteq> i" using ns_invD(4) [OF inv k(1) b(1)] b(2) i by auto
    ultimately show "ns_miners ns' (ns_used ns' ! k) = Some (ns_used ns' ! k)"
      using ns_invD(3) [OF inv k(1)] k(2) ms by simp
  next
    fix k k' :: nat
    assume "k < 256" "k' < 256" "0 < ns_used ns' ! k" "ns_used ns' ! k = ns_used ns' ! k'"
    then show "k = k'" using ns_invD(4) [OF inv, of k k'] u i by (auto split: if_splits)
  qed
  show "ns_bytes p ns'"
    unfolding ns_bytes_def
  proof (intro allI impI)
    fix j m'
    assume a: "ns_miners ns' j \<noteq> None" "p_objs p j = Some m'"
    then have "j \<noteq> i" "ns_miners ns j \<noteq> None" using ms by (auto split: if_splits)
    then have "ns_used ns ! unat (m_fixedByte m') = j" using byt a(2) by (simp add: ns_bytes_def)
    then show "ns_used ns' ! unat (m_fixedByte m') = j" using u b(2) \<open>j \<noteq> i\<close> by auto
  qed
qed

lemma ns_reset_inv: "ns_inv ns \<Longrightarrow> ns_miners ns = Map.empty \<Longrightarrow> ns_inv (ns_reset ns)"
  by (rule ns_invI) (auto simp: ns_reset_def dest: ns_invD(1))

lemma ns_isUsed_iff: "ns_inv ns \<Longrightarrow> ns_isUsed ns \<longleftrightarrow> ns_miners ns \<noteq> Map.empty"
proof
  assume inv: "ns_inv ns" and "ns_isUsed ns"
  then obtain b where "b < 256" "0 < ns_used ns ! b"
    using ns_invD(1) [OF inv] by (auto simp: ns_isUsed_def in_set_conv_nth)
  then show "ns_miners ns \<noteq> Map.empty" using ns_invD(3) [OF inv] by auto
next
  assume inv: "ns_inv ns" and "ns_miners ns \<noteq> Map.empty"
  then obtain i k where "ns_miners ns i = Some k" by (metis option.exhaust)
  with ns_invD(2) [OF inv] obtain b where "b < 256" "ns_used ns ! b = i" "0 < i" by blast
  then show "ns_isUsed ns" using ns_invD(1) [OF inv] by (auto simp: ns_isUsed_def in_set_conv_nth intro!: bexI [of _ i])
qed

text \<open>Two miners of one storage have different fixed bytes.\<close>

lemma ns_bytes_distinct:
  assumes "ns_bytes p ns" and "ns_miners ns i \<noteq> None" and "ns_miners ns j \<noteq> None"
    and "p_objs p i = Some m" and "p_objs p j = Some m'" and "m_fixedByte m = m_fixedByte m'"
  shows "i = j"
proof -
  have "ns_used ns ! unat (m_fixedByte m) = i" "ns_used ns ! unat (m_fixedByte m') = j"
    using assms(1-5) by (simp_all add: ns_bytes_def)
  then show ?thesis using assms(6) by simp
qed

end
