(* ===== verification/Mapper.thy ===== *)
theory Mapper
  imports NonceStorage
begin

text \<open>
  What every upstream of a splitter shares: the strategies behind it, as handles whose calls are
  logged in order, the table of submitted shares (\<open>SubmitCtx\<close> in
  \<open>src/proxy/splitters/nicehash/NonceMapper.h\<close>), and the donation strategy
  (\<open>src/net/strategies/DonateStrategy.h\<close>, \<open>DonateStrategy.cpp\<close>). The sequence number a strategy
  returns from \<open>submit\<close> and the results it reports are inputs.
\<close>

section \<open>Strategies\<close>

type_synonym strategy = nat

datatype strategy_call =
    SCreate strategy
  | SConnect strategy
  | SStop strategy
  | STick strategy u64
  | SSubmit strategy job_result
  | SDelete strategy

text \<open>The calls on the client of the donation strategy.\<close>

datatype client_call =
    CConnect
  | CDisconnect
  | CTick u64
  | CSetAlgo algo_id
  | CSubmit job_result

section \<open>SubmitCtx\<close>

record submit_ctx =
  sc_id :: int
  sc_minerId :: int
  sc_miner :: "int option"

definition ctx_empty :: submit_ctx where
  "ctx_empty = \<lparr>sc_id = 0, sc_minerId = 0, sc_miner = None\<rparr>"

definition ctx_new :: "int \<Rightarrow> int \<Rightarrow> submit_ctx" where
  "ctx_new i minerId = \<lparr>sc_id = i, sc_minerId = minerId, sc_miner = None\<rparr>"

type_synonym results = "int \<Rightarrow> submit_ctx option"

text \<open>\<open>submitCtx(seq)\<close>: the entry with its miner looked up, and the table without it.\<close>

definition take_ctx :: "(int \<Rightarrow> int option) \<Rightarrow> int \<Rightarrow> results \<Rightarrow> submit_ctx \<times> results" where
  "take_ctx miner seq rs =
     (case rs seq of
        None \<Rightarrow> (ctx_empty, rs)
      | Some ctx \<Rightarrow> (ctx\<lparr>sc_miner := miner (sc_minerId ctx)\<rparr>, rs(seq := None)))"

lemma take_ctx_other: "take_ctx miner seq rs = (ctx, rs') \<Longrightarrow> k \<noteq> seq \<Longrightarrow> rs' k = rs k"
  by (auto simp: take_ctx_def split: option.splits)

lemma take_ctx_gone: "take_ctx miner seq rs = (ctx, rs') \<Longrightarrow> rs' seq = None"
  by (auto simp: take_ctx_def split: option.splits)

section \<open>DonateStrategy\<close>

record donate =
  ds_active :: bool
  ds_pendingJob :: job
  ds_pendingHost :: cstr
  ds_pendingPort :: u16
  ds_donateTicks :: u64
  ds_target :: u64
  ds_ticks :: u64
  ds_calls :: "client_call list"

text \<open>\<open>r\<close> is the random number in \<open>[0.5, 1.5]\<close>; the pool of the client is fixed by the build.\<close>

definition ds_new :: "nat \<Rightarrow> rat \<Rightarrow> donate" where
  "ds_new donateLevel r =
     \<lparr>ds_active = False, ds_pendingJob = job_default, ds_pendingHost = None, ds_pendingPort = 0,
      ds_donateTicks = 0, ds_target = of_int \<lfloor>of_int ((100 - int donateLevel) * 60) * r\<rfloor>, ds_ticks = 0,
      ds_calls = []\<rparr>"

definition ds_call :: "client_call \<Rightarrow> donate \<Rightarrow> donate" where
  "ds_call c d = d\<lparr>ds_calls := ds_calls d @ [c]\<rparr>"

definition ds_hasPendingJob :: "donate \<Rightarrow> bool" where
  "ds_hasPendingJob d \<longleftrightarrow> job_isValid (ds_pendingJob d)"

definition ds_stop :: "donate \<Rightarrow> donate" where
  "ds_stop d = ds_call CDisconnect (d\<lparr>ds_donateTicks := 0\<rparr>)"

definition ds_connect :: "donate \<Rightarrow> donate" where
  "ds_connect d = d"

text \<open>The sum is formed in \<open>double\<close> and cut to 64 bits.\<close>

definition ds_reschedule :: "nat \<Rightarrow> donate \<Rightarrow> bool \<times> donate" where
  "ds_reschedule donateLevel d =
     (let level = donateLevel * 60 in
      if unat (ds_donateTicks d) < level then (False, d)
      else
        let target = of_nat (unat (ds_ticks d)) +
              of_nat (unat (6000 - of_nat level :: u64)) * (of_nat (unat (ds_donateTicks d)) / of_nat level) :: rat
        in (True, ds_stop (d\<lparr>ds_target := of_int \<lfloor>target\<rfloor>, ds_active := False\<rparr>)))"

definition ds_save :: "cstr \<Rightarrow> u16 \<Rightarrow> job \<Rightarrow> donate \<Rightarrow> donate" where
  "ds_save host port job d =
     d\<lparr>ds_pendingJob := job_copy (ds_pendingJob d) job, ds_pendingHost := host, ds_pendingPort := port\<rparr>"

definition ds_setAlgo :: "algo_id \<Rightarrow> donate \<Rightarrow> donate" where
  "ds_setAlgo a d = ds_call (CSetAlgo a) d"

definition ds_submit :: "job_result \<Rightarrow> donate \<Rightarrow> donate" where
  "ds_submit r d = ds_call (CSubmit r) d"

definition ds_tick :: "u64 \<Rightarrow> donate \<Rightarrow> donate" where
  "ds_tick now d =
     (let d = ds_call (CTick now) d;
          d = d\<lparr>ds_ticks := ds_ticks d + 1\<rparr>;
          d = (if ds_ticks d = ds_target d
               then ds_call CConnect (d\<lparr>ds_pendingJob := job_reset (ds_pendingJob d)\<rparr>) else d)
      in if ds_active d then d\<lparr>ds_donateTicks := ds_donateTicks d + 1\<rparr> else d)"

text \<open>\<open>onClose\<close> tells the listener to pause exactly when the strategy was active; \<open>onJobReceived\<close>
  tells it of the activation first.\<close>

definition ds_onClose :: "donate \<Rightarrow> bool \<times> donate" where
  "ds_onClose d = (if \<not> ds_active d then (False, d) else (True, d\<lparr>ds_active := False\<rparr>))"

definition ds_onJobReceived :: "donate \<Rightarrow> bool \<times> donate" where
  "ds_onJobReceived d = (\<not> ds_active d, d\<lparr>ds_active := True\<rparr>)"

text \<open>A donation lasts until the level is reached, and rescheduling ends it.\<close>

lemma ds_reschedule_ends:
  "ds_reschedule l d = (True, d') \<Longrightarrow> \<not> ds_active d' \<and> ds_donateTicks d' = 0 \<and> l * 60 \<le> unat (ds_donateTicks d)"
  by (auto simp: ds_reschedule_def Let_def ds_stop_def ds_call_def split: if_splits)

lemma ds_reschedule_early: "unat (ds_donateTicks d) < l * 60 \<Longrightarrow> ds_reschedule l d = (False, d)"
  by (simp add: ds_reschedule_def)

lemma ds_tick_active: "ds_active (ds_tick now d) = ds_active d"
  by (simp add: ds_tick_def Let_def ds_call_def)

section \<open>Placed miners\<close>

text \<open>A miner that is not routed to a client of its own and has the number of an upstream.\<close>

definition placed_miner :: "miner option \<Rightarrow> bool" where
  "placed_miner m = (case m of None \<Rightarrow> False | Some m \<Rightarrow> m_routeId m = - 1 \<and> 0 \<le> m_mapperId m)"

section \<open>The job of an upstream\<close>

text \<open>What the three kinds of upstream share: the previous job is kept while the jobs come from one
  client, a share names one of the two jobs, and the checks of a share have one order. The counters
  count a share of the previous job.\<close>

definition next_prevJob :: "job \<Rightarrow> job \<Rightarrow> job \<Rightarrow> job" where
  "next_prevJob prev old new =
     (if str_isEqual (j_clientId old) (j_clientId new) then job_copy prev old else job_reset prev)"

definition known_job :: "job \<Rightarrow> job \<Rightarrow> cstr \<Rightarrow> counters \<Rightarrow> bool \<times> counters" where
  "known_job job prev i c =
     (if str_isEqual (j_id job) i then (True, c)
      else if job_isValid prev \<and> str_isEqual (j_id prev) i then (True, counters_expire c)
      else (False, c))"

definition share_verdict :: "bool \<Rightarrow> job \<Rightarrow> job \<Rightarrow> job_result \<Rightarrow> counters \<Rightarrow> error_code \<times> counters" where
  "share_verdict active job prev req c =
     (if \<not> active then (BadGateway, c)
      else
        let (ok, c) = known_job job prev (jr_jobId req) c in
        if \<not> ok then (InvalidJobId, c)
        else if algo_isValid (jr_algorithm req) \<and> jr_algorithm req \<noteq> j_algorithm job then (IncorrectAlgorithm, c)
        else (NoError, c))"

text \<open>A share passes exactly when the upstream is active, the share names one of the two jobs, and
  its algorithm, if it has one, is that of the current job.\<close>

lemma share_verdict_ok:
  "fst (share_verdict active job prev req c) = NoError \<longleftrightarrow>
     active \<and> (str_isEqual (j_id job) (jr_jobId req) \<or> job_isValid prev \<and> str_isEqual (j_id prev) (jr_jobId req)) \<and>
     (algo_isValid (jr_algorithm req) \<longrightarrow> jr_algorithm req = j_algorithm job)"
  by (auto simp: share_verdict_def known_job_def Let_def)

lemma known_job_counts: "c_miners (snd (known_job job prev i c)) = c_miners c"
  "c_connections (snd (known_job job prev i c)) = c_connections c"
  by (simp_all add: known_job_def counters_expire_def)

lemma share_verdict_counts: "c_miners (snd (share_verdict a job prev req c)) = c_miners c"
  "c_connections (snd (share_verdict a job prev req c)) = c_connections c"
  using known_job_counts by (auto simp: share_verdict_def Let_def case_prod_beta)

end
