(* ===== verification/NonceMapper.thy ===== *)
theory NonceMapper
  imports Mapper
begin

text \<open>
  One upstream of the nicehash splitter (\<open>src/proxy/splitters/nicehash/NonceMapper.h\<close>,
  \<open>NonceMapper.cpp\<close>): a strategy, its fixed bytes, the shares in flight.
\<close>

record nonce_mapper =
  nm_id :: nat
  nm_donate :: "donate option"
  nm_suspended :: nat
  nm_pending :: "strategy option"
  nm_strategy :: strategy
  nm_storage :: nonce_storage
  nm_results :: results
  nm_calls :: "strategy_call list"

definition nm_call :: "strategy_call \<Rightarrow> nonce_mapper \<Rightarrow> nonce_mapper" where
  "nm_call c nm = nm\<lparr>nm_calls := nm_calls nm @ [c]\<rparr>"

text \<open>\<open>h\<close> is the strategy the configured pools create, \<open>r\<close> and \<open>dr\<close> are random numbers.\<close>

definition nm_new :: "config \<Rightarrow> strategy \<Rightarrow> nat \<Rightarrow> rat \<Rightarrow> nat \<Rightarrow> nonce_mapper" where
  "nm_new cfg h r dr i =
     \<lparr>nm_id = i, nm_donate = (if cfg_donateLevel cfg > 0 then Some (ds_new (cfg_donateLevel cfg) dr) else None),
      nm_suspended = 0, nm_pending = None, nm_strategy = h, nm_storage = ns_new r, nm_results = Map.empty,
      nm_calls = [SCreate h]\<rparr>"

definition nm_isSuspended :: "nonce_mapper \<Rightarrow> bool" where
  "nm_isSuspended nm \<longleftrightarrow> nm_suspended nm > 0"

definition nm_isActive :: "nonce_mapper \<Rightarrow> bool" where
  "nm_isActive nm \<longleftrightarrow> ns_active (nm_storage nm) \<and> \<not> nm_isSuspended nm"

definition nm_connect :: "nonce_mapper \<Rightarrow> nonce_mapper" where
  "nm_connect nm =
     (let nm = nm_call (SConnect (nm_strategy nm)) (nm\<lparr>nm_suspended := 0\<rparr>)
      in nm\<lparr>nm_donate := map_option ds_connect (nm_donate nm)\<rparr>)"

definition nm_start :: "nonce_mapper \<Rightarrow> nonce_mapper" where
  "nm_start nm = nm_connect nm"

definition nm_suspend :: "nonce_mapper \<Rightarrow> nonce_mapper" where
  "nm_suspend nm =
     (let nm = nm\<lparr>nm_suspended := 1, nm_storage := ns_reset (ns_setActive False (nm_storage nm))\<rparr>;
          nm = nm_call (SStop (nm_strategy nm)) nm
      in nm\<lparr>nm_donate := map_option ds_stop (nm_donate nm)\<rparr>)"

text \<open>The extensions a miner gets in this mode.\<close>

definition nicehash_ext :: "config \<Rightarrow> miner \<Rightarrow> miner" where
  "nicehash_ext cfg m =
     (if m_ext_nicehash m then m else m\<lparr>m_ext_algo := hasAlgoExt cfg, m_ext_nicehash := True\<rparr>)"

definition nm_add :: "env \<Rightarrow> config \<Rightarrow> int \<Rightarrow> proc \<Rightarrow> nonce_mapper \<Rightarrow> bool \<times> proc \<times> nonce_mapper" where
  "nm_add env cfg i p nm =
     (let p = upd_miner (nicehash_ext cfg) i p;
          (ok, p, ns) = ns_add env i p (nm_storage nm);
          nm = nm\<lparr>nm_storage := ns\<rparr>
      in if \<not> ok then (False, p, nm)
         else
           let nm = (if nm_isSuspended nm then nm_connect nm else nm)
           in (True, upd_miner (\<lambda>m. m\<lparr>m_mapperId := int (nm_id nm)\<rparr>) i p, nm))"

definition nm_gc :: "nonce_mapper \<Rightarrow> nonce_mapper" where
  "nm_gc nm =
     (if nm_isSuspended nm then nm\<lparr>nm_suspended := nm_suspended nm + 1\<rparr>
      else if nm_id nm = 0 \<or> ns_isUsed (nm_storage nm) then nm
      else nm_suspend nm)"

definition nm_reload :: "strategy \<Rightarrow> nonce_mapper \<Rightarrow> nonce_mapper" where
  "nm_reload h nm =
     (let nm = (case nm_pending nm of Some s \<Rightarrow> nm_call (SDelete s) nm | None \<Rightarrow> nm);
          nm = nm_call (SCreate h) (nm\<lparr>nm_pending := Some h\<rparr>)
      in nm_call (SConnect h) nm)"

definition nm_remove :: "int \<Rightarrow> proc \<Rightarrow> nonce_mapper \<Rightarrow> proc \<times> nonce_mapper" where
  "nm_remove i p nm = (let (p, ns) = ns_remove i p (nm_storage nm) in (p, nm\<lparr>nm_storage := ns\<rparr>))"

text \<open>The checks of a share, in their order; the counters count an expired one.\<close>

definition nm_check :: "submit_event \<Rightarrow> counters \<Rightarrow> nonce_mapper \<Rightarrow> error_code \<times> counters" where
  "nm_check ev c nm =
     (let req = se_request ev; ns = nm_storage nm in
      if \<not> ns_active ns then (BadGateway, c)
      else
        let (ok, c) = ns_isValidJobId (jr_jobId req) ns c in
        if \<not> ok then (InvalidJobId, c)
        else if algo_isValid (jr_algorithm req) \<and> jr_algorithm req \<noteq> j_algorithm (ns_job ns)
        then (IncorrectAlgorithm, c)
        else (NoError, c))"

text \<open>\<open>seq\<close> is what the strategy's \<open>submit\<close> returns.\<close>

definition nm_submit :: "int \<Rightarrow> submit_event \<Rightarrow> proc \<Rightarrow> nonce_mapper \<Rightarrow> submit_event \<times> proc \<times> nonce_mapper" where
  "nm_submit seq ev p nm =
     (let (err, c) = nm_check ev (p_cnt p) nm; p = p\<lparr>p_cnt := c\<rparr> in
      if err \<noteq> NoError then (ev\<lparr>se_error := err\<rparr>, p, nm)
      else
        let req = (se_request ev)\<lparr>jr_diff := j_diff (ns_job (nm_storage nm))\<rparr>;
            nm = (case nm_donate nm of
                    Some d \<Rightarrow> if ds_active d then nm\<lparr>nm_donate := Some (ds_submit req d)\<rparr>
                              else nm_call (SSubmit (nm_strategy nm) req) nm
                  | None \<Rightarrow> nm_call (SSubmit (nm_strategy nm) req) nm)
        in (ev, p, nm\<lparr>nm_results := (nm_results nm)(seq \<mapsto> ctx_new (jr_id req) (se_miner ev))\<rparr>))"

definition nm_setJob :: "env \<Rightarrow> job \<Rightarrow> proc \<Rightarrow> nonce_mapper \<Rightarrow> proc \<times> nonce_mapper" where
  "nm_setJob env job p nm =
     (let (p, ns) = ns_setJob env job p (nm_storage nm) in (p, nm\<lparr>nm_storage := ns\<rparr>))"

definition nm_tick :: "env \<Rightarrow> config \<Rightarrow> u64 \<Rightarrow> proc \<Rightarrow> nonce_mapper \<Rightarrow> proc \<times> nonce_mapper" where
  "nm_tick env cfg now p nm =
     (let nm = nm_call (STick (nm_strategy nm) now) nm in
      case nm_donate nm of
        None \<Rightarrow> (p, nm)
      | Some d \<Rightarrow>
          let d = ds_tick now d in
          if ds_active d \<and> ds_hasPendingJob d then
            let (res, d) = ds_reschedule (cfg_donateLevel cfg) d; nm = nm\<lparr>nm_donate := Some d\<rparr>
            in if res then nm_setJob env (ds_pendingJob d) p nm else (p, nm)
          else (p, nm\<lparr>nm_donate := Some d\<rparr>))"

text \<open>The callbacks of the strategy. A client is its identifier; the donation client has \<open>-1\<close>.\<close>

definition nm_onActive :: "strategy \<Rightarrow> int \<Rightarrow> nonce_mapper \<Rightarrow> nonce_mapper" where
  "nm_onActive s client nm =
     (let nm = nm\<lparr>nm_storage := ns_setActive True (nm_storage nm)\<rparr> in
      if client = - 1 then nm
      else if nm_pending nm = Some s
      then (nm_call (SDelete (nm_strategy nm)) nm)\<lparr>nm_strategy := s, nm_pending := None\<rparr>
      else nm)"

definition nm_onJob ::
  "env \<Rightarrow> config \<Rightarrow> int \<Rightarrow> cstr \<Rightarrow> u16 \<Rightarrow> job \<Rightarrow> proc \<Rightarrow> nonce_mapper \<Rightarrow> proc \<times> nonce_mapper" where
  "nm_onJob env cfg client host port job p nm =
     (case nm_donate nm of
        None \<Rightarrow> nm_setJob env job p nm
      | Some d \<Rightarrow>
          if ds_active d \<and> client \<noteq> - 1 then
            let (res, d) = ds_reschedule (cfg_donateLevel cfg) d in
            if \<not> res then (p, nm\<lparr>nm_donate := Some (ds_save host port job d)\<rparr>)
            else nm_setJob env job p (nm\<lparr>nm_donate := Some (ds_setAlgo (j_algorithm job) d)\<rparr>)
          else nm_setJob env job p (nm\<lparr>nm_donate := Some (ds_setAlgo (j_algorithm job) d)\<rparr>))"

definition nm_onPause :: "nonce_mapper \<Rightarrow> nonce_mapper" where
  "nm_onPause nm = nm\<lparr>nm_storage := ns_setActive False (nm_storage nm)\<rparr>"

text \<open>\<open>onResultAccepted\<close>: the accept event, and after it the reply to the miner of the share.\<close>

definition nm_result_event ::
  "int \<Rightarrow> submit_result \<Rightarrow> cstr \<Rightarrow> nonce_mapper \<Rightarrow> submit_ctx \<times> accept_event \<times> nonce_mapper" where
  "nm_result_event client result err nm =
     (let (ctx, rs) = take_ctx (\<lambda>i. ns_miner i (nm_storage nm)) (sr_seq result) (nm_results nm)
      in (ctx,
          \<lparr>ae_mapperId = int (nm_id nm), ae_miner = sc_miner ctx, ae_result = result, ae_donate = (client = - 1),
           ae_customDiff = False, ae_error = err\<rparr>,
          nm\<lparr>nm_results := rs\<rparr>))"

definition reply_result :: "env \<Rightarrow> submit_ctx \<Rightarrow> cstr \<Rightarrow> proc \<Rightarrow> proc" where
  "reply_result env ctx err p =
     (case sc_miner ctx of
        None \<Rightarrow> p
      | Some i \<Rightarrow>
          (case err of
             Some e \<Rightarrow> on_miner (replyWithError env (sc_id ctx) e) i p
           | None \<Rightarrow> on_miner (success env (sc_id ctx) ''OK'') i p))"

text \<open>The result of a share finds the miner that submitted it, as long as it is a member, and the id of
  its request.\<close>

lemma nm_submit_result:
  assumes "nm_check ev (p_cnt p) nm = (NoError, c)" and "nm_submit seq ev p nm = (ev', p', nm')"
    and "ns_miners (nm_storage nm) (se_miner ev) = Some (se_miner ev)" and "sr_seq result = seq"
    and "nm_result_event client result err nm' = (ctx, ae, nm'')"
  shows "sc_miner ctx = Some (se_miner ev)" "sc_id ctx = jr_id (se_request ev)" "ae_miner ae = Some (se_miner ev)"
    "nm_results nm'' seq = None" "ev' = ev"
proof -
  have n: "nm_results nm' seq = Some (ctx_new (jr_id (se_request ev)) (se_miner ev))" "nm_storage nm' = nm_storage nm"
    "ev' = ev"
    using assms(1,2) by (auto simp: nm_submit_def nm_call_def Let_def split: option.splits if_splits)
  show "ev' = ev" by (rule n(3))
  show "sc_miner ctx = Some (se_miner ev)" "sc_id ctx = jr_id (se_request ev)" "ae_miner ae = Some (se_miner ev)"
    "nm_results nm'' seq = None"
    using assms(3-5) n(1,2) by (auto simp: nm_result_event_def take_ctx_def ctx_new_def ns_miner_def)
qed

text \<open>A share is refused with the reason of the first check that fails, and the upstream is not asked.\<close>

lemma nm_submit_refused:
  assumes "nm_check ev (p_cnt p) nm = (err, c)" and "err \<noteq> NoError"
  shows "nm_submit seq ev p nm = (ev\<lparr>se_error := err\<rparr>, p\<lparr>p_cnt := c\<rparr>, nm)"
  using assms by (simp add: nm_submit_def)

text \<open>The callbacks of the donation strategy of this upstream.\<close>

definition nm_donate_onClose :: "nonce_mapper \<Rightarrow> nonce_mapper" where
  "nm_donate_onClose nm =
     (case nm_donate nm of
        None \<Rightarrow> nm
      | Some d \<Rightarrow>
          let (was_active, d) = ds_onClose d; nm = nm\<lparr>nm_donate := Some d\<rparr>
          in if was_active then nm_onPause nm else nm)"

definition nm_donate_onJob ::
  "env \<Rightarrow> config \<Rightarrow> cstr \<Rightarrow> u16 \<Rightarrow> job \<Rightarrow> proc \<Rightarrow> nonce_mapper \<Rightarrow> proc \<times> nonce_mapper" where
  "nm_donate_onJob env cfg host port job p nm =
     (case nm_donate nm of
        None \<Rightarrow> (p, nm)
      | Some d \<Rightarrow>
          let (first, d) = ds_onJobReceived d; nm = nm\<lparr>nm_donate := Some d\<rparr>;
              nm = (if first then nm_onActive (nm_strategy nm) (- 1) nm else nm)
          in nm_onJob env cfg (- 1) host port job p nm)"

text \<open>When the donation pool hangs up, the upstream is inactive although its own pool is connected, and a
  new job of that pool does not change it: every share is refused.\<close>

lemma donate_close_blocks:
  assumes "nm_donate nm = Some d" and "ds_active d" and "client \<noteq> - 1"
    and "nm_onJob env cfg client host port job p (nm_donate_onClose nm) = (p', nm')"
  shows "\<not> ns_active (nm_storage nm')" "fst (nm_check ev c nm') = BadGateway"
proof -
  have "\<not> ns_active (nm_storage (nm_donate_onClose nm))"
    using assms(1,2) by (simp add: nm_donate_onClose_def ds_onClose_def nm_onPause_def ns_setActive_def)
  then show a: "\<not> ns_active (nm_storage nm')"
    using assms(4)
    by (auto simp: nm_onJob_def nm_setJob_def ns_setJob_fields Let_def dest!: arg_cong [of _ _ snd]
        split: option.splits if_splits prod.splits)
  show "fst (nm_check ev c nm') = BadGateway" using a by (simp add: nm_check_def)
qed

end
