(* ===== verification/NonceSplitter.thy ===== *)
theory NonceSplitter
  imports NonceMapper
begin

text \<open>
  The nicehash splitter (\<open>src/proxy/splitters/nicehash/NonceSplitter.h\<close>, \<open>NonceSplitter.cpp\<close>): the
  vector of upstreams, the placement of miners, garbage collection, and the routing of shares.
  The strategies and random numbers of new upstreams come from a source (\<open>fresh\<close>) indexed by the
  upstream's position.
\<close>

definition sp_fresh :: "config \<Rightarrow> (nat \<Rightarrow> strategy) \<Rightarrow> (nat \<Rightarrow> nat) \<Rightarrow> (nat \<Rightarrow> rat) \<Rightarrow> nat \<Rightarrow> nonce_mapper" where
  "sp_fresh cfg hs rs drs i = nm_start (nm_new cfg (hs i) (rs i) (drs i) i)"

definition sp_upstreams :: "nonce_mapper list \<Rightarrow> upstreams" where
  "sp_upstreams ms =
     mk_upstreams (of_nat (length (List.filter nm_isActive ms)))
       (of_nat (length (List.filter (\<lambda>m. \<not> nm_isActive m \<and> nm_isSuspended m) ms))) (of_nat (length ms))"

record rand_source =
  rs_strategy :: "nat \<Rightarrow> strategy"
  rs_rand :: "nat \<Rightarrow> nat"
  rs_donate :: "nat \<Rightarrow> rat"

definition sp_connect :: "config \<Rightarrow> rand_source \<Rightarrow> nonce_mapper list \<Rightarrow> nonce_mapper list" where
  "sp_connect cfg src ms =
     ms @ [sp_fresh cfg (rs_strategy src) (rs_rand src) (rs_donate src) (length ms)]"

text \<open>\<open>while (m_upstreams.back()->suspended() >= 2) pop_back()\<close>.\<close>

fun pop_suspended :: "nonce_mapper list \<Rightarrow> nonce_mapper list" where
  "pop_suspended [] = []"
| "pop_suspended (m # ms) =
     (case pop_suspended ms of
        [] \<Rightarrow> if nm_suspended m \<ge> 2 then [] else [m]
      | ms' \<Rightarrow> m # ms')"

definition sp_gc :: "nonce_mapper list \<Rightarrow> nonce_mapper list" where
  "sp_gc ms = pop_suspended (map nm_gc ms)"

fun sp_tick :: "env \<Rightarrow> config \<Rightarrow> u64 \<Rightarrow> proc \<Rightarrow> nonce_mapper list \<Rightarrow> proc \<times> nonce_mapper list" where
  "sp_tick env cfg now p [] = (p, [])"
| "sp_tick env cfg now p (m # ms) =
     (let (p, m) = nm_tick env cfg now p m; (p, ms) = sp_tick env cfg now p ms in (p, m # ms))"

definition sp_reload :: "(nat \<Rightarrow> strategy) \<Rightarrow> nonce_mapper list \<Rightarrow> nonce_mapper list" where
  "sp_reload hs ms = map (\<lambda>m. nm_reload (hs (nm_id m)) m) ms"

text \<open>One pass over the upstreams that \<open>sel\<close> selects: the first that takes the miner ends it.\<close>

fun sp_try ::
  "env \<Rightarrow> config \<Rightarrow> (nonce_mapper \<Rightarrow> bool) \<Rightarrow> int \<Rightarrow> proc \<Rightarrow> nonce_mapper list \<Rightarrow> bool \<times> proc \<times> nonce_mapper list" where
  "sp_try env cfg sel i p [] = (False, p, [])"
| "sp_try env cfg sel i p (m # ms) =
     (if sel m then
        let (ok, p, m) = nm_add env cfg i p m in
        if ok then (True, p, m # ms)
        else let (ok, p, ms) = sp_try env cfg sel i p ms in (ok, p, m # ms)
      else let (ok, p, ms) = sp_try env cfg sel i p ms in (ok, p, m # ms))"

definition sp_place :: "env \<Rightarrow> config \<Rightarrow> int \<Rightarrow> proc \<Rightarrow> nonce_mapper list \<Rightarrow> bool \<times> proc \<times> nonce_mapper list" where
  "sp_place env cfg i p ms =
     (let (ok, p, ms) = sp_try env cfg (\<lambda>m. \<not> nm_isSuspended m) i p ms in
      if ok then (True, p, ms) else sp_try env cfg nm_isSuspended i p ms)"

text \<open>An upstream with a free byte takes every miner.\<close>

definition has_room :: "nonce_mapper \<Rightarrow> bool" where
  "has_room m \<longleftrightarrow> ns_nextIndex 0 (nm_storage m) \<noteq> None"

lemma nm_add_room: "fst (nm_add env cfg i p m) \<longleftrightarrow> has_room m"
  by (auto simp: nm_add_def ns_add_def Let_def has_room_def split: option.splits prod.splits)

lemma nm_add_full: "\<not> has_room m \<Longrightarrow> nm_add env cfg i p m = (False, upd_miner (nicehash_ext cfg) i p, m)"
  by (auto simp: nm_add_def ns_add_def Let_def has_room_def)

lemma sp_try_iff: "fst (sp_try env cfg sel i p ms) \<longleftrightarrow> (\<exists>m \<in> set ms. sel m \<and> has_room m)"
proof (induction ms arbitrary: p)
  case (Cons m ms p)
  show ?case
  proof (cases "sel m \<and> has_room m")
    case True
    then have "fst (nm_add env cfg i p m)" by (simp add: nm_add_room)
    then show ?thesis using True by (cases "nm_add env cfg i p m") (simp add: Let_def case_prod_beta)
  next
    case False
    then show ?thesis
      using Cons.IH by (cases "sel m") (simp_all add: nm_add_full Let_def case_prod_beta)
  qed
qed simp

lemma sp_try_fail: "fst (sp_try env cfg sel i p ms) = False \<Longrightarrow> snd (snd (sp_try env cfg sel i p ms)) = ms"
proof (induction ms arbitrary: p)
  case (Cons m ms)
  show ?case
  proof (cases "sel m")
    case True
    then have r: "\<not> has_room m" using Cons.prems unfolding sp_try_iff by auto
    have "fst (sp_try env cfg sel i q ms) = False" for q
      using Cons.prems unfolding sp_try_iff by auto
    from Cons.IH [OF this] show ?thesis using True r by (simp add: nm_add_full Let_def case_prod_beta)
  next
    case False
    have "fst (sp_try env cfg sel i q ms) = False" for q
      using Cons.prems unfolding sp_try_iff by auto
    from Cons.IH [OF this] show ?thesis using False by (simp add: Let_def case_prod_beta)
  qed
qed simp

lemma sp_place_iff: "fst (sp_place env cfg i p ms) \<longleftrightarrow> (\<exists>m \<in> set ms. has_room m)"
proof -
  obtain ok p1 ms1 where t: "sp_try env cfg (\<lambda>m. \<not> nm_isSuspended m) i p ms = (ok, p1, ms1)"
    using prod_cases3 by blast
  have ok: "ok \<longleftrightarrow> (\<exists>m \<in> set ms. \<not> nm_isSuspended m \<and> has_room m)"
    using sp_try_iff [of env cfg "\<lambda>m. \<not> nm_isSuspended m" i p ms] t by simp
  have "\<not> ok \<Longrightarrow> ms1 = ms" using sp_try_fail [of env cfg "\<lambda>m. \<not> nm_isSuspended m" i p ms] t by simp
  then show ?thesis
    using ok t sp_try_iff [of env cfg nm_isSuspended i p1 ms] by (cases ok) (auto simp: sp_place_def)
qed

lemma sp_place_fail: "fst (sp_place env cfg i p ms) = False \<Longrightarrow> snd (snd (sp_place env cfg i p ms)) = ms"
  using sp_try_fail [of env cfg "\<lambda>m. \<not> nm_isSuspended m" i p ms] sp_try_fail [of env cfg nm_isSuspended i _ ms]
  by (auto simp: sp_place_def Let_def case_prod_beta split: if_splits)

lemma ns_new_room: "ns_nextIndex 0 (ns_new r) \<noteq> None"
  using ns_nextIndex_None [of "ns_new r"] by (force simp: ns_new_def)

lemma sp_fresh_room: "has_room (sp_fresh cfg hs rs drs i)"
  by (simp add: has_room_def sp_fresh_def nm_start_def nm_connect_def nm_new_def nm_call_def ns_new_room Let_def)

text \<open>The handler of the login event calls itself after it has connected a new upstream.\<close>

function sp_login ::
  "env \<Rightarrow> config \<Rightarrow> rand_source \<Rightarrow> int \<Rightarrow> proc \<Rightarrow> nonce_mapper list \<Rightarrow> proc \<times> nonce_mapper list" where
  "sp_login env cfg src i p ms =
     (let (ok, p, ms) = sp_place env cfg i p ms in
      if ok then (p, ms) else sp_login env cfg src i p (sp_connect cfg src ms))"
  by pat_completeness auto
termination
proof (relation "measure (\<lambda>(env, cfg, src, i, p, ms). if \<exists>m \<in> set ms. has_room m then 0 else 1)", simp)
  fix env cfg src i p ms r ok r' p' ms'
  assume r: "r = sp_place env cfg i p ms" "(ok, r') = r" "(p', ms') = r'" "\<not> ok"
  then have "fst (sp_place env cfg i p ms) = False" by (metis fst_conv)
  then have "\<not> (\<exists>m \<in> set ms. has_room m)" by (simp add: sp_place_iff)
  moreover have "\<exists>m \<in> set (sp_connect cfg src ms'). has_room m"
    by (simp add: sp_connect_def sp_fresh_room)
  ultimately show "((env, cfg, src, i, p', sp_connect cfg src ms'), env, cfg, src, i, p, ms)
      \<in> measure (\<lambda>(env, cfg, src, i, p, ms). if \<exists>m \<in> set ms. has_room m then 0 else 1)"
    by simp
qed

declare sp_login.simps [simp del]

definition sp_onLogin ::
  "env \<Rightarrow> config \<Rightarrow> rand_source \<Rightarrow> login_event \<Rightarrow> proc \<Rightarrow> nonce_mapper list \<Rightarrow> proc \<times> nonce_mapper list" where
  "sp_onLogin env cfg src ev p ms =
     (case p_objs p (le_miner ev) of
        None \<Rightarrow> (p\<lparr>p_fault := True\<rparr>, ms)
      | Some m \<Rightarrow> if m_routeId m \<noteq> - 1 then (p, ms) else sp_login env cfg src (le_miner ev) p ms)"

text \<open>\<open>m_upstreams[miner->mapperId()]\<close>; an index behind the vector is a fault.\<close>

definition sp_remove :: "int \<Rightarrow> proc \<Rightarrow> nonce_mapper list \<Rightarrow> proc \<times> nonce_mapper list" where
  "sp_remove i p ms =
     (case p_objs p i of
        None \<Rightarrow> (p\<lparr>p_fault := True\<rparr>, ms)
      | Some m \<Rightarrow>
          if m_mapperId m < 0 \<or> m_routeId m \<noteq> - 1 then (p, ms)
          else
            let k = nat (m_mapperId m) in
            if k \<ge> length ms then (p\<lparr>p_fault := True\<rparr>, ms)
            else let (p, x) = nm_remove i p (ms ! k) in (p, ms[k := x]))"

definition sp_submit ::
  "int \<Rightarrow> submit_event \<Rightarrow> proc \<Rightarrow> nonce_mapper list \<Rightarrow> submit_event \<times> proc \<times> nonce_mapper list" where
  "sp_submit seq ev p ms =
     (case p_objs p (se_miner ev) of
        None \<Rightarrow> (ev, p\<lparr>p_fault := True\<rparr>, ms)
      | Some m \<Rightarrow>
          if m_mapperId m < 0 \<or> m_routeId m \<noteq> - 1 then (ev, p, ms)
          else
            let k = nat (m_mapperId m) in
            if k \<ge> length ms then (ev, p\<lparr>p_fault := True\<rparr>, ms)
            else let (ev, p, x) = nm_submit seq ev p (ms ! k) in (ev, p, ms[k := x]))"

text \<open>The callbacks of the strategy of upstream \<open>k\<close>.\<close>

definition sp_onJob ::
  "env \<Rightarrow> config \<Rightarrow> nat \<Rightarrow> int \<Rightarrow> cstr \<Rightarrow> u16 \<Rightarrow> job \<Rightarrow> proc \<Rightarrow> nonce_mapper list \<Rightarrow> proc \<times> nonce_mapper list" where
  "sp_onJob env cfg k client host port job p ms =
     (let (p, x) = nm_onJob env cfg client host port job p (ms ! k) in (p, ms[k := x]))"

definition sp_result_event ::
  "nat \<Rightarrow> int \<Rightarrow> submit_result \<Rightarrow> cstr \<Rightarrow> nonce_mapper list \<Rightarrow> submit_ctx \<times> accept_event \<times> nonce_mapper list" where
  "sp_result_event k client result err ms =
     (let (ctx, ev, x) = nm_result_event client result err (ms ! k) in (ctx, ev, ms[k := x]))"

definition sp_onActive :: "nat \<Rightarrow> strategy \<Rightarrow> int \<Rightarrow> nonce_mapper list \<Rightarrow> nonce_mapper list" where
  "sp_onActive k st client ms = ms[k := nm_onActive st client (ms ! k)]"

definition sp_donate_onClose :: "nat \<Rightarrow> nonce_mapper list \<Rightarrow> nonce_mapper list" where
  "sp_donate_onClose k ms = ms[k := nm_donate_onClose (ms ! k)]"

definition sp_donate_onJob ::
  "env \<Rightarrow> config \<Rightarrow> nat \<Rightarrow> cstr \<Rightarrow> u16 \<Rightarrow> job \<Rightarrow> proc \<Rightarrow> nonce_mapper list \<Rightarrow> proc \<times> nonce_mapper list" where
  "sp_donate_onJob env cfg k host port job p ms =
     (let (p, x) = nm_donate_onJob env cfg host port job p (ms ! k) in (p, ms[k := x]))"

definition sp_onPause :: "nat \<Rightarrow> nonce_mapper list \<Rightarrow> nonce_mapper list" where
  "sp_onPause k ms = ms[k := nm_onPause (ms ! k)]"

section \<open>The invariant of one upstream\<close>

text \<open>What the upstreams know of a miner: its byte, its upstream, its route.\<close>

definition nm_view :: "miner \<Rightarrow> u8 \<times> int \<times> int" where
  "nm_view m = (m_fixedByte m, m_mapperId m, m_routeId m)"

abbreviation same_view :: "proc \<Rightarrow> proc \<Rightarrow> int \<Rightarrow> bool" where
  "same_view p p' j \<equiv> map_option nm_view (p_objs p' j) = map_option nm_view (p_objs p j)"

abbreviation nm_members :: "nonce_mapper \<Rightarrow> int \<Rightarrow> int option" where
  "nm_members nm \<equiv> ns_miners (nm_storage nm)"

definition nm_inv :: "proc \<Rightarrow> nonce_mapper \<Rightarrow> bool" where
  "nm_inv p nm \<longleftrightarrow> ns_inv (nm_storage nm) \<and> ns_bytes p (nm_storage nm) \<and>
     (nm_suspended nm > 0 \<longrightarrow> nm_members nm = Map.empty) \<and>
     (\<forall>i. nm_members nm i \<noteq> None \<longrightarrow>
        (\<exists>m. p_objs p i = Some m \<and> m_mapperId m = int (nm_id nm) \<and> m_routeId m = - 1))"

lemma proc_same_view: "proc_same miner_view p p' \<Longrightarrow> same_view p p' j"
  using proc_same_mono [of miner_view p p' nm_view]
  by (auto simp: proc_same_def miner_view_def miner_core_def nm_view_def)

lemma same_viewE:
  assumes "same_view p p' j" and "p_objs p' j = Some m'"
  obtains m where "p_objs p j = Some m" and "m_fixedByte m' = m_fixedByte m" and "m_mapperId m' = m_mapperId m"
    and "m_routeId m' = m_routeId m"
  using assms by (cases "p_objs p j") (auto simp: nm_view_def)

lemma same_viewE2:
  assumes "same_view p p' j" and "p_objs p j = Some m"
  obtains m' where "p_objs p' j = Some m'" and "m_fixedByte m' = m_fixedByte m" and "m_mapperId m' = m_mapperId m"
    and "m_routeId m' = m_routeId m"
  using assms by (cases "p_objs p' j") (auto simp: nm_view_def)

lemma nm_inv_cong:
  assumes inv: "nm_inv p nm" and same: "\<And>j. nm_members nm j \<noteq> None \<Longrightarrow> same_view p p' j"
  shows "nm_inv p' nm"
proof -
  have "ns_bytes p' (nm_storage nm)"
    unfolding ns_bytes_def
  proof (intro allI impI)
    fix i m'
    assume a: "nm_members nm i \<noteq> None" "p_objs p' i = Some m'"
    from same_viewE [OF same [OF a(1)] a(2)] obtain m where "p_objs p i = Some m" "m_fixedByte m' = m_fixedByte m" .
    then show "ns_used (nm_storage nm) ! unat (m_fixedByte m') = i"
      using inv a(1) by (simp add: nm_inv_def ns_bytes_def)
  qed
  moreover have "\<exists>m'. p_objs p' i = Some m' \<and> m_mapperId m' = int (nm_id nm) \<and> m_routeId m' = - 1"
    if "nm_members nm i \<noteq> None" for i
  proof -
    from inv that obtain m where "p_objs p i = Some m" "m_mapperId m = int (nm_id nm)" "m_routeId m = - 1"
      unfolding nm_inv_def by blast
    with same_viewE2 [OF same [OF that]] show ?thesis by metis
  qed
  ultimately show ?thesis using inv unfolding nm_inv_def by blast
qed

text \<open>Replacing what the invariant does not read.\<close>

lemma nm_inv_store:
  assumes "nm_inv p nm" and "nm_id nm' = nm_id nm" and "nm_suspended nm' = nm_suspended nm"
    and "nm_members nm' = nm_members nm" and "ns_inv (nm_storage nm')" and "ns_bytes p (nm_storage nm')"
  shows "nm_inv p nm'"
  using assms unfolding nm_inv_def by simp

lemma nm_inv_same:
  assumes "nm_inv p nm" and "nm_id nm' = nm_id nm" and "nm_suspended nm' = nm_suspended nm"
    and "nm_members nm' = nm_members nm" and "ns_used (nm_storage nm') = ns_used (nm_storage nm)"
  shows "nm_inv p nm'"
proof (rule nm_inv_store [OF assms(1-4)])
  have "ns_inv (nm_storage nm)" "ns_bytes p (nm_storage nm)" using assms(1) by (simp_all add: nm_inv_def)
  then show "ns_inv (nm_storage nm')" "ns_bytes p (nm_storage nm')"
    using assms(4,5) by (simp_all add: ns_inv_def ns_bytes_def)
qed

lemma nm_setJob_inv:
  assumes "nm_inv p nm" and "nm_setJob env job p nm = (p', nm')"
  shows "nm_inv p' nm'" "proc_same miner_view p p'" "proc_frame p p'"
    "nm_id nm' = nm_id nm" "nm_suspended nm' = nm_suspended nm" "nm_members nm' = nm_members nm"
proof -
  obtain ns where ns: "ns_setJob env job p (nm_storage nm) = (p', ns)" "nm' = nm\<lparr>nm_storage := ns\<rparr>"
    using assms(2) by (auto simp: nm_setJob_def split: prod.splits)
  show same: "proc_same miner_view p p'" "proc_frame p p'"
    using ns_setJob_frame [of p env job "nm_storage nm"] ns(1) by simp_all
  show f: "nm_id nm' = nm_id nm" "nm_suspended nm' = nm_suspended nm" "nm_members nm' = nm_members nm"
    using ns ns_setJob_fields(2) [of env job p "nm_storage nm"] by simp_all
  have inv: "ns_inv (nm_storage nm)" "ns_bytes p (nm_storage nm)" using assms(1) by (simp_all add: nm_inv_def)
  have "nm_inv p' nm" by (rule nm_inv_cong [OF assms(1) proc_same_view [OF same(1)]])
  from nm_inv_store [OF this f] show "nm_inv p' nm'"
    using ns_setJob_inv [OF inv(1), of env job p] ns_setJob_bytes [OF inv, of env job] ns by simp
qed


text \<open>The operations that leave the members alone.\<close>

definition nm_frame :: "nonce_mapper \<Rightarrow> nonce_mapper \<Rightarrow> bool" where
  "nm_frame nm nm' \<longleftrightarrow> nm_id nm' = nm_id nm \<and> nm_suspended nm' = nm_suspended nm \<and> nm_members nm' = nm_members nm"

lemma nm_submit_inv:
  assumes "nm_inv p nm" and "nm_submit seq ev p nm = (ev', p', nm')"
  shows "nm_inv p' nm' \<and> nm_frame nm nm' \<and> p_objs p' = p_objs p"
proof -
  have o: "p_objs p' = p_objs p" and f: "nm_id nm' = nm_id nm" "nm_suspended nm' = nm_suspended nm"
    "nm_storage nm' = nm_storage nm"
    using assms(2)
    by (auto simp: nm_submit_def nm_call_def Let_def split: prod.splits if_splits option.splits)
  then have "nm_inv p nm'" using nm_inv_same [OF assms(1)] by simp
  from nm_inv_cong [OF this, of p'] show ?thesis using o f by (simp add: nm_frame_def)
qed

lemma nm_onActive_inv: "nm_inv p nm \<Longrightarrow> nm_inv p (nm_onActive st client nm) \<and> nm_frame nm (nm_onActive st client nm)"
  by (intro conjI, erule nm_inv_same)
    (simp_all add: nm_onActive_def nm_frame_def ns_setActive_def nm_call_def Let_def)

lemma nm_onPause_inv: "nm_inv p nm \<Longrightarrow> nm_inv p (nm_onPause nm) \<and> nm_frame nm (nm_onPause nm)"
  by (intro conjI, erule nm_inv_same) (simp_all add: nm_onPause_def nm_frame_def ns_setActive_def)

lemma nm_reload_inv: "nm_inv p nm \<Longrightarrow> nm_inv p (nm_reload h nm) \<and> nm_frame nm (nm_reload h nm)"
  by (intro conjI, erule nm_inv_same)
    (simp_all add: nm_reload_def nm_frame_def nm_call_def Let_def split: option.split)

lemma reply_result_same:
  "proc_same miner_view p (reply_result env ctx err p)" "proc_frame p (reply_result env ctx err p)"
  using reply_same(1,2) reply_frame by (auto simp: reply_result_def split: option.split)

lemma nm_result_event_inv:
  assumes "nm_inv p nm" and "nm_result_event client result err nm = (ctx, ev, nm')"
  shows "nm_inv p nm' \<and> nm_frame nm nm' \<and> (\<forall>i. sc_miner ctx = Some i \<longrightarrow> nm_members nm i = Some i)"
proof -
  obtain rs where nm': "nm' = nm\<lparr>nm_results := rs\<rparr>"
    using assms(2) by (auto simp: nm_result_event_def split: prod.splits)
  have "ns_inv (nm_storage nm)" using assms(1) by (simp add: nm_inv_def)
  from ns_invD(2) [OF this] have "nm_members nm j = Some i \<Longrightarrow> nm_members nm i = Some i" for i j by metis
  then have "\<forall>i. sc_miner ctx = Some i \<longrightarrow> nm_members nm i = Some i"
    using assms(2) by (auto simp: nm_result_event_def take_ctx_def ns_miner_def ctx_empty_def split: option.splits)
  moreover have "nm_inv p nm'" by (rule nm_inv_same [OF assms(1)]) (simp_all add: nm')
  ultimately show ?thesis by (simp add: nm' nm_frame_def)
qed

lemma nm_setJob_frame:
  assumes "nm_inv p nm" and "nm_setJob env job p nm = (p', nm')"
  shows "nm_inv p' nm' \<and> nm_frame nm nm' \<and> proc_same miner_view p p' \<and> proc_frame p p'"
  using nm_setJob_inv [OF assms] by (simp add: nm_frame_def)

text \<open>A job handler first changes the donation strategy and then, at most, sets the job.\<close>

lemma nm_donate_setJob:
  assumes "nm_inv p nm" and "nm_setJob env job p (nm\<lparr>nm_donate := d\<rparr>) = (p', nm')"
  shows "nm_inv p' nm' \<and> nm_frame nm nm' \<and> proc_same miner_view p p' \<and> proc_frame p p'"
proof -
  have "nm_inv p (nm\<lparr>nm_donate := d\<rparr>)" by (rule nm_inv_same [OF assms(1)]) simp_all
  from nm_setJob_frame [OF this assms(2)] show ?thesis by (simp add: nm_frame_def)
qed

lemma nm_donate_only: "nm_inv p nm \<Longrightarrow> nm_inv p (nm\<lparr>nm_donate := d\<rparr>) \<and> nm_frame nm (nm\<lparr>nm_donate := d\<rparr>)"
  by (intro conjI, erule nm_inv_same) (simp_all add: nm_frame_def)

lemma nm_onJob_inv:
  assumes "nm_inv p nm" and "nm_onJob env cfg client host port job p nm = (p', nm')"
  shows "nm_inv p' nm' \<and> nm_frame nm nm' \<and> proc_same miner_view p p' \<and> proc_frame p p'"
  using assms(2) nm_donate_setJob [OF assms(1)] nm_setJob_frame [OF assms(1)] nm_donate_only [OF assms(1)]
  by (auto simp: nm_onJob_def Let_def split: option.splits if_splits prod.splits)

lemma nm_tick_inv:
  assumes "nm_inv p nm" and "nm_tick env cfg now p nm = (p', nm')"
  shows "nm_inv p' nm' \<and> nm_frame nm nm' \<and> proc_same miner_view p p' \<and> proc_frame p p'"
proof -
  let ?nm = "nm_call (STick (nm_strategy nm) now) nm"
  have i: "nm_inv p ?nm" by (rule nm_inv_same [OF assms(1)]) (simp_all add: nm_call_def)
  have f: "nm_frame nm x = nm_frame ?nm x" for x by (simp add: nm_frame_def nm_call_def)
  show ?thesis
    using assms(2) nm_donate_setJob [OF i] nm_donate_only [OF i] i unfolding f
    by (auto simp: nm_tick_def Let_def nm_frame_def nm_call_def split: option.splits if_splits prod.splits)
qed


section \<open>Adding, removing, suspending\<close>

lemma nm_connect_simps [simp]:
  "nm_id (nm_connect nm) = nm_id nm" "nm_suspended (nm_connect nm) = 0" "nm_storage (nm_connect nm) = nm_storage nm"
  by (simp_all add: nm_connect_def nm_call_def Let_def)

lemma upd_miner_objs: "p_objs (upd_miner g i p) j = (if j = i then map_option g (p_objs p i) else p_objs p j)"
  by (auto simp: upd_miner_def on_miner_def put_miner_def split: option.splits)

lemma upd_miner_other: "j \<noteq> i \<Longrightarrow> same_view p (upd_miner g i p) j"
  by (simp add: upd_miner_objs)

lemma nicehash_ext_simps [simp]:
  "m_id (nicehash_ext cfg m) = m_id m" "m_rpcId (nicehash_ext cfg m) = m_rpcId m" "m_state (nicehash_ext cfg m) = m_state m"
  "m_sent (nicehash_ext cfg m) = m_sent m" "nm_view (nicehash_ext cfg m) = nm_view m"
  by (simp_all add: nicehash_ext_def nm_view_def)

lemma nicehash_ext_same: "same_view p (upd_miner (nicehash_ext cfg) i p) j" "proc_frame p (upd_miner (nicehash_ext cfg) i p)"
  by (cases "p_objs p i") (simp_all add: upd_miner_objs upd_miner_frame)

text \<open>What adding a miner does to the upstream and to the miners.\<close>

definition joins :: "proc \<Rightarrow> nonce_mapper \<Rightarrow> int \<Rightarrow> proc \<Rightarrow> nonce_mapper \<Rightarrow> bool" where
  "joins p nm i p' nm' \<longleftrightarrow> nm_inv p' nm' \<and> nm_id nm' = nm_id nm \<and> nm_suspended nm' = 0 \<and>
     nm_members nm' = (nm_members nm)(i \<mapsto> i) \<and> (\<forall>j. j \<noteq> i \<longrightarrow> same_view p p' j) \<and> proc_frame p p' \<and>
     (\<exists>m. p_objs p' i = Some m \<and> m_mapperId m = int (nm_id nm) \<and> m_routeId m = - 1)"

lemma nm_add_joins:
  assumes inv: "nm_inv p nm" and m: "p_objs p i = Some m" "0 < i" "m_routeId m = - 1" "m_mapperId m < 0"
    and add: "nm_add env cfg i p nm = (True, p', nm')"
  shows "joins p nm i p' nm'"
proof -
  let ?p1 = "upd_miner (nicehash_ext cfg) i p" and ?g = "\<lambda>m. m\<lparr>m_mapperId := int (nm_id nm)\<rparr>"
  obtain ok p2 ns where a: "ns_add env i ?p1 (nm_storage nm) = (ok, p2, ns)" by (rule prod_cases3)
  have ok: "ok" and p': "p' = upd_miner ?g i p2"
    and nm': "nm' = (if nm_isSuspended nm then nm_connect (nm\<lparr>nm_storage := ns\<rparr>) else nm\<lparr>nm_storage := ns\<rparr>)"
    using add a by (auto simp: nm_add_def Let_def nm_isSuspended_def nm_connect_def nm_call_def split: if_splits)
  have new: "nm_members nm i = None"
    using inv m by (cases "nm_members nm i") (auto simp: nm_inv_def)
  have inv1: "nm_inv ?p1 nm" by (rule nm_inv_cong [OF inv nicehash_ext_same(1)])
  then have i1: "ns_inv (nm_storage nm)" "ns_bytes ?p1 (nm_storage nm)" by (simp_all add: nm_inv_def)
  note a' = a [unfolded ok [THEN eqTrueI]]
  obtain b where b: "ns_miners ns = (nm_members nm)(i \<mapsto> i)" "proc_frame ?p1 p2"
    "proc_same miner_view (upd_miner (\<lambda>m. m\<lparr>m_fixedByte := of_nat b\<rparr>) i ?p1) p2"
    using ns_add_fields [OF a'] by metis
  have ns: "ns_inv ns" "ns_bytes p2 ns"
    using ns_add_inv [OF i1(1) a' m(2) new] ns_add_bytes [OF i1 a' m(2) new] by simp_all
  have view: "same_view p p' j" if "j \<noteq> i" for j
    using proc_same_view [OF b(3), of j] nicehash_ext_same(1) [of cfg i p j] upd_miner_other [OF that] that
    by (simp add: p' upd_miner_objs)
  obtain m2 where m2: "p_objs p2 i = Some m2" "m_routeId m2 = - 1"
    using proc_same_view [OF b(3), of i] m(1,3) by (auto simp: upd_miner_objs nm_view_def nicehash_ext_def)
  then have m': "p_objs p' i = Some (?g m2)" by (simp add: p' upd_miner_objs)
  have "proc_frame p2 p'" unfolding p' by (rule upd_miner_frame) simp_all
  then have fr: "proc_frame p p'" using nicehash_ext_same(2) b(2) proc_frame_trans by blast
  have bytes: "ns_bytes p' ns"
    unfolding ns_bytes_def
  proof (intro allI impI)
    fix j m'
    assume "ns_miners ns j \<noteq> None" "p_objs p' j = Some m'"
    then show "ns_used ns ! unat (m_fixedByte m') = j"
      using ns(2) m2(1) by (cases "j = i") (auto simp: ns_bytes_def p' upd_miner_objs)
  qed
  have st: "nm_storage nm' = ns" "nm_id nm' = nm_id nm" "nm_suspended nm' = 0"
    using nm' by (auto simp: nm_isSuspended_def)
  have "\<exists>m. p_objs p' j = Some m \<and> m_mapperId m = int (nm_id nm) \<and> m_routeId m = - 1"
    if j: "ns_miners ns j \<noteq> None" for j
  proof (cases "j = i")
    case False
    with j b(1) obtain mj where "p_objs p j = Some mj" "m_mapperId mj = int (nm_id nm)" "m_routeId mj = - 1"
      using inv by (auto simp: nm_inv_def)
    with same_viewE2 [OF view [OF False]] show ?thesis by metis
  qed (use m' m2 in simp)
  then show ?thesis
    using ns(1) bytes st b(1) view fr m' m2 by (auto simp: joins_def nm_inv_def)
qed

lemma nm_gc_inv:
  assumes "nm_inv p nm"
  shows "nm_inv p (nm_gc nm) \<and> nm_id (nm_gc nm) = nm_id nm \<and> nm_members (nm_gc nm) = nm_members nm \<and>
    (nm_id nm = 0 \<longrightarrow> nm_suspended nm = 0 \<longrightarrow> nm_suspended (nm_gc nm) = 0)"
proof -
  have inv: "ns_inv (nm_storage nm)" using assms by (simp add: nm_inv_def)
  consider (susp) "nm_suspended nm > 0" | (keep) "nm_suspended nm = 0" "nm_id nm = 0 \<or> ns_isUsed (nm_storage nm)"
    | (drop) "nm_suspended nm = 0" "nm_id nm \<noteq> 0" "\<not> ns_isUsed (nm_storage nm)"
    by blast
  then show ?thesis
  proof cases
    case susp
    then show ?thesis using assms by (auto simp: nm_gc_def nm_isSuspended_def nm_inv_def)
  next
    case keep
    then show ?thesis using assms by (auto simp: nm_gc_def nm_isSuspended_def)
  next
    case drop
    then have none: "nm_members nm = Map.empty" using ns_isUsed_iff [OF inv] by simp
    have e: "nm_storage (nm_gc nm) = ns_reset (ns_setActive False (nm_storage nm))" "nm_id (nm_gc nm) = nm_id nm"
      using drop by (simp_all add: nm_gc_def nm_isSuspended_def nm_suspend_def nm_call_def Let_def)
    have "ns_inv (ns_setActive False (nm_storage nm))" using inv by (simp add: ns_inv_def ns_setActive_def)
    from ns_reset_inv [OF this] have "ns_inv (nm_storage (nm_gc nm))"
      using none by (simp add: e ns_setActive_def)
    moreover have "nm_members (nm_gc nm) = Map.empty" using none by (simp add: e ns_reset_def ns_setActive_def)
    ultimately show ?thesis using none drop e by (auto simp: nm_inv_def ns_bytes_def)
  qed
qed


section \<open>The invariant of the splitter\<close>

text \<open>An upstream's identifier is its index, the first is never suspended, the members of an
  upstream are exactly the miners whose mapper is this upstream.\<close>

definition sp_inv :: "proc \<Rightarrow> nonce_mapper list \<Rightarrow> bool" where
  "sp_inv p ms \<longleftrightarrow> ms \<noteq> [] \<and> nm_suspended (ms ! 0) = 0 \<and> (\<forall>k < length ms. nm_id (ms ! k) = k \<and> nm_inv p (ms ! k)) \<and>
     (\<forall>i m. p_objs p i = Some m \<longrightarrow> m_routeId m = - 1 \<longrightarrow> 0 \<le> m_mapperId m \<longrightarrow>
        nat (m_mapperId m) < length ms \<and> nm_members (ms ! nat (m_mapperId m)) i \<noteq> None)"

lemma sp_invD:
  assumes "sp_inv p ms"
  shows "ms \<noteq> []" and "nm_suspended (ms ! 0) = 0"
    and "k < length ms \<Longrightarrow> nm_id (ms ! k) = k" and "k < length ms \<Longrightarrow> nm_inv p (ms ! k)"
    and "p_objs p i = Some m \<Longrightarrow> m_routeId m = - 1 \<Longrightarrow> 0 \<le> m_mapperId m \<Longrightarrow>
      nat (m_mapperId m) < length ms \<and> nm_members (ms ! nat (m_mapperId m)) i \<noteq> None"
  using assms unfolding sp_inv_def by blast+

lemma nm_inv_memberD:
  assumes "nm_inv p nm" and "nm_members nm i \<noteq> None"
  obtains m where "p_objs p i = Some m" and "m_mapperId m = int (nm_id nm)" and "m_routeId m = - 1"
  using assms unfolding nm_inv_def by blast

text \<open>A miner is in one upstream only.\<close>

lemma sp_member_unique:
  assumes "sp_inv p ms" and "k < length ms" and "l < length ms" and "nm_members (ms ! k) i \<noteq> None"
    and "nm_members (ms ! l) i \<noteq> None"
  shows "k = l"
proof -
  from nm_inv_memberD [OF sp_invD(4) [OF assms(1,2)] assms(4)] obtain m where
    "p_objs p i = Some m" "m_mapperId m = int (nm_id (ms ! k))" .
  moreover from nm_inv_memberD [OF sp_invD(4) [OF assms(1,3)] assms(5)] obtain m' where
    "p_objs p i = Some m'" "m_mapperId m' = int (nm_id (ms ! l))" .
  ultimately show ?thesis using sp_invD(3) [OF assms(1)] assms(2,3) by simp
qed

lemma sp_inv_cong:
  assumes inv: "sp_inv p ms" and same: "\<And>j. same_view p p' j"
  shows "sp_inv p' ms"
proof -
  have "nat (m_mapperId m') < length ms \<and> nm_members (ms ! nat (m_mapperId m')) i \<noteq> None"
    if m: "p_objs p' i = Some m'" "m_routeId m' = - 1" "0 \<le> m_mapperId m'" for i m'
  proof -
    from same_viewE [OF same m(1)] obtain m where "p_objs p i = Some m" "m_mapperId m' = m_mapperId m"
      "m_routeId m' = m_routeId m" .
    with sp_invD(5) [OF inv] m(2,3) show ?thesis by metis
  qed
  moreover have "nm_inv p' (ms ! k)" if "k < length ms" for k
    by (rule nm_inv_cong [OF sp_invD(4) [OF inv that] same])
  ultimately show ?thesis using inv unfolding sp_inv_def by blast
qed

lemma sp_inv_update:
  assumes inv: "sp_inv p ms" and k: "k < length ms" and x: "nm_inv p' x" "nm_id x = k" "k = 0 \<Longrightarrow> nm_suspended x = 0"
    and others: "\<And>l. l < length ms \<Longrightarrow> l \<noteq> k \<Longrightarrow> nm_inv p' (ms ! l)"
    and mem: "\<And>j m. p_objs p' j = Some m \<Longrightarrow> m_routeId m = - 1 \<Longrightarrow> 0 \<le> m_mapperId m \<Longrightarrow>
      nat (m_mapperId m) < length ms \<and> nm_members (ms[k := x] ! nat (m_mapperId m)) j \<noteq> None"
  shows "sp_inv p' (ms[k := x])"
proof -
  have "nm_id (ms[k := x] ! l) = l \<and> nm_inv p' (ms[k := x] ! l)" if "l < length ms" for l
    using that x(1,2) others sp_invD(3) [OF inv] k by (cases "l = k") simp_all
  moreover have "nm_suspended (ms[k := x] ! 0) = 0"
    using sp_invD(2) [OF inv] x(3) k by (cases "k = 0") simp_all
  moreover have "ms[k := x] \<noteq> []" using sp_invD(1) [OF inv] by simp
  ultimately show ?thesis using mem unfolding sp_inv_def by simp
qed

text \<open>Changing one upstream without its members.\<close>

lemma sp_inv_frame:
  assumes inv: "sp_inv p ms" and k: "k < length ms" and x: "nm_inv p' x" "nm_frame (ms ! k) x"
    and same: "\<And>j. same_view p p' j"
  shows "sp_inv p' (ms[k := x])"
proof (rule sp_inv_update [OF inv k x(1)])
  show "nm_id x = k" using x(2) sp_invD(3) [OF inv k] by (simp add: nm_frame_def)
  show "k = 0 \<Longrightarrow> nm_suspended x = 0" using x(2) sp_invD(2) [OF inv] by (simp add: nm_frame_def)
  show "l < length ms \<Longrightarrow> l \<noteq> k \<Longrightarrow> nm_inv p' (ms ! l)" for l
    by (rule nm_inv_cong [OF sp_invD(4) [OF inv] same])
  fix j m
  assume m: "p_objs p' j = Some m" "m_routeId m = - 1" "0 \<le> m_mapperId m"
  from sp_invD(5) [OF sp_inv_cong [OF inv same] m]
  show "nat (m_mapperId m) < length ms \<and> nm_members (ms[k := x] ! nat (m_mapperId m)) j \<noteq> None"
    using x(2) k by (cases "nat (m_mapperId m) = k") (simp_all add: nm_frame_def)
qed

text \<open>A miner joins an upstream.\<close>

lemma sp_inv_joins:
  assumes inv: "sp_inv p ms" and k: "k < length ms" and m: "p_objs p i = Some m" "m_mapperId m < 0"
    and j: "joins p (ms ! k) i p' x"
  shows "sp_inv p' (ms[k := x])"
proof (rule sp_inv_update [OF inv k])
  note J = j [unfolded joins_def] and id = sp_invD(3) [OF inv]
  show "nm_inv p' x" "nm_id x = k" "k = 0 \<Longrightarrow> nm_suspended x = 0" using J id [OF k] by simp_all
  show "nm_inv p' (ms ! l)" if l: "l < length ms" "l \<noteq> k" for l
  proof (rule nm_inv_cong [OF sp_invD(4) [OF inv l(1)]])
    fix j'
    assume "nm_members (ms ! l) j' \<noteq> None"
    with nm_inv_memberD [OF sp_invD(4) [OF inv l(1)]] have "j' \<noteq> i" using m by fastforce
    then show "same_view p p' j'" using J by blast
  qed
  fix j' m'
  assume m': "p_objs p' j' = Some m'" "m_routeId m' = - 1" "0 \<le> m_mapperId m'"
  show "nat (m_mapperId m') < length ms \<and> nm_members (ms[k := x] ! nat (m_mapperId m')) j' \<noteq> None"
  proof (cases "j' = i")
    case True
    then have "m_mapperId m' = int k" using J m'(1) id [OF k] by auto
    then show ?thesis using J k True by simp
  next
    case False
    then have "same_view p p' j'" using J by blast
    from same_viewE [OF this m'(1)] obtain m0 where "p_objs p j' = Some m0" "m_mapperId m' = m_mapperId m0"
      "m_routeId m' = m_routeId m0" .
    with sp_invD(5) [OF inv, of j' m0] m' have "nat (m_mapperId m') < length ms \<and>
        nm_members (ms ! nat (m_mapperId m')) j' \<noteq> None" by simp
    then show ?thesis using J k False by (cases "nat (m_mapperId m') = k") simp_all
  qed
qed


section \<open>The handlers keep the invariant\<close>

text \<open>A pass over the upstreams changes at most the extensions of the miner before the upstream that
  takes it.\<close>

lemma nm_add_False: "\<not> has_room m \<Longrightarrow> nm_add env cfg i p m = (False, upd_miner (nicehash_ext cfg) i p, m)"
  by (rule nm_add_full)

lemma sp_try_result:
  "sp_try env cfg sel i p ms = (ok, p', ms') \<Longrightarrow>
     \<exists>q. (\<forall>j. same_view p q j) \<and> proc_frame p q \<and>
       (if ok then \<exists>k x. k < length ms \<and> nm_add env cfg i q (ms ! k) = (True, p', x) \<and> ms' = ms[k := x]
        else p' = q \<and> ms' = ms)"
proof (induction ms arbitrary: p ok p' ms')
  case (Cons m ms)
  show ?case
  proof (cases "sel m \<and> has_room m")
    case True
    then have "fst (nm_add env cfg i p m)" by (simp add: nm_add_room)
    then obtain p1 m1 where a: "nm_add env cfg i p m = (True, p1, m1)" by (metis prod.collapse)
    then have "ok" "p' = p1" "ms' = m1 # ms" using Cons.prems True by (simp_all add: Let_def)
    then have "ok \<and> 0 < length (m # ms) \<and> nm_add env cfg i p ((m # ms) ! 0) = (True, p', m1) \<and> ms' = (m # ms)[0 := m1]"
      using a by simp
    then show ?thesis by (intro exI [of _ p]) auto
  next
    case False
    define r where "r = (if sel m then upd_miner (nicehash_ext cfg) i p else p)"
    have r: "\<forall>j. same_view p r j" "proc_frame p r" using nicehash_ext_same by (simp_all add: r_def)
    obtain ms1 where t: "sp_try env cfg sel i r ms = (ok, p', ms1)" "ms' = m # ms1"
      using Cons.prems False by (auto simp: r_def Let_def nm_add_full split: if_splits prod.splits)
    from Cons.IH [OF t(1)] obtain q where q: "\<forall>j. same_view r q j" "proc_frame r q"
      "if ok then \<exists>k x. k < length ms \<and> nm_add env cfg i q (ms ! k) = (True, p', x) \<and> ms1 = ms[k := x]
       else p' = q \<and> ms1 = ms" by blast
    have "\<forall>j. same_view p q j" "proc_frame p q" using r q(1,2) proc_frame_trans by simp_all
    moreover have "if ok then \<exists>k x. k < length (m # ms) \<and> nm_add env cfg i q ((m # ms) ! k) = (True, p', x) \<and> ms' = (m # ms)[k := x]
       else p' = q \<and> ms' = m # ms"
      using q(3) t(2) by (cases ok) (auto intro: exI [of _ "Suc _"])
    ultimately show ?thesis by blast
  qed
qed auto

lemma sp_place_result:
  assumes "sp_place env cfg i p ms = (ok, p', ms')"
  shows "\<exists>q. (\<forall>j. same_view p q j) \<and> proc_frame p q \<and>
       (if ok then \<exists>k x. k < length ms \<and> nm_add env cfg i q (ms ! k) = (True, p', x) \<and> ms' = ms[k := x]
        else p' = q \<and> ms' = ms)"
proof -
  obtain ok1 p1 ms1 where t: "sp_try env cfg (\<lambda>m. \<not> nm_isSuspended m) i p ms = (ok1, p1, ms1)" by (rule prod_cases3)
  from sp_try_result [OF t] obtain q where q: "\<forall>j. same_view p q j" "proc_frame p q"
    "if ok1 then \<exists>k x. k < length ms \<and> nm_add env cfg i q (ms ! k) = (True, p1, x) \<and> ms1 = ms[k := x]
     else p1 = q \<and> ms1 = ms" by blast
  show ?thesis
  proof (cases ok1)
    case True
    then show ?thesis using q assms t by (auto simp: sp_place_def)
  next
    case False
    then have "sp_try env cfg nm_isSuspended i q ms = (ok, p', ms')"
      using q(3) assms t by (simp add: sp_place_def)
    from sp_try_result [OF this] obtain q2 where q2: "\<forall>j. same_view q q2 j" "proc_frame q q2"
      "if ok then \<exists>k x. k < length ms \<and> nm_add env cfg i q2 (ms ! k) = (True, p', x) \<and> ms' = ms[k := x]
       else p' = q2 \<and> ms' = ms" by blast
    have "\<forall>j. same_view p q2 j" "proc_frame p q2" using q(1,2) q2(1,2) proc_frame_trans by simp_all
    with q2(3) show ?thesis by blast
  qed
qed

lemma sp_connect_inv:
  assumes "sp_inv p ms"
  shows "sp_inv p (sp_connect cfg src ms)"
proof -
  let ?x = "sp_fresh cfg (rs_strategy src) (rs_rand src) (rs_donate src) (length ms)"
  have x: "nm_id ?x = length ms" "nm_suspended ?x = 0" "nm_storage ?x = ns_new (rs_rand src (length ms))"
    by (simp_all add: sp_fresh_def nm_start_def nm_new_def)
  then have "nm_inv p ?x"
    using ns_inv_new by (auto simp: nm_inv_def ns_bytes_def ns_new_def)
  moreover have "(ms @ [?x]) ! k = (if k < length ms then ms ! k else ?x)" if "k < Suc (length ms)" for k
    using that by (auto simp: nth_append less_Suc_eq)
  ultimately show ?thesis
    using assms x(1) unfolding sp_inv_def sp_connect_def by (auto simp: nth_append intro: less_SucI)
qed


text \<open>What a placed miner looks like.\<close>

definition placed :: "proc \<Rightarrow> int \<Rightarrow> proc \<Rightarrow> nonce_mapper list \<Rightarrow> bool" where
  "placed p i p' ms' \<longleftrightarrow> sp_inv p' ms' \<and> proc_frame p p' \<and> (\<forall>j. j \<noteq> i \<longrightarrow> same_view p p' j) \<and>
     (\<exists>m. p_objs p' i = Some m \<and> m_routeId m = - 1 \<and> 0 \<le> m_mapperId m)"

lemma sp_login_placed:
  "sp_inv p ms \<Longrightarrow> p_objs p i = Some m \<Longrightarrow> 0 < i \<Longrightarrow> m_routeId m = - 1 \<Longrightarrow> m_mapperId m < 0 \<Longrightarrow>
     sp_login env cfg src i p ms = (p', ms') \<Longrightarrow> placed p i p' ms'"
proof (induction env cfg src i p ms arbitrary: m p' ms' rule: sp_login.induct)
  case (1 env cfg src i p ms)
  obtain ok p1 ms1 where t: "sp_place env cfg i p ms = (ok, p1, ms1)" by (rule prod_cases3)
  from sp_place_result [OF t] obtain q where q: "\<forall>j. same_view p q j" "proc_frame p q"
    "if ok then \<exists>k x. k < length ms \<and> nm_add env cfg i q (ms ! k) = (True, p1, x) \<and> ms1 = ms[k := x]
     else p1 = q \<and> ms1 = ms" by blast
  have inv: "sp_inv q ms" by (rule sp_inv_cong [OF "1.prems"(1)]) (use q(1) in blast)
  from same_viewE2 [OF spec [OF q(1)] "1.prems"(2)] "1.prems"(4,5) obtain m1
    where m1: "p_objs q i = Some m1" "m_routeId m1 = - 1" "m_mapperId m1 < 0" by metis
  show ?case
  proof (cases ok)
    case True
    then have r: "p' = p1" "ms' = ms1" using "1.prems"(6) t by (simp_all add: sp_login.simps [of env cfg src i p ms])
    from True q(3) obtain k x where k: "k < length ms" "nm_add env cfg i q (ms ! k) = (True, p1, x)" "ms1 = ms[k := x]"
      by auto
    note J = nm_add_joins [OF sp_invD(4) [OF inv k(1)] m1(1) "1.prems"(3) m1(2,3) k(2)]
    have "sp_inv p' ms'" unfolding r k(3) by (rule sp_inv_joins [OF inv k(1) m1(1,3) J])
    moreover have "proc_frame p p'" using J q(2) proc_frame_trans r(1) by (auto simp: joins_def)
    moreover have "j \<noteq> i \<longrightarrow> same_view p p' j" for j using J q(1) r(1) by (simp add: joins_def)
    moreover have "\<exists>m. p_objs p' i = Some m \<and> m_routeId m = - 1 \<and> 0 \<le> m_mapperId m"
      using J r(1) by (auto simp: joins_def)
    ultimately show ?thesis by (simp add: placed_def)
  next
    case False
    then have e: "p1 = q" "ms1 = ms" using q(3) by simp_all
    have rec: "sp_login env cfg src i q (sp_connect cfg src ms) = (p', ms')"
      using "1.prems"(6) t False e by (simp add: sp_login.simps [of env cfg src i p ms])
    have "placed q i p' ms'"
      by (rule "1.IH" [OF refl t [symmetric] refl False, unfolded e,
            OF sp_connect_inv [OF inv] m1(1) "1.prems"(3) m1(2,3) rec])
    then show ?thesis using q(1,2) proc_frame_trans by (auto simp: placed_def)
  qed
qed

lemma sp_onLogin_inv:
  assumes "sp_inv p ms" and "p_objs p (le_miner ev) = Some m" and "0 < le_miner ev" and "m_mapperId m < 0"
    and "sp_onLogin env cfg src ev p ms = (p', ms')"
  shows "sp_inv p' ms'" "proc_frame p p'" "m_routeId m = - 1 \<Longrightarrow> placed p (le_miner ev) p' ms'"
proof -
  show pl: "m_routeId m = - 1 \<Longrightarrow> placed p (le_miner ev) p' ms'"
    using sp_login_placed [OF assms(1-3) _ assms(4)] assms(2,5) by (simp add: sp_onLogin_def)
  have "m_routeId m \<noteq> - 1 \<Longrightarrow> p' = p \<and> ms' = ms" using assms(2,5) by (simp add: sp_onLogin_def)
  then show "sp_inv p' ms'" "proc_frame p p'" using pl assms(1) by (auto simp: placed_def)
qed

text \<open>Closing: the splitter forgets the miner, then the miner is deleted.\<close>

lemma proc_delete_objs: "p_objs (proc_delete i p) j = (if j = i then None else p_objs p j)"
  by (auto simp: proc_delete_def split: option.splits)

lemma sp_delete_stranger:
  assumes inv: "sp_inv p ms" and no: "\<And>k. k < length ms \<Longrightarrow> nm_members (ms ! k) i = None"
  shows "sp_inv (proc_delete i p) ms"
proof -
  have "nm_inv (proc_delete i p) (ms ! k)" if "k < length ms" for k
    using no [OF that] by (intro nm_inv_cong [OF sp_invD(4) [OF inv that]]) (auto simp: proc_delete_objs)
  then show ?thesis using inv unfolding sp_inv_def by (auto simp: proc_delete_objs split: if_splits)
qed

lemma sp_stranger:
  assumes inv: "sp_inv p ms" and k: "k < length ms" and i: "\<And>m. p_objs p i = Some m \<Longrightarrow> m_mapperId m < 0 \<or> m_routeId m \<noteq> - 1"
  shows "nm_members (ms ! k) i = None"
proof (rule ccontr)
  assume "nm_members (ms ! k) i \<noteq> None"
  from nm_inv_memberD [OF sp_invD(4) [OF inv k] this] obtain m where
    "p_objs p i = Some m" "m_mapperId m = int (nm_id (ms ! k))" "m_routeId m = - 1" .
  with i show False by fastforce
qed

lemma nm_remove_member:
  assumes inv: "nm_inv p nm" and m: "p_objs p i = Some m" and mem: "nm_members nm i \<noteq> None" and rem: "nm_remove i p nm = (p', x)"
  shows "p' = p" "nm_inv (proc_delete i p) x" "nm_id x = nm_id nm" "nm_suspended x = nm_suspended nm"
    "nm_members x = (nm_members nm)(i := None)"
proof -
  obtain ns where ns: "ns_remove i p (nm_storage nm) = (p', ns)" "x = nm\<lparr>nm_storage := ns\<rparr>"
    using rem by (auto simp: nm_remove_def split: prod.splits)
  have st: "ns_inv (nm_storage nm)" "ns_bytes p (nm_storage nm)" using inv by (simp_all add: nm_inv_def)
  note r = ns_remove_inv [OF st m mem ns(1)]
  show "p' = p" "nm_id x = nm_id nm" "nm_suspended x = nm_suspended nm" "nm_members x = (nm_members nm)(i := None)"
    using r ns(2) by simp_all
  then show "nm_inv (proc_delete i p) x"
    using inv r(2,3) ns(2) by (auto simp: nm_inv_def ns_bytes_def proc_delete_objs)
qed

lemma sp_close_inv:
  assumes inv: "sp_inv p ms" and rem: "sp_remove i p ms = (p', ms')"
  shows "sp_inv (proc_delete i p') ms' \<and> p_objs p' = p_objs p \<and> (p_fault p' \<longleftrightarrow> p_fault p \<or> p_objs p i = None) \<and>
    (\<forall>k < length ms'. nm_members (ms' ! k) i = None)"
proof (cases "p_objs p i")
  case None
  then have e: "p' = p\<lparr>p_fault := True\<rparr>" "ms' = ms" using rem by (simp_all add: sp_remove_def)
  have "sp_inv p' ms'" unfolding e by (rule sp_inv_cong [OF inv]) simp
  moreover have "nm_members (ms' ! k) i = None" if "k < length ms'" for k
    using sp_stranger [OF inv, of k i] that None e by simp
  ultimately show ?thesis using None e sp_delete_stranger by simp
next
  case (Some m)
  show ?thesis
  proof (cases "m_mapperId m < 0 \<or> m_routeId m \<noteq> - 1")
    case True
    then have "p' = p" "ms' = ms" using rem Some by (simp_all add: sp_remove_def)
    moreover have "nm_members (ms ! k) i = None" if "k < length ms" for k
      by (rule sp_stranger [OF inv that]) (use True Some in auto)
    ultimately show ?thesis using Some sp_delete_stranger [OF inv] by simp
  next
    case False
    let ?k = "nat (m_mapperId m)"
    have k: "?k < length ms" "nm_members (ms ! ?k) i \<noteq> None" using sp_invD(5) [OF inv Some] False by simp_all
    obtain p1 x where x: "nm_remove i p (ms ! ?k) = (p1, x)" by fastforce
    note r = nm_remove_member [OF sp_invD(4) [OF inv k(1)] Some k(2) x]
    have e: "p' = p" "ms' = ms[?k := x]" using rem Some False k(1) x r(1) by (auto simp: sp_remove_def Let_def)
    have out: "nm_members (ms' ! l) i = None" if "l < length ms'" for l
    proof (cases "l = ?k")
      case True
      then show ?thesis using k(1) r(5) by (simp add: e(2))
    next
      case False
      then have "nm_members (ms ! l) i = None"
        using sp_member_unique [OF inv k(1) _ k(2), of l] that by (metis e(2) length_list_update)
      then show ?thesis using False by (simp add: e(2))
    qed
    have "sp_inv (proc_delete i p) (ms[?k := x])"
    proof (rule sp_inv_update [OF inv k(1) r(2)])
      show "nm_id x = ?k" "?k = 0 \<Longrightarrow> nm_suspended x = 0"
        using r(3,4) sp_invD(2,3) [OF inv] k(1) by simp_all
      show "nm_inv (proc_delete i p) (ms ! l)" if "l < length ms" "l \<noteq> ?k" for l
        using out [of l] that e(2) by (intro nm_inv_cong [OF sp_invD(4) [OF inv that(1)]]) (auto simp: proc_delete_objs)
      fix j mj
      assume "p_objs (proc_delete i p) j = Some mj" "m_routeId mj = - 1" "0 \<le> m_mapperId mj"
      then show "nat (m_mapperId mj) < length ms \<and> nm_members (ms[?k := x] ! nat (m_mapperId mj)) j \<noteq> None"
        using sp_invD(5) [OF inv, of j mj] r(5) k(1)
        by (cases "nat (m_mapperId mj) = ?k") (auto simp: proc_delete_objs split: if_splits)
    qed
    then show ?thesis using Some e out by simp
  qed
qed


text \<open>Garbage collection drops only upstreams that have been suspended before and keeps the first.\<close>

lemma pop_suspended_prefix:
  "\<exists>ds. ms = pop_suspended ms @ ds \<and> (\<forall>d \<in> set ds. 2 \<le> nm_suspended d)"
proof (induction ms)
  case (Cons m ms)
  then obtain ds where ds: "ms = pop_suspended ms @ ds" "\<forall>d \<in> set ds. 2 \<le> nm_suspended d" by blast
  show ?case
  proof (cases "pop_suspended ms")
    case Nil
    then have "ms = ds" using ds(1) by simp
    then show ?thesis using Nil ds(2) by (auto intro: exI [of _ "m # ds"])
  next
    case (Cons a as)
    then show ?thesis using ds by auto
  qed
qed simp

lemma pop_suspended_head: "nm_suspended m < 2 \<Longrightarrow> pop_suspended (m # ms) \<noteq> []"
  by (simp split: list.split)

lemma sp_gc_inv:
  assumes inv: "sp_inv p ms"
  shows "sp_inv p (sp_gc ms)" and "\<exists>ds. map nm_gc ms = sp_gc ms @ ds \<and> (\<forall>d \<in> set ds. nm_members d = Map.empty)"
proof -
  have g: "nm_inv p (nm_gc (ms ! k))" "nm_id (nm_gc (ms ! k)) = k" "nm_members (nm_gc (ms ! k)) = nm_members (ms ! k)"
    if "k < length ms" for k
    using nm_gc_inv [OF sp_invD(4) [OF inv that]] sp_invD(3) [OF inv that] by simp_all
  have hd: "nm_suspended (nm_gc (ms ! 0)) = 0"
    using nm_gc_inv [OF sp_invD(4) [OF inv, of 0]] sp_invD(1,2,3) [OF inv] by simp
  obtain ds where ds: "map nm_gc ms = sp_gc ms @ ds" "\<forall>d \<in> set ds. 2 \<le> nm_suspended d"
    using pop_suspended_prefix [of "map nm_gc ms"] by (auto simp: sp_gc_def)
  have empty: "nm_members d = Map.empty" if d: "d \<in> set ds" for d
  proof -
    have "d \<in> set (map nm_gc ms)" using d ds(1) by simp
    then obtain k where "k < length ms" "d = nm_gc (ms ! k)" by (auto simp: in_set_conv_nth)
    then show ?thesis using g(1) ds(2) d by (fastforce simp: nm_inv_def)
  qed
  then show "\<exists>ds. map nm_gc ms = sp_gc ms @ ds \<and> (\<forall>d \<in> set ds. nm_members d = Map.empty)" using ds(1) by blast
  have len: "length (sp_gc ms) \<le> length ms" using arg_cong [OF ds(1), of length] by simp
  have nth: "sp_gc ms ! k = nm_gc (ms ! k)" if "k < length (sp_gc ms)" for k
    using arg_cong [OF ds(1), of "\<lambda>xs. xs ! k"] that len by (simp add: nth_append)
  have ne: "sp_gc ms \<noteq> []"
    using pop_suspended_head [of "nm_gc (ms ! 0)"] hd sp_invD(1) [OF inv]
    by (cases ms) (simp_all add: sp_gc_def del: pop_suspended.simps)
  have mem: "nat (m_mapperId m) < length (sp_gc ms) \<and> nm_members (sp_gc ms ! nat (m_mapperId m)) i \<noteq> None"
    if m: "p_objs p i = Some m" "m_routeId m = - 1" "0 \<le> m_mapperId m" for i m
  proof -
    let ?k = "nat (m_mapperId m)"
    have k: "?k < length ms" "nm_members (ms ! ?k) i \<noteq> None" using sp_invD(5) [OF inv m] by simp_all
    have "?k < length (sp_gc ms)"
    proof (rule ccontr)
      assume n: "\<not> ?k < length (sp_gc ms)"
      then have "nm_gc (ms ! ?k) = ds ! (?k - length (sp_gc ms))" "?k - length (sp_gc ms) < length ds"
        using arg_cong [OF ds(1), of "\<lambda>xs. xs ! ?k"] arg_cong [OF ds(1), of length] k(1) by (simp_all add: nth_append)
      then have "nm_members (nm_gc (ms ! ?k)) = Map.empty" using empty by simp
      then show False using g(3) [OF k(1)] k(2) by simp
    qed
    then show ?thesis using nth g(3) k by simp
  qed
  have "nm_suspended (sp_gc ms ! 0) = 0" using nth [of 0] hd ne by simp
  moreover have "\<forall>k < length (sp_gc ms). nm_id (sp_gc ms ! k) = k \<and> nm_inv p (sp_gc ms ! k)"
    using nth g len by simp
  ultimately show "sp_inv p (sp_gc ms)" using ne mem unfolding sp_inv_def by blast
qed


text \<open>The handlers that leave the members alone.\<close>

lemma sp_upstream_inv:
  assumes "sp_inv p ms" and "k < length ms"
    and "nm_inv p' x \<and> nm_frame (ms ! k) x \<and> proc_same miner_view p p' \<and> proc_frame p p'"
  shows "sp_inv p' (ms[k := x]) \<and> proc_same miner_view p p' \<and> proc_frame p p'"
  using sp_inv_frame [OF assms(1,2), of p' x] assms(3) proc_same_view by blast

lemma sp_onJob_inv:
  assumes "sp_inv p ms" and "k < length ms" and "sp_onJob env cfg k client host port job p ms = (p', ms')"
  shows "sp_inv p' ms' \<and> proc_same miner_view p p' \<and> proc_frame p p'"
proof -
  obtain x where x: "nm_onJob env cfg client host port job p (ms ! k) = (p', x)" "ms' = ms[k := x]"
    using assms(3) by (auto simp: sp_onJob_def split: prod.splits)
  from sp_upstream_inv [OF assms(1,2) nm_onJob_inv [OF sp_invD(4) [OF assms(1,2)] x(1)]] show ?thesis
    by (simp only: x(2))
qed

lemma sp_result_event_inv:
  assumes "sp_inv p ms" and "k < length ms" and "sp_result_event k client result err ms = (ctx, ev, ms')"
  shows "sp_inv p ms' \<and> (\<forall>i. sc_miner ctx = Some i \<longrightarrow> nm_members (ms ! k) i = Some i)"
proof -
  obtain x where x: "nm_result_event client result err (ms ! k) = (ctx, ev, x)" "ms' = ms[k := x]"
    using assms(3) by (auto simp: sp_result_event_def split: prod.splits)
  from nm_result_event_inv [OF sp_invD(4) [OF assms(1,2)] x(1)] sp_inv_frame [OF assms(1,2), of p x]
  show ?thesis by (simp add: x(2))
qed

lemma sp_donate_onClose_inv:
  assumes "sp_inv p ms" and "k < length ms"
  shows "sp_inv p (sp_donate_onClose k ms)"
proof -
  have "nm_inv p (nm_donate_onClose nm) \<and> nm_frame nm (nm_donate_onClose nm)" if inv: "nm_inv p nm" for nm
  proof (cases "nm_donate nm")
    case (Some d)
    have "nm_frame nm (nm_onPause (nm\<lparr>nm_donate := x\<rparr>))" for x
      by (simp add: nm_frame_def nm_onPause_def ns_setActive_def)
    then show ?thesis
      using Some nm_donate_only [OF inv] nm_onPause_inv
      by (auto simp: nm_donate_onClose_def Let_def split: prod.splits)
  qed (use inv in \<open>simp add: nm_donate_onClose_def nm_frame_def\<close>)
  from this [OF sp_invD(4) [OF assms]] sp_inv_frame [OF assms, of p] show ?thesis
    by (simp add: sp_donate_onClose_def)
qed

lemma nm_donate_onJob_inv:
  assumes "nm_inv p nm" and "nm_donate_onJob env cfg host port job p nm = (p', nm')"
  shows "nm_inv p' nm' \<and> nm_frame nm nm' \<and> proc_same miner_view p p' \<and> proc_frame p p'"
proof (cases "nm_donate nm")
  case None
  then show ?thesis using assms by (simp add: nm_donate_onJob_def nm_frame_def)
next
  case (Some d)
  obtain first d' where d: "ds_onJobReceived d = (first, d')" by fastforce
  let ?n = "nm\<lparr>nm_donate := Some d'\<rparr>" and ?m = "nm_onActive (nm_strategy nm) (- 1) (nm\<lparr>nm_donate := Some d'\<rparr>)"
  let ?x = "if first then ?m else ?n"
  have i: "nm_inv p ?n" using nm_donate_only [OF assms(1)] by simp
  then have "nm_inv p ?m" using nm_onActive_inv by simp
  with i have x: "nm_inv p ?x" by simp
  have f: "nm_frame nm y = nm_frame ?x y" for y
    by (simp add: nm_frame_def nm_onActive_def ns_setActive_def)
  have "nm_onJob env cfg (- 1) host port job p ?x = (p', nm')"
    using assms(2) Some d by (auto simp: nm_donate_onJob_def Let_def)
  from nm_onJob_inv [OF x this] show ?thesis by (simp add: f)
qed

lemma sp_donate_onJob_inv:
  assumes "sp_inv p ms" and "k < length ms" and "sp_donate_onJob env cfg k host port job p ms = (p', ms')"
  shows "sp_inv p' ms' \<and> proc_same miner_view p p' \<and> proc_frame p p'"
proof -
  obtain x where x: "nm_donate_onJob env cfg host port job p (ms ! k) = (p', x)" "ms' = ms[k := x]"
    using assms(3) by (auto simp: sp_donate_onJob_def split: prod.splits)
  from sp_upstream_inv [OF assms(1,2) nm_donate_onJob_inv [OF sp_invD(4) [OF assms(1,2)] x(1)]] show ?thesis
    by (simp only: x(2))
qed

lemma sp_onActive_inv: "sp_inv p ms \<Longrightarrow> k < length ms \<Longrightarrow> sp_inv p (sp_onActive k st client ms)"
  using sp_upstream_inv [of p ms k p "nm_onActive st client (ms ! k)"] nm_onActive_inv [OF sp_invD(4)]
  by (simp add: sp_onActive_def)

lemma sp_onPause_inv: "sp_inv p ms \<Longrightarrow> k < length ms \<Longrightarrow> sp_inv p (sp_onPause k ms)"
  using sp_upstream_inv [of p ms k p "nm_onPause (ms ! k)"] nm_onPause_inv [OF sp_invD(4)]
  by (simp add: sp_onPause_def)

lemma sp_submit_inv:
  assumes inv: "sp_inv p ms" and sub: "sp_submit seq ev p ms = (ev', p', ms')"
  shows "sp_inv p' ms' \<and> p_objs p' = p_objs p"
proof (cases "p_objs p (se_miner ev)")
  case None
  then show ?thesis using sub inv sp_inv_cong [OF inv, of "p\<lparr>p_fault := True\<rparr>"] by (auto simp: sp_submit_def)
next
  case (Some m)
  show ?thesis
  proof (cases "m_mapperId m < 0 \<or> m_routeId m \<noteq> - 1")
    case False
    let ?k = "nat (m_mapperId m)"
    have k: "?k < length ms" using sp_invD(5) [OF inv Some] False by simp
    obtain x where x: "nm_submit seq ev p (ms ! ?k) = (ev', p', x)" "ms' = ms[?k := x]"
      using sub Some False k by (auto simp: sp_submit_def Let_def split: prod.splits)
    from nm_submit_inv [OF sp_invD(4) [OF inv k] x(1)] show ?thesis
      using sp_inv_frame [OF inv k, of p' x] by (simp add: x(2))
  qed (use sub Some inv in \<open>auto simp: sp_submit_def\<close>)
qed

lemma sp_reload_inv:
  assumes "sp_inv p ms"
  shows "sp_inv p (sp_reload hs ms)"
proof -
  have f: "nm_inv p (nm_reload (hs k) (ms ! k))" "nm_frame (ms ! k) (nm_reload (hs k) (ms ! k))" if "k < length ms" for k
    using nm_reload_inv [OF sp_invD(4) [OF assms that]] by simp_all
  have n: "sp_reload hs ms ! k = nm_reload (hs k) (ms ! k)" if "k < length ms" for k
    using that sp_invD(3) [OF assms that] by (simp add: sp_reload_def)
  have "sp_reload hs ms \<noteq> []" "nm_suspended (sp_reload hs ms ! 0) = 0"
    using n [of 0] f(2) [of 0] sp_invD(1,2) [OF assms] by (auto simp: nm_frame_def sp_reload_def)
  moreover have "length (sp_reload hs ms) = length ms" by (simp add: sp_reload_def)
  ultimately show ?thesis
    using n f sp_invD(3,5) [OF assms] unfolding sp_inv_def by (simp add: nm_frame_def)
qed

text \<open>The timer works through the upstreams from the first to the last.\<close>

lemma sp_tick_inv:
  "(\<forall>m \<in> set ms. nm_inv p m) \<Longrightarrow> sp_tick env cfg now p ms = (p', ms') \<Longrightarrow>
     list_all2 (\<lambda>m m'. nm_inv p' m' \<and> nm_frame m m') ms ms' \<and> proc_same miner_view p p' \<and> proc_frame p p'"
proof (induction ms arbitrary: p p' ms')
  case (Cons m ms)
  obtain p1 m1 where m1: "nm_tick env cfg now p m = (p1, m1)" by fastforce
  obtain p2 ms2 where m2: "sp_tick env cfg now p1 ms = (p2, ms2)" by fastforce
  have e: "p' = p2" "ms' = m1 # ms2" using Cons.prems(2) m1 m2 by simp_all
  from nm_tick_inv [OF _ m1] Cons.prems(1)
  have t: "nm_inv p1 m1" "nm_frame m m1" "proc_same miner_view p p1" "proc_frame p p1" by simp_all
  have "\<forall>x \<in> set ms. nm_inv p1 x"
    using Cons.prems(1) nm_inv_cong [OF _ proc_same_view [OF t(3)]] by auto
  from Cons.IH [OF this m2] have ih: "list_all2 (\<lambda>m m'. nm_inv p2 m' \<and> nm_frame m m') ms ms2"
    "proc_same miner_view p1 p2" "proc_frame p1 p2" by simp_all
  then show ?case
    using t nm_inv_cong [OF t(1) proc_same_view [OF ih(2)]] proc_same_trans proc_frame_trans e by auto
qed simp

lemma sp_tick_splitter:
  assumes inv: "sp_inv p ms" and tick: "sp_tick env cfg now p ms = (p', ms')"
  shows "sp_inv p' ms' \<and> proc_same miner_view p p' \<and> proc_frame p p'"
proof -
  have "\<forall>m \<in> set ms. nm_inv p m" using sp_invD(4) [OF inv] by (auto simp: in_set_conv_nth)
  from sp_tick_inv [OF this tick]
  have t: "list_all2 (\<lambda>m m'. nm_inv p' m' \<and> nm_frame m m') ms ms'" "proc_same miner_view p p'" "proc_frame p p'" by simp_all
  have l: "length ms' = length ms" using list_all2_lengthD [OF t(1)] by simp
  have n: "nm_inv p' (ms' ! k)" "nm_frame (ms ! k) (ms' ! k)" if "k < length ms" for k
    using list_all2_nthD [OF t(1) that] by simp_all
  have inv': "sp_inv p' ms" by (rule sp_inv_cong [OF inv proc_same_view [OF t(2)]])
  have "ms' \<noteq> []" "nm_suspended (ms' ! 0) = 0"
    using sp_invD(1,2) [OF inv] n(2) [of 0] l by (auto simp: nm_frame_def)
  then have "sp_inv p' ms'"
    using n sp_invD(3,5) [OF inv'] l unfolding sp_inv_def by (simp add: nm_frame_def)
  with t show ?thesis by simp
qed

text \<open>An upstream never holds more miners than there are bytes, and two of its miners never share
  one.\<close>

lemma nm_members_card:
  assumes "nm_inv p nm"
  shows "card (dom (nm_members nm)) \<le> 256"
proof -
  have inv: "ns_inv (nm_storage nm)" using assms by (simp add: nm_inv_def)
  have "dom (nm_members nm) \<subseteq> set (ns_used (nm_storage nm))"
    using ns_invD(1,2) [OF inv] by (force simp: in_set_conv_nth)
  then have "card (dom (nm_members nm)) \<le> card (set (ns_used (nm_storage nm)))" by (rule card_mono [OF finite_set])
  also have "\<dots> \<le> length (ns_used (nm_storage nm))" by (rule card_length)
  finally show ?thesis using ns_invD(1) [OF inv] by simp
qed

lemma sp_bytes_distinct:
  assumes inv: "sp_inv p ms" and "p_objs p i = Some m" "p_objs p j = Some m'"
    and "m_routeId m = - 1" "m_routeId m' = - 1" "0 \<le> m_mapperId m" "m_mapperId m' = m_mapperId m"
    and "m_fixedByte m = m_fixedByte m'"
  shows "i = j"
proof -
  let ?k = "nat (m_mapperId m)"
  have k: "?k < length ms" "nm_members (ms ! ?k) i \<noteq> None" "nm_members (ms ! ?k) j \<noteq> None"
    using sp_invD(5) [OF inv assms(2)] sp_invD(5) [OF inv assms(3)] assms(4-7) by simp_all
  have "ns_bytes p (nm_storage (ms ! ?k))" using sp_invD(4) [OF inv k(1)] by (simp add: nm_inv_def)
  from ns_bytes_distinct [OF this k(2,3) assms(2,3,8)] show ?thesis .
qed

section \<open>Which upstream a login gets\<close>

text \<open>The first upstream that \<open>sel\<close> selects and that has a free byte; of the active ones, else of the
  suspended ones, else a new one.\<close>

definition free_byte :: "nonce_mapper \<Rightarrow> bool" where
  "free_byte m \<longleftrightarrow> (\<exists>b < 256. ns_used (nm_storage m) ! b = 0)"

primrec first_free :: "(nonce_mapper \<Rightarrow> bool) \<Rightarrow> nonce_mapper list \<Rightarrow> nat option" where
  "first_free sel [] = None"
| "first_free sel (m # ms) = (if sel m \<and> free_byte m then Some 0 else map_option Suc (first_free sel ms))"

definition login_place :: "nonce_mapper list \<Rightarrow> nat" where
  "login_place ms =
     (case first_free (\<lambda>m. \<not> nm_isSuspended m) ms of
        Some k \<Rightarrow> k
      | None \<Rightarrow> (case first_free nm_isSuspended ms of Some k \<Rightarrow> k | None \<Rightarrow> length ms))"

lemma room_free: "length (ns_used (nm_storage m)) = 256 \<Longrightarrow> has_room m \<longleftrightarrow> free_byte m"
  using ns_nextIndex_None [of "nm_storage m"] by (auto simp: has_room_def free_byte_def)

lemma first_free_none: "first_free sel ms = None \<longleftrightarrow> \<not> (\<exists>m \<in> set ms. sel m \<and> free_byte m)"
  by (induction ms) auto

lemma first_free_less: "first_free sel ms = Some k \<Longrightarrow> k < length ms"
  by (induction ms arbitrary: k) (auto split: if_splits)

lemma login_place_le: "login_place ms \<le> length ms"
  by (auto simp: login_place_def split: option.splits dest: first_free_less)

lemma first_free_append: "first_free sel ms = None \<Longrightarrow> first_free sel (ms @ [x]) = (if sel x \<and> free_byte x then Some (length ms) else None)"
  by (induction ms) (auto split: if_splits)

text \<open>One pass takes that upstream.\<close>

lemma sp_try_first:
  assumes "sp_try env cfg sel i p ms = (ok, p', ms')" and "\<And>m. m \<in> set ms \<Longrightarrow> length (ns_used (nm_storage m)) = 256"
  shows "case first_free sel ms of None \<Rightarrow> \<not> ok \<and> ms' = ms \<and> dom (p_objs p') = dom (p_objs p)
    | Some k \<Rightarrow> ok \<and> (\<exists>q x. dom (p_objs q) = dom (p_objs p) \<and> nm_add env cfg i q (ms ! k) = (True, p', x) \<and> ms' = ms[k := x])"
  using assms
proof (induction ms arbitrary: p ms')
  case (Cons m ms)
  have r: "has_room m \<longleftrightarrow> free_byte m" using Cons.prems(2) room_free by simp
  show ?case
  proof (cases "sel m \<and> free_byte m")
    case True
    then have "fst (nm_add env cfg i p m)" by (simp add: nm_add_room r)
    then show ?thesis using True Cons.prems(1) by (cases "nm_add env cfg i p m") (auto simp: Let_def split: if_splits)
  next
    case False
    define q where "q = (if sel m then upd_miner (nicehash_ext cfg) i p else p)"
    have d: "dom (p_objs q) = dom (p_objs p)" by (auto simp: q_def upd_miner_def on_miner_def put_miner_def split: option.splits)
    obtain ms1 where t: "sp_try env cfg sel i q ms = (ok, p', ms1)" "ms' = m # ms1"
      using Cons.prems(1) False r by (auto simp: q_def Let_def nm_add_full split: if_splits prod.splits)
    show ?thesis using Cons.IH [OF t(1)] Cons.prems(2) False t(2) d by (auto split: option.splits)
  qed
qed simp

lemma nm_add_place:
  assumes "nm_add env cfg i p nm = (True, p', x)" and "p_objs p i \<noteq> None"
  shows "\<exists>m. p_objs p' i = Some m \<and> m_mapperId m = int (nm_id nm)"
  using assms
  by (auto simp: nm_add_def ns_add_def Let_def upd_miner_def on_miner_def put_miner_def proc_setJob_def split: if_splits option.splits prod.splits)

lemma sp_place_first:
  assumes t: "sp_place env cfg i p ms = (ok, p', ms')" and l: "\<And>m. m \<in> set ms \<Longrightarrow> length (ns_used (nm_storage m)) = 256"
  shows "if login_place ms < length ms
    then ok \<and> (\<exists>q x. dom (p_objs q) = dom (p_objs p) \<and> nm_add env cfg i q (ms ! login_place ms) = (True, p', x) \<and>
      ms' = ms[login_place ms := x])
    else \<not> ok \<and> login_place ms = length ms"
proof -
  obtain ok1 p1 ms1 where a: "sp_try env cfg (\<lambda>m. \<not> nm_isSuspended m) i p ms = (ok1, p1, ms1)" by (rule prod_cases3)
  note f = sp_try_first [OF a l]
  show ?thesis
  proof (cases "first_free (\<lambda>m. \<not> nm_isSuspended m) ms")
    case (Some k)
    then show ?thesis using f t a first_free_less [OF Some] by (auto simp: sp_place_def login_place_def)
  next
    case None
    with f t a have b: "sp_try env cfg nm_isSuspended i p1 ms = (ok, p', ms')" and d: "dom (p_objs p1) = dom (p_objs p)"
      by (auto simp: sp_place_def)
    from sp_try_first [OF b l] None d show ?thesis
      by (auto simp: login_place_def split: option.splits dest: first_free_less)
  qed
qed

lemma login_place_connect:
  assumes "login_place ms = length ms"
  shows "login_place (sp_connect cfg src ms) = length ms"
proof -
  let ?x = "sp_fresh cfg (rs_strategy src) (rs_rand src) (rs_donate src) (length ms)"
  have "\<not> nm_isSuspended ?x" "free_byte ?x"
    by (simp_all add: sp_fresh_def nm_start_def nm_new_def nm_isSuspended_def free_byte_def ns_new_def nm_connect_def nm_call_def
        Let_def exI [of _ 0])
  moreover have "first_free (\<lambda>m. \<not> nm_isSuspended m) ms = None"
    using assms by (auto simp: login_place_def split: option.splits dest: first_free_less)
  ultimately show ?thesis by (simp add: login_place_def sp_connect_def first_free_append)
qed

lemma sp_inv_used: "sp_inv p ms \<Longrightarrow> m \<in> set ms \<Longrightarrow> length (ns_used (nm_storage m)) = 256"
  using sp_invD(4) by (fastforce simp: in_set_conv_nth nm_inv_def ns_inv_def)

lemma sp_login_place:
  "sp_inv p ms \<Longrightarrow> p_objs p i \<noteq> None \<Longrightarrow> sp_login env cfg src i p ms = (p', ms') \<Longrightarrow>
     (\<exists>m. p_objs p' i = Some m \<and> m_mapperId m = int (login_place ms)) \<and> length ms' = max (length ms) (Suc (login_place ms))"
proof (induction env cfg src i p ms arbitrary: p' ms' rule: sp_login.induct)
  case (1 env cfg src i p ms)
  obtain ok p1 ms1 where t: "sp_place env cfg i p ms = (ok, p1, ms1)" by (rule prod_cases3)
  note f = sp_place_first [OF t sp_inv_used [OF "1.prems"(1)]]
  show ?case
  proof (cases "login_place ms < length ms")
    case True
    with f obtain q x where k: ok "dom (p_objs q) = dom (p_objs p)" "ms1 = ms[login_place ms := x]"
      "nm_add env cfg i q (ms ! login_place ms) = (True, p1, x)" by auto
    then have "p_objs q i \<noteq> None" using "1.prems"(2) by blast
    from nm_add_place [OF k(4) this] sp_invD(3) [OF "1.prems"(1) True]
    moreover have "p' = p1" "length ms' = length ms"
      using "1.prems"(3) t k by (auto simp: sp_login.simps [of env cfg src i p ms])
    ultimately show ?thesis using True by simp
  next
    case False
    with f have no: "\<not> ok" and len: "login_place ms = length ms" by simp_all
    from sp_place_result [OF t] no have q: "\<forall>j. same_view p p1 j" "proc_frame p p1" "ms1 = ms" by auto
    have inv: "sp_inv p1 ms" by (rule sp_inv_cong [OF "1.prems"(1)]) (use q(1) in blast)
    have o: "p_objs p1 i \<noteq> None" using q(2) "1.prems"(2) by (auto simp: proc_frame_def)
    have rec: "sp_login env cfg src i p1 (sp_connect cfg src ms) = (p', ms')"
      using "1.prems"(3) t no q(3) by (simp add: sp_login.simps [of env cfg src i p ms])
    from "1.IH" [OF refl t [symmetric] refl no, unfolded q(3), OF sp_connect_inv [OF inv] o rec]
    show ?thesis by (simp add: login_place_connect [OF len] len) (simp add: sp_connect_def)
  qed
qed

lemma sp_onLogin_place:
  assumes "sp_inv p ms" and "p_objs p (le_miner ev) = Some m" and "m_routeId m = - 1"
    and "sp_onLogin env cfg src ev p ms = (p', ms')"
  shows "\<exists>m'. p_objs p' (le_miner ev) = Some m' \<and> m_mapperId m' = int (login_place ms)"
    and "length ms' = max (length ms) (Suc (login_place ms))"
  using sp_login_place [OF assms(1), of "le_miner ev" env cfg src p' ms'] assms(2-4) by (simp_all add: sp_onLogin_def)

end
