(* ===== verification/DonateSplitter.thy ===== *)
theory DonateSplitter
  imports Mapper
begin

text \<open>
  The donation over the proxy (\<open>src/proxy/splitters/donate/DonateMapper.h\<close>, \<open>DonateMapper.cpp\<close>,
  \<open>DonateSplitter.h\<close>, \<open>DonateSplitter.cpp\<close>): a miner that asks for its own upstream is routed to a
  client of its own. Calls on the client are logged. The build is a release build.
\<close>

section \<open>DonateMapper\<close>

record donate_mapper =
  dm_active :: bool
  dm_calls :: "client_call list"
  dm_miner :: int
  dm_algorithms :: "string list"
  dm_diff :: u64
  dm_id :: nat

definition dm_call :: "client_call \<Rightarrow> donate_mapper \<Rightarrow> donate_mapper" where
  "dm_call c dm = dm\<lparr>dm_calls := dm_calls dm @ [c]\<rparr>"

text \<open>The construction routes the miner.\<close>

definition dm_new :: "nat \<Rightarrow> login_event \<Rightarrow> proc \<Rightarrow> proc \<times> donate_mapper" where
  "dm_new i ev p =
     (upd_miner (\<lambda>m. m\<lparr>m_routeId := 0, m_mapperId := int i, m_ext_nicehash := True\<rparr>) (le_miner ev) p,
      \<lparr>dm_active = True, dm_calls = [CConnect], dm_miner = le_miner ev,
       dm_algorithms = (case rp_algos (le_params ev) of Some as \<Rightarrow> as | None \<Rightarrow> []), dm_diff = 0, dm_id = i\<rparr>)"

definition dm_submit :: "submit_event \<Rightarrow> donate_mapper \<Rightarrow> submit_event \<times> donate_mapper" where
  "dm_submit ev dm =
     (if \<not> dm_active dm then (ev\<lparr>se_error := BadGateway\<rparr>, dm)
      else (ev, dm_call (CSubmit ((se_request ev)\<lparr>jr_diff := dm_diff dm\<rparr>)) dm))"

definition dm_onClose :: "env \<Rightarrow> proc \<Rightarrow> donate_mapper \<Rightarrow> proc \<times> donate_mapper" where
  "dm_onClose env p dm = (proc_close env (dm_miner dm) p, dm_call CDisconnect (dm\<lparr>dm_active := False\<rparr>))"

definition dm_onJobReceived :: "env \<Rightarrow> job \<Rightarrow> cstr \<Rightarrow> proc \<Rightarrow> donate_mapper \<Rightarrow> proc \<times> donate_mapper" where
  "dm_onJobReceived env job algo p dm =
     (if \<not> dm_active dm then (p, dm)
      else (on_miner (forwardJob env job algo) (dm_miner dm) p, dm\<lparr>dm_diff := j_diff job\<rparr>))"

text \<open>\<open>onResultAccepted\<close>: the accept event, and after it the reply.\<close>

definition dm_result_event :: "submit_result \<Rightarrow> cstr \<Rightarrow> donate_mapper \<Rightarrow> accept_event" where
  "dm_result_event result err dm =
     \<lparr>ae_mapperId = int (dm_id dm), ae_miner = Some (dm_miner dm), ae_result = result, ae_donate = True,
      ae_customDiff = False, ae_error = err\<rparr>"

definition dm_reply :: "env \<Rightarrow> submit_result \<Rightarrow> cstr \<Rightarrow> donate_mapper \<Rightarrow> proc \<Rightarrow> proc" where
  "dm_reply env result err dm p =
     (case err of
        Some e \<Rightarrow> on_miner (replyWithError env (sr_reqId result) e) (dm_miner dm) p
      | None \<Rightarrow> on_miner (success env (sr_reqId result) ''OK'') (dm_miner dm) p)"

section \<open>DonateSplitter\<close>

text \<open>An entry of the map may be a null pointer.\<close>

record donate_splitter =
  dp_mappers :: "nat \<Rightarrow> donate_mapper option option"
  dp_sequence :: nat

definition dp_new :: donate_splitter where
  "dp_new = \<lparr>dp_mappers = Map.empty, dp_sequence = 0\<rparr>"

definition dp_reject :: "env \<Rightarrow> login_event \<Rightarrow> proc \<Rightarrow> login_event \<times> proc" where
  "dp_reject env ev p =
     (ev\<lparr>le_rejected := True\<rparr>,
      proc_close env (le_miner ev) (on_miner (replyWithError env (le_id ev) (error_toString Forbidden)) (le_miner ev) p))"

definition dp_login ::
  "env \<Rightarrow> config \<Rightarrow> login_event \<Rightarrow> proc \<Rightarrow> donate_splitter \<Rightarrow> login_event \<times> proc \<times> donate_splitter" where
  "dp_login env cfg ev p dp =
     (if \<not> isDonateOverProxy cfg then (ev, p, dp)
      else
        let p = upd_miner (\<lambda>m. m\<lparr>m_ext_connect := True\<rparr>) (le_miner ev) p; url = rp_url (le_params ev) in
        if str_isNull url then (ev, p, dp)
        else if \<not> str_contains url ''xmrig.com'' \<or> \<not> url_isValid (snd (url_parse url url_new))
        then (case dp_reject env ev p of (ev, p) \<Rightarrow> (ev, p, dp))
        else
          let (p, dm) = dm_new (dp_sequence dp) ev p
          in (ev, p, dp\<lparr>dp_mappers := (dp_mappers dp)(dp_sequence dp \<mapsto> Some dm), dp_sequence := dp_sequence dp + 1\<rparr>))"

definition dp_remove :: "int \<Rightarrow> proc \<Rightarrow> donate_splitter \<Rightarrow> proc \<times> donate_splitter" where
  "dp_remove i p dp =
     (case p_objs p i of
        None \<Rightarrow> (p\<lparr>p_fault := True\<rparr>, dp)
      | Some m \<Rightarrow>
          if m_mapperId m < 0 \<or> m_routeId m \<noteq> 0 \<or> dp_mappers dp (nat (m_mapperId m)) = None then (p, dp)
          else (p, dp\<lparr>dp_mappers := (dp_mappers dp)(nat (m_mapperId m) := None)\<rparr>))"

text \<open>The lookup with \<open>[]\<close> inserts a null pointer for a missing identifier.\<close>

definition dp_submit :: "submit_event \<Rightarrow> proc \<Rightarrow> donate_splitter \<Rightarrow> submit_event \<times> proc \<times> donate_splitter" where
  "dp_submit ev p dp =
     (case p_objs p (se_miner ev) of
        None \<Rightarrow> (ev, p\<lparr>p_fault := True\<rparr>, dp)
      | Some m \<Rightarrow>
          if m_mapperId m < 0 \<or> m_routeId m \<noteq> 0 then (ev, p, dp)
          else
            let k = nat (m_mapperId m) in
            case dp_mappers dp k of
              None \<Rightarrow> (ev, p, dp\<lparr>dp_mappers := (dp_mappers dp)(k \<mapsto> None)\<rparr>)
            | Some None \<Rightarrow> (ev, p, dp)
            | Some (Some dm) \<Rightarrow>
                let (ev, dm) = dm_submit ev dm in (ev, p, dp\<lparr>dp_mappers := (dp_mappers dp)(k \<mapsto> Some dm)\<rparr>))"

section \<open>Routed miners\<close>

text \<open>The clients and the routed miners belong together, one to one.\<close>

definition dp_inv :: "proc \<Rightarrow> donate_splitter \<Rightarrow> bool" where
  "dp_inv p dp \<longleftrightarrow>
     (\<forall>k e. dp_mappers dp k = Some e \<longrightarrow> k < dp_sequence dp \<and>
        (\<exists>dm m. e = Some dm \<and> dm_id dm = k \<and> p_objs p (dm_miner dm) = Some m \<and> m_routeId m = 0 \<and> m_mapperId m = int k)) \<and>
     (\<forall>i m. p_objs p i = Some m \<longrightarrow> m_routeId m = 0 \<longrightarrow> 0 \<le> m_mapperId m \<longrightarrow>
        (\<exists>dm. dp_mappers dp (nat (m_mapperId m)) = Some (Some dm) \<and> dm_miner dm = i))"

lemma dp_inv_new: "(\<And>i m. p_objs p i = Some m \<Longrightarrow> m_routeId m \<noteq> 0) \<Longrightarrow> dp_inv p dp_new"
  by (auto simp: dp_inv_def dp_new_def)

lemma dp_invD:
  assumes "dp_inv p dp"
  shows "dp_mappers dp k = Some e \<Longrightarrow> k < dp_sequence dp \<and>
        (\<exists>dm m. e = Some dm \<and> dm_id dm = k \<and> p_objs p (dm_miner dm) = Some m \<and> m_routeId m = 0 \<and> m_mapperId m = int k)"
    and "p_objs p i = Some m \<Longrightarrow> m_routeId m = 0 \<Longrightarrow> 0 \<le> m_mapperId m \<Longrightarrow>
        \<exists>dm. dp_mappers dp (nat (m_mapperId m)) = Some (Some dm) \<and> dm_miner dm = i"
  using assms unfolding dp_inv_def by blast+

text \<open>A share of a routed miner goes to its own client, and no null pointer is ever inserted.\<close>

lemma dp_submit_routed:
  assumes inv: "dp_inv p dp" and m: "p_objs p (se_miner ev) = Some m" "m_routeId m = 0" "0 \<le> m_mapperId m"
    and sub: "dp_submit ev p dp = (ev', p', dp')"
  shows "\<exists>dm. dp_mappers dp (nat (m_mapperId m)) = Some (Some dm) \<and> dm_miner dm = se_miner ev \<and> p' = p \<and>
    (if dm_active dm
     then ev' = ev \<and> dp_mappers dp' = (dp_mappers dp)(nat (m_mapperId m) \<mapsto>
       Some (dm_call (CSubmit ((se_request ev)\<lparr>jr_diff := dm_diff dm\<rparr>)) dm))
     else ev' = ev\<lparr>se_error := BadGateway\<rparr> \<and> dp_mappers dp' = dp_mappers dp)"
proof -
  from dp_invD(2) [OF inv m] obtain dm where dm: "dp_mappers dp (nat (m_mapperId m)) = Some (Some dm)"
    "dm_miner dm = se_miner ev" by blast
  then show ?thesis using sub m by (auto simp: dp_submit_def dm_submit_def Let_def split: if_splits)
qed

lemma dp_submit_other:
  assumes "p_objs p (se_miner ev) = Some m" and "m_routeId m \<noteq> 0"
  shows "dp_submit ev p dp = (ev, p, dp)"
  using assms by (simp add: dp_submit_def)

text \<open>Replacing the miners outside the clients.\<close>

lemma dp_inv_change:
  assumes inv: "dp_inv p dp"
    and own: "\<And>k dm m. dp_mappers dp k = Some (Some dm) \<Longrightarrow> p_objs p (dm_miner dm) = Some m \<Longrightarrow>
      \<exists>m'. p_objs p' (dm_miner dm) = Some m' \<and> m_routeId m' = m_routeId m \<and> m_mapperId m' = m_mapperId m"
    and new: "\<And>j m'. p_objs p' j = Some m' \<Longrightarrow> m_routeId m' = 0 \<Longrightarrow> 0 \<le> m_mapperId m' \<Longrightarrow>
      \<exists>m. p_objs p j = Some m \<and> m_routeId m = 0 \<and> m_mapperId m = m_mapperId m'"
  shows "dp_inv p' dp"
  unfolding dp_inv_def
proof (intro conjI allI impI)
  fix k e
  assume k: "dp_mappers dp k = Some e"
  from dp_invD(1) [OF inv k] obtain dm m where dm: "k < dp_sequence dp" "e = Some dm" "dm_id dm = k"
    "p_objs p (dm_miner dm) = Some m" "m_routeId m = 0" "m_mapperId m = int k" by blast
  from own [OF k [unfolded dm(2)] dm(4)] dm show "k < dp_sequence dp"
    "\<exists>dm m. e = Some dm \<and> dm_id dm = k \<and> p_objs p' (dm_miner dm) = Some m \<and> m_routeId m = 0 \<and> m_mapperId m = int k"
    by auto
next
  fix j m'
  assume j: "p_objs p' j = Some m'" "m_routeId m' = 0" "0 \<le> m_mapperId m'"
  from new [OF j] obtain m where "p_objs p j = Some m" "m_routeId m = 0" "m_mapperId m = m_mapperId m'" by blast
  with dp_invD(2) [OF inv, of j m] j(3)
  show "\<exists>dm. dp_mappers dp (nat (m_mapperId m')) = Some (Some dm) \<and> dm_miner dm = j" by simp
qed

lemma dp_inv_delete:
  assumes inv: "dp_inv p dp" and no: "\<And>k dm. dp_mappers dp k = Some (Some dm) \<Longrightarrow> dm_miner dm \<noteq> i"
    and p': "p_objs p' = (p_objs p)(i := None)"
  shows "dp_inv p' dp"
  by (rule dp_inv_change [OF inv]) (use no in \<open>auto simp: p' split: if_splits\<close>)

lemma dp_remove_inv:
  assumes inv: "dp_inv p dp" and rem: "dp_remove i p dp = (p', dp')" and p'': "p_objs p'' = (p_objs p)(i := None)"
  shows "dp_inv p'' dp' \<and> p_objs p' = p_objs p"
proof (cases "\<exists>m. p_objs p i = Some m \<and> 0 \<le> m_mapperId m \<and> m_routeId m = 0")
  case False
  then have e: "dp' = dp" "p_objs p' = p_objs p" using rem by (auto simp: dp_remove_def split: option.splits if_splits)
  have "dm_miner dm \<noteq> i" if "dp_mappers dp k = Some (Some dm)" for k dm
    using dp_invD(1) [OF inv that] False by auto
  from dp_inv_delete [OF inv this p''] show ?thesis by (simp add: e)
next
  case True
  then obtain m where m: "p_objs p i = Some m" "0 \<le> m_mapperId m" "m_routeId m = 0" by blast
  let ?k = "nat (m_mapperId m)" and ?dp = "dp\<lparr>dp_mappers := (dp_mappers dp)(nat (m_mapperId m) := None)\<rparr>"
  from dp_invD(2) [OF inv m(1,3,2)] obtain dm where dm: "dp_mappers dp ?k = Some (Some dm)" "dm_miner dm = i" by auto
  then have e: "p' = p" "dp' = ?dp" using rem m by (auto simp: dp_remove_def)
  have a: "dm_miner dm' \<noteq> i" if "dp_mappers dp k = Some (Some dm')" "k \<noteq> ?k" for k dm'
    using dp_invD(1) [OF inv that(1)] that(2) m(1) by auto
  have "dp_inv p'' ?dp"
    unfolding dp_inv_def
  proof (intro conjI allI impI)
    fix k ent
    assume "dp_mappers ?dp k = Some ent"
    then have k': "k \<noteq> ?k" "dp_mappers dp k = Some ent" by (auto split: if_splits)
    from dp_invD(1) [OF inv k'(2)] obtain dm' m' where d: "k < dp_sequence dp" "ent = Some dm'" "dm_id dm' = k"
      "p_objs p (dm_miner dm') = Some m'" "m_routeId m' = 0" "m_mapperId m' = int k" by blast
    with a [of k dm'] k' show "k < dp_sequence ?dp"
      "\<exists>dm m. ent = Some dm \<and> dm_id dm = k \<and> p_objs p'' (dm_miner dm) = Some m \<and> m_routeId m = 0 \<and> m_mapperId m = int k"
      by (auto simp: p'')
  next
    fix j m'
    assume j: "p_objs p'' j = Some m'" "m_routeId m' = 0" "0 \<le> m_mapperId m'"
    then have j': "j \<noteq> i" "p_objs p j = Some m'" by (auto simp: p'' split: if_splits)
    from dp_invD(2) [OF inv j'(2) j(2,3)] obtain dm' where
      "dp_mappers dp (nat (m_mapperId m')) = Some (Some dm')" "dm_miner dm' = j" by blast
    moreover from this dm j'(1) have "nat (m_mapperId m') \<noteq> ?k" by auto
    ultimately show "\<exists>dm. dp_mappers ?dp (nat (m_mapperId m')) = Some (Some dm) \<and> dm_miner dm = j" by simp
  qed
  then show ?thesis using e by simp
qed

text \<open>The login routes the miner or leaves its route alone.\<close>

lemma upd_route_objs: "p_objs (upd_miner g i p) j = (if j = i then map_option g (p_objs p i) else p_objs p j)"
  by (auto simp: upd_miner_def on_miner_def put_miner_def split: option.splits)

definition route_view :: "miner \<Rightarrow> int \<times> int" where
  "route_view m = (m_routeId m, m_mapperId m)"

lemma dp_inv_same:
  assumes inv: "dp_inv p dp" and same: "\<And>j. map_option route_view (p_objs p' j) = map_option route_view (p_objs p j)"
  shows "dp_inv p' dp"
proof (rule dp_inv_change [OF inv])
  show "\<exists>m'. p_objs p' (dm_miner dm) = Some m' \<and> m_routeId m' = m_routeId m \<and> m_mapperId m' = m_mapperId m"
    if "p_objs p (dm_miner dm) = Some m" for dm m
    using same [of "dm_miner dm"] that by (auto simp: route_view_def)
  show "\<exists>m. p_objs p j = Some m \<and> m_routeId m = 0 \<and> m_mapperId m = m_mapperId m'"
    if "p_objs p' j = Some m'" "m_routeId m' = 0" for j m'
    using same [of j] that by (cases "p_objs p j") (auto simp: route_view_def)
qed

lemma dp_reject_same: "proc_same miner_view p (snd (dp_reject env ev p))" "proc_frame p (snd (dp_reject env ev p))"
  using proc_same_trans [OF reply_same(1) reply_same(3)] proc_frame_trans [OF reply_frame(1) proc_close_frame]
  by (simp_all add: dp_reject_def)

lemma proc_same_route: "proc_same miner_view p p' \<Longrightarrow> map_option route_view (p_objs p' j) = map_option route_view (p_objs p j)"
  using proc_same_mono [of miner_view p p' route_view]
  by (auto simp: proc_same_def miner_view_def miner_core_def route_view_def)

text \<open>What a login leaves of the miners.\<close>

definition login_keeps :: "int \<Rightarrow> proc \<Rightarrow> proc \<Rightarrow> bool" where
  "login_keeps i p p' \<longleftrightarrow> proc_frame p p' \<and>
     (\<forall>j. j \<noteq> i \<longrightarrow> map_option miner_view (p_objs p' j) = map_option miner_view (p_objs p j)) \<and>
     (\<forall>m. p_objs p i = Some m \<longrightarrow> (\<exists>m'. p_objs p' i = Some m' \<and> m_fixedByte m' = m_fixedByte m \<and>
        (m_routeId m' = 0 \<or> m_routeId m' = m_routeId m \<and> m_mapperId m' = m_mapperId m)))"

lemma login_keeps_upd:
  assumes "\<And>m. m_state (g m) = m_state m" "\<And>m. m_sent (g m) = m_sent m" "\<And>m. m_id (g m) = m_id m"
    "\<And>m. m_rpcId (g m) = m_rpcId m" "\<And>m. m_fixedByte (g m) = m_fixedByte m"
    "\<And>m. m_routeId (g m) = 0 \<or> m_routeId (g m) = m_routeId m \<and> m_mapperId (g m) = m_mapperId m"
  shows "login_keeps i p (upd_miner g i p)"
  using upd_miner_frame [of g p i] assms by (auto simp: login_keeps_def upd_route_objs)

lemma login_keeps_same: "proc_frame p p' \<Longrightarrow> proc_same miner_view p p' \<Longrightarrow> login_keeps i p p'"
  unfolding login_keeps_def
proof (intro conjI allI impI)
  assume same: "proc_same miner_view p p'"
  show "map_option miner_view (p_objs p' j) = map_option miner_view (p_objs p j)" for j
    using same by (simp add: proc_same_def)
  fix m
  assume "p_objs p i = Some m"
  with same obtain m' where "p_objs p' i = Some m'" "miner_view m' = miner_view m"
    unfolding proc_same_def by (metis map_option_eq_Some)
  then show "\<exists>m'. p_objs p' i = Some m' \<and> m_fixedByte m' = m_fixedByte m \<and>
      (m_routeId m' = 0 \<or> m_routeId m' = m_routeId m \<and> m_mapperId m' = m_mapperId m)"
    by (auto simp: miner_view_def miner_core_def)
qed

lemma login_keeps_trans: "login_keeps i p q \<Longrightarrow> login_keeps i q r \<Longrightarrow> login_keeps i p r"
  unfolding login_keeps_def
proof (elim conjE, intro conjI allI impI)
  assume p: "proc_frame p q" "\<forall>j. j \<noteq> i \<longrightarrow> map_option miner_view (p_objs q j) = map_option miner_view (p_objs p j)"
    "\<forall>m. p_objs p i = Some m \<longrightarrow> (\<exists>m'. p_objs q i = Some m' \<and> m_fixedByte m' = m_fixedByte m \<and>
        (m_routeId m' = 0 \<or> m_routeId m' = m_routeId m \<and> m_mapperId m' = m_mapperId m))"
  assume q: "proc_frame q r" "\<forall>j. j \<noteq> i \<longrightarrow> map_option miner_view (p_objs r j) = map_option miner_view (p_objs q j)"
    "\<forall>m. p_objs q i = Some m \<longrightarrow> (\<exists>m'. p_objs r i = Some m' \<and> m_fixedByte m' = m_fixedByte m \<and>
        (m_routeId m' = 0 \<or> m_routeId m' = m_routeId m \<and> m_mapperId m' = m_mapperId m))"
  show "proc_frame p r" by (rule proc_frame_trans [OF p(1) q(1)])
  show "j \<noteq> i \<Longrightarrow> map_option miner_view (p_objs r j) = map_option miner_view (p_objs p j)" for j
    using p(2) q(2) by simp
  fix m
  assume "p_objs p i = Some m"
  with p(3) obtain m1 where m1: "p_objs q i = Some m1" "m_fixedByte m1 = m_fixedByte m"
    "m_routeId m1 = 0 \<or> m_routeId m1 = m_routeId m \<and> m_mapperId m1 = m_mapperId m" by blast
  with q(3) obtain m2 where "p_objs r i = Some m2" "m_fixedByte m2 = m_fixedByte m1"
    "m_routeId m2 = 0 \<or> m_routeId m2 = m_routeId m1 \<and> m_mapperId m2 = m_mapperId m1" by blast
  with m1 show "\<exists>m'. p_objs r i = Some m' \<and> m_fixedByte m' = m_fixedByte m \<and>
      (m_routeId m' = 0 \<or> m_routeId m' = m_routeId m \<and> m_mapperId m' = m_mapperId m)" by auto
qed

lemma dp_login_inv:
  assumes inv: "dp_inv p dp" and m: "p_objs p (le_miner ev) = Some m" "m_mapperId m < 0"
    and login: "dp_login env cfg ev p dp = (ev', p', dp')"
  shows "dp_inv p' dp' \<and> login_keeps (le_miner ev) p p' \<and> le_miner ev' = le_miner ev"
proof (cases "isDonateOverProxy cfg")
  case False
  then show ?thesis using inv login login_keeps_same [OF proc_frame_refl proc_same_refl] by (simp add: dp_login_def)
next
  case True
  let ?i = "le_miner ev" and ?g = "\<lambda>m. m\<lparr>m_ext_connect := True\<rparr>" and ?url = "rp_url (le_params ev)"
  let ?p = "upd_miner ?g ?i p"
  have k1: "login_keeps ?i p ?p" by (rule login_keeps_upd) simp_all
  have i1: "dp_inv ?p dp"
    by (rule dp_inv_same [OF inv]) (use m(1) in \<open>simp add: upd_route_objs route_view_def\<close>)
  show ?thesis
  proof (cases "str_isNull ?url")
    case True
    then show ?thesis using \<open>isDonateOverProxy cfg\<close> login i1 k1 by (auto simp: dp_login_def Let_def)
  next
    case url: False
    show ?thesis
    proof (cases "\<not> str_contains ?url ''xmrig.com'' \<or> \<not> url_isValid (snd (url_parse ?url url_new))")
      case rej: True
      then have e: "ev' = fst (dp_reject env ev ?p)" "p' = snd (dp_reject env ev ?p)" "dp' = dp"
        using True url login by (auto simp: dp_login_def Let_def split: prod.splits)
      have "dp_inv p' dp'" unfolding e
        by (rule dp_inv_same [OF i1 proc_same_route [OF dp_reject_same(1)]])
      moreover have "login_keeps ?i p p'" unfolding e
        by (rule login_keeps_trans [OF k1 login_keeps_same [OF dp_reject_same(2,1)]])
      ultimately show ?thesis by (simp add: e dp_reject_def)
    next
      case ok: False
      let ?n = "dp_sequence dp"
      let ?h = "\<lambda>m. m\<lparr>m_routeId := 0, m_mapperId := int ?n, m_ext_nicehash := True\<rparr>"
      obtain q dm where dm: "dm_new ?n ev ?p = (q, dm)" by fastforce
      then have q: "q = upd_miner ?h ?i ?p" "dm_id dm = ?n" "dm_miner dm = ?i" by (auto simp: dm_new_def)
      have e: "ev' = ev" "p' = q" "dp_mappers dp' = (dp_mappers dp)(?n \<mapsto> Some dm)" "dp_sequence dp' = Suc ?n"
        using True url ok login dm by (auto simp: dp_login_def Let_def)
      have k: "login_keeps ?i p p'"
        unfolding e(2) q(1) by (rule login_keeps_trans [OF k1 login_keeps_upd]) simp_all
      have own: "p_objs p' ?i = Some (?h (?g m))" using m(1) by (simp add: e(2) q(1) upd_route_objs)
      have other: "p_objs p' j = p_objs p j" if "j \<noteq> ?i" for j using that by (simp add: e(2) q(1) upd_route_objs)
      have fresh: "dp_mappers dp ?n = None"
        using dp_invD(1) [OF inv] by (cases "dp_mappers dp ?n") auto
      have "dp_inv p' dp'"
        unfolding dp_inv_def
      proof (intro conjI allI impI)
        fix k ent
        assume k: "dp_mappers dp' k = Some ent"
        show "k < dp_sequence dp'" "\<exists>dm m. ent = Some dm \<and> dm_id dm = k \<and> p_objs p' (dm_miner dm) = Some m \<and>
            m_routeId m = 0 \<and> m_mapperId m = int k"
        proof (atomize (full), cases "k = ?n")
          case True
          then show "k < dp_sequence dp' \<and> (\<exists>dm m. ent = Some dm \<and> dm_id dm = k \<and> p_objs p' (dm_miner dm) = Some m \<and>
            m_routeId m = 0 \<and> m_mapperId m = int k)" using k e q own by auto
        next
          case False
          then have "dp_mappers dp k = Some ent" using k e(3) by simp
          from dp_invD(1) [OF inv this] obtain dm' m' where d: "k < ?n" "ent = Some dm'" "dm_id dm' = k"
            "p_objs p (dm_miner dm') = Some m'" "m_routeId m' = 0" "m_mapperId m' = int k" by blast
          have "dm_miner dm' \<noteq> ?i" using d(4,6) m by auto
          then show "k < dp_sequence dp' \<and> (\<exists>dm m. ent = Some dm \<and> dm_id dm = k \<and> p_objs p' (dm_miner dm) = Some m \<and>
            m_routeId m = 0 \<and> m_mapperId m = int k)" using d e(4) other by auto
        qed
      next
        fix j m'
        assume j: "p_objs p' j = Some m'" "m_routeId m' = 0" "0 \<le> m_mapperId m'"
        show "\<exists>dm. dp_mappers dp' (nat (m_mapperId m')) = Some (Some dm) \<and> dm_miner dm = j"
        proof (cases "j = ?i")
          case True
          then show ?thesis using own j e(3) q(3) by auto
        next
          case False
          then have pj: "p_objs p j = Some m'" using other j(1) by simp
          from dp_invD(2) [OF inv pj j(2,3)] obtain dm' where
            "dp_mappers dp (nat (m_mapperId m')) = Some (Some dm')" "dm_miner dm' = j" by blast
          then show ?thesis using fresh e(3) by auto
        qed
      qed
      then show ?thesis using k e(1) by simp
    qed
  qed
qed

end
