(* ===== verification/Stats.thy ===== *)
theory Stats
  imports Miners "HOL-Library.Multiset"
begin

text \<open>
  The share statistics (\<open>src/proxy/StatsData.h\<close>, \<open>Stats.h\<close>, \<open>Stats.cpp\<close>). The handlers get the
  process they read the miner of an event from; the process counter of accepted shares is in it.
\<close>

record stats_data =
  sd_hashrate :: "rat list"
  sd_topDiff :: "u64 list"
  sd_latency :: "u16 list"
  sd_accepted :: u64
  sd_connections :: u64
  sd_donateHashes :: u64
  sd_expired :: u64
  sd_hashes :: u64
  sd_invalid :: u64
  sd_maxMiners :: u64
  sd_miners :: u64
  sd_rejected :: u64
  sd_startTime :: u64
  sd_upstreams :: upstreams

definition sd_new :: "u64 \<Rightarrow> stats_data" where
  "sd_new now =
     \<lparr>sd_hashrate = replicate 6 0, sd_topDiff = replicate 10 0, sd_latency = [], sd_accepted = 0,
      sd_connections = 0, sd_donateHashes = 0, sd_expired = 0, sd_hashes = 0, sd_invalid = 0,
      sd_maxMiners = 0, sd_miners = 0, sd_rejected = 0, sd_startTime = now, sd_upstreams = mk_upstreams 0 0 0\<rparr>"

definition sd_uptime :: "u64 \<Rightarrow> stats_data \<Rightarrow> u64" where
  "sd_uptime now d = (now - sd_startTime d) div 1000"

definition sd_avgTime :: "u64 \<Rightarrow> stats_data \<Rightarrow> u32" where
  "sd_avgTime now d =
     (if sd_latency d = [] then 0 else ucast (sd_uptime now d div of_nat (length (sd_latency d))))"

text \<open>\<open>nth_element\<close> puts the element of that rank at its place.\<close>

definition sd_avgLatency :: "stats_data \<Rightarrow> u32" where
  "sd_avgLatency d =
     (let calls = length (sd_latency d) in
      if calls = 0 then 0 else ucast (sort (sd_latency d) ! (calls div 2)))"

definition sd_ratio :: "stats_data \<Rightarrow> rat" where
  "sd_ratio d = upstreams_ratio (sd_upstreams d) (sd_miners d)"

definition sd_add :: "stats_data \<Rightarrow> stats_data \<Rightarrow> stats_data" where
  "sd_add d e =
     d\<lparr>sd_upstreams := upstreams_add (sd_upstreams d) (sd_upstreams e),
       sd_accepted := sd_accepted d + sd_accepted e, sd_connections := sd_connections d + sd_connections e,
       sd_donateHashes := sd_donateHashes d + sd_donateHashes e, sd_expired := sd_expired d + sd_expired e,
       sd_hashes := sd_hashes d + sd_hashes e, sd_invalid := sd_invalid d + sd_invalid e,
       sd_rejected := sd_rejected d + sd_rejected e, sd_hashrate := map2 (+) (sd_hashrate d) (sd_hashrate e)\<rparr>"

record stats =
  st_data :: stats_data
  st_hashrate :: ticking_counter

definition st_new :: "u64 \<Rightarrow> stats" where
  "st_new now = \<lparr>st_data = sd_new now, st_hashrate = tc_new 4\<rparr>"

text \<open>The number of seconds is an \<open>int\<close> that becomes a \<open>size_t\<close>.\<close>

definition st_calc :: "stats \<Rightarrow> int \<Rightarrow> rat" where
  "st_calc s seconds = tc_calc (st_hashrate s) (unat (of_int seconds :: u64))"

definition stats_tick :: "u64 \<Rightarrow> nat \<Rightarrow> upstreams \<Rightarrow> counters \<Rightarrow> stats \<Rightarrow> stats" where
  "stats_tick now ticks ups c s =
     (if (ticks + 1) mod tc_tickTime (st_hashrate s) \<noteq> 0 then s
      else
        let s = s\<lparr>st_hashrate := tc_tick (st_hashrate s)\<rparr>;
            uptime = sint (ucast (sd_uptime now (st_data s)) :: u32)
        in s\<lparr>st_data := (st_data s)
               \<lparr>sd_hashrate := map (st_calc s) [60, 600, 3600, 3600 * 12, 3600 * 24, uptime],
                sd_upstreams := ups, sd_miners := c_miners c, sd_maxMiners := c_maxMiners c,
                sd_expired := c_expired c\<rparr>\<rparr>)"

text \<open>\<open>AcceptEvent::statsDiff\<close>: the miner is read.\<close>

definition ae_statsDiff :: "proc \<Rightarrow> accept_event \<Rightarrow> u64" where
  "ae_statsDiff p ev =
     (case ae_miner ev of
        None \<Rightarrow> sr_diff (ae_result ev)
      | Some i \<Rightarrow>
          (case p_objs p i of
             None \<Rightarrow> sr_diff (ae_result ev)
           | Some m \<Rightarrow> if m_customDiff m \<noteq> 0 then min (m_customDiff m) (sr_diff (ae_result ev)) else sr_diff (ae_result ev)))"

definition ae_dangling :: "proc \<Rightarrow> accept_event \<Rightarrow> bool" where
  "ae_dangling p ev = (case ae_miner ev of None \<Rightarrow> False | Some i \<Rightarrow> p_objs p i = None)"

definition ae_isRejected :: "accept_event \<Rightarrow> bool" where
  "ae_isRejected ev \<longleftrightarrow> ae_error ev \<noteq> None"

definition top_diff_add :: "u64 \<Rightarrow> u64 list \<Rightarrow> u64 list" where
  "top_diff_add actualDiff tops =
     (let ln = length tops - 1 in
      if actualDiff > tops ! ln then rev (sort (tops[ln := actualDiff])) else tops)"

definition st_accept :: "config \<Rightarrow> accept_event \<Rightarrow> proc \<Rightarrow> stats \<Rightarrow> proc \<times> stats" where
  "st_accept cfg ev p s =
     (if ae_customDiff ev \<and> \<not> cfg_customDiffStats cfg then (p, s)
      else
        let r = ae_result ev;
            s = s\<lparr>st_hashrate := tc_add (if cfg_customDiffStats cfg then ae_statsDiff p ev else sr_diff r) (st_hashrate s)\<rparr>;
            p = (if cfg_customDiffStats cfg \<and> ae_dangling p ev then p\<lparr>p_fault := True\<rparr> else p)
        in if ae_customDiff ev then (p, s)
           else
             let d = st_data s;
                 d = d\<lparr>sd_accepted := sd_accepted d + 1, sd_hashes := sd_hashes d + sr_diff r\<rparr>;
                 d = (if ae_donate ev then d\<lparr>sd_donateHashes := sd_donateHashes d + sr_diff r\<rparr> else d);
                 p = p\<lparr>p_cnt := (p_cnt p)\<lparr>c_accepted := c_accepted (p_cnt p) + 1\<rparr>\<rparr>;
                 d = d\<lparr>sd_topDiff := top_diff_add (sr_actualDiff r) (sd_topDiff d),
                       sd_latency := sd_latency d @ [if sr_elapsed r > 0xFFFF then 0xFFFF else ucast (sr_elapsed r)]\<rparr>
             in (p, s\<lparr>st_data := d\<rparr>))"

definition st_reject :: "accept_event \<Rightarrow> stats \<Rightarrow> stats" where
  "st_reject ev s =
     (if ae_donate ev then s else s\<lparr>st_data := (st_data s)\<lparr>sd_rejected := sd_rejected (st_data s) + 1\<rparr>\<rparr>)"

text \<open>The other events: a connection, its end, a share that was rejected before it reached a pool.\<close>

definition st_connection :: "stats \<Rightarrow> stats" where
  "st_connection s = s\<lparr>st_data := (st_data s)\<lparr>sd_connections := sd_connections (st_data s) + 1\<rparr>\<rparr>"

definition st_close :: "stats \<Rightarrow> stats" where
  "st_close s = s\<lparr>st_data := (st_data s)\<lparr>sd_connections := sd_connections (st_data s) - 1\<rparr>\<rparr>"

definition st_invalid :: "stats \<Rightarrow> stats" where
  "st_invalid s = s\<lparr>st_data := (st_data s)\<lparr>sd_invalid := sd_invalid (st_data s) + 1\<rparr>\<rparr>"

definition st_onAccept :: "config \<Rightarrow> accept_event \<Rightarrow> proc \<Rightarrow> stats \<Rightarrow> proc \<times> stats" where
  "st_onAccept cfg ev p s = (if ae_isRejected ev then (p, st_reject ev s) else st_accept cfg ev p s)"

section \<open>The best shares\<close>

text \<open>The reference: the ten largest of all shares so far, in descending order.\<close>

definition ten_best :: "u64 list \<Rightarrow> u64 list" where
  "ten_best ds = take 10 (rev (sort (ds @ replicate 10 0)))"

lemma length_ten_best [simp]: "length (ten_best ds) = 10"
  by (simp add: ten_best_def)

lemma sort_desc_unique: "sorted (rev ys) \<Longrightarrow> mset ys = mset xs \<Longrightarrow> rev (sort xs) = ys"
  using properties_for_sort [of "rev ys" xs] by simp

text \<open>One more value, seen through the first \<open>n\<close> of a descending list.\<close>

lemma take_best_insert:
  fixes l :: "'a :: linorder list"
  assumes desc: "sorted (rev l)" and n: "0 < n" "n \<le> length l"
  shows "take n (rev (sort (x # l))) =
    (if x > take n l ! (n - 1) then rev (sort ((take n l)[n - 1 := x])) else take n l)"
proof -
  define c y b where "c = take (n - 1) l" and "y = l ! (n - 1)" and "b = drop n l"
  have l: "l = c @ y # b"
    using n id_take_nth_drop [of "n - 1" l] by (simp add: c_def y_def b_def)
  have len: "length c = n - 1" using n by (simp add: c_def)
  have t: "take n l = c @ [y]" "take n l ! (n - 1) = y" "(take n l)[n - 1 := x] = c @ [x]"
    using len n(1) by (auto simp: l nth_append list_update_append take_Cons')
  have o: "\<forall>u \<in> set b. u \<le> y" "\<forall>u \<in> set c. y \<le> u" "\<forall>u \<in> set b. \<forall>v \<in> set c. u \<le> v" "sorted (rev b)" "sorted (rev c)"
    using desc by (auto simp: l sorted_append)
  show ?thesis
  proof (cases "x > y")
    case True
    have "rev (sort (x # l)) = rev (sort (c @ [x])) @ y # b"
    proof (rule sort_desc_unique)
      show "sorted (rev (rev (sort (c @ [x])) @ y # b))"
        using o True by (fastforce simp: sorted_append)
    qed (simp add: l)
    then show ?thesis using True t len n(1) by simp
  next
    case False
    have "rev (sort (x # l)) = (c @ [y]) @ rev (sort (x # b))"
    proof (rule sort_desc_unique)
      show "sorted (rev ((c @ [y]) @ rev (sort (x # b))))"
        using o False order_trans [of x y] by (auto simp: sorted_append sorted_insort set_insort_key)
    qed (simp add: l)
    then show ?thesis using False t len n(1) by simp
  qed
qed

text \<open>The array holds the ten best of all shares.\<close>

lemma top_diff_add_ten_best: "top_diff_add x (ten_best ds) = ten_best (x # ds)"
proof -
  let ?l = "rev (sort (ds @ replicate 10 0))"
  have "rev (sort ((x # ds) @ replicate 10 0)) = rev (sort (x # ?l))"
    by (rule sort_desc_unique) (simp_all add: sorted_insort)
  then have "ten_best (x # ds) = take 10 (rev (sort (x # ?l)))" by (simp add: ten_best_def)
  also have "\<dots> = (if x > take 10 ?l ! (10 - 1) then rev (sort ((take 10 ?l)[10 - 1 := x])) else take 10 ?l)"
    by (rule take_best_insert) simp_all
  also have "\<dots> = top_diff_add x (ten_best ds)"
    unfolding top_diff_add_def Let_def length_ten_best by (simp add: ten_best_def)
  finally show ?thesis by simp
qed

text \<open>The accepted shares of a list of accept events, the latest first.\<close>

definition ae_counted :: "accept_event \<Rightarrow> bool" where
  "ae_counted ev \<longleftrightarrow> \<not> ae_isRejected ev \<and> \<not> ae_customDiff ev"

definition st_onAccepts :: "config \<Rightarrow> accept_event list \<Rightarrow> proc \<times> stats \<Rightarrow> proc \<times> stats" where
  "st_onAccepts cfg evs ps = fold (\<lambda>ev (p, s). st_onAccept cfg ev p s) evs ps"

lemma st_onAccept_counts:
  assumes "st_onAccept cfg ev p s = (p', s')"
  shows "sd_accepted (st_data s') = sd_accepted (st_data s) + of_bool (ae_counted ev)"
    and "sd_hashes (st_data s') = sd_hashes (st_data s) + (if ae_counted ev then sr_diff (ae_result ev) else 0)"
    and "sd_topDiff (st_data s') = (if ae_counted ev then top_diff_add (sr_actualDiff (ae_result ev)) (sd_topDiff (st_data s))
         else sd_topDiff (st_data s))"
    and "length (sd_latency (st_data s')) = length (sd_latency (st_data s)) + of_bool (ae_counted ev)"
    and "sd_rejected (st_data s') = sd_rejected (st_data s) + of_bool (ae_isRejected ev \<and> \<not> ae_donate ev)"
    and "c_accepted (p_cnt p') = c_accepted (p_cnt p) + of_bool (ae_counted ev)"
    and "p_objs p' = p_objs p"
  using assms by (auto simp: st_onAccept_def st_accept_def st_reject_def ae_counted_def Let_def split: if_splits)

lemma st_onAccepts_counts:
  "st_onAccepts cfg evs (p, s) = (p', s') \<Longrightarrow> sd_topDiff (st_data s) = ten_best ds \<Longrightarrow>
     sd_accepted (st_data s') = sd_accepted (st_data s) + of_nat (length (List.filter ae_counted evs)) \<and>
     sd_hashes (st_data s') = sd_hashes (st_data s) + (\<Sum>ev\<leftarrow>List.filter ae_counted evs. sr_diff (ae_result ev)) \<and>
     sd_topDiff (st_data s') =
       ten_best (rev (map (\<lambda>ev. sr_actualDiff (ae_result ev)) (List.filter ae_counted evs)) @ ds)"
proof (induction evs arbitrary: p s ds)
  case (Cons ev evs)
  obtain p1 s1 where s1: "st_onAccept cfg ev p s = (p1, s1)" by fastforce
  note c = st_onAccept_counts [OF s1]
  have r: "st_onAccepts cfg evs (p1, s1) = (p', s')" using Cons.prems(1) s1 by (simp add: st_onAccepts_def)
  let ?ds = "if ae_counted ev then sr_actualDiff (ae_result ev) # ds else ds"
  have t: "sd_topDiff (st_data s1) = ten_best ?ds" using c(3) Cons.prems(2) top_diff_add_ten_best by simp
  show ?case using Cons.IH [OF r t] c(1,2) by simp
qed (simp add: st_onAccepts_def)

lemma sd_new_top: "sd_topDiff (sd_new now) = ten_best []"
  by (simp add: sd_new_def ten_best_def)

text \<open>The median: as many latencies lie below it as above.\<close>

lemma sd_avgLatency_median:
  assumes "sd_latency d \<noteq> []"
  shows "\<exists>v \<in> set (sd_latency d). sd_avgLatency d = ucast v"
proof -
  have "length (sd_latency d) div 2 < length (sort (sd_latency d))" using assms by simp
  then have "sort (sd_latency d) ! (length (sd_latency d) div 2) \<in> set (sort (sd_latency d))" by (rule nth_mem)
  then show ?thesis using assms by (auto simp: sd_avgLatency_def Let_def)
qed

end
