(* ===== verification/Workers.thy ===== *)
theory Workers
  imports Stats
begin

text \<open>
  The table of workers (\<open>src/proxy/workers/Worker.h\<close>, \<open>Worker.cpp\<close>, \<open>Workers.h\<close>, \<open>Workers.cpp\<close>): the
  miners grouped by rig, user, password, agent or address. The two maps and the vector are as in
  the code; a worker is never removed from the vector.
\<close>

section \<open>Worker\<close>

record worker =
  w_id :: nat
  w_ip :: string
  w_name :: string
  w_hashrate :: ticking_counter
  w_accepted :: u64
  w_connections :: u64
  w_hashes :: u64
  w_invalid :: u64
  w_lastHash :: u64
  w_rejected :: u64

definition worker_new :: "nat \<Rightarrow> string \<Rightarrow> string \<Rightarrow> worker" where
  "worker_new i name ip =
     \<lparr>w_id = i, w_ip = ip, w_name = name, w_hashrate = tc_new 4, w_accepted = 0, w_connections = 1, w_hashes = 0,
      w_invalid = 0, w_lastHash = 0, w_rejected = 0\<rparr>"

definition worker_add_share :: "u64 \<Rightarrow> u64 \<Rightarrow> worker \<Rightarrow> worker" where
  "worker_add_share now diff w =
     w\<lparr>w_accepted := w_accepted w + 1, w_hashes := w_hashes w + diff, w_hashrate := tc_add diff (w_hashrate w),
       w_lastHash := now\<rparr>"

definition worker_tick :: "worker \<Rightarrow> worker" where
  "worker_tick w = w\<lparr>w_hashrate := tc_tick (w_hashrate w)\<rparr>"

definition worker_add :: "string \<Rightarrow> worker \<Rightarrow> worker" where
  "worker_add ip w = w\<lparr>w_ip := ip, w_connections := w_connections w + 1\<rparr>"

definition worker_reject :: "bool \<Rightarrow> worker \<Rightarrow> worker" where
  "worker_reject invalid w =
     (if invalid then w\<lparr>w_invalid := w_invalid w + 1\<rparr> else w\<lparr>w_rejected := w_rejected w + 1\<rparr>)"

definition worker_remove :: "worker \<Rightarrow> worker" where
  "worker_remove w = w\<lparr>w_connections := w_connections w - 1\<rparr>"

section \<open>Workers\<close>

record workers =
  wk_mode :: workers_mode
  wk_miners :: "int \<Rightarrow> nat option"
  wk_map :: "string \<Rightarrow> nat option"
  wk_workers :: "worker list"

definition workers_new :: "config \<Rightarrow> workers" where
  "workers_new cfg =
     \<lparr>wk_mode = cfg_workersMode cfg, wk_miners = Map.empty, wk_map = Map.empty, wk_workers = []\<rparr>"

definition wk_isEnabled :: "workers \<Rightarrow> bool" where
  "wk_isEnabled wk \<longleftrightarrow> wk_mode wk \<noteq> WNone"

definition indexByMiner :: "miner \<Rightarrow> workers \<Rightarrow> nat option" where
  "indexByMiner m wk =
     (if m_mapperId m = - 1 then None
      else case wk_miners wk (m_id m) of
             None \<Rightarrow> None
           | Some index \<Rightarrow> if index < length (wk_workers wk) then Some index else None)"

definition nameByMiner :: "workers_mode \<Rightarrow> miner \<Rightarrow> cstr" where
  "nameByMiner md m =
     (case md of
        RigID \<Rightarrow> miner_rigId True m
      | WUser \<Rightarrow> m_user m
      | WPassword \<Rightarrow> m_password m
      | WAgent \<Rightarrow> m_agent m
      | WIP \<Rightarrow> Some (m_ip m)
      | WNone \<Rightarrow> None)"

definition worker_key :: "workers_mode \<Rightarrow> miner \<Rightarrow> string" where
  "worker_key md m = (case nameByMiner md m of None \<Rightarrow> ''unknown'' | Some n \<Rightarrow> n)"

definition upd_worker :: "(worker \<Rightarrow> worker) \<Rightarrow> nat \<Rightarrow> workers \<Rightarrow> workers" where
  "upd_worker f i wk = wk\<lparr>wk_workers := (wk_workers wk)[i := f (wk_workers wk ! i)]\<rparr>"

definition workers_add :: "miner \<Rightarrow> workers \<Rightarrow> workers" where
  "workers_add m wk =
     (let key = worker_key (wk_mode wk) m in
      case wk_map wk key of
        None \<Rightarrow>
          let worker_id = length (wk_workers wk) in
          wk\<lparr>wk_map := (wk_map wk)(key \<mapsto> worker_id),
             wk_workers := wk_workers wk @ [worker_new worker_id key (m_ip m)],
             wk_miners := (wk_miners wk)(m_id m \<mapsto> worker_id)\<rparr>
      | Some worker_id \<Rightarrow>
          let wk = upd_worker (worker_add (m_ip m)) worker_id wk
          in wk\<lparr>wk_miners := (wk_miners wk)(m_id m \<mapsto> worker_id)\<rparr>)"

definition workers_reset :: "miner list \<Rightarrow> workers \<Rightarrow> workers" where
  "workers_reset ms wk =
     (let wk = wk\<lparr>wk_miners := Map.empty, wk_map := Map.empty, wk_workers := []\<rparr> in
      if wk_mode wk = WNone then wk
      else fold workers_add (List.filter (\<lambda>m. m_mapperId m \<noteq> - 1) ms) wk)"

definition workers_tick :: "nat \<Rightarrow> workers \<Rightarrow> workers" where
  "workers_tick ticks wk =
     (if ticks mod 4 \<noteq> 0 then wk else wk\<lparr>wk_workers := map worker_tick (wk_workers wk)\<rparr>)"

definition workers_onConfigChanged :: "config \<Rightarrow> miner list \<Rightarrow> workers \<Rightarrow> workers" where
  "workers_onConfigChanged cfg ms wk =
     (if wk_mode wk = cfg_workersMode cfg then wk
      else workers_reset ms (wk\<lparr>wk_mode := cfg_workersMode cfg\<rparr>))"

text \<open>The miner of an event, of which the accept event may have none.\<close>

definition workers_accept :: "config \<Rightarrow> u64 \<Rightarrow> proc \<Rightarrow> accept_event \<Rightarrow> workers \<Rightarrow> workers" where
  "workers_accept cfg now p ev wk =
     (if ae_customDiff ev \<and> \<not> cfg_customDiffStats cfg then wk
      else case Option.bind (ae_miner ev) (p_objs p) of
             None \<Rightarrow> wk
           | Some m \<Rightarrow>
               (case indexByMiner m wk of
                  None \<Rightarrow> wk
                | Some index \<Rightarrow>
                    if \<not> ae_isRejected ev
                    then upd_worker (worker_add_share now
                           (if cfg_customDiffStats cfg then ae_statsDiff p ev else sr_diff (ae_result ev))) index wk
                    else upd_worker (worker_reject False) index wk))"

definition workers_login :: "miner \<Rightarrow> workers \<Rightarrow> workers" where
  "workers_login m wk = (if m_routeId m \<noteq> - 1 then wk else workers_add m wk)"

definition workers_reject :: "miner \<Rightarrow> workers \<Rightarrow> workers" where
  "workers_reject m wk =
     (if m_routeId m \<noteq> - 1 then wk
      else case indexByMiner m wk of None \<Rightarrow> wk | Some index \<Rightarrow> upd_worker (worker_reject True) index wk)"

definition workers_remove :: "miner \<Rightarrow> workers \<Rightarrow> workers" where
  "workers_remove m wk =
     (if m_routeId m \<noteq> - 1 then wk
      else case indexByMiner m wk of None \<Rightarrow> wk | Some index \<Rightarrow> upd_worker worker_remove index wk)"

text \<open>The handlers do nothing while the table is disabled.\<close>

definition when_enabled :: "(workers \<Rightarrow> workers) \<Rightarrow> workers \<Rightarrow> workers" where
  "when_enabled f wk = (if wk_isEnabled wk then f wk else wk)"

datatype workers_event =
    WkLogin miner
  | WkClose miner
  | WkAccept config u64 proc accept_event
  | WkReject miner
  | WkTick nat
  | WkConfig config "miner list"

fun workers_step :: "workers \<Rightarrow> workers_event \<Rightarrow> workers" where
  "workers_step wk (WkLogin m) = when_enabled (workers_login m) wk"
| "workers_step wk (WkClose m) = when_enabled (workers_remove m) wk"
| "workers_step wk (WkAccept cfg now p ev) = when_enabled (workers_accept cfg now p ev) wk"
| "workers_step wk (WkReject m) = when_enabled (workers_reject m) wk"
| "workers_step wk (WkTick ticks) = workers_tick ticks wk"
| "workers_step wk (WkConfig cfg ms) = workers_onConfigChanged cfg ms wk"

section \<open>The table is consistent\<close>

definition wk_inv :: "workers \<Rightarrow> bool" where
  "wk_inv wk \<longleftrightarrow>
     (\<forall>i < length (wk_workers wk). w_id (wk_workers wk ! i) = i \<and> wk_map wk (w_name (wk_workers wk ! i)) = Some i) \<and>
     (\<forall>k i. wk_map wk k = Some i \<longrightarrow> i < length (wk_workers wk) \<and> w_name (wk_workers wk ! i) = k) \<and>
     (\<forall>x i. wk_miners wk x = Some i \<longrightarrow> i < length (wk_workers wk))"

lemma wk_invD:
  assumes "wk_inv wk"
  shows "i < length (wk_workers wk) \<Longrightarrow> w_id (wk_workers wk ! i) = i"
    and "i < length (wk_workers wk) \<Longrightarrow> wk_map wk (w_name (wk_workers wk ! i)) = Some i"
    and "wk_map wk k = Some i \<Longrightarrow> i < length (wk_workers wk) \<and> w_name (wk_workers wk ! i) = k"
    and "wk_miners wk x = Some i \<Longrightarrow> i < length (wk_workers wk)"
  using assms unfolding wk_inv_def by blast+

lemma wk_inv_empty: "wk_map wk = Map.empty \<Longrightarrow> wk_miners wk = Map.empty \<Longrightarrow> wk_workers wk = [] \<Longrightarrow> wk_inv wk"
  by (simp add: wk_inv_def)

lemma upd_worker_inv:
  assumes "wk_inv wk" and "\<And>w. w_id (f w) = w_id w" and "\<And>w. w_name (f w) = w_name w"
  shows "wk_inv (upd_worker f i wk)"
proof -
  have n: "w_id (wk_workers (upd_worker f i wk) ! k) = w_id (wk_workers wk ! k) \<and>
      w_name (wk_workers (upd_worker f i wk) ! k) = w_name (wk_workers wk ! k)"
    if "k < length (wk_workers wk)" for k
    using that assms(2,3) by (cases "k = i") (simp_all add: upd_worker_def)
  have "length (wk_workers (upd_worker f i wk)) = length (wk_workers wk)" "wk_map (upd_worker f i wk) = wk_map wk"
    "wk_miners (upd_worker f i wk) = wk_miners wk"
    by (simp_all add: upd_worker_def)
  then show ?thesis using assms(1) n unfolding wk_inv_def by simp
qed

lemma worker_keeps [simp]:
  "w_id (worker_add_share now d w) = w_id w" "w_name (worker_add_share now d w) = w_name w"
  "w_id (worker_add ip w) = w_id w" "w_name (worker_add ip w) = w_name w"
  "w_id (worker_reject b w) = w_id w" "w_name (worker_reject b w) = w_name w"
  "w_id (worker_remove w) = w_id w" "w_name (worker_remove w) = w_name w"
  "w_id (worker_tick w) = w_id w" "w_name (worker_tick w) = w_name w"
  by (simp_all add: worker_add_share_def worker_add_def worker_reject_def worker_remove_def worker_tick_def)

lemma workers_add_inv: "wk_inv wk \<Longrightarrow> wk_inv (workers_add m wk)"
proof -
  assume inv: "wk_inv wk"
  show ?thesis
  proof (cases "wk_map wk (worker_key (wk_mode wk) m)")
    case None
    let ?n = "length (wk_workers wk)" and ?key = "worker_key (wk_mode wk) m"
    have f: "wk_workers (workers_add m wk) = wk_workers wk @ [worker_new ?n ?key (m_ip m)]"
      "wk_map (workers_add m wk) = (wk_map wk)(?key \<mapsto> ?n)" "wk_miners (workers_add m wk) = (wk_miners wk)(m_id m \<mapsto> ?n)"
      using None by (simp_all add: workers_add_def Let_def)
    have w: "w_id (worker_new ?n ?key (m_ip m)) = ?n" "w_name (worker_new ?n ?key (m_ip m)) = ?key"
      by (simp_all add: worker_new_def)
    show ?thesis
      unfolding wk_inv_def f
    proof (intro conjI allI impI)
      fix i
      assume "i < length (wk_workers wk @ [worker_new ?n ?key (m_ip m)])"
      then consider "i < ?n" | "i = ?n" by fastforce
      then show "w_id ((wk_workers wk @ [worker_new ?n ?key (m_ip m)]) ! i) = i"
        using wk_invD(1) [OF inv, of i] w(1) by cases (simp_all add: nth_append)
      show "((wk_map wk)(?key \<mapsto> ?n)) (w_name ((wk_workers wk @ [worker_new ?n ?key (m_ip m)]) ! i)) = Some i"
      proof (cases "i < ?n")
        case True
        then have "wk_map wk (w_name (wk_workers wk ! i)) = Some i" by (rule wk_invD(2) [OF inv])
        moreover from this have "w_name (wk_workers wk ! i) \<noteq> ?key" using None by auto
        ultimately show ?thesis using True by (simp add: nth_append)
      next
        case False
        then have "i = ?n" using \<open>i < length (wk_workers wk @ _)\<close> by simp
        then show ?thesis using w(2) by simp
      qed
    next
      fix k i
      assume "((wk_map wk)(?key \<mapsto> ?n)) k = Some i"
      then show "i < length (wk_workers wk @ [worker_new ?n ?key (m_ip m)])"
        "w_name ((wk_workers wk @ [worker_new ?n ?key (m_ip m)]) ! i) = k"
        using wk_invD(3) [OF inv, of k i] w by (auto simp: nth_append split: if_splits)
    next
      fix x i
      assume "((wk_miners wk)(m_id m \<mapsto> ?n)) x = Some i"
      then show "i < length (wk_workers wk @ [worker_new ?n ?key (m_ip m)])"
        using wk_invD(4) [OF inv, of x i] by (auto split: if_splits)
    qed
  next
    case (Some i)
    have "wk_inv (upd_worker (worker_add (m_ip m)) i wk)" by (rule upd_worker_inv [OF inv]) simp_all
    moreover have "i < length (wk_workers wk)" using inv Some by (simp add: wk_inv_def)
    ultimately show ?thesis
      using Some by (auto simp: workers_add_def Let_def wk_inv_def upd_worker_def)
  qed
qed

lemma workers_fold_inv: "wk_inv wk \<Longrightarrow> wk_inv (fold workers_add ms wk)"
  by (induction ms arbitrary: wk) (simp_all add: workers_add_inv)

interpretation workers: event_component "\<lambda>wk. \<exists>cfg. wk = workers_new cfg" "\<lambda>_ _. True" workers_step wk_inv
proof
  show "\<exists>cfg. wk = workers_new cfg \<Longrightarrow> wk_inv wk" for wk
    by (auto simp: workers_new_def intro: wk_inv_empty)
  fix wk e
  assume inv: "wk_inv wk"
  note upd = upd_worker_inv [OF inv]
  show "wk_inv (workers_step wk e)"
  proof (cases e)
    case (WkTick ticks)
    then show ?thesis using inv by (simp add: workers_tick_def wk_inv_def)
  next
    case (WkConfig cfg ms)
    have "wk_inv (workers_reset ms wk')" for wk'
      by (auto simp: workers_reset_def Let_def intro!: workers_fold_inv wk_inv_empty)
    then show ?thesis using inv WkConfig by (simp add: workers_onConfigChanged_def)
  qed (use inv upd workers_add_inv [OF inv] in
      \<open>auto simp: when_enabled_def workers_login_def workers_remove_def workers_accept_def workers_reject_def
         split: option.split\<close>)
qed

text \<open>A share is counted for the worker of its miner and for no other.\<close>

lemma workers_accept_one:
  assumes "ae_miner ev = Some i" and "p_objs p i = Some m" and "indexByMiner m wk = Some k"
    and "\<not> ae_isRejected ev" and "\<not> ae_customDiff ev" and "\<not> cfg_customDiffStats cfg"
  shows "wk_workers (workers_accept cfg now p ev wk) =
    (wk_workers wk)[k := worker_add_share now (sr_diff (ae_result ev)) (wk_workers wk ! k)]"
  using assms by (simp add: workers_accept_def upd_worker_def)

section \<open>The number of connections of a worker\<close>

text \<open>\<open>live\<close> holds the miners that logged in and have not closed.\<close>

definition wk_counts :: "int set \<Rightarrow> workers \<Rightarrow> bool" where
  "wk_counts live wk \<longleftrightarrow> finite live \<and> live \<subseteq> dom (wk_miners wk) \<and>
     (\<forall>k < length (wk_workers wk). w_connections (wk_workers wk ! k) = of_nat (card {x \<in> live. wk_miners wk x = Some k}))"

lemma wk_counts_add:
  assumes inv: "wk_inv wk" and counts: "wk_counts live wk" and new: "m_id m \<notin> live"
  shows "wk_counts (insert (m_id m) live) (workers_add m wk)"
proof -
  let ?wk = "workers_add m wk"
  obtain i where i: "wk_miners ?wk = (wk_miners wk)(m_id m \<mapsto> i)"
    "\<And>k. k < length (wk_workers ?wk) \<Longrightarrow> w_connections (wk_workers ?wk ! k) =
      (if k < length (wk_workers wk) then w_connections (wk_workers wk ! k) else 0) + of_bool (k = i)"
    "length (wk_workers wk) \<le> length (wk_workers ?wk)"
    "\<And>x k. x \<in> live \<Longrightarrow> wk_miners wk x = Some k \<Longrightarrow> k < length (wk_workers wk)"
  proof (cases "wk_map wk (worker_key (wk_mode wk) m)")
    case None
    show thesis
      by (rule that [of "length (wk_workers wk)"])
        (use None inv in \<open>auto simp: workers_add_def Let_def worker_new_def nth_append wk_inv_def\<close>)
  next
    case (Some i)
    then have "i < length (wk_workers wk)" using inv by (simp add: wk_inv_def)
    show thesis
      by (rule that [of i])
        (use Some inv in \<open>auto simp: workers_add_def Let_def upd_worker_def worker_add_def nth_list_update wk_inv_def\<close>)
  qed
  have fin: "finite live" using counts by (simp add: wk_counts_def)
  have "w_connections (wk_workers ?wk ! k) = of_nat (card {x \<in> insert (m_id m) live. wk_miners ?wk x = Some k})"
    if k: "k < length (wk_workers ?wk)" for k
  proof -
    let ?old = "{x \<in> live. wk_miners wk x = Some k}"
    have "{x \<in> insert (m_id m) live. wk_miners ?wk x = Some k} = (if k = i then insert (m_id m) ?old else ?old)"
      using new i(1) by auto
    then have c: "card {x \<in> insert (m_id m) live. wk_miners ?wk x = Some k} = card ?old + of_bool (k = i)"
      using fin new by simp
    have "(if k < length (wk_workers wk) then w_connections (wk_workers wk ! k) else 0) = of_nat (card ?old)"
    proof (cases "k < length (wk_workers wk)")
      case False
      then have "?old = {}" using i(4) by auto
      then show ?thesis using False by (simp only: if_False card.empty of_nat_0 semiring_1_class.of_nat_0)
    qed (use counts in \<open>simp add: wk_counts_def\<close>)
    then show ?thesis using i(2) [OF k] c by simp
  qed
  moreover have "insert (m_id m) live \<subseteq> dom (wk_miners ?wk)" using counts i(1) by (auto simp: wk_counts_def)
  ultimately show ?thesis using fin by (simp add: wk_counts_def)
qed

lemma wk_counts_remove:
  assumes inv: "wk_inv wk" and counts: "wk_counts live wk" and m: "m_id m \<in> live" "m_mapperId m \<noteq> - 1" "m_routeId m = - 1"
  shows "wk_counts (live - {m_id m}) (workers_remove m wk)"
proof -
  let ?wk = "workers_remove m wk"
  obtain i where i: "wk_miners wk (m_id m) = Some i" using counts m(1) by (auto simp: wk_counts_def)
  then have "i < length (wk_workers wk)" using inv by (simp add: wk_inv_def)
  then have e: "?wk = upd_worker worker_remove i wk" using i m(2,3) by (simp add: workers_remove_def indexByMiner_def)
  have fin: "finite live" using counts by (simp add: wk_counts_def)
  have "w_connections (wk_workers ?wk ! k) = of_nat (card {x \<in> live - {m_id m}. wk_miners ?wk x = Some k})"
    if k: "k < length (wk_workers wk)" for k
  proof -
    let ?old = "{x \<in> live. wk_miners wk x = Some k}"
    have s: "{x \<in> live - {m_id m}. wk_miners ?wk x = Some k} = ?old - {m_id m}" by (auto simp: e upd_worker_def)
    have old: "w_connections (wk_workers wk ! k) = of_nat (card ?old)" using counts k by (simp add: wk_counts_def)
    have w: "w_connections (wk_workers ?wk ! k) = w_connections (wk_workers wk ! k) - of_bool (k = i)"
      using k by (simp add: e upd_worker_def nth_list_update worker_remove_def)
    show ?thesis
    proof (cases "k = i")
      case True
      then have "m_id m \<in> ?old" using i m(1) by simp
      then have "card ?old = Suc (card (?old - {m_id m}))" using card_Suc_Diff1 [of ?old] fin by simp
      then show ?thesis unfolding s w old using True by simp
    next
      case False
      then have "m_id m \<notin> ?old" using i by simp
      then show ?thesis unfolding s w old using False by simp
    qed
  qed
  moreover have "length (wk_workers ?wk) = length (wk_workers wk)" "wk_miners ?wk = wk_miners wk"
    by (simp_all add: e upd_worker_def)
  ultimately show ?thesis using counts fin by (auto simp: wk_counts_def)
qed

end
