(* ===== verification/Recorder.thy ===== *)
theory Recorder
  imports Stats
begin

text \<open>
  The share recorder (\<open>src/proxy/Recorder.h\<close>, \<open>Recorder.cpp\<close>): each accepted share of a user with a
  wallet address is appended to the user's list in Redis. The server is a parameter: a function from
  its state and a command (the list of its arguments) to a reply, \<open>None\<close> for the null reply of a broken
  connection, and the next state.
\<close>

datatype redis_reply = ReplyStatus | ReplyArray | ReplyError string | ReplyOther

type_synonym 'r redis = "'r \<Rightarrow> string list \<Rightarrow> redis_reply option \<times> 'r"

section \<open>Addresses\<close>

definition allowed_chars :: string where
  "allowed_chars = ''123456789ABCDEFGHJKLMNPQRSTUVWXYZabcdefghijkmnopqrstuvwxyz''"

definition validateAddress :: "cstr \<Rightarrow> bool" where
  "validateAddress s =
     (case s of
        None \<Rightarrow> False
      | Some s \<Rightarrow>
          if length s \<noteq> 95 then False
          else if hd s \<noteq> CHR ''4'' \<and> hd s \<noteq> CHR ''8'' then False
          else list_all (\<lambda>c. c \<in> set allowed_chars) s)"

section \<open>Commands\<close>

text \<open>\<open>snprintf\<close> into a buffer of \<open>n\<close> bytes cuts the text.\<close>

definition snprintf_cut :: "nat \<Rightarrow> string \<Rightarrow> string" where
  "snprintf_cut n s = take (n - 1) s"

definition share_key :: "string \<Rightarrow> string" where
  "share_key user = snprintf_cut 1024 (''s_'' @ user)"

definition share_json :: "u64 \<Rightarrow> u64 \<Rightarrow> string" where
  "share_json ts diff =
     snprintf_cut 512 (''{'' @ json_str ''timestamp'' @ '':'' @ dec_nat (unat ts) @ '','' @ json_str ''diff'' @ '':'' @
       dec_nat (unat diff) @ ''}'')"

definition cmd_arrappend :: "string \<Rightarrow> string \<Rightarrow> string list" where
  "cmd_arrappend key js = [''JSON.ARRAPPEND'', key, ''$'', js]"

definition cmd_set :: "string \<Rightarrow> string list" where
  "cmd_set key = [''JSON.SET'', key, ''$'', ''[]'']"

definition missing_key_text :: string where
  "missing_key_text = ''could not perform this operation on a key that doesn'' @ [CHR 0x27] @ ''t exist''"

text \<open>\<open>has_ctx\<close> says whether the constructor got a context.\<close>

definition add_share_to_redis :: "'r redis \<Rightarrow> bool \<Rightarrow> string \<Rightarrow> u64 \<Rightarrow> u64 \<Rightarrow> 'r \<Rightarrow> 'r" where
  "add_share_to_redis redis has_ctx user ts diff r =
     (if \<not> has_ctx then r
      else
        let key = share_key user; js = share_json ts diff; (reply, r) = redis r (cmd_arrappend key js)
        in case reply of
             Some (ReplyError msg) \<Rightarrow>
               if strstr msg missing_key_text \<noteq> None then
                 let (reply_set, r) = redis r (cmd_set key); (reply, r) = redis r (cmd_arrappend key js) in r
               else r
           | _ \<Rightarrow> r)"

section \<open>Shares\<close>

text \<open>\<open>strncpy\<close> of at most 1023 characters, cut at the plus sign, and copied again.\<close>

definition share_user :: "string \<Rightarrow> string" where
  "share_user og_user =
     (let buffer_user = take 1023 og_user;
          buffer_user = (case strchr buffer_user (CHR ''+'') of Some i \<Rightarrow> take i buffer_user | None \<Rightarrow> buffer_user)
      in take 1023 buffer_user)"

text \<open>\<open>None\<close> is the undefined behaviour of a null pointer: the event has no miner, or its miner logged
  in without a name.\<close>

definition recorder_accept :: "'r redis \<Rightarrow> bool \<Rightarrow> proc \<Rightarrow> u64 \<Rightarrow> accept_event \<Rightarrow> 'r \<Rightarrow> 'r option" where
  "recorder_accept redis has_ctx p now ev r =
     (if ae_donate ev \<or> ae_customDiff ev then Some r
      else
        case Option.bind (ae_miner ev) (p_objs p) of
          None \<Rightarrow> None
        | Some m \<Rightarrow>
            (case m_user m of
               None \<Rightarrow> None
             | Some og_user \<Rightarrow>
                 let final_user = share_user og_user in
                 if validateAddress (Some final_user)
                 then Some (add_share_to_redis redis has_ctx final_user now (sr_diff (ae_result ev)) r)
                 else Some r))"

definition recorder_onAccept :: "'r redis \<Rightarrow> bool \<Rightarrow> proc \<Rightarrow> u64 \<Rightarrow> accept_event \<Rightarrow> 'r \<Rightarrow> 'r option" where
  "recorder_onAccept redis has_ctx p now ev r =
     (if ae_isRejected ev then Some r else recorder_accept redis has_ctx p now ev r)"

section \<open>The documented commands\<close>

text \<open>What the documentation of the JSON module says of the two commands at the root path: \<open>db\<close> gives
  the arrays of the server by key.\<close>

definition redis_json :: "('r \<Rightarrow> string \<Rightarrow> string list option) \<Rightarrow> 'r redis \<Rightarrow> bool" where
  "redis_json db redis \<longleftrightarrow>
     (\<forall>r key js. case redis r (cmd_arrappend key js) of (reply, r') \<Rightarrow>
        (case db r key of
           Some xs \<Rightarrow> reply = Some ReplyArray \<and> db r' = (db r)(key \<mapsto> xs @ [js])
         | None \<Rightarrow> (\<exists>msg. reply = Some (ReplyError msg) \<and> strstr msg missing_key_text \<noteq> None) \<and> db r' = db r)) \<and>
     (\<forall>r key. case redis r (cmd_set key) of (reply, r') \<Rightarrow>
        reply = Some ReplyStatus \<and> db r' = (db r)(key \<mapsto> []))"

lemma redis_append_some:
  assumes "redis_json db redis" and "db r key = Some xs" and "redis r (cmd_arrappend key js) = (reply, r')"
  shows "reply = Some ReplyArray" "db r' = (db r)(key \<mapsto> xs @ [js])"
  using assms unfolding redis_json_def by (force split: prod.splits)+

lemma redis_append_none:
  assumes "redis_json db redis" and "db r key = None" and "redis r (cmd_arrappend key js) = (reply, r')"
  obtains msg where "reply = Some (ReplyError msg)" and "strstr msg missing_key_text \<noteq> None" and "db r' = db r"
  using assms unfolding redis_json_def by (force split: prod.splits)

lemma redis_set:
  assumes "redis_json db redis" and "redis r (cmd_set key) = (reply, r')"
  shows "db r' = (db r)(key \<mapsto> [])"
  using assms unfolding redis_json_def by (force split: prod.splits)

text \<open>The share is appended once to the list of the user, which is created when it is missing.\<close>

lemma add_share_appends:
  assumes ok: "redis_json db redis"
  shows "db (add_share_to_redis redis True user ts diff r) =
    (db r)(share_key user \<mapsto> (case db r (share_key user) of None \<Rightarrow> [] | Some xs \<Rightarrow> xs) @ [share_json ts diff])"
proof -
  let ?k = "share_key user" and ?j = "share_json ts diff"
  obtain reply r1 where r1: "redis r (cmd_arrappend ?k ?j) = (reply, r1)" by fastforce
  show ?thesis
  proof (cases "db r ?k")
    case (Some xs)
    note a = redis_append_some [OF ok Some r1]
    show ?thesis using r1 a Some by (simp add: add_share_to_redis_def Let_def)
  next
    case None
    obtain msg where msg: "reply = Some (ReplyError msg)" "strstr msg missing_key_text \<noteq> None" "db r1 = db r"
      by (rule redis_append_none [OF ok None r1])
    obtain reply2 r2 where r2: "redis r1 (cmd_set ?k) = (reply2, r2)" by fastforce
    have d2: "db r2 = (db r)(?k \<mapsto> [])" using redis_set [OF ok r2] msg(3) by simp
    obtain reply3 r3 where r3: "redis r2 (cmd_arrappend ?k ?j) = (reply3, r3)" by fastforce
    have "db r2 ?k = Some []" using d2 by simp
    from redis_append_some(2) [OF ok this r3] have "db r3 = (db r)(?k \<mapsto> [?j])" by (simp only: d2 fun_upd_upd append_Nil)
    then show ?thesis using r1 r2 r3 msg(1,2) None by (simp add: add_share_to_redis_def Let_def)
  qed
qed

lemma share_user_plus:
  assumes "CHR ''+'' \<notin> set a" and "length a < 1023"
  shows "share_user (a @ CHR ''+'' # b) = a"
proof -
  have "take 1023 (a @ CHR ''+'' # b) = a @ take (1023 - length a) (CHR ''+'' # b)" using assms(2) by simp
  also have "\<dots> = a @ CHR ''+'' # take (1022 - length a) b"
    using assms(2) Suc_diff_le [of "length a" 1022] by simp
  finally have t: "take 1023 (a @ CHR ''+'' # b) = a @ CHR ''+'' # take (1022 - length a) b" .
  have "strchr (a @ CHR ''+'' # c) (CHR ''+'') = Some (length a)" for c
    by (rule strchr_split [OF assms(1)])
  then show ?thesis using assms(2) unfolding share_user_def Let_def t by simp
qed

text \<open>A share recorded for a user, from the accept event to the list.\<close>

lemma recorder_appends:
  assumes "redis_json db redis" and "ae_miner ev = Some i" and "p_objs p i = Some m" and "m_user m = Some u"
    and "\<not> ae_donate ev" and "\<not> ae_customDiff ev" and "\<not> ae_isRejected ev" and "validateAddress (Some (share_user u))"
  shows "\<exists>r'. recorder_onAccept redis True p now ev r = Some r' \<and>
    db r' = (db r)(share_key (share_user u) \<mapsto>
      (case db r (share_key (share_user u)) of None \<Rightarrow> [] | Some xs \<Rightarrow> xs) @ [share_json now (sr_diff (ae_result ev))])"
  using assms(2-) add_share_appends [OF assms(1)]
  by (simp add: recorder_onAccept_def recorder_accept_def Let_def)

text \<open>The recorder crashes on exactly the accepted shares whose miner is gone or has no name.\<close>

lemma recorder_crash:
  "recorder_onAccept redis has_ctx p now ev r = None \<longleftrightarrow>
     \<not> ae_isRejected ev \<and> \<not> ae_donate ev \<and> \<not> ae_customDiff ev \<and>
     (ae_miner ev = None \<or> (\<exists>i. ae_miner ev = Some i \<and> (p_objs p i = None \<or> (\<exists>m. p_objs p i = Some m \<and> m_user m = None))))"
  by (auto simp: recorder_onAccept_def recorder_accept_def Let_def split: option.splits bind_splits)

end
