(* ===== verification/Proxy.thy ===== *)
theory Proxy
  imports NonceSplitter DonateSplitter Workers Recorder Events
begin

text \<open>
  The proxy in nicehash mode (\<open>src/proxy/Proxy.h\<close>, \<open>Proxy.cpp\<close>): the listeners in the order of their
  subscription, the connections, their lines, the callbacks of the upstreams, the timers. A line that
  starts an event runs all its listeners before the next line is handled. The share and access logs
  and the debug output listen too and change nothing here.
\<close>

section \<open>The state and the events of the bus\<close>

record 'r proxy =
  px_proc :: proc
  px_miners :: "int list"
  px_donate :: donate_splitter
  px_up :: "nonce_mapper list"
  px_stats :: stats
  px_workers :: workers
  px_redis :: 'r
  px_ticks :: nat

datatype bus_event =
    EvConnection int
  | EvClose int
  | EvLogin login_event
  | EvSubmit submit_event
  | EvAccept accept_event

fun ev_rejected :: "bus_event \<Rightarrow> bool" where
  "ev_rejected (EvLogin ev) = le_rejected ev"
| "ev_rejected (EvSubmit ev) = (se_error ev \<noteq> NoError)"
| "ev_rejected (EvAccept ev) = ae_isRejected ev"
| "ev_rejected _ = False"

text \<open>What the proxy was built with, and the Redis server.\<close>

record 'r world =
  w_cfg :: config
  w_src :: rand_source
  w_decode :: "string \<Rightarrow> request"
  w_printTime :: nat
  w_redis :: "'r redis"
  w_has_ctx :: bool

section \<open>The listeners\<close>

type_synonym 'r handler = "bus_event \<Rightarrow> 'r proxy \<Rightarrow> bus_event \<times> 'r proxy"

fun miners_event :: "'r handler" where
  "miners_event (EvConnection i) px = (EvConnection i, px\<lparr>px_miners := miners_add i (px_miners px)\<rparr>)"
| "miners_event (EvClose i) px = (EvClose i, px\<lparr>px_miners := miners_remove i (px_miners px)\<rparr>)"
| "miners_event ev px = (ev, px)"

fun login_event_handler :: "env \<Rightarrow> config \<Rightarrow> 'r handler" where
  "login_event_handler env cfg (EvLogin ev) px =
     (case login_login env cfg ev (px_proc px) of (ev, p) \<Rightarrow> (EvLogin ev, px\<lparr>px_proc := p\<rparr>))"
| "login_event_handler env cfg ev px = (ev, px)"

fun donate_event :: "env \<Rightarrow> config \<Rightarrow> 'r handler" where
  "donate_event env cfg (EvClose i) px =
     (case dp_remove i (px_proc px) (px_donate px) of (p, dp) \<Rightarrow> (EvClose i, px\<lparr>px_proc := p, px_donate := dp\<rparr>))"
| "donate_event env cfg (EvLogin ev) px =
     (case dp_login env cfg ev (px_proc px) (px_donate px) of
        (ev, p, dp) \<Rightarrow> (EvLogin ev, px\<lparr>px_proc := p, px_donate := dp\<rparr>))"
| "donate_event env cfg (EvSubmit ev) px =
     (case dp_submit ev (px_proc px) (px_donate px) of
        (ev, p, dp) \<Rightarrow> (EvSubmit ev, px\<lparr>px_proc := p, px_donate := dp\<rparr>))"
| "donate_event env cfg ev px = (ev, px)"

fun customDiff_event :: "config \<Rightarrow> 'r handler" where
  "customDiff_event cfg (EvLogin ev) px = (EvLogin ev, px\<lparr>px_proc := customDiff_login cfg ev (px_proc px)\<rparr>)"
| "customDiff_event cfg ev px = (ev, px)"

text \<open>\<open>seq\<close> is the number the strategy gives to the share.\<close>

fun splitter_event :: "env \<Rightarrow> config \<Rightarrow> rand_source \<Rightarrow> int \<Rightarrow> 'r handler" where
  "splitter_event env cfg src seq (EvClose i) px =
     (case sp_remove i (px_proc px) (px_up px) of (p, ms) \<Rightarrow> (EvClose i, px\<lparr>px_proc := p, px_up := ms\<rparr>))"
| "splitter_event env cfg src seq (EvLogin ev) px =
     (case sp_onLogin env cfg src ev (px_proc px) (px_up px) of (p, ms) \<Rightarrow> (EvLogin ev, px\<lparr>px_proc := p, px_up := ms\<rparr>))"
| "splitter_event env cfg src seq (EvSubmit ev) px =
     (case sp_submit seq ev (px_proc px) (px_up px) of
        (ev, p, ms) \<Rightarrow> (EvSubmit ev, px\<lparr>px_proc := p, px_up := ms\<rparr>))"
| "splitter_event env cfg src seq ev px = (ev, px)"

fun stats_event :: "config \<Rightarrow> 'r handler" where
  "stats_event cfg (EvConnection i) px = (EvConnection i, px\<lparr>px_stats := st_connection (px_stats px)\<rparr>)"
| "stats_event cfg (EvClose i) px = (EvClose i, px\<lparr>px_stats := st_close (px_stats px)\<rparr>)"
| "stats_event cfg (EvAccept ev) px =
     (case st_accept cfg ev (px_proc px) (px_stats px) of (p, s) \<Rightarrow> (EvAccept ev, px\<lparr>px_proc := p, px_stats := s\<rparr>))"
| "stats_event cfg ev px = (ev, px)"

fun stats_rejected :: "'r handler" where
  "stats_rejected (EvSubmit ev) px = (EvSubmit ev, px\<lparr>px_stats := st_invalid (px_stats px)\<rparr>)"
| "stats_rejected (EvAccept ev) px = (EvAccept ev, px\<lparr>px_stats := st_reject ev (px_stats px)\<rparr>)"
| "stats_rejected ev px = (ev, px)"

text \<open>The worker table reads the miner of the event.\<close>

definition on_workers :: "(miner \<Rightarrow> workers \<Rightarrow> workers) \<Rightarrow> int \<Rightarrow> 'r proxy \<Rightarrow> 'r proxy" where
  "on_workers f i px =
     (if \<not> wk_isEnabled (px_workers px) then px
      else case p_objs (px_proc px) i of
             None \<Rightarrow> px\<lparr>px_proc := (px_proc px)\<lparr>p_fault := True\<rparr>\<rparr>
           | Some m \<Rightarrow> px\<lparr>px_workers := f m (px_workers px)\<rparr>)"

fun workers_event_handler :: "config \<Rightarrow> u64 \<Rightarrow> 'r handler" where
  "workers_event_handler cfg now (EvLogin ev) px = (EvLogin ev, on_workers workers_login (le_miner ev) px)"
| "workers_event_handler cfg now (EvClose i) px = (EvClose i, on_workers workers_remove i px)"
| "workers_event_handler cfg now (EvAccept ev) px =
     (EvAccept ev, px\<lparr>px_workers := when_enabled (workers_accept cfg now (px_proc px) ev) (px_workers px)\<rparr>)"
| "workers_event_handler cfg now ev px = (ev, px)"

fun workers_rejected_handler :: "config \<Rightarrow> u64 \<Rightarrow> 'r handler" where
  "workers_rejected_handler cfg now (EvSubmit ev) px = (EvSubmit ev, on_workers workers_reject (se_miner ev) px)"
| "workers_rejected_handler cfg now (EvAccept ev) px = workers_event_handler cfg now (EvAccept ev) px"
| "workers_rejected_handler cfg now ev px = (ev, px)"

text \<open>A crash of the recorder is a fault.\<close>

fun recorder_event :: "'r world \<Rightarrow> u64 \<Rightarrow> 'r handler" where
  "recorder_event w now (EvAccept ev) px =
     (EvAccept ev,
      case recorder_accept (w_redis w) (w_has_ctx w) (px_proc px) now ev (px_redis px) of
        None \<Rightarrow> px\<lparr>px_proc := (px_proc px)\<lparr>p_fault := True\<rparr>\<rparr>
      | Some r \<Rightarrow> px\<lparr>px_redis := r\<rparr>)"
| "recorder_event w now ev px = (ev, px)"

definition silent :: "'r handler" where
  "silent ev px = (ev, px)"

text \<open>The subscriptions of the constructor, in their order.\<close>

definition proxy_bus :: "'r world \<Rightarrow> env \<Rightarrow> int \<Rightarrow> (bus_event, 'r proxy) bus" where
  "proxy_bus w env seq =
     (let cfg = w_cfg w;
          miners = \<lparr>on_event = miners_event, on_rejected = silent\<rparr>;
          stats = \<lparr>on_event = stats_event cfg, on_rejected = stats_rejected\<rparr>;
          donate = \<lparr>on_event = donate_event env cfg, on_rejected = silent\<rparr>;
          splitter = \<lparr>on_event = splitter_event env cfg (w_src w) seq, on_rejected = silent\<rparr>;
          workers = \<lparr>on_event = workers_event_handler cfg (e_now env), on_rejected = workers_rejected_handler cfg (e_now env)\<rparr>;
          login = \<lparr>on_event = login_event_handler env cfg, on_rejected = silent\<rparr>;
          customDiff = \<lparr>on_event = customDiff_event cfg, on_rejected = silent\<rparr>;
          recorder = \<lparr>on_event = recorder_event w (e_now env), on_rejected = silent\<rparr>
      in fold (\<lambda>(t, l). events_subscribe t l)
           [(ConnectionType, miners), (ConnectionType, stats),
            (CloseType, miners), (CloseType, donate), (CloseType, splitter), (CloseType, stats), (CloseType, workers),
            (LoginType, login), (LoginType, donate), (LoginType, customDiff), (LoginType, splitter), (LoginType, stats),
            (LoginType, workers),
            (SubmitType, donate), (SubmitType, splitter), (SubmitType, stats), (SubmitType, workers),
            (AcceptType, stats), (AcceptType, workers), (AcceptType, recorder)] bus_new)"

fun ev_type :: "bus_event \<Rightarrow> event_type" where
  "ev_type (EvConnection _) = ConnectionType"
| "ev_type (EvClose _) = CloseType"
| "ev_type (EvLogin _) = LoginType"
| "ev_type (EvSubmit _) = SubmitType"
| "ev_type (EvAccept _) = AcceptType"

definition px_start :: "'r world \<Rightarrow> env \<Rightarrow> int \<Rightarrow> bus_event \<Rightarrow> 'r proxy \<Rightarrow> bool \<times> bus_event \<times> 'r proxy" where
  "px_start w env seq ev px = events_exec ev_rejected (proxy_bus w env seq) (ev_type ev) ev px"

section \<open>Connections\<close>

text \<open>A new connection, its lines, and its end.\<close>

definition px_create ::
  "'r world \<Rightarrow> env \<Rightarrow> cstr \<Rightarrow> bool \<Rightarrow> u16 \<Rightarrow> bool \<Rightarrow> bool \<Rightarrow> string \<Rightarrow> 'r proxy \<Rightarrow> 'r proxy" where
  "px_create w env rpcId ctx port strictTls accepted ip px =
     (let (res, p) = server_create env rpcId ctx port strictTls accepted ip (px_proc px); px = px\<lparr>px_proc := p\<rparr>
      in case res of None \<Rightarrow> px | Some i \<Rightarrow> snd (snd (px_start w env 0 (EvConnection i) px)))"

definition px_miner :: "(mc \<Rightarrow> mc) \<Rightarrow> int \<Rightarrow> 'r proxy \<Rightarrow> 'r proxy" where
  "px_miner f i px = px\<lparr>px_proc := on_miner f i (px_proc px)\<rparr>"

text \<open>The request goes on after the submit event; \<open>k\<close> is its id.\<close>

definition px_submit_done :: "env \<Rightarrow> int \<Rightarrow> int \<Rightarrow> bool \<Rightarrow> submit_event \<Rightarrow> 'r proxy \<Rightarrow> 'r proxy" where
  "px_submit_done env i k started ev px =
     (case p_objs (px_proc px) i of
        None \<Rightarrow> px\<lparr>px_proc := (px_proc px)\<lparr>p_fault := True\<rparr>\<rparr>
      | Some m \<Rightarrow>
          let (ok, s) = submit_done env k started ev (m, p_cnt (px_proc px));
              px = px\<lparr>px_proc := put_miner i s (px_proc px)\<rparr>
          in if ok then px else px_miner (shutdown env True) i px)"

definition px_request :: "'r world \<Rightarrow> env \<Rightarrow> int \<Rightarrow> int \<Rightarrow> request_step \<Rightarrow> 'r proxy \<Rightarrow> 'r proxy" where
  "px_request w env seq i st px =
     (case st of
        RequestDone _ \<Rightarrow> px
      | StartLogin ev \<Rightarrow> snd (snd (px_start w env seq (EvLogin ev) px))
      | StartSubmit ev \<Rightarrow>
          (case px_start w env seq (EvSubmit ev) px of
             (started, EvSubmit ev', px) \<Rightarrow> px_submit_done env i (jr_id (se_request ev)) started ev' px
           | (started, _, px) \<Rightarrow> px)
      | StartAccept ev \<Rightarrow> snd (snd (px_start w env seq (EvAccept ev) px)))"

definition px_line :: "'r world \<Rightarrow> env \<Rightarrow> int \<Rightarrow> int \<Rightarrow> string \<Rightarrow> 'r proxy \<Rightarrow> 'r proxy" where
  "px_line w env seq i line px =
     (case p_objs (px_proc px) i of
        None \<Rightarrow> px\<lparr>px_proc := (px_proc px)\<lparr>p_fault := True\<rparr>\<rparr>
      | Some m \<Rightarrow>
          let (st, s) = miner_parse env (w_decode w) line (m, p_cnt (px_proc px))
          in px_request w env seq i st (px\<lparr>px_proc := put_miner i s (px_proc px)\<rparr>))"

text \<open>The lines of one read; the strategy numbers the shares as \<open>seqs\<close> says.\<close>

fun px_lines :: "'r world \<Rightarrow> env \<Rightarrow> (nat \<Rightarrow> int) \<Rightarrow> int \<Rightarrow> nat \<Rightarrow> string list \<Rightarrow> 'r proxy \<Rightarrow> 'r proxy" where
  "px_lines w env seqs i n [] px = px"
| "px_lines w env seqs i n (l # ls) px = px_lines w env seqs i (Suc n) ls (px_line w env (seqs n) i l px)"

definition px_read :: "'r world \<Rightarrow> env \<Rightarrow> (nat \<Rightarrow> int) \<Rightarrow> int \<Rightarrow> string \<Rightarrow> 'r proxy \<Rightarrow> 'r proxy" where
  "px_read w env seqs i data px =
     (case p_objs (px_proc px) i of
        None \<Rightarrow> px\<lparr>px_proc := (px_proc px)\<lparr>p_fault := True\<rparr>\<rparr>
      | Some m \<Rightarrow>
          let (ls, m) = miner_read data m
          in px_lines w env seqs i 0 ls (px\<lparr>px_proc := put_miner i (m, p_cnt (px_proc px)) (px_proc px)\<rparr>))"

text \<open>The callback of \<open>uv_close\<close>.\<close>

definition px_closed :: "'r world \<Rightarrow> env \<Rightarrow> int \<Rightarrow> 'r proxy \<Rightarrow> 'r proxy" where
  "px_closed w env i px =
     (let px = snd (snd (px_start w env 0 (EvClose i) px)) in px\<lparr>px_proc := proc_delete i (px_proc px)\<rparr>)"

section \<open>Upstreams\<close>

definition px_job :: "'r world \<Rightarrow> env \<Rightarrow> nat \<Rightarrow> int \<Rightarrow> cstr \<Rightarrow> u16 \<Rightarrow> job \<Rightarrow> 'r proxy \<Rightarrow> 'r proxy" where
  "px_job w env k client host port job px =
     (let (p, ms) = sp_onJob env (w_cfg w) k client host port job (px_proc px) (px_up px)
      in px\<lparr>px_proc := p, px_up := ms\<rparr>)"

definition px_donate_pool_job :: "'r world \<Rightarrow> env \<Rightarrow> nat \<Rightarrow> cstr \<Rightarrow> u16 \<Rightarrow> job \<Rightarrow> 'r proxy \<Rightarrow> 'r proxy" where
  "px_donate_pool_job w env k host port job px =
     (let (p, ms) = sp_donate_onJob env (w_cfg w) k host port job (px_proc px) (px_up px)
      in px\<lparr>px_proc := p, px_up := ms\<rparr>)"

text \<open>The result of a share: the accept event first, then the reply to its miner.\<close>

definition px_result :: "'r world \<Rightarrow> env \<Rightarrow> nat \<Rightarrow> int \<Rightarrow> submit_result \<Rightarrow> cstr \<Rightarrow> 'r proxy \<Rightarrow> 'r proxy" where
  "px_result w env k client result err px =
     (let (ctx, ev, ms) = sp_result_event k client result err (px_up px);
          px = snd (snd (px_start w env 0 (EvAccept ev) (px\<lparr>px_up := ms\<rparr>)))
      in px\<lparr>px_proc := reply_result env ctx err (px_proc px)\<rparr>)"

text \<open>The callbacks of the clients of routed miners.\<close>

definition upd_client :: "nat \<Rightarrow> donate_mapper \<Rightarrow> donate_splitter \<Rightarrow> donate_splitter" where
  "upd_client k dm dp = dp\<lparr>dp_mappers := (dp_mappers dp)(k \<mapsto> Some dm)\<rparr>"

definition on_client :: "(donate_mapper \<Rightarrow> 'r proxy \<Rightarrow> 'r proxy) \<Rightarrow> nat \<Rightarrow> 'r proxy \<Rightarrow> 'r proxy" where
  "on_client f k px = (case dp_mappers (px_donate px) k of Some (Some dm) \<Rightarrow> f dm px | _ \<Rightarrow> px)"

definition px_client_job :: "env \<Rightarrow> nat \<Rightarrow> job \<Rightarrow> cstr \<Rightarrow> 'r proxy \<Rightarrow> 'r proxy" where
  "px_client_job env k job algo =
     on_client (\<lambda>dm px. let (p, dm) = dm_onJobReceived env job algo (px_proc px) dm
       in px\<lparr>px_proc := p, px_donate := upd_client k dm (px_donate px)\<rparr>) k"

definition px_client_close :: "env \<Rightarrow> nat \<Rightarrow> 'r proxy \<Rightarrow> 'r proxy" where
  "px_client_close env k =
     on_client (\<lambda>dm px. let (p, dm) = dm_onClose env (px_proc px) dm
       in px\<lparr>px_proc := p, px_donate := upd_client k dm (px_donate px)\<rparr>) k"

definition px_client_result :: "'r world \<Rightarrow> env \<Rightarrow> nat \<Rightarrow> submit_result \<Rightarrow> cstr \<Rightarrow> 'r proxy \<Rightarrow> 'r proxy" where
  "px_client_result w env k result err =
     on_client (\<lambda>dm px. let px = snd (snd (px_start w env 0 (EvAccept (dm_result_event result err dm)) px))
       in px\<lparr>px_proc := dm_reply env result err dm (px_proc px)\<rparr>) k"

section \<open>Timers\<close>

definition kGCInterval :: nat where "kGCInterval = 60"

definition px_print :: "'r proxy \<Rightarrow> 'r proxy" where
  "px_print px = px\<lparr>px_proc := (px_proc px)\<lparr>p_cnt := counters_reset (p_cnt (px_proc px))\<rparr>\<rparr>"

definition px_tick :: "'r world \<Rightarrow> env \<Rightarrow> 'r proxy \<Rightarrow> 'r proxy" where
  "px_tick w env px =
     (let px = px\<lparr>px_stats := stats_tick (e_now env) (px_ticks px) (sp_upstreams (px_up px)) (p_cnt (px_proc px)) (px_stats px),
                  px_ticks := px_ticks px + 1\<rparr>;
          px = (if px_ticks px mod kGCInterval = 0 then px\<lparr>px_up := sp_gc (px_up px)\<rparr> else px);
          px = (if w_printTime w \<noteq> 0 \<and> px_ticks px mod w_printTime w = 0 then px_print px else px);
          (p, ms) = sp_tick env (w_cfg w) (e_loop_now env) (px_proc px) (px_up px)
      in px\<lparr>px_proc := p, px_up := ms, px_workers := workers_tick (px_ticks px) (px_workers px)\<rparr>)"

text \<open>The start: one upstream, no miners.\<close>

definition px_new :: "'r world \<Rightarrow> u64 \<Rightarrow> 'r \<Rightarrow> 'r proxy" where
  "px_new w now r =
     \<lparr>px_proc = proc_new, px_miners = [], px_donate = dp_new, px_up = sp_connect (w_cfg w) (w_src w) [],
      px_stats = st_new now, px_workers = workers_new (w_cfg w), px_redis = r, px_ticks = 0\<rparr>"

text \<open>
  The configuration was reloaded: the splitter makes new strategies when the pools changed, the table of
  workers starts afresh when its mode changed. The other settings of the new configuration are those of the
  old one.
\<close>

definition px_controller_miners :: "'r proxy \<Rightarrow> miner list" where
  "px_controller_miners px = List.map_filter (p_objs (px_proc px)) (px_miners px)"

definition px_reload :: "config \<Rightarrow> bool \<Rightarrow> workers_mode \<Rightarrow> (nat \<Rightarrow> strategy) \<Rightarrow> 'r proxy \<Rightarrow> 'r proxy" where
  "px_reload cfg changed mode hs px =
     (let px = (if changed then px\<lparr>px_up := sp_reload hs (px_up px)\<rparr> else px)
      in px\<lparr>px_workers := workers_onConfigChanged (cfg\<lparr>cfg_workersMode := mode\<rparr>) (px_controller_miners px) (px_workers px)\<rparr>)"

section \<open>The proxy as a component\<close>

datatype proxy_event =
    PxCreate env cstr bool u16 bool bool string
  | PxRead env "nat \<Rightarrow> int" int string
  | PxTlsLines env "nat \<Rightarrow> int" int "string list"
  | PxReadError env int bool
  | PxShutdownDone int
  | PxClosed env int
  | PxActive nat strategy int
  | PxPause nat
  | PxJob env nat int cstr u16 job
  | PxResult env nat int submit_result cstr
  | PxPoolClosed nat
  | PxPoolJob env nat cstr u16 job
  | PxClientJob env nat job cstr
  | PxClientClose env nat
  | PxClientResult env nat submit_result cstr
  | PxTick env
  | PxMinersTick env
  | PxReload bool workers_mode "nat \<Rightarrow> strategy"

fun px_step :: "'r world \<Rightarrow> 'r proxy \<Rightarrow> proxy_event \<Rightarrow> 'r proxy" where
  "px_step w px (PxCreate env rpcId ctx port tls acc ip) = px_create w env rpcId ctx port tls acc ip px"
| "px_step w px (PxRead env seqs i data) = px_read w env seqs i data px"
| "px_step w px (PxTlsLines env seqs i ls) = px_lines w env seqs i 0 ls px"
| "px_step w px (PxReadError env i eof) = px_miner (miner_read_error env eof) i px"
| "px_step w px (PxShutdownDone i) = px_miner (\<lambda>(m, c). (on_shutdown m, c)) i px"
| "px_step w px (PxClosed env i) = px_closed w env i px"
| "px_step w px (PxActive k st client) = px\<lparr>px_up := sp_onActive k st client (px_up px)\<rparr>"
| "px_step w px (PxPause k) = px\<lparr>px_up := sp_onPause k (px_up px)\<rparr>"
| "px_step w px (PxJob env k client host port job) = px_job w env k client host port job px"
| "px_step w px (PxResult env k client result err) = px_result w env k client result err px"
| "px_step w px (PxPoolClosed k) = px\<lparr>px_up := sp_donate_onClose k (px_up px)\<rparr>"
| "px_step w px (PxPoolJob env k host port job) = px_donate_pool_job w env k host port job px"
| "px_step w px (PxClientJob env k job algo) = px_client_job env k job algo px"
| "px_step w px (PxClientClose env k) = px_client_close env k px"
| "px_step w px (PxClientResult env k result err) = px_client_result w env k result err px"
| "px_step w px (PxTick env) = px_tick w env px"
| "px_step w px (PxMinersTick env) = px\<lparr>px_proc := miners_tick env (px_miners px) (px_proc px)\<rparr>"
| "px_step w px (PxReload changed mode hs) = px_reload (w_cfg w) changed mode hs px"

text \<open>What the event loop and the strategies guarantee: callbacks come for live connections and
  upstreams, and the close callback only after a close.\<close>

fun px_ok :: "'r proxy \<Rightarrow> proxy_event \<Rightarrow> bool" where
  "px_ok px (PxRead env seqs i data) \<longleftrightarrow> p_objs (px_proc px) i \<noteq> None"
| "px_ok px (PxTlsLines env seqs i ls) \<longleftrightarrow> p_objs (px_proc px) i \<noteq> None"
| "px_ok px (PxReadError env i eof) \<longleftrightarrow> p_objs (px_proc px) i \<noteq> None"
| "px_ok px (PxShutdownDone i) \<longleftrightarrow> p_objs (px_proc px) i \<noteq> None"
| "px_ok px (PxClosed env i) \<longleftrightarrow> (\<exists>m. p_objs (px_proc px) i = Some m \<and> m_state m = ClosingState)"
| "px_ok px (PxActive k st client) \<longleftrightarrow> k < length (px_up px)"
| "px_ok px (PxPause k) \<longleftrightarrow> k < length (px_up px)"
| "px_ok px (PxJob env k client host port job) \<longleftrightarrow> k < length (px_up px)"
| "px_ok px (PxResult env k client result err) \<longleftrightarrow> k < length (px_up px)"
| "px_ok px (PxPoolClosed k) \<longleftrightarrow> k < length (px_up px)"
| "px_ok px (PxPoolJob env k host port job) \<longleftrightarrow> k < length (px_up px)"
| "px_ok px _ \<longleftrightarrow> True"

text \<open>The reload that breaks the table of workers: it changes the mode while a routed miner is connected.\<close>

fun px_calm :: "'r proxy \<Rightarrow> proxy_event \<Rightarrow> bool" where
  "px_calm px (PxReload changed mode hs) \<longleftrightarrow>
     mode = wk_mode (px_workers px) \<or> \<not> (\<exists>i m. p_objs (px_proc px) i = Some m \<and> m_routeId m \<noteq> - 1 \<and> m_mapperId m \<noteq> - 1)"
| "px_calm px _ \<longleftrightarrow> True"

end
