(* ===== verification/ProxyInv.thy ===== *)
theory ProxyInv
  imports Proxy
begin

text \<open>
  The invariant of the whole proxy and its preservation by every event: the counters of miners and
  connections, the upstreams with their members and bytes, the routed miners, the registry of
  connections, and the connection counts of the worker table.
\<close>

section \<open>Requests\<close>

lemma parseRequest_fixedByte: "m_fixedByte (fst (snd (parseRequest env i meth ps s))) = m_fixedByte (fst s)"
  by (cases s) (auto simp: parseRequest_def parse_submit_def Let_def frame_simps case_prod_beta setState_def heartbeat_def
      split: miner_state.splits)

lemma miner_parse_fixedByte: "m_fixedByte (fst (snd (miner_parse env decode line s))) = m_fixedByte (fst s)"
proof -
  have "m_fixedByte (fst s1) = m_fixedByte (fst s)" if "parseRequest env i meth ps s = (st, s1)" for i meth ps st s1
    using parseRequest_fixedByte [of env i meth ps s] that by simp
  then show ?thesis
    by (auto simp: miner_parse_def frame_simps split: request.splits option.splits request_step.splits bool.splits prod.splits)
qed

lemma parseRequest_starts:
  assumes "parseRequest env i meth ps (m, c) = (st, m', c')"
  shows "st = StartLogin ev \<Longrightarrow> m_state m = WaitLoginState \<and> m_state m' = WaitReadyState \<and> le_miner ev = m_id m"
    and "st = StartSubmit sv \<Longrightarrow> se_miner sv = m_id m"
    and "st = StartAccept av \<Longrightarrow> ae_miner av = Some (m_id m)"
  using assms
  by (auto simp: parseRequest_def parse_submit_def submit_event_of_def setState_def heartbeat_def Let_def case_prod_beta
      split: miner_state.splits if_splits)

lemma miner_parse_request:
  assumes "miner_parse env decode line s = (st, s')" and "\<And>b. st \<noteq> RequestDone b"
  obtains i meth ps where "parseRequest env i meth ps s = (st, s')"
  using assms
  by (auto simp: miner_parse_def split: request.splits option.splits request_step.splits bool.splits prod.splits if_splits)

lemma miner_parse_starts:
  assumes "miner_parse env decode line (m, c) = (st, m', c')"
  shows "st = StartLogin ev \<Longrightarrow> m_state m = WaitLoginState \<and> m_state m' = WaitReadyState \<and> le_miner ev = m_id m"
    and "st = StartSubmit sv \<Longrightarrow> se_miner sv = m_id m"
    and "st = StartAccept av \<Longrightarrow> ae_miner av = Some (m_id m)"
  by (rule miner_parse_request [OF assms], simp, erule parseRequest_starts(1), assumption,
      rule miner_parse_request [OF assms], simp, erule parseRequest_starts(2), assumption,
      rule miner_parse_request [OF assms], simp, erule parseRequest_starts(3), assumption)

lemma wait_login_first: "state_next\<^sup>*\<^sup>* st WaitLoginState \<longleftrightarrow> st = WaitLoginState"
  by (auto elim: rtranclp.cases state_next.cases)

section \<open>The invariant\<close>

text \<open>The miners of the splitter.\<close>

definition counted :: "proc \<Rightarrow> int set" where
  "counted p = {i. \<exists>m. p_objs p i = Some m \<and> m_routeId m = - 1 \<and> 0 \<le> m_mapperId m}"

definition routes_ok :: "proc \<Rightarrow> bool" where
  "routes_ok p \<longleftrightarrow> (\<forall>i m. p_objs p i = Some m \<longrightarrow> (m_routeId m = - 1 \<and> - 1 \<le> m_mapperId m \<or> m_routeId m = 0) \<and>
     (m_state m = WaitLoginState \<longrightarrow> m_routeId m = - 1 \<and> m_mapperId m < 0))"

definition px_core :: "'r proxy \<Rightarrow> bool" where
  "px_core px \<longleftrightarrow> proc_ok (px_proc px) \<and> sp_inv (px_proc px) (px_up px) \<and> dp_inv (px_proc px) (px_donate px) \<and>
     wk_inv (px_workers px) \<and> routes_ok (px_proc px)"

text \<open>The counts of the worker table, without the miners of \<open>x\<close>. They hold while no reload has changed the mode
  of the table with a routed miner about (\<open>b\<close>); the rest of the invariant does not depend on it.\<close>

definition px_wk :: "bool \<Rightarrow> int set \<Rightarrow> 'r proxy \<Rightarrow> bool" where
  "px_wk b x px \<longleftrightarrow> (b \<and> wk_isEnabled (px_workers px) \<longrightarrow> wk_counts (counted (px_proc px) - x) (px_workers px))"

definition px_reg :: "'r proxy \<Rightarrow> bool" where
  "px_reg px \<longleftrightarrow> px_miners px = sorted_list_of_set (dom (p_objs (px_proc px)))"

definition px_inv :: "bool \<Rightarrow> 'r proxy \<Rightarrow> bool" where
  "px_inv b px \<longleftrightarrow> px_core px \<and> px_wk b {} px \<and> px_reg px"

section \<open>Changes that keep the places of the miners\<close>

definition mild :: "proc \<Rightarrow> proc \<Rightarrow> bool" where
  "mild p p' \<longleftrightarrow> proc_frame p p' \<and> (\<forall>j. map_option route_view (p_objs p' j) = map_option route_view (p_objs p j)) \<and>
     (\<forall>j m. p_objs p j = Some m \<longrightarrow> m_routeId m = - 1 \<longrightarrow> same_view p p' j)"

lemma mild_refl [simp]: "mild p p"
  by (simp add: mild_def)

lemma same_view_route: "same_view p p' j \<Longrightarrow> map_option route_view (p_objs p' j) = map_option route_view (p_objs p j)"
  by (cases "p_objs p j"; cases "p_objs p' j") (auto simp: nm_view_def route_view_def)

lemma mild_trans:
  assumes "mild p q" and "mild q r"
  shows "mild p r"
proof -
  have "same_view p r j" if m: "p_objs p j = Some m" "m_routeId m = - 1" for j m
  proof -
    have a: "same_view p q j" using assms(1) m by (simp add: mild_def)
    from same_viewE2 [OF a m(1)] m(2) obtain m' where "p_objs q j = Some m'" "m_routeId m' = - 1" by metis
    then have "same_view q r j" using assms(2) by (simp add: mild_def)
    with a show ?thesis by simp
  qed
  moreover have "proc_frame p r" using assms proc_frame_trans by (auto simp: mild_def)
  moreover have "map_option route_view (p_objs r j) = map_option route_view (p_objs p j)" for j
    using assms by (simp add: mild_def)
  ultimately show ?thesis unfolding mild_def by blast
qed

lemma mild_same: "proc_frame p p' \<Longrightarrow> proc_same miner_view p p' \<Longrightarrow> mild p p'"
  unfolding mild_def using proc_same_view proc_same_route by blast

lemma mild_views: "proc_frame p p' \<Longrightarrow> (\<And>j. same_view p p' j) \<Longrightarrow> mild p p'"
  unfolding mild_def using same_view_route by blast

lemma mild_fault [simp]: "mild p (p\<lparr>p_fault := True\<rparr>)"
  by (rule mild_views) (simp_all add: proc_fault_frame)

lemma mild_on_miner:
  assumes "\<And>s. miner_frame s (f s)" and "\<And>s. m_fixedByte (fst (f s)) = m_fixedByte (fst s)"
  shows "mild p (on_miner f i p)"
  using on_miner_frame [OF assms(1)]
proof (rule mild_views)
  fix j
  have "m_mapperId (fst (f s)) = m_mapperId (fst s)" "m_routeId (fst (f s)) = m_routeId (fst s)" for s
    using assms(1) [of s] by (simp_all add: miner_frame_def miner_core_def)
  then show "same_view p (on_miner f i p) j"
    using assms(2) by (auto simp: on_miner_def put_miner_def nm_view_def split: option.splits)
qed

lemma mild_put_miner:
  assumes "p_objs p i = Some m" and "miner_frame (m, p_cnt p) s" and "m_fixedByte (fst s) = m_fixedByte m"
  shows "mild p (put_miner i s p)"
proof (rule mild_views)
  show "proc_frame p (put_miner i s p)" by (rule put_miner_frame [OF assms(1,2)])
  show "same_view p (put_miner i s p) j" for j
    using assms by (auto simp: put_miner_def nm_view_def miner_frame_def miner_core_def)
qed

lemma mild_sp:
  assumes inv: "sp_inv p ms" and mild: "mild p p'"
  shows "sp_inv p' ms"
proof -
  have "nat (m_mapperId m') < length ms \<and> nm_members (ms ! nat (m_mapperId m')) i \<noteq> None"
    if m: "p_objs p' i = Some m'" "m_routeId m' = - 1" "0 \<le> m_mapperId m'" for i m'
  proof -
    have "map_option route_view (p_objs p' i) = map_option route_view (p_objs p i)" using mild by (simp add: mild_def)
    then obtain m0 where "p_objs p i = Some m0" "m_routeId m0 = m_routeId m'" "m_mapperId m0 = m_mapperId m'"
      using m(1) by (cases "p_objs p i") (auto simp: route_view_def)
    with sp_invD(5) [OF inv] m(2,3) show ?thesis by metis
  qed
  moreover have "nm_inv p' (ms ! k)" if k: "k < length ms" for k
  proof (rule nm_inv_cong [OF sp_invD(4) [OF inv k]])
    fix j
    assume "nm_members (ms ! k) j \<noteq> None"
    from nm_inv_memberD [OF sp_invD(4) [OF inv k] this] obtain m where "p_objs p j = Some m" "m_routeId m = - 1" .
    then show "same_view p p' j" using mild by (simp add: mild_def)
  qed
  ultimately show ?thesis using inv unfolding sp_inv_def by blast
qed

lemma mild_routes:
  assumes "routes_ok p" and mild: "mild p p'"
  shows "routes_ok p'"
  unfolding routes_ok_def
proof (intro allI impI)
  fix i m'
  assume m': "p_objs p' i = Some m'"
  have "map_option route_view (p_objs p' i) = map_option route_view (p_objs p i)" using mild by (simp add: mild_def)
  then obtain m where m: "p_objs p i = Some m" "m_routeId m = m_routeId m'" "m_mapperId m = m_mapperId m'"
    using m' by (cases "p_objs p i") (auto simp: route_view_def)
  have "state_next\<^sup>*\<^sup>* (m_state m) (m_state m')" using mild m(1) m' by (auto simp: mild_def proc_frame_def)
  then have "m_state m' = WaitLoginState \<Longrightarrow> m_state m = WaitLoginState" using wait_login_first by simp
  moreover have "(m_routeId m = - 1 \<and> - 1 \<le> m_mapperId m \<or> m_routeId m = 0) \<and> (m_state m = WaitLoginState \<longrightarrow> m_routeId m = - 1 \<and> m_mapperId m < 0)"
    using assms(1) m(1) unfolding routes_ok_def by blast
  ultimately show "(m_routeId m' = - 1 \<and> - 1 \<le> m_mapperId m' \<or> m_routeId m' = 0) \<and>
      (m_state m' = WaitLoginState \<longrightarrow> m_routeId m' = - 1 \<and> m_mapperId m' < 0)"
    unfolding m(2,3) by blast
qed

lemma mild_counted: "mild p p' \<Longrightarrow> counted p' = counted p"
proof -
  assume "mild p p'"
  then have r: "map_option route_view (p_objs p' j) = map_option route_view (p_objs p j)" for j by (simp add: mild_def)
  have "j \<in> counted p' \<longleftrightarrow> j \<in> counted p" for j
    using r [of j] by (cases "p_objs p j"; cases "p_objs p' j") (auto simp: counted_def route_view_def)
  then show ?thesis by blast
qed

lemma mild_dom: "mild p p' \<Longrightarrow> dom (p_objs p') = dom (p_objs p)"
  by (simp add: mild_def proc_frame_def)

lemma mild_ok: "mild p p' \<Longrightarrow> proc_ok p \<Longrightarrow> proc_ok p'"
  by (simp add: mild_def proc_frame_def)

lemma mild_dp: "mild p p' \<Longrightarrow> dp_inv p dp \<Longrightarrow> dp_inv p' dp"
  by (erule dp_inv_same) (simp add: mild_def)

text \<open>A change of the miners and of one or more upstreams that keeps every place.\<close>

lemma px_core_mild:
  assumes "px_core px" and "mild (px_proc px) p'" and "sp_inv p' ms"
  shows "px_core (px\<lparr>px_proc := p', px_up := ms\<rparr>)"
  using assms mild_ok mild_dp mild_routes by (auto simp: px_core_def)

lemma px_inv_mild:
  assumes "px_inv b px" and "mild (px_proc px) p'" and "sp_inv p' ms"
  shows "px_inv b (px\<lparr>px_proc := p', px_up := ms\<rparr>)"
  using assms px_core_mild [OF _ assms(2,3)] mild_counted [OF assms(2)] mild_dom [OF assms(2)]
  by (simp add: px_inv_def px_wk_def px_reg_def)

lemma px_inv_proc:
  assumes "px_inv b px" and "mild (px_proc px) p'"
  shows "px_inv b (px\<lparr>px_proc := p'\<rparr>)"
proof -
  have "sp_inv p' (px_up px)" using assms mild_sp by (auto simp: px_inv_def px_core_def)
  from px_inv_mild [OF assms this] show ?thesis by simp
qed

lemma px_inv_rest [simp]:
  "px_inv b (px\<lparr>px_stats := s\<rparr>) = px_inv b px" "px_inv b (px\<lparr>px_redis := r\<rparr>) = px_inv b px" "px_inv b (px\<lparr>px_ticks := n\<rparr>) = px_inv b px"
  by (simp_all add: px_inv_def px_core_def px_wk_def px_reg_def)


section \<open>The listeners\<close>

lemmas bus_defs = proxy_bus_def events_subscribe_def bus_new_def Let_def

lemma bus_ready [simp]: "bus_ready (proxy_bus w env seq)"
  by (simp add: bus_defs)

definition stats_listener :: "config \<Rightarrow> (bus_event, 'r proxy) listener" where
  "stats_listener cfg = \<lparr>on_event = stats_event cfg, on_rejected = stats_rejected\<rparr>"

definition workers_listener :: "config \<Rightarrow> env \<Rightarrow> (bus_event, 'r proxy) listener" where
  "workers_listener cfg env =
     \<lparr>on_event = workers_event_handler cfg (e_now env), on_rejected = workers_rejected_handler cfg (e_now env)\<rparr>"

definition plain :: "'r handler \<Rightarrow> (bus_event, 'r proxy) listener" where
  "plain h = \<lparr>on_event = h, on_rejected = silent\<rparr>"

lemmas listener_defs = stats_listener_def workers_listener_def plain_def

lemma bus_lists:
  "bus_listeners (proxy_bus w env seq) ConnectionType = [plain miners_event, stats_listener (w_cfg w)]"
  "bus_listeners (proxy_bus w env seq) CloseType =
     [plain miners_event, plain (donate_event env (w_cfg w)), plain (splitter_event env (w_cfg w) (w_src w) seq),
      stats_listener (w_cfg w), workers_listener (w_cfg w) env]"
  "bus_listeners (proxy_bus w env seq) LoginType =
     [plain (login_event_handler env (w_cfg w)), plain (donate_event env (w_cfg w)), plain (customDiff_event (w_cfg w)),
      plain (splitter_event env (w_cfg w) (w_src w) seq), stats_listener (w_cfg w), workers_listener (w_cfg w) env]"
  "bus_listeners (proxy_bus w env seq) SubmitType =
     [plain (donate_event env (w_cfg w)), plain (splitter_event env (w_cfg w) (w_src w) seq),
      stats_listener (w_cfg w), workers_listener (w_cfg w) env]"
  "bus_listeners (proxy_bus w env seq) AcceptType =
     [stats_listener (w_cfg w), workers_listener (w_cfg w) env, plain (recorder_event w (e_now env))]"
  by (simp_all add: bus_defs listener_defs)

text \<open>What one listener does, and a predicate kept by all of them.\<close>

definition hear :: "(bus_event, 'r proxy) listener \<Rightarrow> bus_event \<Rightarrow> 'r proxy \<Rightarrow> bus_event \<times> 'r proxy" where
  "hear l e s = (if ev_rejected e then on_rejected l e s else on_event l e s)"

lemma call_hear: "call_listeners ev_rejected (l # ls) e s = (case hear l e s of (e, s) \<Rightarrow> call_listeners ev_rejected ls e s)"
  by (simp add: hear_def)

lemma call_listeners_inv:
  assumes "P e s" and "\<And>l e s e' s'. l \<in> set ls \<Longrightarrow> P e s \<Longrightarrow> hear l e s = (e', s') \<Longrightarrow> P e' s'"
    and "call_listeners ev_rejected ls e s = (e', s')"
  shows "P e' s'"
  using assms
proof (induction ls arbitrary: e s)
  case (Cons l ls)
  obtain e1 s1 where h: "hear l e s = (e1, s1)" by fastforce
  have "P e1 s1" using Cons.prems(2) [OF _ Cons.prems(1) h] by simp
  moreover have "call_listeners ev_rejected ls e1 s1 = (e', s')" using Cons.prems(3) h by (simp add: call_hear del: call_listeners.simps)
  ultimately show ?case using Cons.IH [of e1 s1] Cons.prems(2) by (meson list.set_intros(2))
qed simp

lemma px_start_call:
  "px_start w env seq ev px =
     (case call_listeners ev_rejected (bus_listeners (proxy_bus w env seq) (ev_type ev)) ev px of
        (e, s) \<Rightarrow> (\<not> ev_rejected e, e, s))"
  by (simp add: px_start_def events_exec_def)

section \<open>The worker table\<close>

definition wk_keeps :: "workers \<Rightarrow> workers \<Rightarrow> bool" where
  "wk_keeps wk wk' \<longleftrightarrow> wk_mode wk' = wk_mode wk \<and> wk_miners wk' = wk_miners wk \<and>
     map w_connections (wk_workers wk') = map w_connections (wk_workers wk)"

lemma wk_keeps_upd: "(\<And>w. w_connections (f w) = w_connections w) \<Longrightarrow> wk_keeps wk (upd_worker f i wk)"
  by (cases "i < length (wk_workers wk)")
    (simp_all add: wk_keeps_def upd_worker_def map_update list_update_beyond, simp add: list_update_same_conv)

lemma wk_keeps_counts:
  assumes "wk_keeps wk wk'" and "wk_counts x wk"
  shows "wk_counts x wk'"
proof -
  have l: "length (wk_workers wk') = length (wk_workers wk)"
    using assms(1) by (metis wk_keeps_def length_map)
  then have "w_connections (wk_workers wk' ! k) = w_connections (wk_workers wk ! k)" if "k < length (wk_workers wk)" for k
    using assms(1) that by (metis wk_keeps_def nth_map)
  then show ?thesis using assms l by (simp add: wk_counts_def wk_keeps_def)
qed

lemma wk_keeps_refl [simp]: "wk_keeps wk wk"
  by (simp add: wk_keeps_def)

lemma wk_keeps_ops:
  "wk_keeps wk (when_enabled (workers_accept cfg now p ev) wk)" "wk_keeps wk (workers_reject m wk)"
  "wk_keeps wk (workers_tick n wk)"
proof -
  have c: "w_connections (worker_add_share t d x) = w_connections x" "w_connections (worker_reject b x) = w_connections x"
    "w_connections (worker_tick x) = w_connections x" for t d b x
    by (simp_all add: worker_add_share_def worker_reject_def worker_tick_def)
  show "wk_keeps wk (when_enabled (workers_accept cfg now p ev) wk)" "wk_keeps wk (workers_reject m wk)"
    using wk_keeps_upd c by (auto simp: when_enabled_def workers_accept_def workers_reject_def split: option.split)
  show "wk_keeps wk (workers_tick n wk)" using c by (simp add: workers_tick_def wk_keeps_def)
qed

lemma px_inv_workers:
  assumes "px_inv b px" and "wk_keeps (px_workers px) wk" and "wk_inv wk"
  shows "px_inv b (px\<lparr>px_workers := wk\<rparr>)"
  using assms wk_keeps_counts [OF assms(2)]
  by (auto simp: px_inv_def px_core_def px_wk_def px_reg_def wk_isEnabled_def wk_keeps_def)

section \<open>Accept events\<close>

lemma proc_cnt_frame:
  "c_miners c = c_miners (p_cnt p) \<Longrightarrow> c_connections c = c_connections (p_cnt p) \<Longrightarrow> proc_frame p (p\<lparr>p_cnt := c\<rparr>)"
  by (auto simp: proc_frame_def proc_ok_def ready_ids_def)

lemma mild_cnt:
  "c_miners c = c_miners (p_cnt p) \<Longrightarrow> c_connections c = c_connections (p_cnt p) \<Longrightarrow> mild p (p\<lparr>p_cnt := c\<rparr>)"
  by (rule mild_views [OF proc_cnt_frame]) simp_all

lemma st_accept_mild:
  assumes "st_accept cfg ev p s = (p', s')"
  shows "mild p p' \<and> p_objs p' = p_objs p"
proof -
  let ?q = "if cfg_customDiffStats cfg \<and> ae_dangling p ev then p\<lparr>p_fault := True\<rparr> else p"
  let ?r = "?q\<lparr>p_cnt := (p_cnt ?q)\<lparr>c_accepted := c_accepted (p_cnt ?q) + 1\<rparr>\<rparr>"
  have q: "mild p ?q" "p_objs ?q = p_objs p" by simp_all
  have r: "mild ?q ?r" by (rule mild_cnt) simp_all
  have "p' = p \<or> p' = ?q \<or> p' = ?r" using assms unfolding st_accept_def Let_def by (auto split: if_splits)
  moreover have "mild p ?r" by (rule mild_trans [OF q(1) r])
  moreover have "p_objs ?r = p_objs p" by simp
  ultimately show ?thesis using q by (elim disjE) (simp_all only: mild_refl simp_thms)
qed

lemma px_accept_inv:
  assumes inv: "px_inv b px" and start: "px_start w env seq (EvAccept ev) px = (ok, e, px')"
  shows "px_inv b px' \<and> p_objs (px_proc px') = p_objs (px_proc px) \<and> px_up px' = px_up px \<and> px_donate px' = px_donate px"
proof -
  let ?P = "\<lambda>e s. e = EvAccept ev \<and> px_inv b s \<and> p_objs (px_proc s) = p_objs (px_proc px) \<and> px_up s = px_up px \<and>
    px_donate s = px_donate px"
  have call: "call_listeners ev_rejected (bus_listeners (proxy_bus w env seq) AcceptType) (EvAccept ev) px = (e, px')"
    using start by (simp add: px_start_call split: prod.splits)
  have "?P e px'"
  proof (rule call_listeners_inv [where P = ?P, OF _ _ call])
    show "?P (EvAccept ev) px" using inv by simp
    fix l e s e' s'
    assume l: "l \<in> set (bus_listeners (proxy_bus w env seq) AcceptType)" and P: "?P e s" and h: "hear l e s = (e', s')"
    from P have inv: "px_inv b s" and e: "e = EvAccept ev" by simp_all
    from l consider "l = stats_listener (w_cfg w)" | "l = workers_listener (w_cfg w) env" | "l = plain (recorder_event w (e_now env))"
      by (auto simp: bus_lists)
    then show "?P e' s'"
    proof cases
      case 1
      show ?thesis
      proof (cases "ae_isRejected ev")
        case True
        then show ?thesis using h P by (auto simp: 1 e hear_def listener_defs)
      next
        case False
        obtain p' st where a: "st_accept (w_cfg w) ev (px_proc s) (px_stats s) = (p', st)" by fastforce
        from st_accept_mild [OF a] px_inv_proc [OF inv] have "px_inv b (s\<lparr>px_proc := p'\<rparr>)" by blast
        then have "px_inv b (s\<lparr>px_proc := p', px_stats := st\<rparr>)" by (simp only: px_inv_rest)
        then show ?thesis using h P False a st_accept_mild [OF a] by (auto simp: 1 e hear_def listener_defs)
      qed
    next
      case 2
      let ?wk = "when_enabled (workers_accept (w_cfg w) (e_now env) (px_proc s) ev) (px_workers s)"
      have "wk_inv ?wk"
        using workers.step_inv [of "px_workers s" "WkAccept (w_cfg w) (e_now env) (px_proc s) ev"] inv
        by (simp add: px_inv_def px_core_def)
      then have "px_inv b (s\<lparr>px_workers := ?wk\<rparr>)" by (rule px_inv_workers [OF inv wk_keeps_ops(1)])
      then show ?thesis using h P by (cases "ae_isRejected ev") (auto simp: 2 e hear_def listener_defs)
    next
      case 3
      have "px_inv b (s\<lparr>px_proc := (px_proc s)\<lparr>p_fault := True\<rparr>\<rparr>)" by (rule px_inv_proc [OF inv mild_fault])
      then show ?thesis
        using h P inv by (auto simp: 3 e hear_def listener_defs silent_def split: if_splits option.splits)
    qed
  qed
  then show ?thesis by blast
qed

end
