(* ===== verification/ProxyRun.thy ===== *)
theory ProxyRun
  imports ProxyInv
begin

text \<open>
  Every event of the proxy keeps its invariant: shares, logins, the end of a connection, new
  connections, the lines of a read, the callbacks of the upstreams and clients, the timers.
\<close>

section \<open>Submit events\<close>

lemma dp_inv_client:
  assumes inv: "dp_inv p dp" and k: "dp_mappers dp k = Some (Some dm)" "dm_id dm' = dm_id dm" "dm_miner dm' = dm_miner dm"
  shows "dp_inv p (dp\<lparr>dp_mappers := (dp_mappers dp)(k \<mapsto> Some dm')\<rparr>)"
proof -
  have "\<exists>dm m. e = Some dm \<and> dm_id dm = l \<and> p_objs p (dm_miner dm) = Some m \<and> m_routeId m = 0 \<and> m_mapperId m = int l"
    and "l < dp_sequence dp" if "((dp_mappers dp)(k \<mapsto> Some dm')) l = Some e" for l e
    using dp_invD(1) [OF inv, of l e] dp_invD(1) [OF inv k(1)] that k(2,3) by (cases "l = k"; auto)+
  moreover have "\<exists>dm2. ((dp_mappers dp)(k \<mapsto> Some dm')) (nat (m_mapperId m)) = Some (Some dm2) \<and> dm_miner dm2 = i"
    if "p_objs p i = Some m" "m_routeId m = 0" "0 \<le> m_mapperId m" for i m
    using dp_invD(2) [OF inv that] k by (cases "nat (m_mapperId m) = k") auto
  ultimately show ?thesis unfolding dp_inv_def by simp
qed

lemma dp_submit_inv:
  assumes inv: "dp_inv p dp" and sub: "dp_submit ev p dp = (ev', p', dp')"
  shows "dp_inv p dp' \<and> (p' = p \<or> p' = p\<lparr>p_fault := True\<rparr>) \<and> se_miner ev' = se_miner ev"
proof (cases "\<exists>m. p_objs p (se_miner ev) = Some m \<and> 0 \<le> m_mapperId m \<and> m_routeId m = 0")
  case False
  then show ?thesis using inv sub by (auto simp: dp_submit_def split: option.splits if_splits)
next
  case True
  then obtain m where m: "p_objs p (se_miner ev) = Some m" "0 \<le> m_mapperId m" "m_routeId m = 0" by blast
  let ?k = "nat (m_mapperId m)"
  from dp_invD(2) [OF inv m(1,3,2)] obtain dm where dm: "dp_mappers dp ?k = Some (Some dm)" "dm_miner dm = se_miner ev" by blast
  obtain ev1 dm' where sd: "dm_submit ev dm = (ev1, dm')" by fastforce
  then have e: "ev' = ev1" "p' = p" "dp' = dp\<lparr>dp_mappers := (dp_mappers dp)(?k \<mapsto> Some dm')\<rparr>"
    using sub m dm by (auto simp: dp_submit_def Let_def)
  have k: "dm_id dm' = dm_id dm" "dm_miner dm' = dm_miner dm" "se_miner ev1 = se_miner ev"
    using sd by (auto simp: dm_submit_def dm_call_def split: if_splits)
  have "dp_inv p dp'" unfolding e(3) by (rule dp_inv_client [OF inv dm(1) k(1,2)])
  then show ?thesis using e k by simp
qed

lemma sp_submit_mild:
  assumes "sp_submit seq ev p ms = (ev', p', ms')"
  shows "mild p p' \<and> p_objs p' = p_objs p \<and> se_miner ev' = se_miner ev"
proof -
  have c: "c_miners (snd (nm_check ev c nm)) = c_miners c" "c_connections (snd (nm_check ev c nm)) = c_connections c" for c nm
    by (auto simp: nm_check_def ns_isValidJobId_def counters_expire_def Let_def)
  have "p' = p\<lparr>p_cnt := snd (nm_check ev (p_cnt p) nm)\<rparr> \<and> se_miner ev' = se_miner ev"
    if "nm_submit seq ev p nm = (ev', p', x)" for nm x
    using that by (auto simp: nm_submit_def Let_def case_prod_beta split: if_splits)
  then have "se_miner ev' = se_miner ev \<and> (p' = p \<or> p' = p\<lparr>p_fault := True\<rparr> \<or> (\<exists>nm. p' = p\<lparr>p_cnt := snd (nm_check ev (p_cnt p) nm)\<rparr>))"
    using assms by (fastforce simp: sp_submit_def Let_def split: option.splits if_splits prod.splits)
  moreover have "mild p (p\<lparr>p_cnt := snd (nm_check ev (p_cnt p) nm)\<rparr>)" for nm by (rule mild_cnt) (rule c)+
  ultimately show ?thesis by auto
qed

lemma on_workers_inv:
  assumes inv: "px_inv b px" and "\<And>m. wk_keeps (px_workers px) (f m (px_workers px))" and "\<And>m. wk_inv (f m (px_workers px))"
  shows "px_inv b (on_workers f i px) \<and> p_objs (px_proc (on_workers f i px)) = p_objs (px_proc px)"
  using assms px_inv_workers [OF inv] px_inv_proc [OF inv mild_fault] by (auto simp: on_workers_def split: option.split)

lemma workers_reject_inv: "wk_isEnabled wk \<Longrightarrow> wk_inv wk \<Longrightarrow> wk_inv (workers_reject m wk)"
  using workers.step_inv [of wk "WkReject m"] by (simp add: when_enabled_def)

lemma px_dp: "px_core (px\<lparr>px_donate := dp\<rparr>) = (px_core px \<and> dp_inv (px_proc px) dp)" if "px_core px"
  using that by (auto simp: px_core_def)

lemma px_inv_dp: "px_inv b px \<Longrightarrow> dp_inv (px_proc px) dp \<Longrightarrow> px_inv b (px\<lparr>px_donate := dp\<rparr>)"
  by (simp add: px_inv_def px_core_def px_wk_def px_reg_def)

lemma px_submit_inv:
  assumes inv: "px_inv b px" and start: "px_start w env seq (EvSubmit ev) px = (ok, e, px')"
  shows "px_inv b px' \<and> p_objs (px_proc px') = p_objs (px_proc px) \<and> (\<exists>ev'. e = EvSubmit ev' \<and> se_miner ev' = se_miner ev)"
proof -
  let ?P = "\<lambda>e s. px_inv b s \<and> p_objs (px_proc s) = p_objs (px_proc px) \<and> (\<exists>ev'. e = EvSubmit ev' \<and> se_miner ev' = se_miner ev)"
  let ?ls = "bus_listeners (proxy_bus w env seq) SubmitType"
  have call: "call_listeners ev_rejected ?ls (EvSubmit ev) px = (e, px')"
    using start by (simp add: px_start_call split: prod.splits)
  show ?thesis
  proof (rule call_listeners_inv [where P = ?P, OF _ _ call])
    show "?P (EvSubmit ev) px" using inv by simp
    fix l e s e' s'
    assume l: "l \<in> set ?ls" and P: "?P e s" and h: "hear l e s = (e', s')"
    from P obtain ev' where inv: "px_inv b s" and ev': "e = EvSubmit ev'" "se_miner ev' = se_miner ev" by blast
    show "?P e' s'"
    proof (cases "se_error ev' = NoError")
      case True
      from l consider "l = plain (donate_event env (w_cfg w))" | "l = plain (splitter_event env (w_cfg w) (w_src w) seq)"
        | "l = stats_listener (w_cfg w) \<or> l = workers_listener (w_cfg w) env"
        by (auto simp: bus_lists)
      then show ?thesis
      proof cases
        case 1
        obtain ev2 p2 dp2 where d: "dp_submit ev' (px_proc s) (px_donate s) = (ev2, p2, dp2)" by (cases rule: prod_cases3)
        have "dp_inv (px_proc s) (px_donate s)" using inv by (simp add: px_inv_def px_core_def)
        from dp_submit_inv [OF this d] have d2: "dp_inv (px_proc s) dp2" "p2 = px_proc s \<or> p2 = (px_proc s)\<lparr>p_fault := True\<rparr>"
          "se_miner ev2 = se_miner ev'" by simp_all
        have "mild (px_proc s) p2" "p_objs p2 = p_objs (px_proc s)" using d2(2) by auto
        have "px_inv b (s\<lparr>px_donate := dp2\<rparr>)" by (rule px_inv_dp [OF inv d2(1)])
        then have "px_inv b (s\<lparr>px_donate := dp2\<rparr>\<lparr>px_proc := p2\<rparr>)" by (rule px_inv_proc) (simp add: \<open>mild (px_proc s) p2\<close>)
        moreover have "s\<lparr>px_donate := dp2\<rparr>\<lparr>px_proc := p2\<rparr> = s\<lparr>px_proc := p2, px_donate := dp2\<rparr>" by simp
        ultimately have "px_inv b (s\<lparr>px_proc := p2, px_donate := dp2\<rparr>)" by (simp only:)
        then show ?thesis using h P d d2 True ev' \<open>p_objs p2 = _\<close> by (auto simp: 1 hear_def listener_defs)
      next
        case 2
        obtain ev2 p2 ms2 where d: "sp_submit seq ev' (px_proc s) (px_up s) = (ev2, p2, ms2)" by (cases rule: prod_cases3)
        have "sp_inv p2 ms2" using sp_submit_inv [OF _ d] inv by (simp add: px_inv_def px_core_def)
        with px_inv_mild [OF inv] sp_submit_mild [OF d] have "px_inv b (s\<lparr>px_proc := p2, px_up := ms2\<rparr>)" by blast
        then show ?thesis using h P d sp_submit_mild [OF d] True ev' by (auto simp: 2 hear_def listener_defs)
      next
        case 3
        then show ?thesis using h P True by (auto simp: ev' hear_def listener_defs)
      qed
    next
      case False
      have wk: "px_inv b (on_workers workers_reject i s) \<and> p_objs (px_proc (on_workers workers_reject i s)) = p_objs (px_proc s)" for i
      proof (cases "wk_isEnabled (px_workers s)")
        case True
        then show ?thesis
          using on_workers_inv [OF inv, of workers_reject] wk_keeps_ops(2) workers_reject_inv inv by (auto simp: px_inv_def px_core_def)
      qed (simp add: on_workers_def inv)
      from l consider "l = stats_listener (w_cfg w)" | "l = workers_listener (w_cfg w) env" | "\<exists>h. l = plain h"
        by (auto simp: bus_lists)
      then show ?thesis
      proof cases
        case 2
        then show ?thesis using h P wk False by (auto simp: ev' hear_def listener_defs)
      qed (use h P False in \<open>auto simp: ev' hear_def listener_defs silent_def\<close>)
    qed
  qed
qed

section \<open>Login events\<close>

text \<open>While the login of \<open>i\<close> is on its way through the listeners, the worker table may lag behind.\<close>

definition login_stage :: "bool \<Rightarrow> int \<Rightarrow> 'r proxy \<Rightarrow> bool" where
  "login_stage b i px \<longleftrightarrow> px_core px \<and> px_wk b {i} px \<and> px_reg px \<and> 0 < i \<and>
     (\<exists>m. p_objs (px_proc px) i = Some m \<and> m_state m \<noteq> WaitLoginState)"

definition unplaced :: "int \<Rightarrow> proc \<Rightarrow> bool" where
  "unplaced i p \<longleftrightarrow> (\<forall>m. p_objs p i = Some m \<longrightarrow> m_routeId m \<noteq> - 1 \<or> m_mapperId m < 0)"

lemma frame_before:
  assumes "proc_frame p p'" and "p_objs p' j = Some m'"
  obtains m where "p_objs p j = Some m" and "m_state m' = WaitLoginState \<Longrightarrow> m_state m = WaitLoginState"
proof -
  from assms have "j \<in> dom (p_objs p)" by (auto simp: proc_frame_def)
  then obtain m where m: "p_objs p j = Some m" by blast
  with assms have "state_next\<^sup>*\<^sup>* (m_state m) (m_state m')" by (auto simp: proc_frame_def)
  then have "m_state m' = WaitLoginState \<Longrightarrow> m_state m = WaitLoginState" using wait_login_first by simp
  then show ?thesis by (rule that [OF m])
qed

lemma login_stage_change:
  assumes st: "login_stage b i px" and fr: "proc_frame (px_proc px) p'"
    and others: "\<And>j. j \<noteq> i \<Longrightarrow> map_option route_view (p_objs p' j) = map_option route_view (p_objs (px_proc px) j)"
    and own: "\<And>m. p_objs p' i = Some m \<Longrightarrow> m_routeId m = - 1 \<and> - 1 \<le> m_mapperId m \<or> m_routeId m = 0"
    and sp: "sp_inv p' ms" and dp: "dp_inv p' dp"
  shows "login_stage b i (px\<lparr>px_proc := p', px_up := ms, px_donate := dp\<rparr>)"
proof -
  let ?p = "px_proc px"
  from st have core: "px_core px" and wk: "px_wk b {i} px" and reg: "px_reg px" and i: "0 < i" by (simp_all add: login_stage_def)
  obtain m0 where m0: "p_objs ?p i = Some m0" "m_state m0 \<noteq> WaitLoginState" using st unfolding login_stage_def by blast
  have dom: "dom (p_objs p') = dom (p_objs ?p)" using fr by (simp add: proc_frame_def)
  obtain m1 where m1: "p_objs p' i = Some m1" using m0(1) dom by (metis domD domI)
  have s1: "m_state m1 \<noteq> WaitLoginState" using frame_before [OF fr m1] m0 by (metis option.inject)
  have r: "(m_routeId m' = - 1 \<and> - 1 \<le> m_mapperId m' \<or> m_routeId m' = 0) \<and>
      (m_state m' = WaitLoginState \<longrightarrow> m_routeId m' = - 1 \<and> m_mapperId m' < 0)" if j: "p_objs p' j = Some m'" for j m'
  proof (cases "j = i")
    case True
    then show ?thesis using own j m1 s1 by auto
  next
    case False
    obtain m where m: "p_objs ?p j = Some m" "m_state m' = WaitLoginState \<Longrightarrow> m_state m = WaitLoginState"
      by (rule frame_before [OF fr j]) blast
    have "route_view m' = route_view m" using others [OF False] j m(1) by simp
    then have v: "m_routeId m' = m_routeId m" "m_mapperId m' = m_mapperId m" by (simp_all add: route_view_def)
    have "(m_routeId m = - 1 \<and> - 1 \<le> m_mapperId m \<or> m_routeId m = 0) \<and>
      (m_state m = WaitLoginState \<longrightarrow> m_routeId m = - 1 \<and> m_mapperId m < 0)"
      using core m(1) by (auto simp: px_core_def routes_ok_def)
    then show ?thesis unfolding v using m(2) by blast
  qed
  have c: "counted p' - {i} = counted ?p - {i}"
  proof -
    have "j \<in> counted p' \<longleftrightarrow> j \<in> counted ?p" if "j \<noteq> i" for j
      using others [OF that] by (cases "p_objs ?p j"; cases "p_objs p' j") (auto simp: counted_def route_view_def)
    then show ?thesis by blast
  qed
  have "routes_ok p'" unfolding routes_ok_def using r by blast
  moreover have "proc_ok p'" using fr core by (simp add: proc_frame_def px_core_def)
  ultimately show ?thesis
    using core wk reg i sp dp m1 s1 unfolding login_stage_def px_core_def px_wk_def px_reg_def
    by (simp add: dom c del: Diff_insert0 Diff_insert)
qed

lemma miner_view_same:
  "map_option miner_view a = map_option miner_view b \<Longrightarrow> map_option nm_view a = map_option nm_view b"
  by (cases a; cases b) (auto simp: miner_view_def miner_core_def nm_view_def)

lemma login_keeps_sp:
  assumes inv: "sp_inv p ms" and keeps: "login_keeps i p p'" and un: "unplaced i p"
  shows "sp_inv p' ms \<and> unplaced i p'"
proof -
  have same: "same_view p p' j" if "j \<noteq> i" for j
    by (rule miner_view_same) (use keeps that in \<open>unfold login_keeps_def, blast\<close>)
  have dom: "dom (p_objs p') = dom (p_objs p)" using keeps by (simp add: login_keeps_def proc_frame_def)
  have un': "m_routeId m' \<noteq> - 1 \<or> m_mapperId m' < 0" if m': "p_objs p' i = Some m'" for m'
  proof -
    from m' dom obtain m where m: "p_objs p i = Some m" by (metis domD domI)
    with keeps m' have "m_routeId m' = 0 \<or> m_routeId m' = m_routeId m \<and> m_mapperId m' = m_mapperId m"
      unfolding login_keeps_def by (metis option.inject)
    then show ?thesis using un m by (auto simp: unplaced_def)
  qed
  have "nm_inv p' (ms ! k)" if k: "k < length ms" for k
  proof (rule nm_inv_cong [OF sp_invD(4) [OF inv k]])
    fix j
    assume "nm_members (ms ! k) j \<noteq> None"
    moreover have "nm_members (ms ! k) i = None"
      by (rule sp_stranger [OF inv k]) (use un in \<open>auto simp: unplaced_def\<close>)
    ultimately show "same_view p p' j" using same by metis
  qed
  moreover have "nat (m_mapperId m') < length ms \<and> nm_members (ms ! nat (m_mapperId m')) j \<noteq> None"
    if m': "p_objs p' j = Some m'" "m_routeId m' = - 1" "0 \<le> m_mapperId m'" for j m'
  proof -
    have "j \<noteq> i" using un' m' by auto
    from same_viewE [OF same [OF this] m'(1)] obtain m where "p_objs p j = Some m" "m_mapperId m' = m_mapperId m"
      "m_routeId m' = m_routeId m" by metis
    then show ?thesis using sp_invD(5) [OF inv] m'(2,3) by metis
  qed
  ultimately have "sp_inv p' ms" using inv unfolding sp_inv_def by blast
  then show ?thesis using un' by (simp add: unplaced_def)
qed

lemma login_stageD:
  assumes "login_stage b i px"
  shows "px_core px" "sp_inv (px_proc px) (px_up px)" "dp_inv (px_proc px) (px_donate px)" "proc_ok (px_proc px)" "0 < i"
    "routes_ok (px_proc px)" "\<exists>m. p_objs (px_proc px) i = Some m"
  using assms by (auto simp: login_stage_def px_core_def)

lemma login_stage_own:
  assumes "login_stage b i px" and "map_option route_view (p_objs p' i) = map_option route_view (p_objs (px_proc px) i)"
    and "p_objs p' i = Some m"
  shows "m_routeId m = - 1 \<and> - 1 \<le> m_mapperId m \<or> m_routeId m = 0"
proof -
  from login_stageD(7) [OF assms(1)] obtain m0 where m0: "p_objs (px_proc px) i = Some m0" by blast
  then have "m_routeId m = m_routeId m0" "m_mapperId m = m_mapperId m0" using assms(2,3) by (simp_all add: route_view_def)
  with login_stageD(6) [OF assms(1)] m0 show ?thesis by (auto simp: routes_ok_def)
qed

lemma login_stage_mild:
  assumes st: "login_stage b i px" and mild: "mild (px_proc px) p'"
  shows "login_stage b i (px\<lparr>px_proc := p'\<rparr>)"
proof -
  have r: "map_option route_view (p_objs p' j) = map_option route_view (p_objs (px_proc px) j)" for j
    using mild unfolding mild_def by blast
  have "login_stage b i (px\<lparr>px_proc := p', px_up := px_up px, px_donate := px_donate px\<rparr>)"
  proof (rule login_stage_change [OF st])
    show "proc_frame (px_proc px) p'" using mild by (simp add: mild_def)
    show "sp_inv p' (px_up px)" by (rule mild_sp [OF login_stageD(2) [OF st] mild])
    show "dp_inv p' (px_donate px)" by (rule mild_dp [OF mild login_stageD(3) [OF st]])
    show "m_routeId m = - 1 \<and> - 1 \<le> m_mapperId m \<or> m_routeId m = 0" if "p_objs p' i = Some m" for m
      by (rule login_stage_own [OF st r that])
  qed (rule r)
  then show ?thesis by simp
qed

lemma mild_unplaced:
  assumes "mild p p'" and "unplaced i p"
  shows "unplaced i p'"
proof -
  have "map_option route_view (p_objs p' i) = map_option route_view (p_objs p i)" using assms(1) unfolding mild_def by blast
  then show ?thesis using assms(2) by (cases "p_objs p i") (auto simp: unplaced_def route_view_def)
qed

lemma login_login_mild: "mild p (snd (login_login env cfg ev p))"
proof (rule mild_same [OF login_login_frame])
  show "proc_same miner_view p (snd (login_login env cfg ev p))"
    using proc_same_trans [OF reply_same(1) reply_same(3)]
    by (auto simp: login_login_def login_reject_def split: option.splits)
qed

lemma customDiff_mild: "mild p (customDiff_login cfg ev p)"
proof (rule mild_views [OF customDiff_login_frame])
  have v: "nm_view (customDiff_of cfg m) = nm_view m" for m
    by (auto simp: customDiff_of_def nm_view_def Let_def split: option.splits)
  show "same_view p (customDiff_login cfg ev p) j" for j
    unfolding customDiff_login_def upd_miner_objs using v by (simp add: option.map_comp comp_def)
qed

lemma login_stage_done:
  assumes st: "login_stage b i px" and un: "unplaced i (px_proc px)"
  shows "px_inv b px"
proof -
  have "i \<notin> counted (px_proc px)" using un by (auto simp: counted_def unplaced_def)
  then show ?thesis using st by (simp add: login_stage_def px_inv_def px_wk_def)
qed

lemma login_stage_rest [simp]: "login_stage b i (px\<lparr>px_stats := x\<rparr>) = login_stage b i px"
  by (simp add: login_stage_def px_core_def px_wk_def px_reg_def)

text \<open>The donate splitter and the nicehash splitter.\<close>

lemma login_stage_donate:
  assumes st: "login_stage b (le_miner ev) px" and m: "p_objs (px_proc px) (le_miner ev) = Some m" "m_mapperId m < 0" "m_routeId m = - 1"
    and d: "dp_login env cfg ev (px_proc px) (px_donate px) = (ev', p', dp')"
  shows "login_stage b (le_miner ev) (px\<lparr>px_proc := p', px_donate := dp'\<rparr>) \<and> unplaced (le_miner ev) p' \<and> le_miner ev' = le_miner ev"
proof -
  let ?i = "le_miner ev"
  from dp_login_inv [OF login_stageD(3) [OF st] m(1,2) d] have inv: "dp_inv p' dp'" and keeps: "login_keeps ?i (px_proc px) p'"
    and e: "le_miner ev' = ?i" by simp_all
  have "unplaced ?i (px_proc px)" using m by (simp add: unplaced_def)
  from login_keeps_sp [OF login_stageD(2) [OF st] keeps this] have sp: "sp_inv p' (px_up px)" and un: "unplaced ?i p'" by simp_all
  have "login_stage b ?i (px\<lparr>px_proc := p', px_up := px_up px, px_donate := dp'\<rparr>)"
  proof (rule login_stage_change [OF st _ _ _ sp inv])
    show "proc_frame (px_proc px) p'" using keeps by (simp add: login_keeps_def)
    show "map_option route_view (p_objs p' j) = map_option route_view (p_objs (px_proc px) j)" if "j \<noteq> ?i" for j
    proof -
      have "same_view (px_proc px) p' j"
        by (rule miner_view_same) (use keeps that in \<open>unfold login_keeps_def, blast\<close>)
      then show ?thesis by (rule same_view_route)
    qed
    fix m'
    assume m': "p_objs p' ?i = Some m'"
    with keeps m(1) have "m_routeId m' = 0 \<or> m_routeId m' = m_routeId m \<and> m_mapperId m' = m_mapperId m"
      unfolding login_keeps_def by (metis option.inject)
    moreover have "m_routeId m = - 1 \<and> - 1 \<le> m_mapperId m \<or> m_routeId m = 0"
      by (rule login_stage_own [OF st refl m(1)])
    ultimately show "m_routeId m' = - 1 \<and> - 1 \<le> m_mapperId m' \<or> m_routeId m' = 0" by auto
  qed
  then show ?thesis using un e by simp
qed

lemma login_stage_splitter:
  assumes st: "login_stage b (le_miner ev) px" and un: "unplaced (le_miner ev) (px_proc px)"
    and d: "sp_onLogin env cfg src ev (px_proc px) (px_up px) = (p', ms')"
  shows "login_stage b (le_miner ev) (px\<lparr>px_proc := p', px_up := ms'\<rparr>) \<and>
    (\<forall>m. p_objs p' (le_miner ev) = Some m \<longrightarrow> m_routeId m = - 1 \<longrightarrow> 0 \<le> m_mapperId m)"
proof -
  let ?i = "le_miner ev" and ?p = "px_proc px"
  obtain m where m: "p_objs ?p ?i = Some m" using login_stageD(7) [OF st] by blast
  show ?thesis
  proof (cases "m_routeId m = - 1")
    case False
    then have "p' = ?p" "ms' = px_up px" using d m by (simp_all add: sp_onLogin_def)
    then show ?thesis using st m False by simp
  next
    case True
    then have neg: "m_mapperId m < 0" using un m by (auto simp: unplaced_def)
    note sp = sp_onLogin_inv [OF login_stageD(2) [OF st] m login_stageD(5) [OF st] neg d]
    obtain m' where m': "p_objs p' ?i = Some m'" "m_routeId m' = - 1" "0 \<le> m_mapperId m'"
      and same: "\<And>j. j \<noteq> ?i \<Longrightarrow> same_view ?p p' j"
      using sp(3) [OF True] unfolding placed_def by blast
    have r: "map_option route_view (p_objs p' j) = map_option route_view (p_objs ?p j)" if "j \<noteq> ?i" for j
      by (rule same_view_route [OF same [OF that]])
    have dp: "dp_inv p' (px_donate px)"
    proof (rule dp_inv_change [OF login_stageD(3) [OF st]])
      show "\<exists>m2. p_objs p' (dm_miner dm) = Some m2 \<and> m_routeId m2 = m_routeId m1 \<and> m_mapperId m2 = m_mapperId m1"
        if k: "dp_mappers (px_donate px) k = Some (Some dm)" and m1: "p_objs ?p (dm_miner dm) = Some m1" for k dm m1
      proof -
        have "dm_miner dm \<noteq> ?i" using dp_invD(1) [OF login_stageD(3) [OF st] k] m True by auto
        from r [OF this] m1 show ?thesis by (cases "p_objs p' (dm_miner dm)") (auto simp: route_view_def)
      qed
      show "\<exists>m1. p_objs ?p j = Some m1 \<and> m_routeId m1 = 0 \<and> m_mapperId m1 = m_mapperId m2"
        if j: "p_objs p' j = Some m2" "m_routeId m2 = 0" for j m2
      proof -
        have "j \<noteq> ?i" using j m' by auto
        from r [OF this] j show ?thesis by (cases "p_objs ?p j") (auto simp: route_view_def)
      qed
    qed
    have "login_stage b ?i (px\<lparr>px_proc := p', px_up := ms', px_donate := px_donate px\<rparr>)"
      by (rule login_stage_change [OF st sp(2) r _ sp(1) dp]) (use m' in auto)
    then show ?thesis using m' by simp
  qed
qed

definition login_before :: "bool \<Rightarrow> int \<Rightarrow> bus_event \<Rightarrow> 'r proxy \<Rightarrow> bool" where
  "login_before b i e s \<longleftrightarrow> login_stage b i s \<and> unplaced i (px_proc s) \<and> (\<exists>ev. e = EvLogin ev \<and> le_miner ev = i)"

definition login_after :: "bool \<Rightarrow> int \<Rightarrow> bus_event \<Rightarrow> 'r proxy \<Rightarrow> bool" where
  "login_after b i e s \<longleftrightarrow> login_stage b i s \<and>
     (\<exists>ev. e = EvLogin ev \<and> le_miner ev = i \<and> (le_rejected ev \<longrightarrow> unplaced i (px_proc s)) \<and>
       (\<not> le_rejected ev \<longrightarrow> (\<forall>m. p_objs (px_proc s) i = Some m \<longrightarrow> m_routeId m = - 1 \<longrightarrow> 0 \<le> m_mapperId m)))"

lemma login_hear_donate:
  assumes P: "login_before b i e s" "p_objs (px_proc s) i = Some m" "m_mapperId m < 0" "m_routeId m = - 1"
    and h: "hear (plain (donate_event env cfg)) e s = (e', s')"
  shows "login_before b i e' s'"
proof -
  from P obtain ev where ev: "e = EvLogin ev" "le_miner ev = i" and st: "login_stage b i s" by (auto simp: login_before_def)
  show ?thesis
  proof (cases "le_rejected ev")
    case True
    then show ?thesis using h P(1) by (auto simp: ev hear_def listener_defs silent_def)
  next
    case False
    obtain ev2 p2 dp2 where d: "dp_login env cfg ev (px_proc s) (px_donate s) = (ev2, p2, dp2)" by (cases rule: prod_cases3)
    from login_stage_donate [OF _ _ P(3,4) d] P(2) st
    have "login_stage b i (s\<lparr>px_proc := p2, px_donate := dp2\<rparr>) \<and> unplaced i p2 \<and> le_miner ev2 = i" by (simp add: ev(2))
    then show ?thesis using h False d by (auto simp: ev hear_def listener_defs login_before_def)
  qed
qed

lemma login_hear_login:
  assumes P: "login_before b i e s" and h: "hear (plain (login_event_handler env cfg)) e s = (e', s')"
  shows "login_before b i e' s' \<and> map_option route_view (p_objs (px_proc s') i) = map_option route_view (p_objs (px_proc s) i)"
proof -
  from P obtain ev where ev: "e = EvLogin ev" "le_miner ev = i" and st: "login_stage b i s" and un: "unplaced i (px_proc s)"
    by (auto simp: login_before_def)
  obtain ev2 p2 where d: "login_login env cfg ev (px_proc s) = (ev2, p2)" by fastforce
  have m: "mild (px_proc s) p2" using login_login_mild [of "px_proc s" env cfg ev] d by simp
  have e2: "le_miner ev2 = le_miner ev" using d by (auto simp: login_login_def login_reject_def split: option.splits if_splits)
  have r: "map_option route_view (p_objs p2 i) = map_option route_view (p_objs (px_proc s) i)" using m unfolding mild_def by blast
  show ?thesis
  proof (cases "le_rejected ev")
    case True
    then have "e' = e" "s' = s" using h by (auto simp: ev hear_def listener_defs silent_def)
    then show ?thesis using P by simp
  next
    case False
    then have s': "e' = EvLogin ev2" "s' = s\<lparr>px_proc := p2\<rparr>" using h d by (auto simp: ev hear_def listener_defs)
    show ?thesis using login_stage_mild [OF st m] mild_unplaced [OF m un] e2 ev(2) unfolding s' login_before_def by (simp add: r)
  qed
qed

lemma login_hear_customDiff:
  assumes P: "login_before b i e s" and h: "hear (plain (customDiff_event cfg)) e s = (e', s')"
  shows "login_before b i e' s'"
proof -
  from P obtain ev where ev: "e = EvLogin ev" "le_miner ev = i" and st: "login_stage b i s" and un: "unplaced i (px_proc s)"
    by (auto simp: login_before_def)
  let ?p = "customDiff_login cfg ev (px_proc s)"
  have "e' = e" "s' = s \<or> s' = s\<lparr>px_proc := ?p\<rparr>"
    using h by (cases "le_rejected ev"; auto simp: ev hear_def listener_defs silent_def)+
  moreover have "login_stage b i (s\<lparr>px_proc := ?p\<rparr>)" by (rule login_stage_mild [OF st customDiff_mild])
  moreover have "unplaced i ?p" by (rule mild_unplaced [OF customDiff_mild un])
  ultimately show ?thesis using P unfolding login_before_def by auto
qed

lemma login_hear_splitter:
  assumes P: "login_before b i e s" and h: "hear (plain (splitter_event env cfg src seq)) e s = (e', s')"
  shows "login_after b i e' s'"
proof -
  from P obtain ev where ev: "e = EvLogin ev" "le_miner ev = i" and st: "login_stage b i s" and un: "unplaced i (px_proc s)"
    by (auto simp: login_before_def)
  show ?thesis
  proof (cases "le_rejected ev")
    case True
    then show ?thesis using h st un by (auto simp: ev hear_def listener_defs silent_def login_after_def)
  next
    case False
    obtain p2 ms2 where d: "sp_onLogin env cfg src ev (px_proc s) (px_up s) = (p2, ms2)" by fastforce
    from login_stage_splitter [OF _ _ d] st un have "login_stage b i (s\<lparr>px_proc := p2, px_up := ms2\<rparr>)"
      "\<forall>m. p_objs p2 i = Some m \<longrightarrow> m_routeId m = - 1 \<longrightarrow> 0 \<le> m_mapperId m" by (simp_all add: ev(2))
    then show ?thesis using h False d by (auto simp: ev hear_def listener_defs login_after_def)
  qed
qed

lemma login_hear_workers:
  assumes P: "login_after b i e s" and h: "hear (workers_listener cfg env) e s = (e', s')"
  shows "px_inv b s'"
proof -
  from P obtain ev where ev: "e = EvLogin ev" "le_miner ev = i" and st: "login_stage b i s"
    and un: "le_rejected ev \<Longrightarrow> unplaced i (px_proc s)"
    and pl: "\<And>m. \<not> le_rejected ev \<Longrightarrow> p_objs (px_proc s) i = Some m \<Longrightarrow> m_routeId m = - 1 \<Longrightarrow> 0 \<le> m_mapperId m"
    by (auto simp: login_after_def)
  obtain m where m: "p_objs (px_proc s) i = Some m" using login_stageD(7) [OF st] by blast
  have id: "m_id m = i" using login_stageD(4) [OF st] m by (auto simp: proc_ok_def)
  show ?thesis
  proof (cases "le_rejected ev \<or> m_routeId m \<noteq> - 1 \<or> \<not> wk_isEnabled (px_workers s)")
    case True
    then have "s' = s" using h m
      by (cases "le_rejected ev") (auto simp: ev hear_def listener_defs on_workers_def workers_login_def)
    moreover have "px_inv b s"
    proof (cases "wk_isEnabled (px_workers s)")
      case False
      then show ?thesis using st by (simp add: login_stage_def px_inv_def px_wk_def)
    next
      case True
      with \<open>le_rejected ev \<or> _\<close> un m have "unplaced i (px_proc s)" by (auto simp: unplaced_def)
      then show ?thesis by (rule login_stage_done [OF st])
    qed
    ultimately show ?thesis by simp
  next
    case False
    then have s': "s' = s\<lparr>px_workers := workers_add m (px_workers s)\<rparr>"
      using h m by (auto simp: ev hear_def listener_defs on_workers_def workers_login_def)
    have inv: "wk_inv (px_workers s)" using st by (simp add: login_stage_def px_core_def)
    have mode: "wk_isEnabled (workers_add m (px_workers s)) = wk_isEnabled (px_workers s)"
      by (simp add: wk_isEnabled_def workers_add_def upd_worker_def Let_def split: option.split)
    have "b \<Longrightarrow> wk_counts (counted (px_proc s) - {i}) (px_workers s)" using st False by (simp add: login_stage_def px_wk_def)
    from wk_counts_add [OF inv this, where m = m] id
    have c: "b \<Longrightarrow> wk_counts (insert i (counted (px_proc s))) (workers_add m (px_workers s))" by simp
    have "i \<in> counted (px_proc s)" using pl m False by (auto simp: counted_def)
    then show ?thesis
      using c st mode workers_add_inv [OF inv] unfolding s' login_stage_def px_inv_def px_core_def px_wk_def px_reg_def
      by (simp add: insert_absorb)
  qed
qed

lemma px_login_inv:
  assumes st: "login_stage b (le_miner ev) px" and m: "p_objs (px_proc px) (le_miner ev) = Some m" "m_mapperId m < 0" "m_routeId m = - 1"
    and start: "px_start w env seq (EvLogin ev) px = (ok, e, px')"
  shows "px_inv b px'"
proof -
  let ?i = "le_miner ev" and ?cfg = "w_cfg w"
  obtain e1 s1 where h1: "hear (plain (login_event_handler env ?cfg)) (EvLogin ev) px = (e1, s1)" by fastforce
  obtain e2 s2 where h2: "hear (plain (donate_event env ?cfg)) e1 s1 = (e2, s2)" by fastforce
  obtain e3 s3 where h3: "hear (plain (customDiff_event ?cfg)) e2 s2 = (e3, s3)" by fastforce
  obtain e4 s4 where h4: "hear (plain (splitter_event env ?cfg (w_src w) seq)) e3 s3 = (e4, s4)" by fastforce
  obtain e5 s5 where h5: "hear (stats_listener ?cfg) e4 s4 = (e5, s5)" by fastforce
  obtain e6 s6 where h6: "hear (workers_listener ?cfg env) e5 s5 = (e6, s6)" by fastforce
  have "px' = s6"
    using start h1 h2 h3 h4 h5 h6 unfolding px_start_call ev_type.simps bus_lists
    by (simp add: call_hear del: call_listeners.simps(2))
  moreover have b0: "login_before b ?i (EvLogin ev) px" using st m by (simp add: login_before_def unplaced_def)
  from login_hear_login [OF b0 h1] have b1: "login_before b ?i e1 s1"
    and r: "map_option route_view (p_objs (px_proc s1) ?i) = map_option route_view (p_objs (px_proc px) ?i)" by simp_all
  from r m obtain m1 where "p_objs (px_proc s1) ?i = Some m1" "m_mapperId m1 < 0" "m_routeId m1 = - 1"
    by (cases "p_objs (px_proc s1) ?i") (auto simp: route_view_def)
  from login_hear_donate [OF b1 this h2] have "login_before b ?i e2 s2" .
  from login_hear_customDiff [OF this h3] have "login_before b ?i e3 s3" .
  from login_hear_splitter [OF this h4] have b4: "login_after b ?i e4 s4" .
  have "e5 = e4" "s5 = s4" using b4 h5 by (auto simp: login_after_def hear_def listener_defs split: if_splits)
  with b4 have "login_after b ?i e5 s5" by simp
  from login_hear_workers [OF this h6] have "px_inv b s6" .
  ultimately show ?thesis by simp
qed

section \<open>The end of a connection\<close>

lemma sp_remove_proc:
  assumes "p_objs p i \<noteq> None" and "sp_remove i p ms = (p', ms')"
  shows "p' = p \<or> p' = p\<lparr>p_fault := True\<rparr>"
  using assms by (auto simp: sp_remove_def nm_remove_def ns_remove_def Let_def split: option.splits if_splits prod.splits)

lemma remove_sorted:
  assumes "finite A"
  shows "miners_remove i (sorted_list_of_set A) = sorted_list_of_set (A - {i})"
proof -
  have "sorted_list_of_set (A - {i}) = remove1 i (sorted_list_of_set A)" by (rule sorted_list_of_set_remove [OF assms])
  also have "\<dots> = miners_remove i (sorted_list_of_set A)"
    unfolding miners_remove_def using distinct_remove1_removeAll [of "sorted_list_of_set A" i]
    by (simp add: removeAll_filter_not_eq eq_commute)
  finally show ?thesis by simp
qed

lemma counted_delete: "counted (proc_delete i p) = counted p - {i}"
  by (auto simp: counted_def proc_delete_objs split: if_splits)

lemma workers_remove_counts:
  assumes inv: "wk_inv wk" and counts: "wk_counts (counted p) wk" and m: "p_objs p i = Some m" "m_id m = i"
    and routes: "routes_ok p"
  shows "wk_counts (counted p - {i}) (workers_remove m wk)"
proof (cases "i \<in> counted p")
  case True
  then have "m_routeId m = - 1" "m_mapperId m \<noteq> - 1" using m by (auto simp: counted_def)
  with wk_counts_remove [OF inv counts, where m = m] True m(2) show ?thesis by simp
next
  case False
  have "m_routeId m \<noteq> - 1 \<or> m_mapperId m = - 1" using routes m(1) False by (fastforce simp: routes_ok_def counted_def)
  then have "workers_remove m wk = wk" by (auto simp: workers_remove_def indexByMiner_def)
  then show ?thesis using counts False by simp
qed

lemma px_closed_inv:
  assumes inv: "px_inv b px" and m: "p_objs (px_proc px) i = Some m" "m_state m = ClosingState"
  shows "px_inv b (px_closed w env i px) \<and> p_objs (px_proc (px_closed w env i px)) = (p_objs (px_proc px))(i := None)"
proof -
  let ?p = "px_proc px" and ?wk = "px_workers px"
  from inv have core: "px_core px" and wk: "px_wk b {} px" and reg: "px_reg px" by (simp_all add: px_inv_def)
  obtain p2 dp2 where d: "dp_remove i ?p (px_donate px) = (p2, dp2)" by fastforce
  obtain p3 ms3 where s: "sp_remove i p2 (px_up px) = (p3, ms3)" by fastforce
  have p2: "p2 = ?p" using d m by (auto simp: dp_remove_def split: if_splits)
  have p3: "p3 = ?p \<or> p3 = ?p\<lparr>p_fault := True\<rparr>" using sp_remove_proc [OF _ s] m p2 by simp
  then have o3: "p_objs p3 = p_objs ?p" by auto
  let ?del = "proc_delete i p3"
  have od: "p_objs ?del = (p_objs ?p)(i := None)" using o3 proc_delete_objs by fastforce
  have sp: "sp_inv ?del ms3" using sp_close_inv [OF _ s] core p2 by (simp add: px_core_def)
  have dp: "dp_inv ?del dp2" using dp_remove_inv [OF _ d od] core by (simp add: px_core_def)
  have "proc_ok p3" using p3 core proc_fault_frame by (auto simp: px_core_def proc_frame_def)
  then have ok: "proc_ok ?del" by (rule proc_delete_ok) (use m o3 in auto)
  have routes: "routes_ok ?del" using core by (auto simp: px_core_def routes_ok_def od split: if_splits)
  have mid: "m_id m = i" using core m by (auto simp: px_core_def proc_ok_def)
  have c: "counted ?del = counted ?p - {i}" using counted_delete [of i p3] o3 by (simp add: counted_def)
  let ?wk2 = "if wk_isEnabled ?wk then workers_remove m ?wk else ?wk"
  have e: "px_closed w env i px = px\<lparr>px_proc := ?del, px_miners := miners_remove i (px_miners px), px_donate := dp2, px_up := ms3,
      px_stats := st_close (px_stats px), px_workers := ?wk2\<rparr>"
    using m o3 p2 d s
    by (simp add: px_closed_def px_start_call bus_lists listener_defs on_workers_def Let_def)
  have wi: "wk_inv ?wk2" using workers.step_inv [of ?wk "WkClose m"] core by (simp add: px_core_def when_enabled_def)
  have en: "wk_isEnabled ?wk2 = wk_isEnabled ?wk"
    by (simp add: wk_isEnabled_def workers_remove_def upd_worker_def split: option.split)
  have wc: "b \<Longrightarrow> wk_isEnabled ?wk \<Longrightarrow> wk_counts (counted ?p - {i}) (workers_remove m ?wk)"
    using workers_remove_counts [OF _ _ m(1) mid] core wk by (simp add: px_core_def px_wk_def)
  have "px_reg (px_closed w env i px)"
  proof -
    have "finite (dom (p_objs ?p))" using core by (simp add: px_core_def proc_ok_def)
    from remove_sorted [OF this] reg show ?thesis by (simp add: px_reg_def e od)
  qed
  moreover have "px_core (px_closed w env i px)" unfolding px_core_def e using sp dp ok routes wi by simp
  moreover have "px_wk b {} (px_closed w env i px)" using wc en c by (simp add: px_wk_def e)
  ultimately show ?thesis using od by (simp add: px_inv_def e)
qed

section \<open>New connections\<close>

lemma server_create_objs:
  assumes "server_create env r ctx port tls acc ip p = (res, p')"
  shows "case res of None \<Rightarrow> p_objs p' = p_objs p
    | Some i \<Rightarrow> \<exists>m. p_objs p' = (p_objs p)(i \<mapsto> m) \<and> m_state m = WaitLoginState \<and> m_routeId m = - 1 \<and> m_mapperId m = - 1"
proof -
  obtain m c where mc: "miner_new env (p_next p + 1) r ctx port tls (p_cnt p) = (m, c)" by fastforce
  then have "m_state (m\<lparr>m_ip := ip\<rparr>) = WaitLoginState" "m_routeId (m\<lparr>m_ip := ip\<rparr>) = - 1" "m_mapperId (m\<lparr>m_ip := ip\<rparr>) = - 1"
    by (auto simp: miner_new_def)
  then show ?thesis using assms mc by (fastforce simp: server_create_def Let_def split: if_splits)
qed

lemma sp_inv_objs: "sp_inv p ms \<Longrightarrow> p_objs p' = p_objs p \<Longrightarrow> sp_inv p' ms"
  by (erule sp_inv_cong) simp

lemma px_core_objs: "px_core px \<Longrightarrow> proc_ok p' \<Longrightarrow> p_objs p' = p_objs (px_proc px) \<Longrightarrow> px_core (px\<lparr>px_proc := p'\<rparr>)"
  using sp_inv_objs [of "px_proc px" "px_up px" p'] dp_inv_same [of "px_proc px" "px_donate px" p']
  by (simp add: px_core_def routes_ok_def)

lemma px_create_inv:
  assumes inv: "px_inv b px"
  shows "px_inv b (px_create w env r ctx port tls acc ip px)"
proof -
  let ?p = "px_proc px"
  obtain res p' where c: "server_create env r ctx port tls acc ip ?p = (res, p')" by fastforce
  from inv have core: "px_core px" and wk: "px_wk b {} px" and reg: "px_reg px" by (simp_all add: px_inv_def)
  have "proc_ok ?p" using core by (simp add: px_core_def)
  note ok = server_create_ok [OF this c] and o = server_create_objs [OF c]
  show ?thesis
  proof (cases res)
    case None
    then have ob: "p_objs p' = p_objs ?p" using o by simp
    have "px_inv b (px\<lparr>px_proc := p'\<rparr>)"
      using px_core_objs [OF core ok(1) ob] wk reg by (simp add: px_inv_def px_wk_def px_reg_def counted_def ob)
    then show ?thesis using c None by (simp add: px_create_def)
  next
    case (Some i)
    with o obtain m where m: "p_objs p' = (p_objs ?p)(i \<mapsto> m)" "m_state m = WaitLoginState" "m_routeId m = - 1"
      "m_mapperId m = - 1" by auto
    have new: "p_objs ?p i = None" using ok(2) [OF Some] by simp
    let ?px = "px\<lparr>px_proc := p', px_miners := miners_add i (px_miners px), px_stats := st_connection (px_stats px)\<rparr>"
    have e: "px_create w env r ctx port tls acc ip px = ?px"
      using c Some by (simp add: px_create_def px_start_call bus_lists listener_defs)
    have sp: "sp_inv p' (px_up px)"
    proof -
      have spi: "sp_inv ?p (px_up px)" using core by (simp add: px_core_def)
      have "nm_inv p' (px_up px ! k)" if k: "k < length (px_up px)" for k
      proof (rule nm_inv_cong [OF sp_invD(4) [OF spi k]])
        fix j
        assume "nm_members (px_up px ! k) j \<noteq> None"
        then obtain x where "p_objs ?p j = Some x" by (rule nm_inv_memberD [OF sp_invD(4) [OF spi k]])
        with new have "j \<noteq> i" by auto
        then show "same_view ?p p' j" by (simp add: m(1))
      qed
      moreover have "nat (m_mapperId x) < length (px_up px) \<and> nm_members (px_up px ! nat (m_mapperId x)) j \<noteq> None"
        if "p_objs p' j = Some x" "m_routeId x = - 1" "0 \<le> m_mapperId x" for j x
      proof -
        have "j \<noteq> i" using that m by auto
        then have "p_objs ?p j = Some x" using that(1) m(1) by simp
        from sp_invD(5) [OF spi this that(2,3)] show ?thesis .
      qed
      ultimately show ?thesis using spi unfolding sp_inv_def by blast
    qed
    have dp: "dp_inv p' (px_donate px)"
    proof (rule dp_inv_change)
      show di: "dp_inv ?p (px_donate px)" using core by (simp add: px_core_def)
      show "\<exists>m'. p_objs p' (dm_miner dm) = Some m' \<and> m_routeId m' = m_routeId x \<and> m_mapperId m' = m_mapperId x"
        if "p_objs ?p (dm_miner dm) = Some x" for dm x
        using that new m(1) by auto
      show "\<exists>x. p_objs ?p j = Some x \<and> m_routeId x = 0 \<and> m_mapperId x = m_mapperId m'"
        if "p_objs p' j = Some m'" "m_routeId m' = 0" for j m'
        using that m by (auto split: if_splits)
    qed
    have routes: "routes_ok p'" using core m by (auto simp: px_core_def routes_ok_def)
    have cnt: "counted p' = counted ?p" using m new by (auto simp: counted_def)
    have "px_core ?px" using core sp dp routes ok(1) by (simp add: px_core_def)
    moreover have "px_wk b {} ?px" using wk cnt by (simp add: px_wk_def)
    moreover have "px_reg ?px"
    proof -
      have "finite (dom (p_objs ?p))" using core by (simp add: px_core_def proc_ok_def)
      then have "sorted_list_of_set (insert i (dom (p_objs ?p))) = insort_insert i (sorted_list_of_set (dom (p_objs ?p)))"
        using new by (simp add: sorted_list_of_set_insert insort_insert_key_def domIff)
      then show ?thesis using reg by (simp add: px_reg_def m(1) miners_add_def)
    qed
    ultimately show ?thesis by (simp add: e px_inv_def)
  qed
qed

section \<open>Lines\<close>

lemma px_fault_inv: "px_inv b px \<Longrightarrow> px_inv b (px\<lparr>px_proc := (px_proc px)\<lparr>p_fault := True\<rparr>\<rparr>)"
  by (rule px_inv_proc [OF _ mild_fault])

lemma px_miner_inv:
  assumes "px_inv b px" and "\<And>s. miner_frame s (f s)" and "\<And>s. m_fixedByte (fst (f s)) = m_fixedByte (fst s)"
  shows "px_inv b (px_miner f i px)"
  unfolding px_miner_def by (rule px_inv_proc [OF assms(1) mild_on_miner [OF assms(2,3)]])

lemma submit_done_fixedByte: "m_fixedByte (fst (snd (submit_done env k started ev s))) = m_fixedByte (fst s)"
  by (simp add: submit_done_def frame_simps)

lemma px_submit_done_inv:
  assumes inv: "px_inv b px"
  shows "px_inv b (px_submit_done env i k started ev px)"
proof (cases "p_objs (px_proc px) i")
  case None
  then show ?thesis using px_fault_inv [OF inv] by (simp add: px_submit_done_def)
next
  case (Some m)
  obtain ok s where d: "submit_done env k started ev (m, p_cnt (px_proc px)) = (ok, s)" by (rule prod.exhaust)
  have "mild (px_proc px) (put_miner i s (px_proc px))"
    by (rule mild_put_miner [OF Some])
      (use submit_done_frame [of "(m, p_cnt (px_proc px))" env k started ev] submit_done_fixedByte [of env k started ev "(m, p_cnt (px_proc px))"] d
        in simp_all)
  from px_inv_proc [OF inv this] have i1: "px_inv b (px\<lparr>px_proc := put_miner i s (px_proc px)\<rparr>)" .
  have "px_inv b (px_miner (shutdown env True) i (px\<lparr>px_proc := put_miner i s (px_proc px)\<rparr>))"
    by (rule px_miner_inv [OF i1 shutdown_frame]) (simp add: frame_simps)
  then show ?thesis using i1 d Some by (simp add: px_submit_done_def Let_def)
qed

lemma px_line_inv:
  assumes inv: "px_inv b px"
  shows "px_inv b (px_line w env seq i line px)"
proof (cases "p_objs (px_proc px) i")
  case None
  then show ?thesis using px_fault_inv [OF inv] by (simp add: px_line_def)
next
  case (Some m)
  let ?p = "px_proc px"
  obtain st m' c' where parse: "miner_parse env (w_decode w) line (m, p_cnt ?p) = (st, m', c')" by (cases rule: prod_cases3)
  let ?p1 = "put_miner i (m', c') ?p" and ?px1 = "px\<lparr>px_proc := put_miner i (m', c') (px_proc px)\<rparr>"
  have fr: "miner_frame (m, p_cnt ?p) (m', c')" using miner_parse_frame [of "(m, p_cnt ?p)" env "w_decode w" line] parse by simp
  have mild: "mild ?p ?p1"
    by (rule mild_put_miner [OF Some fr]) (use miner_parse_fixedByte [of env "w_decode w" line "(m, p_cnt ?p)"] parse in simp)
  have i1: "px_inv b ?px1" by (rule px_inv_proc [OF inv mild])
  have id: "m_id m = i" "0 < i" using inv Some by (auto simp: px_inv_def px_core_def proc_ok_def)
  have e: "px_line w env seq i line px = px_request w env seq i st ?px1" using Some parse by (simp add: px_line_def)
  show ?thesis
  proof (cases st)
    case (RequestDone r)
    then show ?thesis using i1 by (simp add: e px_request_def)
  next
    case (StartLogin ev)
    note l = miner_parse_starts(1) [OF parse StartLogin]
    have "m_routeId m = - 1" "m_mapperId m < 0"
      using inv Some l by (auto simp: px_inv_def px_core_def routes_ok_def)
    moreover have "m_routeId m' = m_routeId m" "m_mapperId m' = m_mapperId m"
      using fr by (simp_all add: miner_frame_def miner_core_def)
    ultimately have r: "m_routeId m' = - 1" "m_mapperId m' < 0" by simp_all
    have o: "p_objs (px_proc ?px1) (le_miner ev) = Some m'" using l id by (simp add: put_miner_def)
    have "px_wk b {i} ?px1"
    proof -
      have "i \<notin> counted ?p1" using r by (auto simp: counted_def put_miner_def)
      then show ?thesis using i1 by (simp add: px_inv_def px_wk_def)
    qed
    then have st1: "login_stage b (le_miner ev) ?px1" using i1 l id o by (simp add: login_stage_def px_inv_def)
    obtain ok e' px' where start: "px_start w env seq (EvLogin ev) ?px1 = (ok, e', px')" by (cases rule: prod_cases3)
    from px_login_inv [OF st1 o r(2,1) start] show ?thesis using start by (simp add: e px_request_def StartLogin)
  next
    case (StartSubmit ev)
    obtain ok e' px' where start: "px_start w env seq (EvSubmit ev) ?px1 = (ok, e', px')" by (cases rule: prod_cases3)
    from px_submit_inv [OF i1 start] obtain ev' where "px_inv b px'" "e' = EvSubmit ev'" by blast
    then show ?thesis using start px_submit_done_inv by (simp add: e px_request_def StartSubmit)
  next
    case (StartAccept ev)
    obtain ok e' px' where start: "px_start w env seq (EvAccept ev) ?px1 = (ok, e', px')" by (cases rule: prod_cases3)
    from px_accept_inv [OF i1 start] show ?thesis using start by (simp add: e px_request_def StartAccept)
  qed
qed

lemma px_lines_inv: "px_inv b px \<Longrightarrow> px_inv b (px_lines w env seqs i n ls px)"
  by (induction ls arbitrary: n px) (simp_all add: px_line_inv)

lemma miner_read_fixedByte: "m_fixedByte (snd (miner_read data m)) = m_fixedByte m"
  by (simp add: miner_read_def startTLS_def Let_def split: prod.splits)

lemma px_read_inv:
  assumes inv: "px_inv b px"
  shows "px_inv b (px_read w env seqs i data px)"
proof (cases "p_objs (px_proc px) i")
  case None
  then show ?thesis using px_fault_inv [OF inv] by (simp add: px_read_def)
next
  case (Some m)
  obtain ls m' where d: "miner_read data m = (ls, m')" by fastforce
  have "mild (px_proc px) (put_miner i (m', p_cnt (px_proc px)) (px_proc px))"
    by (rule mild_put_miner [OF Some])
      (use miner_read_frame [of m "p_cnt (px_proc px)" data] miner_read_fixedByte [of data m] d in simp_all)
  from px_lines_inv [OF px_inv_proc [OF inv this]] show ?thesis using Some d by (simp add: px_read_def)
qed

section \<open>Callbacks\<close>

lemma px_up_inv: "px_inv b px \<Longrightarrow> sp_inv (px_proc px) ms \<Longrightarrow> px_inv b (px\<lparr>px_up := ms\<rparr>)"
  using px_inv_mild [OF _ mild_refl, of b px ms] by simp

lemma px_inv_sp: "px_inv b px \<Longrightarrow> sp_inv (px_proc px) (px_up px)" "px_inv b px \<Longrightarrow> dp_inv (px_proc px) (px_donate px)"
  by (simp_all add: px_inv_def px_core_def)

lemma px_job_inv:
  assumes inv: "px_inv b px" and k: "k < length (px_up px)"
  shows "px_inv b (px_job w env k client host port job px)" "px_inv b (px_donate_pool_job w env k host port job px)"
proof -
  obtain p1 ms1 where j: "sp_onJob env (w_cfg w) k client host port job (px_proc px) (px_up px) = (p1, ms1)" by fastforce
  from sp_onJob_inv [OF px_inv_sp(1) [OF inv] k j] px_inv_mild [OF inv mild_same]
  show "px_inv b (px_job w env k client host port job px)" by (simp add: px_job_def j)
  obtain p2 ms2 where j2: "sp_donate_onJob env (w_cfg w) k host port job (px_proc px) (px_up px) = (p2, ms2)" by fastforce
  from sp_donate_onJob_inv [OF px_inv_sp(1) [OF inv] k j2] px_inv_mild [OF inv mild_same]
  show "px_inv b (px_donate_pool_job w env k host port job px)" by (simp add: px_donate_pool_job_def j2)
qed

lemma px_result_inv:
  assumes inv: "px_inv b px" and k: "k < length (px_up px)"
  shows "px_inv b (px_result w env k client result err px)"
proof -
  obtain ctx ev ms where r: "sp_result_event k client result err (px_up px) = (ctx, ev, ms)" by (cases rule: prod_cases3)
  from sp_result_event_inv [OF px_inv_sp(1) [OF inv] k r] px_up_inv [OF inv] have i1: "px_inv b (px\<lparr>px_up := ms\<rparr>)" by blast
  obtain ok e px' where start: "px_start w env 0 (EvAccept ev) (px\<lparr>px_up := ms\<rparr>) = (ok, e, px')" by (cases rule: prod_cases3)
  from px_accept_inv [OF i1 start] have "px_inv b px'" by blast
  from px_inv_proc [OF this mild_same [OF reply_result_same(2,1)]] show ?thesis by (simp add: px_result_def r start)
qed

text \<open>The clients of routed miners.\<close>

lemma on_client_inv:
  assumes "px_inv b px" and "\<And>dm. dp_mappers (px_donate px) k = Some (Some dm) \<Longrightarrow> px_inv b (f dm px)"
  shows "px_inv b (on_client f k px)"
  using assms by (auto simp: on_client_def split: option.split)

lemma forward_mild:
  assumes "dp_inv p dp" and "dp_mappers dp k = Some (Some dm)"
  shows "mild p (on_miner (forwardJob env job algo) (dm_miner dm) p)"
proof -
  from dp_invD(1) [OF assms] obtain m where m: "p_objs p (dm_miner dm) = Some m" "m_routeId m = 0" by auto
  let ?p = "on_miner (forwardJob env job algo) (dm_miner dm) p"
  have f: "proc_frame p ?p" by (rule on_miner_frame) (rule forwardJob_frame)
  have o: "p_objs ?p j = p_objs p j" if "j \<noteq> dm_miner dm" for j using that m by (simp add: on_miner_def put_miner_def)
  have "route_view (fst (forwardJob env job algo (m, p_cnt p))) = route_view m"
    using forwardJob_frame [of "(m, p_cnt p)" env job algo] by (simp add: miner_frame_def miner_core_def route_view_def)
  then have "map_option route_view (p_objs ?p j) = map_option route_view (p_objs p j)" for j
    using m o by (cases "j = dm_miner dm") (simp_all add: on_miner_def put_miner_def)
  moreover have "same_view p ?p j" if "p_objs p j = Some m'" "m_routeId m' = - 1" for j m'
    using o [of j] that m by (cases "j = dm_miner dm") simp_all
  ultimately show ?thesis using f unfolding mild_def by blast
qed

lemma px_inv_client:
  assumes inv: "px_inv b px" and k: "dp_mappers (px_donate px) k = Some (Some dm)" and mild: "mild (px_proc px) p'"
    and dm: "dm_id dm' = dm_id dm" "dm_miner dm' = dm_miner dm"
  shows "px_inv b (px\<lparr>px_proc := p', px_donate := upd_client k dm' (px_donate px)\<rparr>)"
proof -
  have i1: "px_inv b (px\<lparr>px_proc := p'\<rparr>)" by (rule px_inv_proc [OF inv mild])
  have "dp_inv p' (upd_client k dm' (px_donate px))"
    unfolding upd_client_def using dp_inv_client [OF _ k dm] px_inv_sp(2) [OF i1] by simp
  from px_inv_dp [OF i1] this show ?thesis by simp
qed

lemma px_client_inv:
  assumes inv: "px_inv b px"
  shows "px_inv b (px_client_job env k job algo px)" "px_inv b (px_client_close env k px)" "px_inv b (px_client_result w env k result err px)"
proof -
  show "px_inv b (px_client_job env k job algo px)"
    unfolding px_client_job_def
  proof (rule on_client_inv [OF inv])
    fix dm
    assume k: "dp_mappers (px_donate px) k = Some (Some dm)"
    obtain p' dm' where j: "dm_onJobReceived env job algo (px_proc px) dm = (p', dm')" by fastforce
    have "mild (px_proc px) p'" "dm_id dm' = dm_id dm" "dm_miner dm' = dm_miner dm"
      using j forward_mild [OF px_inv_sp(2) [OF inv] k] by (auto simp: dm_onJobReceived_def split: if_splits)
    from px_inv_client [OF inv k this] j
    show "px_inv b (let (p, dm) = dm_onJobReceived env job algo (px_proc px) dm
        in px\<lparr>px_proc := p, px_donate := upd_client k dm (px_donate px)\<rparr>)" by simp
  qed
  show "px_inv b (px_client_close env k px)"
    unfolding px_client_close_def
  proof (rule on_client_inv [OF inv])
    fix dm
    assume k: "dp_mappers (px_donate px) k = Some (Some dm)"
    have mild: "mild (px_proc px) (proc_close env (dm_miner dm) (px_proc px))" by (rule mild_same [OF proc_close_frame reply_same(3)])
    show "px_inv b (let (p, dm) = dm_onClose env (px_proc px) dm
        in px\<lparr>px_proc := p, px_donate := upd_client k dm (px_donate px)\<rparr>)"
      using px_inv_client [OF inv k mild, of "dm_call CDisconnect (dm\<lparr>dm_active := False\<rparr>)"] by (simp add: dm_onClose_def dm_call_def)
  qed
  show "px_inv b (px_client_result w env k result err px)"
    unfolding px_client_result_def
  proof (rule on_client_inv [OF inv])
    fix dm
    obtain ok e px' where start: "px_start w env 0 (EvAccept (dm_result_event result err dm)) px = (ok, e, px')" by (cases rule: prod_cases3)
    have i1: "px_inv b px'" using px_accept_inv [OF inv start] by blast
    have "mild (px_proc px') (dm_reply env result err dm (px_proc px'))"
      by (cases err) (auto simp: dm_reply_def intro: mild_same reply_frame reply_same)
    from px_inv_proc [OF i1 this] show "px_inv b (let px = snd (snd (px_start w env 0 (EvAccept (dm_result_event result err dm)) px))
       in px\<lparr>px_proc := dm_reply env result err dm (px_proc px)\<rparr>)" by (simp add: start)
  qed
qed

section \<open>Timers and the start\<close>

lemma px_gc_inv: "px_inv b px \<Longrightarrow> px_inv b (px\<lparr>px_up := sp_gc (px_up px)\<rparr>)"
  by (rule px_up_inv) (auto intro: sp_gc_inv(1) px_inv_sp)

lemma px_print_inv: "px_inv b px \<Longrightarrow> px_inv b (px_print px)"
  unfolding px_print_def by (rule px_inv_proc) (auto intro: mild_cnt simp: counters_reset_def)

lemma px_tick_inv:
  assumes inv: "px_inv b px"
  shows "px_inv b (px_tick w env px)"
proof -
  let ?px1 = "px\<lparr>px_stats := stats_tick (e_now env) (px_ticks px) (sp_upstreams (px_up px)) (p_cnt (px_proc px)) (px_stats px),
                  px_ticks := px_ticks px + 1\<rparr>"
  let ?px2 = "if px_ticks ?px1 mod kGCInterval = 0 then ?px1\<lparr>px_up := sp_gc (px_up ?px1)\<rparr> else ?px1"
  let ?px3 = "if w_printTime w \<noteq> 0 \<and> px_ticks ?px2 mod w_printTime w = 0 then px_print ?px2 else ?px2"
  have i1: "px_inv b ?px1" using inv by simp
  have i2: "px_inv b ?px2" using i1 px_gc_inv [OF i1] by (simp split: if_split)
  have i3: "px_inv b ?px3" using i2 px_print_inv [OF i2] by (simp only: if_split) blast
  obtain p ms where t: "sp_tick env (w_cfg w) (e_loop_now env) (px_proc ?px3) (px_up ?px3) = (p, ms)" by fastforce
  from sp_tick_splitter [OF px_inv_sp(1) [OF i3] t] px_inv_mild [OF i3 mild_same]
  have i4: "px_inv b (?px3\<lparr>px_proc := p, px_up := ms\<rparr>)" by blast
  have "wk_inv (workers_tick n (px_workers ?px3))" for n
    using workers.step_inv [of "px_workers ?px3" "WkTick n"] i3 by (simp add: px_inv_def px_core_def)
  with px_inv_workers [OF i4 wk_keeps_ops(3)]
  have "px_inv b (?px3\<lparr>px_proc := p, px_up := ms\<rparr>\<lparr>px_workers := workers_tick n (px_workers ?px3)\<rparr>)" for n by simp
  moreover have "px_tick w env px = ?px3\<lparr>px_proc := p, px_up := ms, px_workers := workers_tick (px_ticks ?px3) (px_workers ?px3)\<rparr>"
    unfolding px_tick_def Let_def t by simp
  ultimately show ?thesis by simp
qed

lemma miners_tick_mild: "mild p (miners_tick env ms p)"
proof (rule mild_same [OF miners_tick_frame])
  have "proc_same miner_view q (fold (proc_close env) is q)" for q "is"
    by (induction "is" arbitrary: q) (auto intro: proc_same_trans reply_same(3))
  then have "proc_same miner_view (if c then p\<lparr>p_fault := True\<rparr> else p) (fold (proc_close env) is (if c then p\<lparr>p_fault := True\<rparr> else p))" for c "is" .
  then show "proc_same miner_view p (miners_tick env ms p)"
    unfolding miners_tick_def Let_def by (rule proc_same_trans [rotated]) simp
qed

lemma px_new_inv: "px_inv b (px_new w now r)"
proof -
  let ?ms = "sp_connect (w_cfg w) (w_src w) []"
  let ?x = "sp_fresh (w_cfg w) (rs_strategy (w_src w)) (rs_rand (w_src w)) (rs_donate (w_src w)) 0"
  have x: "nm_id ?x = 0" "nm_suspended ?x = 0" "nm_storage ?x = ns_new (rs_rand (w_src w) 0)"
    by (simp_all add: sp_fresh_def nm_start_def nm_new_def)
  have "nm_inv proc_new ?x" using ns_inv_new x by (simp add: nm_inv_def ns_bytes_def ns_new_def)
  then have "sp_inv proc_new ?ms" using x by (simp add: sp_inv_def sp_connect_def proc_new_def)
  moreover have "wk_counts {} (workers_new (w_cfg w))" by (simp add: wk_counts_def workers_new_def)
  ultimately show ?thesis
    using proc_ok_new dp_inv_new [of proc_new] workers.init_inv [of "workers_new (w_cfg w)"]
    by (auto simp: px_inv_def px_core_def px_wk_def px_reg_def px_new_def routes_ok_def counted_def proc_new_def)
qed

text \<open>A reload: the table is counted afresh.\<close>

lemma wk_counts_fold:
  "wk_inv wk \<Longrightarrow> wk_counts live wk \<Longrightarrow> distinct (map m_id ms) \<Longrightarrow> m_id ` set ms \<inter> live = {} \<Longrightarrow>
     wk_counts (live \<union> m_id ` set ms) (fold workers_add ms wk)"
proof (induction ms arbitrary: live wk)
  case (Cons m ms)
  have "wk_counts (insert (m_id m) live) (workers_add m wk)"
    by (rule wk_counts_add [OF Cons.prems(1,2)]) (use Cons.prems(4) in auto)
  from Cons.IH [OF workers_add_inv [OF Cons.prems(1)] this] Cons.prems(3,4) show ?case by simp
qed simp

lemma controller_miners:
  assumes "px_core px" and "px_reg px"
  shows "distinct (map m_id (px_controller_miners px))"
    and "set (px_controller_miners px) = {m. \<exists>i. p_objs (px_proc px) i = Some m}"
    and "p_objs (px_proc px) i = Some m \<Longrightarrow> m_id m = i"
proof -
  let ?o = "p_objs (px_proc px)"
  have ok: "proc_ok (px_proc px)" using assms(1) by (simp add: px_core_def)
  then show id: "?o i = Some m \<Longrightarrow> m_id m = i" for i m by (auto simp: proc_ok_def)
  have fin: "finite (dom ?o)" using ok by (simp add: proc_ok_def)
  have d: "distinct (px_miners px)" "set (px_miners px) = dom ?o" using assms(2) fin by (simp_all add: px_reg_def)
  have "map m_id (List.map_filter ?o is) = is" if "set is \<subseteq> dom ?o" for "is"
    using that by (induction "is") (auto simp: List.map_filter_simps id)
  then show "distinct (map m_id (px_controller_miners px))" using d by (simp add: px_controller_miners_def)
  show "set (px_controller_miners px) = {m. \<exists>i. ?o i = Some m}"
    using d(2) by (force simp: px_controller_miners_def List.map_filter_def image_iff)
qed

text \<open>The table is filled again with every miner that has an upstream or a client of its own.\<close>

lemma workers_reset_counts:
  assumes core: "px_core px" and reg: "px_reg px" and mode: "wk_mode wk \<noteq> WNone"
  shows "wk_counts {i. \<exists>m. p_objs (px_proc px) i = Some m \<and> m_mapperId m \<noteq> - 1} (workers_reset (px_controller_miners px) wk)"
proof -
  note c = controller_miners [OF core reg]
  let ?ms = "List.filter (\<lambda>m. m_mapperId m \<noteq> - 1) (px_controller_miners px)"
  let ?wk = "wk\<lparr>wk_miners := Map.empty, wk_map := Map.empty, wk_workers := []\<rparr>"
  have "m_id ` set ?ms = {i. \<exists>m. p_objs (px_proc px) i = Some m \<and> m_mapperId m \<noteq> - 1}"
    using c(3) by (auto simp: c(2) image_iff)
  moreover have "distinct (map m_id ?ms)" using c(1) by (simp add: distinct_map_filter)
  moreover have "wk_counts {} ?wk" "wk_inv ?wk" by (simp_all add: wk_counts_def wk_inv_empty)
  ultimately show ?thesis using wk_counts_fold [of ?wk "{}" ?ms] mode by (simp add: workers_reset_def Let_def)
qed

text \<open>Without routed miners these are the placed ones.\<close>

lemma calm_counted:
  assumes "routes_ok p" and "\<not> (\<exists>i m. p_objs p i = Some m \<and> m_routeId m \<noteq> - 1 \<and> m_mapperId m \<noteq> - 1)"
  shows "{i. \<exists>m. p_objs p i = Some m \<and> m_mapperId m \<noteq> - 1} = counted p"
  using assms unfolding counted_def routes_ok_def by fastforce

lemma workers_reset_mode [simp]: "wk_mode (workers_reset ms wk) = wk_mode wk"
proof -
  have "wk_mode (fold workers_add ms wk) = wk_mode wk" for ms wk
    by (induction ms arbitrary: wk) (simp_all add: workers_add_def upd_worker_def Let_def split: option.split)
  then show ?thesis by (simp add: workers_reset_def Let_def)
qed

lemma px_reload_inv:
  assumes inv: "px_inv b px" and calm: "b \<Longrightarrow> px_calm px (PxReload changed mode hs)"
  shows "px_inv b (px_reload cfg changed mode hs px)"
proof -
  define px1 where "px1 = (if changed then px\<lparr>px_up := sp_reload hs (px_up px)\<rparr> else px)"
  have i1: "px_inv b px1" using inv px_up_inv [OF inv sp_reload_inv [OF px_inv_sp(1) [OF inv]]] by (simp add: px1_def)
  have p1: "px_proc px1 = px_proc px" "px_workers px1 = px_workers px" by (simp_all add: px1_def)
  let ?wk = "workers_onConfigChanged (cfg\<lparr>cfg_workersMode := mode\<rparr>) (px_controller_miners px1) (px_workers px1)"
  have r: "px_reload cfg changed mode hs px = px1\<lparr>px_workers := ?wk\<rparr>" by (simp add: px_reload_def px1_def Let_def)
  have core: "px_core px1" and reg: "px_reg px1" and wk: "px_wk b {} px1" using i1 by (simp_all add: px_inv_def)
  have "wk_inv ?wk" using workers.step_inv [of "px_workers px1" "WkConfig _ _"] core by (simp add: px_core_def)
  then have "px_core (px1\<lparr>px_workers := ?wk\<rparr>)" using core by (simp add: px_core_def)
  moreover have "px_wk b {} (px1\<lparr>px_workers := ?wk\<rparr>)"
  proof (cases "wk_mode (px_workers px1) = mode")
    case True
    then show ?thesis using wk by (simp add: workers_onConfigChanged_def)
  next
    case False
    then show ?thesis
      using workers_reset_counts [OF core reg, of "(px_workers px1)\<lparr>wk_mode := mode\<rparr>"] calm calm_counted [of "px_proc px1"] core
      by (auto simp: px_wk_def px_core_def workers_onConfigChanged_def wk_isEnabled_def p1)
  qed
  ultimately show ?thesis using reg by (simp add: r px_inv_def px_reg_def)
qed

lemma px_step_inv:
  assumes inv: "px_inv b px" and ok: "px_ok px ev \<and> (b \<longrightarrow> px_calm px ev)"
  shows "px_inv b (px_step w px ev)"
proof (cases ev)
  case (PxReadError env i eof)
  have "px_inv b (px_miner (miner_read_error env eof) i px)"
    unfolding miner_read_error_def by (rule px_miner_inv [OF inv shutdown_frame]) (simp add: frame_simps)
  then show ?thesis by (simp add: PxReadError)
next
  case (PxShutdownDone i)
  have "px_inv b (px_miner (\<lambda>(m, c). (on_shutdown m, c)) i px)"
    by (rule px_miner_inv [OF inv]) (auto simp: on_shutdown_frame, simp add: on_shutdown_def)
  then show ?thesis by (simp add: PxShutdownDone)
next
  case (PxClosed env i)
  then show ?thesis using ok px_closed_inv [OF inv] by auto
next
  case (PxMinersTick env)
  then show ?thesis using px_inv_proc [OF inv miners_tick_mild] by simp
next
  case (PxReload changed mode hs)
  then show ?thesis using ok px_reload_inv [OF inv] by auto
next
  case (PxActive k st client)
  then show ?thesis using ok px_up_inv [OF inv sp_onActive_inv [OF px_inv_sp(1) [OF inv]]] by simp
next
  case (PxPause k)
  then show ?thesis using ok px_up_inv [OF inv sp_onPause_inv [OF px_inv_sp(1) [OF inv]]] by simp
next
  case (PxPoolClosed k)
  then show ?thesis using ok px_up_inv [OF inv sp_donate_onClose_inv [OF px_inv_sp(1) [OF inv]]] by simp
qed (use ok inv in \<open>simp_all add: px_create_inv px_read_inv px_lines_inv px_job_inv px_result_inv px_client_inv px_tick_inv\<close>)

interpretation proxy: event_component "\<lambda>px. \<exists>w now r. px = px_new w now r"
    "\<lambda>px ev. px_ok px ev \<and> (b \<longrightarrow> px_calm px ev)" "px_step w" "px_inv b" for b and w :: "'r world"
  by unfold_locales (auto simp: px_new_inv intro: px_step_inv)

text \<open>The proxy from its start over any run of events; and over the runs that keep the counts of the workers.\<close>

lemma proxy_run_inv: "run_ok px_ok (px_step w) (px_new w now r) es \<Longrightarrow> px_inv False (run (px_step w) (px_new w now r) es)"
  by (rule proxy.run_init_inv [where b = False]) auto

lemma proxy_calm_run_inv:
  "run_ok (\<lambda>px ev. px_ok px ev \<and> px_calm px ev) (px_step w) (px_new w now r) es \<Longrightarrow> px_inv True (run (px_step w) (px_new w now r) es)"
  by (rule proxy.run_init_inv [where b = True]) auto

section \<open>What the invariant says\<close>

text \<open>The counters, the registry, and the places of the miners.\<close>

lemma px_counters:
  assumes "px_inv b px"
  shows "c_miners (p_cnt (px_proc px)) = of_nat (card (ready_ids (px_proc px)))"
    and "c_connections (p_cnt (px_proc px)) = of_nat (length (px_miners px))"
  using assms by (simp_all add: px_inv_def px_core_def px_reg_def proc_ok_def)

lemma px_upstream:
  assumes inv: "px_inv b px" and m: "p_objs (px_proc px) i = Some m" "m_routeId m = - 1" "0 \<le> m_mapperId m"
  shows "nat (m_mapperId m) < length (px_up px)" "nm_members (px_up px ! nat (m_mapperId m)) i \<noteq> None"
    "nm_suspended (px_up px ! nat (m_mapperId m)) = 0"
proof -
  note sp = px_inv_sp(1) [OF inv]
  from sp_invD(5) [OF sp m] show k: "nat (m_mapperId m) < length (px_up px)"
    and mem: "nm_members (px_up px ! nat (m_mapperId m)) i \<noteq> None" by simp_all
  show "nm_suspended (px_up px ! nat (m_mapperId m)) = 0"
  proof (rule ccontr)
    assume "nm_suspended (px_up px ! nat (m_mapperId m)) \<noteq> 0"
    then have "nm_members (px_up px ! nat (m_mapperId m)) = Map.empty" using sp_invD(4) [OF sp k] by (simp add: nm_inv_def)
    with mem show False by simp
  qed
qed

lemma px_worker_connections:
  assumes "px_inv True px" and "wk_isEnabled (px_workers px)" and "k < length (wk_workers (px_workers px))"
  shows "w_connections (wk_workers (px_workers px) ! k) =
    of_nat (card {i \<in> counted (px_proc px). wk_miners (px_workers px) i = Some k})"
  using assms by (simp add: px_inv_def px_wk_def wk_counts_def)

end
