(* ===== verification/ProxyFacts.thy ===== *)
theory ProxyFacts
  imports ProxyRun
begin

text \<open>
  Two consequences of the model of the proxy (\<open>src/proxy/Miners.cpp\<close>, \<open>src/proxy/workers/Workers.cpp\<close>): what the
  timers do to a connection that says nothing, and what a change of the workers mode does to a routed miner.
\<close>

section \<open>The two clocks of the timers\<close>

lemma fold_close_one:
  assumes "p_objs p i = Some m"
  shows "\<exists>m'. p_objs (fold (proc_close env) is p) i = Some m' \<and> m_expire m' = m_expire m \<and>
    m_state m' = (if i \<in> set is then ClosingState else m_state m)"
  using assms
proof (induction "is" arbitrary: p m)
  case (Cons j "is")
  show ?case
  proof (cases "j = i")
    case True
    let ?m = "fst (shutdown env True (m, p_cnt p))"
    have o: "p_objs (proc_close env j p) i = Some ?m" using Cons.prems True by (simp add: proc_close_objs)
    have e: "m_expire ?m = m_expire m" by (simp add: shutdown_def setState_def Let_def)
    from Cons.IH [OF o] e True show ?thesis by (auto simp: shutdown_closing)
  next
    case False
    have o: "p_objs (proc_close env j p) i = Some m" using Cons.prems False by (simp add: proc_close_objs)
    from Cons.IH [OF o] False show ?thesis by auto
  qed
qed simp

lemma miners_tick_one:
  assumes "i \<in> set ms" and "p_objs p i = Some m"
  shows "\<exists>m'. p_objs (miners_tick env ms p) i = Some m' \<and> m_expire m' = m_expire m \<and>
    m_state m' = (if e_loop_now env > m_expire m then ClosingState else m_state m)"
proof -
  define q where "q = (if \<exists>i \<in> set ms. p_objs p i = None then p\<lparr>p_fault := True\<rparr> else p)"
  have q: "p_objs q i = Some m" using assms(2) by (simp add: q_def)
  have t: "miners_tick env ms p = fold (proc_close env) (List.filter (is_expired env q) ms) q"
    by (simp add: miners_tick_def q_def Let_def)
  from fold_close_one [OF q, of env "List.filter (is_expired env q) ms"] assms(1) q
  show ?thesis by (simp add: t is_expired_def)
qed

lemma run_ticks_one:
  assumes "i \<in> set (px_miners px)" and "p_objs (px_proc px) i = Some m"
  shows "\<exists>m'. p_objs (px_proc (run (px_step w) px (map PxMinersTick ts))) i = Some m' \<and>
    m_state m' = (if \<exists>t \<in> set ts. e_loop_now t > m_expire m then ClosingState else m_state m)"
  using assms
proof (induction ts arbitrary: px m)
  case (Cons t ts)
  let ?px = "px_step w px (PxMinersTick t)"
  from miners_tick_one [OF Cons.prems, of t] obtain m1 where m1: "p_objs (px_proc ?px) i = Some m1"
    "m_expire m1 = m_expire m" "m_state m1 = (if e_loop_now t > m_expire m then ClosingState else m_state m)" by auto
  have "i \<in> set (px_miners ?px)" using Cons.prems(1) by simp
  from Cons.IH [OF this m1(1)] m1(2,3) show ?case by auto
qed simp

lemma px_create_expire:
  assumes "server_create env rpcId ctx port tls acc ip (px_proc px) = (Some i, p')"
  shows "\<exists>m. p_objs (px_proc (px_create w env rpcId ctx port tls acc ip px)) i = Some m \<and> m_expire m = e_now env + kLoginTimeout \<and>
    m_state m = WaitLoginState \<and> i \<in> set (px_miners (px_create w env rpcId ctx port tls acc ip px))"
  using assms
  by (auto simp: px_create_def px_start_call bus_lists listener_defs server_create_def miner_new_def Let_def miners_add_def
      set_insort_insert split: if_splits)

section \<open>A change of the workers mode\<close>

text \<open>A routed miner is counted and, when it closes, not taken off.\<close>

lemma reload_counts_routed:
  assumes inv: "px_inv b px" and m: "p_objs (px_proc px) i = Some m" "m_routeId m \<noteq> - 1" "m_mapperId m \<noteq> - 1"
    and mode: "mode \<noteq> wk_mode (px_workers px)" "mode \<noteq> WNone"
  shows "\<exists>k < length (wk_workers (px_workers (px_reload cfg False mode hs px))).
    wk_miners (px_workers (px_reload cfg False mode hs px)) i = Some k \<and>
    w_connections (wk_workers (px_workers (px_reload cfg False mode hs px)) ! k) = of_nat (card
      {j. (\<exists>n. p_objs (px_proc px) j = Some n \<and> m_mapperId n \<noteq> - 1) \<and>
        wk_miners (px_workers (px_reload cfg False mode hs px)) j = Some k})"
    and "workers_remove m wk = wk"
proof -
  have core: "px_core px" and reg: "px_reg px" using inv by (simp_all add: px_inv_def)
  let ?px = "px_reload cfg False mode hs px"
  have e: "px_workers ?px = workers_reset (px_controller_miners px) ((px_workers px)\<lparr>wk_mode := mode\<rparr>)"
    using mode by (simp add: px_reload_def workers_onConfigChanged_def Let_def)
  have c: "wk_counts {j. \<exists>n. p_objs (px_proc px) j = Some n \<and> m_mapperId n \<noteq> - 1} (px_workers ?px)"
    unfolding e by (rule workers_reset_counts [OF core reg]) (simp add: mode)
  then obtain k where k: "wk_miners (px_workers ?px) i = Some k" using m by (auto simp: wk_counts_def dom_def)
  have "wk_inv (px_workers ?px)" using workers.step_inv [of "px_workers px" "WkConfig (cfg\<lparr>cfg_workersMode := mode\<rparr>) (px_controller_miners px)"] core
    by (simp add: px_core_def px_reload_def Let_def)
  then have "k < length (wk_workers (px_workers ?px))" using k by (simp add: wk_inv_def)
  then show "\<exists>k < length (wk_workers (px_workers ?px)). wk_miners (px_workers ?px) i = Some k \<and>
    w_connections (wk_workers (px_workers ?px) ! k) = of_nat (card
      {j. (\<exists>n. p_objs (px_proc px) j = Some n \<and> m_mapperId n \<noteq> - 1) \<and> wk_miners (px_workers ?px) j = Some k})"
    using k c by (auto simp: wk_counts_def)
  show "workers_remove m wk = wk" using m(2) by (simp add: workers_remove_def)
qed

end
