(* ===== verification/Examples.thy ===== *)
theory Examples
  imports ProxyRun
begin

text \<open>
  Concrete inputs on which the properties are evaluated: a world in which every write goes through
  at once, a connection that has logged in, its requests, and a configuration.
\<close>

definition ex_crypto :: crypto where
  "ex_crypto =
     \<lparr>cr_generate_keys = (replicate 32 0, replicate 32 1), cr_key_derivation = (\<lambda>_ _. (replicate 32 2, 0)),
      cr_derive_public_key = (\<lambda>_ _. replicate 32 3), cr_derive_secret_key = (\<lambda>_ _. replicate 32 4),
      cr_derive_view_secret_key = (\<lambda>_. replicate 32 5), cr_secret_to_public = (\<lambda>_. replicate 32 6)\<rparr>"

definition ex_env :: env where
  "ex_env =
     \<lparr>e_now = 1000000, e_loop_now = 5000, e_writable = (\<lambda>_. True), e_try_write = (\<lambda>_ _. 100),
      e_tls_send = (\<lambda>_ _. True), e_json = (\<lambda>_. ''{}''), e_crypto = ex_crypto\<rparr>"

text \<open>A connection, and the same miner ready in nicehash mode with the fixed byte \<open>0xAB\<close>.\<close>

definition ex_connection :: miner where
  "ex_connection = fst (miner_new ex_env 1 (Some ''rpc1'') False 3333 False counters_zero)"

definition ex_miner :: miner where
  "ex_miner = ex_connection\<lparr>m_state := ReadyState, m_mapperId := 0, m_ext_nicehash := True, m_fixedByte := 0xAB\<rparr>"

definition ex_share :: params where
  "ex_share =
     \<lparr>rp_is_object = True, rp_algos = None, rp_login = None, rp_pass = None, rp_agent = None, rp_rigid = None,
      rp_id = Some ''rpc1'', rp_job_id = Some ''job1'', rp_nonce = Some ''000000ab'',
      rp_result = Some (replicate 48 (CHR ''0'') @ ''ff00000000000000''), rp_algo = None,
      rp_sig = None, rp_url = None\<rparr>"

definition ex_reader :: reader_values where
  "ex_reader =
     \<lparr>rv_custom_diff_stats = None, rv_debug = None, rv_algo_ext = None, rv_reuse_timeout = None,
      rv_access_log = None, rv_password = None, rv_custom_diff = Some 5000, rv_mode = Some ''nicehash'',
      rv_workers = JBool True, rv_bind = None\<rparr>"


text \<open>A proxy that decodes every line as the same login, with a Redis server that never answers, and
  a run: a connection, its login, the login of a second one, a job of the pool, two timers.\<close>

definition ex_login :: params where
  "ex_login = ex_share\<lparr>rp_login := Some ''user'', rp_pass := Some ''x''\<rparr>"

definition ex_world :: "unit world" where
  "ex_world =
     \<lparr>w_cfg = config_new 1, w_src = \<lparr>rs_strategy = id, rs_rand = (\<lambda>_. 7), rs_donate = (\<lambda>_. 1 / 2)\<rparr>,
      w_decode = (\<lambda>_. Request (Some 1) (Some ''login'') ex_login), w_printTime = 60,
      w_redis = (\<lambda>r _. (None, r)), w_has_ctx = False\<rparr>"

definition ex_line :: string where
  "ex_line = ''{'' @ replicate 40 (CHR '' '') @ ''}''"

definition ex_run :: "proxy_event list" where
  "ex_run =
     [PxCreate ex_env (Some ''rpc1'') False 3333 False True ''10.0.0.1'', PxTlsLines ex_env (\<lambda>_. 0) 1 [ex_line],
      PxCreate ex_env (Some ''rpc2'') False 3333 False True ''10.0.0.2'', PxTlsLines ex_env (\<lambda>_. 0) 2 [ex_line]]"

definition ex_px :: "unit proxy" where
  "ex_px = run (px_step ex_world) (px_new ex_world 0 ()) ex_run"

text \<open>Before the login of the first miner, and its login event.\<close>

definition ex_px0 :: "unit proxy" where
  "ex_px0 = px_step ex_world (px_new ex_world 0 ()) (hd ex_run)"

definition ex_login_event :: login_event where
  "ex_login_event =
     \<lparr>le_miner = 1, le_id = 1, le_algorithms = [], le_params = ex_login, le_rejected = False, le_error = - 1, le_flow = None\<rparr>"

definition ex_view :: "int \<Rightarrow> (int \<times> int \<times> u8) option" where
  "ex_view i = map_option (\<lambda>m. (m_routeId m, m_mapperId m, m_fixedByte m)) (p_objs (px_proc ex_px) i)"

text \<open>A share of the second miner at an upstream that has a job, and a Redis server with JSON arrays.\<close>

definition ex_upstream :: nonce_mapper where
  "ex_upstream =
     (nm_new (config_new 1) 0 7 (1 / 2) 0)
       \<lparr>nm_storage := (ns_new 7)\<lparr>ns_active := True, ns_miners := [2 \<mapsto> 2], ns_job := job_default\<lparr>j_id := Some ''job1''\<rparr>\<rparr>\<rparr>"

definition ex_submit :: submit_event where
  "ex_submit = (submit_event_of 7 ex_share ex_miner)\<lparr>se_miner := 2\<rparr>"

text \<open>A routed miner and its client.\<close>

definition ex_routed :: miner where
  "ex_routed = ex_miner\<lparr>m_routeId := 0\<rparr>"

definition ex_routed_proc :: proc where
  "ex_routed_proc = proc_new\<lparr>p_objs := [2 \<mapsto> ex_routed]\<rparr>"

definition ex_client :: donate_mapper where
  "ex_client = \<lparr>dm_active = True, dm_calls = [], dm_miner = 2, dm_algorithms = [], dm_diff = 9, dm_id = 0\<rparr>"

definition ex_donate :: donate_splitter where
  "ex_donate = dp_new\<lparr>dp_mappers := [0 \<mapsto> Some ex_client], dp_sequence := 1\<rparr>"

definition ex_redis :: "(string \<Rightarrow> string list option) redis" where
  "ex_redis r cmd =
     (let key = cmd ! 1 in
      if hd cmd = ''JSON.ARRAPPEND'' then
        (case r key of
           Some xs \<Rightarrow> (Some ReplyArray, r(key \<mapsto> xs @ [cmd ! 3]))
         | None \<Rightarrow> (Some (ReplyError missing_key_text), r))
      else (Some ReplyStatus, r(key \<mapsto> [])))"

section \<open>Their evaluation\<close>

lemma ex_digits:
  "\<not> hex_bad (byte_of (CHR ''0''))" "hex_val (byte_of (CHR ''0'')) = 0"
  "\<not> hex_bad (byte_of (CHR ''a''))" "hex_val (byte_of (CHR ''a'')) = 10"
  "\<not> hex_bad (byte_of (CHR ''b''))" "hex_val (byte_of (CHR ''b'')) = 11"
  "\<not> hex_bad (byte_of (CHR ''f''))" "hex_val (byte_of (CHR ''f'')) = 15"
  by (simp_all add: hex_defs byte_of_def)

lemma ex_nonce: "fromHex_to [0, 0, 0, 0] ''000000ab'' = (True, [0, 0, 0, 0xAB])"
  by (simp add: fromHex_to_def cvt_hex2bin_def Let_def ex_digits)

lemma ex_target: "fromHex_to (replicate 8 0) ''ff00000000000000'' = (True, [0xFF, 0, 0, 0, 0, 0, 0, 0])"
  by (simp add: fromHex_to_def cvt_hex2bin_def Let_def ex_digits)

lemma ex_result_target: "result_target (the (rp_result ex_share)) = 0xFF"
  by (simp add: result_target_def ex_share_def ex_target)

lemma ex_share_accepted: "se_error (submit_event_of 7 ex_share ex_miner) = NoError"
  using ex_result_target
  by (simp add: submit_event_of_def mk_job_result_def ex_share_def jr_isValid_def jr_isCompatible_def
      ex_miner_def ex_connection_def miner_new_def ex_nonce toDiff_def miner_diff_def str_isNull_def Let_def)


lemma ex_config: "diff_ok (cfg_diff (config_new 1))" "list_all bh_isValid (cfg_bind (config_new 1))"
  "fst (config_read True ex_reader (config_new 1))"
  by (simp_all add: config_new_def diff_ok_def config_read_def Let_def)

lemma ex_user: "user_diff ''user'' = None"
  by code_simp

lemmas ex_defs = px_create_def server_create_def miner_new_def px_new_def proc_new_def Let_def px_start_call bus_lists
  listener_defs ex_env_def ex_world_def config_new_def counters_zero_def dp_new_def st_connection_def miners_add_def
  px_line_def px_request_def miner_parse_def ex_line_def kMinLine_def parseRequest_def ex_login_def ex_share_def setState_def
  put_miner_def hear_def on_miner_def upd_miner_def login_login_def dp_login_def isDonateOverProxy_def customDiff_login_def
  customDiff_of_def sp_onLogin_def sp_connect_def sp_fresh_def nm_start_def nm_new_def nm_connect_def nm_call_def ns_new_def
  str_isNull_def ex_user workers_new_def on_workers_def workers_login_def workers_add_def worker_key_def nameByMiner_def
  miner_rigId_def wk_isEnabled_def st_new_def login_algorithms_def sp_place_def nm_isSuspended_def nm_add_def nicehash_ext_def
  ns_add_def ns_nextIndex_def hasAlgoExt_def str_size_def

lemmas ex_loops = first_from.simps [of _ 7] first_from.simps [of _ 8]
  sp_login.simps [of "\<lparr>e_now = a, e_loop_now = b, e_writable = c, e_try_write = d, e_tls_send = e, e_json = f, e_crypto = g\<rparr>"
    for a b c d e f g]

lemma ex_run_ok: "run_ok px_ok (px_step ex_world) (px_new ex_world 0 ()) ex_run"
  by (simp add: ex_run_def ex_defs ex_loops)

lemma ex_run_calm: "run_ok (\<lambda>px ev. px_ok px ev \<and> px_calm px ev) (px_step ex_world) (px_new ex_world 0 ()) ex_run"
  by (simp add: ex_run_def ex_defs ex_loops)

lemma ex_views: "ex_view 1 = Some (- 1, 0, 7)" "ex_view 2 = Some (- 1, 0, 8)"
  by (simp_all add: ex_view_def ex_px_def ex_run_def ex_defs ex_loops)

lemma ex_miners:
  obtains m m' where "p_objs (px_proc ex_px) 1 = Some m" and "p_objs (px_proc ex_px) 2 = Some m'"
    and "m_routeId m = - 1" and "m_routeId m' = - 1" and "m_mapperId m = 0" and "m_mapperId m' = 0"
    and "m_fixedByte m = 7" and "m_fixedByte m' = 8"
  using ex_views by (auto simp: ex_view_def)

lemma ex_workers: "wk_isEnabled (px_workers ex_px)" "0 < length (wk_workers (px_workers ex_px))"
  by (simp_all add: ex_px_def ex_run_def ex_defs ex_loops upd_worker_def)

lemma ex_px0_inv: "px_inv b ex_px0"
  unfolding ex_px0_def by (rule px_step_inv [OF px_new_inv]) (simp add: ex_run_def)

lemma ex_px0_miner:
  obtains m where "p_objs (px_proc ex_px0) (le_miner ex_login_event) = Some m" and "m_mapperId m < 0" and "m_routeId m = - 1"
  by (auto simp: ex_px0_def ex_run_def ex_defs ex_login_event_def)

lemma ex_px_inv: "px_inv False ex_px"
  unfolding ex_px_def by (rule proxy_run_inv [OF ex_run_ok])

lemma ex_routed: "dp_inv ex_routed_proc ex_donate" "p_objs ex_routed_proc (se_miner ex_submit) = Some ex_routed"
  "m_routeId ex_routed = 0" "m_mapperId ex_routed = 0" "dm_active ex_client" "dp_mappers ex_donate 0 = Some (Some ex_client)"
  by (auto simp: dp_inv_def ex_routed_proc_def ex_donate_def ex_client_def ex_routed_def ex_miner_def ex_submit_def split: if_splits)

lemma ex_redis_json: "redis_json (\<lambda>r. r) ex_redis"
proof -
  have "strstr missing_key_text missing_key_text \<noteq> None" by code_simp
  then show ?thesis by (auto simp: redis_json_def ex_redis_def cmd_arrappend_def cmd_set_def Let_def split: option.splits)
qed

end
