(* ===== verification/OrdMap.thy ===== *)
theory OrdMap
  imports Main
begin

text \<open>The ordered map \<open>std::map\<close> as an association list with ascending keys, for the maps that the code
  iterates over.\<close>

fun omap_set :: "'k::linorder \<Rightarrow> 'v \<Rightarrow> ('k \<times> 'v) list \<Rightarrow> ('k \<times> 'v) list" where
  "omap_set k v [] = [(k, v)]"
| "omap_set k v ((l, w) # xs) =
     (if k < l then (k, v) # (l, w) # xs else if k = l then (k, v) # xs else (l, w) # omap_set k v xs)"

definition omap_del :: "'k \<Rightarrow> ('k \<times> 'v) list \<Rightarrow> ('k \<times> 'v) list" where
  "omap_del k xs = List.filter (\<lambda>e. fst e \<noteq> k) xs"

definition omap_ok :: "('k::linorder \<times> 'v) list \<Rightarrow> bool" where
  "omap_ok xs \<longleftrightarrow> sorted_wrt (<) (map fst xs)"

lemma omap_ok_Nil [simp]: "omap_ok []"
  by (simp add: omap_ok_def)

lemma omap_set_lookup [simp]: "map_of (omap_set k v xs) = (map_of xs)(k \<mapsto> v)"
  by (induction k v xs rule: omap_set.induct) (auto simp: fun_eq_iff)

lemma omap_del_lookup [simp]: "map_of (omap_del k xs) = (map_of xs)(k := None)"
  by (induction xs) (auto simp: omap_del_def fun_eq_iff)

lemma omap_set_keys [simp]: "fst ` set (omap_set k v xs) = insert k (fst ` set xs)"
  by (induction k v xs rule: omap_set.induct) auto

lemma omap_del_set [simp]: "set (omap_del k xs) = {e \<in> set xs. fst e \<noteq> k}"
  by (simp add: omap_del_def)

lemma omap_set_ok [simp]: "omap_ok xs \<Longrightarrow> omap_ok (omap_set k v xs)"
proof (induction k v xs rule: omap_set.induct)
  case (2 k v l w xs)
  show ?case
  proof (cases "l < k")
    case True
    have "omap_ok (omap_set k v xs)" using 2 True by (auto simp: omap_ok_def)
    moreover have "\<forall>x \<in> fst ` set (omap_set k v xs). l < x" using 2(2) True by (auto simp: omap_ok_def)
    ultimately show ?thesis using True by (auto simp: omap_ok_def)
  qed (use 2(2) in \<open>auto simp: omap_ok_def\<close>)
qed (simp add: omap_ok_def)

lemma omap_del_ok [simp]: "omap_ok xs \<Longrightarrow> omap_ok (omap_del k xs)"
  unfolding omap_ok_def omap_del_def by (induction xs) auto

lemma omap_ok_distinct: "omap_ok xs \<Longrightarrow> distinct (map fst xs)"
  by (simp add: omap_ok_def strict_sorted_iff)

lemma omap_lookup_iff: "omap_ok xs \<Longrightarrow> map_of xs k = Some v \<longleftrightarrow> (k, v) \<in> set xs"
  using map_of_eq_Some_iff omap_ok_distinct by metis

end
