(* ===== verification/Json.thy ===== *)
theory Json
  imports CText Complex_Main
begin

text \<open>
  JSON values and the accessors of \<open>src/base/io/json/Json.cpp\<close>. The parser is a library; a value is what it
  delivers: an integer that fits into 64 bits, or a double, which is a rational number here. The first
  member of a name counts. A string that becomes a C string ends at its first zero character.
\<close>

datatype json =
    JsNull
  | JsBool bool
  | JsInt int
  | JsDouble rat
  | JsString string
  | JsArray "json list"
  | JsObject "(string \<times> json) list"

definition is_int :: "int \<Rightarrow> bool" where
  "is_int k \<longleftrightarrow> - (2 ^ 31) \<le> k \<and> k < 2 ^ 31"

definition is_uint :: "int \<Rightarrow> bool" where
  "is_uint k \<longleftrightarrow> 0 \<le> k \<and> k < 2 ^ 32"

definition is_int64 :: "int \<Rightarrow> bool" where
  "is_int64 k \<longleftrightarrow> - (2 ^ 63) \<le> k \<and> k < 2 ^ 63"

definition is_uint64 :: "int \<Rightarrow> bool" where
  "is_uint64 k \<longleftrightarrow> 0 \<le> k \<and> k < 2 ^ 64"

text \<open>The integer a double represents exactly.\<close>

definition is_lossless :: "int \<Rightarrow> bool" where
  "is_lossless k \<longleftrightarrow> (let a = nat \<bar>k\<bar> in a < 2 ^ 53 \<or> (\<exists>e \<in> {0..11}. a mod 2 ^ e = 0 \<and> a div 2 ^ e < 2 ^ 53))"

definition c_string :: "string \<Rightarrow> string" where
  "c_string s = takeWhile (\<lambda>c. c \<noteq> nul) s"

definition json_isEmpty :: "json \<Rightarrow> bool" where
  "json_isEmpty v = (case v of JsObject ms \<Rightarrow> ms = [] | _ \<Rightarrow> True)"

definition json_find :: "json \<Rightarrow> string \<Rightarrow> json option" where
  "json_find v key = (case v of JsObject ms \<Rightarrow> map_of ms key | _ \<Rightarrow> None)"

definition getBool :: "json \<Rightarrow> string \<Rightarrow> bool \<Rightarrow> bool" where
  "getBool v key def = (case json_find v key of Some (JsBool b) \<Rightarrow> b | _ \<Rightarrow> def)"

definition getString :: "json \<Rightarrow> string \<Rightarrow> cstr \<Rightarrow> cstr" where
  "getString v key def = (case json_find v key of Some (JsString s) \<Rightarrow> Some (c_string s) | _ \<Rightarrow> def)"

text \<open>\<open>getString(obj, key, maxSize)\<close>: the length is the one with zero characters.\<close>

definition getString_max :: "json \<Rightarrow> string \<Rightarrow> nat \<Rightarrow> cstr" where
  "getString_max v key maxSize =
     (case json_find v key of
        Some (JsString s) \<Rightarrow> if maxSize = 0 \<or> length s \<le> maxSize then Some (c_string s) else Some (take maxSize s)
      | _ \<Rightarrow> None)"

definition getArray :: "json \<Rightarrow> string \<Rightarrow> json" where
  "getArray v key = (case json_find v key of Some (JsArray xs) \<Rightarrow> JsArray xs | _ \<Rightarrow> JsNull)"

definition getObject :: "json \<Rightarrow> string \<Rightarrow> json" where
  "getObject v key = (case json_find v key of Some (JsObject xs) \<Rightarrow> JsObject xs | _ \<Rightarrow> JsNull)"

definition getValue :: "json \<Rightarrow> string \<Rightarrow> json" where
  "getValue v key = (case json_find v key of Some x \<Rightarrow> x | None \<Rightarrow> JsNull)"

definition getDouble :: "json \<Rightarrow> string \<Rightarrow> rat \<Rightarrow> rat" where
  "getDouble v key def =
     (case json_find v key of
        Some (JsDouble r) \<Rightarrow> r
      | Some (JsInt k) \<Rightarrow> if is_lossless k then of_int k else def
      | _ \<Rightarrow> def)"

definition get_number :: "(int \<Rightarrow> bool) \<Rightarrow> json \<Rightarrow> string \<Rightarrow> int \<Rightarrow> int" where
  "get_number P v key def = (case json_find v key of Some (JsInt k) \<Rightarrow> if P k then k else def | _ \<Rightarrow> def)"

definition getInt :: "json \<Rightarrow> string \<Rightarrow> int \<Rightarrow> int" where
  "getInt = get_number is_int"

definition getInt64 :: "json \<Rightarrow> string \<Rightarrow> int \<Rightarrow> int" where
  "getInt64 = get_number is_int64"

definition getUint :: "json \<Rightarrow> string \<Rightarrow> int \<Rightarrow> int" where
  "getUint = get_number is_uint"

definition getUint64 :: "json \<Rightarrow> string \<Rightarrow> int \<Rightarrow> int" where
  "getUint64 = get_number is_uint64"

text \<open>\<open>String::toJSON\<close>.\<close>

definition str_toJSON :: "cstr \<Rightarrow> json" where
  "str_toJSON s = (case s of None \<Rightarrow> JsNull | Some s \<Rightarrow> JsString s)"

section \<open>Reading what was written\<close>

text \<open>A string without zero characters.\<close>

definition no_nul :: "cstr \<Rightarrow> bool" where
  "no_nul s \<longleftrightarrow> (case s of None \<Rightarrow> True | Some s \<Rightarrow> nul \<notin> set s)"

lemma c_string_plain: "nul \<notin> set s \<Longrightarrow> c_string s = s"
  unfolding c_string_def by (rule takeWhile_eq_all_conv [THEN iffD2]) auto

lemma c_string_idem [simp]: "c_string (c_string s) = c_string s"
  by (simp add: c_string_def)

lemma plain_c_string [simp]: "no_nul (Some (c_string s))"
  by (auto simp: no_nul_def c_string_def dest: set_takeWhileD)

lemma getString_toJSON: "json_find v key = Some (str_toJSON s) \<Longrightarrow> no_nul s \<Longrightarrow> getString v key None = s"
  by (cases s) (auto simp: getString_def str_toJSON_def no_nul_def c_string_plain)

lemma getString_None: "json_find v key = None \<Longrightarrow> getString v key def = def"
  by (simp add: getString_def)

lemma getString_plain: "no_nul def \<Longrightarrow> no_nul (getString v key def)"
  by (auto simp: getString_def split: option.splits json.splits)

text \<open>A number is in the range of its type or the default.\<close>

lemma get_number_range: "P def \<Longrightarrow> P (get_number P v key def)"
  by (auto simp: get_number_def split: option.splits json.splits)

end
