(* ===== verification/Strategies.thy ===== *)
theory Strategies
  imports Job Url
begin

text \<open>
  The strategies that connect to the pools (\<open>src/base/net/stratum/strategies/FailoverStrategy.cpp\<close>,
  \<open>SinglePoolStrategy.cpp\<close>). A client is its identifier, which is its place in the vector; the calls on
  the clients and on the listener are logged in their order, and what the clients report arrives as
  callbacks. An index outside the vector is \<open>None\<close>. The destructor only hands the clients over for deletion.
\<close>

section \<open>The calls\<close>

text \<open>\<open>'p\<close> is the configuration of a pool, from which its client is created.\<close>

datatype 'p client_op =
    OpCreate 'p
  | OpSetRetries int
  | OpSetRetryPause int
  | OpSetQuiet bool
  | OpConnect
  | OpDisconnect
  | OpTick u64
  | OpSetAlgo algo_id
  | OpSetProxy url
  | OpSubmit job_result

datatype listener_call =
    LnPause
  | LnActive int
  | LnJob int job
  | LnLogin int
  | LnResult int submit_result cstr
  | LnVerify int algo_id

section \<open>FailoverStrategy\<close>

record 'p failover =
  fs_quiet :: bool
  fs_retries :: int
  fs_retryPause :: int
  fs_active :: int
  fs_index :: nat
  fs_pools :: "'p list"
  fs_ops :: "(int \<times> 'p client_op) list"
  fs_told :: "listener_call list"

definition fs_op :: "int \<Rightarrow> 'p client_op \<Rightarrow> 'p failover \<Rightarrow> 'p failover" where
  "fs_op k c fs = fs\<lparr>fs_ops := fs_ops fs @ [(k, c)]\<rparr>"

definition fs_tell :: "listener_call \<Rightarrow> 'p failover \<Rightarrow> 'p failover" where
  "fs_tell c fs = fs\<lparr>fs_told := fs_told fs @ [c]\<rparr>"

text \<open>A call on every client, in the order of the vector.\<close>

definition fs_all :: "'p client_op \<Rightarrow> 'p failover \<Rightarrow> 'p failover" where
  "fs_all c fs = fold (\<lambda>k. fs_op (int k) c) [0..<length (fs_pools fs)] fs"

definition fs_isActive :: "'p failover \<Rightarrow> bool" where
  "fs_isActive fs \<longleftrightarrow> fs_active fs \<ge> 0"

definition fs_add :: "'p \<Rightarrow> 'p failover \<Rightarrow> 'p failover" where
  "fs_add pool fs =
     (let k = int (length (fs_pools fs));
          fs = fs_op k (OpCreate pool) fs;
          fs = fs_op k (OpSetRetries (fs_retries fs)) fs;
          fs = fs_op k (OpSetRetryPause (fs_retryPause fs * 1000)) fs;
          fs = fs_op k (OpSetQuiet (fs_quiet fs)) fs
      in fs\<lparr>fs_pools := fs_pools fs @ [pool]\<rparr>)"

definition fs_empty :: "int \<Rightarrow> int \<Rightarrow> bool \<Rightarrow> 'p failover" where
  "fs_empty retryPause retries quiet =
     \<lparr>fs_quiet = quiet, fs_retries = retries, fs_retryPause = retryPause, fs_active = - 1, fs_index = 0,
      fs_pools = [], fs_ops = [], fs_told = []\<rparr>"

definition fs_new :: "'p list \<Rightarrow> int \<Rightarrow> int \<Rightarrow> bool \<Rightarrow> 'p failover" where
  "fs_new pools retryPause retries quiet = fold fs_add pools (fs_empty retryPause retries quiet)"

text \<open>\<open>client()\<close>: the active one, or the one that is tried.\<close>

definition fs_client :: "'p failover \<Rightarrow> int option" where
  "fs_client fs =
     (if fs_isActive fs then (if nat (fs_active fs) < length (fs_pools fs) then Some (fs_active fs) else None)
      else (if fs_index fs < length (fs_pools fs) then Some (int (fs_index fs)) else None))"

text \<open>\<open>seq\<close> is what \<open>submit\<close> of the active client returns.\<close>

definition fs_submit :: "int \<Rightarrow> job_result \<Rightarrow> 'p failover \<Rightarrow> int \<times> 'p failover" where
  "fs_submit seq result fs =
     (if \<not> fs_isActive fs then (- 1, fs) else (seq, fs_op (fs_active fs) (OpSubmit result) fs))"

definition fs_connect :: "'p failover \<Rightarrow> 'p failover option" where
  "fs_connect fs =
     (if fs_index fs < length (fs_pools fs) then Some (fs_op (int (fs_index fs)) OpConnect fs) else None)"

text \<open>\<open>jobs\<close> gives the current job of each client.\<close>

definition fs_resume :: "(int \<Rightarrow> job) \<Rightarrow> 'p failover \<Rightarrow> 'p failover" where
  "fs_resume jobs fs = (if \<not> fs_isActive fs then fs else fs_tell (LnJob (fs_active fs) (jobs (fs_active fs))) fs)"

definition fs_setAlgo :: "algo_id \<Rightarrow> 'p failover \<Rightarrow> 'p failover" where
  "fs_setAlgo a fs = fs_all (OpSetAlgo a) fs"

definition fs_setProxy :: "url \<Rightarrow> 'p failover \<Rightarrow> 'p failover" where
  "fs_setProxy u fs = fs_all (OpSetProxy u) fs"

definition fs_stop :: "'p failover \<Rightarrow> 'p failover" where
  "fs_stop fs = fs_tell LnPause ((fs_all OpDisconnect fs)\<lparr>fs_index := 0, fs_active := - 1\<rparr>)"

definition fs_tick :: "u64 \<Rightarrow> 'p failover \<Rightarrow> 'p failover" where
  "fs_tick now fs = fs_all (OpTick now) fs"

text \<open>The callbacks of the clients.\<close>

definition fs_onClose :: "int \<Rightarrow> int \<Rightarrow> 'p failover \<Rightarrow> 'p failover" where
  "fs_onClose k failures fs =
     (if failures = - 1 then fs
      else
        let fs = (if fs_active fs = k then fs_tell LnPause (fs\<lparr>fs_active := - 1\<rparr>) else fs) in
        if fs_index fs = 0 \<and> failures < fs_retries fs then fs
        else if int (fs_index fs) = k \<and> length (fs_pools fs) - fs_index fs > 1 then
          let fs = fs\<lparr>fs_index := fs_index fs + 1\<rparr> in fs_op (int (fs_index fs)) OpConnect fs
        else fs)"

definition fs_onLogin :: "int \<Rightarrow> 'p failover \<Rightarrow> 'p failover" where
  "fs_onLogin k fs = fs_tell (LnLogin k) fs"

definition fs_onJobReceived :: "int \<Rightarrow> job \<Rightarrow> 'p failover \<Rightarrow> 'p failover" where
  "fs_onJobReceived k job fs = (if fs_active fs = k then fs_tell (LnJob k job) fs else fs)"

definition fs_onLoginSuccess :: "int \<Rightarrow> 'p failover \<Rightarrow> 'p failover" where
  "fs_onLoginSuccess k fs =
     (let active = (if k = 0 \<or> \<not> fs_isActive fs then k else fs_active fs);
          fs = fold (\<lambda>i fs. if active \<noteq> int i then fs_op (int i) OpDisconnect fs else fs) [1..<length (fs_pools fs)] fs
      in if active \<ge> 0 \<and> active \<noteq> fs_active fs
         then fs_tell (LnActive k) (fs\<lparr>fs_index := nat active, fs_active := active\<rparr>) else fs)"

definition fs_onResultAccepted :: "int \<Rightarrow> submit_result \<Rightarrow> cstr \<Rightarrow> 'p failover \<Rightarrow> 'p failover" where
  "fs_onResultAccepted k result err fs = fs_tell (LnResult k result err) fs"

definition fs_onVerifyAlgorithm :: "int \<Rightarrow> algo_id \<Rightarrow> 'p failover \<Rightarrow> 'p failover" where
  "fs_onVerifyAlgorithm k a fs = fs_tell (LnVerify k a) fs"

section \<open>SinglePoolStrategy\<close>

record 'p single_pool =
  sg_active :: bool
  sg_pool :: 'p
  sg_ops :: "'p client_op list"
  sg_told :: "listener_call list"

definition sg_op :: "'p client_op \<Rightarrow> 'p single_pool \<Rightarrow> 'p single_pool" where
  "sg_op c s = s\<lparr>sg_ops := sg_ops s @ [c]\<rparr>"

definition sg_tell :: "listener_call \<Rightarrow> 'p single_pool \<Rightarrow> 'p single_pool" where
  "sg_tell c s = s\<lparr>sg_told := sg_told s @ [c]\<rparr>"

definition sg_new :: "'p \<Rightarrow> int \<Rightarrow> int \<Rightarrow> bool \<Rightarrow> 'p single_pool" where
  "sg_new pool retryPause retries quiet =
     \<lparr>sg_active = False, sg_pool = pool,
      sg_ops = [OpCreate pool, OpSetRetries retries, OpSetRetryPause (retryPause * 1000), OpSetQuiet quiet], sg_told = []\<rparr>"

definition sg_submit :: "int \<Rightarrow> job_result \<Rightarrow> 'p single_pool \<Rightarrow> int \<times> 'p single_pool" where
  "sg_submit seq result s = (seq, sg_op (OpSubmit result) s)"

definition sg_connect :: "'p single_pool \<Rightarrow> 'p single_pool" where
  "sg_connect s = sg_op OpConnect s"

definition sg_resume :: "job \<Rightarrow> 'p single_pool \<Rightarrow> 'p single_pool" where
  "sg_resume job s = (if \<not> sg_active s then s else sg_tell (LnJob 0 job) s)"

definition sg_setAlgo :: "algo_id \<Rightarrow> 'p single_pool \<Rightarrow> 'p single_pool" where
  "sg_setAlgo a s = sg_op (OpSetAlgo a) s"

definition sg_setProxy :: "url \<Rightarrow> 'p single_pool \<Rightarrow> 'p single_pool" where
  "sg_setProxy u s = sg_op (OpSetProxy u) s"

definition sg_stop :: "'p single_pool \<Rightarrow> 'p single_pool" where
  "sg_stop s = sg_op OpDisconnect s"

definition sg_tick :: "u64 \<Rightarrow> 'p single_pool \<Rightarrow> 'p single_pool" where
  "sg_tick now s = sg_op (OpTick now) s"

definition sg_onClose :: "'p single_pool \<Rightarrow> 'p single_pool" where
  "sg_onClose s = (if \<not> sg_active s then s else sg_tell LnPause (s\<lparr>sg_active := False\<rparr>))"

definition sg_onJobReceived :: "int \<Rightarrow> job \<Rightarrow> 'p single_pool \<Rightarrow> 'p single_pool" where
  "sg_onJobReceived k job s = sg_tell (LnJob k job) s"

definition sg_onLogin :: "int \<Rightarrow> 'p single_pool \<Rightarrow> 'p single_pool" where
  "sg_onLogin k s = sg_tell (LnLogin k) s"

definition sg_onLoginSuccess :: "int \<Rightarrow> 'p single_pool \<Rightarrow> 'p single_pool" where
  "sg_onLoginSuccess k s = sg_tell (LnActive k) (s\<lparr>sg_active := True\<rparr>)"

definition sg_onResultAccepted :: "int \<Rightarrow> submit_result \<Rightarrow> cstr \<Rightarrow> 'p single_pool \<Rightarrow> 'p single_pool" where
  "sg_onResultAccepted k result err s = sg_tell (LnResult k result err) s"

definition sg_onVerifyAlgorithm :: "int \<Rightarrow> algo_id \<Rightarrow> 'p single_pool \<Rightarrow> 'p single_pool" where
  "sg_onVerifyAlgorithm k a s = sg_tell (LnVerify k a) s"

section \<open>Runs of the failover strategy\<close>

datatype fs_event =
    FsConnect
  | FsStop
  | FsTick u64
  | FsSetAlgo algo_id
  | FsSetProxy url
  | FsSubmit int job_result
  | FsResume "int \<Rightarrow> job"
  | FsClose int int
  | FsLogin int
  | FsLoginSuccess int
  | FsJob int job
  | FsResult int submit_result cstr
  | FsVerify int algo_id

fun fs_step :: "'p failover \<Rightarrow> fs_event \<Rightarrow> 'p failover" where
  "fs_step fs FsConnect = (case fs_connect fs of None \<Rightarrow> fs | Some fs \<Rightarrow> fs)"
| "fs_step fs FsStop = fs_stop fs"
| "fs_step fs (FsTick now) = fs_tick now fs"
| "fs_step fs (FsSetAlgo a) = fs_setAlgo a fs"
| "fs_step fs (FsSetProxy u) = fs_setProxy u fs"
| "fs_step fs (FsSubmit seq r) = snd (fs_submit seq r fs)"
| "fs_step fs (FsResume jobs) = fs_resume jobs fs"
| "fs_step fs (FsClose k failures) = fs_onClose k failures fs"
| "fs_step fs (FsLogin k) = fs_onLogin k fs"
| "fs_step fs (FsLoginSuccess k) = fs_onLoginSuccess k fs"
| "fs_step fs (FsJob k job) = fs_onJobReceived k job fs"
| "fs_step fs (FsResult k r err) = fs_onResultAccepted k r err fs"
| "fs_step fs (FsVerify k a) = fs_onVerifyAlgorithm k a fs"

text \<open>Callbacks come from clients of the vector.\<close>

definition fs_member :: "int \<Rightarrow> 'p failover \<Rightarrow> bool" where
  "fs_member k fs \<longleftrightarrow> 0 \<le> k \<and> k < int (length (fs_pools fs))"

fun fs_ok :: "'p failover \<Rightarrow> fs_event \<Rightarrow> bool" where
  "fs_ok fs (FsClose k failures) = fs_member k fs"
| "fs_ok fs (FsLogin k) = fs_member k fs"
| "fs_ok fs (FsLoginSuccess k) = fs_member k fs"
| "fs_ok fs (FsJob k job) = fs_member k fs"
| "fs_ok fs (FsResult k r err) = fs_member k fs"
| "fs_ok fs (FsVerify k a) = fs_member k fs"
| "fs_ok fs _ = True"

section \<open>What the listener may rely on\<close>

text \<open>The abstract strategy the listener sees: no pool, or one, whose jobs it gets; \<open>None\<close> when a call does
  not fit: the activation of the pool that is active, a job of another one.\<close>

fun listener_next :: "int \<Rightarrow> listener_call \<Rightarrow> int option" where
  "listener_next a LnPause = Some (- 1)"
| "listener_next a (LnActive k) = (if 0 \<le> k \<and> k \<noteq> a then Some k else None)"
| "listener_next a (LnJob k job) = (if 0 \<le> k \<and> k = a then Some a else None)"
| "listener_next a (LnLogin k) = Some a"
| "listener_next a (LnResult k r err) = Some a"
| "listener_next a (LnVerify k al) = Some a"

fun listener_state :: "int \<Rightarrow> listener_call list \<Rightarrow> int option" where
  "listener_state a [] = Some a"
| "listener_state a (c # cs) = (case listener_next a c of None \<Rightarrow> None | Some b \<Rightarrow> listener_state b cs)"

lemma listener_state_snoc:
  "listener_state a (cs @ [c]) = (case listener_state a cs of None \<Rightarrow> None | Some b \<Rightarrow> listener_next b c)"
  by (induction cs arbitrary: a) (auto split: option.splits)

section \<open>The invariant\<close>

text \<open>The active pool exists and is the one at the index, and it is the one the listener knows of.\<close>

definition fs_inv :: "'p failover \<Rightarrow> bool" where
  "fs_inv fs \<longleftrightarrow> - 1 \<le> fs_active fs \<and> fs_active fs < int (length (fs_pools fs)) \<and>
     (0 \<le> fs_active fs \<longrightarrow> int (fs_index fs) = fs_active fs) \<and>
     (fs_pools fs \<noteq> [] \<longrightarrow> fs_index fs < length (fs_pools fs)) \<and> (fs_pools fs = [] \<longrightarrow> fs_index fs = 0) \<and>
     listener_state (- 1) (fs_told fs) = Some (fs_active fs)"

lemma fs_op_simps [simp]:
  "fs_active (fs_op k c fs) = fs_active fs" "fs_index (fs_op k c fs) = fs_index fs" "fs_pools (fs_op k c fs) = fs_pools fs"
  "fs_told (fs_op k c fs) = fs_told fs" "fs_retries (fs_op k c fs) = fs_retries fs"
  "fs_retryPause (fs_op k c fs) = fs_retryPause fs" "fs_quiet (fs_op k c fs) = fs_quiet fs"
  "fs_ops (fs_op k c fs) = fs_ops fs @ [(k, c)]"
  by (simp_all add: fs_op_def)

lemma fs_fold_op [simp]:
  "fs_active (fold (\<lambda>i fs. if P i then fs_op (int i) c fs else fs) ks fs) = fs_active fs"
  "fs_index (fold (\<lambda>i fs. if P i then fs_op (int i) c fs else fs) ks fs) = fs_index fs"
  "fs_pools (fold (\<lambda>i fs. if P i then fs_op (int i) c fs else fs) ks fs) = fs_pools fs"
  "fs_told (fold (\<lambda>i fs. if P i then fs_op (int i) c fs else fs) ks fs) = fs_told fs"
  "fs_ops (fold (\<lambda>i fs. if P i then fs_op (int i) c fs else fs) ks fs) =
     fs_ops fs @ map (\<lambda>i. (int i, c)) (List.filter P ks)"
  by (induction ks arbitrary: fs) simp_all

lemma fs_all_fold: "fs_all c fs = fold (\<lambda>i fs. if True then fs_op (int i) c fs else fs) [0..<length (fs_pools fs)] fs"
  unfolding fs_all_def by (rule arg_cong [of _ _ "\<lambda>f. fold f _ _"]) (simp add: fun_eq_iff)

lemma fs_all_simps [simp]:
  "fs_active (fs_all c fs) = fs_active fs" "fs_index (fs_all c fs) = fs_index fs" "fs_pools (fs_all c fs) = fs_pools fs"
  "fs_told (fs_all c fs) = fs_told fs" "fs_ops (fs_all c fs) = fs_ops fs @ map (\<lambda>i. (int i, c)) [0..<length (fs_pools fs)]"
  unfolding fs_all_fold fs_fold_op by simp_all

lemma fs_tell_simps [simp]:
  "fs_active (fs_tell c fs) = fs_active fs" "fs_index (fs_tell c fs) = fs_index fs" "fs_pools (fs_tell c fs) = fs_pools fs"
  "fs_told (fs_tell c fs) = fs_told fs @ [c]" "fs_retries (fs_tell c fs) = fs_retries fs" "fs_ops (fs_tell c fs) = fs_ops fs"
  by (simp_all add: fs_tell_def)

lemma fs_add_told [simp]: "fs_told (fs_add p fs) = fs_told fs" "fs_active (fs_add p fs) = fs_active fs"
  "fs_index (fs_add p fs) = fs_index fs" "fs_pools (fs_add p fs) = fs_pools fs @ [p]"
  by (simp_all add: fs_add_def Let_def)

lemma fs_new_fields:
  "fs_told (fold fs_add pools fs) = fs_told fs" "fs_active (fold fs_add pools fs) = fs_active fs"
  "fs_index (fold fs_add pools fs) = fs_index fs" "fs_pools (fold fs_add pools fs) = fs_pools fs @ pools"
  by (induction pools arbitrary: fs) simp_all

lemma fs_inv_new: "fs_inv (fs_new pools retryPause retries quiet)"
  by (simp add: fs_inv_def fs_new_def fs_new_fields fs_empty_def)

lemma fs_inv_same:
  assumes "fs_inv fs" and "fs_active fs' = fs_active fs" and "fs_index fs' = fs_index fs" and "fs_pools fs' = fs_pools fs"
    and "fs_told fs' = fs_told fs"
  shows "fs_inv fs'"
  using assms by (simp add: fs_inv_def)

lemma fs_inv_pause:
  assumes "fs_inv fs"
  shows "fs_inv (fs_tell LnPause (fs\<lparr>fs_active := - 1\<rparr>))"
  using assms by (simp add: fs_inv_def listener_state_snoc)

lemma fs_inv_next:
  assumes "fs_inv fs" and "fs_active fs = - 1" and "fs_index fs + 1 < length (fs_pools fs)"
  shows "fs_inv (fs_op k c (fs\<lparr>fs_index := fs_index fs + 1\<rparr>))"
  using assms by (auto simp: fs_inv_def)

lemma fs_onClose_inv:
  assumes inv: "fs_inv fs"
  shows "fs_inv (fs_onClose k failures fs)"
proof (cases "failures = - 1")
  case False
  let ?fs = "if fs_active fs = k then fs_tell LnPause (fs\<lparr>fs_active := - 1\<rparr>) else fs"
  have i: "fs_inv ?fs" using inv fs_inv_pause [OF inv] by simp
  have a: "fs_active ?fs = - 1" if "int (fs_index ?fs) = k"
    using that i unfolding fs_inv_def by (auto split: if_splits)
  have "fs_onClose k failures fs =
      (if fs_index ?fs = 0 \<and> failures < fs_retries ?fs then ?fs
       else if int (fs_index ?fs) = k \<and> length (fs_pools ?fs) - fs_index ?fs > 1
       then fs_op (int (fs_index ?fs + 1)) OpConnect (?fs\<lparr>fs_index := fs_index ?fs + 1\<rparr>) else ?fs)"
    using False by (simp add: fs_onClose_def Let_def)
  moreover have "length (fs_pools ?fs) - fs_index ?fs > 1 \<Longrightarrow> fs_index ?fs + 1 < length (fs_pools ?fs)" by linarith
  ultimately show ?thesis using i fs_inv_next [OF i a] by presburger
qed (use inv in \<open>simp add: fs_onClose_def\<close>)

lemma fs_onLoginSuccess_inv:
  assumes inv: "fs_inv fs" and k: "fs_member k fs"
  shows "fs_inv (fs_onLoginSuccess k fs)"
  using assms
  by (auto simp: fs_onLoginSuccess_def fs_inv_def Let_def listener_state_snoc fs_member_def fs_isActive_def)

lemma fs_step_inv:
  assumes inv: "fs_inv fs" and ok: "fs_ok fs e"
  shows "fs_inv (fs_step fs e)"
proof (cases e)
  case FsConnect
  then show ?thesis using inv by (auto simp: fs_connect_def intro: fs_inv_same)
next
  case FsStop
  then show ?thesis using inv by (auto simp: fs_stop_def fs_inv_def listener_state_snoc)
next
  case (FsClose k failures)
  then show ?thesis using fs_onClose_inv [OF inv] by simp
next
  case (FsLoginSuccess k)
  then show ?thesis using fs_onLoginSuccess_inv [OF inv] ok by simp
next
  case (FsJob k job)
  then show ?thesis using inv ok by (auto simp: fs_onJobReceived_def fs_inv_def listener_state_snoc fs_member_def)
next
  case (FsResume jobs)
  then show ?thesis using inv by (auto simp: fs_resume_def fs_inv_def listener_state_snoc fs_isActive_def)
next
  case (FsSubmit seq r)
  then show ?thesis using inv by (auto simp: fs_submit_def intro: fs_inv_same)
qed (use inv in \<open>auto simp: fs_tick_def fs_setAlgo_def fs_setProxy_def fs_onLogin_def fs_onResultAccepted_def
      fs_onVerifyAlgorithm_def fs_inv_def listener_state_snoc\<close>)

interpretation failover: event_component "\<lambda>fs. fs = fs_new pools retryPause retries quiet" fs_ok fs_step fs_inv
  for pools :: "'p list" and retryPause retries quiet
  by unfold_locales (auto simp: fs_inv_new fs_step_inv)

section \<open>Failing over, and back\<close>

lemma run_append: "run step s (es @ es') = run step (run step s es) es'"
  by (induction es arbitrary: s) simp_all

lemma fs_close_next:
  assumes "fs_active fs = - 1" and "int (fs_index fs) = k" and "fs_index fs + 1 < length (fs_pools fs)"
    and "failures \<noteq> - 1" and "fs_index fs = 0 \<Longrightarrow> fs_retries fs \<le> failures"
  shows "fs_onClose k failures fs = fs_op (k + 1) OpConnect (fs\<lparr>fs_index := fs_index fs + 1\<rparr>)"
proof -
  have "k \<noteq> - 1" using assms(2) by linarith
  then show ?thesis using assms by (auto simp: fs_onClose_def Let_def)
qed

text \<open>When pools fail one after the other, the first as often as the retries allow, the next is connected.\<close>

lemma fs_fails_over:
  assumes "fs_active fs = - 1" and "fs_index fs = 0" and "j < length (fs_pools fs)"
    and "\<And>i. i < j \<Longrightarrow> failures i \<noteq> - 1" and "0 < j \<Longrightarrow> fs_retries fs \<le> failures 0"
    and "fs' = run fs_step fs (map (\<lambda>i. FsClose (int i) (failures i)) [0..<j])"
  shows "fs_index fs' = j \<and> fs_active fs' = - 1 \<and> fs_pools fs' = fs_pools fs \<and> fs_retries fs' = fs_retries fs \<and>
    fs_told fs' = fs_told fs \<and> fs_ops fs' = fs_ops fs @ map (\<lambda>i. (int i, OpConnect)) [1..<Suc j]"
  using assms(3-6)
proof (induction j arbitrary: fs')
  case 0
  then show ?case using assms(1,2) by simp
next
  case (Suc j)
  let ?f = "run fs_step fs (map (\<lambda>i. FsClose (int i) (failures i)) [0..<j])"
  have ih: "fs_index ?f = j" "fs_active ?f = - 1" "fs_pools ?f = fs_pools fs" "fs_retries ?f = fs_retries fs"
    "fs_told ?f = fs_told fs" "fs_ops ?f = fs_ops fs @ map (\<lambda>i. (int i, OpConnect)) [1..<Suc j]"
    using Suc.IH [OF _ _ _ refl] Suc.prems(1-3) by auto
  have "fs' = fs_onClose (int j) (failures j) ?f" unfolding Suc.prems(4) by (simp add: run_append)
  also have "\<dots> = fs_op (int j + 1) OpConnect (?f\<lparr>fs_index := fs_index ?f + 1\<rparr>)"
    by (rule fs_close_next) (use ih Suc.prems in auto)
  finally show ?case using ih by simp
qed

lemma fs_login_success:
  assumes "fs_active fs = - 1" and "0 \<le> k"
  shows "fs_active (fs_onLoginSuccess k fs) = k" "fs_told (fs_onLoginSuccess k fs) = fs_told fs @ [LnActive k]"
    "fs_index (fs_onLoginSuccess k fs) = nat k"
  using assms by (simp_all add: fs_onLoginSuccess_def Let_def fs_isActive_def)

text \<open>The first pool takes over whenever it is back, and the others are disconnected.\<close>

lemma fs_prefers_first:
  assumes "fs_inv fs"
  shows "fs_active (fs_onLoginSuccess 0 fs) = 0" "fs_index (fs_onLoginSuccess 0 fs) = 0"
    "fs_ops (fs_onLoginSuccess 0 fs) = fs_ops fs @ map (\<lambda>i. (int i, OpDisconnect)) [1..<length (fs_pools fs)]"
    "fs_told (fs_onLoginSuccess 0 fs) = fs_told fs @ (if fs_active fs = 0 then [] else [LnActive 0])"
proof -
  have "fs_active fs = 0 \<Longrightarrow> fs_index fs = 0" using assms by (simp add: fs_inv_def)
  then show "fs_active (fs_onLoginSuccess 0 fs) = 0" "fs_index (fs_onLoginSuccess 0 fs) = 0"
    "fs_told (fs_onLoginSuccess 0 fs) = fs_told fs @ (if fs_active fs = 0 then [] else [LnActive 0])"
    by (auto simp: fs_onLoginSuccess_def Let_def)
  have "List.filter (\<lambda>i. 0 \<noteq> int i) [1..<length (fs_pools fs)] = [1..<length (fs_pools fs)]"
    by (rule filter_True) simp
  then show "fs_ops (fs_onLoginSuccess 0 fs) = fs_ops fs @ map (\<lambda>i. (int i, OpDisconnect)) [1..<length (fs_pools fs)]"
    by (auto simp: fs_onLoginSuccess_def Let_def)
qed

text \<open>Without an active pool a share is not sent.\<close>

lemma fs_submit_inactive: "fs_active fs < 0 \<Longrightarrow> fs_submit seq r fs = (- 1, fs)"
  by (simp add: fs_submit_def fs_isActive_def)

end
