(* ===== verification/Pools.thy ===== *)
theory Pools
  imports Json Coin Strategies
begin

text \<open>
  The pools of the configuration (\<open>src/base/net/stratum/Pool.cpp\<close>, \<open>Pools.cpp\<close>, \<open>ProxyUrl.cpp\<close>): reading
  them from JSON, writing them back, comparing them when the configuration is reloaded, and creating the
  client and the strategy for them. The build has TLS and HTTP, and neither the Ethereum clients nor the
  benchmark. Flags of the bit set are members of their own.
\<close>

section \<open>ProxyUrl\<close>

definition proxy_new :: url where
  "proxy_new = url_new\<lparr>u_port := 0\<rparr>"

definition proxy_of_json :: "json \<Rightarrow> url" where
  "proxy_of_json v =
     (case v of
        JsString s \<Rightarrow> snd (url_parse (Some (c_string s)) proxy_new)
      | JsInt k \<Rightarrow> if is_uint k then proxy_new\<lparr>u_port := of_int k\<rparr> else proxy_new
      | _ \<Rightarrow> proxy_new)"

definition proxy_isValid :: "url \<Rightarrow> bool" where
  "proxy_isValid u \<longleftrightarrow> u_port u > 0 \<and> (u_scheme u = UNSPECIFIED \<or> u_scheme u = SOCKS5)"

definition proxy_host :: "url \<Rightarrow> cstr" where
  "proxy_host u = (if str_isNull (u_host u) \<and> proxy_isValid u then Some ''127.0.0.1'' else u_host u)"

definition proxy_toJSON :: "url \<Rightarrow> json" where
  "proxy_toJSON u =
     (if \<not> proxy_isValid u then JsNull
      else if \<not> str_isNull (u_host u) then str_toJSON (u_url u)
      else JsInt (uint (u_port u)))"

section \<open>Pool\<close>

datatype pool_mode = MODE_POOL | MODE_DAEMON | MODE_SELF_SELECT | MODE_AUTO_ETH

record pool =
  pl_algorithm :: algo_id
  pl_submitToOrigin :: bool
  pl_coin :: coin
  pl_keepAlive :: int
  pl_mode :: pool_mode
  pl_proxy :: url
  pl_enabled :: bool
  pl_nicehash :: bool
  pl_tls :: bool
  pl_sni :: bool
  pl_fingerprint :: cstr
  pl_password :: cstr
  pl_rigId :: cstr
  pl_user :: cstr
  pl_spendSecretKey :: cstr
  pl_pollInterval :: u64
  pl_jobTimeout :: u64
  pl_daemon :: url
  pl_url :: url
  pl_zmqPort :: int

definition kKeepAliveTimeout :: int where "kKeepAliveTimeout = 60"
definition kDefaultPollInterval :: int where "kDefaultPollInterval = 1000"
definition kDefaultJobTimeout :: int where "kDefaultJobTimeout = 15000"
definition kNicehashHost :: string where "kNicehashHost = ''nicehash.com''"

text \<open>\<open>Pool(url)\<close>, and with it every member that is not set otherwise.\<close>

definition pool_of_url :: "url \<Rightarrow> pool" where
  "pool_of_url u =
     \<lparr>pl_algorithm = ALGO_INVALID, pl_submitToOrigin = False, pl_coin = COIN_INVALID, pl_keepAlive = 0,
      pl_mode = MODE_POOL, pl_proxy = proxy_new, pl_enabled = True, pl_nicehash = False, pl_tls = False, pl_sni = False,
      pl_fingerprint = None, pl_password = None, pl_rigId = None, pl_user = None, pl_spendSecretKey = None,
      pl_pollInterval = of_int kDefaultPollInterval, pl_jobTimeout = of_int kDefaultJobTimeout, pl_daemon = url_new,
      pl_url = u, pl_zmqPort = - 1\<rparr>"

definition pool_of_text :: "cstr \<Rightarrow> pool" where
  "pool_of_text t = pool_of_url (snd (url_parse t url_new))"

text \<open>\<open>Pool(host, port, user, \<dots>)\<close>.\<close>

definition mk_pool ::
  "string \<Rightarrow> u16 \<Rightarrow> cstr \<Rightarrow> cstr \<Rightarrow> cstr \<Rightarrow> int \<Rightarrow> bool \<Rightarrow> bool \<Rightarrow> pool_mode \<Rightarrow> pool" where
  "mk_pool host port user password spendSecretKey keepAlive nicehash tls m =
     (pool_of_url (mk_url host port tls UNSPECIFIED))
       \<lparr>pl_keepAlive := keepAlive, pl_mode := m, pl_password := password, pl_user := user,
        pl_spendSecretKey := spendSecretKey, pl_nicehash := nicehash \<or> strstr host kNicehashHost \<noteq> None, pl_tls := tls\<rparr>"

definition pool_isValid :: "pool \<Rightarrow> bool" where
  "pool_isValid p \<longleftrightarrow> url_isValid (pl_url p)"

definition pool_isTLS :: "pool \<Rightarrow> bool" where
  "pool_isTLS p \<longleftrightarrow> pl_tls p \<or> u_tls (pl_url p)"

definition pool_isEnabled :: "pool \<Rightarrow> bool" where
  "pool_isEnabled p \<longleftrightarrow> pl_enabled p \<and> pool_isValid p"

definition pool_password :: "pool \<Rightarrow> cstr" where
  "pool_password p = (if \<not> str_isNull (pl_password p) then pl_password p else Some ''x'')"

definition pool_user :: "pool \<Rightarrow> cstr" where
  "pool_user p = (if \<not> str_isNull (pl_user p) then pl_user p else Some ''x'')"

definition setKeepAlive_int :: "int \<Rightarrow> pool \<Rightarrow> pool" where
  "setKeepAlive_int k p = p\<lparr>pl_keepAlive := if k \<ge> 0 then k else 0\<rparr>"

definition setKeepAlive_bool :: "bool \<Rightarrow> pool \<Rightarrow> pool" where
  "setKeepAlive_bool b p = setKeepAlive_int (if b then kKeepAliveTimeout else 0) p"

definition setKeepAlive :: "json \<Rightarrow> pool \<Rightarrow> pool" where
  "setKeepAlive v p =
     (case v of
        JsInt k \<Rightarrow> if is_int k then setKeepAlive_int k p else p
      | JsBool b \<Rightarrow> setKeepAlive_bool b p
      | _ \<Rightarrow> p)"

text \<open>\<open>Pool(object)\<close>.\<close>

definition pool_of_json :: "json \<Rightarrow> pool" where
  "pool_of_json v =
     (let u = snd (url_parse (getString v ''url'' None) url_new); p = pool_of_url u in
      if \<not> url_isValid u then p
      else
        let p = p\<lparr>pl_user := getString v ''user'' None, pl_spendSecretKey := getString v ''spend-secret-key'' None,
                  pl_password := getString v ''pass'' None, pl_rigId := getString v ''rig-id'' None,
                  pl_fingerprint := getString v ''tls-fingerprint'' None,
                  pl_pollInterval := of_int (getUint64 v ''daemon-poll-interval'' kDefaultPollInterval),
                  pl_jobTimeout := of_int (getUint64 v ''daemon-job-timeout'' kDefaultJobTimeout),
                  pl_algorithm := algo_parse (getString v ''algo'' None), pl_coin := coin_parse (getString v ''coin'' None),
                  pl_daemon := snd (url_parse (getString v ''self-select'' None) url_new),
                  pl_proxy := proxy_of_json (getValue v ''socks5''),
                  pl_zmqPort := getInt v ''daemon-zmq-port'' (- 1)\<rparr>;
            p = p\<lparr>pl_enabled := getBool v ''enabled'' True,
                  pl_nicehash := getBool v ''nicehash'' False \<or> str_contains (u_host u) kNicehashHost,
                  pl_tls := getBool v ''tls'' False \<or> u_tls u, pl_sni := getBool v ''sni'' False\<rparr>;
            p = setKeepAlive (getValue v ''keepalive'') p
        in if url_isValid (pl_daemon p)
           then p\<lparr>pl_mode := MODE_SELF_SELECT, pl_submitToOrigin := getBool v ''submit-to-origin'' (pl_submitToOrigin p)\<rparr>
           else if getBool v ''daemon'' False then p\<lparr>pl_mode := MODE_DAEMON\<rparr> else p)"

definition pool_isEqual :: "pool \<Rightarrow> pool \<Rightarrow> bool" where
  "pool_isEqual p q \<longleftrightarrow>
     (pl_enabled p = pl_enabled q \<and> pl_nicehash p = pl_nicehash q \<and> pl_tls p = pl_tls q \<and> pl_sni p = pl_sni q) \<and>
     pl_keepAlive p = pl_keepAlive q \<and> pl_algorithm p = pl_algorithm q \<and> pl_coin p = pl_coin q \<and> pl_mode p = pl_mode q \<and>
     str_isEqual (pl_fingerprint p) (pl_fingerprint q) \<and> str_isEqual (pl_password p) (pl_password q) \<and>
     str_isEqual (pl_rigId p) (pl_rigId q) \<and> url_isEqual (pl_url p) (pl_url q) \<and> str_isEqual (pl_user p) (pl_user q) \<and>
     pl_pollInterval p = pl_pollInterval q \<and> pl_jobTimeout p = pl_jobTimeout q \<and>
     url_isEqual (pl_daemon p) (pl_daemon q) \<and> url_isEqual (pl_proxy p) (pl_proxy q)"

datatype client_kind = KClient | KDaemonClient | KSelfSelectClient bool

text \<open>\<open>None\<close> is the null pointer.\<close>

definition createClient :: "pool \<Rightarrow> client_kind option" where
  "createClient p =
     (case pl_mode p of
        MODE_POOL \<Rightarrow> Some KClient
      | MODE_DAEMON \<Rightarrow> Some KDaemonClient
      | MODE_SELF_SELECT \<Rightarrow> Some (KSelfSelectClient (pl_submitToOrigin p))
      | MODE_AUTO_ETH \<Rightarrow> None)"

definition algo_toJSON :: "algo_id \<Rightarrow> json" where
  "algo_toJSON a = (if algo_isValid a then JsString (algo_name a) else JsNull)"

definition coin_toJSON :: "coin \<Rightarrow> json" where
  "coin_toJSON c = (if c \<noteq> COIN_INVALID then str_toJSON (coin_code c) else JsNull)"

definition pool_toJSON :: "pool \<Rightarrow> json" where
  "pool_toJSON p = JsObject
     ([(''algo'', algo_toJSON (pl_algorithm p)), (''coin'', coin_toJSON (pl_coin p)),
       (''url'', str_toJSON (u_url (pl_url p))), (''user'', str_toJSON (pl_user p))] @
      (if \<not> str_isEmpty (pl_spendSecretKey p) then [(''spend-secret-key'', str_toJSON (pl_spendSecretKey p))] else []) @
      (if pl_mode p \<noteq> MODE_DAEMON then
         [(''pass'', str_toJSON (pl_password p)), (''rig-id'', str_toJSON (pl_rigId p)),
          (''keepalive'', if pl_keepAlive p = 0 \<or> pl_keepAlive p = kKeepAliveTimeout then JsBool (pl_keepAlive p > 0)
                          else JsInt (pl_keepAlive p))]
       else []) @
      [(''enabled'', JsBool (pl_enabled p)), (''tls'', JsBool (pool_isTLS p)), (''sni'', JsBool (pl_sni p)),
       (''tls-fingerprint'', str_toJSON (pl_fingerprint p)), (''daemon'', JsBool (pl_mode p = MODE_DAEMON)),
       (''socks5'', proxy_toJSON (pl_proxy p))] @
      (if pl_mode p = MODE_DAEMON then
         [(''daemon-poll-interval'', JsInt (uint (pl_pollInterval p))),
          (''daemon-job-timeout'', JsInt (uint (pl_jobTimeout p))), (''daemon-zmq-port'', JsInt (pl_zmqPort p))]
       else
         [(''self-select'', str_toJSON (u_url (pl_daemon p))), (''submit-to-origin'', JsBool (pl_submitToOrigin p))]))"

section \<open>Pools\<close>

datatype proxy_donate = PROXY_DONATE_NONE | PROXY_DONATE_AUTO | PROXY_DONATE_ALWAYS

record pools =
  ps_donateLevel :: int
  ps_retries :: int
  ps_retryPause :: int
  ps_proxyDonate :: proxy_donate
  ps_data :: "pool list"

definition pools_new :: pools where
  "pools_new = \<lparr>ps_donateLevel = 0, ps_retries = 2, ps_retryPause = 1, ps_proxyDonate = PROXY_DONATE_AUTO, ps_data = []\<rparr>"

definition pools_isEqual :: "pools \<Rightarrow> pools \<Rightarrow> bool" where
  "pools_isEqual a b \<longleftrightarrow>
     \<not> (length (ps_data a) \<noteq> length (ps_data b) \<or> ps_retries a \<noteq> ps_retries b \<or> ps_retryPause a \<noteq> ps_retryPause b) \<and>
     list_all2 pool_isEqual (ps_data a) (ps_data b)"

definition pools_active :: "pools \<Rightarrow> nat" where
  "pools_active ps = length (List.filter pool_isEnabled (ps_data ps))"

datatype pool_strategy = SinglePool "pool single_pool" | Failover "pool failover"

text \<open>With exactly one enabled pool it is the strategy of a single pool.\<close>

definition createStrategy :: "pools \<Rightarrow> pool_strategy" where
  "createStrategy ps =
     (case (if pools_active ps = 1 then List.find pool_isEnabled (ps_data ps) else None) of
        Some pool \<Rightarrow> SinglePool (sg_new pool (ps_retryPause ps) (ps_retries ps) False)
      | None \<Rightarrow>
          Failover (fold (\<lambda>pool fs. if pool_isEnabled pool then fs_add pool fs else fs) (ps_data ps)
            (fs_empty (ps_retryPause ps) (ps_retries ps) False)))"

definition setDonateLevel :: "int \<Rightarrow> pools \<Rightarrow> pools" where
  "setDonateLevel level ps = (if level \<ge> 0 \<and> level \<le> 99 then ps\<lparr>ps_donateLevel := level\<rparr> else ps)"

definition setProxyDonate :: "int \<Rightarrow> pools \<Rightarrow> pools" where
  "setProxyDonate v ps =
     (if v = 0 then ps\<lparr>ps_proxyDonate := PROXY_DONATE_NONE\<rparr>
      else if v = 1 then ps\<lparr>ps_proxyDonate := PROXY_DONATE_AUTO\<rparr>
      else if v = 2 then ps\<lparr>ps_proxyDonate := PROXY_DONATE_ALWAYS\<rparr>
      else ps)"

definition setRetries :: "int \<Rightarrow> pools \<Rightarrow> pools" where
  "setRetries n ps = (if n > 0 \<and> n \<le> 1000 then ps\<lparr>ps_retries := n\<rparr> else ps)"

definition setRetryPause :: "int \<Rightarrow> pools \<Rightarrow> pools" where
  "setRetryPause n ps = (if n > 0 \<and> n \<le> 3600 then ps\<lparr>ps_retryPause := n\<rparr> else ps)"

text \<open>\<open>load\<close>: entries that are no objects or have no valid address are left out.\<close>

definition read_pools :: "json list \<Rightarrow> pool list" where
  "read_pools vs =
     List.filter pool_isValid (map pool_of_json (List.filter (\<lambda>v. case v of JsObject _ \<Rightarrow> True | _ \<Rightarrow> False) vs))"

definition pools_load :: "json \<Rightarrow> pools \<Rightarrow> pools" where
  "pools_load v ps =
     (let ps = ps\<lparr>ps_data := []\<rparr> in
      case getArray v ''pools'' of
        JsArray vs \<Rightarrow>
          let ps = ps\<lparr>ps_data := read_pools vs\<rparr>;
              ps = setDonateLevel (getInt v ''donate-level'' 0) ps;
              ps = setProxyDonate (getInt v ''donate-over-proxy'' 1) ps;
              ps = setRetries (getInt v ''retries'' 0) ps
          in setRetryPause (getInt v ''retry-pause'' 0) ps
      | _ \<Rightarrow> ps)"

definition pools_toJSON :: "pools \<Rightarrow> json" where
  "pools_toJSON ps = JsArray (map pool_toJSON (ps_data ps))"

fun proxyDonate_int :: "proxy_donate \<Rightarrow> int" where
  "proxyDonate_int PROXY_DONATE_NONE = 0"
| "proxyDonate_int PROXY_DONATE_AUTO = 1"
| "proxyDonate_int PROXY_DONATE_ALWAYS = 2"

text \<open>The members that are added to the document of the configuration.\<close>

definition pools_members :: "pools \<Rightarrow> (string \<times> json) list" where
  "pools_members ps =
     [(''donate-level'', JsInt (ps_donateLevel ps)), (''donate-over-proxy'', JsInt (proxyDonate_int (ps_proxyDonate ps))),
      (''pools'', pools_toJSON ps), (''retries'', JsInt (ps_retries ps)), (''retry-pause'', JsInt (ps_retryPause ps))]"

section \<open>Reading a pool back\<close>

text \<open>An address that has a text is what its text parses to.\<close>

lemma url_parse_text: "u_url u0 = None \<Longrightarrow> u_url (snd (url_parse t u0)) = None \<or> u_url (snd (url_parse t u0)) = t"
  by (auto simp: url_parse_def url_parseIPv6_def Let_def split: option.splits)

lemma url_parse_host: "u_url u0 = None \<Longrightarrow> u_host u0 = None \<Longrightarrow> u_host (snd (url_parse t u0)) \<noteq> None \<Longrightarrow>
    u_url (snd (url_parse t u0)) \<noteq> None"
  by (auto simp: url_parse_def url_parseIPv6_def Let_def split: option.splits if_splits)

lemma url_reparse:
  assumes "u = snd (url_parse t u0)" and "u_url u0 = None" and "u_url u \<noteq> None"
  shows "snd (url_parse (u_url u) u0) = u" and "u_url u = t"
  using url_parse_text [OF assms(2), of t] assms(1,3) by auto

lemma url_parse_valid: "u_url u0 = None \<Longrightarrow> u_host u0 = None \<Longrightarrow> url_isValid (snd (url_parse t u0)) \<Longrightarrow> u_url (snd (url_parse t u0)) = t"
  using url_parse_host [of u0 t] url_parse_text [of u0 t] by (auto simp: url_isValid_def str_isNull_def)

lemma url_new_simps [simp]: "u_url url_new = None" "u_host url_new = None" "u_url proxy_new = None" "u_host proxy_new = None"
  by (simp_all add: url_new_def proxy_new_def)

lemma algo_alias_names: "(a, i) \<in> set kAlgorithmAliases \<Longrightarrow> map_of kAlgorithmNames i \<noteq> None"
proof -
  have "list_all (\<lambda>(a, i). map_of kAlgorithmNames i \<noteq> None) kAlgorithmAliases" by code_simp
  then show "(a, i) \<in> set kAlgorithmAliases \<Longrightarrow> map_of kAlgorithmNames i \<noteq> None" by (auto simp: list_all_iff)
qed

lemma alias_find_in: "alias_find ts n = Some i \<Longrightarrow> \<exists>a. (a, i) \<in> set ts"
  by (induction ts n rule: alias_find.induct) (auto split: if_splits)

text \<open>What was parsed is written so that it parses to the same.\<close>

definition algo_text :: "algo_id \<Rightarrow> cstr" where
  "algo_text a = (if algo_isValid a then Some (algo_name a) else None)"

lemma algo_parse_again: "algo_parse (algo_text (algo_parse t)) = algo_parse t"
proof (cases "algo_parse t = ALGO_INVALID")
  case False
  then obtain n i where "t = Some n" "alias_find kAlgorithmAliases n = Some i" "algo_parse t = i"
    by (auto simp: algo_parse_def split: option.splits if_splits)
  then obtain m where m: "map_of kAlgorithmNames (algo_parse t) = Some m"
    using alias_find_in algo_alias_names by blast
  then have t: "(algo_parse t, m) \<in> set kAlgorithmNames" by (rule map_of_SomeD)
  from kAlgorithmNames_lower [OF t] have "map to_lower m = m" by simp
  with algo_parse_table [OF t] have "algo_parse (Some m) = algo_parse t" .
  moreover have "algo_isValid (algo_parse t)" "algo_name (algo_parse t) = m"
    using kAlgorithmNames_valid [OF t] algo_name_table [OF t] by simp_all
  ultimately show ?thesis by (simp add: algo_text_def)
qed (simp add: algo_text_def algo_parse_def algo_isValid_def)

definition coin_text :: "coin \<Rightarrow> cstr" where
  "coin_text c = (if c \<noteq> COIN_INVALID then coin_code c else None)"

lemma coin_parse_text: "coin_parse (coin_text c) = c"
  using coin_parse_code by (cases "c = COIN_INVALID") (auto simp: coin_text_def coin_parse_def)

lemma algo_toJSON_text: "algo_toJSON a = str_toJSON (algo_text a)"
  by (simp add: algo_toJSON_def algo_text_def str_toJSON_def)

lemma coin_toJSON_text: "coin_toJSON c = str_toJSON (coin_text c)"
  by (cases c) (simp_all add: coin_toJSON_def coin_text_def str_toJSON_def coin_code_def)

lemma kAlgorithmNames_plain: "(i, n) \<in> set kAlgorithmNames \<Longrightarrow> nul \<notin> set n"
proof -
  have "list_all (\<lambda>(i, n). nul \<notin> set n) kAlgorithmNames" by code_simp
  then show "(i, n) \<in> set kAlgorithmNames \<Longrightarrow> nul \<notin> set n" by (auto simp: list_all_iff)
qed

lemma plain_texts: "no_nul (algo_text a)" "no_nul (coin_text c)"
proof -
  show "no_nul (algo_text a)"
    using kAlgorithmNames_plain by (auto simp: algo_text_def no_nul_def algo_name_def dest!: map_of_SomeD split: option.splits)
  show "no_nul (coin_text c)" by (cases c) (simp_all add: coin_text_def no_nul_def coin_code_def)
qed

text \<open>The members of the written object.\<close>

lemma pool_json_find:
  "json_find (pool_toJSON p) ''algo'' = Some (str_toJSON (algo_text (pl_algorithm p)))"
  "json_find (pool_toJSON p) ''coin'' = Some (str_toJSON (coin_text (pl_coin p)))"
  "json_find (pool_toJSON p) ''url'' = Some (str_toJSON (u_url (pl_url p)))"
  "json_find (pool_toJSON p) ''user'' = Some (str_toJSON (pl_user p))"
  "json_find (pool_toJSON p) ''spend-secret-key'' =
     (if str_isEmpty (pl_spendSecretKey p) then None else Some (str_toJSON (pl_spendSecretKey p)))"
  "json_find (pool_toJSON p) ''nicehash'' = None"
  "json_find (pool_toJSON p) ''enabled'' = Some (JsBool (pl_enabled p))"
  "json_find (pool_toJSON p) ''tls'' = Some (JsBool (pool_isTLS p))"
  "json_find (pool_toJSON p) ''sni'' = Some (JsBool (pl_sni p))"
  "json_find (pool_toJSON p) ''tls-fingerprint'' = Some (str_toJSON (pl_fingerprint p))"
  "json_find (pool_toJSON p) ''daemon'' = Some (JsBool (pl_mode p = MODE_DAEMON))"
  "json_find (pool_toJSON p) ''socks5'' = Some (proxy_toJSON (pl_proxy p))"
  by (simp_all add: pool_toJSON_def json_find_def algo_toJSON_text coin_toJSON_text)

lemma pool_json_find_mode:
  "json_find (pool_toJSON p) ''pass'' = (if pl_mode p = MODE_DAEMON then None else Some (str_toJSON (pl_password p)))"
  "json_find (pool_toJSON p) ''rig-id'' = (if pl_mode p = MODE_DAEMON then None else Some (str_toJSON (pl_rigId p)))"
  "json_find (pool_toJSON p) ''keepalive'' =
     (if pl_mode p = MODE_DAEMON then None
      else Some (if pl_keepAlive p = 0 \<or> pl_keepAlive p = kKeepAliveTimeout then JsBool (pl_keepAlive p > 0)
                 else JsInt (pl_keepAlive p)))"
  "json_find (pool_toJSON p) ''daemon-poll-interval'' =
     (if pl_mode p = MODE_DAEMON then Some (JsInt (uint (pl_pollInterval p))) else None)"
  "json_find (pool_toJSON p) ''daemon-job-timeout'' =
     (if pl_mode p = MODE_DAEMON then Some (JsInt (uint (pl_jobTimeout p))) else None)"
  "json_find (pool_toJSON p) ''daemon-zmq-port'' = (if pl_mode p = MODE_DAEMON then Some (JsInt (pl_zmqPort p)) else None)"
  "json_find (pool_toJSON p) ''self-select'' = (if pl_mode p = MODE_DAEMON then None else Some (str_toJSON (u_url (pl_daemon p))))"
  "json_find (pool_toJSON p) ''submit-to-origin'' = (if pl_mode p = MODE_DAEMON then None else Some (JsBool (pl_submitToOrigin p)))"
  by (simp_all add: pool_toJSON_def json_find_def)

text \<open>What is true of every pool that was read.\<close>

definition pool_read :: "pool \<Rightarrow> bool" where
  "pool_read p \<longleftrightarrow>
     (\<exists>t. pl_algorithm p = algo_parse t) \<and> (\<exists>t. no_nul t \<and> pl_url p = snd (url_parse t url_new)) \<and>
     (\<exists>t. no_nul t \<and> pl_daemon p = snd (url_parse t url_new)) \<and> (\<exists>v. pl_proxy p = proxy_of_json v) \<and>
     no_nul (pl_user p) \<and> no_nul (pl_password p) \<and> no_nul (pl_rigId p) \<and> no_nul (pl_fingerprint p) \<and>
     no_nul (pl_spendSecretKey p) \<and> 0 \<le> pl_keepAlive p \<and> pl_keepAlive p < 2 ^ 31 \<and> is_int (pl_zmqPort p) \<and>
     (u_tls (pl_url p) \<longrightarrow> pl_tls p) \<and> (str_contains (u_host (pl_url p)) kNicehashHost \<longrightarrow> pl_nicehash p) \<and>
     (pl_mode p = MODE_SELF_SELECT \<longleftrightarrow> url_isValid (pl_daemon p)) \<and> pl_mode p \<noteq> MODE_AUTO_ETH"

lemma setKeepAlive_fields: "setKeepAlive v p = p\<lparr>pl_keepAlive := pl_keepAlive (setKeepAlive v p)\<rparr>"
  by (auto simp: setKeepAlive_def setKeepAlive_int_def setKeepAlive_bool_def split: json.splits)

lemma setKeepAlive_range: "0 \<le> pl_keepAlive p \<Longrightarrow> pl_keepAlive p < 2 ^ 31 \<Longrightarrow>
    0 \<le> pl_keepAlive (setKeepAlive v p) \<and> pl_keepAlive (setKeepAlive v p) < 2 ^ 31"
  by (auto simp: setKeepAlive_def setKeepAlive_int_def setKeepAlive_bool_def kKeepAliveTimeout_def is_int_def split: json.splits)

lemma plain_getString: "no_nul (getString v key None)"
  by (rule getString_plain) (simp add: no_nul_def)

lemma pool_of_json_read:
  assumes "pool_isValid (pool_of_json v)"
  shows "pool_read (pool_of_json v)"
proof -
  define u where "u = snd (url_parse (getString v ''url'' None) url_new)"
  have valid: "url_isValid u"
  proof (rule ccontr)
    assume n: "\<not> url_isValid u"
    then have "pool_of_json v = pool_of_url u" by (simp add: pool_of_json_def u_def Let_def)
    then show False using assms n by (simp add: pool_isValid_def pool_of_url_def)
  qed
  define q where "q = (pool_of_url u)\<lparr>pl_user := getString v ''user'' None, pl_spendSecretKey := getString v ''spend-secret-key'' None,
      pl_password := getString v ''pass'' None, pl_rigId := getString v ''rig-id'' None,
      pl_fingerprint := getString v ''tls-fingerprint'' None,
      pl_pollInterval := of_int (getUint64 v ''daemon-poll-interval'' kDefaultPollInterval),
      pl_jobTimeout := of_int (getUint64 v ''daemon-job-timeout'' kDefaultJobTimeout),
      pl_algorithm := algo_parse (getString v ''algo'' None), pl_coin := coin_parse (getString v ''coin'' None),
      pl_daemon := snd (url_parse (getString v ''self-select'' None) url_new),
      pl_proxy := proxy_of_json (getValue v ''socks5''),
      pl_zmqPort := getInt v ''daemon-zmq-port'' (- 1), pl_enabled := getBool v ''enabled'' True,
      pl_nicehash := getBool v ''nicehash'' False \<or> str_contains (u_host u) kNicehashHost,
      pl_tls := getBool v ''tls'' False \<or> u_tls u, pl_sni := getBool v ''sni'' False\<rparr>"
  define k where "k = pl_keepAlive (setKeepAlive (getValue v ''keepalive'') q)"
  have k: "0 \<le> k" "k < 2 ^ 31" using setKeepAlive_range [of q] by (simp_all add: k_def q_def pool_of_url_def)
  have e: "pool_of_json v =
      (let p = q\<lparr>pl_keepAlive := k\<rparr> in
       if url_isValid (pl_daemon p)
       then p\<lparr>pl_mode := MODE_SELF_SELECT, pl_submitToOrigin := getBool v ''submit-to-origin'' (pl_submitToOrigin p)\<rparr>
       else if getBool v ''daemon'' False then p\<lparr>pl_mode := MODE_DAEMON\<rparr> else p)"
    using valid setKeepAlive_fields [of "getValue v ''keepalive''" q]
    by (simp add: pool_of_json_def u_def [symmetric] k_def [symmetric] q_def [symmetric] Let_def)
  have z: "is_int (getInt v ''daemon-zmq-port'' (- 1))" unfolding getInt_def by (rule get_number_range) (simp add: is_int_def)
  show ?thesis
    unfolding e Let_def pool_read_def
    using k z plain_getString by (auto simp: q_def pool_of_url_def u_def)
qed

section \<open>The round trip\<close>

text \<open>What the written object can express: a daemon has no password, rig identifier, keep-alive and daemon of
  its own, another pool no polling; the nicehash flag comes from the host; addresses are complete.\<close>

definition pool_expressible :: "pool \<Rightarrow> bool" where
  "pool_expressible p \<longleftrightarrow>
     (pl_nicehash p \<longrightarrow> str_contains (u_host (pl_url p)) kNicehashHost) \<and>
     (u_url (pl_daemon p) = None \<longrightarrow> pl_daemon p = url_new) \<and> (proxy_isValid (pl_proxy p) \<or> pl_proxy p = proxy_new) \<and>
     (if pl_mode p = MODE_DAEMON
      then pl_password p = None \<and> pl_rigId p = None \<and> pl_keepAlive p = 0 \<and> pl_daemon p = url_new
      else pl_pollInterval p = of_int kDefaultPollInterval \<and> pl_jobTimeout p = of_int kDefaultJobTimeout)"

lemma url_parse_None [simp]: "url_parse None u = (False, u)"
  by (simp add: url_parse_def)

lemma proxy_round: "proxy_isValid (proxy_of_json v) \<Longrightarrow> proxy_of_json (proxy_toJSON (proxy_of_json v)) = proxy_of_json v"
proof (cases v)
  case (JsString t)
  let ?u = "snd (url_parse (Some (c_string t)) proxy_new)"
  assume a: "proxy_isValid (proxy_of_json v)"
  show ?thesis
  proof (cases "u_host ?u = None")
    case True
    have "u_port ?u = 0"
      using True by (auto simp: url_parse_def url_parseIPv6_def proxy_new_def Let_def split: option.splits if_splits)
    then show ?thesis using a JsString by (simp add: proxy_of_json_def proxy_isValid_def)
  next
    case False
    then have "u_url ?u = Some (c_string t)" using url_parse_host [of proxy_new] url_parse_text [of proxy_new] by (metis url_new_simps(3,4))
    then show ?thesis using a False JsString by (simp add: proxy_of_json_def proxy_toJSON_def str_isNull_def str_toJSON_def)
  qed
next
  case (JsInt k)
  assume a: "proxy_isValid (proxy_of_json v)"
  then have i: "is_uint k" using JsInt by (auto simp: proxy_of_json_def proxy_isValid_def proxy_new_def split: if_splits)
  have "uint (of_int k :: u16) < 2 ^ 32" using uint_lt2p [of "of_int k :: u16"] by simp
  then have "is_uint (uint (of_int k :: u16))" by (simp add: is_uint_def)
  then show ?thesis using a i JsInt by (simp add: proxy_of_json_def proxy_toJSON_def str_isNull_def)
qed (simp_all add: proxy_of_json_def proxy_isValid_def proxy_new_def)

lemma getUint64_uint: "json_find v key = Some (JsInt (uint (w :: u64))) \<Longrightarrow> of_int (getUint64 v key d) = w"
  using uint_lt2p [of w] by (simp add: getUint64_def get_number_def is_uint64_def)

lemma keepAlive_round:
  assumes "0 \<le> k" and "k < 2 ^ 31"
  shows "pl_keepAlive (setKeepAlive (if k = 0 \<or> k = kKeepAliveTimeout then JsBool (k > 0) else JsInt k) p) = k"
  using assms by (auto simp: setKeepAlive_def setKeepAlive_int_def setKeepAlive_bool_def is_int_def kKeepAliveTimeout_def)

lemma pool_reads_back:
  assumes valid: "pool_isValid p" and r: "pool_read p" and x: "pool_expressible p"
  shows "pool_isEqual (pool_of_json (pool_toJSON p)) p"
    and "pl_spendSecretKey p \<noteq> Some [] \<Longrightarrow> pl_spendSecretKey (pool_of_json (pool_toJSON p)) = pl_spendSecretKey p"
proof -
  let ?v = "pool_toJSON p"
  have pt: "no_nul (u_url (snd (url_parse t url_new)))" if "no_nul t" for t
    using url_parse_text [OF url_new_simps(1), of t]
  proof
    assume "u_url (snd (url_parse t url_new)) = None"
    then show ?thesis by (simp add: no_nul_def)
  next
    assume "u_url (snd (url_parse t url_new)) = t"
    then show ?thesis by (simp only: that)
  qed
  moreover obtain t1 where t1: "no_nul t1" "pl_url p = snd (url_parse t1 url_new)" using r unfolding pool_read_def by blast
  moreover obtain t2 where t2: "no_nul t2" "pl_daemon p = snd (url_parse t2 url_new)" using r unfolding pool_read_def by blast
  ultimately have pl: "no_nul (u_url (pl_url p))" "no_nul (u_url (pl_daemon p))" by metis+
  have rp: "no_nul (pl_user p)" "no_nul (pl_password p)" "no_nul (pl_rigId p)" "no_nul (pl_fingerprint p)"
    "no_nul (pl_spendSecretKey p)" "0 \<le> pl_keepAlive p" "pl_keepAlive p < 2 ^ 31" "is_int (pl_zmqPort p)"
    using r unfolding pool_read_def by blast+
  have url: "snd (url_parse (getString ?v ''url'' None) url_new) = pl_url p"
  proof -
    have "url_isValid (snd (url_parse t1 url_new))" using valid t1(2) by (simp add: pool_isValid_def)
    then have "u_url (pl_url p) = t1" using url_parse_valid [of url_new] t1(2) by simp
    then show ?thesis using getString_toJSON [OF pool_json_find(3) pl(1)] t1(2) by simp
  qed
  have strings: "getString ?v ''user'' None = pl_user p" "getString ?v ''tls-fingerprint'' None = pl_fingerprint p"
    "algo_parse (getString ?v ''algo'' None) = pl_algorithm p" "coin_parse (getString ?v ''coin'' None) = pl_coin p"
  proof -
    show "getString ?v ''user'' None = pl_user p" by (rule getString_toJSON [OF pool_json_find(4) rp(1)])
    show "getString ?v ''tls-fingerprint'' None = pl_fingerprint p" by (rule getString_toJSON [OF pool_json_find(10) rp(4)])
    obtain t where "pl_algorithm p = algo_parse t" using r unfolding pool_read_def by blast
    then show "algo_parse (getString ?v ''algo'' None) = pl_algorithm p"
      unfolding getString_toJSON [OF pool_json_find(1) plain_texts(1)] by (simp only: algo_parse_again)
    show "coin_parse (getString ?v ''coin'' None) = pl_coin p"
      unfolding getString_toJSON [OF pool_json_find(2) plain_texts(2)] by (rule coin_parse_text)
  qed
  have key: "getString ?v ''spend-secret-key'' None = (if str_isEmpty (pl_spendSecretKey p) then None else pl_spendSecretKey p)"
    using getString_toJSON [of ?v "''spend-secret-key''" "pl_spendSecretKey p"] rp(5)
    by (simp add: pool_json_find getString_None)
  have proxy: "proxy_of_json (getValue ?v ''socks5'') = pl_proxy p"
  proof -
    have g: "getValue ?v ''socks5'' = proxy_toJSON (pl_proxy p)" by (simp add: getValue_def pool_json_find)
    obtain w where w: "pl_proxy p = proxy_of_json w" using r by (auto simp: pool_read_def)
    have n: "proxy_of_json (proxy_toJSON proxy_new) = proxy_new"
      by (simp add: proxy_toJSON_def proxy_isValid_def proxy_new_def proxy_of_json_def)
    consider "proxy_isValid (pl_proxy p)" | "pl_proxy p = proxy_new" using x unfolding pool_expressible_def by blast
    then show ?thesis using proxy_round [of w] w g n by cases metis+
  qed
  have bools: "getBool ?v ''enabled'' True = pl_enabled p" "getBool ?v ''nicehash'' False = False"
    "getBool ?v ''tls'' False = (pl_tls p \<or> u_tls (pl_url p))" "getBool ?v ''sni'' False = pl_sni p"
    "getBool ?v ''daemon'' False = (pl_mode p = MODE_DAEMON)"
    by (simp_all add: getBool_def pool_json_find pool_isTLS_def)
  have nh: "str_contains (u_host (pl_url p)) kNicehashHost = pl_nicehash p" "(pl_tls p \<or> u_tls (pl_url p)) = pl_tls p"
    using r x by (auto simp: pool_read_def pool_expressible_def)
  have dm: "snd (url_parse (getString ?v ''self-select'' None) url_new) = pl_daemon p"
  proof (cases "pl_mode p = MODE_DAEMON")
    case True
    then show ?thesis using x by (simp add: getString_None pool_json_find_mode pool_expressible_def)
  next
    case False
    then have g: "getString ?v ''self-select'' None = u_url (pl_daemon p)"
      using getString_toJSON [OF _ pl(2), of ?v "''self-select''"] by (simp add: pool_json_find_mode)
    show ?thesis
    proof (cases "u_url (pl_daemon p) = None")
      case True
      then show ?thesis using x g by (simp add: pool_expressible_def)
    next
      case False
      then show ?thesis using g url_reparse(1) [OF t2(2) url_new_simps(1)] by simp
    qed
  qed
  have rest: "getString ?v ''pass'' None = pl_password p" "getString ?v ''rig-id'' None = pl_rigId p"
    "of_int (getUint64 ?v ''daemon-poll-interval'' kDefaultPollInterval) = pl_pollInterval p"
    "of_int (getUint64 ?v ''daemon-job-timeout'' kDefaultJobTimeout) = pl_jobTimeout p"
    "pl_keepAlive (setKeepAlive (getValue ?v ''keepalive'') q) = pl_keepAlive p" if "pl_keepAlive q = 0" for q
    using rp x that getString_toJSON [of ?v "''pass''" "pl_password p"] getString_toJSON [of ?v "''rig-id''" "pl_rigId p"]
      getUint64_uint [of ?v "''daemon-poll-interval''" "pl_pollInterval p"] getUint64_uint [of ?v "''daemon-job-timeout''" "pl_jobTimeout p"]
      keepAlive_round [of "pl_keepAlive p" q]
    by (cases "pl_mode p = MODE_DAEMON";
        simp add: pool_json_find_mode pool_expressible_def getString_None getValue_def getUint64_def get_number_def
          setKeepAlive_def)+
  have valid': "url_isValid (pl_url p)" using valid by (simp add: pool_isValid_def)
  define q where "q = (pool_of_url (pl_url p))\<lparr>pl_user := pl_user p, pl_spendSecretKey := getString ?v ''spend-secret-key'' None,
      pl_password := pl_password p, pl_rigId := pl_rigId p, pl_fingerprint := pl_fingerprint p,
      pl_pollInterval := pl_pollInterval p, pl_jobTimeout := pl_jobTimeout p, pl_algorithm := pl_algorithm p,
      pl_coin := pl_coin p, pl_daemon := pl_daemon p, pl_proxy := pl_proxy p,
      pl_zmqPort := getInt ?v ''daemon-zmq-port'' (- 1), pl_enabled := pl_enabled p, pl_nicehash := pl_nicehash p,
      pl_tls := pl_tls p, pl_sni := pl_sni p\<rparr>"
  have q0: "pl_keepAlive q = 0" and qd: "pl_daemon q = pl_daemon p" by (simp_all add: q_def pool_of_url_def)
  have e: "pool_of_json ?v =
      (let p' = q\<lparr>pl_keepAlive := pl_keepAlive p\<rparr> in
       if url_isValid (pl_daemon p)
       then p'\<lparr>pl_mode := MODE_SELF_SELECT, pl_submitToOrigin := getBool ?v ''submit-to-origin'' (pl_submitToOrigin p')\<rparr>
       else if pl_mode p = MODE_DAEMON then p'\<lparr>pl_mode := MODE_DAEMON\<rparr> else p')"
    using valid' setKeepAlive_fields [of "getValue ?v ''keepalive''" q] rest(5) [OF q0]
    by (simp add: pool_of_json_def url strings proxy bools nh dm rest(1-4) [OF q0] q_def [symmetric] qd Let_def)
  have m: "url_isValid (pl_daemon p) \<longleftrightarrow> pl_mode p = MODE_SELF_SELECT" "pl_mode p \<noteq> MODE_AUTO_ETH"
    using r by (simp_all add: pool_read_def)
  show "pool_isEqual (pool_of_json ?v) p"
    unfolding e Let_def using m by (cases "pl_mode p") (auto simp: pool_isEqual_def url_isEqual_def q_def pool_of_url_def)
  show "pl_spendSecretKey (pool_of_json ?v) = pl_spendSecretKey p" if "pl_spendSecretKey p \<noteq> Some []"
    unfolding e Let_def using that key by (auto simp: q_def str_isEmpty_def str_size_def split: option.splits)
qed

section \<open>Comparing\<close>

text \<open>A change of the spend key, of the ZeroMQ port or of the target of the shares is not a change of the pool,
  and a change of the donation level none of the pools: \<open>onConfigChanged\<close> does not reload them.\<close>

lemma pool_isEqual_refl [simp]: "pool_isEqual p p"
  by (simp add: pool_isEqual_def url_isEqual_def)

lemma pool_isEqual_blind:
  "pool_isEqual (p\<lparr>pl_spendSecretKey := k, pl_zmqPort := z, pl_submitToOrigin := b\<rparr>) p"
  by (simp add: pool_isEqual_def url_isEqual_def)

lemma pools_isEqual_blind:
  assumes "ps_data ps = as @ p # bs"
  shows "pools_isEqual (ps\<lparr>ps_data := as @ p\<lparr>pl_spendSecretKey := k\<rparr> # bs, ps_donateLevel := l\<rparr>) ps"
proof -
  have "list_all2 pool_isEqual as as" "list_all2 pool_isEqual bs bs" by (simp_all add: list_all2_same)
  moreover have "pool_isEqual (p\<lparr>pl_spendSecretKey := k\<rparr>) p" by (simp add: pool_isEqual_def url_isEqual_def)
  ultimately show ?thesis using assms by (simp add: pools_isEqual_def list_all2_append)
qed

section \<open>The strategy of the configuration\<close>

lemma find_filter: "List.find P xs = (case List.filter P xs of [] \<Rightarrow> None | x # _ \<Rightarrow> Some x)"
  by (induction xs) auto

lemma fold_enabled: "fold (\<lambda>pool fs. if pool_isEnabled pool then fs_add pool fs else fs) ps fs =
    fold fs_add (List.filter pool_isEnabled ps) fs"
  by (induction ps arbitrary: fs) simp_all

text \<open>The strategy uses exactly the enabled pools, in their order.\<close>

lemma createStrategy_pools:
  "createStrategy ps = (case List.filter pool_isEnabled (ps_data ps) of
     [p] \<Rightarrow> SinglePool (sg_new p (ps_retryPause ps) (ps_retries ps) False)
   | en \<Rightarrow> Failover (fs_new en (ps_retryPause ps) (ps_retries ps) False))"
  by (auto simp: createStrategy_def pools_active_def find_filter fold_enabled fs_new_def split: list.splits)

text \<open>The bounds of the settings.\<close>

definition pools_ok :: "pools \<Rightarrow> bool" where
  "pools_ok ps \<longleftrightarrow> 0 \<le> ps_donateLevel ps \<and> ps_donateLevel ps \<le> 99 \<and> 0 < ps_retries ps \<and> ps_retries ps \<le> 1000 \<and>
     0 < ps_retryPause ps \<and> ps_retryPause ps \<le> 3600 \<and> (\<forall>p \<in> set (ps_data ps). pool_isValid p \<and> pool_read p)"

lemma pools_load_ok: "pools_ok ps \<Longrightarrow> pools_ok (pools_load v ps)"
proof -
  assume ok: "pools_ok ps"
  have rd: "\<forall>p \<in> set (read_pools vs). pool_isValid p \<and> pool_read p" for vs
    using pool_of_json_read by (auto simp: read_pools_def)
  have "pools_ok (setDonateLevel l ps)" "pools_ok (setProxyDonate l ps)" "pools_ok (setRetries l ps)" "pools_ok (setRetryPause l ps)"
    if "pools_ok ps" for l ps
    using that by (simp_all add: pools_ok_def setDonateLevel_def setProxyDonate_def setRetries_def setRetryPause_def)
  moreover have "pools_ok (ps\<lparr>ps_data := read_pools vs\<rparr>)" "pools_ok (ps\<lparr>ps_data := []\<rparr>)" for vs
    using ok rd by (simp_all add: pools_ok_def)
  ultimately show ?thesis by (auto simp: pools_load_def Let_def split: json.splits)
qed

lemma pools_new_ok: "pools_ok pools_new"
  by (simp add: pools_ok_def pools_new_def)

end
