(* ===== verification/ExtraNonce.thy ===== *)
theory ExtraNonce
  imports Mapper Pools
begin

text \<open>
  The extra-nonce splitter (\<open>src/proxy/splitters/extra_nonce/ExtraNonceStorage.cpp\<close>,
  \<open>ExtraNonceMapper.cpp\<close>, \<open>ExtraNonceSplitter.cpp\<close>): one upstream, a daemon, and every miner of it
  gets the job with an extra nonce of its own. The counter of extra nonces starts again with every job,
  so its 64 bits are never exhausted and it is an integer here. The ordered map of miners is the
  ascending list of their identifiers. The last sections say what a member is sent: the message built from the
  job of the pool with the extra nonce of the member, and transactions that differ between members.
\<close>

section \<open>ExtraNonceStorage\<close>

record extra_storage =
  es_active :: bool
  es_job :: job
  es_prevJob :: job
  es_miners :: "int list"
  es_extraNonce :: int

definition es_new :: extra_storage where
  "es_new = \<lparr>es_active = False, es_job = job_default, es_prevJob = job_default, es_miners = [], es_extraNonce = 0\<rparr>"

definition es_add :: "env \<Rightarrow> int \<Rightarrow> proc \<Rightarrow> extra_storage \<Rightarrow> bool \<times> proc \<times> extra_storage" where
  "es_add env i p es =
     (let es = es\<lparr>es_miners := miners_add i (es_miners es)\<rparr> in
      if es_active es then
        let (job, p) = proc_setJob env i (es_job es) (es_extraNonce es) p
        in (True, p, es\<lparr>es_job := job, es_extraNonce := es_extraNonce es + 1\<rparr>)
      else (True, p, es))"

definition es_isValidJobId :: "cstr \<Rightarrow> extra_storage \<Rightarrow> counters \<Rightarrow> bool \<times> counters" where
  "es_isValidJobId i es c = known_job (es_job es) (es_prevJob es) i c"

definition es_miner :: "int \<Rightarrow> extra_storage \<Rightarrow> int option" where
  "es_miner i es = (if i \<in> set (es_miners es) then Some i else None)"

definition es_remove :: "int \<Rightarrow> extra_storage \<Rightarrow> extra_storage" where
  "es_remove i es = es\<lparr>es_miners := miners_remove i (es_miners es)\<rparr>"

definition es_reset :: "extra_storage \<Rightarrow> extra_storage" where
  "es_reset es = es"

text \<open>The loop that sends the job: the job is written by every miner it is sent to.\<close>

fun es_send :: "env \<Rightarrow> int list \<Rightarrow> job \<Rightarrow> int \<Rightarrow> proc \<Rightarrow> job \<times> int \<times> proc" where
  "es_send env [] job x p = (job, x, p)"
| "es_send env (i # is) job x p =
     (let (job, p) = proc_setJob env i job x p in es_send env is job (x + 1) p)"

definition es_setJob :: "env \<Rightarrow> job \<Rightarrow> proc \<Rightarrow> extra_storage \<Rightarrow> proc \<times> extra_storage" where
  "es_setJob env job p es =
     (let es = es\<lparr>es_prevJob := next_prevJob (es_prevJob es) (es_job es) job\<rparr>;
          es = es\<lparr>es_job := job_copy (es_job es) job\<rparr>;
          es = es\<lparr>es_extraNonce := 0\<rparr>;
          (job, x, p) = es_send env (es_miners es) (es_job es) (es_extraNonce es) p
      in (p, es\<lparr>es_job := job, es_extraNonce := x\<rparr>))"

definition es_setActive :: "bool \<Rightarrow> extra_storage \<Rightarrow> extra_storage" where
  "es_setActive b es = es\<lparr>es_active := b\<rparr>"

section \<open>ExtraNonceMapper\<close>

record extra_mapper =
  em_donate :: "donate option"
  em_suspended :: nat
  em_pending :: "strategy option"
  em_strategy :: strategy
  em_storage :: extra_storage
  em_results :: results
  em_calls :: "strategy_call list"

definition em_call :: "strategy_call \<Rightarrow> extra_mapper \<Rightarrow> extra_mapper" where
  "em_call c em = em\<lparr>em_calls := em_calls em @ [c]\<rparr>"

text \<open>\<open>h\<close> is the strategy the configured pools create, \<open>dr\<close> a random number.\<close>

definition em_new :: "config \<Rightarrow> strategy \<Rightarrow> rat \<Rightarrow> extra_mapper" where
  "em_new cfg h dr =
     \<lparr>em_donate = (if cfg_donateLevel cfg > 0 then Some (ds_new (cfg_donateLevel cfg) dr) else None),
      em_suspended = 0, em_pending = None, em_strategy = h, em_storage = es_new, em_results = Map.empty,
      em_calls = [SCreate h]\<rparr>"

definition em_isSuspended :: "extra_mapper \<Rightarrow> bool" where
  "em_isSuspended em \<longleftrightarrow> em_suspended em > 0"

definition em_isActive :: "extra_mapper \<Rightarrow> bool" where
  "em_isActive em \<longleftrightarrow> es_active (em_storage em) \<and> \<not> em_isSuspended em"

definition em_connect :: "extra_mapper \<Rightarrow> extra_mapper" where
  "em_connect em =
     (let em = em_call (SConnect (em_strategy em)) (em\<lparr>em_suspended := 0\<rparr>)
      in em\<lparr>em_donate := map_option ds_connect (em_donate em)\<rparr>)"

definition em_start :: "extra_mapper \<Rightarrow> extra_mapper" where
  "em_start em = em_connect em"

definition em_suspend :: "extra_mapper \<Rightarrow> extra_mapper" where
  "em_suspend em =
     (let em = em\<lparr>em_suspended := 1, em_storage := es_reset (es_setActive False (em_storage em))\<rparr>;
          em = em_call (SStop (em_strategy em)) em
      in em\<lparr>em_donate := map_option ds_stop (em_donate em)\<rparr>)"

definition em_add :: "env \<Rightarrow> config \<Rightarrow> int \<Rightarrow> proc \<Rightarrow> extra_mapper \<Rightarrow> bool \<times> proc \<times> extra_mapper" where
  "em_add env cfg i p em =
     (let p = upd_miner (\<lambda>m. m\<lparr>m_ext_algo := hasAlgoExt cfg\<rparr>) i p;
          (ok, p, es) = es_add env i p (em_storage em);
          em = em\<lparr>em_storage := es\<rparr>
      in if \<not> ok then (False, p, em)
         else
           let em = (if em_isSuspended em then em_connect em else em)
           in (True, upd_miner (\<lambda>m. m\<lparr>m_mapperId := 0\<rparr>) i p, em))"

definition em_gc :: "extra_mapper \<Rightarrow> extra_mapper" where
  "em_gc em = (if em_isSuspended em then em\<lparr>em_suspended := em_suspended em + 1\<rparr> else em)"

definition em_reload :: "strategy \<Rightarrow> extra_mapper \<Rightarrow> extra_mapper" where
  "em_reload h em =
     (let em = (case em_pending em of Some s \<Rightarrow> em_call (SDelete s) em | None \<Rightarrow> em);
          em = em_call (SCreate h) (em\<lparr>em_pending := Some h\<rparr>)
      in em_call (SConnect h) em)"

definition em_remove :: "int \<Rightarrow> extra_mapper \<Rightarrow> extra_mapper" where
  "em_remove i em = em\<lparr>em_storage := es_remove i (em_storage em)\<rparr>"

text \<open>\<open>seq\<close> is what the strategy's \<open>submit\<close> returns.\<close>

definition em_submit :: "int \<Rightarrow> submit_event \<Rightarrow> proc \<Rightarrow> extra_mapper \<Rightarrow> submit_event \<times> proc \<times> extra_mapper" where
  "em_submit seq ev p em =
     (let es = em_storage em;
          (err, c) = share_verdict (es_active es) (es_job es) (es_prevJob es) (se_request ev) (p_cnt p);
          p = p\<lparr>p_cnt := c\<rparr> in
      if err \<noteq> NoError then (ev\<lparr>se_error := err\<rparr>, p, em)
      else
        let req = (se_request ev)\<lparr>jr_diff := j_diff (es_job es)\<rparr>;
            em = (case em_donate em of
                    Some d \<Rightarrow> if ds_active d then em\<lparr>em_donate := Some (ds_submit req d)\<rparr>
                              else em_call (SSubmit (em_strategy em) req) em
                  | None \<Rightarrow> em_call (SSubmit (em_strategy em) req) em)
        in (ev, p, em\<lparr>em_results := (em_results em)(seq \<mapsto> ctx_new (jr_id req) (se_miner ev))\<rparr>))"

definition em_setJob :: "env \<Rightarrow> job \<Rightarrow> proc \<Rightarrow> extra_mapper \<Rightarrow> proc \<times> extra_mapper" where
  "em_setJob env job p em = (let (p, es) = es_setJob env job p (em_storage em) in (p, em\<lparr>em_storage := es\<rparr>))"

definition em_tick :: "env \<Rightarrow> config \<Rightarrow> u64 \<Rightarrow> proc \<Rightarrow> extra_mapper \<Rightarrow> proc \<times> extra_mapper" where
  "em_tick env cfg now p em =
     (let em = em_call (STick (em_strategy em) now) em in
      case em_donate em of
        None \<Rightarrow> (p, em)
      | Some d \<Rightarrow>
          let d = ds_tick now d in
          if ds_active d \<and> ds_hasPendingJob d then
            let (res, d) = ds_reschedule (cfg_donateLevel cfg) d; em = em\<lparr>em_donate := Some d\<rparr>
            in if res then em_setJob env (ds_pendingJob d) p em else (p, em)
          else (p, em\<lparr>em_donate := Some d\<rparr>))"

definition em_onActive :: "strategy \<Rightarrow> int \<Rightarrow> extra_mapper \<Rightarrow> extra_mapper" where
  "em_onActive s client em =
     (let em = em\<lparr>em_storage := es_setActive True (em_storage em)\<rparr> in
      if client = - 1 then em
      else if em_pending em = Some s
      then (em_call (SDelete (em_strategy em)) em)\<lparr>em_strategy := s, em_pending := None\<rparr>
      else em)"

definition em_onJob ::
  "env \<Rightarrow> config \<Rightarrow> int \<Rightarrow> cstr \<Rightarrow> u16 \<Rightarrow> job \<Rightarrow> proc \<Rightarrow> extra_mapper \<Rightarrow> proc \<times> extra_mapper" where
  "em_onJob env cfg client host port job p em =
     (case em_donate em of
        None \<Rightarrow> em_setJob env job p em
      | Some d \<Rightarrow>
          if ds_active d \<and> client \<noteq> - 1 then
            let (res, d) = ds_reschedule (cfg_donateLevel cfg) d in
            if \<not> res then (p, em\<lparr>em_donate := Some (ds_save host port job d)\<rparr>)
            else em_setJob env job p (em\<lparr>em_donate := Some (ds_setAlgo (j_algorithm job) d)\<rparr>)
          else em_setJob env job p (em\<lparr>em_donate := Some (ds_setAlgo (j_algorithm job) d)\<rparr>))"

definition em_onPause :: "extra_mapper \<Rightarrow> extra_mapper" where
  "em_onPause em = em\<lparr>em_storage := es_setActive False (em_storage em)\<rparr>"

definition em_submitCtx :: "int \<Rightarrow> extra_mapper \<Rightarrow> submit_ctx \<times> extra_mapper" where
  "em_submitCtx seq em =
     (let (ctx, rs) = take_ctx (\<lambda>i. es_miner i (em_storage em)) seq (em_results em) in (ctx, em\<lparr>em_results := rs\<rparr>))"

text \<open>\<open>onResultAccepted\<close>: the accept event (its handlers run next), then the reply.\<close>

definition em_onResultAccepted ::
  "env \<Rightarrow> (accept_event \<Rightarrow> proc \<Rightarrow> proc) \<Rightarrow> int \<Rightarrow> submit_result \<Rightarrow> cstr \<Rightarrow> proc \<Rightarrow> extra_mapper \<Rightarrow> proc \<times> extra_mapper" where
  "em_onResultAccepted env start client result err p em =
     (let (ctx, em) = em_submitCtx (sr_seq result) em;
          p = start \<lparr>ae_mapperId = 0, ae_miner = sc_miner ctx, ae_result = result, ae_donate = (client = - 1),
                     ae_customDiff = False, ae_error = err\<rparr> p
      in case sc_miner ctx of
           None \<Rightarrow> (p, em)
         | Some i \<Rightarrow>
             (case err of
                Some e \<Rightarrow> (on_miner (replyWithError env (sc_id ctx) e) i p, em)
              | None \<Rightarrow> (on_miner (success env (sc_id ctx) ''OK'') i p, em)))"

section \<open>ExtraNonceSplitter\<close>

text \<open>\<open>Create\<close> fails when one of the pools is not a daemon.\<close>

definition xs_create :: "pools \<Rightarrow> bool" where
  "xs_create ps \<longleftrightarrow> list_all (\<lambda>p. pl_mode p = MODE_DAEMON) (ps_data ps)"

definition xs_upstreams :: "extra_mapper \<Rightarrow> upstreams" where
  "xs_upstreams em =
     mk_upstreams (if em_isActive em then 1 else 0) (if em_isSuspended em then 1 else 0) 1"

definition xs_connect :: "config \<Rightarrow> strategy \<Rightarrow> rat \<Rightarrow> extra_mapper" where
  "xs_connect cfg h dr = em_start (em_new cfg h dr)"

lemma em_add_True: "fst (em_add env cfg i p em)"
  by (simp add: em_add_def es_add_def Let_def case_prod_beta)

text \<open>The handler of the login event calls itself when the upstream refuses the miner, after it has
  replaced the upstream; no upstream refuses one.\<close>

function xs_place :: "env \<Rightarrow> config \<Rightarrow> strategy \<Rightarrow> rat \<Rightarrow> int \<Rightarrow> proc \<Rightarrow> extra_mapper \<Rightarrow> proc \<times> extra_mapper" where
  "xs_place env cfg h dr i p em =
     (let (ok, p, em) = em_add env cfg i p em in
      if ok then (p, em) else xs_place env cfg h dr i p (xs_connect cfg h dr))"
  by pat_completeness auto
termination
proof (relation "{}", simp)
  fix env cfg h dr i p em x ok y p' em'
  assume "x = em_add env cfg i p em" "(ok, y) = x" "(p', em') = y" "\<not> ok"
  then have "\<not> fst (em_add env cfg i p em)" by (metis fst_conv)
  then show "((env, cfg, h, dr, i, p', xs_connect cfg h dr), env, cfg, h, dr, i, p, em) \<in> {}"
    using em_add_True by blast
qed

declare xs_place.simps [simp del]

definition xs_login ::
  "env \<Rightarrow> config \<Rightarrow> strategy \<Rightarrow> rat \<Rightarrow> login_event \<Rightarrow> proc \<Rightarrow> extra_mapper \<Rightarrow> proc \<times> extra_mapper" where
  "xs_login env cfg h dr ev p em =
     (case p_objs p (le_miner ev) of
        None \<Rightarrow> (p\<lparr>p_fault := True\<rparr>, em)
      | Some m \<Rightarrow> if m_routeId m \<noteq> - 1 then (p, em) else xs_place env cfg h dr (le_miner ev) p em)"

definition xs_remove :: "int \<Rightarrow> proc \<Rightarrow> extra_mapper \<Rightarrow> proc \<times> extra_mapper" where
  "xs_remove i p em =
     (case p_objs p i of
        None \<Rightarrow> (p\<lparr>p_fault := True\<rparr>, em)
      | Some m \<Rightarrow> if m_mapperId m < 0 \<or> m_routeId m \<noteq> - 1 then (p, em) else (p, em_remove i em))"

definition xs_submit :: "int \<Rightarrow> submit_event \<Rightarrow> proc \<Rightarrow> extra_mapper \<Rightarrow> submit_event \<times> proc \<times> extra_mapper" where
  "xs_submit seq ev p em =
     (case p_objs p (se_miner ev) of
        None \<Rightarrow> (ev, p\<lparr>p_fault := True\<rparr>, em)
      | Some m \<Rightarrow> if m_mapperId m < 0 \<or> m_routeId m \<noteq> - 1 then (ev, p, em) else em_submit seq ev p em)"

text \<open>The configuration was reloaded.\<close>

definition xs_onConfigChanged :: "pools \<Rightarrow> pools \<Rightarrow> strategy \<Rightarrow> extra_mapper \<Rightarrow> extra_mapper" where
  "xs_onConfigChanged ps prev h em = (if \<not> pools_isEqual ps prev then em_reload h em else em)"

lemma xs_place_add: "xs_place env cfg h dr i p em = snd (em_add env cfg i p em)"
  using em_add_True [of env cfg i p em] by (simp add: xs_place.simps case_prod_beta)

text \<open>The callbacks of the donation strategy of the upstream.\<close>

definition em_donate_onClose :: "extra_mapper \<Rightarrow> extra_mapper" where
  "em_donate_onClose em =
     (case em_donate em of
        None \<Rightarrow> em
      | Some d \<Rightarrow>
          let (was_active, d) = ds_onClose d; em = em\<lparr>em_donate := Some d\<rparr>
          in if was_active then em_onPause em else em)"

definition em_donate_onJob ::
  "env \<Rightarrow> config \<Rightarrow> cstr \<Rightarrow> u16 \<Rightarrow> job \<Rightarrow> proc \<Rightarrow> extra_mapper \<Rightarrow> proc \<times> extra_mapper" where
  "em_donate_onJob env cfg host port job p em =
     (case em_donate em of
        None \<Rightarrow> (p, em)
      | Some d \<Rightarrow>
          let (first, d) = ds_onJobReceived d; em = em\<lparr>em_donate := Some d\<rparr>;
              em = (if first then em_onActive (em_strategy em) (- 1) em else em)
          in em_onJob env cfg (- 1) host port job p em)"

section \<open>The extra nonce of a miner\<close>

text \<open>Only a job with an extra nonce changes it.\<close>

lemma extraNonce_simps [frame_simps]:
  "m_extraNonce (heartbeat env m) = m_extraNonce m"
  "m_extraNonce (fst (setState env st s)) = m_extraNonce (fst s)"
  "m_extraNonce (fst (shutdown env e s)) = m_extraNonce (fst s)"
  "m_extraNonce (fst (send_size env n x s)) = m_extraNonce (fst s)"
  "m_extraNonce (fst (send_doc env x s)) = m_extraNonce (fst s)"
  "m_extraNonce (fst (replyWithError env i msg s)) = m_extraNonce (fst s)"
  "m_extraNonce (fst (success env i msg s)) = m_extraNonce (fst s)"
proof -
  show h: "m_extraNonce (heartbeat env m) = m_extraNonce m" for m by (simp add: heartbeat_def)
  show st: "m_extraNonce (fst (setState env st s)) = m_extraNonce (fst s)" for st s
    by (simp add: setState_def case_prod_beta Let_def h)
  show sh: "m_extraNonce (fst (shutdown env e s)) = m_extraNonce (fst s)" for e s
    using st [of ClosingState s] by (simp add: shutdown_def case_prod_beta Let_def)
  show ss: "m_extraNonce (fst (send_size env n x s)) = m_extraNonce (fst s)" for n x s
    by (simp add: send_size_def case_prod_beta Let_def sh)
  show "m_extraNonce (fst (send_doc env x s)) = m_extraNonce (fst s)"
    by (simp add: send_doc_def Let_def sh ss)
  show "m_extraNonce (fst (replyWithError env i msg s)) = m_extraNonce (fst s)"
    "m_extraNonce (fst (success env i msg s)) = m_extraNonce (fst s)"
    by (simp_all add: replyWithError_def success_def ss)
qed

lemma sendJob_extraNonce [frame_simps]:
  "m_extraNonce (fst (sendJob env blob i t a h sh sk s)) = m_extraNonce (fst s)"
  using extraNonce_simps(2) [of env ReadyState s]
  by (simp add: sendJob_def Let_def case_prod_beta frame_simps)

lemma setJob_keys_extraNonce: "setJob_keys env x m job = Some (m', job') \<Longrightarrow> 0 \<le> x \<Longrightarrow> m_extraNonce m' = x"
  by (auto simp: setJob_keys_def split: option.splits if_splits prod.splits)

lemma setJob_extraNonce:
  assumes "setJob env job x s = Some (job', s')" and "0 \<le> x"
  shows "m_extraNonce (fst s') = x"
  using assms setJob_keys_extraNonce
  by (cases s) (fastforce simp: setJob_def Let_def frame_simps split: option.splits)

text \<open>A miner gets the job with the extra nonce it was sent with, or memory was corrupted.\<close>

lemma proc_setJob_extra:
  assumes "proc_setJob env i job x p = (job', p')" and "0 \<le> x"
  shows "p_fault p' \<or> (\<exists>m. p_objs p' i = Some m \<and> m_extraNonce m = x)" "j \<noteq> i \<Longrightarrow> p_objs p' j = p_objs p j"
    "p_fault p \<Longrightarrow> p_fault p'"
  using assms setJob_extraNonce
  by (fastforce simp: proc_setJob_def put_miner_def split: option.splits)+

lemma es_send_extra:
  assumes "es_send env is job x p = (job', y, p')" and "0 \<le> x" and "distinct is"
  shows "y = x + int (length is) \<and> (p_fault p \<longrightarrow> p_fault p') \<and> (\<forall>j. j \<notin> set is \<longrightarrow> p_objs p' j = p_objs p j) \<and>
    (p_fault p' \<or> (\<forall>k < length is. \<exists>m. p_objs p' (is ! k) = Some m \<and> m_extraNonce m = x + int k))"
  using assms
proof (induction "is" arbitrary: job x p)
  case (Cons i "is")
  obtain job1 p1 where s: "proc_setJob env i job x p = (job1, p1)" by fastforce
  note e = proc_setJob_extra [OF s Cons.prems(2)]
  have "es_send env is job1 (x + 1) p1 = (job', y, p')" using Cons.prems(1) s by simp
  from Cons.IH [OF this] Cons.prems(2,3)
  have ih: "y = x + 1 + int (length is)" "p_fault p1 \<longrightarrow> p_fault p'" "\<And>j. j \<notin> set is \<Longrightarrow> p_objs p' j = p_objs p1 j"
    "p_fault p' \<or> (\<forall>k < length is. \<exists>m. p_objs p' (is ! k) = Some m \<and> m_extraNonce m = x + 1 + int k)"
    by auto
  have "p_fault p' \<or> (\<exists>m. p_objs p' ((i # is) ! k) = Some m \<and> m_extraNonce m = x + int k)"
    if "k < length (i # is)" for k
  proof (cases k)
    case 0
    have "i \<notin> set is" using Cons.prems(3) by simp
    then show ?thesis using e(1) ih(2,3) 0 by auto
  next
    case (Suc l)
    then show ?thesis using ih(4) that by (auto simp: algebra_simps)
  qed
  then show ?case using ih e(2,3) by auto
qed simp

lemma es_send_frame: "proc_frame p (snd (snd (es_send env is job x p))) \<and> proc_same miner_view p (snd (snd (es_send env is job x p)))"
proof (induction "is" arbitrary: job x p)
  case (Cons i "is")
  obtain job1 p1 where s: "proc_setJob env i job x p = (job1, p1)" by fastforce
  have "proc_frame p p1" "proc_same miner_view p p1"
    using proc_setJob_frame [of p env i job x] proc_setJob_same [of p env i job x] s by simp_all
  with Cons.IH [of p1 job1 "x + 1"] proc_frame_trans proc_same_trans
  have "proc_frame p (snd (snd (es_send env is job1 (x + 1) p1)))"
    "proc_same miner_view p (snd (snd (es_send env is job1 (x + 1) p1)))"
    by blast+
  then show ?case by (simp add: s)
qed simp

section \<open>Runs of the splitter\<close>

text \<open>The events of a run after \<open>connect\<close>. The close callback deletes the miner after the close event. \<open>XsProc p\<close> is everything the rest of the proxy does to its
  miners, which may do anything but touch the extra nonce and the placement of one; the argument of
  \<open>XsResult\<close> is what the listeners of the accept event do.\<close>

datatype xs_event =
    XsLogin login_event
  | XsClose int
  | XsSubmit int submit_event
  | XsTick u64
  | XsGc
  | XsConfig pools pools strategy
  | XsActive strategy int
  | XsPause
  | XsJob int cstr u16 job
  | XsResult "accept_event \<Rightarrow> proc \<Rightarrow> proc" int submit_result cstr
  | XsDonateClose
  | XsDonateJob cstr u16 job
  | XsProc proc

type_synonym xs_state = "proc \<times> extra_mapper"

fun xs_step :: "env \<Rightarrow> config \<Rightarrow> strategy \<Rightarrow> rat \<Rightarrow> xs_state \<Rightarrow> xs_event \<Rightarrow> xs_state" where
  "xs_step env cfg h dr (p, em) (XsLogin ev) = xs_login env cfg h dr ev p em"
| "xs_step env cfg h dr (p, em) (XsClose i) = (let (p, em) = xs_remove i p em in (proc_delete i p, em))"
| "xs_step env cfg h dr (p, em) (XsSubmit seq ev) = snd (xs_submit seq ev p em)"
| "xs_step env cfg h dr (p, em) (XsTick now) = em_tick env cfg now p em"
| "xs_step env cfg h dr (p, em) XsGc = (p, em_gc em)"
| "xs_step env cfg h dr (p, em) (XsConfig ps prev h') = (p, xs_onConfigChanged ps prev h' em)"
| "xs_step env cfg h dr (p, em) (XsActive s client) = (p, em_onActive s client em)"
| "xs_step env cfg h dr (p, em) XsPause = (p, em_onPause em)"
| "xs_step env cfg h dr (p, em) (XsJob client host port job) = em_onJob env cfg client host port job p em"
| "xs_step env cfg h dr (p, em) (XsResult start client result err) = em_onResultAccepted env start client result err p em"
| "xs_step env cfg h dr (p, em) XsDonateClose = (p, em_donate_onClose em)"
| "xs_step env cfg h dr (p, em) (XsDonateJob host port job) = em_donate_onJob env cfg host port job p em"
| "xs_step env cfg h dr (p, em) (XsProc p') = (p', em)"

abbreviation em_members :: "extra_mapper \<Rightarrow> int list" where
  "em_members em \<equiv> es_miners (em_storage em)"

text \<open>What the upstream knows of a miner.\<close>

definition xs_view :: "miner \<Rightarrow> int \<times> int \<times> int" where
  "xs_view m = (m_extraNonce m, m_mapperId m, m_routeId m)"

text \<open>What the rest of the proxy may do: the members stay what they are, no other miner is placed.\<close>

definition xs_rely :: "int list \<Rightarrow> proc \<Rightarrow> proc \<Rightarrow> bool" where
  "xs_rely ms p p' \<longleftrightarrow> (p_fault p \<longrightarrow> p_fault p') \<and>
     (\<forall>i. if i \<in> set ms then map_option xs_view (p_objs p' i) = map_option xs_view (p_objs p i)
          else placed_miner (p_objs p' i) \<longrightarrow> placed_miner (p_objs p i))"

text \<open>A miner that logs in is new: it has no upstream and no extra nonce.\<close>

fun xs_ok :: "xs_state \<Rightarrow> xs_event \<Rightarrow> bool" where
  "xs_ok (p, em) (XsLogin ev) =
     (case p_objs p (le_miner ev) of None \<Rightarrow> False | Some m \<Rightarrow> m_mapperId m < 0 \<and> m_extraNonce m = - 1)"
| "xs_ok (p, em) (XsClose i) = (p_objs p i \<noteq> None)"
| "xs_ok (p, em) (XsResult start client result err) = (\<forall>ae. xs_rely (em_members em) p (start ae p))"
| "xs_ok (p, em) (XsProc p') = xs_rely (em_members em) p p'"
| "xs_ok _ _ = True"

section \<open>The invariant\<close>

text \<open>Two members never have the same extra nonce, and the next one is new.\<close>

definition xs_distinct :: "proc \<Rightarrow> extra_storage \<Rightarrow> bool" where
  "xs_distinct p es \<longleftrightarrow>
     (\<forall>i \<in> set (es_miners es). \<forall>m. p_objs p i = Some m \<longrightarrow> - 1 \<le> m_extraNonce m \<and> m_extraNonce m < es_extraNonce es) \<and>
     (\<forall>i \<in> set (es_miners es). \<forall>j \<in> set (es_miners es). \<forall>m m'. i \<noteq> j \<longrightarrow> p_objs p i = Some m \<longrightarrow> p_objs p j = Some m' \<longrightarrow>
        m_extraNonce m = m_extraNonce m' \<longrightarrow> m_extraNonce m = - 1)"

definition xs_inv :: "xs_state \<Rightarrow> bool" where
  "xs_inv s \<longleftrightarrow> (case s of (p, em) \<Rightarrow>
     em_suspended em = 0 \<and> sorted (em_members em) \<and> distinct (em_members em) \<and> 0 \<le> es_extraNonce (em_storage em) \<and>
     (\<forall>i. placed_miner (p_objs p i) \<longrightarrow> i \<in> set (em_members em)) \<and>
     (\<forall>i \<in> set (em_members em). placed_miner (p_objs p i)) \<and>
     (\<not> p_fault p \<longrightarrow> xs_distinct p (em_storage em)))"

lemma xs_distinct_range:
  assumes "xs_distinct p es" and "i \<in> set (es_miners es)" and "p_objs p i = Some m" and "m_extraNonce m \<noteq> - 1"
  shows "0 \<le> m_extraNonce m \<and> m_extraNonce m < es_extraNonce es"
  using assms unfolding xs_distinct_def by force

lemma xs_invD:
  assumes "xs_inv (p, em)"
  shows "em_suspended em = 0" and "sorted (em_members em)" and "distinct (em_members em)"
    and "0 \<le> es_extraNonce (em_storage em)" and "placed_miner (p_objs p i) \<Longrightarrow> i \<in> set (em_members em)"
    and "i \<in> set (em_members em) \<Longrightarrow> placed_miner (p_objs p i)"
    and "\<not> p_fault p \<Longrightarrow> xs_distinct p (em_storage em)"
  using assms by (simp_all add: xs_inv_def)

lemma xs_invI:
  assumes "em_suspended em = 0" and "sorted (em_members em)" and "distinct (em_members em)"
    and "0 \<le> es_extraNonce (em_storage em)" and "\<And>i. placed_miner (p_objs p i) \<Longrightarrow> i \<in> set (em_members em)"
    and "\<And>i. i \<in> set (em_members em) \<Longrightarrow> placed_miner (p_objs p i)"
    and "\<not> p_fault p \<Longrightarrow> xs_distinct p (em_storage em)"
  shows "xs_inv (p, em)"
  unfolding xs_inv_def prod.case using assms by blast

lemma view_placed: "map_option xs_view a = map_option xs_view b \<Longrightarrow> placed_miner a = placed_miner b"
  by (cases a; cases b) (auto simp: xs_view_def placed_miner_def)

lemma xs_distinct_rely:
  assumes "xs_distinct p es" and "xs_rely (es_miners es) p p'"
  shows "xs_distinct p' es"
proof -
  have v: "\<exists>n. p_objs p i = Some n \<and> m_extraNonce n = m_extraNonce m" if "i \<in> set (es_miners es)" "p_objs p' i = Some m" for i m
    using assms(2) that by (cases "p_objs p i") (auto simp: xs_rely_def xs_view_def dest!: spec [of _ i])
  show ?thesis
    unfolding xs_distinct_def
  proof (intro conjI ballI allI impI)
    fix i m
    assume i: "i \<in> set (es_miners es)" "p_objs p' i = Some m"
    from v [OF this] obtain n where n: "p_objs p i = Some n" "m_extraNonce n = m_extraNonce m" by blast
    then show "- 1 \<le> m_extraNonce m" "m_extraNonce m < es_extraNonce es"
      using assms(1) i(1) by (auto simp: xs_distinct_def)
    fix j m'
    assume j: "j \<in> set (es_miners es)" "i \<noteq> j" "p_objs p' j = Some m'" "m_extraNonce m = m_extraNonce m'"
    from v [OF j(1,3)] obtain n' where "p_objs p j = Some n'" "m_extraNonce n' = m_extraNonce m'" by blast
    then show "m_extraNonce m = - 1" using assms(1) i(1) j n unfolding xs_distinct_def by metis
  qed
qed

text \<open>The two shapes of a step that adds no miner: the rest of the proxy moves, and the upstream keeps its
  members and its counter; or the upstream sends a job.\<close>

lemma xs_inv_rely:
  assumes inv: "xs_inv (p, em)" and r: "xs_rely (em_members em) p p'"
    and e: "em_suspended em' = 0" "em_members em' = em_members em"
      "es_extraNonce (em_storage em') = es_extraNonce (em_storage em)"
  shows "xs_inv (p', em')"
proof (rule xs_invI)
  note I = xs_invD [OF inv]
  show "em_suspended em' = 0" "sorted (em_members em')" "distinct (em_members em')"
    "0 \<le> es_extraNonce (em_storage em')"
    using e I(2-4) by simp_all
  fix i
  have same: "placed_miner (p_objs p' i) = placed_miner (p_objs p i)" if "i \<in> set (em_members em)"
    using view_placed r that by (metis xs_rely_def)
  show "i \<in> set (em_members em') \<Longrightarrow> placed_miner (p_objs p' i)" using same I(6) e(2) by simp
  show "placed_miner (p_objs p' i) \<Longrightarrow> i \<in> set (em_members em')"
    using I(5) [of i] r e(2) unfolding xs_rely_def by (metis (full_types))
next
  assume nf: "\<not> p_fault p'"
  then have "\<not> p_fault p" using r by (auto simp: xs_rely_def)
  then have "xs_distinct p' (em_storage em)" using xs_distinct_rely [OF _ r] xs_invD(7) [OF inv] by simp
  then show "xs_distinct p' (em_storage em')" by (simp add: xs_distinct_def e)
qed

lemma xs_rely_same: "p_objs p' = p_objs p \<Longrightarrow> (p_fault p \<Longrightarrow> p_fault p') \<Longrightarrow> xs_rely ms p p'"
  by (auto simp: xs_rely_def)

lemma es_setJob_fields:
  assumes "es_setJob env job p es = (p', es')"
  obtains job0 job' where "es_send env (es_miners es) job0 0 p = (job', es_extraNonce es', p')"
    and "es_miners es' = es_miners es" and "es_active es' = es_active es"
  using assms by (auto simp: es_setJob_def Let_def split: prod.splits)

text \<open>A job gives the members the extra nonces \<open>0, 1, \<dots>\<close> in the order of their identifiers.\<close>

lemma es_setJob_extra:
  assumes "es_setJob env job p es = (p', es')" and "distinct (es_miners es)"
  shows "es_miners es' = es_miners es" "es_extraNonce es' = int (length (es_miners es))"
    "p_fault p' \<or> (\<forall>k < length (es_miners es). \<exists>m. p_objs p' (es_miners es ! k) = Some m \<and> m_extraNonce m = int k)"
    "p_fault p \<Longrightarrow> p_fault p'"
proof -
  from es_setJob_fields [OF assms(1)] obtain job0 job' where
    s: "es_send env (es_miners es) job0 0 p = (job', es_extraNonce es', p')" and m: "es_miners es' = es_miners es" .
  from es_send_extra [OF s _ assms(2)] m
  show "es_miners es' = es_miners es" "es_extraNonce es' = int (length (es_miners es))"
    "p_fault p' \<or> (\<forall>k < length (es_miners es). \<exists>m. p_objs p' (es_miners es ! k) = Some m \<and> m_extraNonce m = int k)"
    "p_fault p \<Longrightarrow> p_fault p'"
    by simp_all
qed

lemma es_setJob_frame:
  assumes "es_setJob env job p es = (p', es')"
  shows "proc_frame p p'" "proc_same miner_view p p'"
proof -
  from es_setJob_fields [OF assms] obtain job0 job' where
    "es_send env (es_miners es) job0 0 p = (job', es_extraNonce es', p')" .
  with es_send_frame [of p env "es_miners es" job0 0] show "proc_frame p p'" "proc_same miner_view p p'" by simp_all
qed

lemma miner_view_placed: "proc_same miner_view p p' \<Longrightarrow> placed_miner (p_objs p' i) = placed_miner (p_objs p i)"
  unfolding proc_same_def miner_view_def miner_core_def placed_miner_def
  by (drule spec [of _ i]) (auto split: option.splits)

lemma xs_inv_setJob:
  assumes inv: "xs_inv (p, em)" and s: "em_setJob env job p em = (p', em')"
  shows "xs_inv (p', em')"
proof -
  obtain es' where e: "es_setJob env job p (em_storage em) = (p', es')" "em' = em\<lparr>em_storage := es'\<rparr>"
    using s by (auto simp: em_setJob_def split: prod.splits)
  have d: "distinct (em_members em)" using inv by (simp add: xs_inv_def)
  note x = es_setJob_extra [OF e(1) d] and f = es_setJob_frame [OF e(1)]
  have "xs_distinct p' es'" if nf: "\<not> p_fault p'"
  proof -
    have n: "m_extraNonce m = int k" if "k < length (em_members em)" "p_objs p' (em_members em ! k) = Some m" for k m
      using x(3) nf that by fastforce
    show ?thesis
      unfolding xs_distinct_def x(1,2)
    proof (intro conjI ballI allI impI)
      fix i m
      assume i: "i \<in> set (em_members em)" "p_objs p' i = Some m"
      then obtain k where k: "k < length (em_members em)" "em_members em ! k = i" by (auto simp: in_set_conv_nth)
      then show "- 1 \<le> m_extraNonce m" "m_extraNonce m < int (length (em_members em))" using n i by auto
      fix j m'
      assume j: "j \<in> set (em_members em)" "i \<noteq> j" "p_objs p' j = Some m'" "m_extraNonce m = m_extraNonce m'"
      then obtain l where "l < length (em_members em)" "em_members em ! l = j" by (auto simp: in_set_conv_nth)
      then show "m_extraNonce m = - 1" using n i j k by fastforce
    qed
  qed
  then show ?thesis
    using xs_invD [OF inv] x(1,2) miner_view_placed [OF f(2)] by (intro xs_invI) (simp_all add: e(2))
qed

section \<open>Joining and leaving\<close>

text \<open>The miners after one has joined: the others are untouched, the new one is placed, and if it got a job
  it has the extra nonce of the counter.\<close>

lemma em_add_miners:
  assumes add: "em_add env cfg i p em = (ok, p', em')" and m: "p_objs p i = Some m" and x: "0 \<le> es_extraNonce (em_storage em)"
  shows "em_members em' = miners_add i (em_members em)"
    and "es_extraNonce (em_storage em') = es_extraNonce (em_storage em) + of_bool (es_active (em_storage em))"
    and "em_suspended em' = 0" and "p_fault p \<Longrightarrow> p_fault p'" and "j \<noteq> i \<Longrightarrow> p_objs p' j = p_objs p j"
    and "\<exists>m'. p_objs p' i = Some m' \<and> m_mapperId m' = 0 \<and> m_routeId m' = m_routeId m \<and>
      (p_fault p' \<or> m_extraNonce m' = (if es_active (em_storage em) then es_extraNonce (em_storage em) else m_extraNonce m))"
proof -
  let ?g = "\<lambda>m. m\<lparr>m_ext_algo := hasAlgoExt cfg\<rparr>" and ?h = "\<lambda>m. m\<lparr>m_mapperId := 0\<rparr>"
  let ?p1 = "upd_miner ?g i p" and ?es = "(em_storage em)\<lparr>es_miners := miners_add i (em_members em)\<rparr>"
  have objs: "p_objs (upd_miner f i q) j = (if j = i then map_option f (p_objs q i) else p_objs q j)" for f q j
    by (auto simp: upd_miner_def on_miner_def put_miner_def split: option.splits)
  have flt: "p_objs q i \<noteq> None \<Longrightarrow> p_fault (upd_miner f i q) = p_fault q" for f q
    by (auto simp: upd_miner_def on_miner_def put_miner_def)
  obtain job' p2 where s: "proc_setJob env i (es_job (em_storage em)) (es_extraNonce (em_storage em)) ?p1 = (job', p2)"
    by fastforce
  note e = proc_setJob_extra [OF s x]
  have v: "map_option miner_view (p_objs p2 i) = map_option miner_view (p_objs ?p1 i)"
    using proc_setJob_same [of ?p1 env i "es_job (em_storage em)" "es_extraNonce (em_storage em)"] s by (simp add: proc_same_def)
  then obtain m2 where m2: "p_objs p2 i = Some m2" "m_routeId m2 = m_routeId m"
    using m by (auto simp: objs miner_view_def miner_core_def)
  let ?q = "if es_active (em_storage em) then p2 else ?p1"
  have p': "p' = upd_miner ?h i ?q"
    using add s by (simp add: em_add_def es_add_def Let_def split: if_splits prod.splits)
  show "em_members em' = miners_add i (em_members em)"
    "es_extraNonce (em_storage em') = es_extraNonce (em_storage em) + of_bool (es_active (em_storage em))"
    "em_suspended em' = 0"
    using add s
    by (auto simp: em_add_def es_add_def Let_def em_connect_def em_call_def em_isSuspended_def split: if_splits prod.splits)
  have f: "p_fault p' = p_fault ?q" unfolding p' by (rule flt) (simp add: m2(1) objs m)
  show "p_fault p \<Longrightarrow> p_fault p'" unfolding f using e(3) flt [of p ?g] m by simp
  show "j \<noteq> i \<Longrightarrow> p_objs p' j = p_objs p j" unfolding p' objs using e(2) [of j] by (simp add: objs)
  have "p_objs p' i = map_option ?h (p_objs ?q i)" by (simp add: p' objs)
  then show "\<exists>m'. p_objs p' i = Some m' \<and> m_mapperId m' = 0 \<and> m_routeId m' = m_routeId m \<and>
      (p_fault p' \<or> m_extraNonce m' = (if es_active (em_storage em) then es_extraNonce (em_storage em) else m_extraNonce m))"
    unfolding f using m2 e(1) m by (cases "es_active (em_storage em)") (auto simp: objs)
qed

lemma xs_inv_add:
  assumes inv: "xs_inv (p, em)" and m: "p_objs p i = Some m" "m_mapperId m < 0" "m_extraNonce m = - 1" "m_routeId m = - 1"
    and add: "em_add env cfg i p em = (ok, p', em')"
  shows "xs_inv (p', em')"
proof (rule xs_invI)
  note I = xs_invD [OF inv] and A = em_add_miners [OF add m(1) xs_invD(4) [OF inv]]
  have new: "i \<notin> set (em_members em)" using I(6) m(1,2) by (force simp: placed_miner_def)
  from A(6) obtain m' where m': "p_objs p' i = Some m'" "m_mapperId m' = 0" "m_routeId m' = - 1"
    "p_fault p' \<or> m_extraNonce m' = (if es_active (em_storage em) then es_extraNonce (em_storage em) else - 1)"
    using m(3,4) by auto
  have set: "set (em_members em') = insert i (set (em_members em))"
    unfolding A(1) miners_add_def by (rule set_insort_insert)
  show "em_suspended em' = 0" by (rule A(3))
  show "sorted (em_members em')" "distinct (em_members em')"
    unfolding A(1) miners_add_def by (rule sorted_insort_insert [OF I(2)], rule distinct_insort_insert [OF I(3)])
  show x: "0 \<le> es_extraNonce (em_storage em')" using A(2) I(4) by simp
  fix j
  show "placed_miner (p_objs p' j) \<Longrightarrow> j \<in> set (em_members em')" using I(5) A(5) set by (cases "j = i") auto
  show "j \<in> set (em_members em') \<Longrightarrow> placed_miner (p_objs p' j)"
    using I(6) A(5) set m' by (cases "j = i") (auto simp: placed_miner_def)
next
  note I = xs_invD [OF inv] and A = em_add_miners [OF add m(1) xs_invD(4) [OF inv]]
  have new: "i \<notin> set (em_members em)" using I(6) m(1,2) by (force simp: placed_miner_def)
  have set: "set (em_members em') = insert i (set (em_members em))"
    unfolding A(1) miners_add_def by (rule set_insort_insert)
  assume nf: "\<not> p_fault p'"
  then have old: "xs_distinct p (em_storage em)" using A(4) I(7) by blast
  let ?x = "es_extraNonce (em_storage em)" and ?x' = "es_extraNonce (em_storage em')"
  have xx: "?x \<le> ?x'" using A(2) by simp
  have ni: "m_extraNonce n = (if es_active (em_storage em) then ?x else - 1)" if "p_objs p' i = Some n" for n
    using A(6) that nf m(3) by auto
  have xi: "es_active (em_storage em) \<Longrightarrow> ?x' = ?x + 1" using A(2) by simp
  have b: "- 1 \<le> m_extraNonce n \<and> m_extraNonce n < ?x" if "j \<in> set (em_members em)" "p_objs p' j = Some n" for j n
  proof -
    have "j \<noteq> i" using that new by auto
    then show ?thesis using old that A(5) by (auto simp: xs_distinct_def)
  qed
  show "xs_distinct p' (em_storage em')"
    unfolding xs_distinct_def set
  proof (intro conjI ballI allI impI)
    fix j n
    assume j: "j \<in> insert i (set (em_members em))" "p_objs p' j = Some n"
    show "- 1 \<le> m_extraNonce n" "m_extraNonce n < ?x'"
      using b [of j n] ni [of n] xi j I(4) xx by (cases "j = i"; auto split: if_splits)+
    fix k n'
    assume k: "k \<in> insert i (set (em_members em))" "j \<noteq> k" "p_objs p' k = Some n'" "m_extraNonce n = m_extraNonce n'"
    consider (a) "j = i" "k \<in> set (em_members em)" | (c) "k = i" "j \<in> set (em_members em)"
      | (d) "j \<noteq> i" "k \<noteq> i" "j \<in> set (em_members em)" "k \<in> set (em_members em)"
      using j k by auto
    then show "m_extraNonce n = - 1"
    proof cases
      case a
      then show ?thesis using ni [of n] b [OF a(2) k(3)] j k(4) by (auto split: if_splits)
    next
      case c
      then show ?thesis using ni [of n'] b [OF c(2) j(2)] k by (auto split: if_splits)
    next
      case d
      then have "p_objs p j = Some n" "p_objs p k = Some n'" using A(5) j(2) k(3) by simp_all
      then show ?thesis using old d k(2,4) unfolding xs_distinct_def by blast
    qed
  qed
qed

lemma miners_remove_set [simp]: "set (miners_remove i ms) = set ms - {i}"
  by (auto simp: miners_remove_def)

lemma xs_distinct_less:
  assumes "xs_distinct p es" and "set (es_miners es') \<subseteq> set (es_miners es)" and "es_extraNonce es' = es_extraNonce es"
    and "\<And>j m. p_objs p' j = Some m \<Longrightarrow> p_objs p j = Some m"
  shows "xs_distinct p' es'"
proof -
  have d: "- 1 \<le> m_extraNonce m" "m_extraNonce m < es_extraNonce es"
    "j \<in> set (es_miners es) \<Longrightarrow> i \<noteq> j \<Longrightarrow> p_objs p j = Some m' \<Longrightarrow> m_extraNonce m = m_extraNonce m' \<Longrightarrow> m_extraNonce m = - 1"
    if "i \<in> set (es_miners es)" "p_objs p i = Some m" for i j m m'
    using assms(1) that unfolding xs_distinct_def by blast+
  show ?thesis
    unfolding xs_distinct_def assms(3)
  proof (intro conjI ballI allI impI)
    fix i m
    assume "i \<in> set (es_miners es')" "p_objs p' i = Some m"
    then have i: "i \<in> set (es_miners es)" "p_objs p i = Some m" using assms(2,4) by auto
    show "- 1 \<le> m_extraNonce m" "m_extraNonce m < es_extraNonce es" by (rule d [OF i])+
    fix j m'
    assume "j \<in> set (es_miners es')" "i \<noteq> j" "p_objs p' j = Some m'" "m_extraNonce m = m_extraNonce m'"
    then show "m_extraNonce m = - 1" using d(3) [OF i] assms(2,4) by blast
  qed
qed

lemma xs_inv_close:
  assumes inv: "xs_inv (p, em)" and m: "p_objs p i = Some m" and r: "xs_remove i p em = (p1, em')"
  shows "xs_inv (proc_delete i p1, em')"
proof (rule xs_invI)
  note I = xs_invD [OF inv]
  have p1: "p1 = p" using r m by (auto simp: xs_remove_def split: if_splits)
  have d: "p_objs (proc_delete i p1) = (p_objs p)(i := None)" "p_fault (proc_delete i p1) = p_fault p"
    using m by (simp_all add: p1 proc_delete_def)
  have "\<not> placed_miner (p_objs p i) \<Longrightarrow> i \<notin> set (em_members em)" using I(6) by blast
  then have set: "set (em_members em') = set (em_members em) - {i}" and e: "em_suspended em' = em_suspended em"
    "es_extraNonce (em_storage em') = es_extraNonce (em_storage em)"
    and sub: "sorted (em_members em')" "distinct (em_members em')"
    using r m I(2,3)
    by (auto simp: xs_remove_def em_remove_def es_remove_def placed_miner_def miners_remove_def sorted_wrt_filter split: if_splits)
  show "em_suspended em' = 0" "0 \<le> es_extraNonce (em_storage em')" using I(1,4) e by simp_all
  show "sorted (em_members em')" "distinct (em_members em')" by (rule sub)+
  fix j
  show "placed_miner (p_objs (proc_delete i p1) j) \<Longrightarrow> j \<in> set (em_members em')"
    using I(5) set d(1) by (cases "j = i") (simp_all add: placed_miner_def)
  show "j \<in> set (em_members em') \<Longrightarrow> placed_miner (p_objs (proc_delete i p1) j)"
    using I(6) set d(1) by simp
next
  assume "\<not> p_fault (proc_delete i p1)"
  have p1: "p1 = p" using r m by (auto simp: xs_remove_def split: if_splits)
  have d: "p_objs (proc_delete i p1) = (p_objs p)(i := None)" "p_fault (proc_delete i p1) = p_fault p"
    using m by (simp_all add: p1 proc_delete_def)
  then have "xs_distinct p (em_storage em)" using xs_invD(7) [OF inv] \<open>\<not> p_fault (proc_delete i p1)\<close> by simp
  moreover have "set (em_members em') \<subseteq> set (em_members em)"
    "es_extraNonce (em_storage em') = es_extraNonce (em_storage em)"
    using r m by (auto simp: xs_remove_def em_remove_def es_remove_def split: if_splits)
  ultimately show "xs_distinct (proc_delete i p1) (em_storage em')"
    by (rule xs_distinct_less) (simp add: d split: if_splits)
qed

lemma xs_inv_quiet:
  assumes "xs_inv (p, em)" and "em_suspended em' = em_suspended em" and "em_members em' = em_members em"
    and "es_extraNonce (em_storage em') = es_extraNonce (em_storage em)"
  shows "xs_inv (p, em')"
  by (rule xs_inv_rely [OF assms(1)]) (use assms xs_invD(1) [OF assms(1)] in \<open>auto simp: xs_rely_def\<close>)

text \<open>The handlers that may send a job change the donation strategy first.\<close>

lemma xs_inv_donate: "xs_inv (p, em) \<Longrightarrow> xs_inv (p, em\<lparr>em_donate := d\<rparr>)"
  by (erule xs_inv_quiet) simp_all

lemma xs_inv_onJob:
  assumes "xs_inv (p, em)" and "em_onJob env cfg client host port job p em = (p', em')"
  shows "xs_inv (p', em')"
  using assms(2) xs_inv_setJob [OF assms(1)] xs_inv_setJob [OF xs_inv_donate [OF assms(1)]] xs_inv_donate [OF assms(1)]
  by (auto simp: em_onJob_def Let_def split: option.splits if_splits prod.splits)

lemma xs_inv_tick:
  assumes "xs_inv (p, em)" and "em_tick env cfg now p em = (p', em')"
  shows "xs_inv (p', em')"
proof -
  have i: "xs_inv (p, em_call c em)" for c by (rule xs_inv_quiet [OF assms(1)]) (simp_all add: em_call_def)
  show ?thesis
    using assms(2) i xs_inv_setJob [OF xs_inv_donate [OF i]] xs_inv_donate [OF i]
    by (auto simp: em_tick_def Let_def split: option.splits if_splits prod.splits)
qed

lemma xs_inv_onActive: "xs_inv (p, em) \<Longrightarrow> xs_inv (p, em_onActive s client em)"
  by (erule xs_inv_quiet) (simp_all add: em_onActive_def em_call_def es_setActive_def Let_def)

lemma xs_inv_donate_onJob:
  assumes "xs_inv (p, em)" and "em_donate_onJob env cfg host port job p em = (p', em')"
  shows "xs_inv (p', em')"
  using assms xs_inv_onJob [OF xs_inv_donate [OF assms(1)]] xs_inv_onJob [OF xs_inv_onActive [OF xs_inv_donate [OF assms(1)]]]
  by (auto simp: em_donate_onJob_def ds_onJobReceived_def Let_def split: option.splits if_splits)

lemma xs_submit_state:
  assumes "xs_submit seq ev p em = (ev', p', em')"
  shows "p_objs p' = p_objs p" "p_fault p \<Longrightarrow> p_fault p'" "em_suspended em' = em_suspended em" "em_storage em' = em_storage em"
  using assms
  by (auto simp: xs_submit_def em_submit_def em_call_def Let_def split: option.splits if_splits prod.splits)

lemma xs_inv_submit:
  assumes "xs_inv (p, em)"
  shows "xs_inv (snd (xs_submit seq ev p em))"
proof -
  obtain ev' p' em' where s: "xs_submit seq ev p em = (ev', p', em')" by (rule prod_cases3)
  note x = xs_submit_state [OF s]
  have "xs_inv (p', em')"
    by (rule xs_inv_rely [OF assms xs_rely_same]) (use x xs_invD(1) [OF assms] in simp_all)
  then show ?thesis by (simp add: s)
qed

lemma xs_rely_trans: "xs_rely ms p q \<Longrightarrow> xs_rely ms q r \<Longrightarrow> xs_rely ms p r"
  unfolding xs_rely_def by (metis (full_types))

lemma xs_rely_reply:
  "xs_rely ms p (on_miner (replyWithError env k msg) i p)" "xs_rely ms p (on_miner (success env k msg) i p)"
proof -
  have "proc_same xs_view p (on_miner f i p)" and "p_fault p \<longrightarrow> p_fault (on_miner f i p)"
    if "\<And>s. miner_frame s (f s)" "\<And>s. m_extraNonce (fst (f s)) = m_extraNonce (fst s)" for f
    using that by (auto intro!: on_miner_same simp: xs_view_def miner_frame_def miner_core_def)
       (auto simp: on_miner_def put_miner_def split: option.splits)
  then have "xs_rely ms p (on_miner f i p)"
    if "\<And>s. miner_frame s (f s)" "\<And>s. m_extraNonce (fst (f s)) = m_extraNonce (fst s)" for f
    using that view_placed unfolding xs_rely_def proc_same_def by (metis (no_types, lifting))
  then show "xs_rely ms p (on_miner (replyWithError env k msg) i p)" "xs_rely ms p (on_miner (success env k msg) i p)"
    using replyWithError_frame success_frame by (simp_all add: frame_simps)
qed

lemma xs_inv_result:
  assumes inv: "xs_inv (p, em)" and st: "\<And>ae. xs_rely (em_members em) p (start ae p)"
    and r: "em_onResultAccepted env start client result err p em = (p', em')"
  shows "xs_inv (p', em')"
proof -
  have "xs_rely (em_members em) p p' \<and> em_suspended em' = em_suspended em \<and> em_storage em' = em_storage em"
    using r st xs_rely_trans [OF st xs_rely_reply(1)] xs_rely_trans [OF st xs_rely_reply(2)]
    by (auto simp: em_onResultAccepted_def em_submitCtx_def Let_def split: option.splits prod.splits)
  then show ?thesis using xs_inv_rely [OF inv, of p' em'] xs_invD(1) [OF inv] by simp
qed

lemma xs_step_inv:
  assumes inv: "xs_inv s" and g: "xs_ok s e"
  shows "xs_inv (xs_step env cfg h dr s e)"
proof -
  obtain p em where s: "s = (p, em)" by fastforce
  note inv = inv [unfolded s] and g = g [unfolded s]
  have q: "xs_inv (p, em')" if "em_suspended em' = em_suspended em" "em_storage em' = em_storage em" for em'
    by (rule xs_inv_quiet [OF inv]) (simp_all add: that)
  have "xs_inv (xs_step env cfg h dr (p, em) e)"
  proof (cases e)
    case (XsLogin ev)
    then obtain m where m: "p_objs p (le_miner ev) = Some m" "m_mapperId m < 0" "m_extraNonce m = - 1"
      using g by (auto split: option.splits)
    obtain ok p' em' where a: "em_add env cfg (le_miner ev) p em = (ok, p', em')" by (rule prod_cases3)
    show ?thesis
      using inv xs_inv_add [OF inv m _ a] m(1) a by (simp add: XsLogin xs_login_def xs_place_add)
  next
    case (XsClose i)
    obtain p1 em' where r: "xs_remove i p em = (p1, em')" by fastforce
    show ?thesis using xs_inv_close [OF inv _ r] g XsClose by (auto simp: r)
  next
    case (XsSubmit seq ev)
    then show ?thesis using xs_inv_submit [OF inv] by simp
  next
    case (XsTick now)
    obtain p' em' where t: "em_tick env cfg now p em = (p', em')" by fastforce
    show ?thesis using xs_inv_tick [OF inv t] by (simp add: XsTick t)
  next
    case (XsJob client host port job)
    obtain p' em' where t: "em_onJob env cfg client host port job p em = (p', em')" by fastforce
    show ?thesis using xs_inv_onJob [OF inv t] by (simp add: XsJob t)
  next
    case (XsResult start client result err)
    obtain p' em' where t: "em_onResultAccepted env start client result err p em = (p', em')" by fastforce
    show ?thesis using xs_inv_result [OF inv _ t] g by (simp add: XsResult t)
  next
    case (XsDonateJob host port job)
    obtain p' em' where t: "em_donate_onJob env cfg host port job p em = (p', em')" by fastforce
    show ?thesis using xs_inv_donate_onJob [OF inv t] by (simp add: XsDonateJob t)
  next
    case (XsProc p')
    then show ?thesis using xs_inv_rely [OF inv _ xs_invD(1) [OF inv] refl refl] g by simp
  next
    case (XsActive st client)
    then show ?thesis using xs_inv_onActive [OF inv] by simp
  next
    case XsPause
    then show ?thesis
      using xs_inv_quiet [OF inv, of "em_onPause em"] by (simp add: em_onPause_def es_setActive_def)
  next
    case XsDonateClose
    then show ?thesis
      using xs_inv_quiet [OF inv, of "em_donate_onClose em"]
      by (simp add: em_donate_onClose_def em_onPause_def es_setActive_def ds_onClose_def split: option.splits)
  qed (use xs_invD(1) [OF inv] in \<open>auto intro!: q simp: em_gc_def em_isSuspended_def xs_onConfigChanged_def em_reload_def em_call_def Let_def
        split: option.splits\<close>)
  then show ?thesis by (simp add: s)
qed

text \<open>A run starts with the upstream connected and no miner placed.\<close>

definition xs_init :: "config \<Rightarrow> strategy \<Rightarrow> rat \<Rightarrow> xs_state" where
  "xs_init cfg h dr = (proc_new, xs_connect cfg h dr)"

lemma xs_init_inv: "xs_inv (xs_init cfg h dr)"
  by (simp add: xs_inv_def xs_init_def xs_connect_def em_start_def em_connect_def em_call_def em_new_def es_new_def
      Let_def proc_new_def placed_miner_def xs_distinct_def)

interpretation extra: event_component "\<lambda>s. s = xs_init cfg h dr" xs_ok "xs_step env cfg h dr" xs_inv for env cfg h dr
  by unfold_locales (auto simp: xs_init_inv xs_step_inv)

section \<open>A job that fits\<close>

text \<open>The buffers of a job without a miner signature hold what \<open>setJob\<close> writes into them: the view tag and
  the extra nonce in the prefix, the root hash in the blob.\<close>

definition job_fits :: "job \<Rightarrow> bool" where
  "job_fits j \<longleftrightarrow> \<not> j_hasMinerSignature j \<and>
     j_extraNonceOffset j + min (j_extraNonceSize j) 4 \<le> length (j_minerTxPrefix j) \<and>
     (j_hasViewTag j \<longrightarrow> j_ephPubKeyOffset j + 33 \<le> length (j_minerTxPrefix j)) \<and>
     2 * (nonceOffset j + nonceSize j) + 64 \<le> length (j_rawBlob j)"

lemma poke_fits: "off + length bytes \<le> length buf \<Longrightarrow> \<exists>b. poke off bytes buf = Some b \<and> length b = length buf"
  by (auto simp: poke_def)

lemma job_fits_cong:
  assumes "job_fits j" and "j_hasMinerSignature j' = j_hasMinerSignature j" and "j_hasViewTag j' = j_hasViewTag j"
    and "j_extraNonceOffset j' = j_extraNonceOffset j" and "j_extraNonceSize j' = j_extraNonceSize j"
    and "j_ephPubKeyOffset j' = j_ephPubKeyOffset j" and "j_algorithm j' = j_algorithm j"
    and "length (j_minerTxPrefix j') = length (j_minerTxPrefix j)" and "length (j_rawBlob j') = length (j_rawBlob j)"
  shows "job_fits j'"
proof -
  have "nonceOffset j' = nonceOffset j" "nonceSize j' = nonceSize j"
    by (simp_all add: nonceOffset_def nonceSize_def assms(7))
  then show ?thesis using assms by (simp add: job_fits_def)
qed

lemma job_poke_fits:
  assumes "job_fits j" and "off + length bytes \<le> length (j_minerTxPrefix j)"
  shows "\<exists>j'. job_poke off bytes j = Some j' \<and> job_fits j'"
proof -
  from poke_fits [OF assms(2)] obtain b where "poke off bytes (j_minerTxPrefix j) = Some b" "length b = length (j_minerTxPrefix j)"
    by blast
  then show ?thesis using job_fits_cong [OF assms(1), of "j\<lparr>j_minerTxPrefix := b\<rparr>"] by (simp add: job_poke_def)
qed

lemma setJob_nicehash_fits: "job_fits j \<Longrightarrow> job_fits (setJob_nicehash m j)"
  by (auto simp: setJob_nicehash_def poke_length split: option.splits intro: job_fits_cong)

lemma setViewTag_fits: "job_fits j \<Longrightarrow> j_hasViewTag j \<Longrightarrow> \<exists>j'. setViewTagInMinerTx v j = Some j' \<and> job_fits j'"
  unfolding setViewTagInMinerTx_def by (rule job_poke_fits) (simp_all add: job_fits_def)

lemma setExtraNonce_fits: "job_fits j \<Longrightarrow> \<exists>j'. setExtraNonceInMinerTx x j = Some j' \<and> job_fits j'"
proof -
  assume j: "job_fits j"
  let ?b = "take (min (j_extraNonceSize j) 4) (le_bytes (ucast x) :: u8 list)"
  have "length ?b \<le> min (j_extraNonceSize j) 4" by simp
  moreover have "j_extraNonceOffset j + min (j_extraNonceSize j) 4 \<le> length (j_minerTxPrefix j)"
    using j by (simp add: job_fits_def)
  ultimately have "j_extraNonceOffset j + length ?b \<le> length (j_minerTxPrefix j)" by linarith
  from job_poke_fits [OF j this] show ?thesis by (simp add: setExtraNonceInMinerTx_def)
qed

lemma setJob_keys_fits:
  assumes "job_fits j"
  shows "\<exists>m' j'. setJob_keys env x m j = Some (m', j') \<and> job_fits j'"
proof -
  define m1 where "m1 = (if j_rawSigKey j \<noteq> None then m\<lparr>m_signatureData := j_rawSigKey j\<rparr> else m)"
  obtain j1 where j1: "(if j_hasViewTag j then setViewTagInMinerTx (m_viewTag m1) j else Some j) = Some j1" "job_fits j1"
    using setViewTag_fits [OF assms, of "m_viewTag m1"] assms by (cases "j_hasViewTag j") auto
  have "setJob_keys env x m j =
      (if 0 \<le> x then map_option (\<lambda>j. (m1\<lparr>m_extraNonce := x\<rparr>, j)) (setExtraNonceInMinerTx (of_int x) j1) else Some (m1, j1))"
    using assms j1(1) by (cases "j_hasViewTag j") (auto simp: setJob_keys_def m1_def job_fits_def)
  then show ?thesis using setExtraNonce_fits [OF j1(2), of "of_int x"] j1(2) by auto
qed

lemma length_root: "length (calculateRootHash prefix branch) = 32"
  by (cases branch rule: rev_cases)
     (simp_all add: calculateRootHash_def calculateMinerTxHash_def hash2_def length_keccak kHashSize_def)

lemma generateHashingBlob_fits: "job_fits j \<Longrightarrow> \<exists>b. generateHashingBlob_job j = Some b"
proof -
  assume j: "job_fits j"
  let ?h = "calculateRootHash (j_minerTxPrefix j) (j_branch j)"
  have "length (the (toHex_buf 64 ?h)) = 64" by (simp add: toHex_buf_def cvt_bin2hex_def length_root)
  then show ?thesis
    using poke_fits [of "2 * (nonceOffset j + nonceSize j)" "the (toHex_buf 64 ?h)" "j_rawBlob j"] j
    by (auto simp: generateHashingBlob_job_def job_fits_def Let_def mult.commute)
qed

lemma setJob_fits:
  assumes "job_fits j"
  shows "\<exists>j' s'. setJob env j x s = Some (j', s') \<and> job_fits j'"
proof -
  obtain m c where s: "s = (m, c)" by (cases s)
  let ?j = "setJob_nicehash m j" and ?m = "m\<lparr>m_diff := j_diff (setJob_nicehash m j)\<rparr>"
  from setJob_keys_fits [OF setJob_nicehash_fits [OF assms]] obtain m1 j1 where
    k: "setJob_keys env x ?m ?j = Some (m1, j1)" "job_fits j1" by blast
  from generateHashingBlob_fits [OF k(2)] show ?thesis using k by (auto simp: s setJob_def Let_def)
qed

lemma proc_setJob_fits:
  assumes "job_fits j" and "p_objs p i \<noteq> None" and "proc_setJob env i j x p = (j', p')"
  shows "job_fits j' \<and> p_fault p' = p_fault p"
proof -
  obtain m where m: "p_objs p i = Some m" using assms(2) by blast
  from setJob_fits [OF assms(1)] obtain j1 s where "setJob env j x (m, p_cnt p) = Some (j1, s)" "job_fits j1" by blast
  then show ?thesis using assms(3) m by (auto simp: proc_setJob_def put_miner_def)
qed

lemma es_send_fits:
  assumes "job_fits j" and "\<And>i. i \<in> set is \<Longrightarrow> p_objs p i \<noteq> None" and "es_send env is j x p = (j', y, p')"
  shows "p_fault p' = p_fault p"
  using assms
proof (induction "is" arbitrary: j x p)
  case (Cons i "is")
  obtain j1 p1 where s: "proc_setJob env i j x p = (j1, p1)" by fastforce
  have f: "job_fits j1 \<and> p_fault p1 = p_fault p" using proc_setJob_fits [OF Cons.prems(1) _ s] Cons.prems(2) by simp
  have "dom (p_objs p1) = dom (p_objs p)" using proc_setJob_frame [of p env i j x] s by (simp add: proc_frame_def)
  then have "k \<in> set is \<Longrightarrow> p_objs p1 k \<noteq> None" for k using Cons.prems(2) by auto
  from Cons.IH [OF _ this, of j1 "x + 1"] show ?case using f s Cons.prems(3) by simp
qed simp

text \<open>A job that fits is given to every member, each with its place in the list as the extra nonce.\<close>

lemma job_copy_fits: "job_fits j \<Longrightarrow> job_fits (job_copy old j)"
  by (erule job_fits_cong) (simp_all add: job_copy_def)

lemma es_setJob_fits:
  assumes "job_fits job" and "\<And>i. i \<in> set (es_miners es) \<Longrightarrow> p_objs p i \<noteq> None" and "distinct (es_miners es)"
    and "es_setJob env job p es = (p', es')" and "\<not> p_fault p"
  shows "\<not> p_fault p' \<and> es_extraNonce es' = int (length (es_miners es)) \<and>
    (\<forall>k < length (es_miners es). \<exists>m. p_objs p' (es_miners es ! k) = Some m \<and> m_extraNonce m = int k)"
proof -
  obtain job' x p1 where s: "es_send env (es_miners es) (job_copy (es_job es) job) 0 p = (job', x, p1)" by (rule prod_cases3)
  then have "p' = p1" using assms(4) by (simp add: es_setJob_def Let_def)
  with es_send_fits [OF job_copy_fits [OF assms(1)] assms(2) s] assms(5) have "\<not> p_fault p'" by simp
  then show ?thesis using es_setJob_extra [OF assms(4,3)] by simp
qed


section \<open>What a member is sent\<close>

text \<open>The miner transaction with the view tag of the member and with its extra nonce, and the message around the
  hash of it, both from the job the pool sent.\<close>

definition member_prefix :: "job \<Rightarrow> u8 \<Rightarrow> int \<Rightarrow> u8 list option" where
  "member_prefix j v x =
     Option.bind (if j_hasViewTag j then poke (j_ephPubKeyOffset j + 32) [v] (j_minerTxPrefix j) else Some (j_minerTxPrefix j))
       (poke (j_extraNonceOffset j) (take (min (j_extraNonceSize j) 4) (le_bytes (ucast (of_int x :: u32)))))"

definition member_message :: "job \<Rightarrow> miner \<Rightarrow> int \<Rightarrow> job_msg option" where
  "member_message j m x =
     Option.bind (member_prefix j (m_viewTag m) x) (\<lambda>prefix.
       map_option (\<lambda>blob.
         \<lparr>jm_blob = blob, jm_job_id = j_id j,
          jm_target = (if m_customDiff m \<noteq> 0 \<and> m_customDiff m < j_diff j then custom_target (m_customDiff m) else j_rawTarget j),
          jm_algo = algo_name (j_algorithm j), jm_height = (if j_height j \<noteq> 0 then Some (j_height j) else None),
          jm_seed_hash = j_rawSeedHash j,
          jm_sig_key = sig_key_text (if j_rawSigKey j \<noteq> None then j_rawSigKey j else m_signatureData m)\<rparr>)
       (poke (2 * (nonceOffset j + nonceSize j)) (the (toHex_buf 64 (calculateRootHash prefix (j_branch j)))) (j_rawBlob j)))"

lemma poke_Some:
  "poke off bs p = Some q \<longleftrightarrow> off + length bs \<le> length p \<and> q = take off p @ bs @ drop (off + length bs) p"
  by (auto simp: poke_def)

lemma poke_at:
  assumes "poke off bs p = Some q"
  shows "length q = length p" and "i < length p \<Longrightarrow> q ! i = (if off \<le> i \<and> i < off + length bs then bs ! (i - off) else p ! i)"
  using assms by (auto simp: poke_Some nth_append)


definition extra_bytes :: "job \<Rightarrow> int \<Rightarrow> u8 list" where
  "extra_bytes j x = take (min (j_extraNonceSize j) 4) (le_bytes (ucast (of_int x :: u32)))"

lemma length_extra_bytes [simp]: "length (extra_bytes j x) = min (j_extraNonceSize j) 4"
  by (simp add: extra_bytes_def le_bytes_def)

lemma poke_iff:
  "poke off bs p = Some q \<longleftrightarrow> off + length bs \<le> length p \<and> length q = length p \<and>
     (\<forall>i < length p. q ! i = (if off \<le> i \<and> i < off + length bs then bs ! (i - off) else p ! i))"
proof
  assume p: "poke off bs p = Some q"
  then have "off + length bs \<le> length p" by (simp add: poke_Some)
  with poke_at [OF p] show "off + length bs \<le> length p \<and> length q = length p \<and>
     (\<forall>i < length p. q ! i = (if off \<le> i \<and> i < off + length bs then bs ! (i - off) else p ! i))" by blast
next
  assume a: "off + length bs \<le> length p \<and> length q = length p \<and>
     (\<forall>i < length p. q ! i = (if off \<le> i \<and> i < off + length bs then bs ! (i - off) else p ! i))"
  then obtain r where r: "poke off bs p = Some r" by (auto simp: poke_def)
  have "q = r" by (rule nth_equalityI) (use a poke_at [OF r] in auto)
  with r show "poke off bs p = Some q" by simp
qed

definition prefix_at :: "job \<Rightarrow> u8 \<Rightarrow> int \<Rightarrow> nat \<Rightarrow> u8 \<Rightarrow> u8" where
  "prefix_at j v x i y =
     (if j_extraNonceOffset j \<le> i \<and> i < j_extraNonceOffset j + min (j_extraNonceSize j) 4
      then extra_bytes j x ! (i - j_extraNonceOffset j)
      else if j_hasViewTag j \<and> i = j_ephPubKeyOffset j + 32 then v else y)"

definition prefix_room :: "job \<Rightarrow> nat \<Rightarrow> bool" where
  "prefix_room j n \<longleftrightarrow> j_extraNonceOffset j + min (j_extraNonceSize j) 4 \<le> n \<and> (j_hasViewTag j \<longrightarrow> j_ephPubKeyOffset j + 33 \<le> n)"

lemma member_prefix_iff:
  "member_prefix j v x = Some q \<longleftrightarrow> prefix_room j (length (j_minerTxPrefix j)) \<and> length q = length (j_minerTxPrefix j) \<and>
     (\<forall>i < length (j_minerTxPrefix j). q ! i = prefix_at j v x i (j_minerTxPrefix j ! i))"
proof (cases "j_hasViewTag j")
  case False
  then show ?thesis by (simp add: member_prefix_def poke_iff prefix_at_def prefix_room_def flip: extra_bytes_def)
next
  case True
  let ?V = "j_ephPubKeyOffset j + 32" and ?p = "j_minerTxPrefix j"
  have b: "member_prefix j v x = Option.bind (poke ?V [v] ?p) (poke (j_extraNonceOffset j) (extra_bytes j x))"
    using True by (simp add: member_prefix_def extra_bytes_def)
  show ?thesis
  proof (cases "poke ?V [v] ?p")
    case None
    then have "\<not> ?V + 1 \<le> length ?p" by (simp add: poke_def split: if_splits)
    then show ?thesis using None True by (auto simp: b prefix_room_def)
  next
    case (Some r)
    have l: "length r = length ?p" "?V + 1 \<le> length ?p" using poke_at(1) [OF Some] Some by (simp_all add: poke_Some)
    have n: "r ! i = (if i = ?V then v else ?p ! i)" if "i < length ?p" for i
      using poke_at(2) [OF Some that] by auto
    show ?thesis using True l n by (auto simp: b Some poke_iff prefix_at_def prefix_room_def)
  qed
qed

text \<open>What one member wrote into the job, the next one overwrites.\<close>

lemma member_prefix_again:
  assumes "member_prefix j v x = Some q"
  shows "member_prefix (j\<lparr>j_minerTxPrefix := q\<rparr>) v' x' = member_prefix j v' x'"
proof -
  let ?p = "j_minerTxPrefix j" and ?j = "j\<lparr>j_minerTxPrefix := q\<rparr>"
  note m = assms [unfolded member_prefix_iff]
  have n: "extra_bytes ?j = extra_bytes j" by (simp add: extra_bytes_def fun_eq_iff)
  have same: "prefix_at ?j = prefix_at j" "prefix_room ?j = prefix_room j"
    by (intro ext, simp add: prefix_at_def n) (intro ext, simp add: prefix_room_def)
  have "prefix_at j v' x' i (q ! i) = prefix_at j v' x' i (?p ! i)" if "i < length ?p" for i
    using m that by (auto simp: prefix_at_def)
  then have "(\<forall>i < length ?p. r ! i = prefix_at j v' x' i (q ! i)) \<longleftrightarrow> (\<forall>i < length ?p. r ! i = prefix_at j v' x' i (?p ! i))" for r
    by auto
  then have "member_prefix ?j v' x' = Some r \<longleftrightarrow> member_prefix j v' x' = Some r" for r
    unfolding member_prefix_iff same using m by simp
  then show ?thesis by (metis not_None_eq)
qed

lemma member_message_again:
  assumes "member_prefix j v x = Some q"
  shows "member_message (j\<lparr>j_minerTxPrefix := q\<rparr>) m x' = member_message j m x'"
  by (simp add: member_message_def member_prefix_again [OF assms] nonceOffset_def nonceSize_def)

text \<open>Different extra nonces below 2 ^ 32 give different transactions.\<close>

lemma le_bytes_4:
  assumes "take 4 (le_bytes (ucast a)) = take 4 (le_bytes (ucast (b :: u32)))"
  shows "a = b"
proof (rule bit_word_eqI)
  fix n assume n: "n < LENGTH(32)"
  have k: "n div 8 < 4" "n div 8 < 8" using n by auto
  then have "le_bytes (ucast a :: u64) ! (n div 8) = le_bytes (ucast b) ! (n div 8)"
    using arg_cong [OF assms, of "\<lambda>xs. xs ! (n div 8)"] by simp
  then have "bit (ucast (drop_bit (8 * (n div 8)) (ucast a :: u64)) :: u8) (n mod 8) =
    bit (ucast (drop_bit (8 * (n div 8)) (ucast b :: u64)) :: u8) (n mod 8)"
    using k by (simp add: le_bytes_def)
  then show "bit a n = bit b n" using n by (simp add: bit_simps)
qed

lemma extra_bytes_inj:
  assumes "extra_bytes j x = extra_bytes j' y" and "4 \<le> j_extraNonceSize j" "4 \<le> j_extraNonceSize j'"
    and "0 \<le> x" "x < 2 ^ 32" "0 \<le> y" "y < 2 ^ 32"
  shows "x = y"
proof -
  have "take 4 (le_bytes (ucast (of_int x :: u32))) = take 4 (le_bytes (ucast (of_int y :: u32)) :: u8 list)"
    using assms(1-3) by (simp add: extra_bytes_def min_def split: if_splits)
  from le_bytes_4 [OF this] have "uint (of_int x :: u32) = uint (of_int y :: u32)" by simp
  with assms(4-7) show ?thesis by (simp add: uint_word_of_int)
qed


text \<open>The job a member is sent, and what it leaves for the next one.\<close>

lemma setJob_member:
  assumes set: "setJob env j x (m, c) = Some (j', s')" and "0 \<le> x"
    and plain: "\<not> m_ext_nicehash m" "\<not> j_hasMinerSignature j"
  obtains q msg m1 where "member_prefix j (m_viewTag m) x = Some q" and "j' = j\<lparr>j_minerTxPrefix := q\<rparr>"
    and "member_message j m x = Some msg"
    and "s' = sendJob env (jm_blob msg) (jm_job_id msg) (jm_target msg) (jm_algo msg) (j_height j) (jm_seed_hash msg) (m_signatureData m1) (m1, c)"
    and "jm_sig_key msg = sig_key_text (m_signatureData m1)" and "jm_height msg = (if j_height j \<noteq> 0 then Some (j_height j) else None)"
    and "m_state m1 = m_state m" and "m_sent m1 = m_sent m" and "m_extraNonce m1 = x" and "m_viewTag m1 = m_viewTag m"
    and "m_loginId m1 = m_loginId m" and "m_rpcId m1 = m_rpcId m" and "miner_extensions m1 = miner_extensions m"
proof -
  define m0 where "m0 = (if j_rawSigKey j \<noteq> None then m\<lparr>m_diff := j_diff j, m_signatureData := j_rawSigKey j\<rparr> else m\<lparr>m_diff := j_diff j\<rparr>)"
  define m1 where "m1 = m0\<lparr>m_extraNonce := x\<rparr>"
  have nh: "setJob_nicehash m j = j" using plain(1) by (simp add: setJob_nicehash_def)
  have m0: "m_viewTag m0 = m_viewTag m" "m_state m0 = m_state m" "m_sent m0 = m_sent m" "m_customDiff m0 = m_customDiff m"
    "m_diff m0 = j_diff j" "m_signatureData m0 = (if j_rawSigKey j \<noteq> None then j_rawSigKey j else m_signatureData m)"
    by (simp_all add: m0_def)
  obtain q where q: "setJob_keys env x (m\<lparr>m_diff := j_diff j\<rparr>) j = Some (m1, j\<lparr>j_minerTxPrefix := q\<rparr>)"
    "member_prefix j (m_viewTag m) x = Some q"
    using set \<open>0 \<le> x\<close> plain(2)
    by (cases "j_hasViewTag j"; cases "j_rawSigKey j")
      (auto simp: setJob_def nh Let_def setJob_keys_def setViewTagInMinerTx_def setExtraNonceInMinerTx_def job_poke_def member_prefix_def
        m1_def m0_def split: option.splits)
  let ?j = "j\<lparr>j_minerTxPrefix := q\<rparr>"
  obtain blob where b: "generateHashingBlob_job ?j = Some blob" "j' = ?j"
    "s' = sendJob env blob (j_id j) (if m_customDiff m \<noteq> 0 \<and> m_customDiff m < j_diff j then custom_target (m_customDiff m) else j_rawTarget j)
      (algo_name (j_algorithm j)) (j_height j) (j_rawSeedHash j) (m_signatureData m1) (m1, c)"
    using set q(1) \<open>0 \<le> x\<close> m0 by (auto simp: setJob_def nh Let_def m1_def split: option.splits)
  have blob: "poke (2 * (nonceOffset j + nonceSize j)) (the (toHex_buf 64 (calculateRootHash q (j_branch j)))) (j_rawBlob j) = Some blob"
  proof -
    have n: "nonceOffset ?j = nonceOffset j" "nonceSize ?j = nonceSize j" by (simp_all add: nonceOffset_def nonceSize_def)
    show ?thesis using b(1) plain(2) by (simp add: generateHashingBlob_job_def Let_def n mult.commute)
  qed
  define msg where "msg = \<lparr>jm_blob = blob, jm_job_id = j_id j,
    jm_target = (if m_customDiff m \<noteq> 0 \<and> m_customDiff m < j_diff j then custom_target (m_customDiff m) else j_rawTarget j),
    jm_algo = algo_name (j_algorithm j), jm_height = (if j_height j \<noteq> 0 then Some (j_height j) else None),
    jm_seed_hash = j_rawSeedHash j, jm_sig_key = sig_key_text (m_signatureData m1)\<rparr>"
  have m1: "m_state m1 = m_state m" "m_sent m1 = m_sent m" "m_extraNonce m1 = x" "m_viewTag m1 = m_viewTag m"
    "m_loginId m1 = m_loginId m" "m_rpcId m1 = m_rpcId m" "miner_extensions m1 = miner_extensions m"
    "m_signatureData m1 = (if j_rawSigKey j \<noteq> None then j_rawSigKey j else m_signatureData m)"
    by (simp_all add: m1_def m0_def miner_extensions_def)
  have "member_message j m x = Some msg"
    unfolding member_message_def q(2) bind.bind_lunit by (simp only: blob msg_def m1(8) option.map)
  moreover have "s' = sendJob env (jm_blob msg) (jm_job_id msg) (jm_target msg) (jm_algo msg) (j_height j) (jm_seed_hash msg)
      (m_signatureData m1) (m1, c)"
    unfolding b(3) by (simp only: msg_def job_msg.select_convs)
  ultimately show thesis
    by (rule that [OF q(2) b(2)]) (simp_all only: m1 msg_def job_msg.select_convs)
qed

text \<open>The extra nonce is the last thing written into the transaction.\<close>

lemma poke_take: "poke off bs p = Some q \<Longrightarrow> take (length bs) (drop off q) = bs"
  by (auto simp: poke_Some)

lemma setExtraNonce_at:
  assumes "setExtraNonceInMinerTx (of_int x) j = Some j'"
  shows "take (min (j_extraNonceSize j) 4) (drop (j_extraNonceOffset j) (j_minerTxPrefix j')) = extra_bytes j x"
proof -
  from assms have "poke (j_extraNonceOffset j) (extra_bytes j x) (j_minerTxPrefix j) = Some (j_minerTxPrefix j')"
    by (auto simp: setExtraNonceInMinerTx_def job_poke_def extra_bytes_def)
  from poke_take [OF this] show ?thesis by simp
qed

lemma setJob_nonce_at:
  assumes "setJob env j x (m, c) = Some (j', s')" and "0 \<le> x"
  shows "take (min (j_extraNonceSize j) 4) (drop (j_extraNonceOffset j) (j_minerTxPrefix j')) = extra_bytes j x"
proof -
  obtain j1 j2 where "setExtraNonceInMinerTx (of_int x) j1 = Some j2" "j_minerTxPrefix j' = j_minerTxPrefix j2"
    "j_extraNonceSize j1 = j_extraNonceSize j" "j_extraNonceOffset j1 = j_extraNonceOffset j"
    using assms
    by (auto simp: setJob_def setJob_keys_def setJob_nicehash_def generateSignatureData_def setViewTagInMinerTx_def job_poke_def Let_def
      split: option.splits if_splits prod.splits)
  with setExtraNonce_at [OF this(1)] show ?thesis by (simp add: extra_bytes_def)
qed

lemma setJob_differs:
  assumes "setJob env j x s = Some (j1, s1)" and "setJob env' j' y s' = Some (j1', s1')"
    and "j_extraNonceOffset j' = j_extraNonceOffset j" and "j_extraNonceSize j' = j_extraNonceSize j" and "4 \<le> j_extraNonceSize j"
    and "0 \<le> x" "x < 2 ^ 32" "0 \<le> y" "y < 2 ^ 32" "x \<noteq> y"
  shows "j_minerTxPrefix j1 \<noteq> j_minerTxPrefix j1'"
proof
  assume e: "j_minerTxPrefix j1 = j_minerTxPrefix j1'"
  obtain m c m' c' where "s = (m, c)" "s' = (m', c')" by fastforce
  with setJob_nonce_at assms(1-4,6,8) e have "extra_bytes j x = extra_bytes j' y" by metis
  from extra_bytes_inj [OF this] assms(4-10) show False by simp
qed

text \<open>A member that is logged in or waits for its first job gets what \<open>sendJob\<close> writes.\<close>

definition member_out :: "miner \<Rightarrow> job_msg \<Rightarrow> out" where
  "member_out m msg =
     (if m_state m = WaitReadyState then LoginReply (m_loginId m) (m_rpcId m) msg (miner_extensions m) else JobNotify msg)"

definition takes_jobs :: "env \<Rightarrow> miner \<Rightarrow> bool" where
  "takes_jobs env m \<longleftrightarrow> (m_state m = WaitReadyState \<or> m_state m = ReadyState) \<and> \<not> m_ext_nicehash m"

lemma setState_sent [simp]: "m_sent (fst (setState env st s)) = m_sent (fst s)"
  by (simp add: setState_def heartbeat_def case_prod_beta Let_def)

lemma shutdown_sent [simp]: "m_sent (fst (shutdown env e s)) = m_sent (fst s)"
  by (simp add: shutdown_def case_prod_beta Let_def)

lemma send_doc_sent:
  assumes "isWritable env (fst s)" and "length (wire env x) \<le> sendBufSize - 2"
  shows "map fst (m_sent (fst (send_doc env x s))) = map fst (m_sent (fst s)) @ [x]"
  using assms by (cases s) (simp add: send_doc_def send_size_def Let_def)

lemma sendJob_sent:
  assumes "m_state m = WaitReadyState \<or> m_state m = ReadyState" and "\<And>m. e_writable env m"
    and "msg = \<lparr>jm_blob = blob, jm_job_id = i, jm_target = t, jm_algo = a, jm_height = (if h \<noteq> 0 then Some h else None),
      jm_seed_hash = sh, jm_sig_key = sig_key_text sk\<rparr>" and "length (wire env (member_out m msg)) \<le> sendBufSize - 2"
  shows "map fst (m_sent (fst (sendJob env blob i t a h sh sk (m, c)))) = map fst (m_sent m) @ [member_out m msg]"
proof (cases "m_state m = WaitReadyState")
  case False
  then have "m_state m = ReadyState" using assms(1) by blast
  then show ?thesis
    using send_doc_sent [of env "(m, c)" "JobNotify msg"] assms(2,4) False
    by (simp add: sendJob_def member_out_def isWritable_def assms(3))
next
  case True
  obtain m1 c1 where st: "setState env ReadyState (m, c) = (m1, c1)" by fastforce
  with True have m1: "m1 = (heartbeat env m)\<lparr>m_state := ReadyState\<rparr>" by (auto simp: setState_def Let_def)
  have l: "LoginReply (m_loginId m1) (m_rpcId m1) msg (miner_extensions m1) = member_out m msg"
    using True by (simp add: m1 heartbeat_def miner_extensions_def member_out_def)
  have "map fst (m_sent (fst (send_doc env (member_out m msg) (m1, c1)))) = map fst (m_sent m) @ [member_out m msg]"
    using send_doc_sent [of env "(m1, c1)" "member_out m msg"] assms(2,4) by (simp add: isWritable_def m1 heartbeat_def)
  then show ?thesis using True by (simp add: sendJob_def st l flip: assms(3))
qed

lemma proc_setJob_member:
  assumes fits: "job_fits j" and "0 \<le> x" and m: "p_objs p i = Some m" "takes_jobs env m" and w: "\<And>m. e_writable env m"
    and len: "\<And>msg. member_message j m x = Some msg \<Longrightarrow> length (wire env (member_out m msg)) \<le> sendBufSize - 2"
    and set: "proc_setJob env i j x p = (j', p')"
  shows "\<exists>msg m'. member_message j m x = Some msg \<and> p_objs p' = (p_objs p)(i \<mapsto> m') \<and> m_extraNonce m' = x \<and>
      map fst (m_sent m') = map fst (m_sent m) @ [member_out m msg]"
    and "job_fits j'" and "p_fault p' = p_fault p" and "member_message j' = member_message j"
proof -
  from setJob_fits [OF fits, of env x "(m, p_cnt p)"] obtain j1 s where
    s: "setJob env j x (m, p_cnt p) = Some (j1, s)" "job_fits j1" by blast
  have j: "j' = j1" "p' = put_miner i s p" using set m(1) s(1) by (simp_all add: proc_setJob_def)
  have plain: "\<not> m_ext_nicehash m" "\<not> j_hasMinerSignature j"
    using m(2) fits by (simp_all add: takes_jobs_def job_fits_def)
  from setJob_member [OF s(1) \<open>0 \<le> x\<close> plain] obtain q msg m1 where q: "member_prefix j (m_viewTag m) x = Some q" "j1 = j\<lparr>j_minerTxPrefix := q\<rparr>"
    and msg: "member_message j m x = Some msg"
    and s': "s = sendJob env (jm_blob msg) (jm_job_id msg) (jm_target msg) (jm_algo msg) (j_height j) (jm_seed_hash msg)
      (m_signatureData m1) (m1, p_cnt p)"
    and k: "jm_sig_key msg = sig_key_text (m_signatureData m1)" "jm_height msg = (if j_height j \<noteq> 0 then Some (j_height j) else None)"
    and m1: "m_state m1 = m_state m" "m_sent m1 = m_sent m" "m_extraNonce m1 = x" "m_loginId m1 = m_loginId m"
      "m_rpcId m1 = m_rpcId m" "miner_extensions m1 = miner_extensions m" .
  have out: "member_out m1 = member_out m" using m1 by (simp add: fun_eq_iff member_out_def)
  have "map fst (m_sent (fst s)) = map fst (m_sent m1) @ [member_out m1 msg]"
    unfolding s' by (rule sendJob_sent) (use m(2) w len [OF msg] k m1 out in \<open>simp_all add: takes_jobs_def\<close>)
  moreover have "m_extraNonce (fst s) = x" using s' m1(3) by (simp add: frame_simps)
  ultimately show "\<exists>msg m'. member_message j m x = Some msg \<and> p_objs p' = (p_objs p)(i \<mapsto> m') \<and> m_extraNonce m' = x \<and>
      map fst (m_sent m') = map fst (m_sent m) @ [member_out m msg]"
    using msg m1 out by (auto simp: j put_miner_def split: prod.splits)
  show "job_fits j'" "p_fault p' = p_fault p" using s(2) by (simp_all add: j put_miner_def split: prod.splits)
  show "member_message j' = member_message j" using member_message_again [OF q(1)] by (auto simp: j(1) q(2))
qed

lemma es_send_members:
  assumes "es_send env is j x p = (j', y, p')" and "job_fits j" and "0 \<le> x" and "distinct is" and "\<And>m. e_writable env m"
    and "\<And>i. i \<in> set is \<Longrightarrow> \<exists>m. p_objs p i = Some m \<and> takes_jobs env m"
    and "\<And>i m n msg. i \<in> set is \<Longrightarrow> p_objs p i = Some m \<Longrightarrow> member_message j m n = Some msg \<Longrightarrow>
      length (wire env (member_out m msg)) \<le> sendBufSize - 2"
    and "k < length is"
  shows "\<exists>m msg m'. p_objs p (is ! k) = Some m \<and> member_message j m (x + int k) = Some msg \<and> p_objs p' (is ! k) = Some m' \<and>
    m_extraNonce m' = x + int k \<and> map fst (m_sent m') = map fst (m_sent m) @ [member_out m msg]"
  using assms
proof (induction "is" arbitrary: j x p k)
  case (Cons i "is")
  obtain j1 p1 where s: "proc_setJob env i j x p = (j1, p1)" by fastforce
  have r: "es_send env is j1 (x + 1) p1 = (j', y, p')" using Cons.prems(1) s by simp
  obtain m where m: "p_objs p i = Some m" "takes_jobs env m" using Cons.prems(6) [of i] by auto
  have len: "member_message j m x = Some msg \<Longrightarrow> length (wire env (member_out m msg)) \<le> sendBufSize - 2" for msg
    using Cons.prems(7) [OF _ m(1)] by simp
  note st = proc_setJob_member [OF Cons.prems(2,3) m Cons.prems(5) len s]
  have same: "p_objs p1 l = p_objs p l" if "l \<in> set is" for l
    using st(1) that Cons.prems(4) by auto
  show ?case
  proof (cases k)
    case 0
    have "p_objs p' i = p_objs p1 i" using es_send_extra [OF r] Cons.prems(3,4) by auto
    then show ?thesis using 0 st(1) m(1) by auto
  next
    case (Suc l)
    have l: "l < length is" using Suc Cons.prems(8) by simp
    have "\<exists>m msg m'. p_objs p1 (is ! l) = Some m \<and> member_message j1 m (x + 1 + int l) = Some msg \<and> p_objs p' (is ! l) = Some m' \<and>
      m_extraNonce m' = x + 1 + int l \<and> map fst (m_sent m') = map fst (m_sent m) @ [member_out m msg]"
    proof (rule Cons.IH [OF r st(2) _ _ Cons.prems(5) _ _ l])
      fix i' m n msg
      assume "i' \<in> set is" "p_objs p1 i' = Some m" "member_message j1 m n = Some msg"
      then show "length (wire env (member_out m msg)) \<le> sendBufSize - 2"
        using Cons.prems(7) [of i' m n msg] same st(4) by simp
    qed (use Cons.prems(3,4,6) same in auto)
    then show ?thesis using Suc same [of "is ! l"] l st(4) by (simp add: algebra_simps)
  qed
qed simp

lemma job_copy_message: "member_message (job_copy old j) = member_message j"
  by (simp add: fun_eq_iff member_message_def member_prefix_def job_copy_def nonceOffset_def nonceSize_def)

text \<open>A job reaches every member, with the place in the list as the extra nonce.\<close>

lemma es_setJob_members:
  assumes "es_setJob env job p es = (p', es')" and "job_fits job" and "distinct (es_miners es)" and "\<And>m. e_writable env m"
    and "\<And>i. i \<in> set (es_miners es) \<Longrightarrow> \<exists>m. p_objs p i = Some m \<and> takes_jobs env m"
    and "\<And>i m n msg. i \<in> set (es_miners es) \<Longrightarrow> p_objs p i = Some m \<Longrightarrow> member_message job m n = Some msg \<Longrightarrow>
      length (wire env (member_out m msg)) \<le> sendBufSize - 2"
    and "k < length (es_miners es)"
  shows "\<exists>m msg m'. p_objs p (es_miners es ! k) = Some m \<and> member_message job m (int k) = Some msg \<and>
    p_objs p' (es_miners es ! k) = Some m' \<and> m_extraNonce m' = int k \<and> map fst (m_sent m') = map fst (m_sent m) @ [member_out m msg]"
proof -
  obtain job' x p1 where s: "es_send env (es_miners es) (job_copy (es_job es) job) 0 p = (job', x, p1)" by (rule prod_cases3)
  then have "p' = p1" using assms(1) by (simp add: es_setJob_def Let_def)
  with es_send_members [OF s job_copy_fits [OF assms(2)] _ assms(3-5) _ assms(7)] assms(6) show ?thesis
    by (simp add: job_copy_message)
qed

end
