(* ===== verification/Simple.thy ===== *)
theory Simple
  imports Mapper OrdMap
begin

text \<open>
  The simple splitter (\<open>src/proxy/splitters/simple/SimpleMapper.cpp\<close>, \<open>SimpleSplitter.cpp\<close>): every miner has
  an upstream of its own, which is kept for a while when the miner leaves and may be given to the next
  one. Upstreams are shared by pointer between the two maps and the list of released ones, so they live in
  a store; a pointer is the identifier of the upstream, which is never used twice, and \<open>None\<close> is null.
  The sequence of identifiers does not reach \<open>2\<^sup>6\<^sup>4\<close>.
\<close>

section \<open>SimpleMapper\<close>

record simple_mapper =
  sm_active :: bool
  sm_dirty :: bool
  sm_donate :: "donate option"
  sm_pending :: "strategy option"
  sm_strategy :: strategy
  sm_job :: job
  sm_prevJob :: job
  sm_miner :: "int option"
  sm_id :: nat
  sm_idleTime :: u64
  sm_calls :: "strategy_call list"

definition sm_call :: "strategy_call \<Rightarrow> simple_mapper \<Rightarrow> simple_mapper" where
  "sm_call c sm = sm\<lparr>sm_calls := sm_calls sm @ [c]\<rparr>"

text \<open>\<open>h\<close> is the strategy the configured pools create. The donation strategy is never created.\<close>

definition sm_new :: "nat \<Rightarrow> strategy \<Rightarrow> simple_mapper" where
  "sm_new i h =
     \<lparr>sm_active = False, sm_dirty = False, sm_donate = None, sm_pending = None, sm_strategy = h,
      sm_job = job_default, sm_prevJob = job_default, sm_miner = None, sm_id = i, sm_idleTime = 0,
      sm_calls = [SCreate h]\<rparr>"

definition sm_isActive :: "simple_mapper \<Rightarrow> bool" where
  "sm_isActive sm \<longleftrightarrow> sm_active sm \<and> sm_miner sm \<noteq> None"

definition sm_isReusable :: "simple_mapper \<Rightarrow> bool" where
  "sm_isReusable sm \<longleftrightarrow> sm_active sm \<and> sm_miner sm = None \<and> \<not> sm_dirty sm"

definition sm_connect :: "simple_mapper \<Rightarrow> simple_mapper" where
  "sm_connect sm =
     (let sm = sm_call (SConnect (sm_strategy sm)) sm in sm\<lparr>sm_donate := map_option ds_connect (sm_donate sm)\<rparr>)"

definition sm_ext :: "config \<Rightarrow> nat \<Rightarrow> miner \<Rightarrow> miner" where
  "sm_ext cfg k m = m\<lparr>m_ext_algo := hasAlgoExt cfg, m_ext_nicehash := False, m_mapperId := int k\<rparr>"

definition sm_add :: "config \<Rightarrow> int \<Rightarrow> proc \<Rightarrow> simple_mapper \<Rightarrow> proc \<times> simple_mapper" where
  "sm_add cfg i p sm =
     (let sm = sm\<lparr>sm_miner := Some i\<rparr>; p = upd_miner (sm_ext cfg (sm_id sm)) i p in (p, sm_connect sm))"

definition sm_reload :: "strategy \<Rightarrow> simple_mapper \<Rightarrow> simple_mapper" where
  "sm_reload h sm =
     (let sm = (case sm_pending sm of Some s \<Rightarrow> sm_call (SDelete s) sm | None \<Rightarrow> sm);
          sm = sm_call (SCreate h) (sm\<lparr>sm_pending := Some h\<rparr>)
      in sm_call (SConnect h) sm)"

definition sm_remove :: "simple_mapper \<Rightarrow> simple_mapper" where
  "sm_remove sm = sm\<lparr>sm_miner := None, sm_dirty := True\<rparr>"

definition sm_reuse :: "int \<Rightarrow> proc \<Rightarrow> simple_mapper \<Rightarrow> proc \<times> simple_mapper" where
  "sm_reuse i p sm =
     (let sm = sm\<lparr>sm_idleTime := 0, sm_miner := Some i\<rparr>
      in (upd_miner (\<lambda>m. m\<lparr>m_mapperId := int (sm_id sm)\<rparr>) i p, sm))"

definition sm_stop :: "simple_mapper \<Rightarrow> simple_mapper" where
  "sm_stop sm =
     (let sm = sm_call (SStop (sm_strategy sm)) sm;
          sm = (case sm_pending sm of Some s \<Rightarrow> sm_call (SStop s) sm | None \<Rightarrow> sm)
      in sm\<lparr>sm_donate := map_option ds_stop (sm_donate sm)\<rparr>)"

definition sm_isValidJobId :: "cstr \<Rightarrow> simple_mapper \<Rightarrow> counters \<Rightarrow> bool \<times> counters" where
  "sm_isValidJobId i sm c = known_job (sm_job sm) (sm_prevJob sm) i c"

definition sm_submit :: "submit_event \<Rightarrow> proc \<Rightarrow> simple_mapper \<Rightarrow> submit_event \<times> proc \<times> simple_mapper" where
  "sm_submit ev p sm =
     (let (err, c) = share_verdict (sm_isActive sm) (sm_job sm) (sm_prevJob sm) (se_request ev) (p_cnt p);
          p = p\<lparr>p_cnt := c\<rparr> in
      if err \<noteq> NoError then (ev\<lparr>se_error := err\<rparr>, p, sm)
      else
        let req = (se_request ev)\<lparr>jr_diff := j_diff (sm_job sm)\<rparr>;
            sm = (case sm_donate sm of
                    Some d \<Rightarrow> if ds_active d then sm\<lparr>sm_donate := Some (ds_submit req d)\<rparr>
                              else sm_call (SSubmit (sm_strategy sm) req) sm
                  | None \<Rightarrow> sm_call (SSubmit (sm_strategy sm) req) sm)
        in (ev, p, sm))"

definition sm_tick :: "u64 \<Rightarrow> simple_mapper \<Rightarrow> simple_mapper" where
  "sm_tick now sm =
     (let sm = sm_call (STick (sm_strategy sm) now) sm;
          sm = (if sm_miner sm = None then sm\<lparr>sm_idleTime := sm_idleTime sm + 1\<rparr> else sm)
      in sm\<lparr>sm_donate := map_option (ds_tick now) (sm_donate sm)\<rparr>)"

definition sm_onActive :: "strategy \<Rightarrow> int \<Rightarrow> simple_mapper \<Rightarrow> simple_mapper" where
  "sm_onActive s client sm =
     (let sm = sm\<lparr>sm_active := True\<rparr> in
      if client = - 1 then sm
      else if sm_pending sm = Some s
      then (sm_call (SDelete (sm_strategy sm)) sm)\<lparr>sm_strategy := s, sm_pending := None\<rparr>
      else sm)"

definition sm_setJob :: "env \<Rightarrow> job \<Rightarrow> proc \<Rightarrow> simple_mapper \<Rightarrow> proc \<times> simple_mapper" where
  "sm_setJob env job p sm =
     (let sm = sm\<lparr>sm_prevJob := next_prevJob (sm_prevJob sm) (sm_job sm) job\<rparr>;
          sm = sm\<lparr>sm_job := job_copy (sm_job sm) job, sm_dirty := False\<rparr>
      in case sm_miner sm of
           None \<Rightarrow> (p, sm)
         | Some i \<Rightarrow> let (job, p) = proc_setJob env i (sm_job sm) (- 1) p in (p, sm\<lparr>sm_job := job\<rparr>))"

definition sm_onJob :: "env \<Rightarrow> config \<Rightarrow> int \<Rightarrow> job \<Rightarrow> proc \<Rightarrow> simple_mapper \<Rightarrow> proc \<times> simple_mapper" where
  "sm_onJob env cfg client job p sm =
     (case sm_donate sm of
        None \<Rightarrow> sm_setJob env job p sm
      | Some d \<Rightarrow>
          if ds_active d \<and> client \<noteq> - 1 then
            let (res, d) = ds_reschedule (cfg_donateLevel cfg) d; sm = sm\<lparr>sm_donate := Some d\<rparr>
            in if \<not> res then (p, sm) else sm_setJob env job p sm
          else sm_setJob env job p sm)"

definition sm_onPause :: "strategy \<Rightarrow> simple_mapper \<Rightarrow> simple_mapper" where
  "sm_onPause s sm = (if sm_strategy sm = s then sm\<lparr>sm_active := False\<rparr> else sm)"

text \<open>\<open>onResultAccepted\<close>: the accept event (its handlers run next), then the reply to the miner the
  upstream has now.\<close>

definition sm_accept_event :: "int \<Rightarrow> submit_result \<Rightarrow> cstr \<Rightarrow> simple_mapper \<Rightarrow> accept_event" where
  "sm_accept_event client result err sm =
     \<lparr>ae_mapperId = int (sm_id sm), ae_miner = sm_miner sm, ae_result = result, ae_donate = (client = - 1),
      ae_customDiff = False, ae_error = err\<rparr>"

definition sm_onResultAccepted ::
  "env \<Rightarrow> (accept_event \<Rightarrow> proc \<Rightarrow> proc) \<Rightarrow> int \<Rightarrow> submit_result \<Rightarrow> cstr \<Rightarrow> proc \<Rightarrow> simple_mapper \<Rightarrow> proc" where
  "sm_onResultAccepted env start client result err p sm =
     (let p = start (sm_accept_event client result err sm) p
      in case sm_miner sm of
           None \<Rightarrow> p
         | Some i \<Rightarrow>
             (case err of
                Some e \<Rightarrow> on_miner (replyWithError env (sr_reqId result) e) i p
              | None \<Rightarrow> on_miner (success env (sr_reqId result) ''OK'') i p))"

section \<open>SimpleSplitter\<close>

record simple_splitter =
  ss_objs :: "nat \<Rightarrow> simple_mapper option"
  ss_idles :: "(nat \<times> nat) list"
  ss_upstreams :: "(nat \<times> nat option) list"
  ss_released :: "nat list"
  ss_reuseTimeout :: u64
  ss_sequence :: nat

definition ss_new :: "config \<Rightarrow> simple_splitter" where
  "ss_new cfg =
     \<lparr>ss_objs = Map.empty, ss_idles = [], ss_upstreams = [], ss_released = [],
      ss_reuseTimeout = of_int (cfg_reuseTimeout cfg), ss_sequence = 0\<rparr>"

text \<open>Following a pointer to an upstream: null or a deleted one is a fault.\<close>

definition ss_at :: "nat option \<Rightarrow> simple_splitter \<Rightarrow> simple_mapper option" where
  "ss_at ptr ss = (case ptr of None \<Rightarrow> None | Some k \<Rightarrow> ss_objs ss k)"

definition ss_put :: "nat \<Rightarrow> simple_mapper \<Rightarrow> simple_splitter \<Rightarrow> simple_splitter" where
  "ss_put k sm ss = ss\<lparr>ss_objs := (ss_objs ss)(k \<mapsto> sm)\<rparr>"

definition ss_upstreams_info :: "simple_splitter \<Rightarrow> upstreams option" where
  "ss_upstreams_info ss =
     (let us = map (\<lambda>kv. ss_at (snd kv) ss) (ss_upstreams ss) in
      if None \<in> set us then None
      else Some (mk_upstreams (of_nat (length (List.filter sm_isActive (map the us))))
             (of_nat (length (ss_idles ss))) (of_nat (length (ss_upstreams ss)))))"

definition ss_removeIdle :: "nat \<Rightarrow> simple_splitter \<Rightarrow> simple_splitter" where
  "ss_removeIdle k ss = ss\<lparr>ss_idles := omap_del k (ss_idles ss)\<rparr>"

definition ss_removeUpstream :: "nat \<Rightarrow> simple_splitter \<Rightarrow> simple_splitter" where
  "ss_removeUpstream k ss = ss\<lparr>ss_upstreams := omap_del k (ss_upstreams ss)\<rparr>"

definition ss_stop :: "nat \<Rightarrow> proc \<Rightarrow> simple_splitter \<Rightarrow> proc \<times> simple_splitter" where
  "ss_stop k p ss =
     (case ss_objs ss k of
        None \<Rightarrow> (p\<lparr>p_fault := True\<rparr>, ss)
      | Some sm \<Rightarrow> (p, ss_put k (sm_stop sm) (ss_removeUpstream (sm_id sm) (ss_removeIdle (sm_id sm) ss))))"

text \<open>The loop of \<open>tick\<close> over the upstreams.\<close>

fun ss_tick_loop :: "u64 \<Rightarrow> (nat \<times> nat option) list \<Rightarrow> proc \<Rightarrow> simple_splitter \<Rightarrow> proc \<times> simple_splitter" where
  "ss_tick_loop now [] p ss = (p, ss)"
| "ss_tick_loop now ((k, ptr) # kvs) p ss =
     (case ptr of
        None \<Rightarrow> ss_tick_loop now kvs (p\<lparr>p_fault := True\<rparr>) ss
      | Some l \<Rightarrow>
          (case ss_objs ss l of
             None \<Rightarrow> ss_tick_loop now kvs (p\<lparr>p_fault := True\<rparr>) ss
           | Some sm \<Rightarrow>
               if sm_idleTime sm > ss_reuseTimeout ss
               then ss_tick_loop now kvs p (ss\<lparr>ss_released := ss_released ss @ [l]\<rparr>)
               else ss_tick_loop now kvs p (ss_put l (sm_tick now sm) ss)))"

fun ss_stop_all :: "nat list \<Rightarrow> proc \<Rightarrow> simple_splitter \<Rightarrow> proc \<times> simple_splitter" where
  "ss_stop_all [] p ss = (p, ss)"
| "ss_stop_all (k # ks) p ss = (let (p, ss) = ss_stop k p ss in ss_stop_all ks p ss)"

definition ss_delete_released :: "simple_splitter \<Rightarrow> simple_splitter" where
  "ss_delete_released ss = ss\<lparr>ss_objs := ss_objs ss |` (- set (ss_released ss)), ss_released := []\<rparr>"

definition ss_tick :: "u64 \<Rightarrow> proc \<Rightarrow> simple_splitter \<Rightarrow> proc \<times> simple_splitter" where
  "ss_tick now p ss =
     (let ss = ss_delete_released ss;
          (p, ss) = ss_tick_loop now (ss_upstreams ss) p ss
      in if ss_released ss = [] then (p, ss) else ss_stop_all (ss_released ss) p ss)"

text \<open>\<open>hs\<close> gives the strategies of the new pools.\<close>

fun ss_reload_loop :: "(nat \<Rightarrow> strategy) \<Rightarrow> (nat \<times> nat option) list \<Rightarrow> proc \<Rightarrow> simple_splitter \<Rightarrow> proc \<times> simple_splitter" where
  "ss_reload_loop hs [] p ss = (p, ss)"
| "ss_reload_loop hs ((k, ptr) # kvs) p ss =
     (case ss_at ptr ss of
        None \<Rightarrow> ss_reload_loop hs kvs (p\<lparr>p_fault := True\<rparr>) ss
      | Some sm \<Rightarrow> ss_reload_loop hs kvs p (ss_put (the ptr) (sm_reload (hs k) sm) ss))"

definition ss_onConfigChanged ::
  "config \<Rightarrow> bool \<Rightarrow> (nat \<Rightarrow> strategy) \<Rightarrow> proc \<Rightarrow> simple_splitter \<Rightarrow> proc \<times> simple_splitter" where
  "ss_onConfigChanged cfg changed hs p ss =
     (let ss = ss\<lparr>ss_reuseTimeout := of_int (cfg_reuseTimeout cfg)\<rparr>
      in if changed then ss_reload_loop hs (ss_upstreams ss) p ss else (p, ss))"

text \<open>The first idle upstream that may be reused; the outer \<open>None\<close> is a deleted upstream on the way.\<close>

fun ss_reusable :: "(nat \<times> nat) list \<Rightarrow> simple_splitter \<Rightarrow> (nat \<times> nat) option option" where
  "ss_reusable [] ss = Some None"
| "ss_reusable ((k, l) # kvs) ss =
     (case ss_objs ss l of
        Some sm \<Rightarrow> if sm_isReusable sm then Some (Some (k, l)) else ss_reusable kvs ss
      | None \<Rightarrow> None)"

text \<open>The loop variable refers to the map's node, which \<open>removeIdle\<close> frees before the pointer is read
  from it: a fault. What is read is what the node held.\<close>

definition ss_login :: "config \<Rightarrow> (nat \<Rightarrow> strategy) \<Rightarrow> login_event \<Rightarrow> proc \<Rightarrow> simple_splitter \<Rightarrow> proc \<times> simple_splitter" where
  "ss_login cfg hs ev p ss =
     (case p_objs p (le_miner ev) of
        None \<Rightarrow> (p\<lparr>p_fault := True\<rparr>, ss)
      | Some m \<Rightarrow>
          if m_routeId m \<noteq> - 1 then (p, ss)
          else
            (case ss_reusable (ss_idles ss) ss of
               None \<Rightarrow> (p\<lparr>p_fault := True\<rparr>, ss)
             | Some (Some (k, l)) \<Rightarrow>
                 (let ss = ss_removeIdle k ss; p = p\<lparr>p_fault := True\<rparr>;
                      (p, sm) = sm_reuse (le_miner ev) p (the (ss_objs ss l))
                  in (p, ss_put l sm ss))
             | Some None \<Rightarrow>
                 (let k = ss_sequence ss;
                      ss = ss\<lparr>ss_sequence := k + 1, ss_upstreams := omap_set k (Some k) (ss_upstreams ss)\<rparr>;
                      (p, sm) = sm_add cfg (le_miner ev) p (sm_new k (hs k))
                  in (p, ss_put k sm ss))))"

definition ss_remove :: "int \<Rightarrow> proc \<Rightarrow> simple_splitter \<Rightarrow> proc \<times> simple_splitter" where
  "ss_remove i p ss =
     (case p_objs p i of
        None \<Rightarrow> (p\<lparr>p_fault := True\<rparr>, ss)
      | Some m \<Rightarrow>
          let k = nat (m_mapperId m) in
          if m_mapperId m < 0 \<or> m_routeId m \<noteq> - 1 \<or> map_of (ss_upstreams ss) k = None then (p, ss)
          else
            (case map_of (ss_upstreams ss) k of
               Some (Some l) \<Rightarrow>
                 (case ss_objs ss l of
                    None \<Rightarrow> (p\<lparr>p_fault := True\<rparr>, ss)
                  | Some sm \<Rightarrow>
                      let ss = ss_put l (sm_remove sm) ss in
                      if ss_reuseTimeout ss = 0 then
                        let (p, ss) = ss_stop l p ss in (p, ss\<lparr>ss_released := ss_released ss @ [l]\<rparr>)
                      else (p, ss\<lparr>ss_idles := omap_set k l (ss_idles ss)\<rparr>))
             | _ \<Rightarrow> (p\<lparr>p_fault := True\<rparr>, ss)))"

text \<open>\<open>m_upstreams[mapperId]\<close> adds a null pointer when there is no entry.\<close>

definition ss_submit :: "submit_event \<Rightarrow> proc \<Rightarrow> simple_splitter \<Rightarrow> submit_event \<times> proc \<times> simple_splitter" where
  "ss_submit ev p ss =
     (case p_objs p (se_miner ev) of
        None \<Rightarrow> (ev, p\<lparr>p_fault := True\<rparr>, ss)
      | Some m \<Rightarrow>
          if m_mapperId m < 0 \<or> m_routeId m \<noteq> - 1 then (ev, p, ss)
          else
            let k = nat (m_mapperId m);
                ss = (if map_of (ss_upstreams ss) k = None
                      then ss\<lparr>ss_upstreams := omap_set k None (ss_upstreams ss)\<rparr> else ss)
            in (case the (map_of (ss_upstreams ss) k) of
                  None \<Rightarrow> (ev, p, ss)
                | Some l \<Rightarrow>
                    (case ss_objs ss l of
                       None \<Rightarrow> (ev, p\<lparr>p_fault := True\<rparr>, ss)
                     | Some sm \<Rightarrow> let (ev, p, sm) = sm_submit ev p sm in (ev, p, ss_put l sm ss))))"

end
