(* ===== verification/SimpleInv.thy ===== *)
theory SimpleInv
  imports Simple
begin

text \<open>
  Runs of the simple splitter: its pointers never dangle, each miner has an upstream of its own, and an
  idle upstream is released in time.
\<close>

section \<open>Runs\<close>

text \<open>The callbacks reach an upstream through its strategy, which lives as long as the upstream.
  \<open>SsProc p\<close> is everything the rest of the proxy does to its miners, which may do anything but touch their
  placement; the argument of \<open>SsResult\<close> is what the listeners of the accept event do. The close callback
  deletes the miner after the close event. The configuration is the one of the moment.\<close>

datatype ss_event =
    SsLogin config "nat \<Rightarrow> strategy" login_event
  | SsClose int
  | SsSubmit submit_event
  | SsTick u64
  | SsConfig config bool "nat \<Rightarrow> strategy"
  | SsActive nat strategy int
  | SsPause nat strategy
  | SsJob nat config int job
  | SsResult nat "accept_event \<Rightarrow> proc \<Rightarrow> proc" int submit_result cstr
  | SsProc proc

type_synonym ss_state = "proc \<times> simple_splitter"

definition ss_on :: "(proc \<Rightarrow> simple_mapper \<Rightarrow> proc \<times> simple_mapper) \<Rightarrow> nat \<Rightarrow> ss_state \<Rightarrow> ss_state" where
  "ss_on f k s = (case s of (p, ss) \<Rightarrow>
     (case ss_objs ss k of
        None \<Rightarrow> (p\<lparr>p_fault := True\<rparr>, ss)
      | Some sm \<Rightarrow> let (p, sm) = f p sm in (p, ss_put k sm ss)))"

fun ss_step :: "env \<Rightarrow> ss_state \<Rightarrow> ss_event \<Rightarrow> ss_state" where
  "ss_step env (p, ss) (SsLogin cfg hs ev) = ss_login cfg hs ev p ss"
| "ss_step env (p, ss) (SsClose i) = (let (p, ss) = ss_remove i p ss in (proc_delete i p, ss))"
| "ss_step env (p, ss) (SsSubmit ev) = snd (ss_submit ev p ss)"
| "ss_step env (p, ss) (SsTick now) = ss_tick now p ss"
| "ss_step env (p, ss) (SsConfig cfg changed hs) = ss_onConfigChanged cfg changed hs p ss"
| "ss_step env (p, ss) (SsActive k s client) = ss_on (\<lambda>p sm. (p, sm_onActive s client sm)) k (p, ss)"
| "ss_step env (p, ss) (SsPause k s) = ss_on (\<lambda>p sm. (p, sm_onPause s sm)) k (p, ss)"
| "ss_step env (p, ss) (SsJob k cfg client job) = ss_on (sm_onJob env cfg client job) k (p, ss)"
| "ss_step env (p, ss) (SsResult k start client result err) =
     ss_on (\<lambda>p sm. (sm_onResultAccepted env start client result err p sm, sm)) k (p, ss)"
| "ss_step env (p, ss) (SsProc p') = (p', ss)"

text \<open>The rest of the proxy: who is placed stays placed where it is, nobody else gets placed.\<close>

definition place_view :: "miner \<Rightarrow> int \<times> int" where
  "place_view m = (m_mapperId m, m_routeId m)"

definition keeps_places :: "proc \<Rightarrow> proc \<Rightarrow> bool" where
  "keeps_places p p' \<longleftrightarrow> (\<forall>i. if placed_miner (p_objs p i) then map_option place_view (p_objs p' i) = map_option place_view (p_objs p i)
     else \<not> placed_miner (p_objs p' i))"

fun ss_ok :: "ss_state \<Rightarrow> ss_event \<Rightarrow> bool" where
  "ss_ok (p, ss) (SsLogin cfg hs ev) = (case p_objs p (le_miner ev) of None \<Rightarrow> False | Some m \<Rightarrow> m_mapperId m < 0)"
| "ss_ok (p, ss) (SsClose i) = (p_objs p i \<noteq> None)"
| "ss_ok (p, ss) (SsActive k s client) = (ss_objs ss k \<noteq> None)"
| "ss_ok (p, ss) (SsPause k s) = (ss_objs ss k \<noteq> None)"
| "ss_ok (p, ss) (SsJob k cfg client job) = (ss_objs ss k \<noteq> None)"
| "ss_ok (p, ss) (SsResult k start client result err) = (ss_objs ss k \<noteq> None \<and> (\<forall>ae. keeps_places p (start ae p)))"
| "ss_ok (p, ss) (SsProc p') = keeps_places p p'"
| "ss_ok _ _ = True"

section \<open>The invariant\<close>

abbreviation ss_keys :: "simple_splitter \<Rightarrow> nat set" where
  "ss_keys ss \<equiv> fst ` set (ss_upstreams ss)"

definition ss_shape :: "simple_splitter \<Rightarrow> bool" where
  "ss_shape ss \<longleftrightarrow> omap_ok (ss_upstreams ss) \<and> omap_ok (ss_idles ss) \<and>
     (\<forall>k sm. ss_objs ss k = Some sm \<longrightarrow> sm_id sm = k \<and> k < ss_sequence ss \<and>
        (sm_miner sm \<noteq> None \<longrightarrow> k \<in> ss_keys ss \<and> sm_idleTime sm = 0)) \<and>
     (\<forall>k ptr. (k, ptr) \<in> set (ss_upstreams ss) \<longrightarrow> ptr = Some k \<and> ss_objs ss k \<noteq> None) \<and>
     (\<forall>k l. (k, l) \<in> set (ss_idles ss) \<longrightarrow> l = k \<and> k \<in> ss_keys ss \<and> (\<exists>sm. ss_objs ss k = Some sm \<and> sm_miner sm = None))"

text \<open>The upstreams that wait to be deleted.\<close>

definition ss_waiting :: "simple_splitter \<Rightarrow> bool" where
  "ss_waiting ss \<longleftrightarrow> (\<forall>k \<in> set (ss_released ss). ss_objs ss k \<noteq> None \<and> k \<notin> ss_keys ss)"

text \<open>The miner of an upstream is placed on it, and a placed miner is the miner of its upstream.\<close>

definition ss_places :: "proc \<Rightarrow> simple_splitter \<Rightarrow> bool" where
  "ss_places p ss \<longleftrightarrow>
     (\<forall>k sm i. ss_objs ss k = Some sm \<longrightarrow> sm_miner sm = Some i \<longrightarrow>
        (\<exists>m. p_objs p i = Some m \<and> m_routeId m = - 1 \<and> m_mapperId m = int k)) \<and>
     (\<forall>i m. p_objs p i = Some m \<longrightarrow> m_routeId m = - 1 \<longrightarrow> 0 \<le> m_mapperId m \<longrightarrow>
        (\<exists>sm. ss_objs ss (nat (m_mapperId m)) = Some sm \<and> sm_miner sm = Some i))"

definition ss_inv :: "ss_state \<Rightarrow> bool" where
  "ss_inv s \<longleftrightarrow> ss_shape (snd s) \<and> ss_waiting (snd s) \<and> ss_places (fst s) (snd s)"

lemma ss_shapeD:
  assumes "ss_shape ss"
  shows "omap_ok (ss_upstreams ss)" and "omap_ok (ss_idles ss)"
    and "ss_objs ss k = Some sm \<Longrightarrow> sm_id sm = k" and "ss_objs ss k = Some sm \<Longrightarrow> k < ss_sequence ss"
    and "ss_objs ss k = Some sm \<Longrightarrow> sm_miner sm = Some i \<Longrightarrow> k \<in> ss_keys ss \<and> sm_idleTime sm = 0"
    and "(k, ptr) \<in> set (ss_upstreams ss) \<Longrightarrow> ptr = Some k \<and> ss_objs ss k \<noteq> None"
    and "(k, l) \<in> set (ss_idles ss) \<Longrightarrow> l = k \<and> k \<in> ss_keys ss \<and> (\<exists>sm. ss_objs ss k = Some sm \<and> sm_miner sm = None)"
  using assms unfolding ss_shape_def by blast+

lemma ss_shapeI:
  assumes "omap_ok (ss_upstreams ss)" and "omap_ok (ss_idles ss)"
    and "\<And>k sm. ss_objs ss k = Some sm \<Longrightarrow> sm_id sm = k \<and> k < ss_sequence ss"
    and "\<And>k sm i. ss_objs ss k = Some sm \<Longrightarrow> sm_miner sm = Some i \<Longrightarrow> k \<in> ss_keys ss \<and> sm_idleTime sm = 0"
    and "\<And>k ptr. (k, ptr) \<in> set (ss_upstreams ss) \<Longrightarrow> ptr = Some k \<and> ss_objs ss k \<noteq> None"
    and "\<And>k l. (k, l) \<in> set (ss_idles ss) \<Longrightarrow> l = k \<and> k \<in> ss_keys ss \<and> (\<exists>sm. ss_objs ss k = Some sm \<and> sm_miner sm = None)"
  shows "ss_shape ss"
  unfolding ss_shape_def using assms by blast

lemma ss_placesD:
  assumes "ss_places p ss"
  shows "ss_objs ss k = Some sm \<Longrightarrow> sm_miner sm = Some i \<Longrightarrow>
      \<exists>m. p_objs p i = Some m \<and> m_routeId m = - 1 \<and> m_mapperId m = int k"
    and "p_objs p i = Some m \<Longrightarrow> m_routeId m = - 1 \<Longrightarrow> 0 \<le> m_mapperId m \<Longrightarrow>
      \<exists>sm. ss_objs ss (nat (m_mapperId m)) = Some sm \<and> sm_miner sm = Some i"
  using assms unfolding ss_places_def by blast+

lemma ss_placesI:
  assumes "\<And>k sm i. ss_objs ss k = Some sm \<Longrightarrow> sm_miner sm = Some i \<Longrightarrow>
      \<exists>m. p_objs p i = Some m \<and> m_routeId m = - 1 \<and> m_mapperId m = int k"
    and "\<And>i m. p_objs p i = Some m \<Longrightarrow> m_routeId m = - 1 \<Longrightarrow> 0 \<le> m_mapperId m \<Longrightarrow>
      \<exists>sm. ss_objs ss (nat (m_mapperId m)) = Some sm \<and> sm_miner sm = Some i"
  shows "ss_places p ss"
  unfolding ss_places_def using assms by blast

lemma ss_lookup: "ss_shape ss \<Longrightarrow> map_of (ss_upstreams ss) k = Some v \<longleftrightarrow> v = Some k \<and> k \<in> ss_keys ss"
  using omap_lookup_iff [OF ss_shapeD(1)] ss_shapeD(6) by force

lemma ss_lookup_None: "map_of (ss_upstreams ss) k = None \<longleftrightarrow> k \<notin> ss_keys ss"
  by (rule map_of_eq_None_iff)

lemma keeps_places_refl [simp]: "keeps_places p p"
  by (simp add: keeps_places_def)

lemma keeps_places_trans: "keeps_places p q \<Longrightarrow> keeps_places q r \<Longrightarrow> keeps_places p r"
proof -
  assume a: "keeps_places p q" "keeps_places q r"
  have v: "placed_miner a = placed_miner b" if "map_option place_view a = map_option place_view b" for a b
    using that by (cases a; cases b) (auto simp: place_view_def placed_miner_def)
  show ?thesis
    unfolding keeps_places_def
  proof (intro allI)
    fix i
    have "placed_miner (p_objs p i) \<Longrightarrow> map_option place_view (p_objs q i) = map_option place_view (p_objs p i)"
      "\<not> placed_miner (p_objs p i) \<Longrightarrow> \<not> placed_miner (p_objs q i)"
      "placed_miner (p_objs q i) \<Longrightarrow> map_option place_view (p_objs r i) = map_option place_view (p_objs q i)"
      "\<not> placed_miner (p_objs q i) \<Longrightarrow> \<not> placed_miner (p_objs r i)"
      using a unfolding keeps_places_def by metis+
    with v [of "p_objs q i" "p_objs p i"] show "if placed_miner (p_objs p i)
      then map_option place_view (p_objs r i) = map_option place_view (p_objs p i) else \<not> placed_miner (p_objs r i)"
      by (cases "placed_miner (p_objs p i)") simp_all
  qed
qed

lemma keeps_places_same: "proc_same miner_view p p' \<Longrightarrow> keeps_places p p'"
proof -
  assume s: "proc_same miner_view p p'"
  have "map_option place_view (p_objs p' i) = map_option place_view (p_objs p i)" for i
    using proc_same_mono [OF s, of place_view] unfolding proc_same_def
    by (simp add: miner_view_def miner_core_def place_view_def)
  moreover have "placed_miner a = placed_miner b" if "map_option place_view a = map_option place_view b" for a b
    using that by (cases a; cases b) (auto simp: place_view_def placed_miner_def)
  ultimately show ?thesis unfolding keeps_places_def by metis
qed

lemma keeps_places_objs: "p_objs p' = p_objs p \<Longrightarrow> keeps_places p p'"
  by (simp add: keeps_places_def)

lemma ss_places_keep:
  assumes "ss_places p ss" and k: "keeps_places p p'"
  shows "ss_places p' ss"
proof (rule ss_placesI)
  have c: "if placed_miner (p_objs p i) then map_option place_view (p_objs p' i) = map_option place_view (p_objs p i)
     else \<not> placed_miner (p_objs p' i)" for i
    using k unfolding keeps_places_def by blast
  {
    fix k sm i
    assume "ss_objs ss k = Some sm" "sm_miner sm = Some i"
    from ss_placesD(1) [OF assms(1) this] obtain m where m: "p_objs p i = Some m" "m_routeId m = - 1" "m_mapperId m = int k"
      by blast
    then have "map_option place_view (p_objs p' i) = Some (place_view m)" using c [of i] by (simp add: placed_miner_def)
    then show "\<exists>m. p_objs p' i = Some m \<and> m_routeId m = - 1 \<and> m_mapperId m = int k"
      using m by (auto simp: place_view_def)
  next
    fix i m'
    assume m': "p_objs p' i = Some m'" "m_routeId m' = - 1" "0 \<le> m_mapperId m'"
    then have "placed_miner (p_objs p' i)" by (simp add: placed_miner_def)
    then have "map_option place_view (p_objs p i) = Some (place_view m')" using c [of i] m'(1) by (metis option.simps(9))
    then obtain m where "p_objs p i = Some m" "m_mapperId m = m_mapperId m'" "m_routeId m = - 1"
      using m'(2) by (auto simp: place_view_def)
    then show "\<exists>sm. ss_objs ss (nat (m_mapperId m')) = Some sm \<and> sm_miner sm = Some i"
      using ss_placesD(2) [OF assms(1)] m'(3) by metis
  }
qed

section \<open>One upstream\<close>

lemma ss_put_simps [simp]:
  "ss_objs (ss_put k sm ss) = (ss_objs ss)(k \<mapsto> sm)" "ss_idles (ss_put k sm ss) = ss_idles ss"
  "ss_upstreams (ss_put k sm ss) = ss_upstreams ss" "ss_released (ss_put k sm ss) = ss_released ss"
  "ss_sequence (ss_put k sm ss) = ss_sequence ss" "ss_reuseTimeout (ss_put k sm ss) = ss_reuseTimeout ss"
  by (simp_all add: ss_put_def)

text \<open>An operation on one upstream that keeps its number and its miner.\<close>

lemma ss_shape_put:
  assumes s: "ss_shape ss" and k: "ss_objs ss k = Some sm" and sm': "sm_id sm' = sm_id sm"
    and m: "sm_miner sm' = sm_miner sm \<or> sm_miner sm' = None" and t: "sm_miner sm' \<noteq> None \<Longrightarrow> sm_idleTime sm' = 0"
  shows "ss_shape (ss_put k sm' ss)"
proof (rule ss_shapeI)
  note D = ss_shapeD [OF s]
  show "omap_ok (ss_upstreams (ss_put k sm' ss))" "omap_ok (ss_idles (ss_put k sm' ss))" using D(1,2) by simp_all
  fix l sm2
  show "sm_id sm2 = l \<and> l < ss_sequence (ss_put k sm' ss)" if "ss_objs (ss_put k sm' ss) l = Some sm2"
    using that D(3,4) k sm' by (cases "l = k") auto
  show "l \<in> ss_keys (ss_put k sm' ss) \<and> sm_idleTime sm2 = 0"
    if "ss_objs (ss_put k sm' ss) l = Some sm2" "sm_miner sm2 = Some i" for i
  proof (cases "l = k")
    case True
    then have "sm_miner sm = Some i" "sm_miner sm' = Some i" "sm2 = sm'" using that m by auto
    then show ?thesis using True D(5) [OF k] t by simp
  next
    case False
    then show ?thesis using that D(5) [of l sm2 i] by simp
  qed
  show "ptr = Some l \<and> ss_objs (ss_put k sm' ss) l \<noteq> None" if "(l, ptr) \<in> set (ss_upstreams (ss_put k sm' ss))" for ptr
    using that D(6) by simp
  show "l' = l \<and> l \<in> ss_keys (ss_put k sm' ss) \<and> (\<exists>sm. ss_objs (ss_put k sm' ss) l = Some sm \<and> sm_miner sm = None)"
    if "(l, l') \<in> set (ss_idles (ss_put k sm' ss))" for l'
    using that D(7) [of l l'] k m by (cases "l = k") auto
qed

lemma ss_places_put:
  assumes "ss_places p ss" and "ss_objs ss k = Some sm" and "sm_miner sm' = sm_miner sm"
  shows "ss_places p (ss_put k sm' ss)"
proof (rule ss_placesI)
  fix l sm2 i
  assume a: "ss_objs (ss_put k sm' ss) l = Some sm2" "sm_miner sm2 = Some i"
  then obtain sm3 where "ss_objs ss l = Some sm3" "sm_miner sm3 = Some i" using assms(2,3) by (cases "l = k") auto
  from ss_placesD(1) [OF assms(1) this] show "\<exists>m. p_objs p i = Some m \<and> m_routeId m = - 1 \<and> m_mapperId m = int l" .
next
  fix i m
  assume "p_objs p i = Some m" "m_routeId m = - 1" "0 \<le> m_mapperId m"
  from ss_placesD(2) [OF assms(1) this] show "\<exists>sm. ss_objs (ss_put k sm' ss) (nat (m_mapperId m)) = Some sm \<and> sm_miner sm = Some i"
    using assms(2,3) by auto
qed

lemma ss_waiting_put: "ss_waiting ss \<Longrightarrow> ss_waiting (ss_put k sm ss)"
  by (auto simp: ss_waiting_def)

lemma ss_inv_on:
  assumes inv: "ss_inv (p, ss)" and k: "ss_objs ss k \<noteq> None"
    and f: "\<And>sm p' sm'. ss_objs ss k = Some sm \<Longrightarrow> f p sm = (p', sm') \<Longrightarrow>
      keeps_places p p' \<and> sm_id sm' = sm_id sm \<and> sm_miner sm' = sm_miner sm \<and> sm_idleTime sm' = sm_idleTime sm"
  shows "ss_inv (ss_on f k (p, ss))"
proof -
  obtain sm p' sm' where sm: "ss_objs ss k = Some sm" "f p sm = (p', sm')" using k by fastforce
  note x = f [OF sm]
  have s: "ss_shape ss" and w: "ss_waiting ss" and pl: "ss_places p ss" using inv by (simp_all add: ss_inv_def)
  have "sm_miner sm' \<noteq> None \<Longrightarrow> sm_idleTime sm' = 0" using x ss_shapeD(5) [OF s sm(1)] by auto
  then have "ss_shape (ss_put k sm' ss)" using ss_shape_put [OF s sm(1), of sm'] x by blast
  moreover have "ss_places p' (ss_put k sm' ss)"
    using ss_places_put [OF ss_places_keep [OF pl] sm(1)] x by blast
  ultimately show ?thesis using w by (simp add: ss_inv_def ss_on_def sm ss_waiting_put)
qed

lemma sm_setJob_keeps:
  assumes "sm_setJob env job p sm = (p', sm')"
  shows "keeps_places p p' \<and> sm_id sm' = sm_id sm \<and> sm_miner sm' = sm_miner sm \<and> sm_idleTime sm' = sm_idleTime sm"
proof -
  have k: "keeps_places p p1" if "proc_setJob env i j x p = (j1, p1)" for i j x j1 p1
    using keeps_places_same [OF proc_setJob_same [of p env i j x]] that by simp
  show ?thesis using assms by (auto simp: sm_setJob_def Let_def split: option.splits prod.splits dest: k)
qed

lemma sm_onJob_keeps:
  assumes "sm_onJob env cfg client job p sm = (p', sm')"
  shows "keeps_places p p' \<and> sm_id sm' = sm_id sm \<and> sm_miner sm' = sm_miner sm \<and> sm_idleTime sm' = sm_idleTime sm"
  using assms by (auto simp: sm_onJob_def Let_def split: option.splits if_splits prod.splits dest: sm_setJob_keeps)

lemma sm_result_keeps:
  assumes "\<And>ae. keeps_places p (start ae p)"
  shows "keeps_places p (sm_onResultAccepted env start client result err p sm)"
proof -
  have "keeps_places q (on_miner (replyWithError env k msg) i q)" "keeps_places q (on_miner (success env k msg) i q)" for q k msg i
    by (rule keeps_places_same, rule reply_same)+
  then show ?thesis
    using assms keeps_places_trans by (fastforce simp: sm_onResultAccepted_def Let_def split: option.splits)
qed

section \<open>Login\<close>

lemma upd_miner_at: "p_objs (upd_miner g i p) j = (if j = i then map_option g (p_objs p i) else p_objs p j)"
  by (auto simp: upd_miner_def on_miner_def put_miner_def split: option.splits)

text \<open>A miner that had no place gets upstream \<open>k\<close>, which had no miner.\<close>

lemma ss_places_join:
  assumes pl: "ss_places p ss" and m: "p_objs p i = Some m" "m_mapperId m < 0" "m_routeId m = - 1"
    and p': "\<And>j. j \<noteq> i \<Longrightarrow> p_objs p' j = p_objs p j" "p_objs p' i = Some m'" "m_mapperId m' = int k" "m_routeId m' = - 1"
    and o: "\<And>l. l \<noteq> k \<Longrightarrow> ss_objs ss' l = ss_objs ss l" "ss_objs ss' k = Some sm'" "sm_miner sm' = Some i"
    and free: "\<And>sm. ss_objs ss k = Some sm \<Longrightarrow> sm_miner sm = None"
  shows "ss_places p' ss'"
proof (rule ss_placesI)
  fix l sm j
  assume a: "ss_objs ss' l = Some sm" "sm_miner sm = Some j"
  show "\<exists>m. p_objs p' j = Some m \<and> m_routeId m = - 1 \<and> m_mapperId m = int l"
  proof (cases "l = k")
    case False
    with a o(1) have "ss_objs ss l = Some sm" by simp
    from ss_placesD(1) [OF pl this a(2)] have x: "\<exists>m. p_objs p j = Some m \<and> m_routeId m = - 1 \<and> m_mapperId m = int l" .
    then have "j \<noteq> i" using m by auto
    with x p'(1) show ?thesis by simp
  qed (use a o p' in auto)
next
  fix j mj
  assume a: "p_objs p' j = Some mj" "m_routeId mj = - 1" "0 \<le> m_mapperId mj"
  show "\<exists>sm. ss_objs ss' (nat (m_mapperId mj)) = Some sm \<and> sm_miner sm = Some j"
  proof (cases "j = i")
    case False
    with a p'(1) have "p_objs p j = Some mj" by simp
    from ss_placesD(2) [OF pl this a(2,3)] obtain sm where sm: "ss_objs ss (nat (m_mapperId mj)) = Some sm" "sm_miner sm = Some j"
      by blast
    then have "nat (m_mapperId mj) \<noteq> k" using free by force
    then show ?thesis using sm o(1) by simp
  qed (use a p' o in simp)
qed

lemma ss_reusable_idle: "ss_reusable kvs ss = Some (Some (k, l)) \<Longrightarrow>
    (k, l) \<in> set kvs \<and> (\<exists>sm. ss_objs ss l = Some sm \<and> sm_isReusable sm)"
  by (induction kvs ss rule: ss_reusable.induct) (auto split: option.splits if_splits)

lemma ss_reusable_live:
  "(\<And>k l. (k, l) \<in> set kvs \<Longrightarrow> ss_objs ss l \<noteq> None) \<Longrightarrow> ss_reusable kvs ss \<noteq> None"
  by (induction kvs ss rule: ss_reusable.induct) (fastforce split: option.splits)+

lemma ss_login_inv:
  assumes inv: "ss_inv (p, ss)" and m: "p_objs p (le_miner ev) = Some m" "m_mapperId m < 0"
  shows "ss_inv (ss_login cfg hs ev p ss)"
proof (cases "m_routeId m = - 1")
  case False
  then show ?thesis using inv m by (simp add: ss_login_def)
next
  case True
  let ?i = "le_miner ev"
  have s: "ss_shape ss" and w: "ss_waiting ss" and pl: "ss_places p ss" using inv by (simp_all add: ss_inv_def)
  note D = ss_shapeD [OF s]
  have "ss_reusable (ss_idles ss) ss \<noteq> None" using D(7) by (intro ss_reusable_live) blast
  then consider (reuse) k l where "ss_reusable (ss_idles ss) ss = Some (Some (k, l))"
    | (new) "ss_reusable (ss_idles ss) ss = Some None"
    by force
  then show ?thesis
  proof cases
    case reuse
    from ss_reusable_idle [OF this] have kl: "l = k" "k \<in> ss_keys ss" using D(7) by blast+
    then obtain sm where sm: "ss_objs ss k = Some sm" "sm_miner sm = None" "sm_isReusable sm"
      using ss_reusable_idle [OF reuse] by (auto simp: sm_isReusable_def)
    let ?p = "upd_miner (\<lambda>m. m\<lparr>m_mapperId := int (sm_id sm)\<rparr>) ?i (p\<lparr>p_fault := True\<rparr>)"
    let ?sm = "sm\<lparr>sm_idleTime := 0, sm_miner := Some ?i\<rparr>" and ?ss = "ss_removeIdle k ss"
    have e: "ss_login cfg hs ev p ss = (?p, ss_put k ?sm ?ss)"
      using m True reuse kl sm by (simp add: ss_login_def sm_reuse_def ss_removeIdle_def)
    have "ss_shape (ss_put k ?sm ?ss)"
      by (rule ss_shapeI) (use D sm kl(2) in \<open>auto simp: ss_removeIdle_def split: if_splits\<close>)
    moreover have "ss_waiting (ss_put k ?sm ?ss)" using w by (auto simp: ss_waiting_def ss_removeIdle_def)
    moreover have "ss_places ?p (ss_put k ?sm ?ss)"
      by (rule ss_places_join [OF pl m True, where sm' = ?sm and k = k and m' = "m\<lparr>m_mapperId := int k\<rparr>"])
         (use m sm True D(3) [OF sm(1)] in \<open>auto simp: upd_miner_at ss_removeIdle_def\<close>)
    ultimately show ?thesis by (simp add: e ss_inv_def)
  next
    case new
    let ?k = "ss_sequence ss"
    have fresh: "ss_objs ss ?k = None" using D(4) [of ?k] by (cases "ss_objs ss ?k") auto
    then have nk: "?k \<notin> ss_keys ss" using D(6) by force
    let ?ss = "ss\<lparr>ss_sequence := ?k + 1, ss_upstreams := omap_set ?k (Some ?k) (ss_upstreams ss)\<rparr>"
    let ?sm = "sm_connect ((sm_new ?k (hs ?k))\<lparr>sm_miner := Some ?i\<rparr>)" and ?p = "upd_miner (sm_ext cfg ?k) ?i p"
    have sm: "sm_id ?sm = ?k" "sm_miner ?sm = Some ?i" "sm_idleTime ?sm = 0"
      by (simp_all add: sm_connect_def sm_call_def sm_new_def Let_def)
    have e: "ss_login cfg hs ev p ss = (?p, ss_put ?k ?sm ?ss)"
      using m True new by (simp add: ss_login_def sm_add_def Let_def) (simp add: sm_new_def)
    have ups: "(l, ptr) \<in> set (omap_set ?k (Some ?k) (ss_upstreams ss)) \<Longrightarrow>
        (l, ptr) \<in> set (ss_upstreams ss) \<or> l = ?k \<and> ptr = Some ?k" for l ptr
      using omap_lookup_iff [OF omap_set_ok [OF D(1)], of ?k "Some ?k" l ptr] omap_lookup_iff [OF D(1), of l ptr]
      by (auto split: if_splits)
    have "ss_shape (ss_put ?k ?sm ?ss)"
    proof (rule ss_shapeI)
      show "omap_ok (ss_upstreams (ss_put ?k ?sm ?ss))" "omap_ok (ss_idles (ss_put ?k ?sm ?ss))" using D(1,2) by simp_all
      fix l
      show "sm_id sm2 = l \<and> l < ss_sequence (ss_put ?k ?sm ?ss)" if "ss_objs (ss_put ?k ?sm ?ss) l = Some sm2" for sm2
        using that D(3,4) [of l] sm(1) by (cases "l = ?k") auto
      show "l \<in> ss_keys (ss_put ?k ?sm ?ss) \<and> sm_idleTime sm2 = 0"
        if "ss_objs (ss_put ?k ?sm ?ss) l = Some sm2" "sm_miner sm2 = Some i" for sm2 i
        using that D(5) [of l] sm by (cases "l = ?k") auto
      show "ptr = Some l \<and> ss_objs (ss_put ?k ?sm ?ss) l \<noteq> None" if "(l, ptr) \<in> set (ss_upstreams (ss_put ?k ?sm ?ss))" for ptr
        using ups [of l ptr] that D(6) [of l ptr] by auto
      show "l' = l \<and> l \<in> ss_keys (ss_put ?k ?sm ?ss) \<and> (\<exists>sm. ss_objs (ss_put ?k ?sm ?ss) l = Some sm \<and> sm_miner sm = None)"
        if "(l, l') \<in> set (ss_idles (ss_put ?k ?sm ?ss))" for l'
        using that D(7) [of l l'] fresh by auto
    qed
    moreover have "ss_waiting (ss_put ?k ?sm ?ss)" using w fresh by (auto simp: ss_waiting_def)
    moreover have "ss_places ?p (ss_put ?k ?sm ?ss)"
      by (rule ss_places_join [OF pl m True, where sm' = ?sm and k = ?k and m' = "sm_ext cfg ?k m"])
         (use m sm True fresh in \<open>auto simp: upd_miner_at sm_ext_def\<close>)
    ultimately show ?thesis by (simp add: e ss_inv_def)
  qed
qed

section \<open>Leaving\<close>

text \<open>An upstream without a miner is stopped: it leaves the maps.\<close>

lemma ss_stop_idle:
  assumes s: "ss_shape ss" and k: "ss_objs ss k = Some sm" "sm_miner sm = None" and st: "ss_stop k p ss = (p', ss')"
  shows "p' = p" and "ss_shape ss'" and "ss_keys ss' = ss_keys ss - {k}" and "ss_released ss' = ss_released ss"
    and "ss_objs ss' = (ss_objs ss)(k \<mapsto> sm_stop sm)" and "ss_reuseTimeout ss' = ss_reuseTimeout ss"
proof -
  note D = ss_shapeD [OF s]
  have i: "sm_id sm = k" by (rule D(3) [OF k(1)])
  have m: "sm_miner (sm_stop sm) = None" "sm_id (sm_stop sm) = k"
    using k(2) i by (simp_all add: sm_stop_def sm_call_def Let_def split: option.splits)
  have e: "p' = p" "ss' = ss_put k (sm_stop sm) (ss_removeUpstream k (ss_removeIdle k ss))"
    using st k i by (simp_all add: ss_stop_def)
  show "p' = p" "ss_released ss' = ss_released ss" "ss_objs ss' = (ss_objs ss)(k \<mapsto> sm_stop sm)"
    "ss_reuseTimeout ss' = ss_reuseTimeout ss"
    by (simp_all add: e ss_removeUpstream_def ss_removeIdle_def)
  show keys: "ss_keys ss' = ss_keys ss - {k}"
    by (auto simp: e ss_removeUpstream_def ss_removeIdle_def image_iff)
  show "ss_shape ss'"
  proof (rule ss_shapeI)
    show "omap_ok (ss_upstreams ss')" "omap_ok (ss_idles ss')"
      using D(1,2) by (simp_all add: e ss_removeUpstream_def ss_removeIdle_def)
    have o: "ss_objs ss' = (ss_objs ss)(k \<mapsto> sm_stop sm)" "ss_sequence ss' = ss_sequence ss"
      by (simp_all add: e ss_removeUpstream_def ss_removeIdle_def)
    fix l
    show "sm_id sm2 = l \<and> l < ss_sequence ss'" if "ss_objs ss' l = Some sm2" for sm2
      using that D(3,4) k m(2) unfolding o by (cases "l = k") auto
    show "l \<in> ss_keys ss' \<and> sm_idleTime sm2 = 0" if "ss_objs ss' l = Some sm2" "sm_miner sm2 = Some i" for sm2 i
      using that D(5) m(1) unfolding o keys by (cases "l = k") auto
    show "ptr = Some l \<and> ss_objs ss' l \<noteq> None" if "(l, ptr) \<in> set (ss_upstreams ss')" for ptr
      using that D(6) [of l ptr] by (simp add: e ss_removeUpstream_def ss_removeIdle_def)
    show "l' = l \<and> l \<in> ss_keys ss' \<and> (\<exists>sm. ss_objs ss' l = Some sm \<and> sm_miner sm = None)"
      if "(l, l') \<in> set (ss_idles ss')" for l'
    proof -
      have l: "(l, l') \<in> set (ss_idles ss)" "l \<noteq> k" using that by (auto simp: e ss_removeUpstream_def ss_removeIdle_def)
      from D(7) [OF l(1)] l(2) show ?thesis unfolding o keys by auto
    qed
  qed
qed

lemma ss_places_miners:
  assumes "ss_places p ss"
    and "\<And>k sm i. ss_objs ss' k = Some sm \<Longrightarrow> sm_miner sm = Some i \<Longrightarrow> \<exists>sm. ss_objs ss k = Some sm \<and> sm_miner sm = Some i"
    and "\<And>k sm i. ss_objs ss k = Some sm \<Longrightarrow> sm_miner sm = Some i \<Longrightarrow> \<exists>sm. ss_objs ss' k = Some sm \<and> sm_miner sm = Some i"
  shows "ss_places p ss'"
  using assms(1) unfolding ss_places_def by (meson assms(2,3))

lemma ss_places_leave:
  assumes pl: "ss_places p ss" and k: "ss_objs ss k = Some sm" "sm_miner sm = Some i"
    and o: "\<And>l. l \<noteq> k \<Longrightarrow> ss_objs ss' l = ss_objs ss l" "ss_objs ss' k = Some sm'" "sm_miner sm' = None"
  shows "ss_places (proc_delete i p) ss'"
proof (rule ss_placesI)
  from ss_placesD(1) [OF pl k] obtain m where m: "p_objs p i = Some m" "m_mapperId m = int k" by blast
  have d: "p_objs (proc_delete i p) j = (if j = i then None else p_objs p j)" for j
    using m by (simp add: proc_delete_def)
  fix l sm2 j
  assume a: "ss_objs ss' l = Some sm2" "sm_miner sm2 = Some j"
  then have "l \<noteq> k" using o(2,3) by auto
  then have l: "l \<noteq> k" "ss_objs ss l = Some sm2" using a(1) o(1) [of l] by simp_all
  from ss_placesD(1) [OF pl l(2) a(2)] obtain mj where mj: "p_objs p j = Some mj" "m_routeId mj = - 1" "m_mapperId mj = int l" by blast
  then have "j \<noteq> i" using m l(1) by auto
  then show "\<exists>m. p_objs (proc_delete i p) j = Some m \<and> m_routeId m = - 1 \<and> m_mapperId m = int l" using mj d by simp
next
  from ss_placesD(1) [OF pl k] obtain m where m: "p_objs p i = Some m" "m_mapperId m = int k" by blast
  fix j mj
  assume a: "p_objs (proc_delete i p) j = Some mj" "m_routeId mj = - 1" "0 \<le> m_mapperId mj"
  then have j: "j \<noteq> i" "p_objs p j = Some mj" using m by (auto simp: proc_delete_def split: if_splits)
  from ss_placesD(2) [OF pl j(2) a(2,3)] obtain sm2 where sm2: "ss_objs ss (nat (m_mapperId mj)) = Some sm2" "sm_miner sm2 = Some j"
    by blast
  then have "nat (m_mapperId mj) \<noteq> k" using k j(1) by auto
  then show "\<exists>sm. ss_objs ss' (nat (m_mapperId mj)) = Some sm \<and> sm_miner sm = Some j" using o(1) sm2 by simp
qed

lemma ss_places_unplaced:
  assumes "ss_places p ss" and "\<not> placed_miner (p_objs p i)"
  shows "ss_places (proc_delete i p) ss"
proof (rule ss_places_keep [OF assms(1)])
  show "keeps_places p (proc_delete i p)"
    using assms(2) by (auto simp: keeps_places_def proc_delete_def placed_miner_def split: option.splits)
qed

text \<open>What the end of a miner does to its upstream, as the two cases of the timeout.\<close>

lemma ss_remove_placed:
  assumes s: "ss_shape ss" and pl: "ss_places p ss" and m: "p_objs p i = Some m" "m_routeId m = - 1" "0 \<le> m_mapperId m"
    and r: "ss_remove i p ss = (p', ss')"
  obtains sm sm' where "ss_objs ss (nat (m_mapperId m)) = Some sm" and "sm_miner sm = Some i" and "p' = p" and "ss_shape ss'"
    and "ss_objs ss' = (ss_objs ss)(nat (m_mapperId m) \<mapsto> sm')" and "sm_miner sm' = None"
    and "ss_reuseTimeout ss = 0 \<Longrightarrow> nat (m_mapperId m) \<notin> ss_keys ss' \<and> ss_released ss' = ss_released ss @ [nat (m_mapperId m)]"
    and "ss_reuseTimeout ss \<noteq> 0 \<Longrightarrow> ss_released ss' = ss_released ss \<and> (nat (m_mapperId m), nat (m_mapperId m)) \<in> set (ss_idles ss')"
    and "ss_keys ss' \<subseteq> ss_keys ss"
proof -
  let ?k = "nat (m_mapperId m)"
  from ss_placesD(2) [OF pl m] obtain sm where sm: "ss_objs ss ?k = Some sm" "sm_miner sm = Some i" by blast
  note D = ss_shapeD [OF s]
  have key: "?k \<in> ss_keys ss" using D(5) [OF sm] by blast
  then have lk: "map_of (ss_upstreams ss) ?k = Some (Some ?k)" using ss_lookup [OF s] by blast
  let ?sm = "sm_remove sm" and ?ss = "ss_put ?k (sm_remove sm) ss"
  have rm: "sm_miner ?sm = None" "sm_id ?sm = sm_id sm" by (simp_all add: sm_remove_def)
  have s1: "ss_shape ?ss" using ss_shape_put [OF s sm(1), of ?sm] rm by simp
  show thesis
  proof (cases "ss_reuseTimeout ss = 0")
    case True
    obtain p2 ss2 where st: "ss_stop ?k p ?ss = (p2, ss2)" by fastforce
    note x = ss_stop_idle [OF s1 _ rm(1) st, simplified]
    have e: "p' = p2" "ss' = ss2\<lparr>ss_released := ss_released ss2 @ [?k]\<rparr>"
      using r m lk sm True st by (simp_all add: ss_remove_def Let_def)
    have sh: "ss_shape ss'" using x(2) by (simp add: e ss_shape_def)
    show thesis
      by (rule that [OF sm, of "sm_stop ?sm"])
         (use x rm sh True e in \<open>auto simp: sm_stop_def sm_call_def Let_def split: option.splits\<close>)
  next
    case False
    have e: "p' = p" "ss' = ?ss\<lparr>ss_idles := omap_set ?k ?k (ss_idles ss)\<rparr>"
      using r m lk sm False by (simp_all add: ss_remove_def Let_def)
    note D1 = ss_shapeD [OF s1]
    have ids: "(l, l') \<in> set (omap_set ?k ?k (ss_idles ss)) \<longleftrightarrow> (if l = ?k then l' = ?k else (l, l') \<in> set (ss_idles ss))" for l l'
      using omap_lookup_iff [OF omap_set_ok [OF D(2)], of ?k ?k l l'] omap_lookup_iff [OF D(2), of l l'] by auto
    have sh: "ss_shape ss'"
    proof (rule ss_shapeI)
      show "omap_ok (ss_upstreams ss')" "omap_ok (ss_idles ss')" using D1(1,2) by (simp_all add: e)
      have k: "ss_keys ss' = ss_keys ?ss" "ss_objs ss' = ss_objs ?ss" "ss_sequence ss' = ss_sequence ?ss" by (simp_all add: e)
      fix l
      show "sm_id sm2 = l \<and> l < ss_sequence ss'" if "ss_objs ss' l = Some sm2" for sm2
        using D1(3,4) [of l sm2] that unfolding k by blast
      show "l \<in> ss_keys ss' \<and> sm_idleTime sm2 = 0" if "ss_objs ss' l = Some sm2" "sm_miner sm2 = Some j" for sm2 j
        using D1(5) [of l sm2 j] that unfolding k by blast
      show "ptr = Some l \<and> ss_objs ss' l \<noteq> None" if "(l, ptr) \<in> set (ss_upstreams ss')" for ptr
        using D1(6) [of l ptr] that by (simp add: e)
      show "l' = l \<and> l \<in> ss_keys ss' \<and> (\<exists>sm. ss_objs ss' l = Some sm \<and> sm_miner sm = None)"
        if "(l, l') \<in> set (ss_idles ss')" for l'
        using that D1(7) [of l l'] ids [of l l'] key rm(1) unfolding k by (cases "l = ?k") (auto simp: e)
    qed
    show thesis
      by (rule that [OF sm, of ?sm]) (use rm sh False e ids in auto)
  qed
qed

lemma ss_close_inv:
  assumes inv: "ss_inv (p, ss)" and m: "p_objs p i = Some m" and r: "ss_remove i p ss = (p', ss')"
  shows "ss_inv (proc_delete i p', ss')"
proof -
  have s: "ss_shape ss" and w: "ss_waiting ss" and pl: "ss_places p ss" using inv by (simp_all add: ss_inv_def)
  show ?thesis
  proof (cases "m_routeId m = - 1 \<and> 0 \<le> m_mapperId m")
    case False
    then have "p' = p" "ss' = ss" "\<not> placed_miner (p_objs p i)" using r m by (auto simp: ss_remove_def placed_miner_def)
    then show ?thesis using ss_places_unplaced [OF pl] s w by (simp add: ss_inv_def)
  next
    case True
    let ?k = "nat (m_mapperId m)"
    from ss_remove_placed [OF s pl m _ _ r] True obtain sm sm' where
      x: "ss_objs ss ?k = Some sm" "sm_miner sm = Some i" "p' = p" "ss_shape ss'" "ss_objs ss' = (ss_objs ss)(?k \<mapsto> sm')"
      "sm_miner sm' = None"
      "ss_reuseTimeout ss = 0 \<Longrightarrow> ?k \<notin> ss_keys ss' \<and> ss_released ss' = ss_released ss @ [?k]"
      "ss_reuseTimeout ss \<noteq> 0 \<Longrightarrow> ss_released ss' = ss_released ss \<and> (?k, ?k) \<in> set (ss_idles ss')"
      "ss_keys ss' \<subseteq> ss_keys ss"
      by blast
    have "ss_places (proc_delete i p') ss'"
      unfolding x(3) by (rule ss_places_leave [OF pl x(1,2), of ss' sm']) (use x(5,6) in auto)
    moreover have "ss_waiting ss'"
      unfolding ss_waiting_def
    proof
      fix l
      assume "l \<in> set (ss_released ss')"
      then have "l \<in> set (ss_released ss) \<or> l = ?k \<and> ?k \<notin> ss_keys ss'" using x(7,8) by (cases "ss_reuseTimeout ss = 0") auto
      then consider "l = ?k" "l \<notin> ss_keys ss'" | "l \<in> set (ss_released ss)" by auto
      then show "ss_objs ss' l \<noteq> None \<and> l \<notin> ss_keys ss'"
      proof cases
        case 2
        then have "ss_objs ss l \<noteq> None" "l \<notin> ss_keys ss" using w unfolding ss_waiting_def by blast+
        then show ?thesis using x(9) by (simp add: x(5)) blast
      qed (simp add: x(5))
    qed
    ultimately show ?thesis using x(4) by (simp add: ss_inv_def)
  qed
qed

section \<open>Shares\<close>

lemma sm_submit_keeps:
  assumes "sm_submit ev p sm = (ev', p', sm')"
  shows "keeps_places p p' \<and> sm_id sm' = sm_id sm \<and> sm_miner sm' = sm_miner sm \<and> sm_idleTime sm' = sm_idleTime sm"
  using assms
  by (auto simp: sm_submit_def sm_call_def Let_def keeps_places_objs split: option.splits if_splits prod.splits)

text \<open>A share of a placed miner finds its upstream; nothing is inserted into the map.\<close>

lemma ss_submit_inv:
  assumes inv: "ss_inv (p, ss)"
  shows "ss_inv (snd (ss_submit ev p ss))"
proof -
  have s: "ss_shape ss" and w: "ss_waiting ss" and pl: "ss_places p ss" using inv by (simp_all add: ss_inv_def)
  show ?thesis
  proof (cases "placed_miner (p_objs p (se_miner ev))")
    case False
    have "ss_places (p\<lparr>p_fault := True\<rparr>) ss" by (rule ss_places_keep [OF pl]) (simp add: keeps_places_objs)
    then show ?thesis
      using False inv by (auto simp: ss_submit_def placed_miner_def ss_inv_def split: option.splits)
  next
    case True
    then obtain m where m: "p_objs p (se_miner ev) = Some m" "m_routeId m = - 1" "0 \<le> m_mapperId m"
      by (auto simp: placed_miner_def split: option.splits)
    let ?k = "nat (m_mapperId m)"
    from ss_placesD(2) [OF pl m] obtain sm where sm: "ss_objs ss ?k = Some sm" "sm_miner sm = Some (se_miner ev)" by blast
    then have lk: "map_of (ss_upstreams ss) ?k = Some (Some ?k)" using ss_lookup [OF s] ss_shapeD(5) [OF s sm] by blast
    obtain ev' p' sm' where sub: "sm_submit ev p sm = (ev', p', sm')" by (rule prod_cases3)
    have e: "snd (ss_submit ev p ss) = ss_on (\<lambda>p sm. snd (sm_submit ev p sm)) ?k (p, ss)"
      using m lk sm sub by (simp add: ss_submit_def ss_on_def)
    show ?thesis
      unfolding e by (rule ss_inv_on [OF inv]) (use sm sub sm_submit_keeps in auto)
  qed
qed

section \<open>The timer\<close>

text \<open>The deletion of the released upstreams.\<close>

lemma ss_delete_inv:
  assumes "ss_inv (p, ss)"
  shows "ss_shape (ss_delete_released ss)" "ss_places p (ss_delete_released ss)" "ss_released (ss_delete_released ss) = []"
proof -
  have s: "ss_shape ss" and w: "ss_waiting ss" and pl: "ss_places p ss" using assms by (simp_all add: ss_inv_def)
  note D = ss_shapeD [OF s]
  let ?ss = "ss_delete_released ss"
  have f: "ss_upstreams ?ss = ss_upstreams ss" "ss_idles ?ss = ss_idles ss" "ss_sequence ?ss = ss_sequence ss"
    by (simp_all add: ss_delete_released_def)
  have o: "ss_objs ?ss k = (if k \<in> set (ss_released ss) then None else ss_objs ss k)" for k
    by (simp add: ss_delete_released_def restrict_map_def)
  have out: "k \<in> ss_keys ss \<Longrightarrow> k \<notin> set (ss_released ss)" for k using w by (auto simp: ss_waiting_def)
  show "ss_released ?ss = []" by (simp add: ss_delete_released_def)
  show "ss_shape ?ss"
  proof (rule ss_shapeI; (unfold f)?)
    show "omap_ok (ss_upstreams ss)" "omap_ok (ss_idles ss)" by (rule D(1), rule D(2))
    fix l
    show "sm_id sm2 = l \<and> l < ss_sequence ss" if "ss_objs ?ss l = Some sm2" for sm2
      using that D(3,4) [of l sm2] unfolding o by (cases "l \<in> set (ss_released ss)") simp_all
    show "l \<in> ss_keys ss \<and> sm_idleTime sm2 = 0" if "ss_objs ?ss l = Some sm2" "sm_miner sm2 = Some i" for sm2 i
      using that D(5) [of l sm2 i] unfolding o by (cases "l \<in> set (ss_released ss)") simp_all
    show "ptr = Some l \<and> ss_objs ?ss l \<noteq> None" if u: "(l, ptr) \<in> set (ss_upstreams ss)" for ptr
    proof -
      from u have "l \<in> ss_keys ss" by force
      then show ?thesis using D(6) [OF u] out [of l] by (simp add: o)
    qed
    show "l' = l \<and> l \<in> ss_keys ss \<and> (\<exists>sm. ss_objs ?ss l = Some sm \<and> sm_miner sm = None)" if "(l, l') \<in> set (ss_idles ss)" for l'
      using D(7) [OF that] out [of l] by (simp add: o)
  qed
  show "ss_places p ?ss"
  proof (rule ss_places_miners [OF pl])
    show "\<exists>sm. ss_objs ss k = Some sm \<and> sm_miner sm = Some i" if "ss_objs ?ss k = Some sm" "sm_miner sm = Some i" for k sm i
      using that by (auto simp: o split: if_splits)
    show "\<exists>sm. ss_objs ?ss k = Some sm \<and> sm_miner sm = Some i" if "ss_objs ss k = Some sm" "sm_miner sm = Some i" for k sm i
      using that D(5) [OF that] out by (auto simp: o)
  qed
qed

text \<open>The pass over the upstreams ticks those that are in time and collects the others.\<close>

definition ss_expired :: "simple_splitter \<Rightarrow> nat \<Rightarrow> bool" where
  "ss_expired ss k = (case ss_objs ss k of None \<Rightarrow> False | Some sm \<Rightarrow> sm_idleTime sm > ss_reuseTimeout ss)"

lemma ss_tick_loop_result:
  assumes "\<And>k ptr. (k, ptr) \<in> set kvs \<Longrightarrow> ptr = Some k \<and> ss_objs ss k \<noteq> None" and "distinct (map fst kvs)"
    and "ss_tick_loop now kvs p ss = (p', ss')"
  shows "p' = p \<and> ss' = ss\<lparr>ss_objs := (\<lambda>k. if k \<in> fst ` set kvs \<and> \<not> ss_expired ss k
      then map_option (sm_tick now) (ss_objs ss k) else ss_objs ss k),
    ss_released := ss_released ss @ List.filter (ss_expired ss) (map fst kvs)\<rparr>"
  using assms
proof (induction kvs arbitrary: ss)
  case (Cons e kvs)
  obtain k ptr where e: "e = (k, ptr)" by fastforce
  obtain sm where sm: "ptr = Some k" "ss_objs ss k = Some sm" using Cons.prems(1) [of k ptr] by (auto simp: e)
  have d: "k \<notin> fst ` set kvs" "distinct (map fst kvs)" using Cons.prems(2) by (auto simp: e)
  show ?case
  proof (cases "sm_idleTime sm > ss_reuseTimeout ss")
    case True
    let ?ss = "ss\<lparr>ss_released := ss_released ss @ [k]\<rparr>"
    have x: "ss_expired ?ss = ss_expired ss" "ss_expired ss k" using True sm by (auto simp: ss_expired_def fun_eq_iff split: option.splits)
    have lp: "ss_tick_loop now kvs p ?ss = (p', ss')" using Cons.prems(3) sm True by (simp add: e)
    have pre: "(l, q) \<in> set kvs \<Longrightarrow> q = Some l \<and> ss_objs ?ss l \<noteq> None" for l q using Cons.prems(1) [of l q] by simp
    note ih = Cons.IH [OF pre d(2) lp]
    have "p' = p" by (rule ih [THEN conjunct1])
    note ss' = ih [THEN conjunct2]
    have o: "(\<lambda>l. if l \<in> fst ` set kvs \<and> \<not> ss_expired ss l then map_option (sm_tick now) (ss_objs ss l) else ss_objs ss l) =
        (\<lambda>l. if l \<in> fst ` set (e # kvs) \<and> \<not> ss_expired ss l then map_option (sm_tick now) (ss_objs ss l) else ss_objs ss l)"
      using x(2) by (auto simp: e fun_eq_iff)
    have oo: "ss_objs ?ss = ss_objs ss" by simp
    show ?thesis
      using ss' \<open>p' = p\<close> x(2) unfolding oo x(1) o by (simp add: e)
  next
    case False
    let ?ss = "ss_put k (sm_tick now sm) ss"
    have x: "\<not> ss_expired ss k" using False sm by (simp add: ss_expired_def)
    have y: "ss_expired ?ss l = ss_expired ss l" if "l \<noteq> k" for l
      using that by (simp add: ss_expired_def split: option.splits)
    have lp: "ss_tick_loop now kvs p ?ss = (p', ss')" using Cons.prems(3) sm False by (simp add: e)
    have pre: "(l, q) \<in> set kvs \<Longrightarrow> q = Some l \<and> ss_objs ?ss l \<noteq> None" for l q using Cons.prems(1) [of l q] by simp
    note ih = Cons.IH [OF pre d(2) lp]
    have "p' = p" by (rule ih [THEN conjunct1])
    note ss' = ih [THEN conjunct2]
    have o: "(\<lambda>l. if l \<in> fst ` set kvs \<and> \<not> ss_expired ?ss l then map_option (sm_tick now) (ss_objs ?ss l) else ss_objs ?ss l) =
        (\<lambda>l. if l \<in> fst ` set (e # kvs) \<and> \<not> ss_expired ss l then map_option (sm_tick now) (ss_objs ss l) else ss_objs ss l)"
    proof
      fix l
      show "(if l \<in> fst ` set kvs \<and> \<not> ss_expired ?ss l then map_option (sm_tick now) (ss_objs ?ss l) else ss_objs ?ss l) =
        (if l \<in> fst ` set (e # kvs) \<and> \<not> ss_expired ss l then map_option (sm_tick now) (ss_objs ss l) else ss_objs ss l)"
        using d(1) x sm(2) y [of l] by (cases "l = k") (simp_all add: e)
    qed
    have f: "List.filter (ss_expired ?ss) (map fst kvs) = List.filter (ss_expired ss) (map fst (e # kvs))"
    proof -
      have "List.filter (ss_expired ?ss) (map fst kvs) = List.filter (ss_expired ss) (map fst kvs)"
        by (rule filter_cong [OF refl], rule y) (use d(1) in force)
      then show ?thesis using x by (simp add: e)
    qed
    show ?thesis using \<open>p' = p\<close> ss' unfolding o f by (simp add: ss_put_def)
  qed
qed simp

text \<open>The released upstreams are stopped.\<close>

lemma ss_stop_all_result:
  assumes "ss_shape ss" and "\<And>k. k \<in> set ks \<Longrightarrow> \<exists>sm. ss_objs ss k = Some sm \<and> sm_miner sm = None"
    and "ss_stop_all ks p ss = (p', ss')"
  shows "p' = p \<and> ss_shape ss' \<and> ss_keys ss' = ss_keys ss - set ks \<and> ss_released ss' = ss_released ss \<and>
    ss_reuseTimeout ss' = ss_reuseTimeout ss \<and>
    (\<forall>k. map_option (\<lambda>sm. (sm_miner sm, sm_idleTime sm)) (ss_objs ss' k) = map_option (\<lambda>sm. (sm_miner sm, sm_idleTime sm)) (ss_objs ss k))"
  using assms
proof (induction ks arbitrary: p ss)
  case (Cons k ks)
  obtain sm where sm: "ss_objs ss k = Some sm" "sm_miner sm = None" using Cons.prems(2) [of k] by auto
  obtain p1 ss1 where st: "ss_stop k p ss = (p1, ss1)" by fastforce
  note x = ss_stop_idle [OF Cons.prems(1) sm st]
  have m: "sm_miner (sm_stop sm) = sm_miner sm" "sm_idleTime (sm_stop sm) = sm_idleTime sm"
    by (simp_all add: sm_stop_def sm_call_def Let_def split: option.splits)
  have "\<exists>sm. ss_objs ss1 l = Some sm \<and> sm_miner sm = None" if "l \<in> set ks" for l
    using Cons.prems(2) [of l] that m sm by (auto simp: x(5))
  from Cons.IH [OF x(2) this, of p] Cons.prems(3) st x(1)
  have ih: "p' = p" "ss_shape ss'" "ss_keys ss' = ss_keys ss1 - set ks" "ss_released ss' = ss_released ss1"
    "ss_reuseTimeout ss' = ss_reuseTimeout ss1"
    "\<And>k. map_option (\<lambda>sm. (sm_miner sm, sm_idleTime sm)) (ss_objs ss' k) = map_option (\<lambda>sm. (sm_miner sm, sm_idleTime sm)) (ss_objs ss1 k)"
    by simp_all
  moreover have "map_option (\<lambda>sm. (sm_miner sm, sm_idleTime sm)) (ss_objs ss1 l) =
      map_option (\<lambda>sm. (sm_miner sm, sm_idleTime sm)) (ss_objs ss l)" for l
    using m sm by (simp add: x(5))
  ultimately show ?case using x(3,4,6) by auto
qed simp

text \<open>One tick: the waiting upstreams are deleted, those in time get older when they have no miner, and the
  others leave the map.\<close>

lemma ss_tick_result:
  assumes inv: "ss_inv (p, ss)" and t: "ss_tick now p ss = (p', ss')"
  shows "p' = p" and "ss_inv (p, ss')" and "ss_reuseTimeout ss' = ss_reuseTimeout ss"
    and "k \<in> set (ss_released ss) \<Longrightarrow> ss_objs ss' k = None"
    and "k \<in> ss_keys ss \<Longrightarrow> ss_expired ss k \<Longrightarrow> k \<in> set (ss_released ss')"
    and "k \<in> ss_keys ss \<Longrightarrow> \<not> ss_expired ss k \<Longrightarrow> ss_objs ss k = Some sm \<Longrightarrow>
      k \<in> ss_keys ss' \<and> (\<exists>sm'. ss_objs ss' k = Some sm' \<and> sm_miner sm' = sm_miner sm \<and>
        sm_idleTime sm' = (if sm_miner sm = None then sm_idleTime sm + 1 else sm_idleTime sm))"
proof -
  let ?ss = "ss_delete_released ss"
  note del = ss_delete_inv [OF inv]
  note D = ss_shapeD [OF del(1)]
  have w: "ss_waiting ss" and s: "ss_shape ss" using inv by (simp_all add: ss_inv_def)
  have f: "ss_upstreams ?ss = ss_upstreams ss" "ss_reuseTimeout ?ss = ss_reuseTimeout ss"
    by (simp_all add: ss_delete_released_def)
  have o: "ss_objs ?ss l = (if l \<in> set (ss_released ss) then None else ss_objs ss l)" for l
    by (simp add: ss_delete_released_def restrict_map_def)
  have out: "l \<in> ss_keys ss \<Longrightarrow> l \<notin> set (ss_released ss)" for l using w by (auto simp: ss_waiting_def)
  obtain p1 ss1 where loop: "ss_tick_loop now (ss_upstreams ?ss) p ?ss = (p1, ss1)" by fastforce
  let ?R = "List.filter (ss_expired ?ss) (map fst (ss_upstreams ?ss))"
  have "(l, q) \<in> set (ss_upstreams ?ss) \<Longrightarrow> q = Some l \<and> ss_objs ?ss l \<noteq> None" for l q by (rule D(6))
  from ss_tick_loop_result [OF this omap_ok_distinct [OF D(1)] loop] have p1: "p1 = p" and
    ss1: "ss1 = ?ss\<lparr>ss_objs := (\<lambda>k. if k \<in> ss_keys ?ss \<and> \<not> ss_expired ?ss k
      then map_option (sm_tick now) (ss_objs ?ss k) else ss_objs ?ss k), ss_released := ?R\<rparr>"
    by (simp_all add: del(3))
  have tm: "sm_id (sm_tick now sm) = sm_id sm" "sm_miner (sm_tick now sm) = sm_miner sm"
    "sm_idleTime (sm_tick now sm) = (if sm_miner sm = None then sm_idleTime sm + 1 else sm_idleTime sm)" for sm
    by (simp_all add: sm_tick_def sm_call_def Let_def)
  have o1: "ss_objs ss1 l = (if l \<in> ss_keys ?ss \<and> \<not> ss_expired ?ss l then map_option (sm_tick now) (ss_objs ?ss l) else ss_objs ?ss l)"
    and f1: "ss_upstreams ss1 = ss_upstreams ss" "ss_idles ss1 = ss_idles ?ss" "ss_sequence ss1 = ss_sequence ?ss"
      "ss_released ss1 = ?R" "ss_reuseTimeout ss1 = ss_reuseTimeout ss" for l
    by (simp_all add: ss1 f)
  have m1: "map_option sm_miner (ss_objs ss1 l) = map_option sm_miner (ss_objs ?ss l)"
    "map_option sm_id (ss_objs ss1 l) = map_option sm_id (ss_objs ?ss l)" for l
    by (cases "ss_objs ?ss l"; simp add: o1 tm)+
  have sh1: "ss_shape ss1"
  proof (rule ss_shapeI; (unfold f1)?)
    show "omap_ok (ss_upstreams ss)" "omap_ok (ss_idles ?ss)" using D(1,2) f by simp_all
    fix l
    show "sm_id sm2 = l \<and> l < ss_sequence ?ss" if "ss_objs ss1 l = Some sm2" for sm2
      using that m1(2) [of l] D(3,4) [of l] by (cases "ss_objs ?ss l") auto
    show "l \<in> ss_keys ss \<and> sm_idleTime sm2 = 0" if "ss_objs ss1 l = Some sm2" "sm_miner sm2 = Some i" for sm2 i
    proof -
      from that m1(1) [of l] obtain sm3 where "ss_objs ?ss l = Some sm3" "sm_miner sm3 = Some i" by (cases "ss_objs ?ss l") auto
      then show ?thesis using D(5) [of l sm3 i] that by (auto simp: o1 tm f split: if_splits)
    qed
    show "q = Some l \<and> ss_objs ss1 l \<noteq> None" if "(l, q) \<in> set (ss_upstreams ss)" for q
      using D(6) [of l q] that f m1(1) [of l] by (cases "ss_objs ss1 l") auto
    show "l' = l \<and> l \<in> ss_keys ss \<and> (\<exists>sm. ss_objs ss1 l = Some sm \<and> sm_miner sm = None)" if "(l, l') \<in> set (ss_idles ?ss)" for l'
      using D(7) [OF that] f m1(1) [of l] by (cases "ss_objs ss1 l") auto
  qed
  have R: "\<exists>sm. ss_objs ss1 l = Some sm \<and> sm_miner sm = None" if l: "l \<in> set ?R" for l
  proof -
    obtain sm2 where sm2: "ss_objs ?ss l = Some sm2" "ss_reuseTimeout ?ss < sm_idleTime sm2"
      using l by (auto simp: ss_expired_def split: option.splits)
    then have "sm_miner sm2 = None" using D(5) [of l sm2] by (cases "sm_miner sm2") auto
    then show ?thesis using m1(1) [of l] sm2(1) by (cases "ss_objs ss1 l") auto
  qed
  have st: "ss_stop_all ?R p ss1 = (p', ss')"
    using t loop p1 f1(4) by (cases "?R = []") (simp_all add: ss_tick_def Let_def)
  note x = ss_stop_all_result [OF sh1 R st]
  show "p' = p" "ss_reuseTimeout ss' = ss_reuseTimeout ss" using x f1(5) by simp_all
  have v: "map_option (\<lambda>sm. (sm_miner sm, sm_idleTime sm)) (ss_objs ss' l) =
      map_option (\<lambda>sm. (sm_miner sm, sm_idleTime sm)) (ss_objs ss1 l)" for l
    using x by blast
  have v': "map_option sm_miner (ss_objs ss' l) = map_option sm_miner (ss_objs ?ss l)" for l
    using v [of l] m1(1) [of l] by (cases "ss_objs ss' l"; cases "ss_objs ss1 l"; cases "ss_objs ?ss l") auto
  have "ss_places p ss'"
  proof (rule ss_places_miners [OF del(2)])
    show "\<exists>sm. ss_objs ?ss l = Some sm \<and> sm_miner sm = Some i" if "ss_objs ss' l = Some sm" "sm_miner sm = Some i" for l sm i
      using v' [of l] that by (cases "ss_objs ?ss l") auto
    show "\<exists>sm. ss_objs ss' l = Some sm \<and> sm_miner sm = Some i" if "ss_objs ?ss l = Some sm" "sm_miner sm = Some i" for l sm i
      using v' [of l] that by (cases "ss_objs ss' l") auto
  qed
  moreover have "ss_waiting ss'"
    unfolding ss_waiting_def
  proof
    fix l
    assume "l \<in> set (ss_released ss')"
    then have "l \<in> set ?R" using x f1(4) by simp
    then show "ss_objs ss' l \<noteq> None \<and> l \<notin> ss_keys ss'" using R [of l] v [of l] x by (cases "ss_objs ss' l") auto
  qed
  ultimately show "ss_inv (p, ss')" using x by (simp add: ss_inv_def)
  show "ss_objs ss' k = None" if "k \<in> set (ss_released ss)"
    using v' [of k] that by (cases "ss_objs ss' k") (simp_all add: o)
  have ex: "ss_expired ?ss k = ss_expired ss k" if "k \<in> ss_keys ss" using out [OF that] by (simp add: ss_expired_def o f split: option.splits)
  show "k \<in> set (ss_released ss')" if "k \<in> ss_keys ss" "ss_expired ss k" using x that ex f1(4) f by auto
  show "k \<in> ss_keys ss' \<and> (\<exists>sm'. ss_objs ss' k = Some sm' \<and> sm_miner sm' = sm_miner sm \<and>
      sm_idleTime sm' = (if sm_miner sm = None then sm_idleTime sm + 1 else sm_idleTime sm))"
    if k: "k \<in> ss_keys ss" "\<not> ss_expired ss k" "ss_objs ss k = Some sm"
  proof
    have "k \<notin> set ?R" using ex k by simp
    moreover have "k \<in> ss_keys ss1" using k(1) f1(1) by simp
    ultimately show "k \<in> ss_keys ss'" using x by blast
    have "ss_objs ss1 k = Some (sm_tick now sm)" using k ex out [OF k(1)] f(1) by (simp add: o1 o)
    then show "\<exists>sm'. ss_objs ss' k = Some sm' \<and> sm_miner sm' = sm_miner sm \<and>
      sm_idleTime sm' = (if sm_miner sm = None then sm_idleTime sm + 1 else sm_idleTime sm)"
      using v [of k] by (cases "ss_objs ss' k") (simp_all add: tm)
  qed
qed

section \<open>Every event keeps the invariant\<close>

lemma ss_inv_put:
  assumes "ss_inv (p, ss)" and "ss_objs ss k = Some sm" and "sm_id sm' = sm_id sm" and "sm_miner sm' = sm_miner sm"
    and "sm_idleTime sm' = sm_idleTime sm"
  shows "ss_inv (p, ss_put k sm' ss)"
  using ss_inv_on [OF assms(1), of k "\<lambda>p sm2. (p, if sm2 = sm then sm' else sm2)"] assms(2-5) by (simp add: ss_on_def)

lemma sm_reload_keeps [simp]:
  "sm_id (sm_reload h sm) = sm_id sm" "sm_miner (sm_reload h sm) = sm_miner sm" "sm_idleTime (sm_reload h sm) = sm_idleTime sm"
  by (simp_all add: sm_reload_def sm_call_def Let_def split: option.splits)

lemma ss_reload_loop_inv:
  "ss_inv (p, ss) \<Longrightarrow> set kvs \<subseteq> set (ss_upstreams ss) \<Longrightarrow> ss_inv (ss_reload_loop hs kvs p ss)"
proof (induction kvs arbitrary: ss)
  case (Cons e kvs)
  obtain k ptr where e: "e = (k, ptr)" by fastforce
  have "ss_shape ss" using Cons.prems(1) by (simp add: ss_inv_def)
  then have "ptr = Some k" "ss_objs ss k \<noteq> None" using ss_shapeD(6) [of ss k ptr] Cons.prems(2) by (auto simp: e)
  then obtain sm where sm: "ptr = Some k" "ss_objs ss k = Some sm" by blast
  have "ss_inv (p, ss_put k (sm_reload (hs k) sm) ss)" by (rule ss_inv_put [OF Cons.prems(1) sm(2)]) simp_all
  from Cons.IH [OF this] Cons.prems(2) show ?case by (simp add: e sm ss_at_def)
qed simp

lemma ss_inv_timeout: "ss_inv (p, ss) \<Longrightarrow> ss_inv (p, ss\<lparr>ss_reuseTimeout := t\<rparr>)"
  by (simp add: ss_inv_def ss_shape_def ss_waiting_def ss_places_def)

lemma ss_step_inv:
  assumes inv: "ss_inv s" and g: "ss_ok s e"
  shows "ss_inv (ss_step env s e)"
proof -
  obtain p ss where s: "s = (p, ss)" by fastforce
  note inv = inv [unfolded s] and g = g [unfolded s]
  have "ss_inv (ss_step env (p, ss) e)"
  proof (cases e)
    case (SsLogin cfg hs ev)
    then show ?thesis using g ss_login_inv [OF inv] by (auto split: option.splits)
  next
    case (SsClose i)
    obtain p' ss' where r: "ss_remove i p ss = (p', ss')" by fastforce
    show ?thesis using ss_close_inv [OF inv _ r] g SsClose by (auto simp: r)
  next
    case (SsSubmit ev)
    then show ?thesis using ss_submit_inv [OF inv] by simp
  next
    case (SsTick now)
    obtain p' ss' where t: "ss_tick now p ss = (p', ss')" by fastforce
    show ?thesis using ss_tick_result(1,2) [OF inv t] by (simp add: SsTick t)
  next
    case (SsConfig cfg changed hs)
    show ?thesis
      using ss_inv_timeout [OF inv] ss_reload_loop_inv [OF ss_inv_timeout [OF inv]]
      by (simp add: SsConfig ss_onConfigChanged_def Let_def)
  next
    case (SsActive k st client)
    have "sm_id (sm_onActive st client sm) = sm_id sm \<and> sm_miner (sm_onActive st client sm) = sm_miner sm \<and>
        sm_idleTime (sm_onActive st client sm) = sm_idleTime sm" for sm
      by (simp add: sm_onActive_def sm_call_def Let_def)
    then show ?thesis using ss_inv_on [OF inv, of k "\<lambda>p sm. (p, sm_onActive st client sm)"] g SsActive by simp
  next
    case (SsPause k st)
    have "sm_id (sm_onPause st sm) = sm_id sm \<and> sm_miner (sm_onPause st sm) = sm_miner sm \<and>
        sm_idleTime (sm_onPause st sm) = sm_idleTime sm" for sm
      by (simp add: sm_onPause_def)
    then show ?thesis using ss_inv_on [OF inv, of k "\<lambda>p sm. (p, sm_onPause st sm)"] g SsPause by simp
  next
    case (SsJob k cfg client job)
    then show ?thesis using ss_inv_on [OF inv, of k "sm_onJob env cfg client job"] g sm_onJob_keeps by simp
  next
    case (SsResult k start client result err)
    then have k: "ss_objs ss k \<noteq> None" and ae: "\<And>ae. keeps_places p (start ae p)" using g by auto
    have "ss_inv (ss_on (\<lambda>p sm. (sm_onResultAccepted env start client result err p sm, sm)) k (p, ss))"
      by (rule ss_inv_on [OF inv k]) (use sm_result_keeps [of p start, OF ae] in auto)
    then show ?thesis by (simp add: SsResult)
  next
    case (SsProc p')
    then show ?thesis using ss_places_keep [of p ss p'] inv g by (simp add: ss_inv_def)
  qed
  then show ?thesis by (simp add: s)
qed

text \<open>A run starts with no upstream and no miner.\<close>

definition ss_init :: "config \<Rightarrow> ss_state" where
  "ss_init cfg = (proc_new, ss_new cfg)"

lemma ss_init_inv: "ss_inv (ss_init cfg)"
  by (simp add: ss_init_def ss_inv_def ss_shape_def ss_waiting_def ss_places_def ss_new_def proc_new_def)

interpretation simple: event_component "\<lambda>s. s = ss_init cfg" ss_ok "ss_step env" ss_inv for cfg env
  by unfold_locales (auto simp: ss_init_inv ss_step_inv)

section \<open>What the invariant gives\<close>

lemma ss_inv_pointers:
  assumes "ss_inv (p, ss)"
  shows "\<forall>(k, ptr) \<in> set (ss_upstreams ss). ptr = Some k \<and> ss_objs ss k \<noteq> None"
    and "\<forall>(k, l) \<in> set (ss_idles ss). l = k \<and> ss_objs ss k \<noteq> None" and "ss_upstreams_info ss \<noteq> None"
proof -
  have s: "ss_shape ss" using assms by (simp add: ss_inv_def)
  show u: "\<forall>(k, ptr) \<in> set (ss_upstreams ss). ptr = Some k \<and> ss_objs ss k \<noteq> None" using ss_shapeD(6) [OF s] by blast
  show "\<forall>(k, l) \<in> set (ss_idles ss). l = k \<and> ss_objs ss k \<noteq> None" using ss_shapeD(7) [OF s] by fastforce
  have "None \<notin> set (map (\<lambda>kv. ss_at (snd kv) ss) (ss_upstreams ss))" using u by (fastforce simp: ss_at_def)
  then show "ss_upstreams_info ss \<noteq> None" by (simp add: ss_upstreams_info_def Let_def)
qed

lemma ss_inv_own:
  assumes "ss_inv (p, ss)" and "p_objs p i = Some m" and "m_routeId m = - 1" and "0 \<le> m_mapperId m"
  shows "\<exists>sm. map_of (ss_upstreams ss) (nat (m_mapperId m)) = Some (Some (nat (m_mapperId m))) \<and>
    ss_objs ss (nat (m_mapperId m)) = Some sm \<and> sm_miner sm = Some i"
proof -
  have s: "ss_shape ss" and pl: "ss_places p ss" using assms(1) by (simp_all add: ss_inv_def)
  from ss_placesD(2) [OF pl assms(2-4)] obtain sm where
    sm: "ss_objs ss (nat (m_mapperId m)) = Some sm" "sm_miner sm = Some i" by blast
  with ss_lookup [OF s] ss_shapeD(5) [OF s sm] show ?thesis by blast
qed

text \<open>An idle upstream gets older with every tick, leaves the map when it is too old, and is deleted by the
  next tick. A timeout of \<open>2\<^sup>6\<^sup>4 - 1\<close> (a negative setting) is never exceeded.\<close>

lemma ss_idle_ages:
  assumes "ss_inv (p, ss)" and "k \<in> ss_keys ss" and "ss_objs ss k = Some sm" and "sm_miner sm = None"
    and "ss_reuseTimeout ss \<noteq> - 1" and "length nows = unat (ss_reuseTimeout ss) + 1 - unat (sm_idleTime sm) + 2"
  shows "ss_objs (snd (run (ss_step env) (p, ss) (map SsTick nows))) k = None"
  using assms
proof (induction "unat (ss_reuseTimeout ss) + 1 - unat (sm_idleTime sm)" arbitrary: ss sm nows)
  case 0
  then obtain n1 n2 where n: "nows = [n1, n2]" by (auto simp: length_Suc_conv numeral_2_eq_2)
  obtain p1 ss1 where t1: "ss_tick n1 p ss = (p1, ss1)" by fastforce
  note x = ss_tick_result [OF 0(2) t1]
  have "ss_expired ss k" using 0 by (simp add: ss_expired_def word_less_nat_alt)
  then have rel: "k \<in> set (ss_released ss1)" using x(5) 0(3) by blast
  obtain p2 ss2 where t2: "ss_tick n2 p ss1 = (p2, ss2)" by fastforce
  from ss_tick_result(4) [OF x(2) t2 rel] show ?case by (simp add: n t1 t2 x(1))
next
  case (Suc d)
  then obtain n1 ns where n: "nows = n1 # ns" by (cases nows) auto
  obtain p1 ss1 where t1: "ss_tick n1 p ss = (p1, ss1)" by fastforce
  note x = ss_tick_result [OF Suc.prems(1) t1]
  have le: "unat (sm_idleTime sm) \<le> unat (ss_reuseTimeout ss)" using Suc.hyps(2) by linarith
  then have "\<not> ss_expired ss k" using Suc.prems(3) by (simp add: ss_expired_def word_less_nat_alt)
  from x(6) [OF Suc.prems(2) this Suc.prems(3)] Suc.prems(4) obtain sm1 where
    sm1: "k \<in> ss_keys ss1" "ss_objs ss1 k = Some sm1" "sm_miner sm1 = None" "sm_idleTime sm1 = sm_idleTime sm + 1" by auto
  have "unat (ss_reuseTimeout ss) \<noteq> unat (- 1 :: u64)" using Suc.prems(5) by (metis unsigned_word_eqI)
  moreover have "unat (ss_reuseTimeout ss) < 2 ^ 64" using unsigned_less [of "ss_reuseTimeout ss"] by simp
  ultimately have "unat (ss_reuseTimeout ss) < 2 ^ 64 - 1"
    by (simp add: unsigned_minus_1_eq_mask mask_eq_exp_minus_1)
  with le have "unat (sm_idleTime sm) + 1 < 2 ^ 64" by simp
  then have nx: "unat (sm_idleTime sm1) = unat (sm_idleTime sm) + 1" unfolding sm1(4) by (simp add: unat_word_ariths)
  have "ss_objs (snd (run (ss_step env) (p, ss1) (map SsTick ns))) k = None"
    by (rule Suc.hyps(1) [OF _ x(2) sm1(1-3)]) (use Suc.hyps(2) Suc.prems(5,6) x(3) n nx in \<open>simp_all\<close>)
  then show ?case by (simp add: n t1 x(1))
qed

end
