(* ===== verification/Sha3.thy ===== *)
theory Sha3
  imports Keccak
begin

text \<open>
  The streaming hash of \<open>src/base/crypto/sha3.cpp\<close>: bytes are collected into words, words into the state,
  and the permutation runs when the rate is full. The context is a record; \<open>byteIndex\<close> and \<open>wordIndex\<close> are
  natural numbers below 8 and 25. The machine is little-endian. Keccak mode is shown to be the one-call
  hash of \<open>keccak.cpp\<close>.
\<close>

section \<open>The context\<close>

record sha3_context =
  c_saved :: u64
  c_s :: "u64 list"
  c_byteIndex :: nat
  c_wordIndex :: nat
  c_capacityWords :: u32

definition SHA3_KECCAK_SPONGE_WORDS :: nat where "SHA3_KECCAK_SPONGE_WORDS = 25"

definition SHA3_USE_KECCAK_FLAG :: u32 where "SHA3_USE_KECCAK_FLAG = 0x80000000"

definition SHA3_CW :: "u32 \<Rightarrow> nat" where
  "SHA3_CW x = unat (x AND NOT SHA3_USE_KECCAK_FLAG)"

text \<open>The number of words of the rate.\<close>

definition sha3_rate :: "sha3_context \<Rightarrow> nat" where
  "sha3_rate ctx = SHA3_KECCAK_SPONGE_WORDS - SHA3_CW (c_capacityWords ctx)"

text \<open>\<open>None\<close> is \<open>SHA3_RETURN_BAD_PARAMS\<close>.\<close>

definition sha3_Init :: "nat \<Rightarrow> sha3_context option" where
  "sha3_Init bitSize =
     (if bitSize \<noteq> 256 \<and> bitSize \<noteq> 384 \<and> bitSize \<noteq> 512 then None
      else Some \<lparr>c_saved = 0, c_s = replicate SHA3_KECCAK_SPONGE_WORDS 0, c_byteIndex = 0, c_wordIndex = 0,
                 c_capacityWords = of_nat (2 * bitSize div (8 * 8))\<rparr>)"

definition SHA3_FLAGS_KECCAK :: u32 where "SHA3_FLAGS_KECCAK = 1"

definition sha3_SetFlags :: "u32 \<Rightarrow> sha3_context \<Rightarrow> u32 \<times> sha3_context" where
  "sha3_SetFlags flags ctx =
     (let flags = flags AND SHA3_FLAGS_KECCAK
      in (flags, ctx\<lparr>c_capacityWords := c_capacityWords ctx OR
            (if flags = SHA3_FLAGS_KECCAK then SHA3_USE_KECCAK_FLAG else 0)\<rparr>))"

section \<open>Update\<close>

definition sha3_save :: "u8 \<Rightarrow> sha3_context \<Rightarrow> sha3_context" where
  "sha3_save b ctx =
     ctx\<lparr>c_saved := c_saved ctx OR push_bit (c_byteIndex ctx * 8) (ucast b), c_byteIndex := c_byteIndex ctx + 1\<rparr>"

text \<open>A word goes into the state.\<close>

definition sha3_word :: "u64 \<Rightarrow> sha3_context \<Rightarrow> sha3_context" where
  "sha3_word t ctx =
     (let ctx = ctx\<lparr>c_s := (c_s ctx)[c_wordIndex ctx := c_s ctx ! c_wordIndex ctx XOR t]\<rparr>;
          ctx = ctx\<lparr>c_wordIndex := c_wordIndex ctx + 1\<rparr>
      in if c_wordIndex ctx = sha3_rate ctx then ctx\<lparr>c_s := keccakf KECCAK_ROUNDS (c_s ctx), c_wordIndex := 0\<rparr> else ctx)"

definition sha3_flush :: "sha3_context \<Rightarrow> sha3_context" where
  "sha3_flush ctx = sha3_word (c_saved ctx) (ctx\<lparr>c_byteIndex := 0, c_saved := 0\<rparr>)"

fun sha3_load :: "u8 list \<Rightarrow> u64" where
  "sha3_load [b0, b1, b2, b3, b4, b5, b6, b7] =
     ucast b0 OR push_bit 8 (ucast b1) OR push_bit 16 (ucast b2) OR push_bit 24 (ucast b3) OR
     push_bit 32 (ucast b4) OR push_bit 40 (ucast b5) OR push_bit 48 (ucast b6) OR push_bit 56 (ucast b7)"
| "sha3_load _ = 0"

fun sha3_words :: "nat \<Rightarrow> u8 list \<Rightarrow> sha3_context \<Rightarrow> sha3_context" where
  "sha3_words 0 buf ctx = ctx"
| "sha3_words (Suc n) buf ctx = sha3_words n (drop 8 buf) (sha3_word (sha3_load (take 8 buf)) ctx)"

definition sha3_Update :: "u8 list \<Rightarrow> sha3_context \<Rightarrow> sha3_context" where
  "sha3_Update buf ctx =
     (let old_tail = (8 - c_byteIndex ctx) mod 8; len = length buf in
      if len < old_tail then fold sha3_save buf ctx
      else
        let (len, buf, ctx) =
              (if old_tail \<noteq> 0
               then (len - old_tail, drop old_tail buf, sha3_flush (fold sha3_save (take old_tail buf) ctx))
               else (len, buf, ctx));
            n = len div 8; tail = len - n * 8;
            ctx = sha3_words n buf ctx
        in fold sha3_save (take tail (drop (8 * n) buf)) ctx)"

section \<open>Finalize\<close>

definition sha3_store :: "u64 \<Rightarrow> u8 list" where
  "sha3_store w =
     (let t1 = ucast w :: u32; t2 = ucast (drop_bit 16 (drop_bit 16 w)) :: u32
      in [ucast t1, ucast (drop_bit 8 t1), ucast (drop_bit 16 t1), ucast (drop_bit 24 t1),
          ucast t2, ucast (drop_bit 8 t2), ucast (drop_bit 16 t2), ucast (drop_bit 24 t2)])"

definition sha3_Finalize :: "sha3_context \<Rightarrow> u8 list" where
  "sha3_Finalize ctx =
     (let t = (if c_capacityWords ctx AND SHA3_USE_KECCAK_FLAG \<noteq> 0 then push_bit (c_byteIndex ctx * 8) 1
               else push_bit (c_byteIndex ctx * 8) (2 OR push_bit 2 1)) :: u64;
          s = (c_s ctx)[c_wordIndex ctx := c_s ctx ! c_wordIndex ctx XOR (c_saved ctx XOR t)];
          s = s[sha3_rate ctx - 1 := s ! (sha3_rate ctx - 1) XOR 0x8000000000000000];
          s = keccakf KECCAK_ROUNDS s
      in concat (map sha3_store s))"

text \<open>The bytes written to the output; \<open>None\<close> is \<open>SHA3_RETURN_BAD_PARAMS\<close>.\<close>

definition sha3_HashBuffer :: "nat \<Rightarrow> u32 \<Rightarrow> u8 list \<Rightarrow> nat \<Rightarrow> u8 list option" where
  "sha3_HashBuffer bitSize flags ins outBytes =
     (case sha3_Init bitSize of
        None \<Rightarrow> None
      | Some c \<Rightarrow>
          let (f, c) = sha3_SetFlags flags c in
          if f \<noteq> flags then None
          else
            let h = sha3_Finalize (sha3_Update ins c);
                outBytes = (if outBytes > bitSize div 8 then bitSize div 8 else outBytes)
            in Some (take outBytes h))"

section \<open>One byte at a time\<close>

definition sha3_byte :: "u8 \<Rightarrow> sha3_context \<Rightarrow> sha3_context" where
  "sha3_byte b ctx = (let ctx = sha3_save b ctx in if c_byteIndex ctx = 8 then sha3_flush ctx else ctx)"

text \<open>The shape of a context between two calls.\<close>

definition sha3_ok :: "sha3_context \<Rightarrow> bool" where
  "sha3_ok ctx \<longleftrightarrow> c_byteIndex ctx < 8 \<and> (c_byteIndex ctx = 0 \<longrightarrow> c_saved ctx = 0)"

lemma sha3_word_simps [simp]:
  "c_byteIndex (sha3_word t ctx) = c_byteIndex ctx" "c_saved (sha3_word t ctx) = c_saved ctx"
  "c_capacityWords (sha3_word t ctx) = c_capacityWords ctx" "sha3_rate (sha3_word t ctx) = sha3_rate ctx"
  by (simp_all add: sha3_word_def sha3_rate_def Let_def)

lemma sha3_save_simps [simp]:
  "c_byteIndex (sha3_save b ctx) = c_byteIndex ctx + 1" "c_s (sha3_save b ctx) = c_s ctx"
  "c_wordIndex (sha3_save b ctx) = c_wordIndex ctx" "c_capacityWords (sha3_save b ctx) = c_capacityWords ctx"
  by (simp_all add: sha3_save_def)

lemma sha3_flush_simps [simp]:
  "c_byteIndex (sha3_flush ctx) = 0" "c_saved (sha3_flush ctx) = 0" "c_capacityWords (sha3_flush ctx) = c_capacityWords ctx"
  by (simp_all add: sha3_flush_def)

lemma sha3_byte_ok: "sha3_ok ctx \<Longrightarrow> sha3_ok (sha3_byte b ctx)"
  by (auto simp: sha3_ok_def sha3_byte_def Let_def)

lemma sha3_bytes_ok: "sha3_ok ctx \<Longrightarrow> sha3_ok (fold sha3_byte bs ctx)"
  by (induction bs arbitrary: ctx) (auto simp: sha3_byte_ok)

lemma sha3_save_few: "c_byteIndex ctx + length bs < 8 \<Longrightarrow> fold sha3_byte bs ctx = fold sha3_save bs ctx"
proof (induction bs arbitrary: ctx)
  case (Cons b bs)
  then have "sha3_byte b ctx = sha3_save b ctx" by (simp add: sha3_byte_def)
  then show ?case using Cons by simp
qed simp

lemma sha3_save_full:
  assumes "c_byteIndex ctx + length bs = 8" and "bs \<noteq> []"
  shows "fold sha3_byte bs ctx = sha3_flush (fold sha3_save bs ctx)"
proof -
  obtain cs b where bs: "bs = cs @ [b]" using assms(2) by (cases bs rule: rev_cases) auto
  have "fold sha3_byte cs ctx = fold sha3_save cs ctx" by (rule sha3_save_few) (use assms bs in simp)
  moreover have "c_byteIndex (fold sha3_save cs ctx) = c_byteIndex ctx + length cs" for cs
    by (induction cs arbitrary: ctx) simp_all
  ultimately show ?thesis using assms(1) by (simp add: bs sha3_byte_def Let_def)
qed

lemma length_8_cases:
  assumes "length (bs :: 'a list) = 8"
  obtains b0 b1 b2 b3 b4 b5 b6 b7 where "bs = [b0, b1, b2, b3, b4, b5, b6, b7]"
  using assms by (auto simp: numeral_eq_Suc length_Suc_conv)

lemma sha3_word_bytes:
  assumes "length bs = 8" and "c_byteIndex ctx = 0" and "c_saved ctx = 0"
  shows "fold sha3_byte bs ctx = sha3_word (sha3_load bs) ctx"
proof -
  obtain b0 b1 b2 b3 b4 b5 b6 b7 where bs: "bs = [b0, b1, b2, b3, b4, b5, b6, b7]"
    using assms(1) by (rule length_8_cases)
  have "fold sha3_byte bs ctx = sha3_flush (fold sha3_save bs ctx)" by (rule sha3_save_full) (use assms in auto)
  also have "fold sha3_save bs ctx = ctx\<lparr>c_saved := sha3_load bs, c_byteIndex := 8\<rparr>"
    using assms(2,3) by (simp add: bs sha3_save_def or.assoc)
  also have "sha3_flush (ctx\<lparr>c_saved := sha3_load bs, c_byteIndex := 8\<rparr>) = sha3_word (sha3_load bs) ctx"
    using assms(2,3) by (cases ctx) (simp add: sha3_flush_def)
  finally show ?thesis .
qed

lemma sha3_words_bytes:
  assumes "8 * n \<le> length bs" and "c_byteIndex ctx = 0" and "c_saved ctx = 0"
  shows "sha3_words n bs ctx = fold sha3_byte (take (8 * n) bs) ctx"
  using assms
proof (induction n arbitrary: bs ctx)
  case (Suc n)
  have "fold sha3_byte (take 8 bs) ctx = sha3_word (sha3_load (take 8 bs)) ctx"
    by (rule sha3_word_bytes) (use Suc.prems in auto)
  moreover have "sha3_words n (drop 8 bs) (sha3_word (sha3_load (take 8 bs)) ctx) =
      fold sha3_byte (take (8 * n) (drop 8 bs)) (sha3_word (sha3_load (take 8 bs)) ctx)"
    by (rule Suc.IH) (use Suc.prems in auto)
  moreover have "take (8 * Suc n) bs = take 8 bs @ take (8 * n) (drop 8 bs)" by (simp add: take_add)
  ultimately show ?case by simp
qed simp

text \<open>The three phases of an update are one pass over the bytes.\<close>

lemma sha3_Update_bytes:
  assumes "sha3_ok ctx"
  shows "sha3_Update buf ctx = fold sha3_byte buf ctx"
proof -
  have i: "c_byteIndex ctx < 8" "c_byteIndex ctx = 0 \<Longrightarrow> c_saved ctx = 0" using assms by (simp_all add: sha3_ok_def)
  let ?t = "(8 - c_byteIndex ctx) mod 8"
  have rest: "fold sha3_save (take (length b - length b div 8 * 8) (drop (8 * (length b div 8)) b))
      (sha3_words (length b div 8) b c) = fold sha3_byte b c"
    if "c_byteIndex c = 0" "c_saved c = 0" for b c
  proof -
    let ?n = "length b div 8"
    have n: "8 * ?n \<le> length b" by simp
    have w: "sha3_words ?n b c = fold sha3_byte (take (8 * ?n) b) c" by (rule sha3_words_bytes [OF n that])
    have "sha3_ok (fold sha3_byte (take (8 * ?n) b) c)" by (rule sha3_bytes_ok) (simp add: sha3_ok_def that)
    have z: "c_byteIndex (sha3_words m bs c2) = c_byteIndex c2" for m bs c2
      by (induction m bs c2 rule: sha3_words.induct) simp_all
    have "length (drop (8 * ?n) b) < 8" using mod_less_divisor [of 8 "length b"] by (simp add: minus_mult_div_eq_mod)
    then have "fold sha3_byte (drop (8 * ?n) b) (sha3_words ?n b c) = fold sha3_save (drop (8 * ?n) b) (sha3_words ?n b c)"
      by (intro sha3_save_few) (simp add: z that)
    moreover have "take (length b - ?n * 8) (drop (8 * ?n) b) = drop (8 * ?n) b" by (simp add: mult.commute)
    moreover have "fold sha3_byte b c = fold sha3_byte (drop (8 * ?n) b) (fold sha3_byte (take (8 * ?n) b) c)"
      by (metis append_take_drop_id comp_apply fold_append)
    ultimately show ?thesis using w by simp
  qed
  consider (short) "length buf < ?t" | (word) "\<not> length buf < ?t" "?t \<noteq> 0" | (none) "?t = 0" by linarith
  then show ?thesis
  proof cases
    case short
    then have "c_byteIndex ctx + length buf < 8" using i(1) by (cases "c_byteIndex ctx = 0") auto
    with short show ?thesis using sha3_save_few [of ctx buf] by (simp add: sha3_Update_def)
  next
    case word
    then have t: "?t = 8 - c_byteIndex ctx" using i(1) by (cases "c_byteIndex ctx = 0") auto
    let ?c = "sha3_flush (fold sha3_save (take ?t buf) ctx)"
    have "fold sha3_byte (take ?t buf) ctx = ?c"
      by (rule sha3_save_full) (use word t i(1) in auto)
    moreover have "fold sha3_byte buf ctx = fold sha3_byte (drop ?t buf) (fold sha3_byte (take ?t buf) ctx)"
      by (metis append_take_drop_id comp_apply fold_append)
    ultimately show ?thesis
      using word rest [of ?c "drop ?t buf"] by (simp add: sha3_Update_def Let_def)
  next
    case none
    then have "c_byteIndex ctx = 0" using i(1) by (cases "c_byteIndex ctx = 0") auto
    then show ?thesis using none rest [of ctx buf] i(2) by (simp add: sha3_Update_def Let_def)
  qed
qed

text \<open>Updates can be split anywhere.\<close>

lemma sha3_Update_append: "sha3_ok ctx \<Longrightarrow> sha3_Update bs (sha3_Update as ctx) = sha3_Update (as @ bs) ctx"
  by (simp add: sha3_Update_bytes sha3_bytes_ok)

section \<open>Keccak mode\<close>

lemma sha3_load_le_word: "length bs = 8 \<Longrightarrow> sha3_load bs = le_word bs"
  by (erule length_8_cases) (simp add: push_bit_or or.assoc)

lemma sha3_store_le_bytes: "sha3_store w = le_bytes w"
proof -
  have "sha3_store w ! i = le_bytes w ! i" if "i < 8" for i
  proof (rule bit_word_eqI)
    fix n assume "n < LENGTH(8)"
    then have "n < 8" by simp
    moreover have "i \<in> {0, 1, 2, 3, 4, 5, 6, 7}" using that by auto
    ultimately show "bit (sha3_store w ! i) n = bit (le_bytes w ! i) n"
      by (auto simp: sha3_store_def le_bytes_def Let_def bit_simps add.commute)
  qed
  then show ?thesis by (intro nth_equalityI) (auto simp: sha3_store_def Let_def)
qed

text \<open>A partial block.\<close>

lemma absorb_nth: "i < 25 \<Longrightarrow> absorb r bs st ! i = (if i < r then st ! i XOR le_word (take 8 (drop (8 * i) bs)) else st ! i)"
  by (simp add: absorb_def)

lemma absorb_0: "length st = 25 \<Longrightarrow> absorb 0 bs st = st"
  by (rule nth_equalityI) (simp_all add: absorb_nth)

lemma absorb_Suc:
  assumes "length as = 8 * j" and "length w = 8" and "length st = 25" and "j < 25"
  shows "(absorb j as st)[j := absorb j as st ! j XOR le_word w] = absorb (Suc j) (as @ w) st"
proof (rule nth_equalityI)
  fix i assume "i < length ((absorb j as st)[j := absorb j as st ! j XOR le_word w])"
  then have i: "i < 25" by simp
  consider "i < j" | "i = j" | "j < i" by linarith
  then show "(absorb j as st)[j := absorb j as st ! j XOR le_word w] ! i = absorb (Suc j) (as @ w) st ! i"
  proof cases
    case 1
    then obtain k where "j = Suc (i + k)" using less_imp_Suc_add by blast
    then have "take 8 (drop (8 * i) (as @ w)) = take 8 (drop (8 * i) as)" using assms(1) by simp
    with 1 i show ?thesis by (simp add: absorb_nth del: take_append drop_append)
  qed (use i assms in \<open>auto simp: absorb_nth\<close>)
qed (use assms in simp)

definition sha3_start :: "u64 list \<Rightarrow> u32 \<Rightarrow> sha3_context" where
  "sha3_start s cap = \<lparr>c_saved = 0, c_s = s, c_byteIndex = 0, c_wordIndex = 0, c_capacityWords = cap\<rparr>"

lemma sha3_partial:
  assumes "j < 25 - SHA3_CW cap" and "length bs = 8 * j" and "length s = 25"
  shows "fold sha3_byte bs (sha3_start s cap) = (sha3_start (absorb j bs s) cap)\<lparr>c_wordIndex := j\<rparr>"
  using assms(1,2)
proof (induction j arbitrary: bs)
  case 0
  then show ?case by (simp add: absorb_0 assms(3) sha3_start_def)
next
  case (Suc j)
  define as w where "as = take (8 * j) bs" and "w = drop (8 * j) bs"
  have bs: "bs = as @ w" "length as = 8 * j" "length w = 8" using Suc.prems by (auto simp: as_def w_def)
  have "fold sha3_byte as (sha3_start s cap) = (sha3_start (absorb j as s) cap)\<lparr>c_wordIndex := j\<rparr>" (is "_ = ?c")
    by (rule Suc.IH) (use Suc.prems bs in auto)
  moreover have "fold sha3_byte w ?c = sha3_word (le_word w) ?c"
    using sha3_word_bytes [of w ?c] bs by (simp add: sha3_start_def sha3_load_le_word)
  moreover have "sha3_word (le_word w) ?c = (sha3_start (absorb (Suc j) bs s) cap)\<lparr>c_wordIndex := Suc j\<rparr>"
    using Suc.prems absorb_Suc [OF bs(2,3) assms(3)] bs(1)
    by (simp add: sha3_word_def sha3_start_def sha3_rate_def SHA3_KECCAK_SPONGE_WORDS_def)
  ultimately show ?case by (simp add: bs(1))
qed

lemma sha3_block:
  assumes "r = 25 - SHA3_CW cap" and "0 < r" and "length bs = 8 * r" and "length s = 25"
  shows "fold sha3_byte bs (sha3_start s cap) = sha3_start (keccakf KECCAK_ROUNDS (absorb r bs s)) cap"
proof -
  obtain j where r: "r = Suc j" using assms(2) by (cases r) auto
  define as w where "as = take (8 * j) bs" and "w = drop (8 * j) bs"
  have bs: "bs = as @ w" "length as = 8 * j" "length w = 8" using assms(3) r by (auto simp: as_def w_def)
  have "fold sha3_byte as (sha3_start s cap) = (sha3_start (absorb j as s) cap)\<lparr>c_wordIndex := j\<rparr>" (is "_ = ?c")
    by (rule sha3_partial) (use assms r bs in auto)
  moreover have "fold sha3_byte w ?c = sha3_word (le_word w) ?c"
    using sha3_word_bytes [of w ?c] bs by (simp add: sha3_start_def sha3_load_le_word)
  moreover have "sha3_word (le_word w) ?c = sha3_start (keccakf KECCAK_ROUNDS (absorb r bs s)) cap"
    using assms r absorb_Suc [OF bs(2,3) assms(4)] bs(1)
    by (simp add: sha3_word_def sha3_start_def sha3_rate_def SHA3_KECCAK_SPONGE_WORDS_def Let_def)
  ultimately show ?thesis by (simp add: bs(1))
qed

text \<open>All complete blocks: the loop of \<open>keccak\<close>.\<close>

lemma sha3_blocks:
  assumes "r = 25 - SHA3_CW cap" and "0 < r" and "length s = 25"
  shows "fold sha3_byte ins (sha3_start s cap) =
    (case keccak_blocks (8 * r) ins s of (rest, st) \<Rightarrow> fold sha3_byte rest (sha3_start st cap))"
  using assms(3)
proof (induction "8 * r" ins s rule: keccak_blocks.induct)
  case (1 ins st)
  show ?case
  proof (cases "8 * r \<le> length ins")
    case True
    have "fold sha3_byte ins (sha3_start st cap) =
        fold sha3_byte (drop (8 * r) ins) (fold sha3_byte (take (8 * r) ins) (sha3_start st cap))"
      by (metis append_take_drop_id comp_apply fold_append)
    also have "fold sha3_byte (take (8 * r) ins) (sha3_start st cap) =
        sha3_start (keccakf KECCAK_ROUNDS (absorb r (take (8 * r) ins) st)) cap"
      by (rule sha3_block) (use True assms 1 in auto)
    also have "absorb r (take (8 * r) ins) st = absorb r ins st"
      by (auto simp: absorb_def drop_take min_def)
    finally show ?thesis using 1 True assms(2) keccak_blocks.simps [of "8 * r" ins st] by simp
  next
    case False
    then show ?thesis using keccak_blocks.simps [of "8 * r" ins st] by simp
  qed
qed

lemma keccak_blocks_rest:
  "0 < rsiz \<Longrightarrow> length st = 25 \<Longrightarrow> keccak_blocks rsiz ins st = (rest, st') \<Longrightarrow> length rest < rsiz \<and> length st' = 25"
  by (induction rsiz ins st rule: keccak_blocks.induct) (simp add: keccak_blocks.simps split: if_splits)

text \<open>The incomplete word.\<close>

lemma sha3_save_tail:
  "fold sha3_save bs ctx =
     ctx\<lparr>c_saved := c_saved ctx OR push_bit (8 * c_byteIndex ctx) (le_word bs), c_byteIndex := c_byteIndex ctx + length bs\<rparr>"
proof (induction bs arbitrary: ctx)
  case (Cons b bs)
  have 1: "fold sha3_save (b # bs) ctx = (let c = sha3_save b ctx in
      c\<lparr>c_saved := c_saved c OR push_bit (8 * c_byteIndex c) (le_word bs), c_byteIndex := c_byteIndex c + length bs\<rparr>)"
    by (simp add: Cons Let_def)
  show ?case unfolding 1 by (simp add: sha3_save_def push_bit_or or.assoc mult.commute add.commute)
qed simp

lemma le_word_zeros: "le_word (replicate n 0) = 0"
  by (induction n) simp_all

lemma le_word_append: "le_word (as @ bs) = le_word as OR push_bit (8 * length as) (le_word bs)"
  by (induction as) (simp_all add: push_bit_or or.assoc add.commute)

text \<open>The padding of the last block, lane by lane: the byte 1 after the input, and the top bit of the last byte.\<close>

definition padded :: "nat \<Rightarrow> u8 list \<Rightarrow> u8 list" where
  "padded rsiz ins =
     (let temp = ins @ 1 # replicate (rsiz - length ins - 1) 0 in temp[rsiz - 1 := temp ! (rsiz - 1) OR 0x80])"

lemma le_word_pad:
  assumes "length tail < 8"
  shows "le_word (tail @ 1 # replicate n 0) = le_word tail XOR push_bit (8 * length tail) 1"
proof (rule bit_word_eqI)
  fix k assume "k < LENGTH(64)"
  then have "k < 64" by simp
  have "\<not> bit (le_word tail) (8 * length tail)"
    using assms by (simp add: bit_le_word)
  then show "bit (le_word (tail @ 1 # replicate n 0)) k = bit (le_word tail XOR push_bit (8 * length tail) 1) k"
    by (auto simp: le_word_append le_word_zeros bit_simps push_bit_of_0)
qed

lemma bit_top:
  "bit (0x8000000000000000 :: u64) n \<longleftrightarrow> n = 63" "bit (0x80 :: u8) n \<longleftrightarrow> n = 7"
proof -
  have q: "(0x8000000000000000 :: u64) = 2 ^ 63" "(0x80 :: u8) = 2 ^ 7" by simp_all
  show "bit (0x8000000000000000 :: u64) n \<longleftrightarrow> n = 63" by (simp only: q bit_exp_iff possible_bit_word) auto
  show "bit (0x80 :: u8) n \<longleftrightarrow> n = 7" by (simp only: q bit_exp_iff possible_bit_word) auto
qed

lemma le_word_top:
  assumes "length bs = 8" and "\<not> bit (bs ! 7) 7"
  shows "le_word (bs[7 := bs ! 7 OR 0x80]) = le_word bs XOR 0x8000000000000000"
proof (rule bit_word_eqI)
  fix k assume "k < LENGTH(64)"
  then have k: "k < 64" by simp
  consider "k = 63" | "k \<noteq> 63" "k div 8 = 7" | "k div 8 < 7" using k by linarith
  then show "bit (le_word (bs[7 := bs ! 7 OR 0x80])) k = bit (le_word bs XOR 0x8000000000000000) k"
  proof cases
    case 1
    then show ?thesis using assms by (simp add: bit_xor_iff bit_le_word bit_or_iff bit_top)
  next
    case 2
    then have "k mod 8 \<noteq> 7" using div_mult_mod_eq [of k 8] by linarith
    then have "\<not> bit (0x80 :: u8) (k mod 8)" by (simp only: bit_top) simp
    moreover have "\<not> bit (0x8000000000000000 :: u64) k" using 2 by (simp only: bit_top) simp
    ultimately show ?thesis using 2 k assms by (simp add: bit_xor_iff bit_le_word bit_or_iff)
  next
    case 3
    then have "\<not> bit (0x8000000000000000 :: u64) k" by (simp only: bit_top)
    with 3 k assms show ?thesis by (auto simp: bit_xor_iff bit_le_word)
  qed
qed

text \<open>The padding of the one-call hash and of the streaming one.\<close>

lemma absorb_padded:
  assumes "0 < r" and "r \<le> 25" and "length st = 25" and "length ins < 8 * r"
  defines "j \<equiv> length ins div 8"
  defines "as \<equiv> take (8 * j) ins" and "tail \<equiv> drop (8 * j) ins"
  defines "s \<equiv> absorb j as st"
  defines "s1 \<equiv> s[j := s ! j XOR (le_word tail XOR push_bit (8 * length tail) 1)]"
  shows "absorb r (padded (8 * r) ins) st = s1[r - 1 := s1 ! (r - 1) XOR 0x8000000000000000]"
proof (rule nth_equalityI)
  have j: "8 * j \<le> length ins" "length ins < 8 * j + 8" "j < r"
    using assms(4) unfolding j_def by linarith+
  have len: "length as = 8 * j" "length tail < 8" "ins = as @ tail" using j by (auto simp: as_def tail_def)
  define temp where "temp = ins @ 1 # replicate (8 * r - length ins - 1) 0"
  have temp: "length temp = 8 * r" using assms(4) by (simp add: temp_def)
  let ?lane = "\<lambda>i. take 8 (drop (8 * i) temp)"
  have pad: "padded (8 * r) ins = temp[8 * r - 1 := temp ! (8 * r - 1) OR 0x80]" by (simp add: padded_def temp_def Let_def)
  fix i assume "i < length (absorb r (padded (8 * r) ins) st)"
  then have i: "i < 25" by simp
  have lane: "le_word (?lane i) =
      (if i < j then le_word (take 8 (drop (8 * i) as)) else if i = j then le_word tail XOR push_bit (8 * length tail) 1 else 0)"
    if "i < r"
  proof -
    consider "i < j" | "i = j" | "j < i" by linarith
    then show ?thesis
    proof cases
      case 1
      then obtain k where "j = Suc (i + k)" using less_imp_Suc_add by blast
      then have "?lane i = take 8 (drop (8 * i) as)" using len(1) by (simp add: temp_def len(3))
      with 1 show ?thesis by simp
    next
      case 2
      then have "?lane i = tail @ 1 # replicate (7 - length tail) 0"
        using len assms(4) that by (simp add: temp_def take_Cons')
      with 2 len(2) show ?thesis by (simp add: le_word_pad)
    next
      case 3
      then have "?lane i = replicate 8 0" using len assms(4) that by (simp add: temp_def drop_Cons')
      with 3 show ?thesis by (simp add: le_word_zeros)
    qed
  qed
  have top: "\<not> bit (temp ! (8 * r - 1)) 7"
    using assms(4) by (auto simp: temp_def nth_append nth_Cons')
  have plane: "le_word (take 8 (drop (8 * i) (padded (8 * r) ins))) =
      (if i = r - 1 then le_word (?lane i) XOR 0x8000000000000000 else le_word (?lane i))" if "i < r"
  proof (cases "i = r - 1")
    case True
    then have r: "r = Suc i" using assms(1) by simp
    then have n: "8 * r - 1 = 8 * i + 7" by simp
    have "take 8 (drop (8 * i) (padded (8 * r) ins)) = (?lane i)[7 := ?lane i ! 7 OR 0x80]"
      unfolding pad n using temp r by (simp add: drop_update_swap take_update_swap)
    moreover have "\<not> bit (?lane i ! 7) 7" using top temp r by (simp add: n add.commute)
    moreover have "length (?lane i) = 8" using temp r by simp
    ultimately have "le_word (take 8 (drop (8 * i) (padded (8 * r) ins))) = le_word (?lane i) XOR 0x8000000000000000"
      by (metis le_word_top)
    with True show ?thesis by simp
  next
    case False
    then have "8 * i + 8 \<le> 8 * r - 1" using that by simp
    then have "take 8 (drop (8 * i) (padded (8 * r) ins)) = ?lane i"
      by (intro nth_equalityI) (auto simp: pad temp)
    with False show ?thesis by simp
  qed
  have s: "length s = 25" "s ! i = (if i < j then st ! i XOR le_word (take 8 (drop (8 * i) as)) else st ! i)"
    using i by (simp_all add: s_def absorb_nth)
  show "absorb r (padded (8 * r) ins) st ! i = s1[r - 1 := s1 ! (r - 1) XOR 0x8000000000000000] ! i"
    using plane lane i s j(3) assms(1,2)
    by (cases "i = j"; cases "i = r - 1"; cases "i < r") (auto simp: absorb_nth s1_def nth_list_update xor.assoc)
qed (simp add: s1_def s_def)

text \<open>A context in Keccak mode hashes as \<open>keccak\<close> does.\<close>

lemma sha3_SetFlags_keccak:
  "sha3_SetFlags SHA3_FLAGS_KECCAK c = (SHA3_FLAGS_KECCAK, c\<lparr>c_capacityWords := c_capacityWords c OR SHA3_USE_KECCAK_FLAG\<rparr>)"
  by (simp add: sha3_SetFlags_def SHA3_FLAGS_KECCAK_def Let_def)

lemma sha3_Finalize_keccak:
  assumes "r = 25 - SHA3_CW cap" and "0 < r" and "cap AND SHA3_USE_KECCAK_FLAG \<noteq> 0" and "length st = 25"
    and "length ins < 8 * r"
  shows "sha3_Finalize (fold sha3_byte ins (sha3_start st cap)) =
    concat (map le_bytes (keccakf KECCAK_ROUNDS (absorb r (padded (8 * r) ins) st)))"
proof -
  let ?j = "length ins div 8"
  let ?as = "take (8 * ?j) ins" and ?tail = "drop (8 * ?j) ins"
  have j: "8 * ?j \<le> length ins" "length ins < 8 * ?j + 8" "?j < r" using assms(5) by linarith+
  have "fold sha3_byte ins (sha3_start st cap) = fold sha3_byte ?tail (fold sha3_byte ?as (sha3_start st cap))"
    by (metis append_take_drop_id comp_apply fold_append)
  also have "fold sha3_byte ?as (sha3_start st cap) = (sha3_start (absorb ?j ?as st) cap)\<lparr>c_wordIndex := ?j\<rparr>" (is "_ = ?c")
    by (rule sha3_partial) (use j assms in auto)
  also have "fold sha3_byte ?tail ?c = fold sha3_save ?tail ?c"
    by (rule sha3_save_few) (use j in \<open>simp add: sha3_start_def\<close>)
  also have "\<dots> = ?c\<lparr>c_saved := le_word ?tail, c_byteIndex := length ?tail\<rparr>"
    by (simp add: sha3_save_tail) (simp add: sha3_start_def)
  finally have "fold sha3_byte ins (sha3_start st cap) = ?c\<lparr>c_saved := le_word ?tail, c_byteIndex := length ?tail\<rparr>" .
  moreover have "r \<le> 25" using assms(1) by simp
  ultimately show ?thesis
    using absorb_padded [OF assms(2) _ assms(4,5)] assms(1,3)
    by (simp add: sha3_Finalize_def Let_def sha3_start_def sha3_rate_def SHA3_KECCAK_SPONGE_WORDS_def
        sha3_store_le_bytes [abs_def] mult.commute)
qed

lemma SHA3_CW_flag:
  "SHA3_CW (8 OR SHA3_USE_KECCAK_FLAG) = 8" "SHA3_CW (12 OR SHA3_USE_KECCAK_FLAG) = 12"
  "SHA3_CW (16 OR SHA3_USE_KECCAK_FLAG) = 16" "(x OR SHA3_USE_KECCAK_FLAG) AND SHA3_USE_KECCAK_FLAG \<noteq> 0"
proof -
  show "SHA3_CW (8 OR SHA3_USE_KECCAK_FLAG) = 8" "SHA3_CW (12 OR SHA3_USE_KECCAK_FLAG) = 12"
    "SHA3_CW (16 OR SHA3_USE_KECCAK_FLAG) = 16" by code_simp+
  have "(x OR SHA3_USE_KECCAK_FLAG) AND SHA3_USE_KECCAK_FLAG = SHA3_USE_KECCAK_FLAG" by (rule bit_word_eqI) (auto simp: bit_simps)
  then show "(x OR SHA3_USE_KECCAK_FLAG) AND SHA3_USE_KECCAK_FLAG \<noteq> 0" by (simp add: SHA3_USE_KECCAK_FLAG_def)
qed

lemma sha3_HashBuffer_keccak:
  assumes "bits \<in> {256, 384, 512}" and "outBytes \<le> bits div 8"
  shows "sha3_HashBuffer bits SHA3_FLAGS_KECCAK ins outBytes = Some (take outBytes (keccak ins (bits div 8)))"
proof -
  define cap where "cap = (of_nat (2 * bits div 64) OR SHA3_USE_KECCAK_FLAG :: u32)"
  define r where "r = 25 - SHA3_CW cap"
  have cap: "SHA3_CW cap = 2 * bits div 64" "cap AND SHA3_USE_KECCAK_FLAG \<noteq> 0"
    subgoal using assms(1) by (auto simp: cap_def SHA3_CW_flag)
    subgoal unfolding cap_def by (rule SHA3_CW_flag(4))
    done
  have r: "0 < r" "200 - 2 * (bits div 8) = 8 * r" "bits div 8 \<noteq> 200" using assms(1) by (auto simp: r_def cap)
  obtain rest st where b: "keccak_blocks (8 * r) ins (replicate 25 0) = (rest, st)" by (cases "keccak_blocks (8 * r) ins (replicate 25 0)")
  have "length rest < 8 * r \<and> length st = 25" by (rule keccak_blocks_rest [OF _ _ b]) (use r(1) in simp_all)
  then have rest: "length rest < 8 * r" "length st = 25" by simp_all
  let ?c = "sha3_start (replicate 25 0) cap"
  have start: "(case sha3_Init bits of None \<Rightarrow> None | Some c \<Rightarrow> Some (sha3_SetFlags SHA3_FLAGS_KECCAK c)) = Some (SHA3_FLAGS_KECCAK, ?c)"
    using assms(1) by (auto simp: sha3_Init_def sha3_SetFlags_keccak sha3_start_def cap_def SHA3_KECCAK_SPONGE_WORDS_def)
  have "sha3_ok ?c" by (simp add: sha3_ok_def sha3_start_def)
  then have "sha3_Update ins ?c = fold sha3_byte ins ?c" by (rule sha3_Update_bytes)
  also have "\<dots> = fold sha3_byte rest (sha3_start st cap)"
    using sha3_blocks [OF r_def r(1), of "replicate 25 0" ins] b by simp
  finally have "sha3_Finalize (sha3_Update ins ?c) = concat (map le_bytes (keccakf KECCAK_ROUNDS (absorb r (padded (8 * r) rest) st)))"
    using sha3_Finalize_keccak [OF r_def r(1) cap(2) rest(2,1)] by simp
  then have "keccak ins (bits div 8) = take (bits div 8) (sha3_Finalize (sha3_Update ins ?c))"
    using r by (simp add: keccak_def b padded_def Let_def)
  then show ?thesis using start assms(2)
    by (auto simp: sha3_HashBuffer_def Let_def split: option.splits prod.splits)
qed

end
