(* ===== verification/Env.thy ===== *)
theory Env
  imports CText OrdMap "HOL-Library.Char_ord" "HOL-Library.List_Lexorder"
begin

text \<open>
  Variables in the texts of the configuration (\<open>src/base/io/Env.cpp\<close>): \<open>${NAME}\<close> is replaced with the value
  of the variable. What a variable is worth (\<open>Env::get\<close>: the variables of the program, then those of the
  process) is a parameter. The regular expression is the scan that it stands for.
\<close>

text \<open>The names in the text, from left to right: \<open>\$\{([^}]+)\}\<close>.\<close>

function env_matches :: "string \<Rightarrow> string list" where
  "env_matches s =
     (case s of
        [] \<Rightarrow> []
      | c # cs \<Rightarrow>
          if c = CHR ''$'' \<and> cs \<noteq> [] \<and> hd cs = CHR ''{'' then
            let name = takeWhile (\<lambda>d. d \<noteq> CHR ''}'') (tl cs); rest = dropWhile (\<lambda>d. d \<noteq> CHR ''}'') (tl cs)
            in if name \<noteq> [] \<and> rest \<noteq> [] then name # env_matches (tl rest) else env_matches cs
          else env_matches cs)"
  by pat_completeness auto
termination
proof (relation "measure length")
  fix s :: string and c cs name rest
  assume s: "s = c # cs" and rest: "rest = dropWhile (\<lambda>d. d \<noteq> CHR ''}'') (tl cs)"
  have "length rest \<le> length (tl cs)" unfolding rest by (rule length_dropWhile_le)
  also have "\<dots> \<le> length cs" by (cases cs) auto
  finally show "(tl rest, s) \<in> measure length" using s by auto
qed auto

declare env_matches.simps [simp del]

definition env_key :: "string \<Rightarrow> string" where
  "env_key name = ''${'' @ name @ ''}''"

text \<open>The map \<open>vars\<close>: ordered by the text of the match, each variable is asked for once.\<close>

definition env_vars :: "(string \<Rightarrow> cstr) \<Rightarrow> string \<Rightarrow> (string \<times> cstr) list" where
  "env_vars value text =
     fold (\<lambda>name vars. if map_of vars (env_key name) \<noteq> None then vars
                       else omap_set (env_key name) (value name) vars) (env_matches text) []"

text \<open>The loop over \<open>text.find(key, pos)\<close>; a key is never empty.\<close>

function env_replace :: "string \<Rightarrow> string \<Rightarrow> string \<Rightarrow> string" where
  "env_replace key v text =
     (case text of
        [] \<Rightarrow> []
      | c # cs \<Rightarrow>
          if key \<noteq> [] \<and> is_prefix key text then v @ env_replace key v (drop (length key) text)
          else c # env_replace key v cs)"
  by pat_completeness auto
termination
  by (relation "measure (\<lambda>(key, v, text). length text)") auto

declare env_replace.simps [simp del]

definition env_expand :: "(string \<Rightarrow> cstr) \<Rightarrow> cstr \<Rightarrow> cstr" where
  "env_expand value text =
     (case text of
        None \<Rightarrow> None
      | Some s \<Rightarrow>
          if length s < 4 then Some s
          else Some (fold (\<lambda>(key, v) t. case v of None \<Rightarrow> t | Some v \<Rightarrow> env_replace key v t) (env_vars value s) s))"

section \<open>Lemmas\<close>

lemma env_matches_plain: "CHR ''$'' \<notin> set s \<Longrightarrow> env_matches s = []"
  by (induction s) (auto simp: env_matches.simps)

text \<open>A text without a dollar sign is taken as it is.\<close>

lemma env_expand_plain: "(\<And>s. text = Some s \<Longrightarrow> CHR ''$'' \<notin> set s) \<Longrightarrow> env_expand value text = text"
  by (auto simp: env_expand_def env_vars_def env_matches_plain split: option.splits)

text \<open>One variable alone is its value.\<close>

lemma is_prefix_append: "is_prefix a (a @ b)"
  by (induction a) auto

lemma env_matches_key:
  assumes "name \<noteq> []" "CHR ''}'' \<notin> set name"
  shows "env_matches (env_key name) = [name]"
proof -
  have t: "takeWhile (\<lambda>d. d \<noteq> CHR ''}'') (name @ ''}'') = name" "dropWhile (\<lambda>d. d \<noteq> CHR ''}'') (name @ ''}'') = ''}''"
    using assms(2) by (induction name) auto
  show ?thesis using assms(1) by (simp add: env_matches.simps env_key_def t env_matches.simps [of "[]"])
qed

lemma env_expand_variable:
  assumes "name \<noteq> []" "CHR ''}'' \<notin> set name" "value name = Some v"
  shows "env_expand value (Some (env_key name)) = Some v"
proof -
  have "env_replace (env_key name) v (env_key name) = v"
    using is_prefix_append [of "env_key name" "[]"]
    by (simp add: env_replace.simps [of _ _ "env_key name"] env_replace.simps [of _ _ "[]"] split: list.splits)
      (simp add: env_key_def)
  moreover have "env_vars value (env_key name) = [(env_key name, Some v)]"
    using assms by (simp add: env_vars_def env_matches_key)
  moreover have "\<not> length (env_key name) < 4" using assms(1) by (cases name) (auto simp: env_key_def)
  ultimately show ?thesis by (simp add: env_expand_def)
qed

end
