(* ===== verification/Client.thy ===== *)
theory Client
  imports Pools NetBuffer Env
begin

text \<open>
  The stratum client (\<open>src/base/net/stratum/BaseClient.h\<close>, \<open>BaseClient.cpp\<close>, \<open>Client.h\<close>, \<open>Client.cpp\<close>,
  \<open>Socks5.cpp\<close>, \<open>Tls.cpp\<close>) of the proxy build with TLS. Sockets are numbered handles; what the client asks
  of the network and tells its listener is logged in order. The first argument of the operations is the
  environment of the event they handle: the clock, the state of the socket's send queue, the texts and values
  of the JSON library, the answers of the listener, the TLS library. Where the code uses what it must not use,
  the model notes a fault and goes on; after a fault the state says nothing.
\<close>

section \<open>State\<close>

datatype socket_state =
    UnconnectedState
  | HostLookupState
  | ConnectingState
  | ConnectedState
  | ClosingState
  | ReconnectingState

datatype extension = EXT_ALGO | EXT_NICEHASH | EXT_CONNECT | EXT_TLS | EXT_KEEPALIVE

definition kConnectTimeout :: u64 where "kConnectTimeout = 20 * 1000"

definition kResponseTimeout :: u64 where "kResponseTimeout = 20 * 1000"

definition kMaxSendBufferSize :: nat where "kMaxSendBufferSize = 1024 * 16"

datatype socks5_state = Created | SentInitialHandshake | SentFinalHandshake | Ready

record socks5 =
  so_nextSize :: nat
  so_state :: socks5_state

definition socks5_new :: socks5 where
  "socks5_new = \<lparr>so_nextSize = 0, so_state = Created\<rparr>"

text \<open>\<open>'ssl\<close> is the connection of the TLS library with its two buffers; \<open>None\<close> before the handshake.\<close>

record 'ssl tls =
  tl_ready :: bool
  tl_fingerprint :: string
  tl_ssl :: "'ssl option"

definition tls_new :: "'ssl tls" where
  "tls_new = \<lparr>tl_ready = False, tl_fingerprint = [], tl_ssl = None\<rparr>"

datatype ssl_rc = WantRead | HandshakeDone | HandshakeFailed

text \<open>The calls of the TLS library: start a handshake (for a server name), encrypt, take received bytes, go
  on with the handshake, decrypt what there is, take the output.\<close>

record 'ssl ssl_lib =
  ssl_start :: "cstr \<Rightarrow> 'ssl"
  ssl_write :: "string \<Rightarrow> 'ssl \<Rightarrow> 'ssl"
  ssl_feed :: "string \<Rightarrow> 'ssl \<Rightarrow> 'ssl"
  ssl_finished :: "'ssl \<Rightarrow> bool"
  ssl_connect :: "'ssl \<Rightarrow> ssl_rc \<times> 'ssl"
  ssl_digest :: "'ssl \<Rightarrow> u8 list option"
  ssl_read :: "'ssl \<Rightarrow> string list \<times> 'ssl"
  ssl_output :: "'ssl \<Rightarrow> string \<times> 'ssl"

type_synonym members = "(string \<times> json) list"

record 'ssl client_env =
  ce_now :: u64
  ce_writable :: bool
  ce_accepts :: bool
  ce_text :: "json \<Rightarrow> string"
  ce_json :: "string \<Rightarrow> json option"
  ce_onLogin :: "members \<times> members \<Rightarrow> members \<times> members"
  ce_verify :: "algo_id \<Rightarrow> bool"
  ce_var :: "string \<Rightarrow> cstr"
  ce_ipv4 :: "string \<Rightarrow> u8 list option"
  ce_ipv6 :: "string \<Rightarrow> u8 list option"
  ce_ssl :: "'ssl ssl_lib"

datatype client_act =
    CcResolve cstr
  | CcConnect nat cstr u16
  | CcWrite nat string
  | CcShut nat
  | CcVerify algo_id
  | CcLogin
  | CcLoginSuccess
  | CcJob job
  | CcResult submit_result cstr
  | CcClose int
  | CcCallback nat json bool u64

datatype client_fault =
    FreedOpenHandle
  | NullSocket
  | NullListener
  | NullString
  | NoMessage
  | NoSession
  | BufferOverread
  | DivisionByZero

text \<open>The members of the code come first; a callback is a number. \<open>cl_dns\<close> says that a request is pending.
  Behind \<open>cl_socket\<close>: the handles made so far, the ones not freed, the ones given to \<open>uv_close\<close>, whether the
  client has left the storage (and is deleted), the shares \<open>submit\<close> has recorded, the calls, the faults.\<close>

record 'ssl client =
  cl_id :: int
  cl_agent :: string
  cl_listener :: bool
  cl_quiet :: bool
  cl_enabled :: bool
  cl_retries :: int
  cl_retryPause :: u64
  cl_failures :: int
  cl_job :: job
  cl_pool :: pool
  cl_state :: socket_state
  cl_callbacks :: "int \<Rightarrow> (nat \<times> u64) option"
  cl_results :: "int \<Rightarrow> submit_result option"
  cl_ip :: cstr
  cl_user :: cstr
  cl_password :: cstr
  cl_rigId :: cstr
  cl_rpcId :: cstr
  cl_sequence :: int
  cl_reader :: line_reader
  cl_socks5 :: "socks5 option"
  cl_tls :: "'ssl tls option"
  cl_extensions :: "extension set"
  cl_dns :: bool
  cl_sendBuf :: nat
  cl_expire :: u64
  cl_jobs :: u64
  cl_keepAlive :: u64
  cl_socket :: "nat option"
  cl_handles :: nat
  cl_live :: "nat list"
  cl_shut :: "nat list"
  cl_gone :: bool
  cl_shares :: "submit_result list"
  cl_log :: "client_act list"
  cl_faults :: "client_fault list"

definition cl_new :: "int \<Rightarrow> string \<Rightarrow> int \<Rightarrow> 'ssl client" where
  "cl_new i agent seq =
     \<lparr>cl_id = i, cl_agent = agent, cl_listener = True, cl_quiet = False, cl_enabled = True, cl_retries = 5,
      cl_retryPause = 5000, cl_failures = 0, cl_job = job_default, cl_pool = pool_of_url url_new,
      cl_state = UnconnectedState, cl_callbacks = Map.empty, cl_results = Map.empty, cl_ip = None, cl_user = None,
      cl_password = None, cl_rigId = None, cl_rpcId = None, cl_sequence = seq, cl_reader = lr_new, cl_socks5 = None,
      cl_tls = None, cl_extensions = {}, cl_dns = False, cl_sendBuf = 1024, cl_expire = 0, cl_jobs = 0,
      cl_keepAlive = 0, cl_socket = None, cl_handles = 0, cl_live = [], cl_shut = [], cl_gone = False,
      cl_shares = [], cl_log = [], cl_faults = []\<rparr>"

definition cl_say :: "client_act \<Rightarrow> 'ssl client \<Rightarrow> 'ssl client" where
  "cl_say c s = s\<lparr>cl_log := cl_log s @ [c]\<rparr>"

definition cl_fault :: "client_fault \<Rightarrow> 'ssl client \<Rightarrow> 'ssl client" where
  "cl_fault f s = s\<lparr>cl_faults := cl_faults s @ [f]\<rparr>"

text \<open>A call of the listener; the pointer must not be null.\<close>

definition cl_tell :: "client_act \<Rightarrow> 'ssl client \<Rightarrow> 'ssl client" where
  "cl_tell c s = (if cl_listener s then cl_say c s else cl_fault NullListener s)"

text \<open>\<open>m_storage.remove(m_key)\<close> deletes the client, and with it the socket's handle.\<close>

definition cl_remove :: "'ssl client \<Rightarrow> 'ssl client" where
  "cl_remove s = (let s = s\<lparr>cl_gone := True\<rparr> in if cl_socket s \<noteq> None then cl_fault FreedOpenHandle s else s)"

definition isQuiet :: "'ssl client \<Rightarrow> bool" where
  "isQuiet s \<longleftrightarrow> cl_quiet s \<or> cl_failures s \<ge> cl_retries s"

definition cl_isTLS :: "'ssl client \<Rightarrow> bool" where
  "cl_isTLS s \<longleftrightarrow> pool_isTLS (cl_pool s) \<and> cl_tls s \<noteq> None"

text \<open>The fingerprint the API shows: of a pool that is not pinned, once the handshake is done.\<close>

definition cl_tlsFingerprint :: "'ssl client \<Rightarrow> cstr" where
  "cl_tlsFingerprint s =
     (if cl_isTLS s \<and> pl_fingerprint (cl_pool s) = None then
        let t = the (cl_tls s) in if tl_ready t then Some (tl_fingerprint t) else None
      else None)"

definition has_algo :: "'ssl client \<Rightarrow> bool" where
  "has_algo s \<longleftrightarrow> EXT_ALGO \<in> cl_extensions s"

definition has_nicehash :: "'ssl client \<Rightarrow> bool" where
  "has_nicehash s \<longleftrightarrow> EXT_NICEHASH \<in> cl_extensions s \<or> pl_nicehash (cl_pool s)"

definition has_keepalive :: "'ssl client \<Rightarrow> bool" where
  "has_keepalive s \<longleftrightarrow> EXT_KEEPALIVE \<in> cl_extensions s \<or> pl_keepAlive (cl_pool s) > 0"

section \<open>Settings\<close>

definition cl_setAlgo :: "algo_id \<Rightarrow> 'ssl client \<Rightarrow> 'ssl client" where
  "cl_setAlgo a s = s\<lparr>cl_pool := (cl_pool s)\<lparr>pl_algorithm := a\<rparr>\<rparr>"

definition cl_setProxy :: "url \<Rightarrow> 'ssl client \<Rightarrow> 'ssl client" where
  "cl_setProxy u s = s\<lparr>cl_pool := (cl_pool s)\<lparr>pl_proxy := u\<rparr>\<rparr>"

definition cl_setEnabled :: "bool \<Rightarrow> 'ssl client \<Rightarrow> 'ssl client" where
  "cl_setEnabled b s = s\<lparr>cl_enabled := b\<rparr>"

definition cl_setQuiet :: "bool \<Rightarrow> 'ssl client \<Rightarrow> 'ssl client" where
  "cl_setQuiet b s = s\<lparr>cl_quiet := b\<rparr>"

definition cl_setRetries :: "int \<Rightarrow> 'ssl client \<Rightarrow> 'ssl client" where
  "cl_setRetries n s = s\<lparr>cl_retries := n\<rparr>"

definition cl_setRetryPause :: "u64 \<Rightarrow> 'ssl client \<Rightarrow> 'ssl client" where
  "cl_setRetryPause ms s = s\<lparr>cl_retryPause := ms\<rparr>"

definition cl_setPool :: "'ssl client_env \<Rightarrow> pool \<Rightarrow> 'ssl client \<Rightarrow> 'ssl client" where
  "cl_setPool e p s =
     (if \<not> pool_isValid p then s
      else s\<lparr>cl_pool := p, cl_user := env_expand (ce_var e) (pool_user p),
             cl_password := env_expand (ce_var e) (pool_password p), cl_rigId := env_expand (ce_var e) (pl_rigId p)\<rparr>)"

definition cl_setPoolUrl :: "string \<Rightarrow> 'ssl client \<Rightarrow> 'ssl client" where
  "cl_setPoolUrl text s = s\<lparr>cl_pool := (cl_pool s)\<lparr>pl_url := snd (url_parse (Some text) url_new)\<rparr>\<rparr>"

section \<open>The states of the connection\<close>

definition cl_setState :: "'ssl client_env \<Rightarrow> socket_state \<Rightarrow> 'ssl client \<Rightarrow> 'ssl client" where
  "cl_setState e st s =
     (if cl_state s = st then s
      else
        let s = (case st of
                   HostLookupState \<Rightarrow> s\<lparr>cl_expire := 0\<rparr>
                 | ConnectingState \<Rightarrow> s\<lparr>cl_expire := ce_now e + kConnectTimeout\<rparr>
                 | ReconnectingState \<Rightarrow> s\<lparr>cl_expire := ce_now e + cl_retryPause s\<rparr>
                 | _ \<Rightarrow> s)
        in s\<lparr>cl_state := st\<rparr>)"

definition cl_startTimeout :: "'ssl client_env \<Rightarrow> 'ssl client \<Rightarrow> 'ssl client" where
  "cl_startTimeout e s =
     (let s = s\<lparr>cl_expire := 0\<rparr>
      in if has_keepalive s then
           let k = pl_keepAlive (cl_pool s); ms = of_int (if k > 0 then k else kKeepAliveTimeout) * 1000
           in s\<lparr>cl_keepAlive := ce_now e + ms\<rparr>
         else s)"

definition cl_close :: "'ssl client_env \<Rightarrow> 'ssl client \<Rightarrow> bool \<times> 'ssl client" where
  "cl_close e s =
     (if cl_state s = ClosingState then (cl_socket s \<noteq> None, s)
      else
        case cl_socket s of
          None \<Rightarrow> (False, s)
        | Some h \<Rightarrow>
            if cl_state s = UnconnectedState then (False, s)
            else
              let s = cl_setState e ClosingState s in
              (True, if h \<in> set (cl_shut s) then s else cl_say (CcShut h) (s\<lparr>cl_shut := h # cl_shut s\<rparr>)))"

definition cl_disconnect :: "'ssl client_env \<Rightarrow> 'ssl client \<Rightarrow> bool \<times> 'ssl client" where
  "cl_disconnect e s = cl_close e (s\<lparr>cl_keepAlive := 0, cl_expire := 0, cl_failures := - 1\<rparr>)"

text \<open>The number of failures is reported as an \<open>int\<close>.\<close>

definition cl_reconnect :: "'ssl client_env \<Rightarrow> 'ssl client \<Rightarrow> 'ssl client" where
  "cl_reconnect e s =
     (if \<not> cl_listener s then cl_remove s
      else
        let s = s\<lparr>cl_keepAlive := 0\<rparr> in
        if cl_failures s = - 1 then cl_tell (CcClose (- 1)) s
        else
          let s = cl_setState e ReconnectingState s; s = s\<lparr>cl_failures := cl_failures s + 1\<rparr>
          in cl_tell (CcClose (signed_take_bit 31 (cl_failures s))) s)"

definition cl_resolve :: "'ssl client_env \<Rightarrow> cstr \<Rightarrow> 'ssl client \<Rightarrow> 'ssl client" where
  "cl_resolve e host s =
     (let s = cl_setState e HostLookupState s; s = s\<lparr>cl_reader := lr_reset (cl_reader s)\<rparr>;
          s = (if cl_failures s = - 1 then s\<lparr>cl_failures := 0\<rparr> else s)
      in cl_say (CcResolve host) (s\<lparr>cl_dns := True\<rparr>))"

definition cl_connect :: "'ssl client_env \<Rightarrow> 'ssl client \<Rightarrow> 'ssl client" where
  "cl_connect e s =
     (if proxy_isValid (pl_proxy (cl_pool s)) then cl_resolve e (proxy_host (pl_proxy (cl_pool s))) (s\<lparr>cl_socks5 := Some socks5_new\<rparr>)
      else
        let s = (if pool_isTLS (cl_pool s) then s\<lparr>cl_tls := Some tls_new\<rparr> else s)
        in cl_resolve e (u_host (pl_url (cl_pool s))) s)"

definition cl_connect_pool :: "'ssl client_env \<Rightarrow> pool \<Rightarrow> 'ssl client \<Rightarrow> 'ssl client" where
  "cl_connect_pool e p s = cl_connect e (cl_setPool e p s)"

definition cl_deleteLater :: "'ssl client_env \<Rightarrow> 'ssl client \<Rightarrow> 'ssl client" where
  "cl_deleteLater e s =
     (if \<not> cl_listener s then s
      else let (ok, s) = cl_disconnect e (s\<lparr>cl_listener := False\<rparr>) in if \<not> ok then cl_remove s else s)"

definition cl_connect_addr :: "'ssl client_env \<Rightarrow> u16 \<Rightarrow> 'ssl client \<Rightarrow> 'ssl client" where
  "cl_connect_addr e port s =
     (let s = cl_setState e ConnectingState s; h = cl_handles s;
          s = s\<lparr>cl_socket := Some h, cl_handles := Suc h, cl_live := h # cl_live s\<rparr>
      in cl_say (CcConnect h (cl_ip s) port) s)"

text \<open>The record the resolver picks, by its address; an empty answer without an error is the zero address.\<close>

definition cl_onResolved :: "'ssl client_env \<Rightarrow> cstr \<Rightarrow> int \<Rightarrow> 'ssl client \<Rightarrow> 'ssl client" where
  "cl_onResolved e record status s =
     (let s = s\<lparr>cl_dns := False\<rparr> in
      if \<not> cl_listener s then cl_reconnect e s
      else if status < 0 \<and> record = None then cl_reconnect e s
      else
        let s = s\<lparr>cl_ip := Some (case record of Some ip \<Rightarrow> ip | None \<Rightarrow> ''0.0.0.0'')\<rparr>
        in cl_connect_addr e (if cl_socks5 s \<noteq> None then u_port (pl_proxy (cl_pool s)) else u_port (pl_url (cl_pool s))) s)"

text \<open>The callback of \<open>uv_close\<close>.\<close>

definition cl_onClose :: "'ssl client_env \<Rightarrow> 'ssl client \<Rightarrow> 'ssl client" where
  "cl_onClose e s =
     (let s = (case cl_socket s of
                 None \<Rightarrow> s
               | Some h \<Rightarrow> (let s = s\<lparr>cl_live := remove1 h (cl_live s)\<rparr>
                            in if h \<in> set (cl_shut s) then s else cl_fault FreedOpenHandle s));
          s = cl_setState e UnconnectedState (s\<lparr>cl_socket := None\<rparr>)
      in cl_reconnect e (s\<lparr>cl_tls := None\<rparr>))"

section \<open>Sending\<close>

definition cl_write :: "'ssl client_env \<Rightarrow> string \<Rightarrow> 'ssl client \<Rightarrow> bool \<times> 'ssl client" where
  "cl_write e buf s =
     (let s = (if cl_socket s = None then cl_fault NullSocket s else s) in
      if ce_accepts e then (True, cl_say (CcWrite (the (cl_socket s)) buf) s)
      else (False, snd (cl_close e s)))"

text \<open>\<open>send(BIO *)\<close>: the output of the TLS library is taken, sent or not.\<close>

definition cl_send_bio :: "'ssl client_env \<Rightarrow> 'ssl client \<Rightarrow> bool \<times> 'ssl client" where
  "cl_send_bio e s =
     (case cl_tls s of
        Some t \<Rightarrow>
          (case tl_ssl t of
             Some c \<Rightarrow>
               let (buf, c) = ssl_output (ce_ssl e) c in
               if buf = [] then (True, s)
               else
                 let s = s\<lparr>cl_tls := Some (t\<lparr>tl_ssl := Some c\<rparr>)\<rparr>
                 in if cl_state s = ConnectedState \<and> ce_writable e then cl_write e buf s else (False, s)
           | None \<Rightarrow> (False, cl_fault NoSession s))
      | None \<Rightarrow> (False, cl_fault NoSession s))"

definition tls_send :: "'ssl client_env \<Rightarrow> string \<Rightarrow> 'ssl client \<Rightarrow> bool \<times> 'ssl client" where
  "tls_send e buf s =
     (case cl_tls s of
        Some t \<Rightarrow>
          (case tl_ssl t of
             Some c \<Rightarrow> cl_send_bio e (s\<lparr>cl_tls := Some (t\<lparr>tl_ssl := Some (ssl_write (ce_ssl e) buf c)\<rparr>)\<rparr>)
           | None \<Rightarrow> (False, cl_fault NoSession s))
      | None \<Rightarrow> (False, cl_fault NoSession s))"

text \<open>\<open>send(size)\<close> with the first \<open>size\<close> characters of the send buffer.\<close>

definition cl_send_size :: "'ssl client_env \<Rightarrow> string \<Rightarrow> 'ssl client \<Rightarrow> int \<times> 'ssl client" where
  "cl_send_size e buf s =
     (let (ok, s) =
            (if cl_isTLS s then tls_send e buf s
             else if cl_state s \<noteq> ConnectedState \<or> \<not> ce_writable e then (False, s)
             else cl_write e buf s)
      in if \<not> ok then (- 1, s)
         else (cl_sequence s, s\<lparr>cl_expire := ce_now e + kResponseTimeout, cl_sequence := cl_sequence s + 1\<rparr>))"

definition cl_send :: "'ssl client_env \<Rightarrow> json \<Rightarrow> 'ssl client \<Rightarrow> int \<times> 'ssl client" where
  "cl_send e obj s =
     (let text = ce_text e obj; n = length text in
      if n > kMaxSendBufferSize then (- 1, snd (cl_close e s))
      else
        let s = (if n > cl_sendBuf s - 2 then s\<lparr>cl_sendBuf := ((n + 1) div 1024 + 1) * 1024\<rparr> else s);
            s = (if n + 1 < cl_sendBuf s then s else cl_fault BufferOverread s)
        in cl_send_size e (text @ [newline]) s)"

text \<open>\<open>insert\<close> keeps a callback that is there already.\<close>

definition cl_send_callback :: "'ssl client_env \<Rightarrow> json \<Rightarrow> nat \<Rightarrow> 'ssl client \<Rightarrow> int \<times> 'ssl client" where
  "cl_send_callback e obj callback s =
     cl_send e obj (if cl_callbacks s (cl_sequence s) = None
                    then s\<lparr>cl_callbacks := (cl_callbacks s)(cl_sequence s \<mapsto> (callback, ce_now e))\<rparr> else s)"

text \<open>\<open>JsonRequest::create(doc, id, method, params)\<close> adds to what the document has.\<close>

definition json_request :: "members \<Rightarrow> int \<Rightarrow> string \<Rightarrow> members \<Rightarrow> json" where
  "json_request doc i m params =
     JsObject (doc @ [(''id'', JsInt i), (''jsonrpc'', JsString ''2.0''), (''method'', JsString m), (''params'', JsObject params)])"

definition submit_params :: "'ssl client \<Rightarrow> job_result \<Rightarrow> members" where
  "submit_params s r =
     [(''id'', JsString (the (cl_rpcId s))), (''job_id'', JsString (the (jr_jobId r))),
      (''nonce'', JsString (the (jr_nonce r))), (''result'', JsString (the (jr_result r)))] @
     (case jr_sig r of Some g \<Rightarrow> [(''sig'', JsString g)] | None \<Rightarrow> []) @
     (if has_algo s \<and> algo_isValid (jr_algorithm r) then [(''algo'', JsString (algo_name (jr_algorithm r)))] else [])"

definition cl_submit :: "'ssl client_env \<Rightarrow> job_result \<Rightarrow> 'ssl client \<Rightarrow> int \<times> 'ssl client" where
  "cl_submit e r s =
     (if jr_diff r = 0 then (- 1, snd (cl_close e s))
      else
        let s = (if cl_rpcId s = None \<or> jr_jobId r = None \<or> jr_nonce r = None \<or> jr_result r = None
                 then cl_fault NullString s else s);
            doc = json_request [] (cl_sequence s) ''submit'' (submit_params s r);
            share = mk_submit_result (ce_now e) (cl_sequence s) (jr_diff r) (jr_actualDiff r) (jr_id r) 0;
            s = s\<lparr>cl_results := (cl_results s)(cl_sequence s \<mapsto> share), cl_shares := cl_shares s @ [share]\<rparr>
        in cl_send e doc s)"

definition login_params :: "'ssl client \<Rightarrow> members" where
  "login_params s =
     [(''login'', str_toJSON (cl_user s)), (''pass'', str_toJSON (cl_password s)), (''agent'', JsString (cl_agent s))] @
     (if cl_rigId s \<noteq> None then [(''rigid'', str_toJSON (cl_rigId s))] else [])"

definition cl_login :: "'ssl client_env \<Rightarrow> 'ssl client \<Rightarrow> 'ssl client" where
  "cl_login e s =
     (let s = cl_tell CcLogin (s\<lparr>cl_results := Map.empty\<rparr>);
          (doc, params) = ce_onLogin e ([], login_params s)
      in snd (cl_send e (json_request doc 1 ''login'' params) s))"

text \<open>\<open>snprintf\<close> cuts the text and ends it with a zero, and returns the length it would have.\<close>

definition dquoted :: "string \<Rightarrow> string" where
  "dquoted t = CHR 0x22 # t @ [CHR 0x22]"

definition ping_text :: "int \<Rightarrow> cstr \<Rightarrow> string" where
  "ping_text seq rpcId =
     ''{'' @ dquoted ''id'' @ '':'' @ dec_int seq @ '','' @ dquoted ''jsonrpc'' @ '':'' @ dquoted ''2.0'' @ '','' @
     dquoted ''method'' @ '':'' @ dquoted ''keepalived'' @ '','' @ dquoted ''params'' @ '':{'' @ dquoted ''id'' @ '':'' @
     dquoted (case rpcId of Some i \<Rightarrow> i | None \<Rightarrow> ''(null)'') @ ''}}'' @ [newline]"

definition cl_ping :: "'ssl client_env \<Rightarrow> 'ssl client \<Rightarrow> 'ssl client" where
  "cl_ping e s =
     (let text = ping_text (cl_sequence s) (cl_rpcId s); n = length text;
          buf = (if n < cl_sendBuf s then text else take (cl_sendBuf s - 1) text @ [nul]);
          s = (if n > cl_sendBuf s then cl_fault BufferOverread s else s);
          s = snd (cl_send_size e (take n buf) s)
      in s\<lparr>cl_keepAlive := 0\<rparr>)"

definition cl_tick :: "'ssl client_env \<Rightarrow> u64 \<Rightarrow> 'ssl client \<Rightarrow> 'ssl client" where
  "cl_tick e now s =
     (if cl_state s = ConnectedState then
        if cl_expire s \<noteq> 0 \<and> now > cl_expire s then snd (cl_close e s)
        else if cl_keepAlive s \<noteq> 0 \<and> now > cl_keepAlive s then cl_ping e s
        else s
      else if cl_state s = ReconnectingState \<and> cl_expire s \<noteq> 0 \<and> now > cl_expire s then cl_connect e s
      else if cl_state s = ConnectingState \<and> cl_expire s \<noteq> 0 \<and> now > cl_expire s then snd (cl_close e s)
      else s)"

section \<open>SOCKS5 and TLS\<close>

definition socks5_frame :: "string \<Rightarrow> u16 \<Rightarrow> u8 list option \<Rightarrow> u8 list option \<Rightarrow> u8 list" where
  "socks5_frame host port ipv4 ipv6 =
     [5, 1, 0] @
     (case ipv4 of
        Some a \<Rightarrow> 1 # a
      | None \<Rightarrow>
          (case ipv6 of
             Some a \<Rightarrow> 4 # a
           | None \<Rightarrow> 3 # of_nat (length host) # map byte_of host)) @
     [ucast (drop_bit 8 port), ucast port]"

definition socks5_handshake :: "'ssl client_env \<Rightarrow> 'ssl client \<Rightarrow> 'ssl client" where
  "socks5_handshake e s =
     snd (cl_write e (map char_of_byte [5, 1, 0])
           (s\<lparr>cl_socks5 := Some \<lparr>so_nextSize = 2, so_state = SentInitialHandshake\<rparr>\<rparr>))"

definition socks5_connect :: "'ssl client_env \<Rightarrow> 'ssl client \<Rightarrow> 'ssl client" where
  "socks5_connect e s =
     (let s = s\<lparr>cl_socks5 := Some \<lparr>so_nextSize = 5, so_state = SentFinalHandshake\<rparr>\<rparr>; u = pl_url (cl_pool s) in
      case u_host u of
        None \<Rightarrow> cl_fault NullString s
      | Some host \<Rightarrow>
          snd (cl_write e (map char_of_byte (socks5_frame host (u_port u) (ce_ipv4 e host) (ce_ipv6 e host))) s))"

definition socks5_read :: "'ssl client_env \<Rightarrow> string \<Rightarrow> socks5 \<Rightarrow> 'ssl client \<Rightarrow> 'ssl client" where
  "socks5_read e data so s =
     (if length data < so_nextSize so then s
      else if length data < 2 then cl_fault BufferOverread s
      else if byte_of (data ! 0) = 5 \<and> byte_of (data ! 1) = 0 then
        if so_state so = SentInitialHandshake then socks5_connect e s
        else s\<lparr>cl_socks5 := Some (so\<lparr>so_state := Ready\<rparr>)\<rparr>
      else snd (cl_close e s))"

definition tls_handshake :: "'ssl client_env \<Rightarrow> cstr \<Rightarrow> 'ssl client \<Rightarrow> 'ssl client" where
  "tls_handshake e servername s =
     (case cl_tls s of
        Some t \<Rightarrow> snd (cl_send_bio e (s\<lparr>cl_tls := Some (t\<lparr>tl_ssl := Some (ssl_start (ce_ssl e) servername)\<rparr>)\<rparr>))
      | None \<Rightarrow> cl_fault NoSession s)"

definition cl_handshake :: "'ssl client_env \<Rightarrow> 'ssl client \<Rightarrow> 'ssl client" where
  "cl_handshake e s =
     (if cl_socks5 s \<noteq> None then socks5_handshake e s
      else if cl_isTLS s then
        tls_handshake e (if pl_sni (cl_pool s) then u_host (pl_url (cl_pool s)) else None)
          (s\<lparr>cl_expire := ce_now e + kResponseTimeout\<rparr>)
      else cl_login e s)"

text \<open>\<open>strncasecmp(m_fingerprint, fingerprint, 64) == 0\<close>.\<close>

definition fingerprint_ok :: "string \<Rightarrow> cstr \<Rightarrow> bool" where
  "fingerprint_ok seen wanted \<longleftrightarrow>
     (case wanted of None \<Rightarrow> True | Some w \<Rightarrow> map to_lower (take 64 seen) = map to_lower (take 64 w))"

text \<open>\<open>verifyFingerprint\<close> stores the fingerprint it compares.\<close>

definition tls_verify :: "u8 list option \<Rightarrow> cstr \<Rightarrow> 'ssl tls \<Rightarrow> bool \<times> 'ssl tls" where
  "tls_verify digest wanted t =
     (case digest of
        None \<Rightarrow> (False, t)
      | Some md \<Rightarrow>
          let t = t\<lparr>tl_fingerprint := the (toHex_buf 72 (take 32 md))\<rparr>
          in (fingerprint_ok (tl_fingerprint t) wanted, t))"

section \<open>Messages\<close>

definition cl_verifyAlgorithm :: "'ssl client_env \<Rightarrow> algo_id \<Rightarrow> 'ssl client \<Rightarrow> bool \<times> 'ssl client" where
  "cl_verifyAlgorithm e a s = (if \<not> algo_isValid a then (False, s) else (ce_verify e a, cl_tell (CcVerify a) s))"

text \<open>The algorithm of a job: the one it names, the one of the pool's coin and the version of the blob, or
  the one of the pool.\<close>

definition job_algorithm :: "pool \<Rightarrow> cstr \<Rightarrow> algo_id" where
  "job_algorithm p algo =
     (if algo \<noteq> None then algo_parse algo
      else if pl_coin p \<noteq> COIN_INVALID then coin_algorithm (pl_coin p)
      else pl_algorithm p)"

definition is_object :: "json \<Rightarrow> bool" where
  "is_object v \<longleftrightarrow> (case v of JsObject _ \<Rightarrow> True | _ \<Rightarrow> False)"

text \<open>The first part of \<open>parseJob\<close>: the job of the parameters up to its height, or the code of what is
  wrong with them, or a division by zero.\<close>

datatype job_reading = JobRefused int | JobUndefined | JobRead job

definition read_job :: "pool \<Rightarrow> bool \<Rightarrow> cstr \<Rightarrow> json \<Rightarrow> job_reading" where
  "read_job p nicehash rpcId params =
     (if \<not> is_object params then JobRefused 2
      else
        let (ok, j) = job_setId (getString params ''job_id'' None) (job_new nicehash (pl_algorithm p) rpcId) in
        if \<not> ok then JobRefused 3
        else
          let j = j\<lparr>j_algorithm := job_algorithm p (getString params ''algo'' None)\<rparr>;
              (ok, j) =
                (if pl_mode p = MODE_SELF_SELECT then
                   let j = j\<lparr>j_extraNonce := getString params ''extra_nonce'' None, j_poolWallet := getString params ''pool_wallet'' None\<rparr>
                   in (\<not> (str_isNull (j_extraNonce j) \<or> str_isNull (j_poolWallet j)), j)
                 else setBlob (getString params ''blob'' None) j)
          in if \<not> ok then JobRefused 4
          else
            case setTarget (getString params ''target'' None) j of
              None \<Rightarrow> JobUndefined
            | Some (ok, j) \<Rightarrow>
                if \<not> ok then JobRefused 5
                else JobRead (j\<lparr>j_height := of_int (getUint64 params ''height'' 0)\<rparr>))"

text \<open>After the check of the algorithm: the seed hash, without which a RandomX job is refused, and the key
  of miner signatures.\<close>

definition read_seed :: "pool \<Rightarrow> json \<Rightarrow> job \<Rightarrow> job option" where
  "read_seed p params j =
     (let (ok, j) =
            (if pl_mode p \<noteq> MODE_SELF_SELECT \<and> algo_family (j_algorithm j) = FAM_RANDOM_X
             then setSeedHash (getString params ''seed_hash'' None) j else (True, j))
      in if \<not> ok then None else Some (setSigKey (getString params ''sig_key'' None) j))"

text \<open>The end of \<open>parseJob\<close>: a job that differs from the current one is taken; the same job again closes the
  connection, unless it is the first one after the login.\<close>

definition take_job :: "'ssl client_env \<Rightarrow> job \<Rightarrow> 'ssl client \<Rightarrow> bool \<times> 'ssl client" where
  "take_job e j s =
     (let s = s\<lparr>cl_job := (cl_job s)\<lparr>j_clientId := cl_rpcId s\<rparr>\<rparr>
      in if \<not> job_isEqual (cl_job s) j then
           (True, s\<lparr>cl_jobs := cl_jobs s + 1, cl_job := fst (job_move (cl_job s) j)\<rparr>)
         else if cl_jobs s = 0 then (False, s)
         else (False, snd (cl_close e s)))"

text \<open>\<open>parseJob\<close>: what it returns, the code, and the client.\<close>

definition cl_parseJob :: "'ssl client_env \<Rightarrow> json \<Rightarrow> int \<Rightarrow> 'ssl client \<Rightarrow> bool \<times> int \<times> 'ssl client" where
  "cl_parseJob e params code s =
     (case read_job (cl_pool s) (has_nicehash s) (cl_rpcId s) params of
        JobRefused c \<Rightarrow> (False, c, s)
      | JobUndefined \<Rightarrow> (False, code, cl_fault DivisionByZero s)
      | JobRead j \<Rightarrow>
          let (ok, s) = cl_verifyAlgorithm e (j_algorithm j) s in
          if \<not> ok then (False, 6, s)
          else
            case read_seed (cl_pool s) params j of
              None \<Rightarrow> (False, 7, s)
            | Some j \<Rightarrow> let (rc, s) = take_job e j s in (rc, code, s))"

fun cl_extension :: "'ssl client_env \<Rightarrow> json \<Rightarrow> 'ssl client \<Rightarrow> 'ssl client" where
  "cl_extension e (JsString t) s =
     (let name = c_string t; add = (\<lambda>x s. s\<lparr>cl_extensions := insert x (cl_extensions s)\<rparr>) in
      if name = ''algo'' then add EXT_ALGO s
      else if name = ''nicehash'' then add EXT_NICEHASH s
      else if name = ''connect'' then add EXT_CONNECT s
      else if name = ''keepalive'' then cl_startTimeout e (add EXT_KEEPALIVE s)
      else if name = ''tls'' then add EXT_TLS s
      else s)"
| "cl_extension e _ s = s"

definition cl_parseExtensions :: "'ssl client_env \<Rightarrow> json \<Rightarrow> 'ssl client \<Rightarrow> 'ssl client" where
  "cl_parseExtensions e result s =
     (let s = s\<lparr>cl_extensions := {}\<rparr> in
      case json_find result ''extensions'' of
        Some (JsArray xs) \<Rightarrow> fold (cl_extension e) xs s
      | _ \<Rightarrow> s)"

definition cl_parseLogin :: "'ssl client_env \<Rightarrow> json \<Rightarrow> int \<Rightarrow> 'ssl client \<Rightarrow> bool \<times> int \<times> 'ssl client" where
  "cl_parseLogin e result code s =
     (let s = s\<lparr>cl_rpcId := getString result ''id'' None\<rparr> in
      if str_isNull (cl_rpcId s) then (False, 1, s)
      else
        let s = cl_parseExtensions e result s; (rc, code, s) = cl_parseJob e (getObject result ''job'') code s
        in (rc, code, s\<lparr>cl_jobs := 0\<rparr>))"

definition cl_parseNotification :: "'ssl client_env \<Rightarrow> string \<Rightarrow> json \<Rightarrow> 'ssl client \<Rightarrow> 'ssl client" where
  "cl_parseNotification e m params s =
     (if m = ''job'' then
        let (rc, code, s) = cl_parseJob e params (- 1) s
        in if rc then cl_tell (CcJob (cl_job s)) s else snd (cl_close e s)
      else s)"

definition cl_handleResponse :: "'ssl client_env \<Rightarrow> int \<Rightarrow> json \<Rightarrow> json \<Rightarrow> 'ssl client \<Rightarrow> bool \<times> 'ssl client" where
  "cl_handleResponse e i result error s =
     (if i = 1 then (False, s)
      else
        case cl_callbacks s i of
          None \<Rightarrow> (False, s)
        | Some (callback, ts) \<Rightarrow>
            let elapsed = ce_now e - ts;
                s = (case error of
                       JsObject _ \<Rightarrow> cl_say (CcCallback callback error False elapsed) s
                     | _ \<Rightarrow> cl_say (CcCallback callback result True elapsed) s)
            in (True, s\<lparr>cl_callbacks := (cl_callbacks s)(i := None)\<rparr>))"

definition cl_handleSubmitResponse :: "'ssl client_env \<Rightarrow> int \<Rightarrow> cstr \<Rightarrow> 'ssl client \<Rightarrow> bool \<times> 'ssl client" where
  "cl_handleSubmitResponse e i error s =
     (case cl_results s i of
        None \<Rightarrow> (False, s)
      | Some r \<Rightarrow>
          let s = cl_tell (CcResult (sr_done (ce_now e) r) error) s
          in (True, s\<lparr>cl_results := (cl_results s)(i := None)\<rparr>))"

definition isCriticalError :: "cstr \<Rightarrow> bool" where
  "isCriticalError message \<longleftrightarrow>
     (case message of
        None \<Rightarrow> False
      | Some m \<Rightarrow> strncasecmp_eq m ''Unauthenticated'' \<or> strncasecmp_eq m ''your IP is banned'' \<or>
          strncasecmp_eq m ''IP Address currently banned'' \<or> strncasecmp_eq m ''Invalid job id'')"

text \<open>The branches of \<open>parseResponse\<close>: an error (without a text, \<open>GetString\<close> of a value that is no string),
  and the answer to the login.\<close>

definition refuse_response :: "'ssl client_env \<Rightarrow> int \<Rightarrow> json \<Rightarrow> 'ssl client \<Rightarrow> 'ssl client" where
  "refuse_response e i error s =
     (let message = getString error ''message'' None;
          s = (if message = None then cl_fault NoMessage s else s);
          s = snd (cl_handleSubmitResponse e i message s)
      in if cl_id s = 1 \<or> isCriticalError message then snd (cl_close e s) else s)"

definition login_response :: "'ssl client_env \<Rightarrow> json \<Rightarrow> 'ssl client \<Rightarrow> 'ssl client" where
  "login_response e result s =
     (let (rc, code, s) = cl_parseLogin e result (- 1) s in
      if \<not> rc then snd (cl_close e s)
      else
        let s = cl_tell CcLoginSuccess (s\<lparr>cl_failures := 0\<rparr>)
        in if job_isValid (cl_job s) then cl_tell (CcJob (cl_job s)) s else s)"

definition cl_parseResponse :: "'ssl client_env \<Rightarrow> int \<Rightarrow> json \<Rightarrow> json \<Rightarrow> 'ssl client \<Rightarrow> 'ssl client" where
  "cl_parseResponse e i result error s =
     (let (handled, s) = cl_handleResponse e i result error s in
      if handled then s
      else if is_object error then refuse_response e i error s
      else if \<not> is_object result then s
      else if i = 1 then login_response e result s
      else snd (cl_handleSubmitResponse e i None s))"

text \<open>\<open>client.reconnect\<close>: \<open>None\<close> when the parameters are refused.\<close>

definition reconnect_url :: "json \<Rightarrow> string option" where
  "reconnect_url params =
     (case params of
        JsArray [JsString host, JsString port] \<Rightarrow> Some (c_string host @ '':'' @ c_string port)
      | _ \<Rightarrow> None)"

definition cl_parse :: "'ssl client_env \<Rightarrow> string \<Rightarrow> 'ssl client \<Rightarrow> 'ssl client" where
  "cl_parse e line s =
     (let s = cl_startTimeout e s in
      if length line < 22 \<or> line ! 0 \<noteq> CHR ''{'' then s
      else
        case ce_json e (c_string line) of
          None \<Rightarrow> s
        | Some doc \<Rightarrow>
            if \<not> is_object doc then s
            else
              let i = getValue doc ''id''; error = getValue doc ''error''; m = getString doc ''method'' None in
              if m = Some ''client.reconnect'' then
                (case reconnect_url (getValue doc ''params'') of
                   None \<Rightarrow> s
                 | Some text \<Rightarrow> cl_reconnect e (cl_setPoolUrl text s))
              else
                case i of
                  JsInt k \<Rightarrow>
                    if is_int64 k then cl_parseResponse e k (getValue doc ''result'') error s
                    else (case m of None \<Rightarrow> s | Some m \<Rightarrow>
                            if is_object error then s else cl_parseNotification e m (getValue doc ''params'') s)
                | _ \<Rightarrow> (case m of None \<Rightarrow> s | Some m \<Rightarrow>
                          if is_object error then s else cl_parseNotification e m (getValue doc ''params'') s))"

section \<open>Receiving\<close>

text \<open>The lines of the received text, each handled as it is found.\<close>

definition cl_receive :: "'ssl client_env \<Rightarrow> string \<Rightarrow> 'ssl client \<Rightarrow> 'ssl client" where
  "cl_receive e data s =
     (let (ls, r) = lr_parse data (cl_reader s) in fold (cl_parse e) ls (s\<lparr>cl_reader := r\<rparr>))"

definition tls_read :: "'ssl client_env \<Rightarrow> string \<Rightarrow> 'ssl client \<Rightarrow> 'ssl client" where
  "tls_read e data s =
     (case cl_tls s of
        Some t \<Rightarrow>
          (case tl_ssl t of
             Some c \<Rightarrow>
               let c = ssl_feed (ce_ssl e) data c in
               if \<not> ssl_finished (ce_ssl e) c then
                 (case ssl_connect (ce_ssl e) c of
                    (WantRead, c) \<Rightarrow> snd (cl_send_bio e (s\<lparr>cl_tls := Some (t\<lparr>tl_ssl := Some c\<rparr>)\<rparr>))
                  | (HandshakeDone, c) \<Rightarrow>
                      let (ok, t) = tls_verify (ssl_digest (ce_ssl e) c) (pl_fingerprint (cl_pool s)) (t\<lparr>tl_ssl := Some c\<rparr>)
                      in if \<not> ok then snd (cl_close e (s\<lparr>cl_tls := Some t\<rparr>))
                         else cl_login e (s\<lparr>cl_tls := Some (t\<lparr>tl_ready := True\<rparr>)\<rparr>)
                  | (HandshakeFailed, c) \<Rightarrow> s\<lparr>cl_tls := Some (t\<lparr>tl_ssl := Some c\<rparr>)\<rparr>)
               else
                 let (bufs, c) = ssl_read (ce_ssl e) c
                 in fold (cl_receive e) bufs (s\<lparr>cl_tls := Some (t\<lparr>tl_ssl := Some c\<rparr>)\<rparr>)
           | None \<Rightarrow> cl_fault NoSession s)
      | None \<Rightarrow> cl_fault NoSession s)"

text \<open>\<open>None\<close> is a read error.\<close>

definition cl_read :: "'ssl client_env \<Rightarrow> string option \<Rightarrow> 'ssl client \<Rightarrow> 'ssl client" where
  "cl_read e received s =
     (case received of
        None \<Rightarrow> snd (cl_close e s)
      | Some data \<Rightarrow>
          if \<not> cl_listener s then cl_reconnect e s
          else
            case cl_socks5 s of
              Some so \<Rightarrow>
                let s = socks5_read e data so s in
                if so_state (the (cl_socks5 s)) = Ready then
                  let s = s\<lparr>cl_socks5 := None\<rparr>;
                      s = (if pool_isTLS (cl_pool s) \<and> cl_tls s = None then s\<lparr>cl_tls := Some tls_new\<rparr> else s)
                  in cl_handshake e s
                else s
            | None \<Rightarrow> if cl_isTLS s then tls_read e data s else cl_receive e data s)"

definition cl_onConnect :: "'ssl client_env \<Rightarrow> int \<Rightarrow> 'ssl client \<Rightarrow> 'ssl client" where
  "cl_onConnect e status s =
     (if status < 0 then
        if cl_state s = ReconnectingState \<or> cl_state s = ClosingState then s
        else if cl_state s \<noteq> ConnectingState then s
        else snd (cl_close e s)
      else if cl_state s = ConnectedState then s
      else
        let s = cl_setState e ConnectedState s; s = (if cl_socket s = None then cl_fault NullSocket s else s)
        in cl_handshake e s)"

section \<open>Runs\<close>

text \<open>What happens to a client: calls of its owner, then callbacks of the resolver and of libuv with the
  handle they belong to. \<open>EvSequence\<close> is a request of another client: the counter is shared.\<close>

datatype 'ssl client_event =
    EvConnect
  | EvConnectPool pool
  | EvSetPool pool
  | EvDisconnect
  | EvDeleteLater
  | EvTick u64
  | EvSubmit job_result
  | EvSend json nat
  | EvResolved cstr int
  | EvOnConnect nat int
  | EvRead nat "string option"
  | EvClosed nat
  | EvSequence int

text \<open>The static callbacks find the client by its key; a client that was removed is not found.\<close>

fun cl_step :: "'ssl client \<Rightarrow> 'ssl client_env \<times> 'ssl client_event \<Rightarrow> 'ssl client" where
  "cl_step s (e, EvConnect) = cl_connect e s"
| "cl_step s (e, EvConnectPool p) = cl_connect_pool e p s"
| "cl_step s (e, EvSetPool p) = cl_setPool e p s"
| "cl_step s (e, EvDisconnect) = snd (cl_disconnect e s)"
| "cl_step s (e, EvDeleteLater) = cl_deleteLater e s"
| "cl_step s (e, EvTick now) = cl_tick e now s"
| "cl_step s (e, EvSubmit r) = snd (cl_submit e r s)"
| "cl_step s (e, EvSend obj c) = snd (cl_send_callback e obj c s)"
| "cl_step s (e, EvResolved record status) = cl_onResolved e record status s"
| "cl_step s (e, EvOnConnect h status) = (if cl_gone s then s else cl_onConnect e status s)"
| "cl_step s (e, EvRead h data) = (if cl_gone s then s else cl_read e data s)"
| "cl_step s (e, EvClosed h) = (if cl_gone s then s else cl_onClose e s)"
| "cl_step s (e, EvSequence n) = s\<lparr>cl_sequence := n\<rparr>"

text \<open>What the environment keeps to, in two parts. The owner does not use a client it has handed over for
  deletion, and connects only one that has no socket. The strategies do not all keep to the second: a
  suspended upstream calls \<open>disconnect\<close>, and a miner that logs in before the loop has run the close callbacks
  makes it call \<open>connect\<close> again.\<close>

fun cl_owner_ok :: "'ssl client \<Rightarrow> 'ssl client_event \<Rightarrow> bool" where
  "cl_owner_ok s EvConnect \<longleftrightarrow> cl_listener s \<and> cl_state s \<in> {UnconnectedState, HostLookupState, ReconnectingState}"
| "cl_owner_ok s (EvConnectPool p) \<longleftrightarrow> cl_listener s \<and> cl_state s \<in> {UnconnectedState, HostLookupState, ReconnectingState}"
| "cl_owner_ok s (EvSetPool p) \<longleftrightarrow> cl_listener s"
| "cl_owner_ok s EvDisconnect \<longleftrightarrow> cl_listener s"
| "cl_owner_ok s EvDeleteLater \<longleftrightarrow> cl_listener s"
| "cl_owner_ok s (EvTick now) \<longleftrightarrow> cl_listener s"
| "cl_owner_ok s (EvSubmit r) \<longleftrightarrow> cl_listener s"
| "cl_owner_ok s (EvSend obj c) \<longleftrightarrow> cl_listener s"
| "cl_owner_ok s (EvSequence n) \<longleftrightarrow> n \<ge> cl_sequence s"
| "cl_owner_ok s _ \<longleftrightarrow> True"

text \<open>The resolver answers a pending request once (from its cache at once, which is an \<open>EvResolved\<close> right
  after the call); the socket library calls back for handles that are open, successfully only for those that
  were not closed, and ends a closed one once.\<close>

fun cl_lib_ok :: "'ssl client \<Rightarrow> 'ssl client_event \<Rightarrow> bool" where
  "cl_lib_ok s (EvResolved record status) \<longleftrightarrow> cl_dns s \<and> \<not> cl_gone s"
| "cl_lib_ok s (EvOnConnect h status) \<longleftrightarrow> h \<in> set (cl_live s) \<and> (status \<ge> 0 \<longrightarrow> h \<notin> set (cl_shut s))"
| "cl_lib_ok s (EvRead h data) \<longleftrightarrow> h \<in> set (cl_live s) \<and> h \<notin> set (cl_shut s)"
| "cl_lib_ok s (EvClosed h) \<longleftrightarrow> h \<in> set (cl_live s) \<and> h \<in> set (cl_shut s)"
| "cl_lib_ok s _ \<longleftrightarrow> True"

text \<open>No pool sends \<open>client.reconnect\<close>.\<close>

definition no_redirect :: "'ssl client_env \<Rightarrow> bool" where
  "no_redirect e \<longleftrightarrow> (\<forall>line doc. ce_json e line = Some doc \<longrightarrow> getString doc ''method'' None \<noteq> Some ''client.reconnect'')"

definition cl_guard :: "'ssl client \<Rightarrow> 'ssl client_env \<times> 'ssl client_event \<Rightarrow> bool" where
  "cl_guard s ev \<longleftrightarrow> cl_owner_ok s (snd ev) \<and> cl_lib_ok s (snd ev) \<and> no_redirect (fst ev)"

end
