(* ===== verification/ClientInv.thy ===== *)
theory ClientInv
  imports Client
begin

text \<open>
  What runs of the stratum client keep: the state of the connection agrees with the sockets, no socket is
  freed before it is closed, none is used after it is gone. The projection \<open>conn_of\<close> is the connection without
  the protocol; \<open>calm\<close> operations leave it alone or close it.
\<close>

section \<open>The connection\<close>

record conn =
  cn_state :: socket_state
  cn_socket :: "nat option"
  cn_live :: "nat list"
  cn_shut :: "nat list"
  cn_handles :: nat
  cn_dns :: bool
  cn_listener :: bool
  cn_gone :: bool
  cn_bad :: bool

definition bad_fault :: "client_fault \<Rightarrow> bool" where
  "bad_fault f \<longleftrightarrow> f \<in> {FreedOpenHandle, NullSocket, NullListener}"

definition conn_of :: "'ssl client \<Rightarrow> conn" where
  "conn_of s = \<lparr>cn_state = cl_state s, cn_socket = cl_socket s, cn_live = cl_live s, cn_shut = cl_shut s,
     cn_handles = cl_handles s, cn_dns = cl_dns s, cn_listener = cl_listener s, cn_gone = cl_gone s,
     cn_bad = list_ex bad_fault (cl_faults s)\<rparr>"

definition conn_close :: "conn \<Rightarrow> conn" where
  "conn_close c =
     (case cn_socket c of
        None \<Rightarrow> c
      | Some h \<Rightarrow>
          if cn_state c = UnconnectedState \<or> cn_state c = ClosingState then c
          else c\<lparr>cn_state := ClosingState, cn_shut := (if h \<in> set (cn_shut c) then cn_shut c else h # cn_shut c)\<rparr>)"

definition conn_ready :: "conn \<Rightarrow> bool" where
  "conn_ready c \<longleftrightarrow> cn_listener c \<and> (cn_state c = ConnectedState \<longrightarrow> cn_socket c \<noteq> None)"

lemma conn_of_sel [simp]:
  "cn_state (conn_of s) = cl_state s" "cn_socket (conn_of s) = cl_socket s" "cn_live (conn_of s) = cl_live s"
  "cn_shut (conn_of s) = cl_shut s" "cn_handles (conn_of s) = cl_handles s" "cn_dns (conn_of s) = cl_dns s"
  "cn_listener (conn_of s) = cl_listener s" "cn_gone (conn_of s) = cl_gone s"
  "cn_bad (conn_of s) = list_ex bad_fault (cl_faults s)"
  by (simp_all add: conn_of_def)

text \<open>The members of the protocol do not show.\<close>

lemma conn_of_update [simp]:
  "conn_of (s\<lparr>cl_quiet := b\<rparr>) = conn_of s" "conn_of (s\<lparr>cl_enabled := b\<rparr>) = conn_of s" "conn_of (s\<lparr>cl_retries := i\<rparr>) = conn_of s"
  "conn_of (s\<lparr>cl_retryPause := t\<rparr>) = conn_of s" "conn_of (s\<lparr>cl_failures := i\<rparr>) = conn_of s" "conn_of (s\<lparr>cl_job := j\<rparr>) = conn_of s"
  "conn_of (s\<lparr>cl_pool := p\<rparr>) = conn_of s" "conn_of (s\<lparr>cl_callbacks := cb\<rparr>) = conn_of s" "conn_of (s\<lparr>cl_results := rs\<rparr>) = conn_of s"
  "conn_of (s\<lparr>cl_ip := n\<rparr>) = conn_of s" "conn_of (s\<lparr>cl_user := n\<rparr>) = conn_of s" "conn_of (s\<lparr>cl_password := n\<rparr>) = conn_of s"
  "conn_of (s\<lparr>cl_rigId := n\<rparr>) = conn_of s" "conn_of (s\<lparr>cl_rpcId := n\<rparr>) = conn_of s" "conn_of (s\<lparr>cl_sequence := i\<rparr>) = conn_of s"
  "conn_of (s\<lparr>cl_reader := r\<rparr>) = conn_of s" "conn_of (s\<lparr>cl_socks5 := so\<rparr>) = conn_of s" "conn_of (s\<lparr>cl_tls := tq\<rparr>) = conn_of s"
  "conn_of (s\<lparr>cl_extensions := xs\<rparr>) = conn_of s" "conn_of (s\<lparr>cl_sendBuf := k\<rparr>) = conn_of s" "conn_of (s\<lparr>cl_expire := t\<rparr>) = conn_of s"
  "conn_of (s\<lparr>cl_jobs := t\<rparr>) = conn_of s" "conn_of (s\<lparr>cl_keepAlive := t\<rparr>) = conn_of s" "conn_of (s\<lparr>cl_shares := sh\<rparr>) = conn_of s"
  "conn_of (cl_say c s) = conn_of s"
  by (simp_all add: conn_of_def cl_say_def)

lemma conn_of_fault [simp]: "\<not> bad_fault f \<Longrightarrow> conn_of (cl_fault f s) = conn_of s"
  by (simp add: conn_of_def cl_fault_def)

lemma conn_of_tell [simp]: "cl_listener s \<Longrightarrow> conn_of (cl_tell c s) = conn_of s"
  by (simp add: cl_tell_def)

lemma bad_fault_simps [simp]:
  "\<not> bad_fault NullString" "\<not> bad_fault NoMessage" "\<not> bad_fault NoSession" "\<not> bad_fault BufferOverread"
  "\<not> bad_fault DivisionByZero" "bad_fault FreedOpenHandle" "bad_fault NullSocket" "bad_fault NullListener"
  by (simp_all add: bad_fault_def)

lemma conn_of_close: "conn_of (snd (cl_close e s)) = conn_close (conn_of s)"
  by (auto simp: cl_close_def conn_close_def cl_setState_def conn_of_def cl_say_def Let_def split: option.splits)

lemma conn_close_idem [simp]: "conn_close (conn_close c) = conn_close c"
  by (auto simp: conn_close_def split: option.splits)

lemma conn_close_ready [simp]: "conn_ready c \<Longrightarrow> conn_ready (conn_close c)"
  by (auto simp: conn_close_def conn_ready_def split: option.splits)

section \<open>Calm operations\<close>

definition calm :: "'ssl client \<Rightarrow> 'ssl client \<Rightarrow> bool" where
  "calm s t \<longleftrightarrow> (conn_ready (conn_of s) \<longrightarrow> conn_of t = conn_of s \<or> conn_of t = conn_close (conn_of s))"

lemma calm_ready: "calm s t \<Longrightarrow> conn_ready (conn_of s) \<Longrightarrow> conn_ready (conn_of t)"
  by (auto simp: calm_def)

lemma calm_eqI: "(conn_ready (conn_of s) \<Longrightarrow> conn_of t = conn_of s) \<Longrightarrow> calm s t"
  by (simp add: calm_def)

lemma calm_refl [simp]: "calm s s"
  by (simp add: calm_def)

lemma calm_trans: "calm s t \<Longrightarrow> calm t u \<Longrightarrow> calm s u"
  unfolding calm_def by (metis conn_close_idem conn_close_ready)

lemma calm_cong: "conn_of s' = conn_of s \<Longrightarrow> calm s' t = calm s t"
  by (simp add: calm_def)

lemma calm_cong2: "conn_of t' = conn_of t \<Longrightarrow> calm s t' = calm s t"
  by (simp add: calm_def)

lemma calm_update [simp]:
  "calm s (t\<lparr>cl_jobs := k\<rparr>) = calm s t" "calm s (t\<lparr>cl_results := rs\<rparr>) = calm s t" "calm s (t\<lparr>cl_job := j\<rparr>) = calm s t"
  "calm s (t\<lparr>cl_callbacks := cb\<rparr>) = calm s t" "calm s (t\<lparr>cl_keepAlive := n\<rparr>) = calm s t"
  by (simp_all add: calm_def)

lemma calm_close: "calm s (snd (cl_close e s))"
  by (simp add: calm_def conn_of_close)

text \<open>A change of the protocol before a calm operation.\<close>

lemma calm_after: "conn_of s' = conn_of s \<Longrightarrow> calm s' t \<Longrightarrow> calm s t"
  by (simp add: calm_def)

lemma calm_fold: "(\<And>x s. x \<in> set xs \<Longrightarrow> calm s (f x s)) \<Longrightarrow> calm s (fold f xs s)"
  by (induction xs arbitrary: s) (auto intro: calm_trans)

lemma conn_close_socket [simp]: "cn_socket (conn_close c) = cn_socket c"
  by (simp add: conn_close_def split: option.split)

lemma calm_socket:
  assumes "calm s t" "conn_ready (conn_of s)"
  shows "cl_socket t = cl_socket s"
  using assms unfolding calm_def by (metis conn_close_socket conn_of_sel(2))

lemma calm_tell: "calm s (cl_tell c s)"
  by (rule calm_eqI) (simp add: conn_ready_def)

lemma calm_startTimeout [simp]: "conn_of (cl_startTimeout e s) = conn_of s"
  by (simp add: cl_startTimeout_def Let_def)

lemma calm_write: "cl_socket s \<noteq> None \<Longrightarrow> calm s (snd (cl_write e buf s))"
  by (auto simp: cl_write_def Let_def calm_close calm_eqI)

lemma calm_write_connected: "cl_state s = ConnectedState \<Longrightarrow> calm s (snd (cl_write e buf s))"
  unfolding calm_def using calm_write [of s e buf] by (auto simp: calm_def conn_ready_def)

lemma calm_send_bio: "calm s (snd (cl_send_bio e s))"
proof (cases "\<exists>t c. cl_tls s = Some t \<and> tl_ssl t = Some c")
  case True
  then obtain t c where "cl_tls s = Some t" "tl_ssl t = Some c" by blast
  then show ?thesis
    by (auto simp: cl_send_bio_def Let_def calm_eqI split: prod.splits
        intro!: calm_after [OF _ calm_write_connected])
next
  case False
  then show ?thesis by (auto simp: cl_send_bio_def calm_eqI split: option.splits)
qed

lemma calm_tls_send: "calm s (snd (tls_send e buf s))"
  by (auto simp: tls_send_def calm_eqI split: option.splits intro!: calm_after [OF _ calm_send_bio])

lemma calm_send_size: "calm s (snd (cl_send_size e buf s))"
proof -
  define r where "r = (if cl_isTLS s then tls_send e buf s
             else if cl_state s \<noteq> ConnectedState \<or> \<not> ce_writable e then (False, s) else cl_write e buf s)"
  have "calm s (snd r)" by (auto simp: r_def calm_tls_send calm_write_connected)
  moreover have "conn_of (snd (cl_send_size e buf s)) = conn_of (snd r)"
    by (cases r) (simp add: cl_send_size_def Let_def r_def [symmetric])
  ultimately show ?thesis by (simp add: calm_def)
qed

lemma calm_send: "calm s (snd (cl_send e obj s))"
proof -
  have if_conn: "conn_of (if b then x else y) = conn_of s" if "conn_of x = conn_of s" "conn_of y = conn_of s" for b x y
    using that by simp
  have "calm s (snd (cl_send_size e buf (if b then x else cl_fault BufferOverread x)))" if "conn_of x = conn_of s" for b x buf
    by (rule calm_after [OF _ calm_send_size]) (simp add: that if_conn)
  note resized = this
  show ?thesis
  proof (cases "length (ce_text e obj) > kMaxSendBufferSize")
    case True
    show ?thesis unfolding cl_send_def Let_def if_P [OF True] snd_conv by (rule calm_close)
  next
    case False
    show ?thesis unfolding cl_send_def Let_def if_not_P [OF False] by (rule resized, rule if_conn) simp_all
  qed
qed

lemma calm_send_callback: "calm s (snd (cl_send_callback e obj c s))"
  by (auto simp: cl_send_callback_def intro!: calm_after [OF _ calm_send])

lemma calm_submit: "calm s (snd (cl_submit e r s))"
proof (cases "jr_diff r = 0")
  case True
  then show ?thesis by (simp add: cl_submit_def calm_close)
next
  case False
  show ?thesis
    unfolding cl_submit_def Let_def if_not_P [OF False]
    by (rule calm_after [OF _ calm_send], simp only: conn_of_update) simp
qed

lemma calm_login: "calm s (cl_login e s)"
  unfolding cl_login_def Let_def case_prod_beta
  by (rule calm_trans [OF calm_after [OF _ calm_tell] calm_send]) simp

lemma calm_ping: "calm s (cl_ping e s)"
  unfolding cl_ping_def Let_def calm_update by (rule calm_after [OF _ calm_send_size]) simp

lemma calm_socks5_handshake: "cl_socket s \<noteq> None \<Longrightarrow> calm s (socks5_handshake e s)"
  by (auto simp: socks5_handshake_def intro!: calm_after [OF _ calm_write])

lemma calm_socks5_read: "cl_socket s \<noteq> None \<Longrightarrow> calm s (socks5_read e data so s)"
  by (auto simp: socks5_read_def socks5_connect_def Let_def calm_close calm_eqI split: option.splits
      intro!: calm_after [OF _ calm_write])

lemma calm_tls_handshake: "calm s (tls_handshake e n s)"
  by (auto simp: tls_handshake_def calm_eqI split: option.splits intro!: calm_after [OF _ calm_send_bio])

lemma calm_handshake: "cl_socket s \<noteq> None \<Longrightarrow> calm s (cl_handshake e s)"
  by (auto simp: cl_handshake_def calm_socks5_handshake calm_login intro!: calm_after [OF _ calm_tls_handshake])

lemma calm_verifyAlgorithm: "calm s (snd (cl_verifyAlgorithm e a s))"
  by (auto simp: cl_verifyAlgorithm_def calm_tell)


text \<open>The algorithm checks and the messages.\<close>

lemma calm_setters [simp]:
  "conn_of (cl_setPool e p s) = conn_of s" "conn_of (cl_setPoolUrl t s) = conn_of s"
  by (simp_all add: cl_setPool_def cl_setPoolUrl_def)

lemma calm_take_job: "calm s (snd (take_job e j s))"
  by (auto simp: take_job_def Let_def calm_eqI intro!: calm_after [OF _ calm_close])

lemma calm_parseJob: "calm s (snd (snd (cl_parseJob e params code s)))"
proof (cases "read_job (cl_pool s) (has_nicehash s) (cl_rpcId s) params")
  case (JobRead j)
  let ?s = "snd (cl_verifyAlgorithm e (j_algorithm j) s)"
  show ?thesis
  proof (cases "read_seed (cl_pool ?s) params j")
    case None
    with JobRead show ?thesis
      by (simp add: cl_parseJob_def case_prod_beta calm_verifyAlgorithm)
  next
    case (Some k)
    with JobRead calm_trans [OF calm_verifyAlgorithm [of s e "j_algorithm j"] calm_take_job [of _ e k]] show ?thesis
      by (simp add: cl_parseJob_def case_prod_beta calm_verifyAlgorithm)
  qed
qed (simp_all add: cl_parseJob_def calm_eqI)

lemma calm_extension [simp]: "conn_of (cl_extension e v s) = conn_of s"
  by (cases "(e, v, s)" rule: cl_extension.cases) (simp_all add: Let_def)

lemma calm_parseExtensions [simp]: "conn_of (cl_parseExtensions e v s) = conn_of s"
proof -
  have "conn_of (fold (cl_extension e) xs s) = conn_of s" for xs s
    by (induction xs arbitrary: s) simp_all
  then show ?thesis
    by (simp add: cl_parseExtensions_def Let_def split: option.split json.split)
qed

lemma calm_parseLogin: "calm s (snd (snd (cl_parseLogin e result code s)))"
proof -
  have "calm s (snd (snd (cl_parseJob e job code (cl_parseExtensions e result (s\<lparr>cl_rpcId := i\<rparr>)))))" for job i
    by (rule calm_after [OF _ calm_parseJob]) simp
  then show ?thesis
    unfolding cl_parseLogin_def Let_def case_prod_beta by (simp add: calm_eqI)
qed

lemma calm_parseNotification: "calm s (cl_parseNotification e m params s)"
  unfolding cl_parseNotification_def Let_def case_prod_beta
  by (auto intro: calm_trans [OF calm_parseJob calm_tell] calm_trans [OF calm_parseJob calm_close])

lemma calm_handleResponse: "calm s (snd (cl_handleResponse e i result error s))"
  by (auto simp: cl_handleResponse_def Let_def calm_eqI split: option.split json.split)

lemma calm_handleSubmitResponse: "calm s (snd (cl_handleSubmitResponse e i error s))"
  by (auto simp: cl_handleSubmitResponse_def Let_def calm_tell split: option.split)

lemma calm_refuse_response: "calm s (refuse_response e i error s)"
proof -
  have "calm s (snd (cl_handleSubmitResponse e i m (if b then cl_fault NoMessage s else s)))" for b m
    by (rule calm_after [OF _ calm_handleSubmitResponse]) simp
  from this calm_trans [OF this calm_close] show ?thesis
    unfolding refuse_response_def Let_def by simp
qed

lemma calm_login_response: "calm s (login_response e result s)"
proof -
  let ?s = "snd (snd (cl_parseLogin e result (- 1) s))"
  have told: "calm s (cl_tell c (?s\<lparr>cl_failures := 0\<rparr>))" for c
    by (rule calm_trans [OF calm_parseLogin calm_after [OF _ calm_tell]]) simp
  show ?thesis
    unfolding login_response_def Let_def case_prod_beta
    by (simp add: told calm_trans [OF told calm_tell] calm_trans [OF calm_parseLogin calm_close])
qed

lemma calm_parseResponse: "calm s (cl_parseResponse e i result error s)"
proof -
  let ?s = "snd (cl_handleResponse e i result error s)"
  note then_ = calm_trans [OF calm_handleResponse [of s e i result error]]
  show ?thesis
    unfolding cl_parseResponse_def Let_def case_prod_beta
    using calm_handleResponse [of s e i result error] then_ [OF calm_refuse_response] then_ [OF calm_login_response]
      then_ [OF calm_handleSubmitResponse]
    by (cases "i = 1") simp_all
qed

lemma calm_parse:
  assumes "no_redirect e"
  shows "calm s (cl_parse e line s)"
proof -
  have r: "calm s (cl_parseResponse e i result error (cl_startTimeout e s))" for i result error
    by (rule calm_after [OF _ calm_parseResponse]) simp
  have n: "calm s (cl_parseNotification e m params (cl_startTimeout e s))" for m params
    by (rule calm_after [OF _ calm_parseNotification]) simp
  have q: "calm s (cl_startTimeout e s)" by (simp add: calm_eqI)
  have "getString doc ''method'' None \<noteq> Some ''client.reconnect''" if "ce_json e (c_string line) = Some doc" for doc
    using assms that by (auto simp: no_redirect_def)
  with r n q show ?thesis
    by (auto simp: cl_parse_def Let_def split: option.split json.split)
qed

lemma calm_receive: "no_redirect e \<Longrightarrow> calm s (cl_receive e data s)"
  unfolding cl_receive_def case_prod_beta Let_def
  by (rule calm_after [OF _ calm_fold]) (simp_all add: calm_parse)

lemma calm_tls_read:
  assumes "no_redirect e"
  shows "calm s (tls_read e data s)"
proof -
  have b: "calm s (snd (cl_send_bio e (s\<lparr>cl_tls := t\<rparr>)))" for t by (rule calm_after [OF _ calm_send_bio]) simp
  have c: "calm s (snd (cl_close e (s\<lparr>cl_tls := t\<rparr>)))" for t by (rule calm_after [OF _ calm_close]) simp
  have l: "calm s (cl_login e (s\<lparr>cl_tls := t\<rparr>))" for t by (rule calm_after [OF _ calm_login]) simp
  have f: "calm s (fold (cl_receive e) bufs (s\<lparr>cl_tls := t\<rparr>))" for bufs t
    by (rule calm_after [OF _ calm_fold]) (simp_all add: calm_receive assms)
  show ?thesis
    unfolding tls_read_def Let_def
    by (auto simp: b c l f calm_eqI split: option.split prod.split ssl_rc.split)
qed

lemma calm_read:
  assumes "no_redirect e" "cl_socket s \<noteq> None" "cl_listener s"
  shows "calm s (cl_read e data s)"
proof -
  have hs: "calm s (cl_handshake e t)" if "conn_of t = conn_of u" "calm s u" "cl_socket u \<noteq> None" for t u
  proof (rule calm_trans [OF that(2) calm_after [OF that(1) calm_handshake]])
    show "cl_socket t \<noteq> None" using that by (metis conn_of_sel(2))
  qed
  have sock: "cl_socket (socks5_read e d so s) \<noteq> None" if "calm s (socks5_read e d so s)" "conn_ready (conn_of s)" for d so
    using calm_socket [OF that] assms(2) by simp
  have ready: "conn_ready (conn_of s)" using assms by (simp add: conn_ready_def)
  show ?thesis
    unfolding cl_read_def Let_def
    using assms(1,3) calm_close calm_tls_read calm_receive
      hs [OF _ calm_socks5_read [OF assms(2)] sock [OF calm_socks5_read [OF assms(2)] ready]]
      calm_socks5_read [OF assms(2)]
    by (auto split: option.split)
qed


section \<open>The invariant\<close>

definition conn_inv :: "conn \<Rightarrow> bool" where
  "conn_inv c \<longleftrightarrow>
     \<not> cn_bad c \<and>
     (\<forall>h \<in> set (cn_shut c). h < cn_handles c) \<and>
     (case cn_socket c of
        None \<Rightarrow> cn_live c = [] \<and> cn_state c \<notin> {ConnectingState, ConnectedState, ClosingState}
      | Some h \<Rightarrow> cn_live c = [h] \<and> h < cn_handles c \<and>
          cn_state c \<in> {ConnectingState, ConnectedState, ClosingState} \<and>
          (h \<in> set (cn_shut c) \<longleftrightarrow> cn_state c = ClosingState)) \<and>
     (cn_dns c \<and> \<not> cn_gone c \<longrightarrow> cn_state c = HostLookupState) \<and>
     (\<not> cn_listener c \<longrightarrow> cn_gone c \<or> cn_state c = ClosingState) \<and>
     (cn_gone c \<longrightarrow> \<not> cn_listener c \<and> cn_socket c = None)"

definition cl_inv :: "'ssl client \<Rightarrow> bool" where
  "cl_inv s \<longleftrightarrow> conn_inv (conn_of s)"

lemma conn_inv_close: "conn_inv c \<Longrightarrow> conn_inv (conn_close c)"
  by (auto simp: conn_inv_def conn_close_def split: option.splits)

lemma conn_inv_ready: "conn_inv c \<Longrightarrow> cn_listener c \<Longrightarrow> conn_ready c"
  by (auto simp: conn_inv_def conn_ready_def split: option.splits)

lemma cl_inv_calm: "cl_inv s \<Longrightarrow> cl_listener s \<Longrightarrow> calm s t \<Longrightarrow> cl_inv t"
  using conn_inv_ready [of "conn_of s"] conn_inv_close [of "conn_of s"] by (auto simp: cl_inv_def calm_def)

text \<open>The operations on the connection itself, on the projection.\<close>

lemma conn_of_conn_update [simp]:
  "conn_of (s\<lparr>cl_state := st\<rparr>) = (conn_of s)\<lparr>cn_state := st\<rparr>" "conn_of (s\<lparr>cl_socket := h\<rparr>) = (conn_of s)\<lparr>cn_socket := h\<rparr>"
  "conn_of (s\<lparr>cl_live := hs\<rparr>) = (conn_of s)\<lparr>cn_live := hs\<rparr>" "conn_of (s\<lparr>cl_shut := hs\<rparr>) = (conn_of s)\<lparr>cn_shut := hs\<rparr>"
  "conn_of (s\<lparr>cl_handles := n\<rparr>) = (conn_of s)\<lparr>cn_handles := n\<rparr>" "conn_of (s\<lparr>cl_dns := b\<rparr>) = (conn_of s)\<lparr>cn_dns := b\<rparr>"
  "conn_of (s\<lparr>cl_listener := b\<rparr>) = (conn_of s)\<lparr>cn_listener := b\<rparr>" "conn_of (s\<lparr>cl_gone := b\<rparr>) = (conn_of s)\<lparr>cn_gone := b\<rparr>"
  by (simp_all add: conn_of_def)

lemma conn_of_setState [simp]: "conn_of (cl_setState e st s) = (conn_of s)\<lparr>cn_state := st\<rparr>"
  by (cases st) (auto simp: cl_setState_def conn_of_def)

lemma conn_of_resolve: "conn_of (cl_resolve e host s) = (conn_of s)\<lparr>cn_state := HostLookupState, cn_dns := True\<rparr>"
  by (simp add: cl_resolve_def Let_def)

lemma conn_of_connect: "conn_of (cl_connect e s) = (conn_of s)\<lparr>cn_state := HostLookupState, cn_dns := True\<rparr>"
  by (simp add: cl_connect_def Let_def conn_of_resolve)

lemma listener_conn: "conn_of t = conn_of s \<Longrightarrow> cl_listener t = cl_listener s"
  by (metis conn_of_sel(7))

lemma cl_setState_frame [simp]: "cl_listener (cl_setState e st s) = cl_listener s" "cl_socket (cl_setState e st s) = cl_socket s"
  by (simp_all add: cl_setState_def Let_def split: socket_state.split)

lemma conn_of_reconnect:
  "cl_listener s \<Longrightarrow> conn_of (cl_reconnect e s) =
     (if cl_failures s = - 1 then conn_of s else (conn_of s)\<lparr>cn_state := ReconnectingState\<rparr>)"
  by (simp add: cl_reconnect_def Let_def)

lemma conn_of_connect_addr: "conn_of (cl_connect_addr e port s) =
    (conn_of s)\<lparr>cn_state := ConnectingState, cn_socket := Some (cl_handles s), cn_handles := Suc (cl_handles s),
      cn_live := cl_handles s # cl_live s\<rparr>"
  by (simp add: cl_connect_addr_def Let_def cl_setState_def) 

text \<open>Each kind of event.\<close>

lemma inv_connect:
  assumes "cl_inv s" "cl_listener s" "cl_state s \<in> {UnconnectedState, HostLookupState, ReconnectingState}"
  shows "cl_inv (cl_connect e s)"
  using assms by (auto simp: cl_inv_def conn_of_connect conn_inv_def split: option.splits)

lemma calm_disconnect: "calm s (snd (cl_disconnect e s))"
  by (auto simp: cl_disconnect_def intro!: calm_after [OF _ calm_close])

lemma inv_deleteLater:
  assumes "cl_inv s" "cl_listener s"
  shows "cl_inv (cl_deleteLater e s)"
proof -
  let ?s = "s\<lparr>cl_listener := False, cl_keepAlive := 0, cl_expire := 0, cl_failures := - 1\<rparr>"
  show ?thesis
  proof (cases "cl_socket s")
    case None
    then show ?thesis
      using assms by (auto simp: cl_inv_def conn_inv_def cl_deleteLater_def cl_disconnect_def cl_close_def cl_remove_def)
  next
    case (Some h)
    have "conn_inv (conn_close (conn_of ?s))"
      using assms Some by (auto simp: cl_inv_def conn_inv_def conn_close_def)
    moreover have "fst (cl_close e ?s)"
      using assms Some by (auto simp: cl_inv_def conn_inv_def cl_close_def Let_def)
    ultimately show ?thesis
      using assms by (simp add: cl_deleteLater_def cl_disconnect_def case_prod_beta cl_inv_def conn_of_close)
  qed
qed

lemma inv_tick:
  assumes "cl_inv s" "cl_listener s"
  shows "cl_inv (cl_tick e now s)"
  using cl_inv_calm [OF assms calm_close] cl_inv_calm [OF assms calm_ping] inv_connect [OF assms] assms
  by (simp add: cl_tick_def)

lemma inv_onResolved:
  assumes "cl_inv s" "cl_dns s" "\<not> cl_gone s"
  shows "cl_inv (cl_onResolved e record status s)"
proof -
  have l: "cl_listener s" "cl_state s = HostLookupState" "cl_socket s = None"
    using assms by (auto simp: cl_inv_def conn_inv_def split: option.splits)
  let ?cs = "{(conn_of s)\<lparr>cn_dns := False\<rparr>, (conn_of s)\<lparr>cn_dns := False, cn_state := ReconnectingState\<rparr>,
       (conn_of s)\<lparr>cn_dns := False, cn_state := ConnectingState, cn_socket := Some (cl_handles s),
         cn_handles := Suc (cl_handles s), cn_live := cl_handles s # cl_live s\<rparr>}"
  have "conn_of (cl_onResolved e record status s) \<in> ?cs"
    using l by (simp add: cl_onResolved_def Let_def conn_of_reconnect conn_of_connect_addr)
  moreover have "\<forall>c \<in> ?cs. conn_inv c"
    using assms l by (auto simp: cl_inv_def conn_inv_def)
  ultimately show ?thesis unfolding cl_inv_def by blast
qed

lemma inv_onConnect:
  assumes "cl_inv s" "h \<in> set (cl_live s)" "status \<ge> 0 \<longrightarrow> h \<notin> set (cl_shut s)" "\<not> cl_gone s"
  shows "cl_inv (cl_onConnect e status s)"
proof -
  have st: "cl_socket s = Some h" "cl_state s \<in> {ConnectingState, ConnectedState, ClosingState}"
    using assms(1,2) by (auto simp: cl_inv_def conn_inv_def split: option.splits)
  show ?thesis
  proof (cases "status < 0")
    case True
    then show ?thesis
      using assms(1) conn_inv_close by (auto simp: cl_onConnect_def cl_inv_def conn_of_close)
  next
    case False
    let ?t = "cl_setState e ConnectedState s"
    have l: "cl_listener s" "cl_state s \<noteq> ClosingState"
      using assms st False by (auto simp: cl_inv_def conn_inv_def)
    have "cl_inv ?t" using assms st l by (auto simp: cl_inv_def conn_inv_def)
    moreover have "cl_socket ?t = Some h" using st by simp
    ultimately show ?thesis
      using False l assms(1) cl_inv_calm [OF _ _ calm_handshake [of ?t]] by (simp add: cl_onConnect_def Let_def)
  qed
qed

lemma inv_read:
  assumes "cl_inv s" "h \<in> set (cl_live s)" "h \<notin> set (cl_shut s)" "\<not> cl_gone s" "no_redirect e"
  shows "cl_inv (cl_read e data s)"
proof -
  have "cl_socket s \<noteq> None" "cl_listener s"
    using assms(1-4) by (auto simp: cl_inv_def conn_inv_def split: option.splits)
  then show ?thesis using cl_inv_calm [OF assms(1) _ calm_read] assms by blast
qed

lemma inv_onClose:
  assumes "cl_inv s" "h \<in> set (cl_live s)" "h \<in> set (cl_shut s)" "\<not> cl_gone s"
  shows "cl_inv (cl_onClose e s)"
proof -
  have st: "cl_socket s = Some h" "cl_live s = [h]" "cl_state s = ClosingState" "\<not> cl_dns s"
    using assms by (auto simp: cl_inv_def conn_inv_def split: option.splits)
  let ?t = "cl_setState e UnconnectedState (s\<lparr>cl_live := [], cl_socket := None\<rparr>)\<lparr>cl_tls := None\<rparr>"
  have t: "cl_onClose e s = cl_reconnect e ?t"
    using st assms(3) by (simp add: cl_onClose_def Let_def)
  have c: "conn_of ?t = (conn_of s)\<lparr>cn_live := [], cn_socket := None, cn_state := UnconnectedState\<rparr>" by simp
  show ?thesis
  proof (cases "cl_listener s")
    case True
    then show ?thesis
      unfolding t cl_inv_def using assms(1) st by (auto simp: conn_of_reconnect cl_inv_def conn_inv_def)
  next
    case False
    have "cl_socket ?t = None" by simp
    with False show ?thesis
      unfolding t cl_inv_def using assms(1) st by (auto simp: cl_reconnect_def cl_remove_def Let_def cl_inv_def conn_inv_def)
  qed
qed

lemma cl_step_inv:
  assumes "cl_inv s" "cl_guard s ev"
  shows "cl_inv (cl_step s ev)"
proof -
  obtain e x where ev: "ev = (e, x)" by (cases ev)
  have calm: "cl_listener s \<Longrightarrow> calm s t \<Longrightarrow> cl_inv t" for t using assms(1) by (rule cl_inv_calm)
  have pool: "cl_inv (cl_setPool e p s)" "cl_listener (cl_setPool e p s) = cl_listener s" "cl_state (cl_setPool e p s) = cl_state s" for p
    using assms(1) by (simp_all add: cl_inv_def) (simp_all add: cl_setPool_def)
  have seq: "cl_inv (s\<lparr>cl_sequence := n\<rparr>)" for n using assms(1) by (simp add: cl_inv_def)
  note g = assms(2) [unfolded cl_guard_def ev]
  show ?thesis
    using g assms(1) unfolding ev
    by (cases x) (auto simp: cl_connect_pool_def inv_connect pool seq intro: inv_deleteLater inv_tick inv_onResolved
        inv_onConnect inv_read inv_onClose calm [OF _ calm_disconnect] calm [OF _ calm_submit] calm [OF _ calm_send_callback])
qed

lemma cl_inv_init: "cl_inv (cl_new i agent seq)"
  by (simp add: cl_inv_def conn_inv_def conn_of_def cl_new_def)

interpretation stratum_client: event_component "\<lambda>s. \<exists>i agent seq. s = cl_new i agent seq" cl_guard cl_step cl_inv
  by unfold_locales (auto intro: cl_inv_init cl_step_inv)

end
