(* ===== verification/ClientShares.thy ===== *)
theory ClientShares
  imports Client "HOL-Library.Multiset"
begin

text \<open>
  The shares of the stratum client: what the pool answers is handed to the listener once for every share that
  was submitted. \<open>share_ok\<close> counts the answers, the share that waits under a number, and the submissions;
  operations that are \<open>fair\<close> keep it.
\<close>

section \<open>Counting\<close>

text \<open>A share without the time of its answer.\<close>

definition share_core :: "submit_result \<Rightarrow> submit_result" where
  "share_core r = r\<lparr>sr_elapsed := 0\<rparr>"

definition answers :: "client_act list \<Rightarrow> submit_result list" where
  "answers acts = concat (map (\<lambda>c. case c of CcResult r err \<Rightarrow> [share_core r] | _ \<Rightarrow> []) acts)"

lemma answers_append: "answers (a @ b) = answers a @ answers b"
  by (simp add: answers_def)

lemma answers_simps [simp]: "answers [] = []" "answers [CcResult r err] = [share_core r]"
  "answers [CcResolve n] = []" "answers [CcConnect h n p] = []" "answers [CcWrite h b] = []" "answers [CcShut h] = []"
  "answers [CcVerify a] = []" "answers [CcLogin] = []" "answers [CcLoginSuccess] = []" "answers [CcJob j] = []"
  "answers [CcClose k] = []" "answers [CcCallback c v ok t] = []"
  by (simp_all add: answers_def)

record share_book =
  bk_waiting :: "int \<Rightarrow> submit_result option"
  bk_sent :: "submit_result list"
  bk_answers :: "submit_result list"

definition book :: "'ssl client \<Rightarrow> share_book" where
  "book s = \<lparr>bk_waiting = cl_results s, bk_sent = cl_shares s, bk_answers = answers (cl_log s)\<rparr>"

definition share_ok :: "share_book \<Rightarrow> bool" where
  "share_ok b \<longleftrightarrow>
     (\<forall>n r. bk_waiting b n = Some r \<longrightarrow> sr_seq r = n \<and> share_core r = r) \<and>
     (\<forall>r. count_list (bk_answers b) r + (if bk_waiting b (sr_seq r) = Some r then 1 else 0) \<le> count_list (bk_sent b) r)"

lemma count_list_snoc: "count_list (xs @ [x]) y = count_list xs y + (if x = y then 1 else 0)"
  by (simp add: count_list_append)

lemma share_ok_count:
  assumes "share_ok b"
  shows "count_list (bk_answers b) q \<le> count_list (bk_sent b) q"
proof -
  have "count_list (bk_answers b) q + (if bk_waiting b (sr_seq q) = Some q then 1 else 0) \<le> count_list (bk_sent b) q"
    using assms by (simp add: share_ok_def)
  then show ?thesis by (rule add_leD1)
qed

lemma share_ok_waiting: "share_ok b \<Longrightarrow> bk_waiting b n = Some r \<Longrightarrow> sr_seq r = n \<and> share_core r = r"
  by (simp add: share_ok_def)

lemma share_ok_pending:
  assumes "share_ok b" "bk_waiting b (sr_seq q) = Some q"
  shows "Suc (count_list (bk_answers b) q) \<le> count_list (bk_sent b) q"
proof -
  have "count_list (bk_answers b) q + (if bk_waiting b (sr_seq q) = Some q then 1 else 0) \<le> count_list (bk_sent b) q"
    using assms(1) by (simp add: share_ok_def)
  with assms(2) show ?thesis by simp
qed

text \<open>To establish it: nothing waits but what waited before, a new submission, and an answer to one that waited.\<close>

lemma share_okI:
  assumes "\<And>n r. bk_waiting b n = Some r \<Longrightarrow> sr_seq r = n \<and> share_core r = r"
    and "\<And>q. count_list (bk_answers b) q \<le> count_list (bk_sent b) q"
    and "\<And>q. bk_waiting b (sr_seq q) = Some q \<Longrightarrow> count_list (bk_answers b) q < count_list (bk_sent b) q"
  shows "share_ok b"
  unfolding share_ok_def
proof (intro conjI allI impI)
  fix n r assume "bk_waiting b n = Some r"
  then show "sr_seq r = n" "share_core r = r" using assms(1) by blast+
next
  fix r
  show "count_list (bk_answers b) r + (if bk_waiting b (sr_seq r) = Some r then 1 else 0) \<le> count_list (bk_sent b) r"
    using assms(2) [of r] assms(3) [of r] by (cases "bk_waiting b (sr_seq r) = Some r") simp_all
qed

lemma share_ok_answered: "share_ok b \<Longrightarrow> mset (bk_answers b) \<subseteq># mset (bk_sent b)"
  unfolding subseteq_mset_def count_mset by (simp add: share_ok_count)

lemma share_ok_forget: "share_ok b \<Longrightarrow> share_ok (b\<lparr>bk_waiting := Map.empty\<rparr>)"
  by (rule share_okI) (simp_all add: share_ok_count)

lemma share_ok_submit:
  assumes "share_ok b" "sr_seq r = n" "share_core r = r"
  shows "share_ok (b\<lparr>bk_waiting := (bk_waiting b)(n \<mapsto> r), bk_sent := bk_sent b @ [r]\<rparr>)"
proof (rule share_okI)
  fix q
  show "count_list (bk_answers (b\<lparr>bk_waiting := (bk_waiting b)(n \<mapsto> r), bk_sent := bk_sent b @ [r]\<rparr>)) q
      \<le> count_list (bk_sent (b\<lparr>bk_waiting := (bk_waiting b)(n \<mapsto> r), bk_sent := bk_sent b @ [r]\<rparr>)) q"
    using share_ok_count [OF assms(1), of q] by (simp add: count_list_snoc)
next
  fix q
  assume "bk_waiting (b\<lparr>bk_waiting := (bk_waiting b)(n \<mapsto> r), bk_sent := bk_sent b @ [r]\<rparr>) (sr_seq q) = Some q"
  then show "count_list (bk_answers (b\<lparr>bk_waiting := (bk_waiting b)(n \<mapsto> r), bk_sent := bk_sent b @ [r]\<rparr>)) q
      < count_list (bk_sent (b\<lparr>bk_waiting := (bk_waiting b)(n \<mapsto> r), bk_sent := bk_sent b @ [r]\<rparr>)) q"
    using share_ok_count [OF assms(1), of q] share_ok_pending [OF assms(1), of q]
    by (auto simp: count_list_snoc split: if_splits)
qed (use assms share_ok_waiting in \<open>auto split: if_splits\<close>)

lemma share_ok_answer:
  assumes "share_ok b" "bk_waiting b n = Some r"
  shows "share_ok (b\<lparr>bk_waiting := (bk_waiting b)(n := None), bk_answers := bk_answers b @ [r]\<rparr>)"
proof -
  have n: "sr_seq r = n" using share_ok_waiting [OF assms] by simp
  have r: "count_list (bk_answers b) r < count_list (bk_sent b) r"
    using share_ok_pending [OF assms(1), of r] assms(2) n by simp
  show ?thesis
  proof (rule share_okI)
    fix q
    show "count_list (bk_answers (b\<lparr>bk_waiting := (bk_waiting b)(n := None), bk_answers := bk_answers b @ [r]\<rparr>)) q
        \<le> count_list (bk_sent (b\<lparr>bk_waiting := (bk_waiting b)(n := None), bk_answers := bk_answers b @ [r]\<rparr>)) q"
      using share_ok_count [OF assms(1), of q] r by (cases "r = q") (simp_all add: count_list_snoc Suc_leI)
  next
    fix q
    assume "bk_waiting (b\<lparr>bk_waiting := (bk_waiting b)(n := None), bk_answers := bk_answers b @ [r]\<rparr>) (sr_seq q) = Some q"
    then show "count_list (bk_answers (b\<lparr>bk_waiting := (bk_waiting b)(n := None), bk_answers := bk_answers b @ [r]\<rparr>)) q
        < count_list (bk_sent (b\<lparr>bk_waiting := (bk_waiting b)(n := None), bk_answers := bk_answers b @ [r]\<rparr>)) q"
      using share_ok_pending [OF assms(1), of q] n by (auto simp: count_list_snoc split: if_splits)
  qed (use assms share_ok_waiting in \<open>auto split: if_splits\<close>)
qed

lemma share_ok_drop:
  assumes "share_ok b"
  shows "share_ok (b\<lparr>bk_waiting := (bk_waiting b)(n := None)\<rparr>)"
proof (rule share_okI)
  fix q
  assume "bk_waiting (b\<lparr>bk_waiting := (bk_waiting b)(n := None)\<rparr>) (sr_seq q) = Some q"
  then show "count_list (bk_answers (b\<lparr>bk_waiting := (bk_waiting b)(n := None)\<rparr>)) q
      < count_list (bk_sent (b\<lparr>bk_waiting := (bk_waiting b)(n := None)\<rparr>)) q"
    using share_ok_pending [OF assms, of q] by (simp split: if_splits)
qed (use assms share_ok_waiting share_ok_count in \<open>auto split: if_splits\<close>)

section \<open>Fair operations\<close>

definition fair :: "'ssl client \<Rightarrow> 'ssl client \<Rightarrow> bool" where
  "fair s t \<longleftrightarrow> (share_ok (book s) \<longrightarrow> share_ok (book t))"

lemma fair_eqI: "book t = book s \<Longrightarrow> fair s t"
  by (simp add: fair_def)

lemma fair_refl [simp]: "fair s s"
  by (simp add: fair_def)

lemma fair_trans: "fair s t \<Longrightarrow> fair t u \<Longrightarrow> fair s u"
  by (simp add: fair_def)

lemma fair_after: "book s' = book s \<Longrightarrow> fair s' t \<Longrightarrow> fair s t"
  by (simp add: fair_def)

lemma fair_then: "book t' = book t \<Longrightarrow> fair s t \<Longrightarrow> fair s t'"
  by (simp add: fair_def)

lemma fair_fold: "(\<And>x s. fair s (f x s)) \<Longrightarrow> fair s (fold f xs s)"
  by (induction xs arbitrary: s) (auto intro: fair_trans)

lemma book_update [simp]:
  "book (s\<lparr>cl_quiet := b\<rparr>) = book s" "book (s\<lparr>cl_enabled := b\<rparr>) = book s" "book (s\<lparr>cl_retries := i\<rparr>) = book s"
  "book (s\<lparr>cl_retryPause := t\<rparr>) = book s" "book (s\<lparr>cl_failures := i\<rparr>) = book s" "book (s\<lparr>cl_job := j\<rparr>) = book s"
  "book (s\<lparr>cl_pool := p\<rparr>) = book s" "book (s\<lparr>cl_callbacks := cb\<rparr>) = book s"
  "book (s\<lparr>cl_ip := n\<rparr>) = book s" "book (s\<lparr>cl_user := n\<rparr>) = book s" "book (s\<lparr>cl_password := n\<rparr>) = book s"
  "book (s\<lparr>cl_rigId := n\<rparr>) = book s" "book (s\<lparr>cl_rpcId := n\<rparr>) = book s" "book (s\<lparr>cl_sequence := i\<rparr>) = book s"
  "book (s\<lparr>cl_reader := r\<rparr>) = book s" "book (s\<lparr>cl_socks5 := so\<rparr>) = book s" "book (s\<lparr>cl_tls := tq\<rparr>) = book s"
  "book (s\<lparr>cl_extensions := xs\<rparr>) = book s" "book (s\<lparr>cl_sendBuf := k\<rparr>) = book s" "book (s\<lparr>cl_expire := t\<rparr>) = book s"
  "book (s\<lparr>cl_jobs := t\<rparr>) = book s" "book (s\<lparr>cl_keepAlive := t\<rparr>) = book s"
  "book (s\<lparr>cl_state := st\<rparr>) = book s" "book (s\<lparr>cl_socket := h\<rparr>) = book s" "book (s\<lparr>cl_live := hs\<rparr>) = book s"
  "book (s\<lparr>cl_shut := hs\<rparr>) = book s" "book (s\<lparr>cl_handles := k\<rparr>) = book s" "book (s\<lparr>cl_dns := b\<rparr>) = book s"
  "book (s\<lparr>cl_listener := b\<rparr>) = book s" "book (s\<lparr>cl_gone := b\<rparr>) = book s" "book (cl_fault f s) = book s"
  by (simp_all add: book_def cl_fault_def)

lemma book_say [simp]: "answers [c] = [] \<Longrightarrow> book (cl_say c s) = book s"
  by (simp add: book_def cl_say_def answers_append)

lemma book_tell [simp]: "answers [c] = [] \<Longrightarrow> book (cl_tell c s) = book s"
  by (simp add: cl_tell_def)

lemma book_remove [simp]: "book (cl_remove s) = book s"
  by (simp add: cl_remove_def Let_def)

lemma book_setState [simp]: "book (cl_setState e st s) = book s"
  by (cases st) (simp_all add: cl_setState_def)

lemma book_startTimeout [simp]: "book (cl_startTimeout e s) = book s"
  by (simp add: cl_startTimeout_def Let_def)

lemma book_close [simp]: "book (snd (cl_close e s)) = book s"
  by (simp add: cl_close_def Let_def split: option.split)

lemma book_disconnect [simp]: "book (snd (cl_disconnect e s)) = book s"
  by (simp add: cl_disconnect_def)

lemma book_reconnect [simp]: "book (cl_reconnect e s) = book s"
  by (simp add: cl_reconnect_def Let_def)

lemma book_setPool [simp]: "book (cl_setPool e p s) = book s" "book (cl_setPoolUrl t s) = book s"
  by (simp_all add: cl_setPool_def cl_setPoolUrl_def)

lemma book_connect [simp]: "book (cl_connect e s) = book s" "book (cl_connect_pool e p s) = book s"
  by (simp_all add: cl_connect_def cl_connect_pool_def cl_resolve_def Let_def)

lemma book_deleteLater [simp]: "book (cl_deleteLater e s) = book s"
  by (simp add: cl_deleteLater_def case_prod_beta)

lemma book_onResolved [simp]: "book (cl_onResolved e rec status s) = book s"
  by (simp add: cl_onResolved_def cl_connect_addr_def Let_def)

lemma book_onClose [simp]: "book (cl_onClose e s) = book s"
  by (simp add: cl_onClose_def Let_def split: option.split)

lemma book_write [simp]: "book (snd (cl_write e buf s)) = book s"
  by (simp add: cl_write_def Let_def)

lemma book_send_bio [simp]: "book (snd (cl_send_bio e s)) = book s"
  by (simp add: cl_send_bio_def Let_def split: option.split prod.split)

lemma book_tls_send [simp]: "book (snd (tls_send e buf s)) = book s"
  by (simp add: tls_send_def split: option.split)

lemma book_send_size [simp]: "book (snd (cl_send_size e buf s)) = book s"
  by (simp add: cl_send_size_def Let_def case_prod_beta)

lemma book_if: "book x = book s \<Longrightarrow> book y = book s \<Longrightarrow> book (if b then x else y) = book s"
  by simp

lemma book_send [simp]: "book (snd (cl_send e obj s)) = book s"
proof (cases "length (ce_text e obj) > kMaxSendBufferSize")
  case True
  show ?thesis unfolding cl_send_def Let_def if_P [OF True] by simp
next
  case False
  have "book (snd (cl_send_size e buf (if b then x else cl_fault BufferOverread x))) = book s" if "book x = book s" for b buf x
    using that by simp
  note H = this
  show ?thesis unfolding cl_send_def Let_def if_not_P [OF False] by (rule H, rule book_if) simp_all
qed

lemma book_ping [simp]: "book (cl_ping e s) = book s"
  unfolding cl_ping_def Let_def book_update book_send_size by simp

lemma book_tick [simp]: "book (cl_tick e now s) = book s"
  by (simp add: cl_tick_def)

lemma book_send_callback [simp]: "book (snd (cl_send_callback e obj c s)) = book s"
  by (simp add: cl_send_callback_def)

lemma fair_submit: "fair s (snd (cl_submit e r s))"
proof (cases "jr_diff r = 0")
  case True
  then show ?thesis by (simp add: cl_submit_def fair_eqI)
next
  case False
  define t where "t = (if cl_rpcId s = None \<or> jr_jobId r = None \<or> jr_nonce r = None \<or> jr_result r = None
      then cl_fault NullString s else s)"
  let ?share = "mk_submit_result (ce_now e) (cl_sequence t) (jr_diff r) (jr_actualDiff r) (jr_id r) 0"
  have b: "book (snd (cl_submit e r s)) =
      (book t)\<lparr>bk_waiting := (cl_results t)(cl_sequence t \<mapsto> ?share), bk_sent := cl_shares t @ [?share]\<rparr>"
  proof -
    have "cl_sequence t = cl_sequence s" by (simp add: t_def cl_fault_def)
    then show ?thesis
      unfolding cl_submit_def Let_def if_not_P [OF False] t_def [symmetric] book_send by (simp add: book_def)
  qed
  have "book t = book s" by (simp add: t_def)
  then show ?thesis
    unfolding fair_def b
    using share_ok_submit [of "book t" ?share "cl_sequence t"]
    by (auto simp: book_def mk_submit_result_def share_core_def)
qed

lemma fair_login: "fair s (cl_login e s)"
proof -
  have "fair s (cl_tell CcLogin (s\<lparr>cl_results := Map.empty\<rparr>))"
    using share_ok_forget [of "book s"] by (simp add: fair_def) (simp add: book_def)
  then show ?thesis
    unfolding cl_login_def Let_def case_prod_beta by (rule fair_then [OF book_send])
qed

lemma fair_handleSubmitResponse: "fair s (snd (cl_handleSubmitResponse e i error s))"
proof (cases "cl_results s i")
  case None
  then show ?thesis by (simp add: cl_handleSubmitResponse_def)
next
  case (Some r)
  have core: "share_core (sr_done now r) = share_core r" for now by (simp add: share_core_def sr_done_def)
  show ?thesis
  proof (cases "cl_listener s")
    case True
    have "share_core r = r" if "share_ok (book s)" using that Some by (auto simp: share_ok_def book_def)
    then show ?thesis
      using Some True share_ok_answer [of "book s" i r]
      by (auto simp: fair_def cl_handleSubmitResponse_def Let_def cl_tell_def cl_say_def book_def answers_append core)
  next
    case False
    then show ?thesis
      using Some share_ok_drop [of "book s" i]
      by (auto simp: fair_def cl_handleSubmitResponse_def Let_def cl_tell_def cl_fault_def book_def)
  qed
qed

section \<open>Messages and runs\<close>

lemma fair_handshake: "fair s (cl_handshake e s)"
  by (auto simp: cl_handshake_def socks5_handshake_def tls_handshake_def fair_login fair_eqI split: option.split)

lemma book_verifyAlgorithm [simp]: "book (snd (cl_verifyAlgorithm e a s)) = book s"
  by (simp add: cl_verifyAlgorithm_def)

lemma book_take_job [simp]: "book (snd (take_job e j s)) = book s"
  by (simp add: take_job_def Let_def)

lemma book_parseJob [simp]: "book (snd (snd (cl_parseJob e params code s))) = book s"
  by (simp add: cl_parseJob_def case_prod_beta split: job_reading.split option.split)

lemma book_extension [simp]: "book (cl_extension e v s) = book s"
  by (cases "(e, v, s)" rule: cl_extension.cases) (simp_all add: Let_def)

lemma book_parseExtensions [simp]: "book (cl_parseExtensions e v s) = book s"
proof -
  have "book (fold (cl_extension e) xs s) = book s" for xs s
    by (induction xs arbitrary: s) simp_all
  then show ?thesis by (simp add: cl_parseExtensions_def Let_def split: option.split json.split)
qed

lemma book_parseLogin [simp]: "book (snd (snd (cl_parseLogin e result code s))) = book s"
  unfolding cl_parseLogin_def Let_def case_prod_beta by simp

lemma book_parseNotification [simp]: "book (cl_parseNotification e m params s) = book s"
  by (simp add: cl_parseNotification_def case_prod_beta)

lemma book_handleResponse [simp]: "book (snd (cl_handleResponse e i result error s)) = book s"
  by (simp add: cl_handleResponse_def Let_def split: option.split json.split)

lemma book_login_response [simp]: "book (login_response e result s) = book s"
  unfolding login_response_def Let_def case_prod_beta by simp

lemma fair_refuse_response: "fair s (refuse_response e i error s)"
proof -
  have "fair s (snd (cl_handleSubmitResponse e i m (if b then cl_fault NoMessage s else s)))" for b m
    by (rule fair_after [OF _ fair_handleSubmitResponse]) simp
  from this fair_then [OF book_close this] show ?thesis
    unfolding refuse_response_def Let_def by simp
qed

lemma fair_parseResponse: "fair s (cl_parseResponse e i result error s)"
proof -
  note after = fair_after [OF book_handleResponse [of e i result error s]]
  show ?thesis
    unfolding cl_parseResponse_def Let_def case_prod_beta
    using after [OF fair_refuse_response] after [OF fair_handleSubmitResponse]
    by (cases "i = 1") (simp_all add: fair_eqI)
qed

lemma fair_parse: "fair s (cl_parse e line s)"
proof -
  have "fair s (cl_parseResponse e i result error (cl_startTimeout e s))" for i result error
    by (rule fair_after [OF _ fair_parseResponse]) simp
  then show ?thesis
    by (auto simp: cl_parse_def Let_def fair_eqI split: option.split json.split)
qed

lemma fair_receive: "fair s (cl_receive e data s)"
  unfolding cl_receive_def case_prod_beta Let_def
  by (rule fair_after [OF _ fair_fold]) (simp_all add: fair_parse)

lemma fair_tls_read: "fair s (tls_read e data s)"
proof -
  have l: "fair s (cl_login e (s\<lparr>cl_tls := t\<rparr>))" for t by (rule fair_after [OF _ fair_login]) simp
  have f: "fair s (fold (cl_receive e) bufs (s\<lparr>cl_tls := t\<rparr>))" for bufs t
    by (rule fair_after [OF _ fair_fold]) (simp_all add: fair_receive)
  show ?thesis
    unfolding tls_read_def Let_def
    by (auto simp: l f fair_eqI split: option.split prod.split ssl_rc.split)
qed

lemma book_socks5_read [simp]: "book (socks5_read e data so s) = book s"
  by (simp add: socks5_read_def socks5_connect_def Let_def split: option.split)

lemma fair_read: "fair s (cl_read e data s)"
proof -
  have "fair s (cl_handshake e t)" if "book t = book s" for t
    by (rule fair_after [OF that fair_handshake])
  then show ?thesis
    by (simp add: cl_read_def Let_def fair_eqI fair_tls_read fair_receive split: option.split)
qed

lemma fair_onConnect: "fair s (cl_onConnect e status s)"
proof -
  have "fair s (cl_handshake e t)" if "book t = book s" for t
    by (rule fair_after [OF that fair_handshake])
  then show ?thesis by (simp add: cl_onConnect_def Let_def fair_eqI)
qed

lemma fair_step: "fair s (cl_step s ev)"
  by (cases "(s, ev)" rule: cl_step.cases) (simp_all add: fair_eqI fair_submit fair_read fair_onConnect)

interpretation client_shares: event_component "\<lambda>s. \<exists>i agent seq. s = cl_new i agent seq" "\<lambda>s ev. True" cl_step "\<lambda>s. share_ok (book s)"
proof unfold_locales
  fix s :: "'a client" assume "\<exists>i agent seq. s = cl_new i agent seq"
  then show "share_ok (book s)" by (auto simp: book_def cl_new_def share_ok_def)
next
  fix s :: "'a client" and ev assume "share_ok (book s)"
  then show "share_ok (book (cl_step s ev))" using fair_step [of s ev] by (simp add: fair_def)
qed

lemma run_ok_True [simp]: "run_ok (\<lambda>s ev. True) step s es"
  by (induction es arbitrary: s) simp_all

lemma client_run_shares:
  "share_ok (book (run cl_step (cl_new i agent seq) es))"
  by (rule client_shares.run_init_inv) auto

end
