(* ===== verification/ClientLogin.thy ===== *)
theory ClientLogin
  imports Client
begin

text \<open>
  Where the stratum client sends its login. The projection \<open>secrecy\<close> keeps what decides it: whether the pool
  asks for TLS and pins a certificate, whether the client has a TLS session or a SOCKS5 handshake in front of
  one, and how often the login was made. All operations but those that connect, close and log in leave it
  alone.
\<close>

section \<open>The projection\<close>

definition login_count :: "client_act list \<Rightarrow> nat" where
  "login_count l = length (filter (\<lambda>c. c = CcLogin) l)"

definition guarded :: "'ssl client \<Rightarrow> bool" where
  "guarded s \<longleftrightarrow> cl_tls s \<noteq> None \<or> cl_socks5 s \<noteq> None"

definition secrecy :: "'ssl client \<Rightarrow> bool \<times> cstr \<times> bool \<times> bool \<times> nat" where
  "secrecy s = (pl_tls (cl_pool s), pl_fingerprint (cl_pool s), cl_tls s \<noteq> None, cl_socks5 s \<noteq> None, login_count (cl_log s))"

lemma secrecy_update [simp]:
  "secrecy (s\<lparr>cl_quiet := b\<rparr>) = secrecy s" "secrecy (s\<lparr>cl_enabled := b\<rparr>) = secrecy s" "secrecy (s\<lparr>cl_retries := i\<rparr>) = secrecy s"
  "secrecy (s\<lparr>cl_retryPause := t\<rparr>) = secrecy s" "secrecy (s\<lparr>cl_failures := i\<rparr>) = secrecy s" "secrecy (s\<lparr>cl_job := j\<rparr>) = secrecy s"
  "secrecy (s\<lparr>cl_callbacks := cb\<rparr>) = secrecy s" "secrecy (s\<lparr>cl_results := rs\<rparr>) = secrecy s"
  "secrecy (s\<lparr>cl_ip := n\<rparr>) = secrecy s" "secrecy (s\<lparr>cl_user := n\<rparr>) = secrecy s" "secrecy (s\<lparr>cl_password := n\<rparr>) = secrecy s"
  "secrecy (s\<lparr>cl_rigId := n\<rparr>) = secrecy s" "secrecy (s\<lparr>cl_rpcId := n\<rparr>) = secrecy s" "secrecy (s\<lparr>cl_sequence := i\<rparr>) = secrecy s"
  "secrecy (s\<lparr>cl_reader := r\<rparr>) = secrecy s"
  "secrecy (s\<lparr>cl_extensions := xs\<rparr>) = secrecy s" "secrecy (s\<lparr>cl_sendBuf := k\<rparr>) = secrecy s" "secrecy (s\<lparr>cl_expire := t\<rparr>) = secrecy s"
  "secrecy (s\<lparr>cl_jobs := t\<rparr>) = secrecy s" "secrecy (s\<lparr>cl_keepAlive := t\<rparr>) = secrecy s" "secrecy (s\<lparr>cl_shares := sh\<rparr>) = secrecy s"
  "secrecy (s\<lparr>cl_state := st\<rparr>) = secrecy s" "secrecy (s\<lparr>cl_socket := h\<rparr>) = secrecy s" "secrecy (s\<lparr>cl_live := hs\<rparr>) = secrecy s"
  "secrecy (s\<lparr>cl_shut := hs\<rparr>) = secrecy s" "secrecy (s\<lparr>cl_handles := k\<rparr>) = secrecy s" "secrecy (s\<lparr>cl_dns := b\<rparr>) = secrecy s"
  "secrecy (s\<lparr>cl_listener := b\<rparr>) = secrecy s" "secrecy (s\<lparr>cl_gone := b\<rparr>) = secrecy s" "secrecy (cl_fault f s) = secrecy s"
  by (simp_all add: secrecy_def cl_fault_def)

lemma secrecy_say [simp]: "c \<noteq> CcLogin \<Longrightarrow> secrecy (cl_say c s) = secrecy s"
  by (simp add: secrecy_def cl_say_def login_count_def)

lemma secrecy_tell [simp]: "c \<noteq> CcLogin \<Longrightarrow> secrecy (cl_tell c s) = secrecy s"
  by (simp add: cl_tell_def)

lemma secrecy_tls: "cl_tls s \<noteq> None \<Longrightarrow> secrecy (s\<lparr>cl_tls := Some t\<rparr>) = secrecy s"
  by (simp add: secrecy_def)

lemma secrecy_socks5: "cl_socks5 s \<noteq> None \<Longrightarrow> secrecy (s\<lparr>cl_socks5 := Some so\<rparr>) = secrecy s"
  by (simp add: secrecy_def)

lemma secrecy_fold: "(\<And>x s. secrecy (f x s) = secrecy s) \<Longrightarrow> secrecy (fold f xs s) = secrecy s"
  by (induction xs arbitrary: s) simp_all

lemma secrecy_if: "secrecy x = secrecy s \<Longrightarrow> secrecy y = secrecy s \<Longrightarrow> secrecy (if b then x else y) = secrecy s"
  by simp

section \<open>Operations that leave it alone\<close>

lemma secrecy_remove [simp]: "secrecy (cl_remove s) = secrecy s"
  by (simp add: cl_remove_def Let_def)

lemma secrecy_setState [simp]: "secrecy (cl_setState e st s) = secrecy s"
  by (cases st) (simp_all add: cl_setState_def)

lemma secrecy_startTimeout [simp]: "secrecy (cl_startTimeout e s) = secrecy s"
  by (simp add: cl_startTimeout_def Let_def)

lemma secrecy_close [simp]: "secrecy (snd (cl_close e s)) = secrecy s"
  by (simp add: cl_close_def Let_def split: option.split)

lemma secrecy_disconnect [simp]: "secrecy (snd (cl_disconnect e s)) = secrecy s"
  by (simp add: cl_disconnect_def)

lemma secrecy_reconnect [simp]: "secrecy (cl_reconnect e s) = secrecy s"
  by (simp add: cl_reconnect_def Let_def)

lemma secrecy_setPoolUrl [simp]: "secrecy (cl_setPoolUrl t s) = secrecy s"
  by (simp add: cl_setPoolUrl_def secrecy_def)

lemma secrecy_deleteLater [simp]: "secrecy (cl_deleteLater e s) = secrecy s"
  by (simp add: cl_deleteLater_def case_prod_beta)

lemma secrecy_onResolved [simp]: "secrecy (cl_onResolved e rec status s) = secrecy s"
  by (simp add: cl_onResolved_def cl_connect_addr_def Let_def)

lemma secrecy_write [simp]: "secrecy (snd (cl_write e buf s)) = secrecy s"
  by (simp add: cl_write_def Let_def)

lemma secrecy_send_bio [simp]: "secrecy (snd (cl_send_bio e s)) = secrecy s"
  by (simp add: cl_send_bio_def Let_def secrecy_tls split: option.split prod.split)

lemma secrecy_tls_send [simp]: "secrecy (snd (tls_send e buf s)) = secrecy s"
  by (simp add: tls_send_def secrecy_tls split: option.split)

lemma secrecy_send_size [simp]: "secrecy (snd (cl_send_size e buf s)) = secrecy s"
  by (simp add: cl_send_size_def Let_def case_prod_beta)

lemma secrecy_send [simp]: "secrecy (snd (cl_send e obj s)) = secrecy s"
proof (cases "length (ce_text e obj) > kMaxSendBufferSize")
  case True
  show ?thesis unfolding cl_send_def Let_def if_P [OF True] by simp
next
  case False
  have "secrecy (snd (cl_send_size e buf (if b then x else cl_fault BufferOverread x))) = secrecy s" if "secrecy x = secrecy s" for b buf x
    using that by simp
  note H = this
  show ?thesis unfolding cl_send_def Let_def if_not_P [OF False] by (rule H, rule secrecy_if) simp_all
qed

lemma secrecy_ping [simp]: "secrecy (cl_ping e s) = secrecy s"
  unfolding cl_ping_def Let_def secrecy_update secrecy_send_size by simp

lemma secrecy_send_callback [simp]: "secrecy (snd (cl_send_callback e obj c s)) = secrecy s"
  by (simp add: cl_send_callback_def)

lemma secrecy_submit [simp]: "secrecy (snd (cl_submit e r s)) = secrecy s"
  by (simp add: cl_submit_def Let_def)

lemma secrecy_verifyAlgorithm [simp]: "secrecy (snd (cl_verifyAlgorithm e a s)) = secrecy s"
  by (simp add: cl_verifyAlgorithm_def)

lemma secrecy_take_job [simp]: "secrecy (snd (take_job e j s)) = secrecy s"
  by (simp add: take_job_def Let_def)

lemma secrecy_parseJob [simp]: "secrecy (snd (snd (cl_parseJob e params code s))) = secrecy s"
  by (simp add: cl_parseJob_def case_prod_beta split: job_reading.split option.split)

lemma secrecy_extension [simp]: "secrecy (cl_extension e v s) = secrecy s"
  by (cases "(e, v, s)" rule: cl_extension.cases) (simp_all add: Let_def)

lemma secrecy_parseExtensions [simp]: "secrecy (cl_parseExtensions e v s) = secrecy s"
  by (simp add: cl_parseExtensions_def Let_def secrecy_fold split: option.split json.split)

lemma secrecy_parseLogin [simp]: "secrecy (snd (snd (cl_parseLogin e result code s))) = secrecy s"
  unfolding cl_parseLogin_def Let_def case_prod_beta by simp

lemma secrecy_parseNotification [simp]: "secrecy (cl_parseNotification e m params s) = secrecy s"
  by (simp add: cl_parseNotification_def case_prod_beta)

lemma secrecy_handleResponse [simp]: "secrecy (snd (cl_handleResponse e i result error s)) = secrecy s"
  by (simp add: cl_handleResponse_def Let_def split: option.split json.split)

lemma secrecy_handleSubmitResponse [simp]: "secrecy (snd (cl_handleSubmitResponse e i error s)) = secrecy s"
  by (simp add: cl_handleSubmitResponse_def Let_def split: option.split)

lemma secrecy_login_response [simp]: "secrecy (login_response e result s) = secrecy s"
  unfolding login_response_def Let_def case_prod_beta by simp

lemma secrecy_refuse_response [simp]: "secrecy (refuse_response e i error s) = secrecy s"
  by (simp add: refuse_response_def Let_def)

lemma secrecy_parseResponse [simp]: "secrecy (cl_parseResponse e i result error s) = secrecy s"
  unfolding cl_parseResponse_def Let_def case_prod_beta by simp

lemma secrecy_parse [simp]: "secrecy (cl_parse e line s) = secrecy s"
  by (simp add: cl_parse_def Let_def split: option.split json.split)

lemma secrecy_receive [simp]: "secrecy (cl_receive e data s) = secrecy s"
  by (simp add: cl_receive_def case_prod_beta Let_def secrecy_fold)

lemma secrecy_socks5_read: "cl_socks5 s = Some so \<Longrightarrow> secrecy (socks5_read e data so s) = secrecy s"
  by (simp add: socks5_read_def socks5_connect_def Let_def secrecy_socks5 split: option.split)

lemma secrecy_socks5_handshake: "cl_socks5 s \<noteq> None \<Longrightarrow> secrecy (socks5_handshake e s) = secrecy s"
  by (simp add: socks5_handshake_def secrecy_socks5)

lemma secrecy_tls_handshake [simp]: "secrecy (tls_handshake e n s) = secrecy s"
  by (simp add: tls_handshake_def secrecy_tls split: option.split)

section \<open>Connections\<close>

text \<open>A connection to a pool with TLS has a session, or a SOCKS5 handshake after which it gets one.\<close>

lemma secrecy_resolve [simp]: "secrecy (cl_resolve e host s) = secrecy s"
  by (simp add: cl_resolve_def Let_def)

lemma guarded_secrecy: "secrecy t = secrecy s \<Longrightarrow> guarded t = guarded s"
  by (simp add: secrecy_def guarded_def)

lemma connect_secure:
  "pl_tls (cl_pool s) \<Longrightarrow> guarded (cl_connect e s)"
  "pl_tls (cl_pool (cl_connect e s)) = pl_tls (cl_pool s)" "pl_fingerprint (cl_pool (cl_connect e s)) = pl_fingerprint (cl_pool s)"
  "login_count (cl_log (cl_connect e s)) = login_count (cl_log s)"
proof -
  have r: "secrecy (cl_connect e s) = secrecy (if proxy_isValid (pl_proxy (cl_pool s)) then s\<lparr>cl_socks5 := Some socks5_new\<rparr>
      else if pool_isTLS (cl_pool s) then s\<lparr>cl_tls := Some tls_new\<rparr> else s)"
    by (simp add: cl_connect_def Let_def)
  show "pl_tls (cl_pool s) \<Longrightarrow> guarded (cl_connect e s)"
    unfolding guarded_secrecy [OF r] by (simp add: guarded_def pool_isTLS_def)
  show "pl_tls (cl_pool (cl_connect e s)) = pl_tls (cl_pool s)" "pl_fingerprint (cl_pool (cl_connect e s)) = pl_fingerprint (cl_pool s)"
    "login_count (cl_log (cl_connect e s)) = login_count (cl_log s)"
    using r by (auto simp: secrecy_def split: if_splits)
qed

text \<open>What a login needs: the client had a session, its handshake has just ended, and the certificate is
  the pinned one.\<close>

definition checked :: "'ssl client_env \<Rightarrow> string \<Rightarrow> 'ssl client \<Rightarrow> bool" where
  "checked e data s \<longleftrightarrow>
     (\<exists>t c c' md. cl_tls s = Some t \<and> tl_ssl t = Some c \<and> \<not> ssl_finished (ce_ssl e) (ssl_feed (ce_ssl e) data c) \<and>
        ssl_connect (ce_ssl e) (ssl_feed (ce_ssl e) data c) = (HandshakeDone, c') \<and> ssl_digest (ce_ssl e) c' = Some md \<and>
        fingerprint_ok (the (toHex_buf 72 (take 32 md))) (pl_fingerprint (cl_pool s)))"

text \<open>The step does not log in, keeps the pool and, once the connection is guarded, keeps it so.\<close>

definition no_new_login :: "'ssl client \<Rightarrow> 'ssl client \<Rightarrow> bool" where
  "no_new_login s t \<longleftrightarrow> login_count (cl_log t) = login_count (cl_log s)"

definition secure :: "'ssl client \<Rightarrow> 'ssl client \<Rightarrow> bool" where
  "secure s t \<longleftrightarrow> pl_tls (cl_pool t) = pl_tls (cl_pool s) \<and> pl_fingerprint (cl_pool t) = pl_fingerprint (cl_pool s) \<and>
     (pl_tls (cl_pool s) \<longrightarrow> guarded s \<longrightarrow> guarded t)"

lemma secrecy_D: "secrecy t = secrecy s \<Longrightarrow> secure s t \<and> no_new_login s t"
  by (auto simp: secrecy_def secure_def no_new_login_def guarded_def)

lemma secure_login: "secure s (cl_login e s)"
proof -
  have "secrecy (cl_login e s) = secrecy (cl_tell CcLogin (s\<lparr>cl_results := Map.empty\<rparr>))"
    unfolding cl_login_def Let_def case_prod_beta by simp
  then show ?thesis by (auto simp: secure_def guarded_def secrecy_def cl_tell_def cl_say_def cl_fault_def split: if_splits)
qed

lemma secure_connect: "secure s (cl_connect e s) \<and> no_new_login s (cl_connect e s)"
  by (simp add: secure_def no_new_login_def connect_secure)

lemma secure_tick: "secure s (cl_tick e now s) \<and> no_new_login s (cl_tick e now s)"
proof -
  have "cl_tick e now s = cl_connect e s \<or> secrecy (cl_tick e now s) = secrecy s" by (simp add: cl_tick_def)
  then show ?thesis using secure_connect secrecy_D by metis
qed

lemma secure_handshake: "secure s (cl_handshake e s)"
proof -
  have t: "secrecy (tls_handshake e n (s\<lparr>cl_expire := k\<rparr>)) = secrecy s" for n k by simp
  show ?thesis
    using secure_login [of s e] secrecy_D [OF secrecy_socks5_handshake [of s e]] secrecy_D [OF t] by (auto simp: cl_handshake_def)
qed

lemma no_new_login_handshake:
  assumes "pl_tls (cl_pool s)" and "guarded s"
  shows "no_new_login s (cl_handshake e s)"
proof -
  have t: "secrecy (tls_handshake e n (s\<lparr>cl_expire := k\<rparr>)) = secrecy s" for n k by simp
  have "cl_socks5 s \<noteq> None \<or> cl_isTLS s" using assms by (auto simp: guarded_def cl_isTLS_def pool_isTLS_def)
  then show ?thesis using secrecy_D [OF secrecy_socks5_handshake [of s e]] secrecy_D [OF t] by (auto simp: cl_handshake_def)
qed

lemma secure_after: "secrecy u = secrecy s \<Longrightarrow> secure u t = secure s t" "secrecy u = secrecy s \<Longrightarrow> no_new_login u t = no_new_login s t"
  by (auto simp: secrecy_def secure_def no_new_login_def guarded_def)

lemma onConnect_shape:
  "\<exists>u. secrecy u = secrecy s \<and> (cl_onConnect e status s = u \<or> cl_onConnect e status s = cl_handshake e u)"
proof -
  let ?u = "if cl_socket (cl_setState e ConnectedState s) = None then cl_fault NullSocket (cl_setState e ConnectedState s)
    else cl_setState e ConnectedState s"
  have "secrecy ?u = secrecy s" by simp
  moreover have "secrecy (cl_onConnect e status s) = secrecy s \<or> cl_onConnect e status s = cl_handshake e ?u"
    by (simp add: cl_onConnect_def Let_def)
  ultimately show ?thesis by blast
qed

lemma secure_onConnect: "secure s (cl_onConnect e status s)"
  using onConnect_shape [of s e status] secure_handshake secure_after(1) secrecy_D by metis

lemma no_new_login_onConnect: "pl_tls (cl_pool s) \<Longrightarrow> guarded s \<Longrightarrow> no_new_login s (cl_onConnect e status s)"
proof -
  assume a: "pl_tls (cl_pool s)" "guarded s"
  obtain u where u: "secrecy u = secrecy s" "cl_onConnect e status s = u \<or> cl_onConnect e status s = cl_handshake e u"
    using onConnect_shape [of s e status] by blast
  have "pl_tls (cl_pool u)" "guarded u" using a u(1) by (auto simp: secrecy_def guarded_def)
  from no_new_login_handshake [OF this] u show ?thesis using secure_after(2) secrecy_D by metis
qed

lemma tls_read_shape:
  "secrecy (tls_read e data s) = secrecy s \<or>
   (checked e data s \<and> (\<exists>u. secrecy u = secrecy s \<and> tls_read e data s = cl_login e u))"
proof (cases "\<exists>t c. cl_tls s = Some t \<and> tl_ssl t = Some c")
  case False
  then have "tls_read e data s = cl_fault NoSession s" by (auto simp: tls_read_def split: option.split)
  then show ?thesis by simp
next
  case True
  then obtain t c where t: "cl_tls s = Some t" "tl_ssl t = Some c" by blast
  define c1 where "c1 = ssl_feed (ce_ssl e) data c"
  have upd: "secrecy (s\<lparr>cl_tls := Some x\<rparr>) = secrecy s" for x by (simp add: secrecy_tls t(1))
  show ?thesis
  proof (cases "ssl_finished (ce_ssl e) c1")
    case True
    then show ?thesis
      using t by (simp add: tls_read_def Let_def upd secrecy_fold case_prod_beta flip: c1_def)
  next
    case False
    obtain rc c2 where rc: "ssl_connect (ce_ssl e) c1 = (rc, c2)" by fastforce
    define v where "v = tls_verify (ssl_digest (ce_ssl e) c2) (pl_fingerprint (cl_pool s)) (t\<lparr>tl_ssl := Some c2\<rparr>)"
    have r: "tls_read e data s = (case rc of
        WantRead \<Rightarrow> snd (cl_send_bio e (s\<lparr>cl_tls := Some (t\<lparr>tl_ssl := Some c2\<rparr>)\<rparr>))
      | HandshakeDone \<Rightarrow> if \<not> fst v then snd (cl_close e (s\<lparr>cl_tls := Some (snd v)\<rparr>))
          else cl_login e (s\<lparr>cl_tls := Some ((snd v)\<lparr>tl_ready := True\<rparr>)\<rparr>)
      | HandshakeFailed \<Rightarrow> s\<lparr>cl_tls := Some (t\<lparr>tl_ssl := Some c2\<rparr>)\<rparr>)"
      using t False rc by (simp add: tls_read_def v_def case_prod_beta c1_def split: ssl_rc.split)
    have "checked e data s" if "rc = HandshakeDone" "fst v"
      using that t False rc by (auto simp: checked_def v_def tls_verify_def c1_def Let_def split: option.splits)
    then show ?thesis by (cases rc) (use upd in \<open>auto simp: r\<close>)
  qed
qed

lemma secure_tls_read: "secure s (tls_read e data s)"
  using tls_read_shape [of e data s] secure_login secure_after(1) secrecy_D by metis

lemma no_new_login_tls_read: "no_new_login s (tls_read e data s) \<or> checked e data s"
  using tls_read_shape [of e data s] secrecy_D by metis

lemma read_shape:
  "secrecy (cl_read e received s) = secrecy s \<or>
   (\<exists>data. received = Some data \<and> cl_read e received s = tls_read e data s) \<or>
   (\<exists>u. pl_tls (cl_pool u) = pl_tls (cl_pool s) \<and> pl_fingerprint (cl_pool u) = pl_fingerprint (cl_pool s) \<and>
      login_count (cl_log u) = login_count (cl_log s) \<and> (pl_tls (cl_pool s) \<longrightarrow> guarded u) \<and> cl_read e received s = cl_handshake e u)"
proof (cases "\<exists>data so. received = Some data \<and> cl_listener s \<and> cl_socks5 s = Some so")
  case True
  then obtain data so where d: "received = Some data" "cl_listener s" "cl_socks5 s = Some so" by blast
  define t where "t = socks5_read e data so s"
  have t: "secrecy t = secrecy s" unfolding t_def by (rule secrecy_socks5_read [OF d(3)])
  define w where "w = t\<lparr>cl_socks5 := None\<rparr>"
  define u where "u = (if pool_isTLS (cl_pool w) \<and> cl_tls w = None then w\<lparr>cl_tls := Some tls_new\<rparr> else w)"
  have r: "cl_read e received s = (if so_state (the (cl_socks5 t)) = Ready then cl_handshake e u else t)"
    using d by (simp add: cl_read_def Let_def t_def w_def u_def)
  have "pl_tls (cl_pool u) = pl_tls (cl_pool s)" "pl_fingerprint (cl_pool u) = pl_fingerprint (cl_pool s)"
    "login_count (cl_log u) = login_count (cl_log s)" "pl_tls (cl_pool s) \<longrightarrow> guarded u"
    using t by (auto simp: secrecy_def u_def w_def guarded_def pool_isTLS_def)
  with r t show ?thesis by (cases "so_state (the (cl_socks5 t)) = Ready") auto
next
  case False
  then show ?thesis by (cases received; cases "cl_socks5 s") (auto simp: cl_read_def)
qed

lemma secure_read: "secure s (cl_read e received s)"
  using read_shape [of e received s]
proof (elim disjE exE conjE)
  fix u
  assume u: "pl_tls (cl_pool u) = pl_tls (cl_pool s)" "pl_fingerprint (cl_pool u) = pl_fingerprint (cl_pool s)"
    "pl_tls (cl_pool s) \<longrightarrow> guarded u" "cl_read e received s = cl_handshake e u"
  then show ?thesis using secure_handshake [of u e] by (auto simp: secure_def)
qed (use secrecy_D secure_tls_read in auto)

lemma no_new_login_read:
  assumes "pl_tls (cl_pool s)"
  shows "no_new_login s (cl_read e received s) \<or> (\<exists>data. received = Some data \<and> checked e data s)"
  using read_shape [of e received s]
proof (elim disjE exE conjE)
  fix u
  assume u: "pl_tls (cl_pool u) = pl_tls (cl_pool s)" "login_count (cl_log u) = login_count (cl_log s)"
    "pl_tls (cl_pool s) \<longrightarrow> guarded u" "cl_read e received s = cl_handshake e u"
  then show ?thesis using no_new_login_handshake [of u e] assms by (auto simp: no_new_login_def)
qed (metis secrecy_D no_new_login_tls_read)+

section \<open>Runs of a connection\<close>

text \<open>The events of one connection: everything but its end and a change of the pool.\<close>

fun same_connection :: "'ssl client_event \<Rightarrow> bool" where
  "same_connection (EvClosed h) = False"
| "same_connection (EvSetPool p) = False"
| "same_connection (EvConnectPool p) = False"
| "same_connection _ = True"

lemma secure_step: "same_connection ev \<Longrightarrow> secure s (cl_step s (e, ev))"
  by (cases ev) (simp_all add: secrecy_D secure_connect secure_tick secure_onConnect secure_read)

lemma setPool_log [simp]: "cl_log (cl_setPool e p s) = cl_log s"
  by (simp add: cl_setPool_def)

lemma no_new_login_onClose: "no_new_login s (cl_onClose e s)"
proof -
  have r: "login_count (cl_log (cl_reconnect e u)) = login_count (cl_log u)" for u :: "'a client"
    using secrecy_reconnect [of e u] by (simp add: secrecy_def)
  have st: "login_count (cl_log (cl_setState e st u)) = login_count (cl_log u)" for u :: "'a client" and st
    using secrecy_setState [of e st u] by (simp add: secrecy_def)
  show ?thesis by (simp add: no_new_login_def cl_onClose_def Let_def r st cl_fault_def split: option.split)
qed

lemma login_step:
  assumes "pl_tls (cl_pool s)" "guarded s" "\<not> no_new_login s (cl_step s (e, ev))"
  shows "\<exists>h data. ev = EvRead h (Some data) \<and> checked e data s"
proof -
  have c: "no_new_login s (cl_connect_pool e p s)" for p
    using secure_connect [of "cl_setPool e p s" e] by (simp add: no_new_login_def cl_connect_pool_def)
  show ?thesis
    using assms(3) no_new_login_read [OF assms(1)] no_new_login_onConnect [OF assms(1,2)] c
    by (cases ev) (auto simp: secrecy_D secure_connect secure_tick no_new_login_onClose no_new_login_def [of s "cl_setPool e p s" for e p] split: if_splits)
qed

text \<open>From the call of \<open>connect\<close> until the connection has ended.\<close>

lemma connection_secure:
  assumes "pl_tls (cl_pool s)" and "\<forall>(e, ev) \<in> set es. same_connection ev"
  shows "pl_tls (cl_pool (run cl_step (cl_connect e0 s) es)) \<and> guarded (run cl_step (cl_connect e0 s) es) \<and>
    pl_fingerprint (cl_pool (run cl_step (cl_connect e0 s) es)) = pl_fingerprint (cl_pool s)"
  using assms(2)
proof (induction es rule: rev_induct)
  case Nil
  then show ?case using assms(1) by (simp add: connect_secure)
next
  case (snoc x es)
  obtain e ev where x: "x = (e, ev)" by fastforce
  then have "same_connection ev" using snoc.prems by simp
  from secure_step [OF this, of "run cl_step (cl_connect e0 s) es" e] snoc show ?case
    by (simp add: run_append x secure_def)
qed

section \<open>A connection while the old one is closing\<close>

text \<open>The owner stops a connected client and connects it again before the loop has run the close callback. The
  new socket takes the place of the old one, and the callback of the old one frees it.\<close>

lemma reconnect_while_closing:
  assumes "cl_state s = ConnectedState" "cl_socket s = Some h" "h \<in> set (cl_live s)" "h \<notin> set (cl_shut s)"
    and "cl_listener s" "\<not> cl_gone s" "cl_handles s \<notin> set (h # cl_live s @ cl_shut s)"
    and s1: "s1 = cl_step s (e1, EvDisconnect)" and s2: "s2 = cl_step s1 (e2, EvConnect)"
    and s3: "s3 = cl_step s2 (e3, EvResolved (Some ip) 0)" and s4: "s4 = cl_step s3 (e4, EvClosed h)"
  shows "cl_lib_ok s2 (EvResolved (Some ip) 0) \<and> cl_lib_ok s3 (EvClosed h) \<and> cl_socket s3 = Some (cl_handles s) \<and>
    cl_handles s \<notin> set (cl_shut s3) \<and> FreedOpenHandle \<in> set (cl_faults s4) \<and> cl_socket s4 = None"
proof -
  let ?h = "cl_handles s"
  have f1: "cl_state s1 = socket_state.ClosingState" "cl_socket s1 = Some h" "cl_live s1 = cl_live s" "cl_shut s1 = h # cl_shut s"
    "cl_listener s1" "\<not> cl_gone s1" "cl_handles s1 = ?h" "cl_failures s1 = - 1"
    using assms(1-6) by (simp_all add: s1 cl_disconnect_def cl_close_def cl_setState_def cl_say_def Let_def)
  have f2: "cl_dns s2" "cl_live s2 = cl_live s" "cl_shut s2 = h # cl_shut s" "cl_listener s2" "\<not> cl_gone s2" "cl_handles s2 = ?h"
    using f1 by (simp_all add: s2 cl_connect_def cl_resolve_def cl_setState_def cl_say_def Let_def)
  have f3: "cl_socket s3 = Some ?h" "cl_live s3 = ?h # cl_live s" "cl_shut s3 = h # cl_shut s" "cl_listener s3" "\<not> cl_gone s3"
    using f2 by (simp_all add: s3 cl_onResolved_def cl_connect_addr_def cl_setState_def cl_say_def Let_def)
  have f4: "FreedOpenHandle \<in> set (cl_faults s4)" "cl_socket s4 = None"
    using f3 assms(7)
    by (simp_all add: s4 cl_onClose_def cl_reconnect_def cl_setState_def cl_fault_def cl_tell_def cl_say_def Let_def)
  show ?thesis using f2 f3 f4 assms(3,7) by simp
qed

end
