(* ===== verification/ClientRuns.thy ===== *)
theory ClientRuns
  imports ClientInv ClientShares ClientLogin
begin

text \<open>
  What the timers of the stratum client see: which operations leave \<open>m_expire\<close> alone, what a login that
  was sent leaves behind, the send buffer; and an environment for concrete runs.
\<close>

section \<open>Ticks\<close>

definition cl_ticks :: "('ssl client_env \<times> u64) list \<Rightarrow> 'ssl client \<Rightarrow> 'ssl client" where
  "cl_ticks ts s = fold (\<lambda>(e, now). cl_tick e now) ts s"

text \<open>Without a deadline nothing happens, in any state.\<close>

lemma cl_ticks_id:
  assumes "\<And>e now. (e, now) \<in> set ts \<Longrightarrow> cl_tick e now s = s"
  shows "cl_ticks ts s = s"
proof -
  have "fold (\<lambda>(e, now). cl_tick e now) ts s = s" using assms by (induction ts) auto
  then show ?thesis by (simp add: cl_ticks_def)
qed

lemma cl_tick_idle:
  "cl_expire s = 0 \<Longrightarrow> cl_keepAlive s = 0 \<or> cl_state s \<noteq> ConnectedState \<Longrightarrow> cl_tick e now s = s"
  by (auto simp: cl_tick_def)

lemma cl_ticks_idle:
  "cl_expire s = 0 \<Longrightarrow> cl_keepAlive s = 0 \<or> cl_state s \<noteq> ConnectedState \<Longrightarrow> cl_ticks ts s = s"
  by (rule cl_ticks_id, rule cl_tick_idle)

section \<open>The deadline\<close>

lemma expire_simps [simp]:
  "cl_expire (cl_say c s) = cl_expire s" "cl_expire (cl_fault f s) = cl_expire s" "cl_expire (cl_tell c s) = cl_expire s"
  "cl_expire (cl_startTimeout e s) = 0" "cl_expire (snd (cl_close e s)) = cl_expire s"
  by (simp_all add: cl_say_def cl_fault_def cl_tell_def cl_startTimeout_def cl_close_def cl_setState_def Let_def split: option.split)

lemma expire_take_job [simp]: "cl_expire (snd (take_job e j s)) = cl_expire s"
  by (simp add: take_job_def Let_def)

lemma expire_parseJob [simp]: "cl_expire (snd (snd (cl_parseJob e params code s))) = cl_expire s"
  by (simp add: cl_parseJob_def cl_verifyAlgorithm_def case_prod_beta split: job_reading.split option.split)

lemma expire_extension: "cl_expire s = 0 \<Longrightarrow> cl_expire (cl_extension e v s) = 0"
  by (cases "(e, v, s)" rule: cl_extension.cases) (simp_all add: Let_def)

lemma expire_parseExtensions: "cl_expire s = 0 \<Longrightarrow> cl_expire (cl_parseExtensions e v s) = 0"
proof -
  have "cl_expire s = 0 \<Longrightarrow> cl_expire (fold (cl_extension e) xs s) = 0" for xs s
    by (induction xs arbitrary: s) (simp_all add: expire_extension)
  then show "cl_expire s = 0 \<Longrightarrow> ?thesis" by (simp add: cl_parseExtensions_def Let_def split: option.split json.split)
qed

lemma expire_parseLogin: "cl_expire s = 0 \<Longrightarrow> cl_expire (snd (snd (cl_parseLogin e result code s))) = 0"
  unfolding cl_parseLogin_def Let_def case_prod_beta by (simp add: expire_parseExtensions)

lemma expire_parseNotification [simp]: "cl_expire (cl_parseNotification e m params s) = cl_expire s"
  by (simp add: cl_parseNotification_def case_prod_beta)

lemma expire_handleSubmitResponse [simp]: "cl_expire (snd (cl_handleSubmitResponse e i error s)) = cl_expire s"
  by (simp add: cl_handleSubmitResponse_def Let_def split: option.split)

lemma expire_handleResponse [simp]: "cl_expire (snd (cl_handleResponse e i result error s)) = cl_expire s"
  by (simp add: cl_handleResponse_def Let_def split: option.split json.split)

lemma expire_login_response: "cl_expire s = 0 \<Longrightarrow> cl_expire (login_response e result s) = 0"
  unfolding login_response_def Let_def case_prod_beta by (simp add: expire_parseLogin)

lemma expire_refuse_response [simp]: "cl_expire (refuse_response e i error s) = cl_expire s"
  by (simp add: refuse_response_def Let_def)

lemma expire_parseResponse: "cl_expire s = 0 \<Longrightarrow> cl_expire (cl_parseResponse e i result error s) = 0"
  unfolding cl_parseResponse_def Let_def case_prod_beta by (simp add: expire_login_response)

text \<open>Every line clears the deadline, unless it is \<open>client.reconnect\<close>.\<close>

lemma expire_parse:
  assumes "no_redirect e"
  shows "cl_expire (cl_parse e line s) = 0"
proof -
  have "getString doc ''method'' None \<noteq> Some ''client.reconnect''" if "ce_json e (c_string line) = Some doc" for doc
    using assms that by (auto simp: no_redirect_def)
  then show ?thesis
    by (auto simp: cl_parse_def Let_def expire_parseResponse split: option.split json.split)
qed

section \<open>A login that was sent\<close>

lemma login_sent:
  assumes "cl_state s = ConnectedState" "cl_socket s = Some h" "\<not> cl_isTLS s" "cl_listener s" "ce_writable e" "ce_accepts e"
    and size: "\<And>obj. length (ce_text e obj) \<le> kMaxSendBufferSize"
  shows "cl_state (cl_login e s) = ConnectedState" "cl_socket (cl_login e s) = Some h"
    "cl_expire (cl_login e s) = ce_now e + kResponseTimeout" "cl_keepAlive (cl_login e s) = cl_keepAlive s"
    "cl_listener (cl_login e s)" "cl_failures (cl_login e s) = cl_failures s" "cl_shut (cl_login e s) = cl_shut s"
    "cl_sequence (cl_login e s) = cl_sequence s + 1"
proof -
  define t where "t = cl_tell CcLogin (s\<lparr>cl_results := Map.empty\<rparr>)"
  define lp where "lp = ce_onLogin e ([], login_params t)"
  define obj where "obj = json_request (fst lp) 1 ''login'' (snd lp)"
  define u where "u = (let n = length (ce_text e obj); v = (if n > cl_sendBuf t - 2 then t\<lparr>cl_sendBuf := ((n + 1) div 1024 + 1) * 1024\<rparr> else t)
     in if n + 1 < cl_sendBuf v then v else cl_fault BufferOverread v)"
  have "\<not> length (ce_text e obj) > kMaxSendBufferSize" using size by (simp add: not_less)
  then have "cl_send e obj t = cl_send_size e (ce_text e obj @ [newline]) u"
    unfolding cl_send_def u_def Let_def by (simp only: if_False)
  then have l: "cl_login e s = snd (cl_send_size e (ce_text e obj @ [newline]) u)"
    unfolding cl_login_def Let_def case_prod_beta t_def [symmetric] lp_def [symmetric] obj_def [symmetric] by (rule arg_cong)
  have t: "cl_state t = ConnectedState" "cl_socket t = Some h" "cl_keepAlive t = cl_keepAlive s" "cl_listener t"
    "cl_failures t = cl_failures s" "cl_shut t = cl_shut s" "cl_sequence t = cl_sequence s" "\<not> cl_isTLS t"
    using assms by (simp_all add: t_def cl_tell_def cl_say_def cl_isTLS_def)
  have u: "cl_state u = ConnectedState" "cl_socket u = Some h" "cl_keepAlive u = cl_keepAlive s" "cl_listener u"
    "cl_failures u = cl_failures s" "cl_shut u = cl_shut s" "cl_sequence u = cl_sequence s" "\<not> cl_isTLS u"
    using t by (simp_all add: u_def Let_def cl_fault_def cl_isTLS_def)
  show "cl_state (cl_login e s) = ConnectedState" "cl_socket (cl_login e s) = Some h"
    "cl_expire (cl_login e s) = ce_now e + kResponseTimeout" "cl_keepAlive (cl_login e s) = cl_keepAlive s"
    "cl_listener (cl_login e s)" "cl_failures (cl_login e s) = cl_failures s" "cl_shut (cl_login e s) = cl_shut s"
    "cl_sequence (cl_login e s) = cl_sequence s + 1"
    using u assms(5,6) by (simp_all add: l cl_send_size_def cl_write_def cl_say_def Let_def)
qed

section \<open>The send buffer\<close>

lemma length_ping_text:
  "length (ping_text seq (Some i)) = 65 + length (dec_int seq) + length i"
  by (simp add: ping_text_def dquoted_def)

lemma resized_buffer: "n + 1 < ((n + 1) div 1024 + 1) * (1024 :: nat)"
proof -
  have "(n + 1) mod 1024 < (1024 :: nat)" by simp
  then show ?thesis using div_mult_mod_eq [of "n + 1" 1024] by (simp only: add_mult_distrib)
qed

lemma faults_mono:
  "set (cl_faults s) \<subseteq> set (cl_faults (snd (cl_close e s)))"
  "set (cl_faults s) \<subseteq> set (cl_faults (snd (cl_write e b s)))"
  "set (cl_faults s) \<subseteq> set (cl_faults (snd (cl_send_bio e s)))"
  "set (cl_faults s) \<subseteq> set (cl_faults (snd (tls_send e b s)))"
  "set (cl_faults s) \<subseteq> set (cl_faults (snd (cl_send_size e b s)))"
proof -
  have c: "cl_faults (snd (cl_close e s)) = cl_faults s" for s :: "'a client"
    by (simp add: cl_close_def cl_setState_def cl_say_def Let_def split: option.split)
  then show "set (cl_faults s) \<subseteq> set (cl_faults (snd (cl_close e s)))" by simp
  have w: "set (cl_faults s) \<subseteq> set (cl_faults (snd (cl_write e b s)))" for b and s :: "'a client"
    by (auto simp: cl_write_def Let_def c cl_fault_def cl_say_def)
  then show "set (cl_faults s) \<subseteq> set (cl_faults (snd (cl_write e b s)))" .
  have o: "set (cl_faults s) \<subseteq> set (cl_faults (snd (cl_send_bio e s)))" for s :: "'a client"
  proof -
    have "set (cl_faults s) \<subseteq> set (cl_faults (snd (cl_write e b (s\<lparr>cl_tls := t\<rparr>))))" for b t using w [of "s\<lparr>cl_tls := t\<rparr>" b] by simp
    then show ?thesis by (auto simp: cl_send_bio_def Let_def cl_fault_def split: option.split prod.split)
  qed
  then show "set (cl_faults s) \<subseteq> set (cl_faults (snd (cl_send_bio e s)))" .
  have t: "set (cl_faults s) \<subseteq> set (cl_faults (snd (tls_send e b s)))"
  proof -
    have "set (cl_faults s) \<subseteq> set (cl_faults (snd (cl_send_bio e (s\<lparr>cl_tls := t\<rparr>))))" for t using o [of "s\<lparr>cl_tls := t\<rparr>"] by simp
    then show ?thesis by (auto simp: tls_send_def cl_fault_def split: option.split)
  qed
  then show "set (cl_faults s) \<subseteq> set (cl_faults (snd (tls_send e b s)))" .
  show "set (cl_faults s) \<subseteq> set (cl_faults (snd (cl_send_size e b s)))"
    using w t by (simp add: cl_send_size_def Let_def case_prod_beta)
qed


lemma over_frame [simp]:
  "BufferOverread \<in> set (cl_faults (snd (cl_close e s))) \<longleftrightarrow> BufferOverread \<in> set (cl_faults s)"
  "cl_sendBuf (snd (cl_close e s)) = cl_sendBuf s"
  "BufferOverread \<in> set (cl_faults (snd (cl_write e b s))) \<longleftrightarrow> BufferOverread \<in> set (cl_faults s)"
  "cl_sendBuf (snd (cl_write e b s)) = cl_sendBuf s"
proof -
  show c: "BufferOverread \<in> set (cl_faults (snd (cl_close e s))) \<longleftrightarrow> BufferOverread \<in> set (cl_faults s)"
    "cl_sendBuf (snd (cl_close e s)) = cl_sendBuf s" for s :: "'a client"
    by (simp_all add: cl_close_def cl_setState_def cl_say_def Let_def split: option.split)
  show "BufferOverread \<in> set (cl_faults (snd (cl_write e b s))) \<longleftrightarrow> BufferOverread \<in> set (cl_faults s)"
    "cl_sendBuf (snd (cl_write e b s)) = cl_sendBuf s"
    by (simp_all add: cl_write_def Let_def c cl_fault_def cl_say_def)
qed


lemma over_bio [simp]:
  "BufferOverread \<in> set (cl_faults (snd (cl_send_bio e s))) \<longleftrightarrow> BufferOverread \<in> set (cl_faults s)"
  "cl_sendBuf (snd (cl_send_bio e s)) = cl_sendBuf s"
  by (simp_all add: cl_send_bio_def Let_def cl_fault_def split: option.split prod.split)


lemma over_send_size [simp]:
  "BufferOverread \<in> set (cl_faults (snd (cl_send_size e b s))) \<longleftrightarrow> BufferOverread \<in> set (cl_faults s)"
  "cl_sendBuf (snd (cl_send_size e b s)) = cl_sendBuf s"
  by (simp_all add: cl_send_size_def tls_send_def Let_def case_prod_beta cl_fault_def split: option.split)


text \<open>The log only grows.\<close>

lemma log_close: "set (cl_log s) \<subseteq> set (cl_log (snd (cl_close e s)))"
  by (auto simp: cl_close_def cl_setState_def cl_say_def Let_def split: option.split)

lemma log_write: "set (cl_log s) \<subseteq> set (cl_log (snd (cl_write e b s)))"
  using log_close [of s e] log_close [of "cl_fault NullSocket s" e] by (auto simp: cl_write_def Let_def cl_fault_def cl_say_def)

lemma log_send_bio: "set (cl_log s) \<subseteq> set (cl_log (snd (cl_send_bio e s)))"
proof -
  have "set (cl_log s) \<subseteq> set (cl_log (snd (cl_write e b (s\<lparr>cl_tls := t\<rparr>))))" for b t using log_write [of "s\<lparr>cl_tls := t\<rparr>" e b] by simp
  then show ?thesis by (auto simp: cl_send_bio_def Let_def cl_fault_def split: option.split prod.split)
qed

lemma log_send_size: "set (cl_log s) \<subseteq> set (cl_log (snd (cl_send_size e b s)))"
proof -
  have "set (cl_log s) \<subseteq> set (cl_log (snd (cl_send_bio e (s\<lparr>cl_tls := t\<rparr>))))" for t using log_send_bio [of "s\<lparr>cl_tls := t\<rparr>" e] by simp
  then have "set (cl_log s) \<subseteq> set (cl_log (snd (tls_send e b s)))" by (auto simp: tls_send_def cl_fault_def split: option.split)
  then show ?thesis using log_write [of s e b] by (simp add: cl_send_size_def Let_def case_prod_beta)
qed

lemma log_send: "set (cl_log s) \<subseteq> set (cl_log (snd (cl_send e obj s)))"
proof (cases "length (ce_text e obj) > kMaxSendBufferSize")
  case True
  show ?thesis unfolding cl_send_def Let_def if_P [OF True] snd_conv by (rule log_close)
next
  case False
  have "set (cl_log s) \<subseteq> set (cl_log (snd (cl_send_size e b (if c then x else cl_fault BufferOverread x))))" if "cl_log x = cl_log s" for b c x
    using log_send_size [of x e b] log_send_size [of "cl_fault BufferOverread x" e b] that by (auto simp: cl_fault_def)
  note sent = this
  show ?thesis unfolding cl_send_def Let_def if_not_P [OF False] by (rule sent) simp
qed

lemma login_logged: "cl_listener s \<Longrightarrow> CcLogin \<in> set (cl_log (cl_login e s))"
proof -
  assume "cl_listener s"
  then have "CcLogin \<in> set (cl_log (cl_tell CcLogin (s\<lparr>cl_results := Map.empty\<rparr>)))" by (simp add: cl_tell_def cl_say_def)
  then show ?thesis unfolding cl_login_def Let_def case_prod_beta using log_send by blast
qed

section \<open>Jobs\<close>

lemma setters_keep:
  "setBlob b j = (ok, j') \<Longrightarrow> j_id j' = j_id j \<and> j_clientId j' = j_clientId j \<and> j_algorithm j' = j_algorithm j \<and>
     (ok \<longrightarrow> b = Some (j_rawBlob j') \<and> 2 * j_size j' = length (j_rawBlob j'))"
  "setTarget b j = Some (ok, j') \<Longrightarrow> j_id j' = j_id j \<and> j_clientId j' = j_clientId j \<and> j_algorithm j' = j_algorithm j \<and>
     j_rawBlob j' = j_rawBlob j \<and> j_size j' = j_size j \<and> (ok \<longrightarrow> j_target j' \<noteq> 0 \<and> j_diff j' = toDiff (j_target j'))"
  by (auto simp: setBlob_def setTarget_def Let_def split: option.splits if_splits prod.splits)


lemma read_job_result:
  assumes "read_job p nh rpcId params = JobRead j"
  shows "j_id j = getString params ''job_id'' None \<and> j_id j \<noteq> None \<and> j_clientId j = rpcId \<and>
    j_target j \<noteq> 0 \<and> j_diff j = toDiff (j_target j) \<and>
    (pl_mode p \<noteq> MODE_SELF_SELECT \<longrightarrow> getString params ''blob'' None = Some (j_rawBlob j) \<and> 2 * j_size j = length (j_rawBlob j))"
  using assms unfolding read_job_def job_setId_def Let_def
  by (auto simp: job_new_def split: if_splits prod.splits option.splits dest!: setters_keep)


lemma read_seed_result:
  assumes "read_seed p params j = Some j'"
  shows "j_id j' = j_id j \<and> j_clientId j' = j_clientId j \<and> j_target j' = j_target j \<and> j_diff j' = j_diff j \<and>
    j_rawBlob j' = j_rawBlob j \<and> j_size j' = j_size j \<and> j_algorithm j' = j_algorithm j \<and>
    (pl_mode p \<noteq> MODE_SELF_SELECT \<and> algo_family (j_algorithm j) = FAM_RANDOM_X \<longrightarrow>
       j_rawSeedHash j' = getString params ''seed_hash'' None \<and> str_size (j_rawSeedHash j') = 64)"
  using assms unfolding read_seed_def
  by (auto simp: Let_def setSeedHash_def setSigKey_def kMaxSeedSize_def str_size_def split: if_splits prod.splits option.splits)


section \<open>SOCKS5\<close>

text \<open>How a SOCKS5 server (RFC 1928) reads a request for a domain name.\<close>

definition socks5_server :: "u8 list \<Rightarrow> (string \<times> u16) option" where
  "socks5_server req =
     (if take 4 req = [5, 1, 0, 3] \<and> length req > 4 then
        let n = unat (req ! 4); host = take n (drop 5 req); port = drop (5 + n) req in
        if length host = n \<and> length port = 2 then
          Some (map char_of_byte host, push_bit 8 (ucast (port ! 0)) OR ucast (port ! 1))
        else None
      else None)"

section \<open>An environment\<close>

definition eg_ssl :: "unit ssl_lib" where
  "eg_ssl = \<lparr>ssl_start = (\<lambda>n. ()), ssl_write = (\<lambda>t c. ()), ssl_feed = (\<lambda>t c. ()), ssl_finished = (\<lambda>c. False),
     ssl_connect = (\<lambda>c. (HandshakeDone, ())), ssl_digest = (\<lambda>c. Some (replicate 32 0)), ssl_read = (\<lambda>c. ([], ())),
     ssl_output = (\<lambda>c. ([], ()))\<rparr>"

definition eg_cenv :: "u64 \<Rightarrow> json \<Rightarrow> unit client_env" where
  "eg_cenv now doc = \<lparr>ce_now = now, ce_writable = True, ce_accepts = True, ce_text = (\<lambda>v. ''{}''), ce_json = (\<lambda>l. Some doc),
     ce_onLogin = id, ce_verify = (\<lambda>a. True), ce_var = (\<lambda>n. None), ce_ipv4 = (\<lambda>h. None), ce_ipv6 = (\<lambda>h. None), ce_ssl = eg_ssl\<rparr>"

definition eg_client :: "unit client" where
  "eg_client = (cl_new 0 ''agent'' 1)\<lparr>cl_state := ConnectedState, cl_socket := Some 0, cl_handles := 1, cl_live := [0]\<rparr>"

text \<open>A run: connect, resolve, connected, disconnect, closed.\<close>

definition eg_client_run :: "(unit client_env \<times> unit client_event) list" where
  "eg_client_run = map (\<lambda>x. (eg_cenv 7 JsNull, x))
     [EvConnect, EvResolved (Some ''10.0.0.1'') 0, EvOnConnect 0 0, EvDisconnect, EvClosed 0]"

lemma eg_no_redirect: "no_redirect (eg_cenv now JsNull)"
  by (simp add: no_redirect_def eg_cenv_def getString_def json_find_def)

lemmas eg_client_defs = cl_new_def cl_connect_def cl_resolve_def proxy_isValid_def pool_of_url_def pool_isTLS_def url_new_def
  proxy_new_def cl_setState_def cl_say_def cl_tell_def cl_onResolved_def cl_connect_addr_def cl_onConnect_def cl_handshake_def
  cl_isTLS_def cl_login_def cl_send_def cl_send_size_def cl_write_def cl_disconnect_def cl_close_def cl_onClose_def
  cl_reconnect_def lr_reset_def lr_new_def kMaxSendBufferSize_def eg_cenv_def Let_def

lemma eg_client_ok: "run_ok cl_guard cl_step (cl_new 0 ''agent'' 1) eg_client_run"
  by (simp add: eg_client_run_def cl_guard_def eg_no_redirect) (simp add: eg_client_defs)

text \<open>A line, and what the parser makes of it: a refused login, a redirection.\<close>

definition eg_line :: string where
  "eg_line = CHR ''{'' # replicate 30 (CHR '' '')"

definition eg_refusal :: json where
  "eg_refusal = JsObject [(''id'', JsInt 1), (''error'', JsObject [(''message'', JsString ''No wallet'')])]"

definition eg_redirect :: json where
  "eg_redirect = JsObject [(''method'', JsString ''client.reconnect''), (''params'', JsArray [JsString ''a.b'', JsString ''1''])]"

text \<open>A job for a client that selects its own transactions.\<close>

definition eg_solo :: "unit client" where
  "eg_solo = eg_client\<lparr>cl_pool := (cl_pool eg_client)\<lparr>pl_mode := MODE_SELF_SELECT\<rparr>, cl_rpcId := Some ''r''\<rparr>"

definition eg_params :: json where
  "eg_params = JsObject [(''job_id'', JsString ''j''), (''algo'', JsString ''rx/0''), (''extra_nonce'', JsString ''e''),
     (''pool_wallet'', JsString ''w''), (''target'', JsString ''b88d0600'')]"

lemma eg_params_ok: "fst (cl_parseJob (eg_cenv 5 JsNull) eg_params (- 1) eg_solo)"
proof -
  have a: "algo_parse (Some ''rx/0'') = RX_0" "algo_isValid RX_0" by code_simp+
  have t: "parse_target ''b88d0600'' RX_0 = Some 1844674407370955" "toDiff 1844674407370955 \<noteq> 0" by code_simp+
  show ?thesis
    by (simp add: cl_parseJob_def read_job_def read_seed_def take_job_def eg_params_def eg_solo_def eg_client_def cl_new_def
        is_object_def getString_def getUint64_def get_number_def json_find_def c_string_def job_setId_def job_new_def job_default_def
        job_algorithm_def str_isNull_def setTarget_def str_size_def a t kRawTargetSize_def cl_verifyAlgorithm_def eg_cenv_def
        setSigKey_def job_isEqual_def str_isEqual_def cl_tell_def cl_say_def Let_def)
qed

lemma hex_of_zeros: "cvt_bin2hex_loop (replicate n 0) = replicate (2 * n) (CHR ''0'')"
proof -
  have "char_of_byte (hex_digit 0) = CHR ''0''" by code_simp
  then show ?thesis by (induction n) simp_all
qed

text \<open>A client of a pinned pool, and the events up to the end of the handshake.\<close>

definition eg_pinned :: "unit client" where
  "eg_pinned = (cl_new 0 ''agent'' 1)\<lparr>cl_pool := (cl_pool eg_client)\<lparr>pl_tls := True,
     pl_fingerprint := Some (replicate 64 (CHR ''0''))\<rparr>\<rparr>"

definition eg_pinned_run :: "(unit client_env \<times> unit client_event) list" where
  "eg_pinned_run = map (\<lambda>x. (eg_cenv 7 JsNull, x)) [EvResolved (Some ''10.0.0.1'') 0, EvOnConnect 0 0]"

definition eg_handshake :: "unit client" where
  "eg_handshake = run cl_step (cl_connect (eg_cenv 7 JsNull) eg_pinned) eg_pinned_run"

lemma eg_handshake_state:
  "cl_tls eg_handshake = Some (tls_new\<lparr>tl_ssl := Some ()\<rparr>)" "cl_socks5 eg_handshake = None" "cl_listener eg_handshake" "\<not> cl_gone eg_handshake"
  "cl_pool eg_handshake = cl_pool eg_pinned" "CcLogin \<notin> set (cl_log eg_handshake)" "cl_socket eg_handshake = Some 0"
  by (simp_all add: eg_handshake_def eg_pinned_run_def eg_pinned_def eg_client_def)
    (simp_all add: eg_client_defs tls_handshake_def cl_send_bio_def eg_ssl_def)

lemma eg_pinned_login: "login_count (cl_log eg_handshake) < login_count (cl_log (cl_step eg_handshake (eg_cenv 8 JsNull, EvRead 0 (Some ''x''))))"
proof -
  let ?v = "tls_verify (Some (replicate 32 0)) (Some (replicate 64 (CHR ''0''))) (tls_new\<lparr>tl_ssl := Some ()\<rparr>)"
  have f: "fst ?v"
    using hex_of_zeros [of 32] by (simp add: tls_verify_def Let_def fingerprint_ok_def toHex_buf_def cvt_bin2hex_def)
  have p: "pl_fingerprint (cl_pool eg_pinned) = Some (replicate 64 (CHR ''0''))" "pool_isTLS (cl_pool eg_pinned)"
    by (simp_all add: eg_pinned_def pool_isTLS_def)
  have "cl_step eg_handshake (eg_cenv 8 JsNull, EvRead 0 (Some ''x'')) =
      cl_login (eg_cenv 8 JsNull) (eg_handshake\<lparr>cl_tls := Some ((snd ?v)\<lparr>tl_ready := True\<rparr>)\<rparr>)"
    using f p eg_handshake_state(1-5)
    by (simp add: cl_read_def cl_isTLS_def tls_read_def eg_cenv_def eg_ssl_def case_prod_beta Let_def)
  moreover have "cl_listener (eg_handshake\<lparr>cl_tls := t\<rparr>)" for t using eg_handshake_state(3) by simp
  ultimately have "CcLogin \<in> set (cl_log (cl_step eg_handshake (eg_cenv 8 JsNull, EvRead 0 (Some ''x''))))" by (simp add: login_logged)
  moreover have "login_count l = 0 \<longleftrightarrow> CcLogin \<notin> set l" for l by (auto simp: login_count_def filter_empty_conv)
  ultimately show ?thesis using eg_handshake_state(6) by (metis gr_zeroI)
qed

end
