(* ===== verification/Field25519.thy ===== *)
theory Field25519 imports Prelude "HOL-Library.Word"
begin

text \<open>
  The field arithmetic of src/src/base/tools/cryptonote/crypto-ops.c: elements of GF(2^255-19) in
  ten signed limbs of alternately 26 and 25 bits.  The 32- and 64-bit signed integers of the code
  are mathematical integers here; FieldBounds shows that under the preconditions the code states the
  factors prepared in 32 bits, the 64-bit sums and the carries stay in their machine types, so no
  wrap-around (which C leaves undefined for signed types) is lost.  A right shift is \<^const>\<open>divide\<close> by the power
  of two (arithmetic shift), a left shift multiplication by it.
\<close>

section \<open>Limbs\<close>

datatype fe = Fe int int int int int int int int int int

text \<open>The integer an element stands for, and the prime.\<close>

definition p25519 :: int where
  "p25519 = 2 ^ 255 - 19"

primrec fe_val :: "fe \<Rightarrow> int" where
  "fe_val (Fe h0 h1 h2 h3 h4 h5 h6 h7 h8 h9) =
    h0 + 2 ^ 26 * h1 + 2 ^ 51 * h2 + 2 ^ 77 * h3 + 2 ^ 102 * h4 + 2 ^ 128 * h5 + 2 ^ 153 * h6
    + 2 ^ 179 * h7 + 2 ^ 204 * h8 + 2 ^ 230 * h9"

definition fe_mod :: "fe \<Rightarrow> int" where
  "fe_mod f = fe_val f mod p25519"

section \<open>Additive operations\<close>

definition fe_0 :: fe where
  "fe_0 = Fe 0 0 0 0 0 0 0 0 0 0"

definition fe_1 :: fe where
  "fe_1 = Fe 1 0 0 0 0 0 0 0 0 0"

definition fe_add :: "fe \<Rightarrow> fe \<Rightarrow> fe" where
  "fe_add f g = (case (f, g) of
    (Fe f0 f1 f2 f3 f4 f5 f6 f7 f8 f9, Fe g0 g1 g2 g3 g4 g5 g6 g7 g8 g9) \<Rightarrow>
    Fe (f0 + g0) (f1 + g1) (f2 + g2) (f3 + g3) (f4 + g4) (f5 + g5)
      (f6 + g6) (f7 + g7) (f8 + g8) (f9 + g9))"

definition fe_sub :: "fe \<Rightarrow> fe \<Rightarrow> fe" where
  "fe_sub f g = (case (f, g) of
    (Fe f0 f1 f2 f3 f4 f5 f6 f7 f8 f9, Fe g0 g1 g2 g3 g4 g5 g6 g7 g8 g9) \<Rightarrow>
    Fe (f0 - g0) (f1 - g1) (f2 - g2) (f3 - g3) (f4 - g4) (f5 - g5)
      (f6 - g6) (f7 - g7) (f8 - g8) (f9 - g9))"

definition fe_neg :: "fe \<Rightarrow> fe" where
  "fe_neg f = (case f of Fe f0 f1 f2 f3 f4 f5 f6 f7 f8 f9 \<Rightarrow>
    Fe (- f0) (- f1) (- f2) (- f3) (- f4) (- f5)
      (- f6) (- f7) (- f8) (- f9))"

text \<open>
  fe_cmov works on the two's complement words: \<^term>\<open>limb_cmov\<close> is the pair of xors of one limb, under
  the mask -b, which is zero or all ones.
\<close>

definition limb_cmov :: "32 word \<Rightarrow> int \<Rightarrow> int \<Rightarrow> int" where
  "limb_cmov b f g =
    (let x = xor (word_of_int f) (word_of_int g) :: 32 word;
         x = and x (- b)
     in sint (xor (word_of_int f) x))"

definition fe_cmov :: "fe \<Rightarrow> fe \<Rightarrow> 32 word \<Rightarrow> fe" where
  "fe_cmov f g b = (case (f, g) of
    (Fe f0 f1 f2 f3 f4 f5 f6 f7 f8 f9, Fe g0 g1 g2 g3 g4 g5 g6 g7 g8 g9) \<Rightarrow>
    Fe (limb_cmov b f0 g0) (limb_cmov b f1 g1) (limb_cmov b f2 g2) (limb_cmov b f3 g3) (limb_cmov b f4 g4)
      (limb_cmov b f5 g5) (limb_cmov b f6 g6) (limb_cmov b f7 g7) (limb_cmov b f8 g8) (limb_cmov b f9 g9))"

section \<open>The carry chain\<close>

text \<open>One line of the chain: the rounded carry of a limb of b bits, taken from it and added to the next;
  the carry of the top limb wraps to the bottom one, times 19.\<close>

definition limb_carry :: "nat \<Rightarrow> int \<Rightarrow> int" where
  "limb_carry b h = (h + 2 ^ (b - 1)) div 2 ^ b"

primrec fe_c0 :: "fe \<Rightarrow> fe" where
  "fe_c0 (Fe h0 h1 h2 h3 h4 h5 h6 h7 h8 h9) =
    (let c = limb_carry 26 h0
     in Fe (h0 - c * 2 ^ 26) (h1 + c) h2 h3 h4 h5 h6 h7 h8 h9)"

primrec fe_c1 :: "fe \<Rightarrow> fe" where
  "fe_c1 (Fe h0 h1 h2 h3 h4 h5 h6 h7 h8 h9) =
    (let c = limb_carry 25 h1
     in Fe h0 (h1 - c * 2 ^ 25) (h2 + c) h3 h4 h5 h6 h7 h8 h9)"

primrec fe_c2 :: "fe \<Rightarrow> fe" where
  "fe_c2 (Fe h0 h1 h2 h3 h4 h5 h6 h7 h8 h9) =
    (let c = limb_carry 26 h2
     in Fe h0 h1 (h2 - c * 2 ^ 26) (h3 + c) h4 h5 h6 h7 h8 h9)"

primrec fe_c3 :: "fe \<Rightarrow> fe" where
  "fe_c3 (Fe h0 h1 h2 h3 h4 h5 h6 h7 h8 h9) =
    (let c = limb_carry 25 h3
     in Fe h0 h1 h2 (h3 - c * 2 ^ 25) (h4 + c) h5 h6 h7 h8 h9)"

primrec fe_c4 :: "fe \<Rightarrow> fe" where
  "fe_c4 (Fe h0 h1 h2 h3 h4 h5 h6 h7 h8 h9) =
    (let c = limb_carry 26 h4
     in Fe h0 h1 h2 h3 (h4 - c * 2 ^ 26) (h5 + c) h6 h7 h8 h9)"

primrec fe_c5 :: "fe \<Rightarrow> fe" where
  "fe_c5 (Fe h0 h1 h2 h3 h4 h5 h6 h7 h8 h9) =
    (let c = limb_carry 25 h5
     in Fe h0 h1 h2 h3 h4 (h5 - c * 2 ^ 25) (h6 + c) h7 h8 h9)"

primrec fe_c6 :: "fe \<Rightarrow> fe" where
  "fe_c6 (Fe h0 h1 h2 h3 h4 h5 h6 h7 h8 h9) =
    (let c = limb_carry 26 h6
     in Fe h0 h1 h2 h3 h4 h5 (h6 - c * 2 ^ 26) (h7 + c) h8 h9)"

primrec fe_c7 :: "fe \<Rightarrow> fe" where
  "fe_c7 (Fe h0 h1 h2 h3 h4 h5 h6 h7 h8 h9) =
    (let c = limb_carry 25 h7
     in Fe h0 h1 h2 h3 h4 h5 h6 (h7 - c * 2 ^ 25) (h8 + c) h9)"

primrec fe_c8 :: "fe \<Rightarrow> fe" where
  "fe_c8 (Fe h0 h1 h2 h3 h4 h5 h6 h7 h8 h9) =
    (let c = limb_carry 26 h8
     in Fe h0 h1 h2 h3 h4 h5 h6 h7 (h8 - c * 2 ^ 26) (h9 + c))"

primrec fe_c9 :: "fe \<Rightarrow> fe" where
  "fe_c9 (Fe h0 h1 h2 h3 h4 h5 h6 h7 h8 h9) =
    (let c = limb_carry 25 h9
     in Fe (h0 + c * 19) h1 h2 h3 h4 h5 h6 h7 h8 (h9 - c * 2 ^ 25))"

text \<open>The twelve carries of fe_mul, fe_sq and fe_sq2, in their order.\<close>

definition fe_carry_steps :: "(fe \<Rightarrow> fe) list" where
  "fe_carry_steps =
    [fe_c0, fe_c4, fe_c1, fe_c5, fe_c2, fe_c6, fe_c3, fe_c7, fe_c4, fe_c8, fe_c9, fe_c0]"

definition fe_carry :: "fe \<Rightarrow> fe" where
  "fe_carry h = fold (\<lambda>c. c) fe_carry_steps h"

section \<open>Multiplication and squaring\<close>

definition fe_mul_wide :: "fe \<Rightarrow> fe \<Rightarrow> fe" where
  "fe_mul_wide f g = (case (f, g) of
    (Fe f0 f1 f2 f3 f4 f5 f6 f7 f8 f9, Fe g0 g1 g2 g3 g4 g5 g6 g7 g8 g9) \<Rightarrow>
    (let g1_19 = 19 * g1; g2_19 = 19 * g2; g3_19 = 19 * g3; g4_19 = 19 * g4;
         g5_19 = 19 * g5; g6_19 = 19 * g6; g7_19 = 19 * g7; g8_19 = 19 * g8;
         g9_19 = 19 * g9; f1_2 = 2 * f1; f3_2 = 2 * f3; f5_2 = 2 * f5; f7_2 = 2 * f7;
         f9_2 = 2 * f9
     in Fe
      (f0 * g0 + f1_2 * g9_19 + f2 * g8_19 + f3_2 * g7_19 + f4 * g6_19 + f5_2 * g5_19
        + f6 * g4_19 + f7_2 * g3_19 + f8 * g2_19 + f9_2 * g1_19)
      (f0 * g1 + f1 * g0 + f2 * g9_19 + f3 * g8_19 + f4 * g7_19 + f5 * g6_19 + f6 * g5_19
        + f7 * g4_19 + f8 * g3_19 + f9 * g2_19)
      (f0 * g2 + f1_2 * g1 + f2 * g0 + f3_2 * g9_19 + f4 * g8_19 + f5_2 * g7_19 + f6 * g6_19
        + f7_2 * g5_19 + f8 * g4_19 + f9_2 * g3_19)
      (f0 * g3 + f1 * g2 + f2 * g1 + f3 * g0 + f4 * g9_19 + f5 * g8_19 + f6 * g7_19 + f7 * g6_19
        + f8 * g5_19 + f9 * g4_19)
      (f0 * g4 + f1_2 * g3 + f2 * g2 + f3_2 * g1 + f4 * g0 + f5_2 * g9_19 + f6 * g8_19
        + f7_2 * g7_19 + f8 * g6_19 + f9_2 * g5_19)
      (f0 * g5 + f1 * g4 + f2 * g3 + f3 * g2 + f4 * g1 + f5 * g0 + f6 * g9_19 + f7 * g8_19
        + f8 * g7_19 + f9 * g6_19)
      (f0 * g6 + f1_2 * g5 + f2 * g4 + f3_2 * g3 + f4 * g2 + f5_2 * g1 + f6 * g0 + f7_2 * g9_19
        + f8 * g8_19 + f9_2 * g7_19)
      (f0 * g7 + f1 * g6 + f2 * g5 + f3 * g4 + f4 * g3 + f5 * g2 + f6 * g1 + f7 * g0
        + f8 * g9_19 + f9 * g8_19)
      (f0 * g8 + f1_2 * g7 + f2 * g6 + f3_2 * g5 + f4 * g4 + f5_2 * g3 + f6 * g2 + f7_2 * g1
        + f8 * g0 + f9_2 * g9_19)
      (f0 * g9 + f1 * g8 + f2 * g7 + f3 * g6 + f4 * g5 + f5 * g4 + f6 * g3 + f7 * g2 + f8 * g1
        + f9 * g0)))"

definition fe_mul :: "fe \<Rightarrow> fe \<Rightarrow> fe" where
  "fe_mul f g = fe_carry (fe_mul_wide f g)"

definition fe_sq_wide :: "fe \<Rightarrow> fe" where
  "fe_sq_wide f = (case f of Fe f0 f1 f2 f3 f4 f5 f6 f7 f8 f9 \<Rightarrow>
    (let f0_2 = 2 * f0; f1_2 = 2 * f1; f2_2 = 2 * f2; f3_2 = 2 * f3; f4_2 = 2 * f4;
         f5_2 = 2 * f5; f6_2 = 2 * f6; f7_2 = 2 * f7; f5_38 = 38 * f5; f6_19 = 19 * f6;
         f7_38 = 38 * f7; f8_19 = 19 * f8; f9_38 = 38 * f9
     in Fe
      (f0 * f0 + f1_2 * f9_38 + f2_2 * f8_19 + f3_2 * f7_38 + f4_2 * f6_19 + f5 * f5_38)
      (f0_2 * f1 + f2 * f9_38 + f3_2 * f8_19 + f4 * f7_38 + f5_2 * f6_19)
      (f0_2 * f2 + f1_2 * f1 + f3_2 * f9_38 + f4_2 * f8_19 + f5_2 * f7_38 + f6 * f6_19)
      (f0_2 * f3 + f1_2 * f2 + f4 * f9_38 + f5_2 * f8_19 + f6 * f7_38)
      (f0_2 * f4 + f1_2 * f3_2 + f2 * f2 + f5_2 * f9_38 + f6_2 * f8_19 + f7 * f7_38)
      (f0_2 * f5 + f1_2 * f4 + f2_2 * f3 + f6 * f9_38 + f7_2 * f8_19)
      (f0_2 * f6 + f1_2 * f5_2 + f2_2 * f4 + f3_2 * f3 + f7_2 * f9_38 + f8 * f8_19)
      (f0_2 * f7 + f1_2 * f6 + f2_2 * f5 + f3_2 * f4 + f8 * f9_38)
      (f0_2 * f8 + f1_2 * f7_2 + f2_2 * f6 + f3_2 * f5_2 + f4 * f4 + f9 * f9_38)
      (f0_2 * f9 + f1_2 * f8 + f2_2 * f7 + f3_2 * f6 + f4_2 * f5)))"

definition fe_sq :: "fe \<Rightarrow> fe" where
  "fe_sq f = fe_carry (fe_sq_wide f)"

text \<open>fe_sq2 doubles the ten sums before the carries.\<close>

definition fe_sq2 :: "fe \<Rightarrow> fe" where
  "fe_sq2 f = (let h = fe_sq_wide f in fe_carry (fe_add h h))"

section \<open>Values modulo the prime\<close>

named_theorems fe_mods \<open>values of the field operations modulo the prime\<close>

lemma fe_add_val: "fe_val (fe_add f g) = fe_val f + fe_val g"
  by (cases f; cases g) (simp add: fe_add_def algebra_simps)

lemma fe_sub_val: "fe_val (fe_sub f g) = fe_val f - fe_val g"
  by (cases f; cases g) (simp add: fe_sub_def algebra_simps)

lemma fe_neg_val: "fe_val (fe_neg f) = - fe_val f"
  by (cases f) (simp add: fe_neg_def algebra_simps)

lemma fe_0_val: "fe_val fe_0 = 0"
  by (simp add: fe_0_def)

lemma fe_1_val: "fe_val fe_1 = 1"
  by (simp add: fe_1_def)

text \<open>The schoolbook product, with what runs over 2^255 folded back times 19: it differs from the product
  of the values by a multiple of the prime.\<close>

definition mul_excess :: "fe \<Rightarrow> fe \<Rightarrow> int" where
  "mul_excess f g = (case (f, g) of
    (Fe f0 f1 f2 f3 f4 f5 f6 f7 f8 f9, Fe g0 g1 g2 g3 g4 g5 g6 g7 g8 g9) \<Rightarrow>
    f1 * (2 ^ 1 * g9)
    + f2 * (g8 + 2 ^ 26 * g9)
    + f3 * (2 ^ 1 * g7 + 2 ^ 26 * g8 + 2 ^ 52 * g9)
    + f4 * (g6 + 2 ^ 26 * g7 + 2 ^ 51 * g8 + 2 ^ 77 * g9)
    + f5 * (2 ^ 1 * g5 + 2 ^ 26 * g6 + 2 ^ 52 * g7 + 2 ^ 77 * g8 + 2 ^ 103 * g9)
    + f6 * (g4 + 2 ^ 26 * g5 + 2 ^ 51 * g6 + 2 ^ 77 * g7 + 2 ^ 102 * g8 + 2 ^ 128 * g9)
    + f7 * (2 ^ 1 * g3 + 2 ^ 26 * g4 + 2 ^ 52 * g5 + 2 ^ 77 * g6 + 2 ^ 103 * g7 + 2 ^ 128 * g8
         + 2 ^ 154 * g9)
    + f8 * (g2 + 2 ^ 26 * g3 + 2 ^ 51 * g4 + 2 ^ 77 * g5 + 2 ^ 102 * g6 + 2 ^ 128 * g7 + 2 ^ 153 * g8
         + 2 ^ 179 * g9)
    + f9 * (2 ^ 1 * g1 + 2 ^ 26 * g2 + 2 ^ 52 * g3 + 2 ^ 77 * g4 + 2 ^ 103 * g5 + 2 ^ 128 * g6
         + 2 ^ 154 * g7 + 2 ^ 179 * g8 + 2 ^ 205 * g9))"

lemma fe_mul_wide_excess:
  "fe_val f * fe_val g = fe_val (fe_mul_wide f g) + mul_excess f g * p25519"
proof (cases f, cases g)
  fix f0 f1 f2 f3 f4 f5 f6 f7 f8 f9 g0 g1 g2 g3 g4 g5 g6 g7 g8 g9
  assume fg: "f = Fe f0 f1 f2 f3 f4 f5 f6 f7 f8 f9" "g = Fe g0 g1 g2 g3 g4 g5 g6 g7 g8 g9"
  show ?thesis
    unfolding fg fe_mul_wide_def mul_excess_def p25519_def fe.case prod.case Let_def fe_val.simps
    by algebra
qed

lemma fe_sq_wide_mul: "fe_sq_wide f = fe_mul_wide f f"
proof (cases f)
  fix f0 f1 f2 f3 f4 f5 f6 f7 f8 f9
  assume f: "f = Fe f0 f1 f2 f3 f4 f5 f6 f7 f8 f9"
  show ?thesis
    unfolding f fe_sq_wide_def fe_mul_wide_def Let_def fe.case prod.case fe.inject
    by (intro conjI; algebra)
qed

lemma fe_c_val:
  "fe_val (fe_c0 h) = fe_val h" "fe_val (fe_c1 h) = fe_val h" "fe_val (fe_c2 h) = fe_val h"
  "fe_val (fe_c3 h) = fe_val h" "fe_val (fe_c4 h) = fe_val h" "fe_val (fe_c5 h) = fe_val h"
  "fe_val (fe_c6 h) = fe_val h" "fe_val (fe_c7 h) = fe_val h" "fe_val (fe_c8 h) = fe_val h"
  by (cases h; simp add: Let_def algebra_simps)+

lemma fe_c9_mod: "fe_val (fe_c9 h) mod p25519 = fe_val h mod p25519"
proof -
  have "fe_val (fe_c9 h) = fe_val h - p25519 * (case h of Fe h0 h1 h2 h3 h4 h5 h6 h7 h8 h9 \<Rightarrow> limb_carry 25 h9)"
    by (cases h) (simp add: Let_def p25519_def algebra_simps)
  then show ?thesis by (simp add: mod_diff_right_eq [symmetric])
qed

lemma fe_carry_mod: "fe_val (fe_carry h) mod p25519 = fe_val h mod p25519"
  by (simp add: fe_carry_def fe_carry_steps_def fe_c_val fe_c9_mod)

lemma fe_mod_add [fe_mods]: "fe_mod (fe_add f g) = (fe_mod f + fe_mod g) mod p25519"
  by (simp add: fe_mod_def fe_add_val mod_add_eq)

lemma fe_mod_sub [fe_mods]: "fe_mod (fe_sub f g) = (fe_mod f - fe_mod g) mod p25519"
  by (simp add: fe_mod_def fe_sub_val mod_diff_eq)

lemma fe_mod_neg [fe_mods]: "fe_mod (fe_neg f) = (- fe_mod f) mod p25519"
  by (simp add: fe_mod_def fe_neg_val mod_minus_eq)

lemma fe_mod_0 [fe_mods]: "fe_mod fe_0 = 0"
  by (simp add: fe_mod_def fe_0_val)

lemma fe_mod_1 [fe_mods]: "fe_mod fe_1 = 1"
  by (simp add: fe_mod_def fe_1_val p25519_def)

lemma fe_mul_wide_mod: "fe_val (fe_mul_wide f g) mod p25519 = fe_val f * fe_val g mod p25519"
  by (simp add: fe_mul_wide_excess)

lemma fe_mod_mul [fe_mods]: "fe_mod (fe_mul f g) = fe_mod f * fe_mod g mod p25519"
  by (simp add: fe_mod_def fe_mul_def fe_carry_mod fe_mul_wide_mod mod_mult_eq)

lemma fe_mod_sq [fe_mods]: "fe_mod (fe_sq f) = (fe_mod f)\<^sup>2 mod p25519"
  by (simp add: fe_mod_def fe_sq_def fe_carry_mod fe_sq_wide_mul fe_mul_wide_mod mod_mult_eq
      power2_eq_square)

lemma fe_mod_sq2 [fe_mods]: "fe_mod (fe_sq2 f) = 2 * (fe_mod f)\<^sup>2 mod p25519"
proof -
  have "fe_mod (fe_sq2 f) = 2 * fe_val (fe_mul_wide f f) mod p25519"
    by (simp add: fe_mod_def fe_sq2_def Let_def fe_carry_mod fe_add_val fe_sq_wide_mul)
  also have "\<dots> = 2 * (fe_val (fe_mul_wide f f) mod p25519) mod p25519"
    by (rule mod_mult_right_eq [symmetric])
  also have "\<dots> = 2 * (fe_val f * fe_val f) mod p25519"
    by (simp add: fe_mul_wide_mod mod_mult_right_eq)
  also have "\<dots> = 2 * (fe_mod f)\<^sup>2 mod p25519"
    unfolding fe_mod_def power2_eq_square
    by (metis mod_mult_eq mod_mult_right_eq)
  finally show ?thesis .
qed

lemma fe_mod_range: "0 \<le> fe_mod f" "fe_mod f < p25519"
  by (simp_all add: fe_mod_def p25519_def)

lemma fe_mod_mod [simp]: "fe_mod f mod p25519 = fe_mod f"
  by (simp add: fe_mod_def)

section \<open>Powers: fe_invert and fe_divpowm1\<close>

text \<open>The loops of fe_invert square a fixed number of times.\<close>

definition fe_sqn :: "nat \<Rightarrow> fe \<Rightarrow> fe" where
  "fe_sqn n f = (fe_sq ^^ n) f"

definition fe_invert :: "fe \<Rightarrow> fe" where
  "fe_invert z =
    (let t0 = fe_sq z;
         t1 = fe_sq t0;
         t1 = fe_sq t1;
         t1 = fe_mul z t1;
         t0 = fe_mul t0 t1;
         t2 = fe_sq t0;
         t1 = fe_mul t1 t2;
         t2 = fe_sq t1;
         t2 = fe_sqn 4 t2;
         t1 = fe_mul t2 t1;
         t2 = fe_sq t1;
         t2 = fe_sqn 9 t2;
         t2 = fe_mul t2 t1;
         t3 = fe_sq t2;
         t3 = fe_sqn 19 t3;
         t2 = fe_mul t3 t2;
         t2 = fe_sq t2;
         t2 = fe_sqn 9 t2;
         t1 = fe_mul t2 t1;
         t2 = fe_sq t1;
         t2 = fe_sqn 49 t2;
         t2 = fe_mul t2 t1;
         t3 = fe_sq t2;
         t3 = fe_sqn 99 t3;
         t2 = fe_mul t3 t2;
         t2 = fe_sq t2;
         t2 = fe_sqn 49 t2;
         t1 = fe_mul t2 t1;
         t1 = fe_sq t1;
         t1 = fe_sqn 4 t1
     in fe_mul t1 t0)"

text \<open>The block of fe_divpowm1 the code marks as fe_pow22523.\<close>

definition fe_pow22523 :: "fe \<Rightarrow> fe" where
  "fe_pow22523 uv7 =
    (let t0 = fe_sq uv7;
         t1 = fe_sq t0;
         t1 = fe_sq t1;
         t1 = fe_mul uv7 t1;
         t0 = fe_mul t0 t1;
         t0 = fe_sq t0;
         t0 = fe_mul t1 t0;
         t1 = fe_sq t0;
         t1 = fe_sqn 4 t1;
         t0 = fe_mul t1 t0;
         t1 = fe_sq t0;
         t1 = fe_sqn 9 t1;
         t1 = fe_mul t1 t0;
         t2 = fe_sq t1;
         t2 = fe_sqn 19 t2;
         t1 = fe_mul t2 t1;
         t1 = fe_sqn 10 t1;
         t0 = fe_mul t1 t0;
         t1 = fe_sq t0;
         t1 = fe_sqn 49 t1;
         t1 = fe_mul t1 t0;
         t2 = fe_sq t1;
         t2 = fe_sqn 99 t2;
         t1 = fe_mul t2 t1;
         t1 = fe_sqn 50 t1;
         t0 = fe_mul t1 t0;
         t0 = fe_sq t0;
         t0 = fe_sq t0
     in fe_mul t0 uv7)"

definition fe_divpowm1 :: "fe \<Rightarrow> fe \<Rightarrow> fe" where
  "fe_divpowm1 u v =
    (let v3 = fe_sq v;
         v3 = fe_mul v3 v;
         uv7 = fe_sq v3;
         uv7 = fe_mul uv7 v;
         uv7 = fe_mul uv7 u;
         t0 = fe_pow22523 uv7;
         t0 = fe_mul t0 v3
     in fe_mul t0 u)"

text \<open>t holds the k-th power of z.\<close>

definition fe_pow :: "fe \<Rightarrow> nat \<Rightarrow> fe \<Rightarrow> bool" where
  "fe_pow z k t \<longleftrightarrow> fe_mod t = fe_mod z ^ k mod p25519"

lemma fe_pow_self: "fe_pow z 1 z"
  by (simp add: fe_pow_def)

lemma fe_pow_mul: "fe_pow z a s \<Longrightarrow> fe_pow z b t \<Longrightarrow> fe_pow z (a + b) (fe_mul s t)"
  by (simp add: fe_pow_def fe_mods power_add mod_mult_eq)

lemma fe_pow_sq: "fe_pow z a s \<Longrightarrow> fe_pow z (2 * a) (fe_sq s)"
  by (simp add: fe_pow_def fe_mods power_mod power_mult mult.commute [of 2])

lemma fe_pow_sqn: "fe_pow z a s \<Longrightarrow> fe_pow z (2 ^ n * a) (fe_sqn n s)"
proof (induction n)
  case (Suc n)
  from fe_pow_sq [OF Suc.IH [OF Suc.prems]] show ?case
    by (simp add: fe_sqn_def mult.assoc)
qed (simp add: fe_sqn_def)

lemma fe_pow_num: "fe_pow z a s \<Longrightarrow> a = b \<Longrightarrow> fe_pow z b s"
  by simp

lemma fe_invert_pow: "fe_pow z (2 ^ 255 - 21) (fe_invert z)"
  unfolding fe_invert_def Let_def
  by (rule fe_pow_num, (rule fe_pow_mul fe_pow_sq fe_pow_sqn fe_pow_self)+) simp

lemma fe_pow22523_pow: "fe_pow z (2 ^ 252 - 3) (fe_pow22523 z)"
  unfolding fe_pow22523_def Let_def
  by (rule fe_pow_num, (rule fe_pow_mul fe_pow_sq fe_pow_sqn fe_pow_self)+) simp

lemma fe_mod_invert: "fe_mod (fe_invert z) = fe_mod z ^ nat (p25519 - 2) mod p25519"
proof -
  have "nat (p25519 - 2) = 2 ^ 255 - 21"
    by (simp add: p25519_def)
  with fe_invert_pow [of z] show ?thesis
    by (simp add: fe_pow_def)
qed

lemma fe_mod_divpowm1:
  "fe_mod (fe_divpowm1 u v) =
    fe_mod u * fe_mod v ^ 3 * (fe_mod u * fe_mod v ^ 7) ^ (2 ^ 252 - 3) mod p25519"
proof -
  let ?v3 = "fe_mul (fe_sq v) v"
  let ?uv7 = "fe_mul (fe_mul (fe_sq ?v3) v) u"
  have d: "fe_divpowm1 u v = fe_mul (fe_mul (fe_pow22523 ?uv7) ?v3) u"
    by (simp add: fe_divpowm1_def Let_def)
  have v3: "fe_mod ?v3 = fe_mod v ^ 3 mod p25519"
    by (simp add: fe_mods power3_eq_cube power2_eq_square mod_simps)
  have "fe_mod ?uv7 = (fe_mod v ^ 3)\<^sup>2 * fe_mod v * fe_mod u mod p25519"
    by (simp add: fe_mods mod_simps power_mod, simp add: eval_nat_numeral ac_simps)
  also have "(fe_mod v ^ 3)\<^sup>2 * fe_mod v * fe_mod u = fe_mod u * fe_mod v ^ 7"
    by algebra
  finally have "fe_mod (fe_pow22523 ?uv7) = (fe_mod u * fe_mod v ^ 7) ^ (2 ^ 252 - 3) mod p25519"
    using fe_pow22523_pow [of ?uv7] by (simp add: fe_pow_def power_mod del: power_mult_distrib)
  then show ?thesis
    by (simp add: d fe_mods v3 mod_simps ac_simps power3_eq_cube power2_eq_square
        del: power_mult_distrib)
qed

end
