(* ===== verification/FieldBounds.thy ===== *)
theory FieldBounds imports Field25519
begin

text \<open>
  The limbs of src/src/base/tools/cryptonote/crypto-ops.c stay within the bounds its comments state: abstract
  interpretation of the operations of Field25519 on bounds of the limbs, and the conditional move.
\<close>

section \<open>Bounds\<close>

text \<open>
  An element whose limbs are bounds: \<^term>\<open>fe_le b h\<close> says that every limb of h is at most that of b in absolute
  value.  The bd_ functions compute, for each operation, bounds of its result from bounds of its
  operands, so that a bound of a chain of operations is an evaluation.
\<close>

definition fe_le :: "fe \<Rightarrow> fe \<Rightarrow> bool" where
  "fe_le b h = (case (b, h) of
    (Fe b0 b1 b2 b3 b4 b5 b6 b7 b8 b9, Fe h0 h1 h2 h3 h4 h5 h6 h7 h8 h9) \<Rightarrow>
    \<bar>h0\<bar> \<le> b0 \<and> \<bar>h1\<bar> \<le> b1 \<and> \<bar>h2\<bar> \<le> b2 \<and> \<bar>h3\<bar> \<le> b3 \<and> \<bar>h4\<bar> \<le> b4 \<and> \<bar>h5\<bar> \<le> b5 \<and> \<bar>h6\<bar> \<le> b6
    \<and> \<bar>h7\<bar> \<le> b7 \<and> \<bar>h8\<bar> \<le> b8 \<and> \<bar>h9\<bar> \<le> b9)"

text \<open>The bounds a and b of the limbs of 26 and of 25 bits.\<close>

definition fe_lim :: "int \<Rightarrow> int \<Rightarrow> fe" where
  "fe_lim a b = Fe a b a b a b a b a b"

primrec bd_c0 :: "fe \<Rightarrow> fe" where
  "bd_c0 (Fe b0 b1 b2 b3 b4 b5 b6 b7 b8 b9) =
    Fe (2 ^ 25) (b1 + (b0 + 2 ^ 25) div 2 ^ 26) b2 b3 b4 b5 b6 b7 b8 b9"

primrec bd_c1 :: "fe \<Rightarrow> fe" where
  "bd_c1 (Fe b0 b1 b2 b3 b4 b5 b6 b7 b8 b9) =
    Fe b0 (2 ^ 24) (b2 + (b1 + 2 ^ 24) div 2 ^ 25) b3 b4 b5 b6 b7 b8 b9"

primrec bd_c2 :: "fe \<Rightarrow> fe" where
  "bd_c2 (Fe b0 b1 b2 b3 b4 b5 b6 b7 b8 b9) =
    Fe b0 b1 (2 ^ 25) (b3 + (b2 + 2 ^ 25) div 2 ^ 26) b4 b5 b6 b7 b8 b9"

primrec bd_c3 :: "fe \<Rightarrow> fe" where
  "bd_c3 (Fe b0 b1 b2 b3 b4 b5 b6 b7 b8 b9) =
    Fe b0 b1 b2 (2 ^ 24) (b4 + (b3 + 2 ^ 24) div 2 ^ 25) b5 b6 b7 b8 b9"

primrec bd_c4 :: "fe \<Rightarrow> fe" where
  "bd_c4 (Fe b0 b1 b2 b3 b4 b5 b6 b7 b8 b9) =
    Fe b0 b1 b2 b3 (2 ^ 25) (b5 + (b4 + 2 ^ 25) div 2 ^ 26) b6 b7 b8 b9"

primrec bd_c5 :: "fe \<Rightarrow> fe" where
  "bd_c5 (Fe b0 b1 b2 b3 b4 b5 b6 b7 b8 b9) =
    Fe b0 b1 b2 b3 b4 (2 ^ 24) (b6 + (b5 + 2 ^ 24) div 2 ^ 25) b7 b8 b9"

primrec bd_c6 :: "fe \<Rightarrow> fe" where
  "bd_c6 (Fe b0 b1 b2 b3 b4 b5 b6 b7 b8 b9) =
    Fe b0 b1 b2 b3 b4 b5 (2 ^ 25) (b7 + (b6 + 2 ^ 25) div 2 ^ 26) b8 b9"

primrec bd_c7 :: "fe \<Rightarrow> fe" where
  "bd_c7 (Fe b0 b1 b2 b3 b4 b5 b6 b7 b8 b9) =
    Fe b0 b1 b2 b3 b4 b5 b6 (2 ^ 24) (b8 + (b7 + 2 ^ 24) div 2 ^ 25) b9"

primrec bd_c8 :: "fe \<Rightarrow> fe" where
  "bd_c8 (Fe b0 b1 b2 b3 b4 b5 b6 b7 b8 b9) =
    Fe b0 b1 b2 b3 b4 b5 b6 b7 (2 ^ 25) (b9 + (b8 + 2 ^ 25) div 2 ^ 26)"

primrec bd_c9 :: "fe \<Rightarrow> fe" where
  "bd_c9 (Fe b0 b1 b2 b3 b4 b5 b6 b7 b8 b9) =
    Fe (b0 + (b9 + 2 ^ 24) div 2 ^ 25 * 19) b1 b2 b3 b4 b5 b6 b7 b8 (2 ^ 24)"

lemma limb_carry_le:
  assumes "\<bar>h\<bar> \<le> B"
  shows "\<bar>h - limb_carry (Suc b) h * 2 ^ Suc b\<bar> \<le> 2 ^ b"
    and "\<bar>limb_carry (Suc b) h\<bar> \<le> (B + 2 ^ b) div 2 ^ Suc b"
proof -
  have m: "h - limb_carry (Suc b) h * 2 ^ Suc b = (h + 2 ^ b) mod 2 ^ Suc b - 2 ^ b"
    by (simp add: limb_carry_def minus_div_mult_eq_mod [symmetric] algebra_simps)
  have "0 \<le> (h + 2 ^ b) mod 2 ^ Suc b" and "(h + 2 ^ b) mod 2 ^ Suc b < 2 ^ b + 2 ^ b"
    using pos_mod_bound [of "2 ^ Suc b" "h + 2 ^ b"] by simp_all
  then show "\<bar>h - limb_carry (Suc b) h * 2 ^ Suc b\<bar> \<le> 2 ^ b"
    unfolding m by linarith
  have up: "limb_carry (Suc b) h \<le> (B + 2 ^ b) div 2 ^ Suc b"
    using assms by (auto simp: limb_carry_def intro!: zdiv_mono1)
  have "- ((B + 2 ^ b) div 2 ^ Suc b) \<le> (- B + 2 ^ b) div 2 ^ Suc b"
  proof -
    let ?q = "(B + 2 ^ b) div 2 ^ Suc b"
    have "B + 2 ^ b = ?q * 2 ^ Suc b + (B + 2 ^ b) mod 2 ^ Suc b"
      by (simp only: div_mult_mod_eq)
    moreover have "(B + 2 ^ b) mod 2 ^ Suc b < 2 ^ b + 2 ^ b"
      using pos_mod_bound [of "2 ^ Suc b" "B + 2 ^ b"] by simp
    ultimately have "- ?q * 2 ^ Suc b \<le> - B + 2 ^ b"
      by linarith
    then have "- ?q * 2 ^ Suc b div 2 ^ Suc b \<le> (- B + 2 ^ b) div 2 ^ Suc b"
      by (rule zdiv_mono1) simp
    then show ?thesis
      by (simp only: nonzero_mult_div_cancel_right power_not_zero zero_neq_numeral not_False_eq_True)
  qed
  also have "\<dots> \<le> limb_carry (Suc b) h"
    using assms by (auto simp: limb_carry_def intro!: zdiv_mono1)
  finally show "\<bar>limb_carry (Suc b) h\<bar> \<le> (B + 2 ^ b) div 2 ^ Suc b"
    using up by (simp add: abs_le_iff)
qed

lemma abs_add_le: "\<bar>x\<bar> \<le> a \<Longrightarrow> \<bar>y\<bar> \<le> b \<Longrightarrow> \<bar>x + y\<bar> \<le> a + (b :: int)"
  by simp

lemma abs_diff_le: "\<bar>x\<bar> \<le> a \<Longrightarrow> \<bar>y\<bar> \<le> b \<Longrightarrow> \<bar>x - y\<bar> \<le> a + (b :: int)"
  by simp

lemma abs_mult_le: "\<bar>x\<bar> \<le> a \<Longrightarrow> \<bar>y\<bar> \<le> b \<Longrightarrow> \<bar>x * y\<bar> \<le> a * (b :: int)"
  unfolding abs_mult by (intro mult_mono) simp_all

lemma abs_numeral_le: "\<bar>numeral n :: int\<bar> \<le> numeral n"
  by simp

lemmas abs_le_intros = abs_add_le abs_mult_le abs_numeral_le


lemma limb_carry_26:
  assumes "\<bar>h\<bar> \<le> B"
  shows "\<bar>h - limb_carry 26 h * 2 ^ 26\<bar> \<le> 2 ^ 25" "\<bar>limb_carry 26 h\<bar> \<le> (B + 2 ^ 25) div 2 ^ 26"
  using limb_carry_le [OF assms, of 25] by simp_all

lemma limb_carry_25:
  assumes "\<bar>h\<bar> \<le> B"
  shows "\<bar>h - limb_carry 25 h * 2 ^ 25\<bar> \<le> 2 ^ 24" "\<bar>limb_carry 25 h\<bar> \<le> (B + 2 ^ 24) div 2 ^ 25"
  using limb_carry_le [OF assms, of 24] by simp_all

lemma fe_c_le:
  assumes "fe_le b h"
  shows "fe_le (bd_c0 b) (fe_c0 h)" "fe_le (bd_c1 b) (fe_c1 h)" "fe_le (bd_c2 b) (fe_c2 h)"
    "fe_le (bd_c3 b) (fe_c3 h)" "fe_le (bd_c4 b) (fe_c4 h)" "fe_le (bd_c5 b) (fe_c5 h)"
    "fe_le (bd_c6 b) (fe_c6 h)" "fe_le (bd_c7 b) (fe_c7 h)" "fe_le (bd_c8 b) (fe_c8 h)"
    "fe_le (bd_c9 b) (fe_c9 h)"
proof -
  note intros = conjI TrueI abs_add_le limb_carry_26 limb_carry_25 abs_mult_le abs_numeral_le
  show "fe_le (bd_c0 b) (fe_c0 h)"
    using assms
    by (cases b, cases h, simp only: fe_le_def prod.case fe.case fe_c0.simps bd_c0.simps Let_def,
        elim conjE, intro intros) assumption+
  show "fe_le (bd_c1 b) (fe_c1 h)"
    using assms
    by (cases b, cases h, simp only: fe_le_def prod.case fe.case fe_c1.simps bd_c1.simps Let_def,
        elim conjE, intro intros) assumption+
  show "fe_le (bd_c2 b) (fe_c2 h)"
    using assms
    by (cases b, cases h, simp only: fe_le_def prod.case fe.case fe_c2.simps bd_c2.simps Let_def,
        elim conjE, intro intros) assumption+
  show "fe_le (bd_c3 b) (fe_c3 h)"
    using assms
    by (cases b, cases h, simp only: fe_le_def prod.case fe.case fe_c3.simps bd_c3.simps Let_def,
        elim conjE, intro intros) assumption+
  show "fe_le (bd_c4 b) (fe_c4 h)"
    using assms
    by (cases b, cases h, simp only: fe_le_def prod.case fe.case fe_c4.simps bd_c4.simps Let_def,
        elim conjE, intro intros) assumption+
  show "fe_le (bd_c5 b) (fe_c5 h)"
    using assms
    by (cases b, cases h, simp only: fe_le_def prod.case fe.case fe_c5.simps bd_c5.simps Let_def,
        elim conjE, intro intros) assumption+
  show "fe_le (bd_c6 b) (fe_c6 h)"
    using assms
    by (cases b, cases h, simp only: fe_le_def prod.case fe.case fe_c6.simps bd_c6.simps Let_def,
        elim conjE, intro intros) assumption+
  show "fe_le (bd_c7 b) (fe_c7 h)"
    using assms
    by (cases b, cases h, simp only: fe_le_def prod.case fe.case fe_c7.simps bd_c7.simps Let_def,
        elim conjE, intro intros) assumption+
  show "fe_le (bd_c8 b) (fe_c8 h)"
    using assms
    by (cases b, cases h, simp only: fe_le_def prod.case fe.case fe_c8.simps bd_c8.simps Let_def,
        elim conjE, intro intros) assumption+
  show "fe_le (bd_c9 b) (fe_c9 h)"
    using assms
    by (cases b, cases h, simp only: fe_le_def prod.case fe.case fe_c9.simps bd_c9.simps Let_def,
        elim conjE, intro intros) assumption+
qed

lemma fe_mul_wide_le:
  assumes "fe_le a f" and "fe_le b g"
  shows "fe_le (fe_mul_wide a b) (fe_mul_wide f g)"
proof (cases a, cases b, cases f, cases g)
  fix a0 a1 a2 a3 a4 a5 a6 a7 a8 a9 b0 b1 b2 b3 b4 b5 b6 b7 b8 b9 f0 f1 f2 f3 f4 f5 f6 f7 f8 f9 g0 g1 g2 g3 g4 g5 g6 g7 g8 g9
  assume e: "a = Fe a0 a1 a2 a3 a4 a5 a6 a7 a8 a9" "b = Fe b0 b1 b2 b3 b4 b5 b6 b7 b8 b9" "f = Fe f0 f1 f2 f3 f4 f5 f6 f7 f8 f9" "g = Fe g0 g1 g2 g3 g4 g5 g6 g7 g8 g9"
  show ?thesis
    using assms unfolding e fe_le_def fe_mul_wide_def Let_def fe.case prod.case
    by (elim conjE) (intro conjI abs_le_intros; assumption)
qed

lemma fe_add_le: "fe_le a f \<Longrightarrow> fe_le b g \<Longrightarrow> fe_le (fe_add a b) (fe_add f g)"
  by (cases a; cases b; cases f; cases g)
    (simp only: fe_le_def fe_add_def fe.case prod.case abs_add_le)

lemma fe_sub_le: "fe_le a f \<Longrightarrow> fe_le b g \<Longrightarrow> fe_le (fe_add a b) (fe_sub f g)"
  by (cases a; cases b; cases f; cases g)
    (simp only: fe_le_def fe_add_def fe_sub_def fe.case prod.case abs_diff_le)

lemma fe_neg_le: "fe_le a f \<Longrightarrow> fe_le a (fe_neg f)"
  by (cases a; cases f) (simp add: fe_le_def fe_neg_def)

lemma abs_le_trans: "\<bar>h\<bar> \<le> b \<Longrightarrow> \<bar>b\<bar> \<le> c \<Longrightarrow> \<bar>h\<bar> \<le> (c :: int)"
  by simp

lemma fe_le_trans: "fe_le c b \<Longrightarrow> fe_le b h \<Longrightarrow> fe_le c h"
  by (cases b, cases c, cases h, simp only: fe_le_def prod.case fe.case, elim conjE,
      intro conjI; (rule abs_le_trans, assumption, assumption))

text \<open>The bounds after each of the carries, from bounds of the ten sums.\<close>

definition bd_carry_steps :: "(fe \<Rightarrow> fe) list" where
  "bd_carry_steps =
    [bd_c0, bd_c4, bd_c1, bd_c5, bd_c2, bd_c6, bd_c3, bd_c7, bd_c4, bd_c8, bd_c9, bd_c0]"

lemma fe_fold_le:
  "list_all2 (\<lambda>bd c. \<forall>b h. fe_le b h \<longrightarrow> fe_le (bd b) (c h)) bds cs \<Longrightarrow> fe_le b h \<Longrightarrow>
    fe_le (fold (\<lambda>c. c) (take n bds) b) (fold (\<lambda>c. c) (take n cs) h)"
proof (induction bds cs arbitrary: b h n rule: list_all2_induct)
  case (Cons bd bds c cs)
  then show ?case by (cases n) simp_all
qed simp

lemma fe_carry_steps_le:
  "fe_le b h \<Longrightarrow>
    fe_le (fold (\<lambda>c. c) (take n bd_carry_steps) b) (fold (\<lambda>c. c) (take n fe_carry_steps) h)"
  by (rule fe_fold_le) (simp_all add: fe_carry_steps_def bd_carry_steps_def fe_c_le)

lemma fe_carry_le: "fe_le b h \<Longrightarrow> fe_le (fold (\<lambda>c. c) bd_carry_steps b) (fe_carry h)"
  using fe_carry_steps_le [of b h 12]
  by (simp add: fe_carry_def fe_carry_steps_def bd_carry_steps_def)

text \<open>
  The bounds the code's comments state: of the operands of fe_mul, fe_sq and fe_sq2, of their results, and of
  the results of one fe_add or fe_sub of such results.
\<close>

definition mul_pre :: fe where
  "mul_pre = fe_lim 110729625 55364812"

definition mul_post :: fe where
  "mul_post = fe_lim 33889976 16944988"

definition add_post :: fe where
  "add_post = fe_lim 73819750 36909875"

text \<open>\<^term>\<open>int64_safe\<close>: the limbs leave room for the rounding constant and the shifted carry in 64 bits.\<close>

definition int64_safe :: "fe \<Rightarrow> bool" where
  "int64_safe h = fe_le (fe_lim (2 ^ 62) (2 ^ 62)) h"

text \<open>The ten sums of a product of operands at the limit, doubled as in fe_sq2.\<close>

definition bd_wide :: fe where
  "bd_wide = fe_add (fe_mul_wide mul_pre mul_pre) (fe_mul_wide mul_pre mul_pre)"

lemma bd_wide_safe:
  "list_all (\<lambda>n. int64_safe (fold (\<lambda>c. c) (take n bd_carry_steps) bd_wide)) [0..<13]"
  by code_simp

lemma bd_wide_post: "fe_le mul_post (fold (\<lambda>c. c) bd_carry_steps bd_wide)"
  by code_simp

lemma bd_wide_half: "fe_le bd_wide (fe_mul_wide mul_pre mul_pre)"
  by code_simp

lemma carry_safe:
  assumes "fe_le bd_wide h"
  shows "int64_safe (fold (\<lambda>c. c) (take n fe_carry_steps) h)"
proof -
  have "int64_safe (fold (\<lambda>c. c) (take (min n 12) bd_carry_steps) bd_wide)"
    using bd_wide_safe by (simp add: list_all_iff)
  then have "int64_safe (fold (\<lambda>c. c) (take n bd_carry_steps) bd_wide)"
    by (cases "n \<le> 12") (simp_all add: min_def bd_carry_steps_def)
  with fe_carry_steps_le [OF assms] show ?thesis
    unfolding int64_safe_def by (blast intro: fe_le_trans)
qed

lemma carry_post: "fe_le bd_wide h \<Longrightarrow> fe_le mul_post (fe_carry h)"
  by (blast intro: fe_le_trans bd_wide_post fe_carry_le)

lemma mul_wide_in_bd: "fe_le mul_pre f \<Longrightarrow> fe_le mul_pre g \<Longrightarrow> fe_le bd_wide (fe_mul_wide f g)"
  by (blast intro: fe_le_trans bd_wide_half fe_mul_wide_le)

lemma sq2_wide_in_bd:
  "fe_le mul_pre f \<Longrightarrow> fe_le bd_wide (fe_add (fe_sq_wide f) (fe_sq_wide f))"
  unfolding bd_wide_def fe_sq_wide_mul by (intro fe_add_le fe_mul_wide_le)

lemma fe_mul_post: "fe_le mul_pre f \<Longrightarrow> fe_le mul_pre g \<Longrightarrow> fe_le mul_post (fe_mul f g)"
  by (simp add: fe_mul_def carry_post mul_wide_in_bd)

lemma fe_sq_post: "fe_le mul_pre f \<Longrightarrow> fe_le mul_post (fe_sq f)"
  by (simp add: fe_sq_def fe_sq_wide_mul carry_post mul_wide_in_bd)

lemma fe_sq2_post: "fe_le mul_pre f \<Longrightarrow> fe_le mul_post (fe_sq2 f)"
  by (simp add: fe_sq2_def Let_def carry_post sq2_wide_in_bd)

lemma post_in_pre: "fe_le mul_pre mul_post" "fe_le mul_pre add_post" "fe_le add_post mul_post"
  by code_simp+

lemma add_post_bd: "fe_le add_post (fe_add mul_post mul_post)"
  by code_simp

lemma fe_add_post: "fe_le mul_post f \<Longrightarrow> fe_le mul_post g \<Longrightarrow> fe_le add_post (fe_add f g)"
  by (blast intro: fe_le_trans add_post_bd fe_add_le)

lemma fe_sub_post: "fe_le mul_post f \<Longrightarrow> fe_le mul_post g \<Longrightarrow> fe_le add_post (fe_sub f g)"
  by (blast intro: fe_le_trans add_post_bd fe_sub_le)

text \<open>The factors that fe_mul, fe_sq and fe_sq2 prepare in 32 bits, from operands within the bounds of their
  comments; 38 f_i of an odd limb and 19 f_i of any limb come closest to 2^31.\<close>

definition fe_factors :: "fe \<Rightarrow> int list" where
  "fe_factors f = (case f of Fe f0 f1 f2 f3 f4 f5 f6 f7 f8 f9 \<Rightarrow>
    map ((*) 2) [f0, f1, f2, f3, f4, f5, f6, f7, f9] @ map ((*) 19) [f1, f2, f3, f4, f5, f6, f7, f8, f9] @ map ((*) 38) [f5, f7, f9])"

lemma fe_factors_int32: "fe_le mul_pre f \<Longrightarrow> list_all (\<lambda>x. - (2 ^ 31) \<le> x \<and> x < 2 ^ 31) (fe_factors f)"
  by (cases f) (simp add: fe_factors_def fe_le_def mul_pre_def fe_lim_def abs_le_iff)

section \<open>Conditional move\<close>

lemma limb_cmov_off: "- (2 ^ 31) \<le> f \<Longrightarrow> f < 2 ^ 31 \<Longrightarrow> limb_cmov 0 f g = f"
  by (simp add: limb_cmov_def Let_def signed_of_int signed_take_bit_int_eq_self)

lemma limb_cmov_on: "- (2 ^ 31) \<le> g \<Longrightarrow> g < 2 ^ 31 \<Longrightarrow> limb_cmov 1 f g = g"
  by (simp add: limb_cmov_def Let_def xor.assoc [symmetric] signed_of_int signed_take_bit_int_eq_self)

definition int32_safe :: "fe \<Rightarrow> bool" where
  "int32_safe h = fe_le (fe_lim (2 ^ 31 - 1) (2 ^ 31 - 1)) h"

lemma fe_cmov_off: "int32_safe f \<Longrightarrow> fe_cmov f g 0 = f"
  by (cases f; cases g)
    (simp add: fe_cmov_def int32_safe_def fe_le_def fe_lim_def limb_cmov_off abs_le_iff)

lemma fe_cmov_on: "int32_safe g \<Longrightarrow> fe_cmov f g 1 = g"
  by (cases f; cases g)
    (simp add: fe_cmov_def int32_safe_def fe_le_def fe_lim_def limb_cmov_on abs_le_iff)

end
