(* ===== verification/FieldBytes.thy ===== *)
theory FieldBytes imports FieldBounds
begin

text \<open>
  The byte encodings of field elements in src/src/base/tools/cryptonote/crypto-ops.c: fe_tobytes with the
  freezing of its argument to the canonical residue, and the decoding at the start of
  ge_frombytes_vartime with its canonicity check (load_3, load_4).
\<close>

section \<open>Bytes\<close>

text \<open>A C conversion of a signed integer to unsigned char, and the integer a little-endian array stands for.\<close>

definition byte :: "int \<Rightarrow> 8 word" where
  "byte x = word_of_int x"

primrec le_val :: "8 word list \<Rightarrow> int" where
  "le_val [] = 0"
| "le_val (b # bs) = uint b + 256 * le_val bs"

section \<open>fe_tobytes\<close>

text \<open>The estimate of the quotient by the prime.\<close>

definition tobytes_q :: "fe \<Rightarrow> int" where
  "tobytes_q h = (case h of Fe h0 h1 h2 h3 h4 h5 h6 h7 h8 h9 \<Rightarrow>
    (let q = (19 * h9 + 2 ^ 24) div 2 ^ 25;
         q = (h0 + q) div 2 ^ 26;
         q = (h1 + q) div 2 ^ 25;
         q = (h2 + q) div 2 ^ 26;
         q = (h3 + q) div 2 ^ 25;
         q = (h4 + q) div 2 ^ 26;
         q = (h5 + q) div 2 ^ 25;
         q = (h6 + q) div 2 ^ 26;
         q = (h7 + q) div 2 ^ 25;
         q = (h8 + q) div 2 ^ 26
     in (h9 + q) div 2 ^ 25))"

text \<open>The carries, rounded down; that of the top limb is dropped.\<close>

primrec tb_c0 :: "fe \<Rightarrow> fe" where
  "tb_c0 (Fe h0 h1 h2 h3 h4 h5 h6 h7 h8 h9) =
    (let c = h0 div 2 ^ 26
     in Fe (h0 - c * 2 ^ 26) (h1 + c) h2 h3 h4 h5 h6 h7 h8 h9)"

primrec tb_c1 :: "fe \<Rightarrow> fe" where
  "tb_c1 (Fe h0 h1 h2 h3 h4 h5 h6 h7 h8 h9) =
    (let c = h1 div 2 ^ 25
     in Fe h0 (h1 - c * 2 ^ 25) (h2 + c) h3 h4 h5 h6 h7 h8 h9)"

primrec tb_c2 :: "fe \<Rightarrow> fe" where
  "tb_c2 (Fe h0 h1 h2 h3 h4 h5 h6 h7 h8 h9) =
    (let c = h2 div 2 ^ 26
     in Fe h0 h1 (h2 - c * 2 ^ 26) (h3 + c) h4 h5 h6 h7 h8 h9)"

primrec tb_c3 :: "fe \<Rightarrow> fe" where
  "tb_c3 (Fe h0 h1 h2 h3 h4 h5 h6 h7 h8 h9) =
    (let c = h3 div 2 ^ 25
     in Fe h0 h1 h2 (h3 - c * 2 ^ 25) (h4 + c) h5 h6 h7 h8 h9)"

primrec tb_c4 :: "fe \<Rightarrow> fe" where
  "tb_c4 (Fe h0 h1 h2 h3 h4 h5 h6 h7 h8 h9) =
    (let c = h4 div 2 ^ 26
     in Fe h0 h1 h2 h3 (h4 - c * 2 ^ 26) (h5 + c) h6 h7 h8 h9)"

primrec tb_c5 :: "fe \<Rightarrow> fe" where
  "tb_c5 (Fe h0 h1 h2 h3 h4 h5 h6 h7 h8 h9) =
    (let c = h5 div 2 ^ 25
     in Fe h0 h1 h2 h3 h4 (h5 - c * 2 ^ 25) (h6 + c) h7 h8 h9)"

primrec tb_c6 :: "fe \<Rightarrow> fe" where
  "tb_c6 (Fe h0 h1 h2 h3 h4 h5 h6 h7 h8 h9) =
    (let c = h6 div 2 ^ 26
     in Fe h0 h1 h2 h3 h4 h5 (h6 - c * 2 ^ 26) (h7 + c) h8 h9)"

primrec tb_c7 :: "fe \<Rightarrow> fe" where
  "tb_c7 (Fe h0 h1 h2 h3 h4 h5 h6 h7 h8 h9) =
    (let c = h7 div 2 ^ 25
     in Fe h0 h1 h2 h3 h4 h5 h6 (h7 - c * 2 ^ 25) (h8 + c) h9)"

primrec tb_c8 :: "fe \<Rightarrow> fe" where
  "tb_c8 (Fe h0 h1 h2 h3 h4 h5 h6 h7 h8 h9) =
    (let c = h8 div 2 ^ 26
     in Fe h0 h1 h2 h3 h4 h5 h6 h7 (h8 - c * 2 ^ 26) (h9 + c))"

primrec tb_c9 :: "fe \<Rightarrow> fe" where
  "tb_c9 (Fe h0 h1 h2 h3 h4 h5 h6 h7 h8 h9) =
    (let c = h9 div 2 ^ 25
     in Fe h0 h1 h2 h3 h4 h5 h6 h7 h8 (h9 - c * 2 ^ 25))"

definition tobytes_carry :: "fe \<Rightarrow> fe" where
  "tobytes_carry h =
    fold (\<lambda>c. c) [tb_c0, tb_c1, tb_c2, tb_c3, tb_c4, tb_c5, tb_c6, tb_c7, tb_c8, tb_c9] h"

text \<open>The bytes of the ten limbs.\<close>

definition limb_bytes :: "fe \<Rightarrow> 8 word list" where
  "limb_bytes h = (case h of Fe h0 h1 h2 h3 h4 h5 h6 h7 h8 h9 \<Rightarrow>
    [byte (drop_bit 0 h0), byte (drop_bit 8 h0), byte (drop_bit 16 h0),
     byte (or (drop_bit 24 h0) (push_bit 2 h1)), byte (drop_bit 6 h1), byte (drop_bit 14 h1),
     byte (or (drop_bit 22 h1) (push_bit 3 h2)), byte (drop_bit 5 h2), byte (drop_bit 13 h2),
     byte (or (drop_bit 21 h2) (push_bit 5 h3)), byte (drop_bit 3 h3), byte (drop_bit 11 h3),
     byte (or (drop_bit 19 h3) (push_bit 6 h4)), byte (drop_bit 2 h4), byte (drop_bit 10 h4),
     byte (drop_bit 18 h4), byte (drop_bit 0 h5), byte (drop_bit 8 h5), byte (drop_bit 16 h5),
     byte (or (drop_bit 24 h5) (push_bit 1 h6)), byte (drop_bit 7 h6), byte (drop_bit 15 h6),
     byte (or (drop_bit 23 h6) (push_bit 3 h7)), byte (drop_bit 5 h7), byte (drop_bit 13 h7),
     byte (or (drop_bit 21 h7) (push_bit 4 h8)), byte (drop_bit 4 h8), byte (drop_bit 12 h8),
     byte (or (drop_bit 20 h8) (push_bit 6 h9)), byte (drop_bit 2 h9), byte (drop_bit 10 h9),
     byte (drop_bit 18 h9)])"

definition fe_tobytes :: "fe \<Rightarrow> 8 word list" where
  "fe_tobytes h = limb_bytes (tobytes_carry (fe_add h (Fe (19 * tobytes_q h) 0 0 0 0 0 0 0 0 0)))"

definition fe_isnegative :: "fe \<Rightarrow> int" where
  "fe_isnegative f = uint (and (hd (fe_tobytes f)) 1)"

text \<open>The or of all the bytes as an int, less one, shifted: -1 when it was zero.\<close>

definition fe_isnonzero :: "fe \<Rightarrow> int" where
  "fe_isnonzero f = drop_bit 8 (uint (fold or (fe_tobytes f) 0) - 1) + 1"

section \<open>What fe_tobytes writes\<close>

lemma div_add_div:
  "0 < n \<Longrightarrow> 0 < m \<Longrightarrow> (b + a div m) div n = (m * b + a) div (m * n :: int)"
  by (simp add: zdiv_zmult2_eq div_plus_div_distrib_dvd_left add.commute)

lemma tobytes_q_div:
  "tobytes_q (Fe h0 h1 h2 h3 h4 h5 h6 h7 h8 h9) =
    (fe_val (Fe h0 h1 h2 h3 h4 h5 h6 h7 h8 h9) + (19 * h9 + 2 ^ 24) div 2 ^ 25) div 2 ^ 255"
proof -
  let ?t = "(19 * h9 + 2 ^ 24) div 2 ^ 25"
  have "tobytes_q (Fe h0 h1 h2 h3 h4 h5 h6 h7 h8 h9) =
    (h9 + (h8 + (h7 + (h6 + (h5 + (h4 + (h3 + (h2 + (h1 + (h0 + ?t) div 2 ^ 26) div 2 ^ 25) div 2 ^ 26)
      div 2 ^ 25) div 2 ^ 26) div 2 ^ 25) div 2 ^ 26) div 2 ^ 25) div 2 ^ 26) div 2 ^ 25"
    by (simp only: tobytes_q_def fe.case Let_def)
  also have "\<dots> = (fe_val (Fe h0 h1 h2 h3 h4 h5 h6 h7 h8 h9) + ?t) div 2 ^ 255"
    by (simp add: div_add_div algebra_simps)
  finally show ?thesis .
qed

lemma div_bounds:
  assumes "0 < (n :: int)"
  shows "n * (a div n) \<le> a" and "a < n * (a div n) + n"
  using minus_mod_eq_mult_div [of a n] pos_mod_bound [OF assms, of a] pos_mod_sign [OF assms, of a]
  by linarith+

text \<open>The estimate is the quotient.\<close>

lemma quotient_exact:
  fixes V W t q k :: int
  assumes V: "V = 2 ^ 230 * k + W" and W: "\<bar>W\<bar> < 2 ^ 231" and k: "\<bar>k\<bar> \<le> 2 ^ 26"
    and t: "t = (19 * k + 2 ^ 24) div 2 ^ 25" and q: "q = (V + t) div 2 ^ 255"
  shows "0 \<le> V - p25519 * q" "V - p25519 * q < p25519"
proof -
  have t1: "2 ^ 25 * t \<le> 19 * k + 2 ^ 24" and t2: "19 * k + 2 ^ 24 < 2 ^ 25 * t + 2 ^ 25"
    using div_bounds [of "2 ^ 25" "19 * k + 2 ^ 24"] unfolding t by simp_all
  have q1: "2 ^ 255 * q \<le> V + t" and q2: "V + t < 2 ^ 255 * q + 2 ^ 255"
    using div_bounds [of "2 ^ 255" "V + t"] unfolding q by simp_all
  have ql: "- 8 \<le> q" and qu: "q \<le> 8"
    using q1 q2 V W k t1 t2 by (simp_all add: abs_le_iff abs_less_iff)
  show "0 \<le> V - p25519 * q"
  proof (rule ccontr)
    assume "\<not> 0 \<le> V - p25519 * q"
    then have n: "V \<le> p25519 * q - 1" by simp
    then have "19 * q + 1 \<le> t"
      using q1 by (simp add: p25519_def)
    with n V W t1 ql show False
      by (simp add: p25519_def abs_less_iff)
  qed
  show "V - p25519 * q < p25519"
  proof (rule ccontr)
    assume "\<not> V - p25519 * q < p25519"
    then have n: "p25519 * q + p25519 \<le> V" by simp
    then have "t + 1 \<le> 19 * q + 19"
      using q2 by (simp add: p25519_def)
    with n V W t2 qu show False
      by (simp add: p25519_def abs_less_iff)
  qed
qed

lemma tobytes_q_exact:
  assumes "fe_le add_post h"
  shows "fe_val h - p25519 * tobytes_q h = fe_mod h"
proof (cases h)
  case (Fe h0 h1 h2 h3 h4 h5 h6 h7 h8 h9)
  have le: "\<bar>h0\<bar> \<le> 73819750" "\<bar>h1\<bar> \<le> 36909875" "\<bar>h2\<bar> \<le> 73819750" "\<bar>h3\<bar> \<le> 36909875"
    "\<bar>h4\<bar> \<le> 73819750" "\<bar>h5\<bar> \<le> 36909875" "\<bar>h6\<bar> \<le> 73819750" "\<bar>h7\<bar> \<le> 36909875"
    "\<bar>h8\<bar> \<le> 73819750" "\<bar>h9\<bar> \<le> 36909875"
    using assms by (simp_all add: Fe fe_le_def add_post_def fe_lim_def)
  let ?W = "fe_val h - 2 ^ 230 * h9"
  have "\<bar>?W\<bar> < 2 ^ 231"
    using le by (simp add: Fe abs_le_iff abs_less_iff)
  moreover have "\<bar>h9\<bar> \<le> 2 ^ 26"
    using le by simp
  ultimately have r: "0 \<le> fe_val h - p25519 * tobytes_q h" "fe_val h - p25519 * tobytes_q h < p25519"
    using quotient_exact [OF _ _ _ refl refl, of "fe_val h" h9 ?W]
    by (simp_all only: Fe tobytes_q_div diff_add_cancel add_diff_eq [symmetric] simp_thms
        diff_add_eq_diff_diff_swap add_diff_cancel_left')
  have "fe_val h mod p25519 = (fe_val h - p25519 * tobytes_q h) mod p25519"
    by (simp add: mod_diff_right_eq [symmetric])
  with r show ?thesis
    by (simp add: fe_mod_def)
qed

text \<open>The rounded-down carries leave the digits of the value modulo 2^255.\<close>

definition fe_digits :: "fe \<Rightarrow> bool" where
  "fe_digits h = (case h of Fe h0 h1 h2 h3 h4 h5 h6 h7 h8 h9 \<Rightarrow>
    h0 \<in> {0..<2 ^ 26} \<and> h1 \<in> {0..<2 ^ 25} \<and> h2 \<in> {0..<2 ^ 26} \<and> h3 \<in> {0..<2 ^ 25} \<and> h4 \<in> {0..<2 ^ 26}
    \<and> h5 \<in> {0..<2 ^ 25} \<and> h6 \<in> {0..<2 ^ 26} \<and> h7 \<in> {0..<2 ^ 25} \<and> h8 \<in> {0..<2 ^ 26}
    \<and> h9 \<in> {0..<2 ^ 25})"

lemma tobytes_carry_digits: "fe_digits (tobytes_carry h)"
  by (cases h)
    (simp only: tobytes_carry_def fold_simps tb_c0.simps tb_c1.simps tb_c2.simps tb_c3.simps tb_c4.simps
      tb_c5.simps tb_c6.simps tb_c7.simps tb_c8.simps tb_c9.simps fe_digits_def fe.case Let_def
      minus_div_mult_eq_mod atLeastLessThan_iff pos_mod_sign pos_mod_bound zero_less_power
      zero_less_numeral simp_thms)

lemma tb_c_val:
  "fe_val (tb_c0 h) = fe_val h" "fe_val (tb_c1 h) = fe_val h" "fe_val (tb_c2 h) = fe_val h"
  "fe_val (tb_c3 h) = fe_val h" "fe_val (tb_c4 h) = fe_val h" "fe_val (tb_c5 h) = fe_val h"
  "fe_val (tb_c6 h) = fe_val h" "fe_val (tb_c7 h) = fe_val h" "fe_val (tb_c8 h) = fe_val h"
  by (cases h; simp add: Let_def algebra_simps)+

lemma tb_c9_mod: "fe_val (tb_c9 h) mod 2 ^ 255 = fe_val h mod 2 ^ 255"
proof -
  have "fe_val (tb_c9 h) = fe_val h - 2 ^ 255 * (case h of Fe h0 h1 h2 h3 h4 h5 h6 h7 h8 h9 \<Rightarrow> h9 div 2 ^ 25)"
    by (cases h) (simp add: Let_def algebra_simps)
  then show ?thesis by (simp add: mod_diff_right_eq [symmetric])
qed

lemma fe_digits_range: "fe_digits h \<Longrightarrow> 0 \<le> fe_val h \<and> fe_val h < 2 ^ 255"
  by (cases h) (simp add: fe_digits_def)

lemma tobytes_carry_val: "fe_val (tobytes_carry h) = fe_val h mod 2 ^ 255"
proof -
  have "fe_val (tobytes_carry h) mod 2 ^ 255 = fe_val h mod 2 ^ 255"
    by (simp only: tobytes_carry_def fold_simps tb_c9_mod tb_c_val)
  moreover have "fe_val (tobytes_carry h) mod 2 ^ 255 = fe_val (tobytes_carry h)"
    using fe_digits_range [OF tobytes_carry_digits [of h]] by simp
  ultimately show ?thesis by simp
qed

text \<open>A byte shared by two limbs, and the bits of a limb spread over bytes.\<close>

lemma uint_byte: "uint (byte x) = x mod 256"
  by (simp add: byte_def unsigned_of_int take_bit_eq_mod)

lemma or_join:
  assumes "0 \<le> a" "a < 2 ^ n"
  shows "or a (push_bit n b) = a + 2 ^ n * (b :: int)"
proof -
  have "or a (push_bit n b) = concat_bit n a b"
    using assms by (simp add: concat_bit_def take_bit_int_eq_self)
  then show ?thesis
    using assms by (simp add: concat_bit_eq take_bit_int_eq_self push_bit_eq_mult mult.commute)
qed

lemma digit_split:
  assumes "m = n + 8" and "k = n + 16"
  shows "x mod 2 ^ n + 2 ^ n * (x div 2 ^ n mod 256) + 2 ^ m * (x div 2 ^ m mod 256)
    + 2 ^ k * (x div 2 ^ k) = (x :: int)"
proof -
  have d: "x div 2 ^ (k + 8) = x div 2 ^ k div 256" for k
    by (simp add: power_add zdiv_zmult2_eq)
  have e: "y = y mod 256 + 256 * (y div 256)" for y :: int
    by simp
  have "x = x mod 2 ^ n + 2 ^ n * (x div 2 ^ n)"
    by simp
  also have "x div 2 ^ n = x div 2 ^ n mod 256 + 256 * (x div 2 ^ (n + 8) mod 256 + 256 * (x div 2 ^ (n + 8 + 8)))"
    unfolding d by simp
  finally show ?thesis
    by (simp add: assms power_add algebra_simps)
qed

lemma div_lessI:
  assumes "0 < (n :: int)" "a < n * c"
  shows "a div n < c"
proof -
  from div_bounds(1) [OF assms(1), of a] assms(2) have "n * (a div n) < n * c"
    by linarith
  with assms(1) show ?thesis by simp
qed

lemma byte_shr: "uint (byte (drop_bit k x)) = x div 2 ^ k mod 256"
  by (simp add: uint_byte drop_bit_eq_div)

lemma byte_low: "uint (byte (drop_bit 0 x)) = x mod 2 ^ 8"
  by (simp add: uint_byte)

lemma byte_top:
  "0 \<le> x \<Longrightarrow> x < 2 ^ w \<Longrightarrow> w \<le> k + 8 \<Longrightarrow> uint (byte (drop_bit k x)) = x div 2 ^ k"
  by (drule (1) order_less_le_trans [OF _ power_increasing [where a = 2]])
    (simp_all add: byte_shr power_add div_int_pos_iff div_lessI)

lemma byte_join:
  assumes "0 \<le> x" "x < 2 ^ w" "w = k + n" "n + m = 8"
  shows "uint (byte (or (drop_bit k x) (push_bit n y))) = x div 2 ^ k + 2 ^ n * (y mod 2 ^ m)"
proof -
  let ?a = "x div 2 ^ k"
  have a: "0 \<le> ?a" "?a < 2 ^ n"
    using assms by (simp_all add: div_int_pos_iff power_add div_lessI)
  have "(2 :: int) ^ n * 2 ^ m = 256"
    unfolding power_add [symmetric] assms(4) by simp
  then have "uint (byte (or (drop_bit k x) (push_bit n y))) = (?a + 2 ^ n * y) mod (2 ^ n * 2 ^ m)"
    by (simp add: uint_byte drop_bit_eq_div or_join [OF a])
  also have "\<dots> = ?a + 2 ^ n * (y mod 2 ^ m)"
    using a by (simp add: zmod_zmult2_eq)
  finally show ?thesis .
qed

lemma limb_assemble:
  fixes h0 :: int
  assumes "a0 + 2 ^ 8 * b0 + 2 ^ 16 * c0 + 2 ^ 24 * d0 = h0" "a1
    + 2 ^ 6 * b1 + 2 ^ 14 * c1 + 2 ^ 22 * d1 = h1" "a2 + 2 ^ 5 * b2 + 2 ^ 13 * c2 + 2 ^ 21 * d2 =
    h2" "a3 + 2 ^ 3 * b3 + 2 ^ 11 * c3 + 2 ^ 19 * d3 = h3" "a4 + 2 ^ 2 * b4 + 2 ^ 10 * c4 + 2 ^ 18 *
    d4 = h4" "a5 + 2 ^ 8 * b5 + 2 ^ 16 * c5 + 2 ^ 24 * d5 = h5" "a6 + 2 ^ 7 * b6 + 2 ^ 15 * c6 + 2 ^
    23 * d6 = h6" "a7 + 2 ^ 5 * b7 + 2 ^ 13 * c7 + 2 ^ 21 * d7 = h7" "a8 + 2 ^ 4 * b8 + 2 ^ 12 * c8
    + 2 ^ 20 * d8 = h8" "a9 + 2 ^ 2 * b9 + 2 ^ 10 * c9 + 2 ^ 18 * d9 = h9"
  shows "a0 + 256 * (b0 + 256 * (c0 + 256 * ((d0 + 2 ^ 2 * a1) + 256 * (b1 + 256 * (c1 + 256 * ((d1
    + 2 ^ 3 * a2) + 256 * (b2 + 256 * (c2 + 256 * ((d2 + 2 ^ 5 * a3) + 256 * (b3 + 256 * (c3 + 256 *
    ((d3 + 2 ^ 6 * a4) + 256 * (b4 + 256 * (c4 + 256 * (d4 + 256 * (a5 + 256 * (b5 + 256 * (c5 + 256
    * ((d5 + 2 ^ 1 * a6) + 256 * (b6 + 256 * (c6 + 256 * ((d6 + 2 ^ 3 * a7) + 256 * (b7 + 256 * (c7
    + 256 * ((d7 + 2 ^ 4 * a8) + 256 * (b8 + 256 * (c8 + 256 * ((d8 + 2 ^ 6 * a9) + 256 * (b9 + 256
    * (c9 + 256 * (d9 + 256 * 0))))))))))))))))))))))))))))))) =
    h0 + 2 ^ 26 * h1 + 2 ^ 51 * h2 + 2 ^ 77 * h3 + 2 ^ 102 * h4 + 2 ^ 128 * h5 + 2 ^ 153 * h6
    + 2 ^ 179 * h7 + 2 ^ 204 * h8 + 2 ^ 230 * h9"
  unfolding assms [symmetric] by algebra


lemma limb_bytes_val:
  assumes "fe_digits h"
  shows "le_val (limb_bytes h) = fe_val h"
proof (cases h)
  case (Fe h0 h1 h2 h3 h4 h5 h6 h7 h8 h9)
  note d = assms [unfolded fe_digits_def Fe fe.case atLeastLessThan_iff]
  have nn: "0 \<le> h0" "0 \<le> h1" "0 \<le> h2" "0 \<le> h3" "0 \<le> h4" "0 \<le> h5" 
      "0 \<le> h6" "0 \<le> h7" "0 \<le> h8" "0 \<le> h9"
    and lt: "h0 < 2 ^ 26" "h1 < 2 ^ 25" "h2 < 2 ^ 26" "h3 < 2 ^ 25" "h4 < 2 ^ 26" "h5 < 2 ^ 25"
      "h6 < 2 ^ 26" "h7 < 2 ^ 25" "h8 < 2 ^ 26" "h9 < 2 ^ 25"
    by (simp_all only: d)
  have j0: "uint (byte (or (drop_bit 24 h0) (push_bit 2 h1))) = h0 div 2 ^ 24 + 2 ^ 2 * (h1 mod 2 ^ 6)"
    by (rule byte_join [OF nn(1) lt(1)]) simp_all
  have j1: "uint (byte (or (drop_bit 22 h1) (push_bit 3 h2))) = h1 div 2 ^ 22 + 2 ^ 3 * (h2 mod 2 ^ 5)"
    by (rule byte_join [OF nn(2) lt(2)]) simp_all
  have j2: "uint (byte (or (drop_bit 21 h2) (push_bit 5 h3))) = h2 div 2 ^ 21 + 2 ^ 5 * (h3 mod 2 ^ 3)"
    by (rule byte_join [OF nn(3) lt(3)]) simp_all
  have j3: "uint (byte (or (drop_bit 19 h3) (push_bit 6 h4))) = h3 div 2 ^ 19 + 2 ^ 6 * (h4 mod 2 ^ 2)"
    by (rule byte_join [OF nn(4) lt(4)]) simp_all
  have j4: "uint (byte (drop_bit 18 h4)) = h4 div 2 ^ 18"
    by (rule byte_top [OF nn(5) lt(5)]) simp
  have j5: "uint (byte (or (drop_bit 24 h5) (push_bit 1 h6))) = h5 div 2 ^ 24 + 2 ^ 1 * (h6 mod 2 ^ 7)"
    by (rule byte_join [OF nn(6) lt(6)]) simp_all
  have j6: "uint (byte (or (drop_bit 23 h6) (push_bit 3 h7))) = h6 div 2 ^ 23 + 2 ^ 3 * (h7 mod 2 ^ 5)"
    by (rule byte_join [OF nn(7) lt(7)]) simp_all
  have j7: "uint (byte (or (drop_bit 21 h7) (push_bit 4 h8))) = h7 div 2 ^ 21 + 2 ^ 4 * (h8 mod 2 ^ 4)"
    by (rule byte_join [OF nn(8) lt(8)]) simp_all
  have j8: "uint (byte (or (drop_bit 20 h8) (push_bit 6 h9))) = h8 div 2 ^ 20 + 2 ^ 6 * (h9 mod 2 ^ 2)"
    by (rule byte_join [OF nn(9) lt(9)]) simp_all
  have j9: "uint (byte (drop_bit 18 h9)) = h9 div 2 ^ 18"
    by (rule byte_top [OF nn(10) lt(10)]) simp
  have s0: "h0 mod 2 ^ 8 + 2 ^ 8 * (h0 div 2 ^ 8 mod 256) + 2 ^ 16 * (h0 div 2 ^ 16 mod 256) + 2 ^ 24 * (h0
     div 2 ^ 24) = h0"
    by (rule digit_split) simp_all
  have s1: "h1 mod 2 ^ 6 + 2 ^ 6 * (h1 div 2 ^ 6 mod 256) + 2 ^ 14 * (h1 div 2 ^ 14 mod 256) + 2 ^ 22 *
     (h1 div 2 ^ 22) = h1"
    by (rule digit_split) simp_all
  have s2: "h2 mod 2 ^ 5 + 2 ^ 5 * (h2 div 2 ^ 5 mod 256) + 2 ^ 13 * (h2 div 2 ^ 13 mod 256) + 2 ^ 21 *
     (h2 div 2 ^ 21) = h2"
    by (rule digit_split) simp_all
  have s3: "h3 mod 2 ^ 3 + 2 ^ 3 * (h3 div 2 ^ 3 mod 256) + 2 ^ 11 * (h3 div 2 ^ 11 mod 256) + 2 ^ 19 *
     (h3 div 2 ^ 19) = h3"
    by (rule digit_split) simp_all
  have s4: "h4 mod 2 ^ 2 + 2 ^ 2 * (h4 div 2 ^ 2 mod 256) + 2 ^ 10 * (h4 div 2 ^ 10 mod 256) + 2 ^ 18 *
     (h4 div 2 ^ 18) = h4"
    by (rule digit_split) simp_all
  have s5: "h5 mod 2 ^ 8 + 2 ^ 8 * (h5 div 2 ^ 8 mod 256) + 2 ^ 16 * (h5 div 2 ^ 16 mod 256) + 2 ^ 24 * (h5
     div 2 ^ 24) = h5"
    by (rule digit_split) simp_all
  have s6: "h6 mod 2 ^ 7 + 2 ^ 7 * (h6 div 2 ^ 7 mod 256) + 2 ^ 15 * (h6 div 2 ^ 15 mod 256) + 2 ^ 23 *
     (h6 div 2 ^ 23) = h6"
    by (rule digit_split) simp_all
  have s7: "h7 mod 2 ^ 5 + 2 ^ 5 * (h7 div 2 ^ 5 mod 256) + 2 ^ 13 * (h7 div 2 ^ 13 mod 256) + 2 ^ 21 *
     (h7 div 2 ^ 21) = h7"
    by (rule digit_split) simp_all
  have s8: "h8 mod 2 ^ 4 + 2 ^ 4 * (h8 div 2 ^ 4 mod 256) + 2 ^ 12 * (h8 div 2 ^ 12 mod 256) + 2 ^ 20 *
     (h8 div 2 ^ 20) = h8"
    by (rule digit_split) simp_all
  have s9: "h9 mod 2 ^ 2 + 2 ^ 2 * (h9 div 2 ^ 2 mod 256) + 2 ^ 10 * (h9 div 2 ^ 10 mod 256) + 2 ^ 18 *
     (h9 div 2 ^ 18) = h9"
    by (rule digit_split) simp_all
  show ?thesis
    unfolding limb_bytes_def Fe fe.case le_val.simps j0 j1 j2 j3 j4 j5 j6 j7 j8 j9 byte_low
    unfolding byte_shr fe_val.simps
    by (rule limb_assemble [OF s0 s1 s2 s3 s4 s5 s6 s7 s8 s9])
qed

lemma fe_tobytes_val:
  assumes "fe_le add_post h"
  shows "le_val (fe_tobytes h) = fe_mod h"
proof -
  have "fe_val (fe_add h (Fe (19 * tobytes_q h) 0 0 0 0 0 0 0 0 0)) = fe_mod h + 2 ^ 255 * tobytes_q h"
    using tobytes_q_exact [OF assms] by (simp add: fe_add_val p25519_def algebra_simps)
  then have "le_val (fe_tobytes h) = fe_mod h mod 2 ^ 255"
    unfolding fe_tobytes_def limb_bytes_val [OF tobytes_carry_digits] tobytes_carry_val
    by (simp only: mod_mult_self2)
  also have "\<dots> = fe_mod h"
    using fe_mod_range [of h] by (simp add: p25519_def)
  finally show ?thesis .
qed

lemma fe_tobytes_length [simp]: "length (fe_tobytes h) = 32"
  by (cases h) (simp add: fe_tobytes_def limb_bytes_def split: fe.split)

lemma le_val_mod2: "s \<noteq> [] \<Longrightarrow> le_val s mod 2 = uint (hd s) mod 2"
proof (cases s)
  case (Cons b bs)
  have "(uint b + 256 * le_val bs) mod 2 = uint b mod 2"
    by presburger
  with Cons show ?thesis by simp
qed simp

lemma fe_isnegative_val:
  assumes "fe_le add_post f"
  shows "fe_isnegative f = fe_mod f mod 2"
proof -
  have "fe_tobytes f \<noteq> []"
    using fe_tobytes_length [of f] by force
  then show ?thesis
    unfolding fe_tobytes_val [OF assms, symmetric]
    by (simp add: le_val_mod2 fe_isnegative_def and_one_eq uint_mod)
qed

lemma le_val_zero: "le_val s = 0 \<longleftrightarrow> (\<forall>b \<in> set s. b = 0)"
proof (induction s)
  case (Cons b s)
  have "0 \<le> le_val s"
    by (induction s) simp_all
  then have "le_val (b # s) = 0 \<longleftrightarrow> uint b = 0 \<and> le_val s = 0"
    by (simp add: add_nonneg_eq_0_iff)
  with Cons.IH show ?case by (simp add: uint_0_iff)
qed simp

lemma fold_or_zero: "fold or s (z :: 8 word) = 0 \<longleftrightarrow> z = 0 \<and> (\<forall>b \<in> set s. b = 0)"
  by (induction s arbitrary: z) (auto simp: or_eq_0_iff)

lemma fe_isnonzero_val:
  assumes "fe_le add_post f"
  shows "fe_isnonzero f = (if fe_mod f = 0 then 0 else 1)"
proof -
  let ?w = "fold or (fe_tobytes f) 0"
  have "fe_mod f = 0 \<longleftrightarrow> ?w = 0"
    by (simp add: fe_tobytes_val [OF assms, symmetric] le_val_zero fold_or_zero)
  moreover have "drop_bit 8 (uint ?w - 1) = (if ?w = 0 then - 1 else 0)"
  proof (cases "?w = 0")
    case False
    then have "0 < uint ?w"
      by (simp add: order_less_le uint_0_iff eq_commute [of 0])
    then show ?thesis
      using False uint_lt2p [of ?w] by (simp add: drop_bit_eq_div div_pos_pos_trivial)
  qed simp
  ultimately show ?thesis
    by (simp add: fe_isnonzero_def)
qed

section \<open>Decoding\<close>

definition load_3 :: "8 word list \<Rightarrow> 64 word" where
  "load_3 s =
    (let result = ucast (s ! 0);
         result = or result (push_bit 8 (ucast (s ! 1)));
         result = or result (push_bit 16 (ucast (s ! 2)))
     in result)"

definition load_4 :: "8 word list \<Rightarrow> 64 word" where
  "load_4 s =
    (let result = ucast (s ! 0);
         result = or result (push_bit 8 (ucast (s ! 1)));
         result = or result (push_bit 16 (ucast (s ! 2)));
         result = or result (push_bit 24 (ucast (s ! 3)))
     in result)"

text \<open>The ten limbs read from 32 bytes, before the carries; the top bit is dropped.\<close>

definition frombytes_limbs :: "8 word list \<Rightarrow> fe" where
  "frombytes_limbs s =
    Fe (uint (load_4 s))
      (uint (push_bit 6 (load_3 (drop 4 s))))
      (uint (push_bit 5 (load_3 (drop 7 s))))
      (uint (push_bit 3 (load_3 (drop 10 s))))
      (uint (push_bit 2 (load_3 (drop 13 s))))
      (uint (load_4 (drop 16 s)))
      (uint (push_bit 7 (load_3 (drop 20 s))))
      (uint (push_bit 5 (load_3 (drop 23 s))))
      (uint (push_bit 4 (load_3 (drop 26 s))))
      (uint (push_bit 2 (and (load_3 (drop 29 s)) 8388607)))"

text \<open>The test that refuses the residues from the prime up to 2^255 - 1.\<close>

definition noncanonical :: "fe \<Rightarrow> bool" where
  "noncanonical h = (case h of Fe h0 h1 h2 h3 h4 h5 h6 h7 h8 h9 \<Rightarrow>
    h9 = 33554428 \<and> h8 = 268435440 \<and> h7 = 536870880 \<and> h6 = 2147483520 \<and> h5 = 4294967295
    \<and> h4 = 67108860 \<and> h3 = 134217720 \<and> h2 = 536870880 \<and> h1 = 1073741760 \<and> 4294967277 \<le> h0)"

text \<open>The carries of the decoding, odd limbs first.\<close>

definition frombytes_carry :: "fe \<Rightarrow> fe" where
  "frombytes_carry h =
    fold (\<lambda>c. c) [fe_c9, fe_c1, fe_c3, fe_c5, fe_c7, fe_c0, fe_c2, fe_c4, fe_c6, fe_c8] h"

definition fe_frombytes :: "8 word list \<Rightarrow> fe option" where
  "fe_frombytes s =
    (let h = frombytes_limbs s
     in if noncanonical h then None else Some (frombytes_carry h))"

lemma uint_shift: "n + 8 \<le> 64 \<Longrightarrow> uint (push_bit n (ucast (b :: 8 word)) :: 64 word) = push_bit n (uint b)"
proof -
  assume n: "n + 8 \<le> 64"
  have "push_bit n (uint b) < 2 ^ n * 2 ^ 8"
    using uint_lt2p [of b] by (simp add: push_bit_eq_mult)
  also have "(2 :: int) ^ n * 2 ^ 8 \<le> 2 ^ 64"
    using n unfolding power_add [symmetric] by (rule power_increasing) simp
  finally have "take_bit 64 (push_bit n (uint b)) = push_bit n (uint b)"
    by (simp add: take_bit_int_eq_self push_bit_eq_mult)
  then show ?thesis
    by (simp add: unsigned_push_bit_eq unsigned_ucast_eq take_bit_push_bit)
qed

lemma load_3_val: "uint (load_3 s) = uint (s ! 0) + 2 ^ 8 * uint (s ! 1) + 2 ^ 16 * uint (s ! 2)"
proof -
  have b: "0 \<le> uint b" "uint b < 256" for b :: "8 word"
    using uint_lt2p [of b] by simp_all
  show ?thesis
    using b [of "s ! 0"] b [of "s ! 1"]
    by (simp add: load_3_def unsigned_or_eq uint_shift unsigned_ucast_eq or_join take_bit_int_eq_self
        uint_lt2p)
qed

lemma load_4_val:
  "uint (load_4 s) = uint (s ! 0) + 2 ^ 8 * uint (s ! 1) + 2 ^ 16 * uint (s ! 2) + 2 ^ 24 * uint (s ! 3)"
proof -
  have b: "0 \<le> uint b" "uint b < 256" for b :: "8 word"
    using uint_lt2p [of b] by simp_all
  show ?thesis
    using b [of "s ! 0"] b [of "s ! 1"] b [of "s ! 2"]
    by (simp add: load_4_def unsigned_or_eq uint_shift unsigned_ucast_eq or_join take_bit_int_eq_self)
qed

lemma load_3_lt: "uint (load_3 s) < 2 ^ 24"
  using uint_lt2p [of "s ! 0"] uint_lt2p [of "s ! 1"] uint_lt2p [of "s ! 2"]
  by (simp add: load_3_val)

lemma load_4_lt: "uint (load_4 s) < 2 ^ 32"
  using uint_lt2p [of "s ! 0"] uint_lt2p [of "s ! 1"] uint_lt2p [of "s ! 2"] uint_lt2p [of "s ! 3"]
  by (simp add: load_4_val)

lemma uint_load_3_shift:
  assumes "n \<le> 8"
  shows "uint (push_bit n (load_3 s)) = 2 ^ n * uint (load_3 s)"
proof -
  have "2 ^ n * uint (load_3 s) < 2 ^ 8 * 2 ^ 24"
    using assms load_3_lt [of s]
    by (intro mult_le_less_imp_less power_increasing) simp_all
  then have "take_bit 64 (2 ^ n * uint (load_3 s)) = 2 ^ n * uint (load_3 s)"
    by (intro take_bit_int_eq_self) simp_all
  then show ?thesis
    unfolding unsigned_push_bit_eq by (simp add: push_bit_eq_mult mult.commute)
qed

lemma uint_load_3_mask:
  "uint (push_bit 2 (and (load_3 s) 8388607)) = 2 ^ 2 * (uint (load_3 s) mod 2 ^ 23)"
proof -
  have "and (load_3 s) 8388607 = take_bit 23 (load_3 s)"
    by (simp add: take_bit_eq_mask mask_eq_exp_minus_1)
  then have u: "uint (and (load_3 s) 8388607) = uint (load_3 s) mod 2 ^ 23"
    by (simp only: unsigned_take_bit_eq take_bit_eq_mod [of 23 "uint (load_3 s)"])
  have "take_bit 64 (2 ^ 2 * (uint (load_3 s) mod 2 ^ 23)) = 2 ^ 2 * (uint (load_3 s) mod 2 ^ 23)"
    using pos_mod_bound [of "2 ^ 23" "uint (load_3 s)"] by (intro take_bit_int_eq_self) simp_all
  then show ?thesis
    unfolding unsigned_push_bit_eq u by (simp add: push_bit_eq_mult mult.commute)
qed

text \<open>The bytes of an encoding, by index.\<close>

lemma le_val_nth:
  assumes "length s = 32"
  shows "le_val s =
    uint (s ! 0) + 256 * (uint (s ! 1) + 256 * (uint (s ! 2) + 256 * (uint (s ! 3) + 256 * (uint
      (s ! 4) + 256 * (uint (s ! 5) + 256 * (uint (s ! 6) + 256 * (uint (s ! 7) + 256 * (uint (s !
      8) + 256 * (uint (s ! 9) + 256 * (uint (s ! 10) + 256 * (uint (s ! 11) + 256 * (uint (s ! 12)
      + 256 * (uint (s ! 13) + 256 * (uint (s ! 14) + 256 * (uint (s ! 15) + 256 * (uint (s ! 16) +
      256 * (uint (s ! 17) + 256 * (uint (s ! 18) + 256 * (uint (s ! 19) + 256 * (uint (s ! 20) +
      256 * (uint (s ! 21) + 256 * (uint (s ! 22) + 256 * (uint (s ! 23) + 256 * (uint (s ! 24) +
      256 * (uint (s ! 25) + 256 * (uint (s ! 26) + 256 * (uint (s ! 27) + 256 * (uint (s ! 28) +
      256 * (uint (s ! 29) + 256 * (uint (s ! 30) + 256 * (uint (s !
      31))))))))))))))))))))))))))))))))"
proof -
  have "s = map ((!) s) [0..<32]"
    using assms by (metis map_nth)
  then have "le_val s = le_val (map ((!) s) [0..<32])"
    by simp
  also have "[0..<32] = [0, 1, 2, 3, 4, 5, 6, 7, 8, 9, 10, 11, 12, 13, 14, 15, 16, 17, 18, 19, 20, 21, 22,
      23, 24, 25, 26, 27, 28, 29, 30, 31]"
    by (simp add: upt_rec)
  finally show ?thesis
    by (simp only: list.map le_val.simps mult_zero_right add_0_right)
qed

definition limbs_bd :: fe where
  "limbs_bd =
    (Fe (2 ^ 32) (2 ^ 6 * 2 ^ 24) (2 ^ 5 * 2 ^ 24) (2 ^ 3 * 2 ^ 24) (2\<^sup>2 * 2 ^ 24) (2 ^ 32)
      (2 ^ 7 * 2 ^ 24) (2 ^ 5 * 2 ^ 24) (2 ^ 4 * 2 ^ 24) (2\<^sup>2 * 2 ^ 23))"

lemma frombytes_limbs_loads:
  "frombytes_limbs s =
    Fe (uint (load_4 s)) (2 ^ 6 * uint (load_3 (drop 4 s))) (2 ^ 5 * uint (load_3 (drop 7 s)))
      (2 ^ 3 * uint (load_3 (drop 10 s))) (2 ^ 2 * uint (load_3 (drop 13 s))) (uint (load_4 (drop 16 s)))
      (2 ^ 7 * uint (load_3 (drop 20 s))) (2 ^ 5 * uint (load_3 (drop 23 s)))
      (2 ^ 4 * uint (load_3 (drop 26 s))) (2 ^ 2 * (uint (load_3 (drop 29 s)) mod 2 ^ 23))"
  unfolding frombytes_limbs_def uint_load_3_mask by (simp add: uint_load_3_shift)

lemma frombytes_limbs_val:
  assumes s: "length s = 32"
  shows "fe_val (frombytes_limbs s) = le_val s mod 2 ^ 255"
    and "fe_le limbs_bd (frombytes_limbs s)"
proof -
  have nth: "drop k s ! j = s ! (k + j)" if "k \<le> 32" for k j
    using s that by simp
  let ?t = "uint (s ! 29) + 2 ^ 8 * uint (s ! 30) + 2 ^ 16 * uint (s ! 31)"
  have v: "frombytes_limbs s =
    Fe (uint (s ! 0) + 2 ^ 8 * uint (s ! 1) + 2 ^ 16 * uint (s ! 2) + 2 ^ 24 * uint (s ! 3))
      (2 ^ 6 * (uint (s ! 4) + 2 ^ 8 * uint (s ! 5) + 2 ^ 16 * uint (s ! 6)))
      (2 ^ 5 * (uint (s ! 7) + 2 ^ 8 * uint (s ! 8) + 2 ^ 16 * uint (s ! 9)))
      (2 ^ 3 * (uint (s ! 10) + 2 ^ 8 * uint (s ! 11) + 2 ^ 16 * uint (s ! 12)))
      (2 ^ 2 * (uint (s ! 13) + 2 ^ 8 * uint (s ! 14) + 2 ^ 16 * uint (s ! 15)))
      (uint (s ! 16) + 2 ^ 8 * uint (s ! 17) + 2 ^ 16 * uint (s ! 18) + 2 ^ 24 * uint (s ! 19))
      (2 ^ 7 * (uint (s ! 20) + 2 ^ 8 * uint (s ! 21) + 2 ^ 16 * uint (s ! 22)))
      (2 ^ 5 * (uint (s ! 23) + 2 ^ 8 * uint (s ! 24) + 2 ^ 16 * uint (s ! 25)))
      (2 ^ 4 * (uint (s ! 26) + 2 ^ 8 * uint (s ! 27) + 2 ^ 16 * uint (s ! 28)))
      (2 ^ 2 * (?t mod 2 ^ 23))"
    unfolding frombytes_limbs_def uint_load_3_mask
    by (simp add: uint_load_3_shift load_3_val load_4_val nth)
  note w = frombytes_limbs_loads [of s]
  have b3: "0 \<le> uint (load_3 x)" "uint (load_3 x) < 2 ^ 24" for x
    by (rule uint_ge_0 load_3_lt)+
  have b4: "0 \<le> uint (load_4 x)" "uint (load_4 x) < 2 ^ 32" for x
    by (rule uint_ge_0 load_4_lt)+
  have t: "0 \<le> uint (load_3 (drop 29 s)) mod 2 ^ 23" "uint (load_3 (drop 29 s)) mod 2 ^ 23 < 2 ^ 23"
    by (rule pos_mod_sign pos_mod_bound, simp)+
  show "fe_le limbs_bd (frombytes_limbs s)"
    unfolding w limbs_bd_def fe_le_def prod.case fe.case
    using b3 b4 t by (simp add: abs_mult less_imp_le)
  have r: "0 \<le> fe_val (frombytes_limbs s)"
    unfolding w by simp
  have r2: "fe_val (frombytes_limbs s) < 2 ^ 255"
    using b3(2) [of "drop 4 s"] b3(2) [of "drop 7 s"] b3(2) [of "drop 10 s"] b3(2) [of "drop 13 s"]
      b3(2) [of "drop 20 s"] b3(2) [of "drop 23 s"] b3(2) [of "drop 26 s"] b4(2) [of s]
      b4(2) [of "drop 16 s"] t(2)
    unfolding w by simp
  define d m where "d = ?t div 2 ^ 23" and "m = ?t mod 2 ^ 23"
  have dm: "?t = 2 ^ 23 * d + m"
    by (simp add: d_def m_def)
  have "le_val s = fe_val (frombytes_limbs s) + 2 ^ 255 * d"
    unfolding v fe_val.simps m_def [symmetric] le_val_nth [OF s]
    using dm by algebra
  with r r2 show "fe_val (frombytes_limbs s) = le_val s mod 2 ^ 255"
    by simp
qed

lemma frombytes_carry_mod: "fe_val (frombytes_carry h) mod p25519 = fe_val h mod p25519"
  by (simp only: frombytes_carry_def fold_simps fe_c_val fe_c9_mod)

text \<open>The carried limbs satisfy the preconditions of the multiplication.\<close>

definition bd_frombytes :: "fe \<Rightarrow> fe" where
  "bd_frombytes h =
    fold (\<lambda>c. c) [bd_c9, bd_c1, bd_c3, bd_c5, bd_c7, bd_c0, bd_c2, bd_c4, bd_c6, bd_c8] h"

lemma frombytes_carry_le: "fe_le b h \<Longrightarrow> fe_le (bd_frombytes b) (frombytes_carry h)"
  unfolding bd_frombytes_def frombytes_carry_def fold_simps by (intro fe_c_le)

lemma bd_frombytes_post: "fe_le mul_post (bd_frombytes limbs_bd)"
  by code_simp

lemma top_residues:
  fixes x0 :: int
  assumes "0 \<le> x0" "x0 < 2 ^ 32" "0 \<le> x1" "x1 < 2 ^ 24" "0 \<le> x2" "x2 < 2 ^ 24" "0 \<le> x3" "x3 < 2 ^ 24"
    "0 \<le> x4" "x4 < 2 ^ 24" "0 \<le> x5" "x5 < 2 ^ 32" "0 \<le> x6" "x6 < 2 ^ 24" "0 \<le> x7" "x7 < 2 ^ 24"
    "0 \<le> x8" "x8 < 2 ^ 24" "0 \<le> x9" "x9 < 2 ^ 23"
  shows "2\<^sup>2 * x9 = 33554428 \<and> 2 ^ 4 * x8 = 268435440 \<and> 2 ^ 5 * x7 = 536870880 \<and> 2 ^ 7 * x6 = 2147483520
    \<and> x5 = 4294967295 \<and> 2\<^sup>2 * x4 = 67108860 \<and> 2 ^ 3 * x3 = 134217720 \<and> 2 ^ 5 * x2 = 536870880
    \<and> 2 ^ 6 * x1 = 1073741760 \<and> 4294967277 \<le> x0 \<longleftrightarrow>
    p25519 \<le> x0 + 2 ^ 26 * (2 ^ 6 * x1) + 2 ^ 51 * (2 ^ 5 * x2) + 2 ^ 77 * (2 ^ 3 * x3)
      + 2 ^ 102 * (2\<^sup>2 * x4) + 2 ^ 128 * x5 + 2 ^ 153 * (2 ^ 7 * x6) + 2 ^ 179 * (2 ^ 5 * x7)
      + 2 ^ 204 * (2 ^ 4 * x8) + 2 ^ 230 * (2\<^sup>2 * x9)" (is "?top \<longleftrightarrow> p25519 \<le> ?v")
proof
  assume ge: "p25519 \<le> ?v"
  have "x9 = 8388607" using ge assms by (simp add: p25519_def)
  moreover have "x8 = 16777215" using ge assms calculation by (simp add: p25519_def)
  moreover have "x7 = 16777215" using ge assms calculation by (simp add: p25519_def)
  moreover have "x6 = 16777215" using ge assms calculation by (simp add: p25519_def)
  moreover have "x5 = 4294967295" using ge assms calculation by (simp add: p25519_def)
  moreover have "x4 = 16777215" using ge assms calculation by (simp add: p25519_def)
  moreover have "x3 = 16777215" using ge assms calculation by (simp add: p25519_def)
  moreover have "x2 = 16777215" using ge assms calculation by (simp add: p25519_def)
  moreover have "x1 = 16777215" using ge assms calculation by (simp add: p25519_def)
  ultimately show ?top using ge by (simp add: p25519_def)
qed (use assms in \<open>simp add: p25519_def\<close>)

lemma noncanonical_val:
  assumes s: "length s = 32"
  shows "noncanonical (frombytes_limbs s) \<longleftrightarrow> p25519 \<le> le_val s mod 2 ^ 255"
proof -
  have *: "0 \<le> uint (load_3 x)" "uint (load_3 x) < 2 ^ 24" "0 \<le> uint (load_4 x)" "uint (load_4 x) < 2 ^ 32"
    "0 \<le> uint (load_3 x) mod 2 ^ 23" "uint (load_3 x) mod 2 ^ 23 < 2 ^ 23" for x
    by (rule uint_ge_0 load_3_lt load_4_lt pos_mod_sign pos_mod_bound zero_less_power zero_less_numeral)+
  show ?thesis
    unfolding frombytes_limbs_val(1) [OF s, symmetric]
    unfolding frombytes_limbs_loads noncanonical_def fe.case fe_val.simps
    by (rule top_residues [OF *(3, 4) [of s] *(1, 2) [of "drop 4 s"] *(1, 2) [of "drop 7 s"]
        *(1, 2) [of "drop 10 s"] *(1, 2) [of "drop 13 s"] *(3, 4) [of "drop 16 s"]
        *(1, 2) [of "drop 20 s"] *(1, 2) [of "drop 23 s"] *(1, 2) [of "drop 26 s"]
        *(5, 6) [of "drop 29 s"]])
qed

lemma fe_frombytes_none:
  "length s = 32 \<Longrightarrow> fe_frombytes s = None \<longleftrightarrow> p25519 \<le> le_val s mod 2 ^ 255"
  by (simp add: fe_frombytes_def Let_def noncanonical_val)

lemma fe_frombytes_some:
  assumes "length s = 32" and "fe_frombytes s = Some h"
  shows "fe_mod h = le_val s mod 2 ^ 255" and "fe_le mul_post h"
proof -
  from assms(2) have h: "h = frombytes_carry (frombytes_limbs s)" and c: "\<not> noncanonical (frombytes_limbs s)"
    by (simp_all add: fe_frombytes_def Let_def split: if_splits)
  from c have "le_val s mod 2 ^ 255 < p25519"
    by (simp add: noncanonical_val [OF assms(1)])
  then show "fe_mod h = le_val s mod 2 ^ 255"
    by (simp add: h fe_mod_def frombytes_carry_mod frombytes_limbs_val(1) [OF assms(1)])
  show "fe_le mul_post h"
    unfolding h by (rule fe_le_trans [OF bd_frombytes_post frombytes_carry_le [OF
          frombytes_limbs_val(2) [OF assms(1)]]])
qed

text \<open>Decoding what was encoded gives the same residue, and encoding what was decoded the same bytes.\<close>

lemma le_val_inj: "length s = length t \<Longrightarrow> le_val s = le_val t \<Longrightarrow> s = t"
proof (induction s t rule: list_induct2)
  case (Cons a s b t)
  have m: "(uint x + 256 * y) mod 256 = uint x" "(uint x + 256 * y) div 256 = y" for x :: "8 word" and y
    using uint_lt2p [of x] by simp_all
  from Cons.prems have "uint a = uint b" "le_val s = le_val t"
    using m [of a "le_val s"] m [of b "le_val t"] by simp_all
  with Cons.IH show ?case by (simp add: word_uint_eq_iff)
qed simp

lemma tobytes_frombytes:
  assumes "fe_le add_post h"
  shows "\<exists>g. fe_frombytes (fe_tobytes h) = Some g \<and> fe_mod g = fe_mod h \<and> fe_le mul_post g"
proof -
  have v: "le_val (fe_tobytes h) mod 2 ^ 255 = fe_mod h"
    using fe_mod_range [of h] by (simp add: fe_tobytes_val [OF assms] p25519_def)
  then have "fe_frombytes (fe_tobytes h) \<noteq> None"
    using fe_mod_range [of h] by (simp add: fe_frombytes_none)
  then obtain g where g: "fe_frombytes (fe_tobytes h) = Some g"
    by blast
  with fe_frombytes_some [OF fe_tobytes_length g] v show ?thesis
    by simp
qed

lemma frombytes_tobytes:
  assumes s: "length s = 32" and g: "fe_frombytes s = Some g" and t: "le_val s < 2 ^ 255"
  shows "fe_tobytes g = s"
proof -
  have "fe_le add_post g"
    using fe_frombytes_some(2) [OF s g] post_in_pre(3) fe_le_trans by blast
  moreover have "0 \<le> le_val s"
    by (induction s) simp_all
  ultimately have "le_val (fe_tobytes g) = le_val s"
    using fe_frombytes_some(1) [OF s g] t by (simp add: fe_tobytes_val)
  then show ?thesis
    by (intro le_val_inj) (simp_all add: s)
qed

end
