(* ===== verification/Scalar25519.thy ===== *)
theory Scalar25519 imports FieldBytes
begin

text \<open>
  The scalar arithmetic of src/src/base/tools/cryptonote/crypto-ops.c: integers modulo the order of the
  base point in 21-bit limbs.  Every sc_ function is loads, the sums of products of the limbs, and a
  straight line of carries and foldings that is the same in all of them; the lines are the
  instructions of \<open>sc_op\<close> and the functions run lists of them.  64-bit signed integers are mathematical
  integers, with bounds that show they do not overflow.
\<close>

section \<open>The operations\<close>

text \<open>The order of the base point.\<close>

definition l25519 :: int where
  "l25519 = 2 ^ 252 + 27742317777372353535851937790883648493"

text \<open>
  \<^term>\<open>Carry i\<close> and \<^term>\<open>Floor i\<close> are the carry of limb i, rounded and rounded down; \<^term>\<open>Fold k\<close> replaces limb k by its
  value modulo the order, added to limbs k - 12 to k - 7; \<^term>\<open>Zero k\<close> clears a limb.
\<close>

datatype sc_op = Carry nat | Floor nat | Fold nat | Zero nat

fun sc_do :: "sc_op \<Rightarrow> int list \<Rightarrow> int list" where
  "sc_do (Carry i) s =
    (let c = (s ! i + 2 ^ 20) div 2 ^ 21
     in s[Suc i := s ! Suc i + c, i := s ! i - c * 2 ^ 21])"
| "sc_do (Floor i) s =
    (let c = s ! i div 2 ^ 21
     in s[Suc i := s ! Suc i + c, i := s ! i - c * 2 ^ 21])"
| "sc_do (Fold k) s =
    (let x = s ! k
     in s[k - 12 := s ! (k - 12) + x * 666643,
          k - 11 := s ! (k - 11) + x * 470296,
          k - 10 := s ! (k - 10) + x * 654183,
          k - 9 := s ! (k - 9) - x * 997805,
          k - 8 := s ! (k - 8) + x * 136657,
          k - 7 := s ! (k - 7) - x * 683901])"
| "sc_do (Zero k) s = s[k := 0]"

definition sc_run :: "sc_op list \<Rightarrow> int list \<Rightarrow> int list" where
  "sc_run ops s = fold sc_do ops s"

text \<open>The end all the functions share, and what sc_reduce and the products run before it.\<close>

definition sc_round_steps :: "sc_op list" where
  "sc_round_steps =
    map Carry [0, 2, 4, 6, 8, 10] @ map Carry [1, 3, 5, 7, 9, 11] @ [Fold 12, Zero 12]"

definition sc_final_steps :: "sc_op list" where
  "sc_final_steps = map Floor [0..<12] @ [Fold 12] @ map Floor [0..<11]"

definition sc_reduce_steps :: "sc_op list" where
  "sc_reduce_steps =
    map Fold [23, 22, 21, 20, 19, 18] @ map Carry [6, 8, 10, 12, 14, 16] @ map Carry [7, 9, 11, 13, 15]
    @ map Fold [17, 16, 15, 14, 13, 12] @ [Zero 12]"

definition sc_mul_steps :: "sc_op list" where
  "sc_mul_steps =
    map Carry [0, 2, 4, 6, 8, 10, 12, 14, 16, 18, 20, 22]
    @ map Carry [1, 3, 5, 7, 9, 11, 13, 15, 17, 19, 21]"

text \<open>The limbs of 32 and of 64 bytes, and the bytes of twelve limbs.\<close>

definition sc_limbs :: "8 word list \<Rightarrow> int list" where
  "sc_limbs s =
    [uint (and 2097151 (load_3 s)), uint (and 2097151 (drop_bit 5 (load_4 (drop 2 s)))),
     uint (and 2097151 (drop_bit 2 (load_3 (drop 5 s)))),
     uint (and 2097151 (drop_bit 7 (load_4 (drop 7 s)))),
     uint (and 2097151 (drop_bit 4 (load_4 (drop 10 s)))),
     uint (and 2097151 (drop_bit 1 (load_3 (drop 13 s)))),
     uint (and 2097151 (drop_bit 6 (load_4 (drop 15 s)))),
     uint (and 2097151 (drop_bit 3 (load_3 (drop 18 s)))), uint (and 2097151 (load_3 (drop 21 s))),
     uint (and 2097151 (drop_bit 5 (load_4 (drop 23 s)))),
     uint (and 2097151 (drop_bit 2 (load_3 (drop 26 s)))), uint (drop_bit 7 (load_4 (drop 28 s)))]"

definition sc_limbs64 :: "8 word list \<Rightarrow> int list" where
  "sc_limbs64 s =
    [uint (and 2097151 (load_3 s)), uint (and 2097151 (drop_bit 5 (load_4 (drop 2 s)))),
     uint (and 2097151 (drop_bit 2 (load_3 (drop 5 s)))),
     uint (and 2097151 (drop_bit 7 (load_4 (drop 7 s)))),
     uint (and 2097151 (drop_bit 4 (load_4 (drop 10 s)))),
     uint (and 2097151 (drop_bit 1 (load_3 (drop 13 s)))),
     uint (and 2097151 (drop_bit 6 (load_4 (drop 15 s)))),
     uint (and 2097151 (drop_bit 3 (load_3 (drop 18 s)))), uint (and 2097151 (load_3 (drop 21 s))),
     uint (and 2097151 (drop_bit 5 (load_4 (drop 23 s)))),
     uint (and 2097151 (drop_bit 2 (load_3 (drop 26 s)))),
     uint (and 2097151 (drop_bit 7 (load_4 (drop 28 s)))),
     uint (and 2097151 (drop_bit 4 (load_4 (drop 31 s)))),
     uint (and 2097151 (drop_bit 1 (load_3 (drop 34 s)))),
     uint (and 2097151 (drop_bit 6 (load_4 (drop 36 s)))),
     uint (and 2097151 (drop_bit 3 (load_3 (drop 39 s)))), uint (and 2097151 (load_3 (drop 42 s))),
     uint (and 2097151 (drop_bit 5 (load_4 (drop 44 s)))),
     uint (and 2097151 (drop_bit 2 (load_3 (drop 47 s)))),
     uint (and 2097151 (drop_bit 7 (load_4 (drop 49 s)))),
     uint (and 2097151 (drop_bit 4 (load_4 (drop 52 s)))),
     uint (and 2097151 (drop_bit 1 (load_3 (drop 55 s)))),
     uint (and 2097151 (drop_bit 6 (load_4 (drop 57 s)))), uint (drop_bit 3 (load_4 (drop 60 s)))]"

definition sc_bytes :: "int list \<Rightarrow> 8 word list" where
  "sc_bytes s =
    [byte (drop_bit 0 (s ! 0)), byte (drop_bit 8 (s ! 0)),
     byte (or (drop_bit 16 (s ! 0)) (push_bit 5 (s ! 1))), byte (drop_bit 3 (s ! 1)),
     byte (drop_bit 11 (s ! 1)), byte (or (drop_bit 19 (s ! 1)) (push_bit 2 (s ! 2))),
     byte (drop_bit 6 (s ! 2)), byte (or (drop_bit 14 (s ! 2)) (push_bit 7 (s ! 3))),
     byte (drop_bit 1 (s ! 3)), byte (drop_bit 9 (s ! 3)),
     byte (or (drop_bit 17 (s ! 3)) (push_bit 4 (s ! 4))), byte (drop_bit 4 (s ! 4)),
     byte (drop_bit 12 (s ! 4)), byte (or (drop_bit 20 (s ! 4)) (push_bit 1 (s ! 5))),
     byte (drop_bit 7 (s ! 5)), byte (or (drop_bit 15 (s ! 5)) (push_bit 6 (s ! 6))),
     byte (drop_bit 2 (s ! 6)), byte (drop_bit 10 (s ! 6)),
     byte (or (drop_bit 18 (s ! 6)) (push_bit 3 (s ! 7))), byte (drop_bit 5 (s ! 7)),
     byte (drop_bit 13 (s ! 7)), byte (drop_bit 0 (s ! 8)), byte (drop_bit 8 (s ! 8)),
     byte (or (drop_bit 16 (s ! 8)) (push_bit 5 (s ! 9))), byte (drop_bit 3 (s ! 9)),
     byte (drop_bit 11 (s ! 9)), byte (or (drop_bit 19 (s ! 9)) (push_bit 2 (s ! 10))),
     byte (drop_bit 6 (s ! 10)), byte (or (drop_bit 14 (s ! 10)) (push_bit 7 (s ! 11))),
     byte (drop_bit 1 (s ! 11)), byte (drop_bit 9 (s ! 11)), byte (drop_bit 17 (s ! 11))]"

text \<open>Limb k of the product: the sum of the products a_i b_(k-i), i in increasing order.\<close>

definition sc_conv :: "int list \<Rightarrow> int list \<Rightarrow> nat \<Rightarrow> int" where
  "sc_conv a b k = sum_list (map (\<lambda>i. a ! i * b ! (k - i)) [k - 11..<min (Suc k) 12])"

definition sc_0 :: "8 word list" where
  "sc_0 = replicate 32 0"

definition sc_reduce :: "8 word list \<Rightarrow> 8 word list" where
  "sc_reduce s =
    sc_bytes (sc_run (sc_reduce_steps @ sc_round_steps @ sc_final_steps) (sc_limbs64 s))"

definition sc_reduce32 :: "8 word list \<Rightarrow> 8 word list" where
  "sc_reduce32 s = sc_bytes (sc_run (sc_round_steps @ sc_final_steps) (sc_limbs s @ [0]))"

definition sc_add :: "8 word list \<Rightarrow> 8 word list \<Rightarrow> 8 word list" where
  "sc_add a b =
    sc_bytes (sc_run (sc_round_steps @ sc_final_steps) (map2 (+) (sc_limbs a) (sc_limbs b) @ [0]))"

definition sc_sub :: "8 word list \<Rightarrow> 8 word list \<Rightarrow> 8 word list" where
  "sc_sub a b =
    sc_bytes (sc_run (sc_round_steps @ sc_final_steps) (map2 (-) (sc_limbs a) (sc_limbs b) @ [0]))"

definition sc_product_steps :: "sc_op list" where
  "sc_product_steps = sc_mul_steps @ sc_reduce_steps @ sc_round_steps @ sc_final_steps"

definition sc_mul :: "8 word list \<Rightarrow> 8 word list \<Rightarrow> 8 word list" where
  "sc_mul a b =
    (let p = map (sc_conv (sc_limbs a) (sc_limbs b)) [0..<23] @ [0]
     in sc_bytes (sc_run sc_product_steps p))"

text \<open>sc_muladd is a b + c, sc_mulsub is c - a b.\<close>

definition sc_muladd :: "8 word list \<Rightarrow> 8 word list \<Rightarrow> 8 word list \<Rightarrow> 8 word list" where
  "sc_muladd a b c =
    (let p = map (sc_conv (sc_limbs a) (sc_limbs b)) [0..<23] @ [0]
     in sc_bytes (sc_run sc_product_steps (map2 (\<lambda>c p. c + p) (sc_limbs c @ replicate 12 0) p)))"

definition sc_mulsub :: "8 word list \<Rightarrow> 8 word list \<Rightarrow> 8 word list \<Rightarrow> 8 word list" where
  "sc_mulsub a b c =
    (let p = map (sc_conv (sc_limbs a) (sc_limbs b)) [0..<23] @ [0]
     in sc_bytes (sc_run sc_product_steps (map2 (\<lambda>c p. c - p) (sc_limbs c @ replicate 12 0) p)))"

definition signum :: "int \<Rightarrow> int" where
  "signum a = (if a > 0 then 1 else if a < 0 then - 1 else 0)"

definition sc_check :: "8 word list \<Rightarrow> int" where
  "sc_check s =
    (let s0 = uint (load_4 s);
         s1 = uint (load_4 (drop 4 s));
         s2 = uint (load_4 (drop 8 s));
         s3 = uint (load_4 (drop 12 s));
         s4 = uint (load_4 (drop 16 s));
         s5 = uint (load_4 (drop 20 s));
         s6 = uint (load_4 (drop 24 s));
         s7 = uint (load_4 (drop 28 s))
     in drop_bit 8
        (signum (1559614444 - s0) + push_bit 1 (signum (1477600026 - s1))
         + push_bit 2 (signum (2734136534 - s2)) + push_bit 3 (signum (350157278 - s3))
         + push_bit 4 (signum (- s4)) + push_bit 5 (signum (- s5)) + push_bit 6 (signum (- s6))
         + push_bit 7 (signum (268435456 - s7))))"

definition sc_isnonzero :: "8 word list \<Rightarrow> int" where
  "sc_isnonzero s = drop_bit 8 (uint (fold or s 0) - 1) + 1"

section \<open>Values\<close>

text \<open>The value of the first n limbs.\<close>

definition sc_val :: "nat \<Rightarrow> int list \<Rightarrow> int" where
  "sc_val n s = (\<Sum>i<n. 2 ^ (21 * i) * s ! i)"

text \<open>
  The number of limbs that count after a list of operations, when n count before it: a fold drops the top
  one, a cleared limb is one more.
\<close>

fun sc_live :: "sc_op list \<Rightarrow> nat \<Rightarrow> nat option" where
  "sc_live [] n = Some n"
| "sc_live (Carry i # ops) n = (if Suc i < n then sc_live ops n else None)"
| "sc_live (Floor i # ops) n = (if Suc i < n then sc_live ops n else None)"
| "sc_live (Fold k # ops) n = (if n = Suc k \<and> 12 \<le> k then sc_live ops k else None)"
| "sc_live (Zero k # ops) n = (if n = k then sc_live ops (Suc k) else None)"

fun sc_op_ok :: "nat \<Rightarrow> sc_op \<Rightarrow> bool" where
  "sc_op_ok n (Carry i) \<longleftrightarrow> Suc i < n"
| "sc_op_ok n (Floor i) \<longleftrightarrow> Suc i < n"
| "sc_op_ok n (Fold k) \<longleftrightarrow> 12 \<le> k \<and> k < n"
| "sc_op_ok n (Zero k) \<longleftrightarrow> k < n"

lemma sc_do_length [simp]: "length (sc_do oper s) = length s"
  by (cases oper) (simp_all add: Let_def)

lemma sc_run_length [simp]: "length (sc_run ops s) = length s"
  unfolding sc_run_def by (induction ops arbitrary: s) simp_all

lemma sc_run_append: "sc_run (xs @ ys) s = sc_run ys (sc_run xs s)"
  by (simp add: sc_run_def)

lemma sc_val_update:
  "i < length s \<Longrightarrow> sc_val n (s[i := x]) = sc_val n s + (if i < n then 2 ^ (21 * i) * (x - s ! i) else 0)"
proof (induction n)
  case (Suc n)
  then show ?case
    by (cases "i = n") (auto simp: sc_val_def algebra_simps)
qed (simp add: sc_val_def)

lemma sc_val_Suc: "sc_val (Suc n) s = sc_val n s + 2 ^ (21 * n) * s ! n"
  by (simp add: sc_val_def)

lemma sc_carry_val:
  assumes "Suc i < n" "n \<le> length s"
  shows "sc_val n (s[Suc i := s ! Suc i + c, i := s ! i - c * 2 ^ 21]) = sc_val n s"
  using assms by (simp add: sc_val_update algebra_simps power_add)

lemma fold_constant:
  "666643 + 2 ^ 21 * 470296 + 2 ^ 42 * 654183 - 2 ^ 63 * 997805 + 2 ^ 84 * 136657 - 2 ^ 105 * 683901
    = 2 ^ 252 - l25519"
  by (simp add: l25519_def)

lemma sc_fold_val:
  assumes "12 \<le> k" "k < length s"
  shows "sc_val k (sc_do (Fold k) s) = sc_val (Suc k) s - l25519 * (2 ^ (21 * (k - 12)) * s ! k)"
proof -
  obtain j where k: "k = j + 12"
    using assms(1) le_Suc_ex [of 12 k] by (auto simp: add.commute)
  have "sc_val k (sc_do (Fold k) s) = sc_val k s + 2 ^ (21 * j) * s ! k * (666643 + 2 ^ 21 * 470296
      + 2 ^ 42 * 654183 - 2 ^ 63 * 997805 + 2 ^ 84 * 136657 - 2 ^ 105 * 683901)"
    using assms by (simp add: k Let_def sc_val_update algebra_simps power_add)
  also have "\<dots> = sc_val k s + 2 ^ (21 * j) * s ! k * (2 ^ 252 - l25519)"
    unfolding fold_constant ..
  also have "\<dots> = sc_val (Suc k) s - l25519 * (2 ^ (21 * j) * s ! k)"
    unfolding sc_val_Suc k by (simp add: algebra_simps power_add)
  finally show ?thesis by (simp add: k)
qed

lemma sc_fold_mod:
  "12 \<le> k \<Longrightarrow> k < length s \<Longrightarrow> sc_val k (sc_do (Fold k) s) mod l25519 = sc_val (Suc k) s mod l25519"
  by (simp only: sc_fold_val) (simp add: mod_diff_right_eq [symmetric])

lemma sc_zero_val: "k < length s \<Longrightarrow> sc_val (Suc k) (sc_do (Zero k) s) = sc_val k s"
  by (simp add: sc_val_Suc sc_val_update)

lemma sc_carries_val:
  assumes "Suc i < n" "n \<le> length s"
  shows "sc_val n (sc_do (Carry i) s) = sc_val n s" "sc_val n (sc_do (Floor i) s) = sc_val n s"
  using assms by (simp_all add: Let_def sc_carry_val del: power_numeral)

declare sc_do.simps [simp del]

lemma sc_run_Cons: "sc_run (x # xs) s = sc_run xs (sc_do x s)"
  by (simp add: sc_run_def)

lemma sc_run_single: "sc_run [x] s = sc_do x s"
  by (simp add: sc_run_def)

text \<open>A list of operations keeps the residue.\<close>

lemma sc_run_mod:
  "sc_live ops n = Some m \<Longrightarrow> n \<le> length s \<Longrightarrow> list_all (sc_op_ok (length s)) ops \<Longrightarrow>
    sc_val m (sc_run ops s) mod l25519 = sc_val n s mod l25519"
proof (induction ops n arbitrary: s rule: sc_live.induct)
  case (1 n)
  then show ?case by (simp add: sc_run_def)
next
  case (2 i ops n)
  then have i: "Suc i < n" by (simp split: if_splits)
  from 2 i have "sc_val m (sc_run ops (sc_do (Carry i) s)) mod l25519 = sc_val n (sc_do (Carry i) s) mod l25519"
    by simp
  with 2 i show ?case by (simp add: sc_run_Cons sc_carries_val)
next
  case (3 i ops n)
  then have i: "Suc i < n" by (simp split: if_splits)
  from 3 i have "sc_val m (sc_run ops (sc_do (Floor i) s)) mod l25519 = sc_val n (sc_do (Floor i) s) mod l25519"
    by simp
  with 3 i show ?case by (simp add: sc_run_Cons sc_carries_val)
next
  case (4 k ops n)
  then have k: "n = Suc k" "12 \<le> k" by (simp_all split: if_splits)
  from 4 k have "sc_val m (sc_run ops (sc_do (Fold k) s)) mod l25519 = sc_val k (sc_do (Fold k) s) mod l25519"
    by (simp)
  with 4 k show ?case by (simp add: sc_run_Cons sc_fold_mod)
next
  case (5 k ops n)
  then have k: "n = k" "k < length s" by (simp_all split: if_splits)
  from 5 k have "sc_val m (sc_run ops (sc_do (Zero k) s)) mod l25519 = sc_val (Suc k) (sc_do (Zero k) s) mod l25519"
    by (simp)
  with 5 k show ?case by (simp add: sc_run_Cons sc_zero_val)
qed

text \<open>The lists of the code: 24 limbs become twelve and a cleared one, and these the twelve of the result.\<close>

lemma sc_live_steps:
  "sc_live sc_mul_steps 24 = Some 24" "sc_live sc_reduce_steps 24 = Some 13"
  "sc_live sc_round_steps 13 = Some 13" "sc_live sc_final_steps 13 = Some 12"
  by code_simp+

section \<open>Bounds\<close>

text \<open>The operations on bounds of the limbs, which are not negative.\<close>

fun sc_bd :: "sc_op \<Rightarrow> int list \<Rightarrow> int list" where
  "sc_bd (Carry i) b = b[Suc i := b ! Suc i + (b ! i + 2 ^ 20) div 2 ^ 21, i := 2 ^ 20]"
| "sc_bd (Floor i) b = b[Suc i := b ! Suc i + (b ! i div 2 ^ 21 + 1), i := 2 ^ 21]"
| "sc_bd (Fold k) b =
    (let x = b ! k
     in b[k - 12 := b ! (k - 12) + x * 666643,
          k - 11 := b ! (k - 11) + x * 470296,
          k - 10 := b ! (k - 10) + x * 654183,
          k - 9 := b ! (k - 9) + x * 997805,
          k - 8 := b ! (k - 8) + x * 136657,
          k - 7 := b ! (k - 7) + x * 683901])"
| "sc_bd (Zero k) b = b[k := 0]"

definition sc_le :: "int list \<Rightarrow> int list \<Rightarrow> bool" where
  "sc_le b s \<longleftrightarrow> list_all2 (\<lambda>b x. \<bar>x\<bar> \<le> b) b s"

lemma sc_le_length: "sc_le b s \<Longrightarrow> length b = length s"
  by (simp add: sc_le_def list_all2_lengthD)

lemma sc_le_nth: "sc_le b s \<Longrightarrow> i < length s \<Longrightarrow> \<bar>s ! i\<bar> \<le> b ! i"
  by (simp add: sc_le_def list_all2_conv_all_nth)

lemma sc_le_update: "sc_le b s \<Longrightarrow> \<bar>x\<bar> \<le> y \<Longrightarrow> sc_le (b[i := y]) (s[i := x])"
  by (simp add: sc_le_def list_all2_update_cong)

lemma floor_le: "\<bar>x\<bar> \<le> b \<Longrightarrow> \<bar>x div 2 ^ 21\<bar> \<le> b div 2 ^ 21 + (1 :: int)"
  using div_bounds [of "2 ^ 21" x] div_bounds [of "2 ^ 21" b] by (auto simp: abs_le_iff)

lemma floor_rest: "\<bar>x - x div 2 ^ 21 * 2 ^ 21\<bar> \<le> (2 ^ 21 :: int)"
  using div_bounds [of "2 ^ 21" x] by (auto simp: abs_le_iff)

lemma sc_do_le:
  assumes "sc_le b s" "sc_op_ok (length s) x"
  shows "sc_le (sc_bd x b) (sc_do x s)"
proof (cases x)
  case (Carry i)
  have "\<bar>s ! i\<bar> \<le> b ! i" "\<bar>s ! Suc i\<bar> \<le> b ! Suc i"
    using assms Carry by (simp_all add: sc_le_nth)
  then show ?thesis
    using assms(1) limb_carry_le [of "s ! i" "b ! i" 20]
    by (simp add: Carry sc_do.simps Let_def limb_carry_def sc_le_update abs_add_le)
next
  case (Floor i)
  have "\<bar>s ! i\<bar> \<le> b ! i" "\<bar>s ! Suc i\<bar> \<le> b ! Suc i"
    using assms Floor by (simp_all add: sc_le_nth)
  then show ?thesis
    using assms(1) floor_le [of "s ! i" "b ! i"] floor_rest [of "s ! i"]
    by (simp add: Floor sc_do.simps Let_def sc_le_update abs_add_le)
next
  case (Fold k)
  have "\<bar>s ! j\<bar> \<le> b ! j" if "j \<le> k" for j
    using assms Fold that by (simp add: sc_le_nth)
  then show ?thesis
    using assms(1)
    by (simp add: Fold sc_do.simps Let_def sc_le_update abs_add_le abs_diff_le abs_mult_le del: mult.commute)
next
  case (Zero k)
  then show ?thesis using assms by (simp add: sc_do.simps sc_le_update)
qed

lemma sc_le_val: "sc_le b s \<Longrightarrow> n \<le> length s \<Longrightarrow> \<bar>sc_val n s\<bar> \<le> sc_val n b"
  by (induction n) (auto simp: sc_val_Suc abs_mult sc_le_nth sc_val_def
      intro!: order_trans [OF abs_triangle_ineq] add_mono)

text \<open>Every state of a run, by evaluation: the limbs leave room in 64 bits for what is added and shifted.\<close>

fun sc_fits :: "sc_op list \<Rightarrow> int list \<Rightarrow> bool" where
  "sc_fits [] b \<longleftrightarrow> list_all (\<lambda>x. x \<le> 2 ^ 62) b"
| "sc_fits (x # xs) b \<longleftrightarrow> list_all (\<lambda>x. x \<le> 2 ^ 62) b \<and> sc_op_ok (length b) x \<and> sc_fits xs (sc_bd x b)"

lemma sc_bd_length [simp]: "length (sc_bd x b) = length b"
  by (cases x) (simp_all add: Let_def)

lemma sc_run_le:
  "sc_fits ops b \<Longrightarrow> sc_le b s \<Longrightarrow> sc_le (fold sc_bd ops b) (sc_run ops s)"
proof (induction ops arbitrary: b s)
  case (Cons x xs)
  then show ?case using sc_do_le [of b s x] by (simp add: sc_run_Cons sc_le_length)
qed (simp add: sc_run_def)

lemma sc_le_all: "sc_le b s \<Longrightarrow> list_all (\<lambda>x. x \<le> c) b \<Longrightarrow> list_all (\<lambda>x. \<bar>x\<bar> \<le> c) s"
  by (force simp: sc_le_def list_all2_conv_all_nth list_all_length)

lemma sc_run_fits:
  "sc_fits ops b \<Longrightarrow> sc_le b s \<Longrightarrow> list_all (\<lambda>x. \<bar>x\<bar> \<le> 2 ^ 62) (sc_run (take n ops) s)"
proof (induction ops arbitrary: b s n)
  case Nil
  then show ?case using sc_le_all by (simp add: sc_run_def)
next
  case (Cons x xs)
  show ?case
  proof (cases n)
    case 0
    have "list_all (\<lambda>x. x \<le> 2 ^ 62) b"
      using Cons.prems(1) by simp
    from sc_le_all [OF Cons.prems(2) this] show ?thesis
      by (simp add: 0 sc_run_def)
  next
    case (Suc m)
    then show ?thesis
      using Cons.IH [of "sc_bd x b" "sc_do x s" m] Cons.prems sc_do_le [of b s x]
      by (simp add: sc_run_Cons sc_le_length)
  qed
qed

section \<open>The canonical result\<close>

text \<open>The rounded-down carries of the first k limbs leave digits.\<close>

lemma floor_run:
  "k < length s \<Longrightarrow>
    (\<forall>i < k. sc_run (map Floor [0..<k]) s ! i \<in> {0..<2 ^ 21}) \<and>
    sc_val (Suc k) (sc_run (map Floor [0..<k]) s) = sc_val (Suc k) s \<and>
    (\<forall>j > k. sc_run (map Floor [0..<k]) s ! j = s ! j)"
proof (induction k)
  case 0
  then show ?case by (simp add: sc_run_def)
next
  case (Suc k)
  let ?t = "sc_run (map Floor [0..<k]) s"
  let ?c = "?t ! k div 2 ^ 21"
  have u: "sc_run (map Floor [0..<Suc k]) s = ?t[Suc k := ?t ! Suc k + ?c, k := ?t ! k mod 2 ^ 21]"
    by (simp add: sc_run_append sc_run_single sc_do.simps Let_def minus_div_mult_eq_mod)
  have v: "sc_val (Suc (Suc k)) (sc_run (map Floor [0..<Suc k]) s) = sc_val (Suc (Suc k)) ?t"
    using Suc.prems by (simp add: sc_run_append sc_run_single sc_carries_val)
  show ?case
    using Suc u v by (auto simp: sc_val_Suc nth_list_update less_Suc_eq)
qed

lemma digits_range: "\<forall>i < n. s ! i \<in> {0..<2 ^ 21} \<Longrightarrow> 0 \<le> sc_val n s \<and> sc_val n s < 2 ^ (21 * n)"
proof (induction n)
  case (Suc n)
  then have "0 \<le> s ! n" "s ! n \<le> 2 ^ 21 - 1" and IH: "0 \<le> sc_val n s" "sc_val n s < 2 ^ (21 * n)"
    by auto
  then have "0 \<le> 2 ^ (21 * n) * s ! n" "2 ^ (21 * n) * s ! n \<le> 2 ^ (21 * n) * (2 ^ 21 - 1)"
    by (auto intro: mult_left_mono)
  with IH show ?case
    unfolding sc_val_Suc mult_Suc_right power_add right_diff_distrib
      mult.commute [of "2 ^ 21" "2 ^ (21 * n)"] by (intro conjI; linarith)
qed (simp add: sc_val_def)

text \<open>
  The end of every operation: from limbs whose value is below 2^252 in size, the top one cleared, the digits
  of the residue.  One pass of carries finds whether the value is negative, the fold adds the order then.
\<close>

lemma sc_final:
  assumes len: "13 \<le> length s" and z: "s ! 12 = 0" and v: "\<bar>sc_val 12 s\<bar> < 2 ^ 252"
  shows "sc_val 12 (sc_run sc_final_steps s) = sc_val 12 s mod l25519"
    and "\<forall>i < 11. sc_run sc_final_steps s ! i \<in> {0..<2 ^ 21}"
    and "sc_run sc_final_steps s ! 11 \<in> {0..<2 ^ 22}"
proof -
  let ?t = "sc_run (map Floor [0..<12]) s"
  let ?u = "sc_do (Fold 12) ?t"
  have w: "sc_run sc_final_steps s = sc_run (map Floor [0..<11]) ?u"
    by (simp only: sc_final_steps_def sc_run_append sc_run_single)
  have d: "\<forall>i < 12. ?t ! i \<in> {0..<2 ^ 21}" and t: "sc_val 13 ?t = sc_val 13 s"
    using floor_run [of 12 s] len by auto
  have v13: "sc_val 13 r = sc_val 12 r + 2 ^ 252 * r ! 12" for r
    using sc_val_Suc [of 12 r] by simp
  have r: "0 \<le> sc_val 12 ?t" "sc_val 12 ?t < 2 ^ 252"
    using digits_range [OF d] by simp_all
  have eq: "sc_val 12 ?t + 2 ^ 252 * ?t ! 12 = sc_val 12 s"
    using t by (simp only: v13 z mult_zero_right add_0_right)
  have top: "?t ! 12 \<in> {- 1, 0}"
    using eq r v by auto
  have u: "sc_val 12 ?u = sc_val 12 s - l25519 * ?t ! 12"
    using sc_fold_val [of 12 ?t] len t by (simp add: v13 z)
  have m: "sc_val 12 ?u \<in> {0..<l25519}"
    using top eq r u by (auto simp: l25519_def)
  then have um: "sc_val 12 ?u = sc_val 12 s mod l25519"
    using u by (metis atLeastLessThan_iff mod_diff_right_eq mod_mult_self1_is_0 diff_zero mod_pos_pos_trivial)
  have e: "\<forall>i < 11. sc_run sc_final_steps s ! i \<in> {0..<2 ^ 21}"
    and f: "sc_val 12 (sc_run sc_final_steps s) = sc_val 12 ?u"
    using floor_run [of 11 ?u] len unfolding w by simp_all
  show "\<forall>i < 11. sc_run sc_final_steps s ! i \<in> {0..<2 ^ 21}"
    by (rule e)
  show "sc_val 12 (sc_run sc_final_steps s) = sc_val 12 s mod l25519"
    using f um by simp
  have "0 \<le> sc_val 11 (sc_run sc_final_steps s)" "sc_val 11 (sc_run sc_final_steps s) < 2 ^ 231"
    using digits_range [OF e] by simp_all
  moreover have "sc_val 12 (sc_run sc_final_steps s) =
      sc_val 11 (sc_run sc_final_steps s) + 2 ^ 231 * sc_run sc_final_steps s ! 11"
    using sc_val_Suc [of 11 "sc_run sc_final_steps s"] by simp
  ultimately show "sc_run sc_final_steps s ! 11 \<in> {0..<2 ^ 22}"
    using m f by (auto simp: l25519_def)
qed

lemma digit_split1:
  assumes "m = n + 8"
  shows "x mod 2 ^ n + 2 ^ n * (x div 2 ^ n mod 256) + 2 ^ m * (x div 2 ^ m) = (x :: int)"
proof -
  have "x = x mod 2 ^ n + 2 ^ n * (x div 2 ^ n)"
    by simp
  also have "x div 2 ^ n = x div 2 ^ n mod 256 + 256 * (x div 2 ^ n div 256)"
    by simp
  also have "x div 2 ^ n div 256 = x div 2 ^ m"
    by (simp add: assms power_add zdiv_zmult2_eq)
  finally show ?thesis
    by (simp add: assms power_add algebra_simps)
qed

lemma sc_assemble:
  fixes h0 :: int
  assumes "a0 + 2 ^ 8 * b0 + 2 ^ 16 * d0 = h0" "a1 + 2 ^ 3 * b1 + 2 ^ 11 * c1 + 2 ^ 19 * d1 = h1" "a2 + 2
    ^ 6 * b2 + 2 ^ 14 * d2 = h2" "a3 + 2 ^ 1 * b3 + 2 ^ 9 * c3 + 2 ^ 17 * d3 = h3" "a4 + 2 ^ 4 * b4
    + 2 ^ 12 * c4 + 2 ^ 20 * d4 = h4" "a5 + 2 ^ 7 * b5 + 2 ^ 15 * d5 = h5" "a6 + 2 ^ 2 * b6 + 2 ^ 10
    * c6 + 2 ^ 18 * d6 = h6" "a7 + 2 ^ 5 * b7 + 2 ^ 13 * d7 = h7" "a8 + 2 ^ 8 * b8 + 2 ^ 16 * d8 =
    h8" "a9 + 2 ^ 3 * b9 + 2 ^ 11 * c9 + 2 ^ 19 * d9 = h9" "a10 + 2 ^ 6 * b10 + 2 ^ 14 * d10 = h10"
    "a11 + 2 ^ 1 * b11 + 2 ^ 9 * c11 + 2 ^ 17 * d11 = h11"
  shows "a0 + 256 * (b0 + 256 * ((d0 + 2 ^ 5 * a1) + 256 * (b1 + 256 * (c1 + 256 * ((d1 + 2 ^ 2 * a2) +
    256 * (b2 + 256 * ((d2 + 2 ^ 7 * a3) + 256 * (b3 + 256 * (c3 + 256 * ((d3 + 2 ^ 4 * a4) + 256 *
    (b4 + 256 * (c4 + 256 * ((d4 + 2 ^ 1 * a5) + 256 * (b5 + 256 * ((d5 + 2 ^ 6 * a6) + 256 * (b6 +
    256 * (c6 + 256 * ((d6 + 2 ^ 3 * a7) + 256 * (b7 + 256 * (d7 + 256 * (a8 + 256 * (b8 + 256 *
    ((d8 + 2 ^ 5 * a9) + 256 * (b9 + 256 * (c9 + 256 * ((d9 + 2 ^ 2 * a10) + 256 * (b10 + 256 *
    ((d10 + 2 ^ 7 * a11) + 256 * (b11 + 256 * (c11 + 256 * (d11 + 256 *
    0))))))))))))))))))))))))))))))) =
    h0 + 2 ^ 21 * h1 + 2 ^ 42 * h2 + 2 ^ 63 * h3 + 2 ^ 84 * h4 + 2 ^ 105 * h5 + 2 ^ 126 * h6 + 2 ^
    147 * h7 + 2 ^ 168 * h8 + 2 ^ 189 * h9 + 2 ^ 210 * h10 + 2 ^ 231 * h11"
  unfolding assms [symmetric] by algebra

lemma sc_val_12:
  "sc_val 12 s =
    s ! 0 + 2 ^ 21 * s ! 1 + 2 ^ 42 * s ! 2 + 2 ^ 63 * s ! 3 + 2 ^ 84 * s ! 4 + 2 ^ 105 * s ! 5 + 2
    ^ 126 * s ! 6 + 2 ^ 147 * s ! 7 + 2 ^ 168 * s ! 8 + 2 ^ 189 * s ! 9 + 2 ^ 210 * s ! 10 + 2 ^ 231
    * s ! 11"
  unfolding sc_val_def by (simp add: eval_nat_numeral)

lemma sc_bytes_val:
  assumes "\<forall>i < 11. s ! i \<in> {0..<2 ^ 21}" "s ! 11 \<in> {0..<2 ^ 22}"
  shows "le_val (sc_bytes s) = sc_val 12 s"
proof -
  have d: "0 \<le> s ! i" "s ! i < 2 ^ 21" if "i < 11" for i
    using assms(1) that by auto
  have d11: "0 \<le> s ! 11" "s ! 11 < 2 ^ 22"
    using assms(2) by auto
  have j0: "uint (byte (or (drop_bit 16 (s ! 0)) (push_bit 5 (s ! 1)))) =
      s ! 0 div 2 ^ 16 + 2 ^ 5 * (s ! 1 mod 2 ^ 3)"
    by (rule byte_join [OF d]) simp_all
  have j1: "uint (byte (or (drop_bit 19 (s ! 1)) (push_bit 2 (s ! 2)))) =
      s ! 1 div 2 ^ 19 + 2 ^ 2 * (s ! 2 mod 2 ^ 6)"
    by (rule byte_join [OF d]) simp_all
  have j2: "uint (byte (or (drop_bit 14 (s ! 2)) (push_bit 7 (s ! 3)))) =
      s ! 2 div 2 ^ 14 + 2 ^ 7 * (s ! 3 mod 2 ^ 1)"
    by (rule byte_join [OF d]) simp_all
  have j3: "uint (byte (or (drop_bit 17 (s ! 3)) (push_bit 4 (s ! 4)))) =
      s ! 3 div 2 ^ 17 + 2 ^ 4 * (s ! 4 mod 2 ^ 4)"
    by (rule byte_join [OF d]) simp_all
  have j4: "uint (byte (or (drop_bit 20 (s ! 4)) (push_bit 1 (s ! 5)))) =
      s ! 4 div 2 ^ 20 + 2 ^ 1 * (s ! 5 mod 2 ^ 7)"
    by (rule byte_join [OF d]) simp_all
  have j5: "uint (byte (or (drop_bit 15 (s ! 5)) (push_bit 6 (s ! 6)))) =
      s ! 5 div 2 ^ 15 + 2 ^ 6 * (s ! 6 mod 2 ^ 2)"
    by (rule byte_join [OF d]) simp_all
  have j6: "uint (byte (or (drop_bit 18 (s ! 6)) (push_bit 3 (s ! 7)))) =
      s ! 6 div 2 ^ 18 + 2 ^ 3 * (s ! 7 mod 2 ^ 5)"
    by (rule byte_join [OF d]) simp_all
  have j8: "uint (byte (or (drop_bit 16 (s ! 8)) (push_bit 5 (s ! 9)))) =
      s ! 8 div 2 ^ 16 + 2 ^ 5 * (s ! 9 mod 2 ^ 3)"
    by (rule byte_join [OF d]) simp_all
  have j9: "uint (byte (or (drop_bit 19 (s ! 9)) (push_bit 2 (s ! 10)))) =
      s ! 9 div 2 ^ 19 + 2 ^ 2 * (s ! 10 mod 2 ^ 6)"
    by (rule byte_join [OF d]) simp_all
  have j10: "uint (byte (or (drop_bit 14 (s ! 10)) (push_bit 7 (s ! 11)))) =
      s ! 10 div 2 ^ 14 + 2 ^ 7 * (s ! 11 mod 2 ^ 1)"
    by (rule byte_join [OF d]) simp_all
  have j7: "uint (byte (drop_bit 13 (s ! 7))) = s ! 7 div 2 ^ 13"
    by (rule byte_top [OF d]) simp_all
  have j11: "uint (byte (drop_bit 17 (s ! 11))) = s ! 11 div 2 ^ 17"
    by (rule byte_top [OF d11]) simp
  have s0: "s ! 0 mod 2 ^ 8 + 2 ^ 8 * (s ! 0 div 2 ^ 8 mod 256) + 2 ^ 16 * (s ! 0 div 2 ^ 16) = s ! 0"
    by (rule digit_split1) simp_all
  have s1: "s ! 1 mod 2 ^ 3 + 2 ^ 3 * (s ! 1 div 2 ^ 3 mod 256) + 2 ^ 11 * (s ! 1 div 2 ^ 11 mod 256) + 2
      ^ 19 * (s ! 1 div 2 ^ 19) = s ! 1"
    by (rule digit_split) simp_all
  have s2: "s ! 2 mod 2 ^ 6 + 2 ^ 6 * (s ! 2 div 2 ^ 6 mod 256) + 2 ^ 14 * (s ! 2 div 2 ^ 14) = s ! 2"
    by (rule digit_split1) simp_all
  have s3: "s ! 3 mod 2 ^ 1 + 2 ^ 1 * (s ! 3 div 2 ^ 1 mod 256) + 2 ^ 9 * (s ! 3 div 2 ^ 9 mod 256) + 2 ^
      17 * (s ! 3 div 2 ^ 17) = s ! 3"
    by (rule digit_split) simp_all
  have s4: "s ! 4 mod 2 ^ 4 + 2 ^ 4 * (s ! 4 div 2 ^ 4 mod 256) + 2 ^ 12 * (s ! 4 div 2 ^ 12 mod 256) + 2
      ^ 20 * (s ! 4 div 2 ^ 20) = s ! 4"
    by (rule digit_split) simp_all
  have s5: "s ! 5 mod 2 ^ 7 + 2 ^ 7 * (s ! 5 div 2 ^ 7 mod 256) + 2 ^ 15 * (s ! 5 div 2 ^ 15) = s ! 5"
    by (rule digit_split1) simp_all
  have s6: "s ! 6 mod 2 ^ 2 + 2 ^ 2 * (s ! 6 div 2 ^ 2 mod 256) + 2 ^ 10 * (s ! 6 div 2 ^ 10 mod 256) + 2
      ^ 18 * (s ! 6 div 2 ^ 18) = s ! 6"
    by (rule digit_split) simp_all
  have s7: "s ! 7 mod 2 ^ 5 + 2 ^ 5 * (s ! 7 div 2 ^ 5 mod 256) + 2 ^ 13 * (s ! 7 div 2 ^ 13) = s ! 7"
    by (rule digit_split1) simp_all
  have s8: "s ! 8 mod 2 ^ 8 + 2 ^ 8 * (s ! 8 div 2 ^ 8 mod 256) + 2 ^ 16 * (s ! 8 div 2 ^ 16) = s ! 8"
    by (rule digit_split1) simp_all
  have s9: "s ! 9 mod 2 ^ 3 + 2 ^ 3 * (s ! 9 div 2 ^ 3 mod 256) + 2 ^ 11 * (s ! 9 div 2 ^ 11 mod 256) + 2
      ^ 19 * (s ! 9 div 2 ^ 19) = s ! 9"
    by (rule digit_split) simp_all
  have s10: "s ! 10 mod 2 ^ 6 + 2 ^ 6 * (s ! 10 div 2 ^ 6 mod 256) + 2 ^ 14 * (s ! 10 div 2 ^ 14) = s ! 10"
    by (rule digit_split1) simp_all
  have s11: "s ! 11 mod 2 ^ 1 + 2 ^ 1 * (s ! 11 div 2 ^ 1 mod 256) + 2 ^ 9 * (s ! 11 div 2 ^ 9 mod 256) + 2
      ^ 17 * (s ! 11 div 2 ^ 17) = s ! 11"
    by (rule digit_split) simp_all
  show ?thesis
    unfolding sc_bytes_def le_val.simps j0 j1 j2 j3 j4 j5 j6 j7 j8 j9 j10 j11 byte_low
    unfolding byte_shr sc_val_12
    by (rule sc_assemble [OF s0 s1 s2 s3 s4 s5 s6 s7 s8 s9 s10 s11])
qed

section \<open>Loads and products\<close>

lemma le_val_drop: "k \<le> length s \<Longrightarrow> le_val (drop k s) = drop_bit (8 * k) (le_val s)"
proof (induction k arbitrary: s)
  case (Suc k)
  then obtain b t where s: "s = b # t" by (cases s) simp_all
  have "(uint b + 256 * le_val t) div 256 = le_val t"
    using uint_lt2p [of b] by simp
  then have "drop_bit (8 * Suc k) (le_val s) = drop_bit (8 * k) (le_val t)"
    by (simp add: s drop_bit_eq_div power_add zdiv_zmult2_eq)
  with Suc s show ?case by simp
qed simp

lemma le_val_take: "k \<le> length s \<Longrightarrow> le_val (take k s) = take_bit (8 * k) (le_val s)"
proof (induction k arbitrary: s)
  case (Suc k)
  then obtain b t where s: "s = b # t" by (cases s) simp_all
  have "take_bit (8 * Suc k) (le_val s) = (uint b + 256 * le_val t) mod (256 * 2 ^ (8 * k))"
    by (simp add: s take_bit_eq_mod power_add)
  also have "\<dots> = 256 * (le_val t mod 2 ^ (8 * k)) + uint b"
    using uint_lt2p [of b] by (simp add: zmod_zmult2_eq)
  finally show ?case
    using Suc s by (simp add: take_bit_eq_mod)
qed simp

lemma load_3_take: "3 \<le> length s \<Longrightarrow> uint (load_3 s) = le_val (take 3 s)"
  unfolding load_3_val by (auto simp: numeral_3_eq_3 Suc_le_length_iff)

lemma load_4_take: "4 \<le> length s \<Longrightarrow> uint (load_4 s) = le_val (take 4 s)"
  unfolding load_4_val by (auto simp: eval_nat_numeral Suc_le_length_iff)

lemma load_3_bits: "k + 3 \<le> length s \<Longrightarrow> uint (load_3 (drop k s)) = take_bit 24 (drop_bit (8 * k) (le_val s))"
  by (simp add: load_3_take le_val_take le_val_drop)

lemma load_4_bits: "k + 4 \<le> length s \<Longrightarrow> uint (load_4 (drop k s)) = take_bit 32 (drop_bit (8 * k) (le_val s))"
  by (simp add: load_4_take le_val_take le_val_drop)

lemma uint_mask21: "uint (and 2097151 (w :: 64 word)) = take_bit 21 (uint w)"
proof -
  have "and 2097151 w = take_bit 21 w"
    by (simp add: take_bit_eq_mask mask_eq_exp_minus_1 and.commute)
  then show ?thesis by (simp only: unsigned_take_bit_eq)
qed

lemma le_val_range: "0 \<le> le_val s" "le_val s < 2 ^ (8 * length s)"
proof -
  have "le_val s = take_bit (8 * length s) (le_val s)"
    using le_val_take [of "length s" s] by simp
  then show "0 \<le> le_val s" "le_val s < 2 ^ (8 * length s)"
    by (metis take_bit_nonnegative, metis take_bit_int_less_exp)
qed

lemma sc_limbs_bits:
  assumes "length s = 32"
  shows "sc_limbs s = map (\<lambda>j. take_bit 21 (drop_bit (21 * j) (le_val s))) [0..<11] @ [drop_bit 231 (le_val s)]"
proof -
  have "drop_bit 231 (le_val s) < 2 ^ 25"
    using le_val_range(2) [of s] assms by (simp add: drop_bit_eq_div div_lessI)
  then have top: "take_bit 25 (drop_bit 231 (le_val s)) = drop_bit 231 (le_val s)"
    by (simp add: take_bit_int_eq_self le_val_range(1))
  show ?thesis
    using assms load_3_bits [of 0 s]
    by (simp add: sc_limbs_def uint_mask21 unsigned_drop_bit_eq load_3_bits load_4_bits upt_rec
        drop_bit_take_bit top)
qed

lemma sc_limbs64_bits:
  assumes "length s = 64"
  shows "sc_limbs64 s = map (\<lambda>j. take_bit 21 (drop_bit (21 * j) (le_val s))) [0..<23] @ [drop_bit 483 (le_val s)]"
proof -
  have "drop_bit 483 (le_val s) < 2 ^ 29"
    using le_val_range(2) [of s] assms by (simp add: drop_bit_eq_div div_lessI)
  then have top: "take_bit 29 (drop_bit 483 (le_val s)) = drop_bit 483 (le_val s)"
    by (simp add: take_bit_int_eq_self le_val_range(1))
  show ?thesis
    using assms load_3_bits [of 0 s]
    by (simp add: sc_limbs64_def uint_mask21 unsigned_drop_bit_eq load_3_bits load_4_bits upt_rec
        drop_bit_take_bit top)
qed

lemma take_bit_split: "take_bit (n + m) (v :: int) = take_bit n v + 2 ^ n * take_bit m (drop_bit n v)"
  by (simp add: take_bit_eq_mod drop_bit_eq_div power_add zmod_zmult2_eq)

lemma sc_val_digits:
  "sc_val n (map (\<lambda>j. take_bit 21 (drop_bit (21 * j) v)) [0..<n] @ xs) = take_bit (21 * n) v"
proof (induction n arbitrary: xs)
  case (Suc n)
  show ?case
    using Suc [of "take_bit 21 (drop_bit (21 * n) v) # xs"] take_bit_split [of "21 * n" 21 v]
    by (simp add: sc_val_Suc nth_append add.commute [of 21])
qed (simp add: sc_val_def)

lemma take_drop_all: "take_bit n v + 2 ^ n * drop_bit n v = (v :: int)"
  by (simp add: take_bit_eq_mod drop_bit_eq_div)

lemma sc_limbs_val:
  assumes "length s = 32"
  shows "sc_val 12 (sc_limbs s @ xs) = le_val s"
  using sc_val_digits [of 11 "le_val s" "drop_bit 231 (le_val s) # xs"] sc_val_Suc [of 11]
    take_drop_all [of 231 "le_val s"]
  by (simp add: sc_limbs_bits [OF assms] nth_append)

lemma sc_limbs64_val:
  assumes "length s = 64"
  shows "sc_val 24 (sc_limbs64 s) = le_val s"
  using sc_val_digits [of 23 "le_val s" "[drop_bit 483 (le_val s)]"] sc_val_Suc [of 23]
    take_drop_all [of 483 "le_val s"]
  by (simp add: sc_limbs64_bits [OF assms] nth_append)

definition limbs_le :: "int list" where
  "limbs_le = replicate 11 (2 ^ 21) @ [2 ^ 25]"

definition limbs64_le :: "int list" where
  "limbs64_le = replicate 23 (2 ^ 21) @ [2 ^ 29]"

lemma sc_limbs_le:
  assumes "length s = 32"
  shows "sc_le limbs_le (sc_limbs s)"
proof -
  have "drop_bit 231 (le_val s) < 2 ^ 25"
    using le_val_range(2) [of s] assms by (simp add: drop_bit_eq_div div_lessI)
  moreover have "\<bar>take_bit 21 x\<bar> \<le> 2 ^ 21" for x :: int
    using take_bit_int_less_exp [of 21 x] by simp
  ultimately show ?thesis
    unfolding sc_limbs_bits [OF assms] sc_le_def limbs_le_def
    by (intro list_all2_appendI) (simp_all add: le_val_range(1) list_all2_conv_all_nth less_imp_le)
qed

lemma sc_limbs64_le:
  assumes "length s = 64"
  shows "sc_le limbs64_le (sc_limbs64 s)"
proof -
  have "drop_bit 483 (le_val s) < 2 ^ 29"
    using le_val_range(2) [of s] assms by (simp add: drop_bit_eq_div div_lessI)
  moreover have "\<bar>take_bit 21 x\<bar> \<le> 2 ^ 21" for x :: int
    using take_bit_int_less_exp [of 21 x] by simp
  ultimately show ?thesis
    unfolding sc_limbs64_bits [OF assms] sc_le_def limbs64_le_def
    by (intro list_all2_appendI) (simp_all add: le_val_range(1) list_all2_conv_all_nth less_imp_le)
qed

section \<open>The functions\<close>

text \<open>
  What every function ends with: once the limbs are folded, rounded and cleared, and by evaluation small
  enough, the bytes are those of the residue of the value the run began with.
\<close>

definition sc_checked :: "sc_op list \<Rightarrow> nat \<Rightarrow> int list \<Rightarrow> bool" where
  "sc_checked ops n b \<longleftrightarrow>
    sc_fits (ops @ sc_final_steps) b \<and> sc_live ops n = Some 13 \<and> sc_val 12 (fold sc_bd ops b) < 2 ^ 252
    \<and> list_all (sc_op_ok (length b)) ops \<and> ops \<noteq> [] \<and> last ops = Zero 12 \<and> 13 \<le> length b \<and> n \<le> length b"

lemma sc_run_canonical:
  assumes c: "sc_checked ops n b" and le: "sc_le b s"
  shows "le_val (sc_bytes (sc_run (ops @ sc_final_steps) s)) = sc_val n s mod l25519"
proof -
  let ?t = "sc_run ops s"
  have len: "13 \<le> length s" "n \<le> length s" and ops: "ops = butlast ops @ [Zero 12]"
    using c sc_le_length [OF le] append_butlast_last_id [of ops] by (simp_all add: sc_checked_def)
  have "?t = sc_do (Zero 12) (sc_run (butlast ops) s)"
    by (subst ops) (simp add: sc_run_append sc_run_single)
  then have z: "?t ! 12 = 0"
    using len by (simp add: sc_do.simps)
  have "sc_fits (xs @ ys) b \<Longrightarrow> sc_fits xs b" for xs ys b
    by (induction xs arbitrary: b) (auto elim: sc_fits.elims)
  then have "sc_le (fold sc_bd ops b) ?t"
    using sc_run_le [OF _ le] c by (metis sc_checked_def)
  from sc_le_val [OF this, of 12] have v: "\<bar>sc_val 12 ?t\<bar> < 2 ^ 252"
    using c len by (simp add: sc_checked_def)
  have l: "13 \<le> length ?t" using len by simp
  have "sc_val 13 ?t mod l25519 = sc_val n s mod l25519"
    using c sc_le_length [OF le] by (intro sc_run_mod len) (simp_all add: sc_checked_def)
  moreover have "sc_val 13 ?t = sc_val 12 ?t"
    using sc_val_Suc [of 12 ?t] z by simp
  ultimately show ?thesis
    unfolding sc_run_append [of _ sc_final_steps]
    by (simp only: sc_bytes_val [OF sc_final(2,3) [OF l z v]] sc_final(1) [OF l z v])
qed

text \<open>The bounds of the limbs each function begins with.\<close>

definition product_le :: "int list" where
  "product_le = map2 (+) (limbs_le @ replicate 12 0) (map (sc_conv limbs_le limbs_le) [0..<23] @ [0])"

lemma check_reduce32: "sc_checked sc_round_steps 13 (limbs_le @ [0])"
  unfolding sc_checked_def by (intro conjI; code_simp)

lemma check_sum: "sc_checked sc_round_steps 13 (map2 (+) limbs_le limbs_le @ [0])"
  unfolding sc_checked_def by (intro conjI; code_simp)

lemma check_reduce: "sc_checked (sc_reduce_steps @ sc_round_steps) 24 limbs64_le"
  unfolding sc_checked_def by (intro conjI; code_simp)

lemma check_product: "sc_checked (sc_mul_steps @ sc_reduce_steps @ sc_round_steps) 24 product_le"
  unfolding sc_checked_def by (intro conjI; code_simp)

lemma sc_le_append: "sc_le b s \<Longrightarrow> sc_le c t \<Longrightarrow> sc_le (b @ c) (s @ t)"
  by (simp add: sc_le_def list_all2_appendI)

lemma sc_le_zero: "sc_le (replicate n 0) (replicate n 0)"
  by (simp add: sc_le_def list_all2_same)

lemma sc_le_zero1: "sc_le [0] [0]"
  by (simp add: sc_le_def)

lemma sc_le_map2:
  assumes "sc_le a s" "sc_le b t" and f: "\<And>x y. \<bar>f x y\<bar> \<le> \<bar>x\<bar> + \<bar>y\<bar>"
  shows "sc_le (map2 (+) a b) (map2 f s t)"
proof -
  have "\<bar>f (s ! i) (t ! i)\<bar> \<le> a ! i + b ! i" if "i < length s" "i < length t" for i
    using f [of "s ! i" "t ! i"] sc_le_nth [OF assms(1) that(1)] sc_le_nth [OF assms(2) that(2)]
    by linarith
  then show ?thesis
    using assms(1,2) [THEN sc_le_length] by (simp add: sc_le_def list_all2_conv_all_nth)
qed

lemma sc_limbs_length [simp]: "length (sc_limbs s) = 12" "length (sc_limbs64 s) = 24"
  by (simp_all add: sc_limbs_def sc_limbs64_def)

lemma sc_val_zero_top: "length s = 12 \<Longrightarrow> sc_val 13 (s @ [0]) = sc_val 12 s"
  using sc_val_Suc [of 12 "s @ [0]"] by (simp add: sc_val_def nth_append)

lemma sc_val_map2:
  assumes "n \<le> length s" "n \<le> length t"
  shows "sc_val n (map2 (+) s t) = sc_val n s + sc_val n t" "sc_val n (map2 (-) s t) = sc_val n s - sc_val n t"
  using assms by (simp_all add: sc_val_def sum.distrib sum_subtractf algebra_simps)

lemma sc_reduce32_val:
  assumes "length s = 32"
  shows "le_val (sc_reduce32 s) = le_val s mod l25519"
  using sc_run_canonical [OF check_reduce32 sc_le_append [OF sc_limbs_le [OF assms] sc_le_zero1]]
    sc_limbs_val [OF assms, of "[]"]
  by (simp add: sc_reduce32_def sc_val_zero_top)

lemma sc_reduce_val:
  assumes "length s = 64"
  shows "le_val (sc_reduce s) = le_val s mod l25519"
  using sc_run_canonical [OF check_reduce sc_limbs64_le [OF assms]] sc_limbs64_val [OF assms]
  by (simp add: sc_reduce_def)

lemma sc_add_val:
  assumes "length a = 32" "length b = 32"
  shows "le_val (sc_add a b) = (le_val a + le_val b) mod l25519"
proof -
  have "sc_le (map2 (+) limbs_le limbs_le) (map2 (+) (sc_limbs a) (sc_limbs b))"
    by (intro sc_le_map2 sc_limbs_le assms abs_triangle_ineq)
  from sc_run_canonical [OF check_sum sc_le_append [OF this sc_le_zero1]] show ?thesis
    using sc_limbs_val [OF assms(1), of "[]"] sc_limbs_val [OF assms(2), of "[]"]
    by (simp add: sc_add_def sc_val_zero_top sc_val_map2)
qed

lemma sc_sub_val:
  assumes "length a = 32" "length b = 32"
  shows "le_val (sc_sub a b) = (le_val a - le_val b) mod l25519"
proof -
  have "sc_le (map2 (+) limbs_le limbs_le) (map2 (-) (sc_limbs a) (sc_limbs b))"
    by (intro sc_le_map2 sc_limbs_le assms abs_triangle_ineq4)
  from sc_run_canonical [OF check_sum sc_le_append [OF this sc_le_zero1]] show ?thesis
    using sc_limbs_val [OF assms(1), of "[]"] sc_limbs_val [OF assms(2), of "[]"]
    by (simp add: sc_sub_def sc_val_zero_top sc_val_map2)
qed

text \<open>The sums of products are the limbs of the product.\<close>

lemma sc_conv_sum: "sc_conv a b k = (\<Sum>i \<in> {k - 11..<min (Suc k) 12}. a ! i * b ! (k - i))"
  by (simp only: sc_conv_def sum_list_distinct_conv_sum_set distinct_upt set_upt)

lemma sc_product_val:
  "sc_val 24 (map (sc_conv a b) [0..<23] @ [0]) = sc_val 12 a * sc_val 12 b"
proof -
  let ?f = "\<lambda>i j. (2 ^ (21 * i) * a ! i) * (2 ^ (21 * j) * b ! j)"
  have e: "2 ^ (21 * k) * (x * y) = (2 ^ (21 * i) * x) * (2 ^ (21 * (k - i)) * y)" if "i \<le> k" for i k and x y :: int
  proof -
    have "21 * k = 21 * i + 21 * (k - i)" using that by simp
    then show ?thesis by (simp only: power_add ac_simps)
  qed
  have "sc_val 24 (map (sc_conv a b) [0..<23] @ [0]) = (\<Sum>k<23. 2 ^ (21 * k) * sc_conv a b k)"
    using sc_val_Suc [of 23 "map (sc_conv a b) [0..<23] @ [0]"] by (simp add: sc_val_def nth_append)
  also have "\<dots> = (\<Sum>k<23. \<Sum>i \<in> {k - 11..<min (Suc k) 12}. ?f i (k - i))"
    unfolding sc_conv_sum sum_distrib_left
    by (intro sum.cong refl e) (simp add: less_Suc_eq_le)
  also have "\<dots> = (\<Sum>(k, i) \<in> (SIGMA k:{..<23}. {k - 11..<min (Suc k) 12}). ?f i (k - i))"
    by (rule sum.Sigma) auto
  also have "\<dots> = (\<Sum>(i, j) \<in> {..<12} \<times> {..<12}. ?f i j)"
    by (rule sum.reindex_bij_witness [where j = "\<lambda>(k, i). (i, k - i)" and i = "\<lambda>(i, j). (i + j, i)"]) auto
  also have "\<dots> = sc_val 12 a * sc_val 12 b"
    by (simp add: sc_val_def sum_product sum.cartesian_product)
  finally show ?thesis .
qed

lemma sc_product_le:
  assumes "sc_le limbs_le a" "sc_le limbs_le b"
  shows "sc_le (map (sc_conv limbs_le limbs_le) [0..<23] @ [0]) (map (sc_conv a b) [0..<23] @ [0])"
proof -
  have l: "length a = 12" "length b = 12"
    using assms [THEN sc_le_length] by (simp_all add: limbs_le_def)
  have "\<bar>sc_conv a b k\<bar> \<le> sc_conv limbs_le limbs_le k" if "k < 23" for k
    unfolding sc_conv_sum
  proof (rule order_trans [OF sum_abs sum_mono])
    fix i assume "i \<in> {k - 11..<min (Suc k) 12}"
    then have "i < 12" "k - i < 12" using that by auto
    then show "\<bar>a ! i * b ! (k - i)\<bar> \<le> limbs_le ! i * limbs_le ! (k - i)"
      using assms l by (intro abs_mult_le) (simp_all add: sc_le_nth)
  qed
  then show ?thesis
    by (intro sc_le_append sc_le_zero1) (simp add: sc_le_def list_all2_conv_all_nth)
qed

lemma sc_le_sum:
  "sc_le product_le s" if "sc_le (limbs_le @ replicate 12 0) c" "sc_le (map (sc_conv limbs_le limbs_le) [0..<23] @ [0]) p"
    "s = map2 f c p" "\<And>x y. \<bar>f x y\<bar> \<le> \<bar>x\<bar> + \<bar>y\<bar>" for s c p f
  unfolding that(3) product_le_def by (rule sc_le_map2 [OF that(1,2,4)])

lemma sc_val_padded: "length s = 32 \<Longrightarrow> sc_val 24 (sc_limbs s @ replicate 12 0) = le_val s"
proof -
  assume s: "length s = 32"
  have "sc_val (12 + n) (sc_limbs s @ replicate 12 0) = le_val s" if "n \<le> 12" for n
    using that
  proof (induction n)
    case (Suc n)
    then show ?case
      using sc_val_Suc [of "12 + n" "sc_limbs s @ replicate 12 0"] by (simp add: nth_append)
  qed (simp add: sc_limbs_val [OF s])
  from this [of 12] show ?thesis by simp
qed

lemma sc_product_canonical:
  assumes "length a = 32" "length b = 32" "sc_le (limbs_le @ replicate 12 0) c"
    and "\<And>x y. \<bar>f x y\<bar> \<le> \<bar>x\<bar> + \<bar>y\<bar>"
  shows "le_val (sc_bytes (sc_run sc_product_steps
      (map2 f c (map (sc_conv (sc_limbs a) (sc_limbs b)) [0..<23] @ [0])))) =
    sc_val 24 (map2 f c (map (sc_conv (sc_limbs a) (sc_limbs b)) [0..<23] @ [0])) mod l25519"
  using sc_run_canonical [OF check_product sc_le_sum [OF assms(3) sc_product_le refl assms(4)]]
    sc_limbs_le assms(1,2) by (simp add: sc_product_steps_def)

lemma map2_zero: "map2 (\<lambda>c p. p) (replicate n (0 :: int)) xs = xs" if "length xs = n" for xs :: "int list"
  using that by (simp add: list_eq_iff_nth_eq)

lemma zero_padding: "sc_le (limbs_le @ replicate 12 0) (replicate 24 0)"
  by code_simp

lemma sc_product_fits:
  assumes "length a = 32" "length b = 32"
  shows "list_all (\<lambda>x. \<bar>x\<bar> \<le> 2 ^ 62)
    (sc_run (take n sc_product_steps) (map (sc_conv (sc_limbs a) (sc_limbs b)) [0..<23] @ [0]))"
proof (rule sc_run_fits)
  show "sc_fits sc_product_steps product_le"
    using check_product by (simp only: sc_checked_def sc_product_steps_def append_assoc)
  show "sc_le product_le (map (sc_conv (sc_limbs a) (sc_limbs b)) [0..<23] @ [0])"
    using sc_le_sum [OF zero_padding sc_product_le [OF sc_limbs_le [OF assms(1)] sc_limbs_le [OF assms(2)]]
        refl, of "\<lambda>c p. p"] map2_zero [of "map (sc_conv (sc_limbs a) (sc_limbs b)) [0..<23] @ [0]" 24]
    by simp
qed

lemma sc_mul_val:
  assumes "length a = 32" "length b = 32"
  shows "le_val (sc_mul a b) = le_val a * le_val b mod l25519"
proof -
  let ?p = "map (sc_conv (sc_limbs a) (sc_limbs b)) [0..<23] @ [0]"
  have "map2 (\<lambda>c p. p) (replicate 24 (0 :: int)) ?p = ?p"
    by (rule map2_zero) simp
  then show ?thesis
    using zero_padding sc_product_canonical [OF assms, of "replicate 24 0" "\<lambda>c p. p"] sc_limbs_val [OF assms(1), of "[]"]
      sc_limbs_val [OF assms(2), of "[]"]
    by (simp only: sc_mul_def Let_def sc_product_val append_Nil2)
qed

lemma sc_muladd_val:
  assumes "length a = 32" "length b = 32" "length c = 32"
  shows "le_val (sc_muladd a b c) = (le_val a * le_val b + le_val c) mod l25519"
proof -
  have "sc_le (limbs_le @ replicate 12 0) (sc_limbs c @ replicate 12 0)"
    by (intro sc_le_append sc_limbs_le sc_le_zero assms)
  from sc_product_canonical [OF assms(1,2) this abs_triangle_ineq] show ?thesis
    using sc_limbs_val [OF assms(1), of "[]"] sc_limbs_val [OF assms(2), of "[]"] sc_val_padded [OF assms(3)]
    by (simp only: sc_muladd_def Let_def sc_val_map2 sc_product_val append_Nil2 length_append sc_limbs_length
        length_replicate length_map length_upt) (simp add: sc_val_map2 sc_product_val add.commute)
qed

lemma sc_mulsub_val:
  assumes "length a = 32" "length b = 32" "length c = 32"
  shows "le_val (sc_mulsub a b c) = (le_val c - le_val a * le_val b) mod l25519"
proof -
  have "sc_le (limbs_le @ replicate 12 0) (sc_limbs c @ replicate 12 0)"
    by (intro sc_le_append sc_limbs_le sc_le_zero assms)
  from sc_product_canonical [OF assms(1,2) this abs_triangle_ineq4] show ?thesis
    using sc_limbs_val [OF assms(1), of "[]"] sc_limbs_val [OF assms(2), of "[]"] sc_val_padded [OF assms(3)]
    by (simp add: sc_mulsub_def Let_def sc_val_map2 sc_product_val)
qed

section \<open>The check for canonical scalars\<close>

lemma signum_sgn: "signum a = sgn a"
  by (simp add: signum_def sgn_if)

text \<open>The weighted signs compare as the numbers do: the highest difference decides.\<close>

lemma weighted_signs:
  fixes d :: "nat \<Rightarrow> int"
  assumes "\<And>i. \<bar>d i\<bar> < 2 ^ 32"
  shows "sgn (\<Sum>i<n. 2 ^ i * sgn (d i)) = sgn (\<Sum>i<n. 2 ^ (32 * i) * d i) \<and>
    \<bar>\<Sum>i<n. 2 ^ i * sgn (d i)\<bar> < 2 ^ n \<and> \<bar>\<Sum>i<n. 2 ^ (32 * i) * d i\<bar> < 2 ^ (32 * n)"
proof (induction n)
  case (Suc n)
  let ?a = "\<Sum>i<n. 2 ^ i * sgn (d i)" and ?b = "\<Sum>i<n. 2 ^ (32 * i) * d i"
  have b: "\<bar>?b\<bar> < 2 ^ (32 * n)" and a: "\<bar>?a\<bar> < 2 ^ n" and s: "sgn ?a = sgn ?b"
    using Suc by simp_all
  have p: "(2 :: int) ^ (32 * Suc n) = 2 ^ 32 * 2 ^ (32 * n)"
    by (simp add: power_add)
  consider "d n = 0" | "0 < d n" | "d n < 0" by linarith
  then show ?case
  proof cases
    case 1
    have "(2 :: int) ^ (32 * n) \<le> 2 ^ (32 * Suc n)"
      unfolding p by simp
    with b have "\<bar>?b\<bar> < 2 ^ (32 * Suc n)" by (rule less_le_trans)
    moreover from a have "\<bar>?a\<bar> < 2 ^ Suc n" by simp
    ultimately show ?thesis using 1 s by (simp only: sum.lessThan_Suc sgn_0 mult_zero_right add_0_right)
  next
    case 2
    then have "2 ^ (32 * n) * 1 \<le> 2 ^ (32 * n) * d n" "2 ^ (32 * n) * d n \<le> 2 ^ (32 * n) * (2 ^ 32 - 1)"
      using assms [of n] by (intro mult_left_mono; simp)+
    then have "0 < ?b + 2 ^ (32 * n) * d n" "?b + 2 ^ (32 * n) * d n < 2 ^ (32 * Suc n)"
      using b unfolding p right_diff_distrib mult.commute [of "2 ^ 32"] by linarith+
    with 2 a show ?thesis by simp
  next
    case 3
    then have "2 ^ (32 * n) * d n \<le> 2 ^ (32 * n) * - 1" "2 ^ (32 * n) * (1 - 2 ^ 32) \<le> 2 ^ (32 * n) * d n"
      using assms [of n] by (intro mult_left_mono; simp)+
    then have "?b + 2 ^ (32 * n) * d n < 0" "- (2 ^ (32 * Suc n)) < ?b + 2 ^ (32 * n) * d n"
      using b unfolding p right_diff_distrib mult.commute [of "2 ^ 32"] by linarith+
    with 3 a show ?thesis by simp
  qed
qed simp

lemma le_val_words:
  assumes "length s = 32"
  shows "le_val s = (\<Sum>i<8. 2 ^ (32 * i) * uint (load_4 (drop (4 * i) s)))"
proof -
  have "(\<Sum>i<n. 2 ^ (32 * i) * uint (load_4 (drop (4 * i) s))) = take_bit (32 * n) (le_val s)" if "n \<le> 8" for n
    using that
  proof (induction n)
    case (Suc n)
    then show ?case
      using take_bit_split [of "32 * n" 32 "le_val s"] assms
      by (simp add: load_4_bits add.commute [of 32])
  qed simp
  from this [of 8] show ?thesis
    using le_val_range [of s] assms by (simp add: take_bit_int_eq_self)
qed

lemma sum_8: "(\<Sum>i<(8 :: nat). f i) = f 0 + f 1 + f 2 + f 3 + f 4 + f 5 + f 6 + (f 7 :: int)"
  by (simp add: eval_nat_numeral)

lemma sc_check_val:
  assumes "length s = 32"
  shows "sc_check s = (if le_val s < l25519 then 0 else - 1)"
proof -
  let ?l = "[1559614444 :: int, 1477600026, 2734136534, 350157278, 0, 0, 0, 268435456]"
  let ?m = "\<lambda>i. ?l ! i"
  let ?d = "\<lambda>i. if i < 8 then ?m i - uint (load_4 (drop (4 * i) s)) else 0"
  let ?a = "\<Sum>i<8. 2 ^ i * sgn (?d i)"
  have u: "0 \<le> uint (load_4 t)" "uint (load_4 t) < 2 ^ 32" for t
    by (rule uint_ge_0 load_4_lt)+
  have d: "\<bar>?d i\<bar> < 2 ^ 32" for i
  proof (cases "i < 8")
    case True
    moreover have "list_all (\<lambda>m. 0 \<le> m \<and> m < 2 ^ 32) ?l" by simp
    ultimately have "0 \<le> ?m i \<and> ?m i < 2 ^ 32"
      unfolding list_all_length by simp
    with u [of "drop (4 * i) s"] have "\<bar>?m i - uint (load_4 (drop (4 * i) s))\<bar> < 2 ^ 32"
      by linarith
    with True show ?thesis by (simp only: if_True)
  qed simp
  have "(\<Sum>i<8. 2 ^ (32 * i) * ?d i) = (\<Sum>i<8. 2 ^ (32 * i) * ?m i) - le_val s"
    unfolding le_val_words [OF assms] by (simp add: sum_subtractf [symmetric] right_diff_distrib)
  also have "(\<Sum>i<8. 2 ^ (32 * i) * ?m i) = l25519 - 1"
    by code_simp
  finally have "sgn ?a = sgn (l25519 - 1 - le_val s)" and a: "\<bar>?a\<bar> < 2 ^ 8"
    using weighted_signs [of ?d 8, OF d] by simp_all
  then have n: "?a < 0 \<longleftrightarrow> \<not> le_val s < l25519"
    by (simp add: sgn_if split: if_splits)
  have "sc_check s = drop_bit 8 ?a"
    by (simp add: sc_check_def Let_def signum_sgn push_bit_eq_mult sum_8 mult.commute)
  also have "\<dots> = (if ?a < 0 then - 1 else 0)"
    using a by (auto simp: drop_bit_eq_div abs_less_iff)
  finally show ?thesis
    using n by simp
qed

lemma sc_isnonzero_val: "sc_isnonzero s = (if le_val s = 0 then 0 else 1)"
proof -
  let ?w = "fold or s 0"
  have "drop_bit 8 (uint ?w - 1) = (if ?w = 0 then - 1 else 0)"
  proof (cases "?w = 0")
    case False
    then have "0 < uint ?w"
      by (simp add: order_less_le uint_0_iff eq_commute [of 0])
    then show ?thesis
      using False uint_lt2p [of ?w] by (simp add: drop_bit_eq_div div_pos_pos_trivial)
  qed simp
  then show ?thesis
    by (simp add: sc_isnonzero_def le_val_zero fold_or_zero)
qed

end
