(* ===== verification/Wallet.thy ===== *)
theory Wallet
  imports Keccak BlobReader Coin
begin

text \<open>
  Wallet addresses: the base-58 blocks, the tag, the keys and the checksum
  (\<open>src/base/tools/cryptonote/WalletAddress.cpp\<close>, \<open>WalletAddress.h\<close>), and the 64 by 64 bit product
  of \<open>umul128.h\<close>, native and portable. The reader is \<open>BlobReader<false>\<close>: what throws in
  the other instance is a \<open>false\<close> here. \<open>Rejected\<close> is \<open>return false\<close>, \<open>Fault\<close>
  the behaviour the language leaves undefined: a table lookup with a negative \<open>char\<close>, a shift by 64 or more.
\<close>

section \<open>The double-width product\<close>

text \<open>The low and the high word.\<close>

definition umul128 :: "u64 \<Rightarrow> u64 \<Rightarrow> u64 \<times> u64" where
  "umul128 a b = (let r = (ucast a :: 128 word) * ucast b in (ucast r, ucast (drop_bit 64 r)))"

definition umul128_portable :: "u64 \<Rightarrow> u64 \<Rightarrow> u64 \<times> u64" where
  "umul128_portable multiplier multiplicand =
     (let a = drop_bit 32 multiplier; b = multiplier AND 0xFFFFFFFF;
          c = drop_bit 32 multiplicand; d = multiplicand AND 0xFFFFFFFF;
          ad = a * d; bd = b * d;
          adbc = ad + (b * c);
          adbc_carry = (if adbc < ad then 1 else 0);
          product_lo = bd + push_bit 32 adbc;
          product_lo_carry = (if product_lo < bd then 1 else 0)
      in (product_lo, (a * c) + drop_bit 32 adbc + push_bit 32 adbc_carry + product_lo_carry))"

section \<open>The base-58 blocks\<close>

definition block_sizes :: "nat list" where "block_sizes = [0, 2, 3, 5, 6, 7, 9, 10, 11]"

definition b58_alphabet :: string where
  "b58_alphabet = ''123456789ABCDEFGHJKLMNPQRSTUVWXYZabcdefghijkmnopqrstuvwxyz''"

definition reverse_alphabet :: "int list" where
  "reverse_alphabet =
     foldl (\<lambda>t i. t[of_char (b58_alphabet ! i) := int i]) (replicate 256 (-1)) [0..<length b58_alphabet]"

text \<open>The digits of a block, the last one first.\<close>

fun b58_digits :: "string \<Rightarrow> u64 \<Rightarrow> u64 \<Rightarrow> u64 rd" where
  "b58_digits [] num order = Got num"
| "b58_digits (c # cs) num order =
     (if 128 \<le> (of_char c :: nat) then Fault
      else
        let digit = reverse_alphabet ! of_char c in
        if digit < 0 then Rejected
        else
          let (lo, hi) = umul128 order (of_int digit); tmp = num + lo in
          if tmp < num \<or> hi \<noteq> 0 then Rejected
          else b58_digits cs tmp (order * of_nat (length b58_alphabet)))"

definition b58_block :: "string \<Rightarrow> u64 rd" where
  "b58_block cs = b58_digits (rev cs) 0 1"

text \<open>The low \<open>n\<close> bytes of the number, the highest first.\<close>

definition num_bytes :: "nat \<Rightarrow> u64 \<Rightarrow> u8 list" where
  "num_bytes n num = map (\<lambda>j. ucast (drop_bit (8 * j) num)) (rev [0..<n])"

fun decode_blocks :: "nat \<Rightarrow> nat \<Rightarrow> nat \<Rightarrow> string \<Rightarrow> u8 list \<Rightarrow> u8 list rd" where
  "decode_blocks 0 last_block_size last_block_size_index address data =
     rd_bind (b58_block (take last_block_size address)) (\<lambda>num. Got (data @ num_bytes last_block_size_index num))"
| "decode_blocks (Suc n) last_block_size last_block_size_index address data =
     rd_bind (b58_block (take (last block_sizes) address)) (\<lambda>num.
       decode_blocks n last_block_size last_block_size_index (drop (last block_sizes) address) (data @ num_bytes 8 num))"

section \<open>Wallet addresses\<close>

datatype wallet_net = MAINNET | TESTNET | STAGENET

datatype wallet_type = W_PUBLIC | W_INTEGRATED | W_SUBADDRESS

definition kWalletKeySize :: nat where "kWalletKeySize = 32"

definition kMaxAddressSize :: nat where "kMaxAddressSize = 256"

definition kMinDataSize :: nat where "kMinDataSize = 69"

definition kMinAddressSize :: nat where "kMinAddressSize = 95"

record wallet =
  w_data :: cstr
  w_tag :: u64
  w_checksum :: "u8 list"
  w_spend :: "u8 list"
  w_view :: "u8 list"

definition wallet_new :: wallet where
  "wallet_new = \<lparr>w_data = None, w_tag = 0, w_checksum = replicate 4 0, w_spend = replicate kWalletKeySize 0,
     w_view = replicate kWalletKeySize 0\<rparr>"

text \<open>The chain of reads; a read that fails ends it and leaves the fields read so far.\<close>

definition wallet_fields :: "reader \<Rightarrow> wallet \<Rightarrow> (bool \<times> wallet) rd" where
  "wallet_fields ar w =
     (case br_varint ar of
        Got (t, ar) \<Rightarrow>
          let w = w\<lparr>w_tag := t\<rparr> in
          (case br_array kWalletKeySize ar of
             Got (k, ar) \<Rightarrow>
               let w = w\<lparr>w_spend := k\<rparr> in
               (case br_array kWalletKeySize ar of
                  Got (k, ar) \<Rightarrow>
                    let w = w\<lparr>w_view := k\<rparr> in
                    (case br_skip ((br_size ar - br_index ar) - 4) ar of
                       Got ar \<Rightarrow>
                         (case br_array 4 ar of
                            Got (c, ar) \<Rightarrow> Got (True, w\<lparr>w_checksum := c\<rparr>)
                          | Fault \<Rightarrow> Fault
                          | _ \<Rightarrow> Got (False, w))
                     | Fault \<Rightarrow> Fault
                     | _ \<Rightarrow> Got (False, w))
                | Fault \<Rightarrow> Fault
                | _ \<Rightarrow> Got (False, w))
           | Fault \<Rightarrow> Fault
           | _ \<Rightarrow> Got (False, w))
      | Fault \<Rightarrow> Fault
      | _ \<Rightarrow> Got (False, w))"

text \<open>The Townforge prefix: its tag, 0 without one, and the rest of the address.\<close>

definition wallet_prefix :: "string \<Rightarrow> (u64 \<times> string) option" where
  "wallet_prefix address =
     (if length address \<ge> 4 \<and> take 2 address = ''TF'' then
        (case (if address ! 2 = CHR ''1'' then Some 0 else if address ! 2 = CHR ''2'' then Some 1 else None) of
           None \<Rightarrow> None
         | Some s \<Rightarrow>
             (case (if address ! 3 = CHR ''M'' then Some 0 else if address ! 3 = CHR ''T'' then Some 0x10
                    else if address ! 3 = CHR ''S'' then Some 0x20 else None) of
                None \<Rightarrow> None
              | Some n \<Rightarrow> Some (0x424200 OR s OR n, drop 4 address)))
      else Some (0, address))"

fun index_of :: "nat \<Rightarrow> nat list \<Rightarrow> nat \<Rightarrow> int" where
  "index_of x [] i = -1"
| "index_of x (y # ys) i = (if y = x then int i else index_of x ys (i + 1))"

text \<open>The bytes of an address; \<open>data_size\<close> is their number.\<close>

definition wallet_bytes :: "string \<Rightarrow> u8 list rd" where
  "wallet_bytes address =
     (if length address < kMinAddressSize \<or> length address > kMaxAddressSize then Rejected
      else
        let num_full_blocks = length address div last block_sizes;
            last_block_size = length address mod last block_sizes;
            last_block_size_index = index_of last_block_size block_sizes 0
        in if last_block_size_index < 0 then Rejected
           else if num_full_blocks * 8 + nat last_block_size_index < kMinDataSize then Rejected
           else decode_blocks num_full_blocks last_block_size (nat last_block_size_index) address [])"

text \<open>\<open>None\<close> is undefined behaviour.\<close>

definition wallet_decode :: "string \<Rightarrow> wallet \<Rightarrow> (bool \<times> wallet) option" where
  "wallet_decode address w =
     (case wallet_prefix address of
        None \<Rightarrow> Some (False, w)
      | Some (tf_tag, address) \<Rightarrow>
          (case wallet_bytes address of
             Got data \<Rightarrow>
               (case wallet_fields (br_new data (of_nat (length data))) w of
                  Got (ok, w) \<Rightarrow>
                    if ok \<and> w_checksum w = take 4 (keccak200 (take (length data - 4) data)) then
                      let w = w\<lparr>w_data := Some address\<rparr>
                      in Some (True, if tf_tag \<noteq> 0 then w\<lparr>w_tag := tf_tag\<rparr> else w)
                    else Some (False, w\<lparr>w_tag := 0\<rparr>)
                | _ \<Rightarrow> None)
           | Fault \<Rightarrow> None
           | _ \<Rightarrow> Some (False, w)))"

definition wallet_isValid :: "wallet \<Rightarrow> bool" where
  "wallet_isValid w \<longleftrightarrow> w_tag w > 0 \<and> (case w_data w of None \<Rightarrow> 0 | Some s \<Rightarrow> length s) \<ge> kMinAddressSize"

definition wallet_toJSON :: "wallet \<Rightarrow> cstr" where
  "wallet_toJSON w = (if wallet_isValid w then w_data w else None)"

section \<open>Tags\<close>

record tag_info =
  ti_coin :: coin
  ti_net :: wallet_net
  ti_type :: wallet_type
  ti_rpcPort :: u16
  ti_zmqPort :: u16

definition mk_tag :: "coin \<Rightarrow> wallet_net \<Rightarrow> wallet_type \<Rightarrow> u16 \<Rightarrow> u16 \<Rightarrow> tag_info" where
  "mk_tag c n t r z = \<lparr>ti_coin = c, ti_net = n, ti_type = t, ti_rpcPort = r, ti_zmqPort = z\<rparr>"

definition tag_table :: "(u64 \<times> tag_info) list" where
  "tag_table =
    [(0x12, mk_tag MONERO MAINNET W_PUBLIC 18081 18082),
     (0x13, mk_tag MONERO MAINNET W_INTEGRATED 18081 18082),
     (0x2a, mk_tag MONERO MAINNET W_SUBADDRESS 18081 18082),
     (0x35, mk_tag MONERO TESTNET W_PUBLIC 28081 28082),
     (0x36, mk_tag MONERO TESTNET W_INTEGRATED 28081 28082),
     (0x3f, mk_tag MONERO TESTNET W_SUBADDRESS 28081 28082),
     (0x18, mk_tag MONERO STAGENET W_PUBLIC 38081 38082),
     (0x19, mk_tag MONERO STAGENET W_INTEGRATED 38081 38082),
     (0x24, mk_tag MONERO STAGENET W_SUBADDRESS 38081 38082),
     (0x2bb39a, mk_tag SUMO MAINNET W_PUBLIC 19734 19735),
     (0x29339a, mk_tag SUMO MAINNET W_INTEGRATED 19734 19735),
     (0x8319a, mk_tag SUMO MAINNET W_SUBADDRESS 19734 19735),
     (0x37751a, mk_tag SUMO TESTNET W_PUBLIC 29734 29735),
     (0x34f51a, mk_tag SUMO TESTNET W_INTEGRATED 29734 29735),
     (0x1d351a, mk_tag SUMO TESTNET W_SUBADDRESS 29734 29735),
     (0x2cca, mk_tag ARQMA MAINNET W_PUBLIC 19994 19995),
     (0x116bc7, mk_tag ARQMA MAINNET W_INTEGRATED 19994 19995),
     (0x6847, mk_tag ARQMA MAINNET W_SUBADDRESS 19994 19995),
     (0x53ca, mk_tag ARQMA TESTNET W_PUBLIC 29994 29995),
     (0x504a, mk_tag ARQMA TESTNET W_INTEGRATED 29994 29995),
     (0x524a, mk_tag ARQMA TESTNET W_SUBADDRESS 29994 29995),
     (0x39ca, mk_tag ARQMA STAGENET W_PUBLIC 39994 39995),
     (0x1742ca, mk_tag ARQMA STAGENET W_INTEGRATED 39994 39995),
     (0x1d84ca, mk_tag ARQMA STAGENET W_SUBADDRESS 39994 39995),
     (0x1032, mk_tag WOWNERO MAINNET W_PUBLIC 34568 34569),
     (0x1a9a, mk_tag WOWNERO MAINNET W_INTEGRATED 34568 34569),
     (0x2fb0, mk_tag WOWNERO MAINNET W_SUBADDRESS 34568 34569),
     (0x5a, mk_tag GRAFT MAINNET W_PUBLIC 18981 18982),
     (0x5b, mk_tag GRAFT MAINNET W_INTEGRATED 18981 18982),
     (0x66, mk_tag GRAFT MAINNET W_SUBADDRESS 18981 18982),
     (0x54, mk_tag GRAFT TESTNET W_PUBLIC 28881 28882),
     (0x55, mk_tag GRAFT TESTNET W_INTEGRATED 28881 28882),
     (0x70, mk_tag GRAFT TESTNET W_SUBADDRESS 28881 28882),
     (0x424200, mk_tag TOWNFORGE MAINNET W_PUBLIC 18881 18882),
     (0x424201, mk_tag TOWNFORGE MAINNET W_SUBADDRESS 18881 18882),
     (0x424210, mk_tag TOWNFORGE TESTNET W_PUBLIC 28881 28882),
     (0x424211, mk_tag TOWNFORGE TESTNET W_SUBADDRESS 28881 28882),
     (0x424220, mk_tag TOWNFORGE STAGENET W_PUBLIC 38881 38882),
     (0x424221, mk_tag TOWNFORGE STAGENET W_SUBADDRESS 38881 38882)]"

definition tagInfo :: "u64 \<Rightarrow> tag_info" where
  "tagInfo tag = (case map_of tag_table tag of Some i \<Rightarrow> i | None \<Rightarrow> mk_tag COIN_INVALID MAINNET W_PUBLIC 0 0)"

definition wallet_coin :: "wallet \<Rightarrow> coin" where "wallet_coin w = ti_coin (tagInfo (w_tag w))"

definition wallet_net_of :: "wallet \<Rightarrow> wallet_net" where "wallet_net_of w = ti_net (tagInfo (w_tag w))"

definition wallet_type_of :: "wallet \<Rightarrow> wallet_type" where "wallet_type_of w = ti_type (tagInfo (w_tag w))"

definition wallet_rpcPort :: "wallet \<Rightarrow> u16" where "wallet_rpcPort w = ti_rpcPort (tagInfo (w_tag w))"

definition wallet_zmqPort :: "wallet \<Rightarrow> u16" where "wallet_zmqPort w = ti_zmqPort (tagInfo (w_tag w))"

fun netName :: "wallet_net \<Rightarrow> string" where
  "netName MAINNET = ''mainnet''" | "netName TESTNET = ''testnet''" | "netName STAGENET = ''stagenet''"

fun typeName :: "wallet_type \<Rightarrow> string" where
  "typeName W_PUBLIC = ''public''" | "typeName W_INTEGRATED = ''integrated''" | "typeName W_SUBADDRESS = ''subaddress''"

section \<open>The reference encoder\<close>

text \<open>The digits of a number, the lowest first, and the blocks of the format.\<close>

fun b58_rev :: "nat \<Rightarrow> nat \<Rightarrow> string" where
  "b58_rev 0 v = []"
| "b58_rev (Suc n) v = b58_alphabet ! (v mod 58) # b58_rev n (v div 58)"

definition be_value :: "u8 list \<Rightarrow> nat" where
  "be_value bs = foldl (\<lambda>v b. v * 256 + unat b) 0 bs"

function b58_encode :: "u8 list \<Rightarrow> string" where
  "b58_encode bs =
     (if length bs < 8 then rev (b58_rev (block_sizes ! length bs) (be_value bs))
      else rev (b58_rev 11 (be_value (take 8 bs))) @ b58_encode (drop 8 bs))"
  by pat_completeness auto
termination
  by (relation "measure length") auto

declare b58_encode.simps [simp del]

text \<open>The bytes of an address and its text.\<close>

definition wallet_payload :: "u64 \<Rightarrow> u8 list \<Rightarrow> u8 list \<Rightarrow> u8 list \<Rightarrow> u8 list" where
  "wallet_payload tag spend view ext =
     (let p = put_varint tag @ spend @ view @ ext in p @ take 4 (keccak200 p))"

section \<open>The product\<close>

lemma unat_add_carry:
  "unat a + unat b = unat (a + b) + (if a + b < a then 2 ^ 64 else 0)" for a b :: u64
proof (cases "unat a + unat b < 2 ^ 64")
  case True
  then have u: "unat (a + b) = unat a + unat b" by (simp add: unat_word_ariths)
  then show ?thesis by (simp add: word_less_nat_alt)
next
  case False
  moreover have "unat a < 2 ^ 64" "unat b < 2 ^ 64" using unsigned_less [of a] unsigned_less [of b] by simp_all
  ultimately have u: "unat (a + b) = unat a + unat b - 2 ^ 64"
    by (simp add: unat_word_ariths mod_if)
  with False \<open>unat b < 2 ^ 64\<close> show ?thesis by (simp add: word_less_nat_alt)
qed

lemma umul128_nat:
  "umul128 a b = (of_nat (unat a * unat b), of_nat (unat a * unat b div 2 ^ 64))"
proof -
  have "unat a < 2 ^ 64" "unat b < 2 ^ 64" using unsigned_less [of a] unsigned_less [of b] by simp_all
  then have lt: "unat a * unat b < 2 ^ 64 * 2 ^ 64" by (intro mult_strict_mono) auto
  moreover have "unat (ucast w :: 128 word) = unat w" if "unat w < 2 ^ 64" for w :: u64
    using that by (simp add: unsigned_ucast_eq take_bit_nat_eq_self)
  ultimately have "unat ((ucast a :: 128 word) * ucast b) = unat a * unat b"
    using \<open>unat a < 2 ^ 64\<close> \<open>unat b < 2 ^ 64\<close> by (simp add: unat_word_ariths)
  then have p: "(ucast a :: 128 word) * ucast b = of_nat (unat a * unat b)"
    using lt by (simp add: word_unat_eq_iff unsigned_of_nat take_bit_nat_eq_self)
  have d: "drop_bit 64 (of_nat n :: 128 word) = of_nat (n div 2 ^ 64)" if "n < 2 ^ 128" for n
    using that by (simp add: word_unat_eq_iff drop_bit_eq_div unat_div unsigned_of_nat take_bit_nat_eq_self)
  have c: "ucast (of_nat n :: 128 word) = (of_nat n :: u64)" for n
    by (simp add: unsigned_of_nat word_of_nat_eq_iff)
  have "unat a * unat b < 2 ^ 128" using lt by simp
  then show ?thesis unfolding umul128_def Let_def p by (simp only: d c)
qed

text \<open>The schoolbook product in halves is the product: no carry is lost.\<close>

lemma unat_low_half: "unat (w AND 0xFFFFFFFF) = unat w mod 2 ^ 32" for w :: u64
proof -
  have "(0xFFFFFFFF :: u64) = mask 32" by (simp add: mask_eq_exp_minus_1)
  then have "w AND 0xFFFFFFFF = take_bit 32 w" by (simp only: take_bit_eq_mask)
  then show ?thesis by (simp add: take_bit_eq_mod unat_mod)
qed

lemma unat_high_half: "unat (drop_bit 32 w) = unat w div 2 ^ 32" for w :: u64
  by (simp add: drop_bit_eq_div unat_div)

lemma unat_shift_half: "unat (push_bit 32 w) = unat w mod 2 ^ 32 * 2 ^ 32" for w :: u64
proof -
  have "unat (push_bit 32 w) = unat w * 2 ^ 32 mod 2 ^ 64" by (simp add: push_bit_eq_mult unat_word_ariths)
  also have "\<dots> = unat w mod 2 ^ 32 * 2 ^ 32" by (simp add: mult_mod_left)
  finally show ?thesis .
qed

lemma unat_half_product: "unat a < 2 ^ 32 \<Longrightarrow> unat b < 2 ^ 32 \<Longrightarrow> unat (a * b) = unat a * unat b" for a b :: u64
proof -
  assume "unat a < 2 ^ 32" "unat b < 2 ^ 32"
  then have "unat a * unat b < 2 ^ 32 * 2 ^ 32" by (intro mult_strict_mono) auto
  then show ?thesis by (simp add: unat_word_ariths)
qed

lemma umul128_portable_native: "umul128_portable m n = umul128 m n"
proof -
  define a b c d where "a = drop_bit 32 m" and "b = m AND 0xFFFFFFFF" and "c = drop_bit 32 n" and "d = n AND 0xFFFFFFFF"
  define adbc where "adbc = a * d + b * c"
  define lo where "lo = b * d + push_bit 32 adbc"
  define k l :: nat where "k = (if adbc < a * d then 1 else 0)" and "l = (if lo < b * d then 1 else 0)"
  define H where "H = unat a * unat c + unat adbc div 2 ^ 32 + k * 2 ^ 32 + l"
  have mn: "unat m = unat a * 2 ^ 32 + unat b" "unat n = unat c * 2 ^ 32 + unat d"
    by (simp_all only: a_def b_def c_def d_def unat_low_half unat_high_half div_mult_mod_eq)
  have bound: "unat w < 2 ^ 64" for w :: u64 using unsigned_less [of w] by simp
  have lt: "unat a < 2 ^ 32" "unat b < 2 ^ 32" "unat c < 2 ^ 32" "unat d < 2 ^ 32"
    using bound [of m] bound [of n]
    by (simp_all add: a_def b_def c_def d_def unat_low_half unat_high_half less_mult_imp_div_less)
  have pr: "unat (a * d) = unat a * unat d" "unat (b * c) = unat b * unat c" "unat (b * d) = unat b * unat d"
    by (rule unat_half_product; fact lt)+
  have s: "unat a * unat d + unat b * unat c = unat adbc + k * 2 ^ 64"
    using unat_add_carry [of "a * d" "b * c"] by (simp add: adbc_def k_def pr)
  have t: "unat b * unat d + unat adbc mod 2 ^ 32 * 2 ^ 32 = unat lo + l * 2 ^ 64"
    using unat_add_carry [of "b * d" "push_bit 32 adbc"] by (simp add: lo_def l_def pr unat_shift_half)
  have "unat m * unat n = unat a * unat c * 2 ^ 64 + (unat a * unat d + unat b * unat c) * 2 ^ 32 + unat b * unat d"
    by (simp add: mn algebra_simps)
  also have "\<dots> = unat a * unat c * 2 ^ 64 + (unat adbc + k * 2 ^ 64) * 2 ^ 32 + unat b * unat d" by (simp only: s)
  finally have T: "unat m * unat n = unat a * unat c * 2 ^ 64 + (unat adbc + k * 2 ^ 64) * 2 ^ 32 + unat b * unat d" .
  obtain q r where qr: "unat adbc div 2 ^ 32 = q" "unat adbc mod 2 ^ 32 = r" "unat adbc = q * 2 ^ 32 + r"
    by (metis div_mult_mod_eq)
  then have "unat m * unat n = H * 2 ^ 64 + unat lo"
    using t by (simp only: T H_def qr(1,2)) (simp add: qr(3) algebra_simps)
  with bound [of lo] have dm: "unat m * unat n mod 2 ^ 64 = unat lo" "unat m * unat n div 2 ^ 64 = H"
    by (simp_all only: mod_mult_self3 mod_less) simp
  have "unat (of_nat (unat m * unat n) :: u64) = unat lo"
    by (simp only: unsigned_of_nat take_bit_eq_mod len_of_numeral_defs) (use dm(1) in simp)
  then have "of_nat (unat m * unat n) = lo" by (simp only: word_unat_eq_iff)
  with dm(2) have "umul128 m n = (lo, of_nat H)" by (simp only: umul128_nat)
  moreover have "of_nat H = a * c + drop_bit 32 adbc + push_bit 32 (of_nat k) + of_nat l"
    by (simp only: H_def flip: unat_high_half) (simp add: push_bit_eq_mult)
  ultimately show ?thesis
    by (simp add: umul128_portable_def Let_def k_def l_def flip: a_def b_def c_def d_def adbc_def lo_def)
qed

section \<open>Digits\<close>

lemma b58_alphabet_ascii: "list_all (\<lambda>c. of_char c < (128 :: nat)) b58_alphabet" "distinct b58_alphabet"
  by (simp_all add: b58_alphabet_def)

lemma foldl_update_nth:
  "distinct (map f is) \<Longrightarrow> j \<in> set is \<Longrightarrow> f j < length t \<Longrightarrow> foldl (\<lambda>t i. t[f i := g i]) t is ! f j = g j"
proof (induction "is" rule: rev_induct)
  case (snoc i "is")
  have l: "length (foldl (\<lambda>t i. t[f i := g i]) t is) = length t" by (induction "is" arbitrary: t) simp_all
  show ?case
  proof (cases "j = i")
    case True
    with snoc.prems l show ?thesis by simp
  next
    case False
    then have "j \<in> set is" "f i \<noteq> f j" using snoc.prems by auto
    with snoc show ?thesis by simp
  qed
qed simp

lemma reverse_alphabet_digit:
  assumes "i < 58"
  shows "of_char (b58_alphabet ! i) < (128 :: nat)" and "reverse_alphabet ! of_char (b58_alphabet ! i) = int i"
proof -
  have len: "length b58_alphabet = 58" by (simp add: b58_alphabet_def)
  show a: "of_char (b58_alphabet ! i) < (128 :: nat)"
    using assms b58_alphabet_ascii(1) len by (simp add: list_all_length)
  have "map (\<lambda>i. of_char (b58_alphabet ! i)) [0..<58] = map of_char (map (nth b58_alphabet) [0..<length b58_alphabet])"
    by (simp add: len)
  also have "\<dots> = (map of_char b58_alphabet :: nat list)" by (simp only: map_nth)
  finally have "distinct (map (\<lambda>i. of_char (b58_alphabet ! i) :: nat) [0..<58])"
    using b58_alphabet_ascii(2) by (simp only: distinct_map) (auto intro!: inj_onI)
  then show "reverse_alphabet ! of_char (b58_alphabet ! i) = int i"
    using foldl_update_nth [of "\<lambda>i. of_char (b58_alphabet ! i)" "[0..<58]" i "replicate 256 (-1)" int] a assms
    by (simp add: reverse_alphabet_def len)
qed

lemma length_b58_alphabet [simp]: "length b58_alphabet = 58"
  by (simp add: b58_alphabet_def)

lemma length_b58_rev [simp]: "length (b58_rev n v) = n"
  by (induction n arbitrary: v) simp_all

text \<open>The digits of a number that fits are read back; the order may wrap after the last one.\<close>

lemma b58_digits_rev:
  assumes "N + 58 ^ i * v < 2 ^ 64" and "i + n \<le> 11" and "v < 58 ^ n"
  shows "b58_digits (b58_rev n v) (of_nat N) (of_nat (58 ^ i)) = Got (of_nat (N + 58 ^ i * v))"
  using assms
proof (induction n arbitrary: i v N)
  case (Suc n)
  let ?d = "v mod 58" and ?q = "v div 58"
  have v: "v = 58 * ?q + ?d" by simp
  have sum: "N + 58 ^ i * v = (N + 58 ^ i * ?d) + 58 ^ Suc i * ?q"
  proof -
    have "58 ^ i * v = 58 ^ i * (58 * ?q + ?d)" by simp
    then show ?thesis by (simp only: distrib_left power_Suc ac_simps)
  qed
  have lt: "58 ^ i * ?d < 2 ^ 64" "N + 58 ^ i * ?d < 2 ^ 64" "N < 2 ^ 64" using Suc.prems(1) unfolding sum by linarith+
  have "(58 :: nat) ^ i \<le> 58 ^ 10" using Suc.prems(2) by (intro power_increasing) auto
  then have i: "(58 :: nat) ^ i < 2 ^ 64" by simp
  have "umul128 (of_nat (58 ^ i)) (of_nat ?d) = (of_nat (58 ^ i * ?d), 0)"
    using i lt(1) by (simp only: umul128_nat unat_of_nat64) (simp add: unat_of_nat64 less_trans [of _ 58])
  moreover have "\<not> (of_nat (N + 58 ^ i * ?d) :: u64) < of_nat N"
    using lt by (simp only: word_less_nat_alt unat_of_nat64)
  moreover have "b58_digits (b58_rev n ?q) (of_nat (N + 58 ^ i * ?d)) (of_nat (58 ^ Suc i)) =
      Got (of_nat ((N + 58 ^ i * ?d) + 58 ^ Suc i * ?q))"
    by (rule Suc.IH) (use Suc.prems sum in \<open>auto simp: less_mult_imp_div_less mult.commute\<close>)
  ultimately show ?case
    using reverse_alphabet_digit [of ?d] sum by (simp add: Let_def mult.commute)
qed simp

section \<open>Blocks\<close>

lemma be_value_snoc: "be_value (bs @ [b]) = be_value bs * 256 + unat b"
  by (simp add: be_value_def)

lemma be_value_less: "be_value bs < 256 ^ length bs"
proof (induction bs rule: rev_induct)
  case (snoc b bs)
  have "unat b < 256" using unsigned_less [of b] by simp
  with snoc show ?case by (simp add: be_value_snoc)
qed (simp add: be_value_def)

lemma num_bytes_Suc: "num_bytes (Suc n) w = num_bytes n (drop_bit 8 w) @ [ucast w]"
proof -
  have "map (\<lambda>j. ucast (drop_bit (8 * j) w)) [0..<Suc n] =
      (ucast w :: u8) # map (\<lambda>j. ucast (drop_bit (8 * j) (drop_bit 8 w))) [0..<n]"
    by (simp only: map_upt_Suc) (simp add: add.commute)
  then show ?thesis by (simp only: num_bytes_def flip: rev_map) simp
qed

lemma num_bytes_be_value:
  assumes "length bs \<le> 8"
  shows "num_bytes (length bs) (of_nat (be_value bs)) = bs"
  using assms
proof (induction bs rule: rev_induct)
  case (snoc b bs)
  have "be_value (bs @ [b]) < 256 ^ length (bs @ [b])" by (rule be_value_less)
  also have "\<dots> \<le> 256 ^ 8" using snoc.prems by (intro power_increasing) auto
  finally have lt: "be_value (bs @ [b]) < 2 ^ 64" by simp
  have b: "unat b < 256" using unsigned_less [of b] by simp
  obtain N where N: "be_value (bs @ [b]) = N" "N div 256 = be_value bs" "N mod 256 = unat b"
    using b by (simp add: be_value_snoc)
  have "drop_bit 8 (of_nat N :: u64) = of_nat (be_value bs)"
    using lt N by (simp add: word_unat_eq_iff drop_bit_eq_div unat_div unat_of_nat64 flip: N(2))
  moreover have "(ucast (of_nat N :: u64) :: u8) = b"
    using lt N by (simp add: word_unat_eq_iff unsigned_ucast_eq unat_of_nat64 take_bit_eq_mod)
  ultimately show ?case using snoc N(1) by (simp add: num_bytes_Suc)
qed (simp add: num_bytes_def)

lemma block_sizes_fit:
  assumes "n \<le> 8"
  shows "(256 :: nat) ^ n \<le> 58 ^ (block_sizes ! n)" and "block_sizes ! n \<le> 11"
    and "(n :: nat) < 8 \<Longrightarrow> block_sizes ! n < 11" and "index_of (block_sizes ! n) block_sizes 0 = int n"
proof -
  have "n \<in> {0, 1, 2, 3, 4, 5, 6, 7, 8}" using assms by auto
  then show "(256 :: nat) ^ n \<le> 58 ^ (block_sizes ! n)" "block_sizes ! n \<le> 11" "n < 8 \<Longrightarrow> block_sizes ! n < 11"
    "index_of (block_sizes ! n) block_sizes 0 = int n"
    by (auto simp: block_sizes_def)
qed

lemma b58_block_encode:
  assumes "length bs \<le> 8"
  shows "b58_block (rev (b58_rev (block_sizes ! length bs) (be_value bs))) = Got (of_nat (be_value bs))"
proof -
  have "(256 :: nat) ^ length bs \<le> 256 ^ 8" using assms by (intro power_increasing) auto
  then have "be_value bs < 2 ^ 64" using be_value_less [of bs] by simp
  moreover have "be_value bs < 58 ^ (block_sizes ! length bs)"
    using be_value_less [of bs] block_sizes_fit(1) [OF assms] by linarith
  ultimately show ?thesis
    using b58_digits_rev [of 0 0 "be_value bs" "block_sizes ! length bs"] block_sizes_fit(2) [OF assms]
    by (simp add: b58_block_def)
qed

lemma last_block_sizes [simp]: "last block_sizes = 11" "block_sizes ! 8 = 11"
  by (simp_all add: block_sizes_def)

lemma length_b58_encode:
  "length (b58_encode bs) = length bs div 8 * 11 + block_sizes ! (length bs mod 8)"
proof (induction bs rule: b58_encode.induct)
  case (1 bs)
  show ?case
  proof (cases "length bs < 8")
    case True
    then show ?thesis by (simp add: b58_encode.simps [of bs])
  next
    case False
    then have "length bs div 8 = Suc (length (drop 8 bs) div 8)" "length bs mod 8 = length (drop 8 bs) mod 8"
      by (simp_all add: div_if mod_if)
    with False 1 show ?thesis by (simp add: b58_encode.simps [of bs])
  qed
qed

lemma decode_blocks_encode:
  "decode_blocks (length bs div 8) (block_sizes ! (length bs mod 8)) (length bs mod 8) (b58_encode bs) acc = Got (acc @ bs)"
proof (induction bs arbitrary: acc rule: b58_encode.induct)
  case (1 bs)
  show ?case
  proof (cases "length bs < 8")
    case True
    then show ?thesis
      using b58_block_encode [of bs] num_bytes_be_value [of bs] by (simp add: b58_encode.simps [of bs])
  next
    case False
    let ?h = "take 8 bs" and ?t = "drop 8 bs"
    have d: "length bs div 8 = Suc (length ?t div 8)" "length bs mod 8 = length ?t mod 8"
      using False by (simp_all add: div_if mod_if)
    have "b58_encode bs = rev (b58_rev 11 (be_value ?h)) @ b58_encode ?t" using False by (simp add: b58_encode.simps [of bs])
    moreover have "b58_block (rev (b58_rev 11 (be_value ?h))) = Got (of_nat (be_value ?h))"
      using b58_block_encode [of ?h] False by simp
    moreover have "num_bytes 8 (of_nat (be_value ?h)) = ?h" using num_bytes_be_value [of ?h] False by simp
    ultimately show ?thesis using 1 False by (simp only: d decode_blocks.simps) simp
  qed
qed

lemma b58_encode_sizes:
  shows "69 \<le> length bs \<Longrightarrow> 95 \<le> length (b58_encode bs)" and "length bs \<le> 186 \<Longrightarrow> length (b58_encode bs) \<le> 256"
proof -
  let ?n = "length bs div 8" and ?m = "length bs mod 8"
  have len: "length (b58_encode bs) = ?n * 11 + block_sizes ! ?m" by (rule length_b58_encode)
  have sum: "?n * 8 + ?m = length bs" "?m < 8" by simp_all
  have few: "?m \<in> {0, 1, 2, 3, 4, 5, 6, 7}" by auto
  show "95 \<le> length (b58_encode bs)" if "69 \<le> length bs"
  proof -
    have "9 \<le> ?n \<or> ?n = 8 \<and> 5 \<le> ?m" using that sum by linarith
    then show ?thesis using few by (auto simp: len block_sizes_def)
  qed
  show "length (b58_encode bs) \<le> 256" if "length bs \<le> 186"
  proof -
    have "?n \<le> 22 \<or> ?n = 23 \<and> ?m \<le> 2" using that sum by linarith
    then show ?thesis using few by (auto simp: len block_sizes_def)
  qed
qed

lemma wallet_bytes_encode:
  assumes "length bs \<ge> 69" and "length bs \<le> 186"
  shows "wallet_bytes (b58_encode bs) = Got bs"
proof -
  let ?n = "length bs div 8" and ?m = "length bs mod 8"
  have m: "?m < 8" "?m \<le> 8" by simp_all
  have len: "length (b58_encode bs) = ?n * 11 + block_sizes ! ?m" by (rule length_b58_encode)
  have "block_sizes ! ?m < 11" using block_sizes_fit(3) m by blast
  then have dm: "length (b58_encode bs) div 11 = ?n" "length (b58_encode bs) mod 11 = block_sizes ! ?m" by (simp_all add: len)
  have sum: "?n * 8 + ?m = length bs" by simp
  note lo = b58_encode_sizes(1) [OF assms(1)] and hi = b58_encode_sizes(2) [OF assms(2)]
  show ?thesis
    using sum lo hi assms block_sizes_fit(4) [OF m(2)] decode_blocks_encode [of bs "[]"]
    by (simp add: wallet_bytes_def dm kMinAddressSize_def kMaxAddressSize_def kMinDataSize_def)
qed

section \<open>The fields\<close>

lemma br_array_at:
  assumes "br_at bs n p r" and "p + k \<le> n"
  shows "\<exists>r'. br_array k r = Got (take k (drop p bs), r') \<and> br_at bs n (p + k) r'"
proof -
  have "unat (br_index r) = p" "unat (br_size r) = n" "n < 2 ^ 64" "n \<le> length bs"
    using assms by (auto simp: br_at_def unat_of_nat64)
  moreover have "br_index r + of_nat k = of_nat (p + k)" using assms by (simp add: br_at_def)
  moreover have "\<not> (of_nat n :: u64) < of_nat (p + k)"
    using assms by (simp only: br_at_def word_less_nat_alt unat_of_nat64 not_less le_less_trans [of "p + k" n])
  ultimately show ?thesis
    using assms by (auto simp: br_array_def br_at_def simp del: of_nat_add)
qed

lemma br_skip_at:
  assumes "br_at bs n p r" and "p + 4 \<le> n"
  shows "\<exists>r'. br_skip ((br_size r - br_index r) - 4) r = Got r' \<and> br_at bs n (n - 4) r'"
proof -
  have "br_index r + ((br_size r - br_index r) - 4) = (of_nat (n - 4) :: u64)"
    using assms by (simp add: br_at_def of_nat_diff)
  moreover have "(of_nat (n - 4) :: u64) \<le> of_nat n"
    using assms by (simp only: br_at_def word_le_nat_alt unat_of_nat64 less_imp_diff_less)
  ultimately show ?thesis using assms by (auto simp: br_skip_def br_at_def not_less [symmetric])
qed

lemma wallet_fields_written:
  assumes "data = put_varint tag @ spend @ view @ ext @ ck" and "length spend = 32" and "length view = 32"
    and "length ck = 4" and "length data < 2 ^ 64"
  shows "wallet_fields (br_new data (of_nat (length data))) w =
    Got (True, w\<lparr>w_tag := tag, w_spend := spend, w_view := view, w_checksum := ck\<rparr>)"
proof -
  let ?n = "length data" and ?t = "length (put_varint tag)"
  have n: "?n = ?t + 64 + length ext + 4" using assms by simp
  have r0: "br_at data ?n 0 (br_new data (of_nat ?n))" by (rule br_at_new) (use assms in simp_all)
  obtain r1 where r1: "br_varint (br_new data (of_nat ?n)) = Got (tag, r1)" "br_at data ?n ?t r1"
    using varint_loop_put [of "[]" tag "spend @ view @ ext @ ck" ?n "br_new data (of_nat ?n)" 0 0]
      r0 assms(1) n unsigned_less [of tag] by (auto simp: br_varint_def)
  obtain r2 where r2: "br_array 32 r1 = Got (spend, r2)" "br_at data ?n (?t + 32) r2"
    using br_array_at [OF r1(2), of 32] n assms(1,2) by auto
  obtain r3 where r3: "br_array 32 r2 = Got (view, r3)" "br_at data ?n (?t + 64) r3"
    using br_array_at [OF r2(2), of 32] n assms(1,2,3) by (auto simp: add.assoc)
  obtain r4 where r4: "br_skip ((br_size r3 - br_index r3) - 4) r3 = Got r4" "br_at data ?n (?n - 4) r4"
    using br_skip_at [OF r3(2)] n by auto
  obtain r5 where r5: "br_array 4 r4 = Got (ck, r5)"
    using br_array_at [OF r4(2), of 4] n assms by auto
  show ?thesis by (simp add: wallet_fields_def r1 r2 r3 r4 r5 kWalletKeySize_def)
qed

lemma put_varint_nonempty: "put_varint k \<noteq> []"
  by (subst put_varint.simps) simp

lemma wallet_text_length:
  assumes "length spend = 32" and "length view = 32"
  shows "95 \<le> length (b58_encode (wallet_payload tag spend view ext))"
proof (rule b58_encode_sizes(1))
  have "length (put_varint tag) \<ge> 1" using put_varint_nonempty [of tag] by (cases "put_varint tag") auto
  then show "69 \<le> length (wallet_payload tag spend view ext)"
    using assms by (simp add: wallet_payload_def keccak200_def length_keccak Let_def)
qed

text \<open>An address that the encoder wrote is read back, behind either prefix.\<close>

lemma wallet_decode_bytes:
  assumes "wallet_prefix address = Some (tf, b58_encode (wallet_payload tag spend view ext))"
    and "length spend = 32" and "length view = 32" and "length (wallet_payload tag spend view ext) \<le> 186"
  shows "wallet_decode address w =
    Some (True, \<lparr>w_data = Some (b58_encode (wallet_payload tag spend view ext)), w_tag = (if tf \<noteq> 0 then tf else tag),
      w_checksum = take 4 (keccak200 (put_varint tag @ spend @ view @ ext)), w_spend = spend, w_view = view\<rparr>)"
proof -
  define p where "p = put_varint tag @ spend @ view @ ext"
  define ck where "ck = take 4 (keccak200 p)"
  have data: "wallet_payload tag spend view ext = p @ ck" by (simp add: wallet_payload_def p_def ck_def Let_def)
  have ck: "length ck = 4" by (simp add: ck_def keccak200_def length_keccak)
  have "length (put_varint tag) \<ge> 1" using put_varint_nonempty [of tag] by (cases "put_varint tag") auto
  then have "69 \<le> length (p @ ck)" using assms(2,3) ck by (simp add: p_def)
  then have b: "wallet_bytes (b58_encode (p @ ck)) = Got (p @ ck)" by (rule wallet_bytes_encode) (use assms(4) data in simp)
  have "wallet_fields (br_new (p @ ck) (of_nat (length (p @ ck)))) w =
      Got (True, w\<lparr>w_tag := tag, w_spend := spend, w_view := view, w_checksum := ck\<rparr>)"
    by (rule wallet_fields_written [where ext = ext]) (use assms data ck in \<open>auto simp: p_def\<close>)
  then show ?thesis
    using assms(1) ck by (cases w) (simp add: wallet_decode_def data b flip: p_def ck_def)
qed

text \<open>The last block is not tested for overflow: 0 and 256 are the same byte.\<close>

lemma wallet_last_block:
  assumes "length address mod 11 = 0"
  shows "wallet_bytes (address @ ''5R'') = wallet_bytes (address @ ''11'')"
proof -
  have blocks: "decode_blocks n 2 1 (a @ ''5R'') acc = decode_blocks n 2 1 (a @ ''11'') acc" if "length a = 11 * n" for n a acc
    using that
  proof (induction n arbitrary: a acc)
    case 0
    have "b58_rev 2 256 = ''R5''" "b58_rev 2 0 = ''11''" by (simp_all add: numeral_2_eq_2 b58_alphabet_def)
    then have "b58_block ''5R'' = Got 256" "b58_block ''11'' = Got 0"
      using b58_digits_rev [of 0 0 256 2] b58_digits_rev [of 0 0 0 2] by (simp_all add: b58_block_def)
    with 0 show ?case by (simp add: num_bytes_def)
  next
    case (Suc n)
    then show ?case by (simp add: Suc.IH)
  qed
  define n where "n = length address div 11"
  have n: "length address = 11 * n" using assms by (simp add: n_def) presburger
  have "(2 + 11 * n) div 11 = n" "(2 + 11 * n) mod 11 = 2" by presburger+
  then show ?thesis using blocks [OF n] n by (simp add: wallet_bytes_def block_sizes_def)
qed

end
