(* ===== verification/Samples.thy ===== *)
theory Samples
  imports Examples ExtraNonce SimpleInv Sha3 Wallet
begin

text \<open>
  Concrete runs of the extra-nonce and the simple splitter, for the instances of the properties: two
  connections that log in, a job that fits its buffers, a close and a result.
\<close>

definition eg_cfg :: config where "eg_cfg = config_new 0"

text \<open>Two connections without an upstream, and their logins.\<close>

definition eg_conn :: "int \<Rightarrow> miner" where
  "eg_conn i = ex_connection\<lparr>m_id := i\<rparr>"

definition eg_proc :: proc where
  "eg_proc = proc_new\<lparr>p_objs := [1 \<mapsto> eg_conn 1, 2 \<mapsto> eg_conn 2]\<rparr>"

definition eg_login :: "int \<Rightarrow> login_event" where
  "eg_login i = ex_login_event\<lparr>le_miner := i\<rparr>"

definition eg_job :: job where
  "eg_job = job_default\<lparr>j_rawBlob := replicate 152 (CHR ''0''), j_minerTxPrefix := replicate 40 0, j_extraNonceOffset := 10,
     j_extraNonceSize := 4\<rparr>"

lemma eg_job_fits: "job_fits eg_job"
proof -
  have "j_algorithm eg_job = ALGO_INVALID" by (simp add: eg_job_def job_default_def)
  then have "nonceOffset eg_job = 39" "nonceSize eg_job = 4" by (simp_all add: nonceOffset_def nonceSize_def algo_family_def)
  moreover have "\<not> j_hasMinerSignature eg_job" "\<not> j_hasViewTag eg_job" "j_extraNonceOffset eg_job = 10"
    "j_extraNonceSize eg_job = 4" "length (j_minerTxPrefix eg_job) = 40" "length (j_rawBlob eg_job) = 152"
    by (simp_all add: eg_job_def job_default_def)
  ultimately show ?thesis by (simp add: job_fits_def)
qed

lemma eg_conn_simps [simp]: "m_routeId (eg_conn i) = - 1" "m_mapperId (eg_conn i) = - 1" "m_extraNonce (eg_conn i) = - 1"
  "m_id (eg_conn i) = i"
  by (simp_all add: eg_conn_def ex_connection_def miner_new_def)

lemma eg_login_simps [simp]: "le_miner (eg_login i) = i"
  by (simp add: eg_login_def)

lemma eg_proc_simps [simp]: "p_objs eg_proc = [1 \<mapsto> eg_conn 1, 2 \<mapsto> eg_conn 2]" "\<not> p_fault eg_proc"
  by (simp_all add: eg_proc_def proc_new_def)

text \<open>The same miners when they are logged in.\<close>

definition eg_ready :: "int \<Rightarrow> miner" where
  "eg_ready i = (eg_conn i)\<lparr>m_state := ReadyState\<rparr>"

definition eg_ready_proc :: proc where
  "eg_ready_proc = proc_new\<lparr>p_objs := [1 \<mapsto> eg_ready 1, 2 \<mapsto> eg_ready 2]\<rparr>"

lemma eg_ready_simps [simp]: "p_objs eg_ready_proc = [1 \<mapsto> eg_ready 1, 2 \<mapsto> eg_ready 2]" "\<not> p_fault eg_ready_proc"
  "takes_jobs env (eg_ready i)" "m_sent (eg_ready i) = []" "member_out (eg_ready i) msg = JobNotify msg"
  by (simp_all add: eg_ready_proc_def proc_new_def eg_ready_def eg_conn_def ex_connection_def miner_new_def takes_jobs_def member_out_def)

section \<open>The extra-nonce splitter\<close>

definition eg_extra_run :: "xs_event list" where
  "eg_extra_run = [XsProc eg_proc, XsLogin (eg_login 1), XsLogin (eg_login 2), XsJob 0 None 0 eg_job]"

lemma eg_extra:
  "run_ok xs_ok (xs_step ex_env eg_cfg 5 1) (xs_init eg_cfg 5 1) eg_extra_run \<and>
   (\<exists>p em m m'. run (xs_step ex_env eg_cfg 5 1) (xs_init eg_cfg 5 1) eg_extra_run = (p, em) \<and> \<not> p_fault p \<and>
      em_members em = [1, 2] \<and> p_objs p 1 = Some m \<and> p_objs p 2 = Some m' \<and> m_extraNonce m = 0 \<and> m_extraNonce m' = 1 \<and>
      es_extraNonce (em_storage em) = 2)"
proof -
  let ?s = "run (xs_step ex_env eg_cfg 5 1) (xs_init eg_cfg 5 1) [XsProc eg_proc, XsLogin (eg_login 1), XsLogin (eg_login 2)]"
  obtain p em where s: "?s = (p, em)" by fastforce
  have e: "em_donate em = None \<and> em_members em = [1, 2] \<and> \<not> p_fault p \<and> p_objs p 1 \<noteq> None \<and> p_objs p 2 \<noteq> None" and
    ok: "run_ok xs_ok (xs_step ex_env eg_cfg 5 1) (xs_init eg_cfg 5 1) [XsProc eg_proc, XsLogin (eg_login 1), XsLogin (eg_login 2)]"
    using s
    by (auto simp: xs_login_def xs_init_def xs_connect_def em_start_def em_connect_def em_call_def em_new_def es_new_def
      xs_place_add em_add_def es_add_def Let_def miners_add_def upd_miner_def on_miner_def put_miner_def em_isSuspended_def
      eg_cfg_def config_new_def xs_rely_def placed_miner_def proc_new_def insort_insert_key_def split: option.splits)
  obtain p' em' where t: "em_onJob ex_env eg_cfg 0 None 0 eg_job p em = (p', em')" by fastforce
  then obtain es' where es: "es_setJob ex_env eg_job p (em_storage em) = (p', es')" "em_storage em' = es'"
    using e by (auto simp: em_onJob_def em_setJob_def split: prod.splits)
  have l: "\<not> p_fault p' \<and> es_extraNonce es' = 2 \<and> (\<forall>k < 2. \<exists>m. p_objs p' ([1, 2] ! k) = Some m \<and> m_extraNonce m = int k)"
    using es_setJob_fits [OF eg_job_fits _ _ es(1)] e by (auto simp: numeral_2_eq_2)
  have "\<exists>m. p_objs p' ([1, 2] ! 0) = Some m \<and> m_extraNonce m = int 0" "\<exists>m. p_objs p' ([1, 2] ! 1) = Some m \<and> m_extraNonce m = int 1"
    using l by (metis one_less_numeral_iff semiring_norm(76) zero_less_numeral)+
  then obtain m m' where "p_objs p' 1 = Some m" "m_extraNonce m = 0" "p_objs p' 2 = Some m'" "m_extraNonce m' = 1" by auto
  moreover have "es_miners es' = [1, 2]" using es_setJob_extra(1) [OF es(1)] e by simp
  ultimately have "xs_step ex_env eg_cfg 5 1 (p, em) (XsJob 0 None 0 eg_job) = (p', em')" "\<not> p_fault p'" "em_members em' = [1, 2]"
    "es_extraNonce (em_storage em') = 2"
    "\<exists>m m'. p_objs p' 1 = Some m \<and> p_objs p' 2 = Some m' \<and> m_extraNonce m = 0 \<and> m_extraNonce m' = 1"
    using t l es(2) by auto
  then show ?thesis using s ok by (simp add: eg_extra_run_def)
qed

section \<open>The simple splitter\<close>

definition eg_simple_cfg :: config where
  "eg_simple_cfg = eg_cfg\<lparr>cfg_reuseTimeout := 1\<rparr>"

definition eg_simple_run :: "ss_event list" where
  "eg_simple_run = [SsProc eg_proc, SsLogin eg_simple_cfg (\<lambda>k. k) (eg_login 1)]"

lemmas eg_simple_simps = ss_login_def ss_init_def ss_new_def sm_add_def sm_ext_def sm_new_def sm_connect_def sm_call_def ss_put_def
  Let_def upd_miner_def on_miner_def put_miner_def eg_simple_cfg_def eg_cfg_def config_new_def proc_new_def

lemma eg_places: "p_objs p = Map.empty \<Longrightarrow> keeps_places p eg_proc"
  by (simp add: keeps_places_def placed_miner_def)

lemma eg_simple:
  "run_ok ss_ok (ss_step ex_env) (ss_init eg_simple_cfg) eg_simple_run \<and>
   (\<exists>p ss m. run (ss_step ex_env) (ss_init eg_simple_cfg) eg_simple_run = (p, ss) \<and> p_objs p 1 = Some m \<and>
      m_routeId m = - 1 \<and> m_mapperId m = 0)"
  by (simp add: eg_simple_run_def) (simp add: eg_simple_simps eg_places)

text \<open>The miner leaves, and its upstream is idle.\<close>

lemma eg_simple_idle:
  "run_ok ss_ok (ss_step ex_env) (ss_init eg_simple_cfg) (eg_simple_run @ [SsClose 1]) \<and>
   (\<exists>p ss sm. run (ss_step ex_env) (ss_init eg_simple_cfg) (eg_simple_run @ [SsClose 1]) = (p, ss) \<and> 0 \<in> ss_keys ss \<and>
      ss_objs ss 0 = Some sm \<and> sm_miner sm = None \<and> sm_idleTime sm = 0 \<and> ss_reuseTimeout ss = 1)"
  by (simp add: eg_simple_run_def) (simp add: eg_simple_simps eg_places ss_remove_def proc_delete_def sm_remove_def)

section \<open>An address\<close>

definition eg_address :: "u8 list" where
  "eg_address = wallet_payload 0x12 (replicate 32 1) (replicate 32 2) []"

lemma eg_address_bytes: "eg_address = 0x12 # replicate 32 1 @ replicate 32 2 @ take 4 (keccak200 (0x12 # replicate 32 1 @ replicate 32 2))"
proof -
  have "put_varint 0x12 = [0x12]" by (subst put_varint.simps) simp
  then show ?thesis by (simp add: eg_address_def wallet_payload_def Let_def)
qed

lemma eg_address_short: "length eg_address \<le> 186" "8 \<le> length eg_address"
  by (simp_all add: eg_address_bytes)

lemma b58_rev_numeral: "b58_rev (numeral k) v = b58_alphabet ! (v mod 58) # b58_rev (pred_numeral k) (v div 58)"
  unfolding numeral_eq_Suc [of k] by (rule b58_rev.simps)

lemma eg_address_plain: "take 2 (b58_encode eg_address) \<noteq> ''TF''"
proof -
  have "b58_encode eg_address = rev (b58_rev 11 (be_value (take 8 eg_address))) @ b58_encode (drop 8 eg_address)"
    using eg_address_short(2) by (subst b58_encode.simps) simp
  moreover have "take 8 eg_address = [0x12, 1, 1, 1, 1, 1, 1, 1]" by (simp add: eg_address_bytes numeral_eq_Suc)
  moreover have "take 2 (rev (b58_rev 11 (be_value [0x12, 1, 1, 1, 1, 1, 1, 1]))) = ''41''"
    by (simp add: be_value_def b58_rev_numeral b58_alphabet_def)
  ultimately show ?thesis by simp
qed

end
