(* ===== verification/Facts.thy ===== *)
theory Facts
  imports Samples ClientRuns FieldBytes
begin

text \<open>
  Further facts about the program that the properties of the root theory do not include: texts and tables
  that parse back, bounds of the configuration, the chunk pool, closing connections, refused shares. The second
  theorem of a pair applies the first one at a concrete input.
\<close>

text \<open>A share is refused with an error for an upstream without a job, an unknown job, or the wrong algorithm; a refused share reaches no pool, leaves the upstream as it was, and no entry waits for its result.\<close>

theorem refused_share_changes_nothing:
  assumes "nm_check ev (p_cnt p) nm = (err, c)" and "err \<noteq> NoError"
  shows "nm_submit seq ev p nm = (ev\<lparr>se_error := err\<rparr>, p\<lparr>p_cnt := c\<rparr>, nm) \<and>
    err = (if \<not> ns_active (nm_storage nm) then BadGateway
           else if fst (ns_isValidJobId (jr_jobId (se_request ev)) (nm_storage nm) (p_cnt p)) then IncorrectAlgorithm
           else InvalidJobId)"
  using nm_submit_refused [OF assms] assms by (auto simp: nm_check_def Let_def split: if_splits prod.splits)

theorem refused_share_changes_nothing_witness:
  "nm_submit 5 ex_submit proc_new (nm_onPause ex_upstream) =
    (ex_submit\<lparr>se_error := BadGateway\<rparr>, proc_new\<lparr>p_cnt := counters_zero\<rparr>, nm_onPause ex_upstream)"
proof -
  have "nm_check ex_submit (p_cnt proc_new) (nm_onPause ex_upstream) = (BadGateway, counters_zero)"
    by (simp add: nm_check_def nm_onPause_def ns_setActive_def proc_new_def Let_def)
  from refused_share_changes_nothing [OF this] show ?thesis by simp
qed

text \<open>The byte of a miner that left is not handed out again before the next job, so a new miner never searches the nonces the old one has already tried.\<close>

theorem byte_waits_for_next_job:
  assumes "length (ns_used ns) = 256" and "p_objs p i = Some m" and "0 < i" and "ns_remove i p ns = (p', ns')"
  shows "ns_nextIndex 0 ns' \<noteq> Some (unat (m_fixedByte m))"
proof
  let ?b = "unat (m_fixedByte m)"
  assume n: "ns_nextIndex 0 ns' = Some ?b"
  have u: "ns_used ns' = (ns_used ns)[?b := - i]" using assms(2,4) by (auto simp: ns_remove_def)
  from ns_nextIndex_Some [OF n] assms(1) have "ns_used ns' ! ?b = 0" "?b < 256" by (simp_all add: u)
  then show False using ns_used_update [OF assms(1), of ?b "- i" ?b] assms(3) by (simp add: u)
qed

theorem byte_waits_for_next_job_witness:
  "ns_nextIndex 0 (snd (ns_remove 2 (px_proc ex_px) (nm_storage (px_up ex_px ! 0)))) \<noteq> Some 8"
proof -
  obtain m m' where m: "p_objs (px_proc ex_px) 2 = Some m'" "m_fixedByte m' = 8" by (rule ex_miners)
  have "0 < length (px_up ex_px)" using sp_invD(1) [OF px_inv_sp(1) [OF ex_px_inv]] by simp
  from sp_invD(4) [OF px_inv_sp(1) [OF ex_px_inv] this] have "length (ns_used (nm_storage (px_up ex_px ! 0))) = 256"
    by (auto simp: nm_inv_def intro: ns_invD(1))
  from byte_waits_for_next_job [OF this m(1) _ surjective_pairing] m(2) show ?thesis by simp
qed

text \<open>The collection of idle upstreams keeps the splitter consistent, keeps a first upstream, and drops only upstreams without miners from the end of the list.\<close>

theorem gc_drops_only_empty:
  assumes "sp_inv p ms"
  shows "sp_inv p (sp_gc ms) \<and> (\<exists>ds. map nm_gc ms = sp_gc ms @ ds \<and> list_all (\<lambda>d. ns_miners (nm_storage d) = Map.empty) ds)"
  using sp_gc_inv [OF assms] by (auto simp: list_all_iff)

theorem gc_drops_only_empty_witness:
  "sp_inv (px_proc ex_px) (sp_gc (px_up ex_px))"
  using gc_drops_only_empty [OF px_inv_sp(1) [OF ex_px_inv]] by blast

text \<open>A login with another password than the configured one is rejected, and the connection is closing afterwards.\<close>

theorem wrong_password_is_refused:
  assumes "p_objs p (le_miner ev) = Some m" and "cfg_password cfg = Some pw" and "m_password m \<noteq> Some pw"
    and "login_login env cfg ev p = (ev', p')"
  shows "le_rejected ev' \<and> (\<exists>m'. p_objs p' (le_miner ev) = Some m' \<and> m_state m' = miner_state.ClosingState)"
proof -
  let ?q = "on_miner (replyWithError env (le_id ev) (error_toString Forbidden)) (le_miner ev) p"
  have "\<not> str_isEqual (m_password m) (cfg_password cfg)" "\<not> str_isNull (cfg_password cfg)"
    using assms(2,3) by (auto simp: str_isEqual_def str_isNull_def split: option.splits)
  then have e: "ev' = ev\<lparr>le_rejected := True\<rparr>" "p' = proc_close env (le_miner ev) ?q"
    using assms(1,4) by (auto simp: login_login_def login_reject_def)
  have "p_objs ?q (le_miner ev) \<noteq> None" using assms(1) by (simp add: on_miner_def put_miner_def)
  then show ?thesis by (auto simp: e proc_close_objs shutdown_closing)
qed

theorem wrong_password_is_refused_witness:
  "le_rejected (fst (login_login ex_env ((config_new 1)\<lparr>cfg_password := Some ''secret''\<rparr>)
     ex_login_event (proc_new\<lparr>p_objs := [1 \<mapsto> ex_connection]\<rparr>)))"
  using wrong_password_is_refused [of "proc_new\<lparr>p_objs := [1 \<mapsto> ex_connection]\<rparr>"
      ex_login_event ex_connection "(config_new 1)\<lparr>cfg_password := Some ''secret''\<rparr>" "''secret''" ex_env, OF _ _ _ surjective_pairing]
  by (simp add: ex_connection_def miner_new_def ex_login_event_def)

text \<open>The difficulty a miner gets from the configuration or from the number behind the last plus sign of its login is zero or between 100 and the largest signed 32-bit integer.\<close>

theorem custom_diff_in_bounds:
  assumes "diff_ok (cfg_diff cfg)" and "diff_ok (m_customDiff m)"
  shows "diff_ok (m_customDiff (customDiff_of cfg m))"
  by (rule customDiff_of_ok [OF assms])

theorem custom_diff_in_bounds_witness:
  "diff_ok (m_customDiff (customDiff_of (config_new 1) ex_connection))"
  by (rule custom_diff_in_bounds [OF ex_config(1)]) (simp add: ex_connection_def miner_new_def diff_ok_def)

text \<open>Whenever the first pool logs in it takes over: it becomes the active one, the listener is told unless it was active already, and every other client is disconnected.\<close>

theorem failover_prefers_first:
  assumes "run_ok fs_ok fs_step (fs_new ps retryPause retries quiet) es" and "fs = run fs_step (fs_new ps retryPause retries quiet) es"
  shows "fs_active (fs_onLoginSuccess 0 fs) = 0 \<and>
    fs_ops (fs_onLoginSuccess 0 fs) = fs_ops fs @ map (\<lambda>i. (int i, OpDisconnect)) [1..<length (fs_pools fs)] \<and>
    fs_told (fs_onLoginSuccess 0 fs) = fs_told fs @ (if fs_active fs = 0 then [] else [LnActive 0])"
proof -
  have "fs_inv fs" using failover.run_init_inv [OF refl assms(1)] assms(2) by simp
  from fs_prefers_first [OF this] show ?thesis by blast
qed

theorem failover_prefers_first_witness:
  "fs_active (fs_onLoginSuccess 0 (run fs_step (fs_new [7, 8 :: nat] 5 2 False) [FsConnect, FsClose 0 2, FsLoginSuccess 1])) = 0"
proof -
  have "run_ok fs_ok fs_step (fs_new [7, 8 :: nat] 5 2 False) [FsConnect, FsClose 0 2, FsLoginSuccess 1]" by code_simp
  from failover_prefers_first [OF this refl] show ?thesis by blast
qed

text \<open>The strategy of a configuration uses exactly its enabled pools, in their order: with one of them it is the strategy of a single pool, otherwise the failover strategy with the settings of the configuration.\<close>

theorem strategy_uses_enabled_pools:
  "createStrategy ps = (case List.filter pool_isEnabled (ps_data ps) of
     [p] \<Rightarrow> SinglePool (sg_new p (ps_retryPause ps) (ps_retries ps) False)
   | en \<Rightarrow> Failover (fs_new en (ps_retryPause ps) (ps_retries ps) False))"
  by (rule createStrategy_pools)

text \<open>Whatever the configuration holds, the donation level is loaded between 0 and 99, the retries between 1 and 1000, the pause between 1 and 3600, and every loaded pool has a valid address.\<close>

theorem pool_settings_in_bounds:
  "0 \<le> ps_donateLevel (pools_load v pools_new) \<and> ps_donateLevel (pools_load v pools_new) \<le> 99 \<and>
    0 < ps_retries (pools_load v pools_new) \<and> ps_retries (pools_load v pools_new) \<le> 1000 \<and>
    0 < ps_retryPause (pools_load v pools_new) \<and> ps_retryPause (pools_load v pools_new) \<le> 3600 \<and>
    list_all pool_isValid (ps_data (pools_load v pools_new))"
  using pools_load_ok [OF pools_new_ok, of v] by (auto simp: pools_ok_def list_all_iff)

text \<open>The comparison of pools leaves out the spend key, and that of pool lists the donation level: when only these change in the configuration, the upstream of a daemon goes on with the strategy of the old ones.\<close>

theorem spend_key_change_ignored:
  assumes "ps_data ps = as @ q # bs"
  shows "xs_onConfigChanged (ps\<lparr>ps_data := as @ q\<lparr>pl_spendSecretKey := k\<rparr> # bs, ps_donateLevel := l\<rparr>) ps h em = em"
  using pools_isEqual_blind [OF assms] by (simp add: xs_onConfigChanged_def)

theorem spend_key_change_ignored_witness:
  "xs_onConfigChanged (pools_new\<lparr>ps_data := [(pool_of_text (Some ''a:1''))\<lparr>pl_spendSecretKey := Some ''new''\<rparr>], ps_donateLevel := 0\<rparr>)
    (pools_new\<lparr>ps_data := [pool_of_text (Some ''a:1'')]\<rparr>) 5 (em_new eg_cfg 4 1) = em_new eg_cfg 4 1"
  using spend_key_change_ignored [of "pools_new\<lparr>ps_data := [pool_of_text (Some ''a:1'')]\<rparr>" "[]" "pool_of_text (Some ''a:1'')" "[]",
    where k = "Some ''new''" and l = 0 and h = 5 and em = "em_new eg_cfg 4 1"] by simp

text \<open>The Townforge prefix of an address decides its tag but is not kept: the text that the object prints afterwards decodes to the tag of the plain address.\<close>

theorem wallet_prefix_lost:
  assumes "length spend = 32" and "length view = 32" and "length (wallet_payload tag spend view ext) \<le> 186"
    and "take 2 (b58_encode (wallet_payload tag spend view ext)) \<noteq> ''TF''" and "wallet_decode (''TF1M'' @ b58_encode (wallet_payload tag spend view ext)) w = r"
  shows "\<exists>w'. r = Some (True, w') \<and> w_tag w' = 0x424200 \<and> wallet_coin w' = TOWNFORGE \<and>
    wallet_toJSON w' = Some (b58_encode (wallet_payload tag spend view ext)) \<and>
    map_option (\<lambda>(ok, w). (ok, w_tag w)) (wallet_decode (the (wallet_toJSON w')) w) = Some (True, tag)"
proof -
  let ?t = "b58_encode (wallet_payload tag spend view ext)"
  have p: "wallet_prefix (''TF1M'' @ ?t) = Some (0x424200, ?t)" "wallet_prefix ?t = Some (0, ?t)"
    using assms(4) by (simp_all add: wallet_prefix_def)
  note d = wallet_decode_bytes [OF p(1) assms(1-3), of w] and d0 = wallet_decode_bytes [OF p(2) assms(1-3), of w]
  have len: "95 \<le> length ?t" by (rule wallet_text_length [OF assms(1,2)])
  have "ti_coin (tagInfo 0x424200) = TOWNFORGE" by code_simp
  moreover obtain w' where w': "r = Some (True, w')" "w_data w' = Some ?t" "w_tag w' = 0x424200"
    by (rule that [OF assms(5) [unfolded d, symmetric]]) simp_all
  moreover have "wallet_toJSON w' = Some ?t" using w' len by (simp add: wallet_toJSON_def wallet_isValid_def kMinAddressSize_def)
  moreover have "map_option (\<lambda>(ok, w). (ok, w_tag w)) (wallet_decode ?t w) = Some (True, tag)" by (simp add: d0)
  ultimately show ?thesis by (intro exI [of _ w']) (simp add: wallet_coin_def)
qed

theorem wallet_prefix_lost_witness:
  "\<exists>w. wallet_decode (''TF1M'' @ b58_encode eg_address) wallet_new = Some (True, w) \<and> w_tag w = 0x424200 \<and>
    map_option (\<lambda>(ok, w). (ok, w_tag w)) (wallet_decode (the (wallet_toJSON w)) wallet_new) = Some (True, 0x12)"
  using wallet_prefix_lost [OF _ _ eg_address_short(1) [unfolded eg_address_def] eg_address_plain [unfolded eg_address_def] refl, of wallet_new]
  by (auto simp: eg_address_def)

text \<open>The product of two 64-bit words that is put together from halves on 32-bit builds is the native 128-bit product: neither of the two carries is lost.\<close>

theorem umul128_portable_exact:
  "umul128_portable m n = umul128 m n \<and> umul128 m n = (of_nat (unat m * unat n), of_nat (unat m * unat n div 2 ^ 64))"
  using umul128_portable_native umul128_nat by blast

text \<open>Feeding an input in two pieces leaves the context that feeding it at once leaves, wherever it is cut, so the hash depends on the bytes only.\<close>

theorem sha3_update_splits:
  assumes "sha3_Init bits = Some c" and "c' = sha3_Update ins (snd (sha3_SetFlags flags c))"
  shows "sha3_Update bs (sha3_Update as c') = sha3_Update (as @ bs) c'"
proof -
  have "sha3_ok (snd (sha3_SetFlags flags c))"
    using assms(1) by (auto simp: sha3_Init_def sha3_SetFlags_def sha3_ok_def Let_def split: if_splits)
  then have "sha3_ok c'" by (simp add: assms(2) sha3_Update_bytes sha3_bytes_ok)
  then show ?thesis by (rule sha3_Update_append)
qed

theorem sha3_update_splits_witness:
  "sha3_Update [3, 4] (sha3_Update [1, 2] (sha3_Update [] (snd (sha3_SetFlags 1 (the (sha3_Init 256)))))) =
    sha3_Update [1, 2, 3, 4] (sha3_Update [] (snd (sha3_SetFlags 1 (the (sha3_Init 256)))))"
proof -
  have "sha3_Init 256 = Some (the (sha3_Init 256))" by (simp add: sha3_Init_def)
  from sha3_update_splits [OF this refl, of "[3, 4]" "[1, 2]"] show ?thesis by simp
qed

text \<open>The keep-alive request is printed into a buffer of 1024 bytes and sent with the length the whole text would have: with a session identifier of 960 characters or more, which the pool chooses, the client sends the pool memory behind its buffer.\<close>

theorem keepalive_overreads:
  assumes "cl_sendBuf s = 1024" "cl_rpcId s = Some i" "length i \<ge> 960"
  shows "BufferOverread \<in> set (cl_faults (cl_ping e s))"
proof -
  have "length (ping_text (cl_sequence s) (cl_rpcId s)) > cl_sendBuf s"
    using assms by (simp add: length_ping_text)
  then have "BufferOverread \<in> set (cl_faults (snd (cl_send_size e b (cl_fault BufferOverread s))))" for b
    using faults_mono(5) [of "cl_fault BufferOverread s" e b] by (auto simp: cl_fault_def)
  then show ?thesis using \<open>length _ > _\<close> by (simp add: cl_ping_def Let_def)
qed

theorem keepalive_overreads_witness:
  "BufferOverread \<in> set (cl_faults (cl_ping (eg_cenv 5 JsNull) (eg_client\<lparr>cl_rpcId := Some (replicate 960 (CHR ''a''))\<rparr>)))"
  by (rule keepalive_overreads [where i = "replicate 960 (CHR ''a'')"])
    (simp_all only: length_replicate order.refl, simp_all add: eg_client_def cl_new_def)

text \<open>A request that is not larger than sixteen kilobytes is written inside the send buffer, which grows with it.\<close>

theorem send_stays_in_buffer:
  assumes "cl_sendBuf s \<ge> 1024" "length (ce_text e obj) \<le> kMaxSendBufferSize"
  shows "length (ce_text e obj) + 1 < cl_sendBuf (snd (cl_send e obj s)) \<and>
    (BufferOverread \<in> set (cl_faults (snd (cl_send e obj s))) \<longleftrightarrow> BufferOverread \<in> set (cl_faults s))"
proof -
  let ?n = "length (ce_text e obj)"
  define t where "t = (if ?n > cl_sendBuf s - 2 then s\<lparr>cl_sendBuf := ((?n + 1) div 1024 + 1) * 1024\<rparr> else s)"
  have t: "?n + 1 < cl_sendBuf t" "cl_faults t = cl_faults s"
    using assms(1) resized_buffer [of ?n] by (auto simp: t_def)
  have k: "\<not> ?n > kMaxSendBufferSize" using assms(2) by simp
  have "cl_send e obj s = cl_send_size e (ce_text e obj @ [newline]) t"
    unfolding cl_send_def Let_def if_not_P [OF k] t_def [symmetric] if_P [OF t(1)] ..
  then show ?thesis using t by simp
qed

theorem send_stays_in_buffer_witness:
  "length (ce_text (eg_cenv 5 JsNull) JsNull) + 1 < cl_sendBuf (snd (cl_send (eg_cenv 5 JsNull) JsNull eg_client))"
proof -
  have "cl_sendBuf eg_client \<ge> 1024" "length (ce_text (eg_cenv 5 JsNull) JsNull) \<le> kMaxSendBufferSize"
    by (simp_all add: eg_client_def cl_new_def eg_cenv_def kMaxSendBufferSize_def)
  from send_stays_in_buffer [OF this] show ?thesis by blast
qed

text \<open>A SOCKS5 server reads the request for a host name of less than 256 characters as it was meant: the name and the port.\<close>

theorem socks5_request_read:
  assumes "length host < 256"
  shows "socks5_server (socks5_frame host port None None) = Some (host, port)"
proof -
  have n: "unat (of_nat (length host) :: u8) = length host" using assms by (simp add: unsigned_of_nat take_bit_nat_eq_self)
  have "push_bit 8 (ucast (ucast (drop_bit 8 port) :: u8)) OR ucast (ucast port :: u8) = port" for port :: u16
    by (rule bit_word_eqI) (auto simp: bit_simps)
  then show ?thesis
    by (simp add: socks5_server_def socks5_frame_def n Let_def comp_def nth_append)
qed

theorem socks5_request_read_witness:
  "socks5_server (socks5_frame ''pool.example'' 3333 None None) = Some (''pool.example'', 3333)"
  by (rule socks5_request_read) simp

text \<open>fe_invert raises its argument to the power p - 2, the inverse by Fermat's theorem, and fe_divpowm1 computes u v^3 (u v^7)^(2^252 - 3), the candidate for the square root of u / v.\<close>

theorem field_powers:
  "fe_mod (fe_invert z) = fe_mod z ^ nat (p25519 - 2) mod p25519 \<and>
    fe_mod (fe_divpowm1 u v) =
      fe_mod u * fe_mod v ^ 3 * (fe_mod u * fe_mod v ^ 7) ^ (2 ^ 252 - 3) mod p25519"
  using fe_mod_invert fe_mod_divpowm1 by blast

text \<open>The reader of variable-length integers gives back every 64-bit value the writer of \<open>generateHashingBlob\<close> wrote, stops behind it, and never reads out of bounds.\<close>

theorem varint_roundtrip:
  assumes "length (put_varint k @ post) < 2 ^ 64"
  shows "\<exists>r. br_varint (br_new (put_varint k @ post) (of_nat (length (put_varint k @ post)))) = Got (k, r) \<and>
    br_index r = of_nat (length (put_varint k))"
proof -
  let ?bs = "[] @ put_varint k @ post"
  have "br_at ?bs (length ?bs) (length ([] :: u8 list)) (br_new ?bs (of_nat (length ?bs)))"
    using br_at_new [OF _ assms] by simp
  from varint_loop_put [OF this, of 0 0] show ?thesis
    using unsigned_less [of k] by (auto simp: br_varint_def br_at_def)
qed

theorem varint_roundtrip_witness:
  "\<exists>r. br_varint (br_new (put_varint 300 @ [7]) (of_nat (length (put_varint 300 @ [7])))) = Got (300, r) \<and>
    br_index r = of_nat (length (put_varint 300))"
  by (rule varint_roundtrip) (simp add: put_varint.simps)

text \<open>The raw target that \<open>setDiff\<close> writes for a difficulty parses back to the target of that difficulty, with the difficulty recomputed from it, for every algorithm whose targets are not inverted.\<close>

theorem target_roundtrip:
  assumes "d \<noteq> 0" and "j_algorithm k \<noteq> RX_YADA"
  shows "setTarget (Some (j_rawTarget (setDiff d j))) k =
    Some (True, k\<lparr>j_target := toDiff d, j_diff := toDiff (toDiff d), j_rawTarget := j_rawTarget (setDiff d j)\<rparr>)"
  by (rule setTarget_setDiff [OF assms])

theorem target_roundtrip_witness:
  "setTarget (Some (j_rawTarget (setDiff 1000 job_default))) job_default =
    Some (True, job_default\<lparr>j_target := toDiff 1000, j_diff := toDiff (toDiff 1000),
      j_rawTarget := j_rawTarget (setDiff 1000 job_default)\<rparr>)"
  by (rule target_roundtrip) (simp_all add: job_default_def)

text \<open>\<open>Job::setTarget\<close> divides by zero on exactly the texts whose decoded bytes are four zeros (with an algorithm that does not invert targets); every other text gives a result.\<close>

theorem setTarget_division_by_zero:
  "setTarget t j = None \<longleftrightarrow>
     (\<exists>s. t = Some s \<and> 4 \<le> length s \<and> j_algorithm j \<noteq> RX_YADA \<and> length (fromHex s) = 4 \<and> le_word (fromHex s) = 0)"
  by (rule setTarget_None)

text \<open>The shortened target sent to a miner with a custom difficulty parses, and it loses no share: a hash that meets the target the miner reads from it has at least the difficulty asked for.\<close>

theorem custom_target_loses_no_share:
  assumes "0 < d" and "d < 2 ^ 32" and "a \<noteq> RX_YADA"
  shows "\<exists>t. parse_target (custom_target d) a = Some t \<and> (\<forall>v. 0 < v \<longrightarrow> v \<le> t \<longrightarrow> d \<le> toDiff v)"
  using custom_target_value(1) [OF assms] custom_target_sound [OF assms] by blast

theorem custom_target_loses_no_share_witness:
  "\<exists>t. parse_target (custom_target 1000) RX_0 = Some t \<and> (\<forall>v. 0 < v \<longrightarrow> v \<le> t \<longrightarrow> 1000 \<le> toDiff v)"
  by (rule custom_target_loses_no_share) simp_all

text \<open>A blob is accepted only when it decodes and the nonce lies inside it and inside the buffer; a blob whose nonce bytes are not zero switches the job to nicehash mode.\<close>

theorem job_blob_accepted:
  assumes "setBlob b j = (True, j')"
  shows "nonceOffset j + nonceSize j \<le> j_size j' \<and> j_size j' < kMaxBlobSize \<and> b = Some (j_rawBlob j') \<and>
    j_size j' = length (j_rawBlob j') div 2 \<and>
    j_nicehash j' = (j_nicehash j \<or> nonce_bytes (j\<lparr>j_blob := j_blob j'\<rparr>) \<noteq> [0, 0, 0, 0])"
  by (rule setBlob_True [OF assms]) simp

theorem job_blob_accepted_witness:
  "\<exists>j'. setBlob (Some (replicate 152 (CHR ''0''))) job_default = (True, j') \<and>
    nonceOffset job_default + nonceSize job_default \<le> j_size j' \<and> j_size j' = 76"
proof -
  have s: "fst (setBlob (Some (replicate 152 (CHR ''0''))) job_default)" by code_simp
  obtain j' where j': "setBlob (Some (replicate 152 (CHR ''0''))) job_default = (True, j')"
    using s by (metis prod.collapse)
  have "length (j_rawBlob j') = 152"
    using job_blob_accepted [OF j'] by (metis length_replicate option.inject)
  then show ?thesis using job_blob_accepted [OF j'] j' by simp
qed

text \<open>Decoding the text that the branch-free encoder wrote gives back the bytes, in lists of any length that fits the buffer.\<close>

theorem hex_roundtrip:
  assumes "length bs \<le> n"
  shows "cvt_hex2bin n (cvt_bin2hex_loop bs) = (True, bs)"
  by (rule cvt_hex2bin_bin2hex [OF assms])

theorem hex_roundtrip_witness:
  "cvt_hex2bin 3 (cvt_bin2hex_loop [0, 171, 255]) = (True, [0, 171, 255])"
  by (rule hex_roundtrip) simp

text \<open>Splitting a joined list of strings at the separator gives back the list, when no string is empty or contains the separator.\<close>

theorem split_join_roundtrip:
  assumes "xs \<noteq> []" and "\<forall>x \<in> set xs. x \<noteq> [] \<and> sep \<notin> set x"
  shows "split_loop sep [] (join_loop sep xs) = xs"
  by (rule split_join_loop [OF assms])

theorem split_join_roundtrip_witness:
  "split_loop (CHR '','') [] (join_loop (CHR '','') [''rx/0'', ''cn/r'']) = [''rx/0'', ''cn/r'']"
  by (rule split_join_roundtrip) simp_all

text \<open>Every name of the algorithm table parses, in any case, to its algorithm, and the algorithm prints as that name.\<close>

theorem algorithm_names_parse:
  assumes "(i, n) \<in> set kAlgorithmNames" and "map to_lower m = n"
  shows "algo_parse (Some m) = i \<and> algo_name i = n"
  using algo_parse_table [OF assms] algo_name_table [OF assms(1)] by simp

theorem algorithm_names_parse_witness:
  "algo_parse (Some ''RX/0'') = RX_0 \<and> algo_name RX_0 = ''rx/0''"
  by (rule algorithm_names_parse) code_simp+

text \<open>The code and the name of every coin parse to that coin.\<close>

theorem coins_parse:
  assumes "c \<noteq> COIN_INVALID"
  shows "coin_parse (coin_code c) = c \<and> coin_parse (coin_name c) = c"
  using coin_parse_code [OF assms] coin_parse_name [OF assms] by simp

theorem coins_parse_witness:
  "coin_parse (coin_code ZEPHYR) = ZEPHYR \<and> coin_parse (coin_name ZEPHYR) = ZEPHYR"
  by (rule coins_parse) simp

text \<open>The address text that \<open>Url\<close> builds from a host and a port parses back to that host and port, for hosts without a colon, a slash or a leading bracket.\<close>

theorem pool_url_roundtrip:
  assumes "host \<noteq> []" and "CHR '':'' \<notin> set host" and "CHR ''/'' \<notin> set host" and "hd host \<noteq> CHR ''[''"
  shows "url_parse (u_url (mk_url host port tls sc)) u =
    (True, u\<lparr>u_url := Some (host @ '':'' @ dec_nat (unat port)), u_host := Some host, u_port := port\<rparr>)"
  by (rule url_roundtrip [OF assms])

theorem pool_url_roundtrip_witness:
  "fst (url_parse (u_url (mk_url ''pool.example'' 3333 False STRATUM)) url_new)"
  using pool_url_roundtrip [of "''pool.example''" 3333 False STRATUM url_new] by simp

text \<open>A listening address parses from its text to the host and the port it was written with.\<close>

theorem bind_address_roundtrip:
  assumes "CHR '':'' \<notin> set host" and "hd host \<noteq> CHR ''[''" and "3 \<le> length host"
  shows "mk_bind_host (Some (host @ '':'' @ dec_nat (unat port))) = mk_bind_host_port host port 4"
  by (rule bh_roundtrip [OF assms])

theorem bind_address_roundtrip_witness:
  "mk_bind_host (Some (''0.0.0.0'' @ '':'' @ dec_nat (unat (3333 :: u16)))) = mk_bind_host_port ''0.0.0.0'' 3333 4"
  by (rule bind_address_roundtrip) simp_all

text \<open>Reading a configuration keeps the custom difficulty zero or within its bounds and every listening address valid, and a configuration that is accepted has an address to listen on.\<close>

theorem config_bounds:
  assumes "config_read ok rv c = (r, c')" and "diff_ok (cfg_diff c)" and "list_all bh_isValid (cfg_bind c)"
  shows "diff_ok (cfg_diff c') \<and> list_all bh_isValid (cfg_bind c') \<and> (r \<longrightarrow> cfg_bind c' \<noteq> [])"
  using config_read_ok [OF assms] by blast

theorem config_bounds_witness:
  "cfg_bind (snd (config_read True ex_reader (config_new 1))) \<noteq> []"
  using config_bounds [OF surjective_pairing ex_config(1,2)] ex_config(3) by blast

text \<open>After any history of reads and releases the chunk pool hands out a buffer that nobody holds, growing when it is empty.\<close>

theorem read_buffers_never_shared:
  assumes "run_ok pool_ok pool_step mp_new es" and "mp_allocate (run pool_step mp_new es) = (a, p)"
  shows "mp_used (run pool_step mp_new es) a = None \<and> mp_used p a \<noteq> None"
  using pool_fresh [OF assms] by blast

theorem read_buffers_never_shared_witness:
  "mp_used (run pool_step mp_new [Take, Take]) (fst (mp_allocate (run pool_step mp_new [Take, Take]))) = None"
  using read_buffers_never_shared [of "[Take, Take]", OF _ surjective_pairing] by simp

text \<open>Whatever a line of a connection holds, handling it keeps the identity and the routing of the miner, moves its state along the machine (wait for login, wait for a job, ready, closing), moves the counter of ready miners with it, only appends replies, and sends nothing once the connection is closing.\<close>

theorem request_keeps_miner_frame:
  "miner_frame s (snd (miner_parse env decode line s))"
  by (rule miner_parse_frame)

text \<open>A closing connection stays closing and is sent nothing more, whatever lines still arrive on it.\<close>

theorem closing_is_final:
  assumes "m_state m = miner_state.ClosingState"
  shows "m_state (fst (snd (miner_parse env decode line (m, c)))) = miner_state.ClosingState \<and>
    m_sent (fst (snd (miner_parse env decode line (m, c)))) = m_sent m"
  using miner_parse_frame [of "(m, c)" env decode line] assms closing_final by (auto simp: miner_frame_def)

theorem closing_is_final_witness:
  "m_sent (fst (snd (miner_parse ex_env (\<lambda>_. ParseError) ''{}'' (ex_miner\<lparr>m_state := miner_state.ClosingState\<rparr>, counters_zero)))) =
    m_sent ex_miner"
  using closing_is_final [of "ex_miner\<lparr>m_state := miner_state.ClosingState\<rparr>" ex_env "\<lambda>_. ParseError" "''{}''" counters_zero] by simp

text \<open>A share that the miner hands on without an error is well-formed, carries the id of its request, reaches the difficulty of the miner, and in nicehash mode has the miner fixed byte in its nonce.\<close>

theorem share_checks:
  assumes "se_error (submit_event_of i ps m) = NoError"
  shows "jr_isValid (se_request (submit_event_of i ps m)) \<and> jr_id (se_request (submit_event_of i ps m)) = i \<and>
    miner_diff m \<le> jr_actualDiff (se_request (submit_event_of i ps m)) \<and>
    (m_ext_nicehash m \<longrightarrow> jr_isCompatible (m_fixedByte m) (se_request (submit_event_of i ps m)))"
  using submit_event_ok [OF assms] by blast

theorem share_checks_witness:
  "miner_diff ex_miner \<le> jr_actualDiff (se_request (submit_event_of 7 ex_share ex_miner)) \<and>
    jr_isCompatible 0xAB (se_request (submit_event_of 7 ex_share ex_miner))"
  using share_checks [OF ex_share_accepted] by (simp add: ex_miner_def)

end
