(* ===== verification/Spec2Isabelle.thy ===== *)
theory Spec2Isabelle
  imports Counters CText Cvt Algorithm Keccak Coin BlobReader BlockTemplate Job NetBuffer Events Url Config
    Miner Miners NonceStorage Mapper NonceMapper NonceSplitter DonateSplitter Stats Workers Recorder Proxy ProxyInv ProxyRun ProxyFacts Examples
    OrdMap ExtraNonce Simple SimpleInv Strategies Json Pools Sha3 Env Client ClientInv ClientShares ClientLogin ClientRuns Field25519 FieldBounds FieldBytes Scalar25519 Wallet Samples Facts
begin

text \<open>
  p2pooler is a mining proxy: many miners connect over TCP or TLS and speak the stratum protocol, a
  few upstream connections go to a pool, and a splitter shares each upstream among the miners. This
  development models the code below \<open>src/\<close> in the order in which it is built up, and proves what
  makes it correct. All file names are relative to that directory.

  \<^bold>\<open>Parts and theories.\<close>
  \<^item> \<open>Prelude\<close>: machine integers, nullable strings (\<open>xmrig::String\<close> is an optional list of characters),
    bounded search, writes into buffers, and the locale \<open>event_component\<close>: a state, the events of its
    environment, a step, and an invariant that every permitted event keeps.
  \<^item> \<open>Counters\<close> (\<open>proxy/Counters\<close>, \<open>TickingCounter.h\<close>, \<open>ISplitter.h\<close>), \<open>Events\<close> (\<open>proxy/Events\<close>,
    \<open>events/\<close>): the process counters, and the bus that hands an event to its listeners in order, to
    the rejection handler once a listener has rejected it.
  \<^item> \<open>CText\<close>, \<open>Cvt\<close>, \<open>Url\<close>, \<open>Config\<close>, \<open>Coin\<close>, \<open>Algorithm\<close>: C strings and numbers, hexadecimal text
    (\<open>base/tools/Cvt\<close>), pool and listening addresses (\<open>base/net/stratum/Url\<close>, \<open>proxy/BindHost\<close>), the
    configuration (\<open>core/config/Config\<close>), the tables of coins and algorithms.
  \<^item> \<open>Keccak\<close>, \<open>BlobReader\<close>, \<open>BlockTemplate\<close>, \<open>Job\<close>: the permutation of \<open>base/crypto/keccak.cpp\<close>, the
    parser of block templates with its out-of-bounds reads and wrapping sizes as values, jobs, targets,
    shares and results (\<open>base/net/stratum/Job\<close>, \<open>net/JobResult\<close>, \<open>SubmitResult\<close>).
  \<^item> \<open>NetBuffer\<close>: the chunk pool and the line reader (\<open>base/net/tools\<close>).
  \<^item> \<open>Miner\<close>, \<open>Miners\<close>: one connection (\<open>proxy/Miner\<close>), and all of them with the server, the registry,
    the login check and the custom difficulty (\<open>proxy/Server\<close>, \<open>Miners\<close>, \<open>Login\<close>, \<open>CustomDiff\<close>).
  \<^item> \<open>NonceStorage\<close>, \<open>Mapper\<close>, \<open>NonceMapper\<close>, \<open>NonceSplitter\<close>: the nicehash splitter
    (\<open>proxy/splitters/nicehash\<close>) and the donation strategy (\<open>net/strategies/DonateStrategy\<close>).
  \<^item> \<open>ExtraNonce\<close>, \<open>Simple\<close>, \<open>SimpleInv\<close> (over \<open>OrdMap\<close>, the map that is iterated in order): the other two
    splitters (\<open>proxy/splitters/extra_nonce\<close>, \<open>proxy/splitters/simple\<close>), each with its runs and its invariant.
  \<^item> \<open>Strategies\<close>, \<open>Pools\<close>, \<open>Json\<close>: failover between pools (\<open>base/net/stratum/strategies\<close>), the pools of the
    configuration (\<open>base/net/stratum/Pool\<close>, \<open>Pools\<close>, \<open>ProxyUrl\<close>), the accessors of \<open>base/io/json/Json\<close>.
  \<^item> \<open>Sha3\<close>, \<open>Wallet\<close>: the streaming sponge (\<open>base/crypto/sha3.cpp\<close>), addresses and the double-width product
    (\<open>base/tools/cryptonote/WalletAddress\<close>, \<open>umul128.h\<close>).
  \<^item> \<open>Env\<close>, \<open>Client\<close>: variables in texts (\<open>base/io/Env\<close>), the stratum client of a pool with its SOCKS5 and TLS
    layers (\<open>base/net/stratum/Client\<close>, \<open>BaseClient\<close>, \<open>Socks5\<close>, \<open>Tls\<close>). \<open>ClientInv\<close>: the sockets, for an owner that
    connects only a client without one (\<open>cl_owner_ok\<close>; the strategies do not always keep to it);
    \<open>ClientShares\<close>: the answers; \<open>ClientLogin\<close>: where the login is sent, and what connecting a client that
    is still closing does; \<open>ClientRuns\<close>: timers, buffer, jobs. The resolver answers by an event of its own; an
    answer from its cache is that event right after the call.
  \<^item> \<open>Field25519\<close>, \<open>FieldBounds\<close>, \<open>FieldBytes\<close>: the field arithmetic under the signatures
    (\<open>base/tools/cryptonote/crypto-ops.c\<close>): ten limbs, the carry chains, powers, encoding and decoding. The
    bounds the comments of the code state are proved by evaluating the operations on bounds, those of the factors
    that are prepared in 32 bits too (\<open>fe_factors_int32\<close>).
  \<^item> \<open>Scalar25519\<close>: the scalars modulo the order of the base point (the sc_ functions of the same file). Their
    carries and foldings are lists of instructions; one theorem about lists gives the residue, one the bounds
    and one the canonical bytes of all of them.
  \<^item> \<open>DonateSplitter\<close>: the donation over the proxy (\<open>proxy/splitters/donate\<close>).
  \<^item> \<open>Stats\<close>, \<open>Workers\<close>, \<open>Recorder\<close>: the listeners that count shares, keep the worker table and write
    shares to Redis (\<open>proxy/Stats\<close>, \<open>proxy/workers\<close>, \<open>proxy/Recorder\<close>).
  \<^item> \<open>Proxy\<close>: all of it together (\<open>proxy/Proxy\<close>): the subscriptions in their order, the lines of a read,
    the callbacks of pools and clients, the timers, and a reload of the configuration, which changes the pools of
    the upstreams and the workers mode. \<open>ProxyInv\<close> and \<open>ProxyRun\<close> prove its invariant: \<open>px_inv\<close> in every run,
    and with the exact counts of the worker table in the runs that do not change the workers mode while a routed
    miner is connected (\<open>px_calm\<close>), which the code gets wrong. \<open>ProxyFacts\<close>: that case, and the two clocks of
    the timers.
  \<^item> \<open>Examples\<close>, \<open>Samples\<close>: concrete inputs, among them runs with two miners, for the instances of the
    properties. \<open>Facts\<close>: theorems beside the properties below.

  \<^bold>\<open>State and effects.\<close> A record of the code is a record here, with the members in the order of the class.
  Operations take and return the state. A pointer to a miner is the identifier of the miner, and
  identifiers are never reused: following the pointer of a deleted miner, or a null pointer, sets
  \<open>p_fault\<close>. Undefined reads and writes of the parsers are values of their own (\<open>Oob\<close>, \<open>None\<close>). What
  the event loop, the clock, the random source, TLS, JSON, the elliptic curve code, the pools and
  Redis answer is an argument (\<open>env\<close>, \<open>crypto\<close>, \<open>rand_source\<close>, \<open>world\<close>, the events). Calls on the
  strategies and on the clients of the pools are logged.

  \<^bold>\<open>Lemmas.\<close> \<open>frame_simps\<close> and the frame lemmas (\<open>miner_frame\<close>, \<open>proc_frame\<close>, \<open>nm_frame\<close>, \<open>mild\<close>) say what
  an operation leaves alone; the invariants \<open>ns_inv\<close>, \<open>nm_inv\<close>, \<open>sp_inv\<close>, \<open>dp_inv\<close>, \<open>wk_inv\<close>, \<open>proc_ok\<close>
  build up to \<open>px_inv\<close>, which every event of the proxy keeps (\<open>px_step_inv\<close>, the interpretation \<open>proxy\<close>
  of \<open>event_component\<close>). The properties below follow from these, or relate an optimised routine to a
  plain one (Keccak, the Merkle branch, the line reader, the table of ten), or invert a printer.

  \<^bold>\<open>Bounds and fuel.\<close> Counters, differences and identifiers of the protocol are words of their width.
  Sequence numbers, ticks of a map key and the suspension count, which only grow by one, are natural
  numbers; floating point averages are rationals. The only loop with fuel is the one over the extra
  field of a template, for which \<open>extra_loop_ends\<close> gives the fuel that is enough and
  \<open>extra_loop_wrap_diverges\<close> the input on which none is. Every other recursion terminates, the login loop
  that opens new upstreams included. The build is a release build (\<open>NDEBUG\<close>) with TLS and the API.

  \<^bold>\<open>Not modelled.\<close> the clients of solo mining (\<open>base/net/stratum/DaemonClient\<close>, \<open>SelfSelectClient\<close>)
  beyond their callbacks; the group operations of the elliptic curve and the signatures made with them,
  which are a parameter of the jobs; logging, the HTTP API, TLS, DNS, JSON, files, signals, start-up and platform code, which are glue
  around libraries or only print.
\<close>

section \<open>The proxy over whole runs\<close>

text \<open>C1: In every run of the proxy two miners placed on the same upstream have different fixed bytes, so two shares that pass the nicehash check of their miners never carry the same nonce bytes: the splitter partitions the nonces of a job among its miners.\<close>

theorem proxy_splits_nonces:
  assumes "run_ok px_ok (px_step w) (px_new w now r) es" and "px = run (px_step w) (px_new w now r) es"
    and "p_objs (px_proc px) i = Some m" and "p_objs (px_proc px) j = Some m'" and "i \<noteq> j"
    and "m_routeId m = - 1" and "m_routeId m' = - 1" and "0 \<le> m_mapperId m" and "m_mapperId m' = m_mapperId m"
  shows "\<not> (jr_isCompatible (m_fixedByte m) s \<and> jr_isCompatible (m_fixedByte m') s' \<and>
    snd (fromHex_to [0, 0, 0, 0] (take 8 (the (jr_nonce s) @ [nul]))) =
    snd (fromHex_to [0, 0, 0, 0] (take 8 (the (jr_nonce s') @ [nul]))))"
proof -
  have "px_inv False px" using proxy_run_inv [OF assms(1)] by (simp add: assms(2))
  from sp_bytes_distinct [OF px_inv_sp(1) [OF this] assms(3,4,6,7,8,9)] assms(5)
  have "m_fixedByte m \<noteq> m_fixedByte m'" by blast
  then show ?thesis by (auto simp: jr_isCompatible_def Let_def split: option.splits prod.splits)
qed

theorem proxy_splits_nonces_witness:
  "\<not> (\<exists>s s'. jr_isCompatible 7 s \<and> jr_isCompatible 8 s' \<and>
    snd (fromHex_to [0, 0, 0, 0] (take 8 (the (jr_nonce s) @ [nul]))) =
    snd (fromHex_to [0, 0, 0, 0] (take 8 (the (jr_nonce s') @ [nul]))))"
proof -
  obtain m m' where m: "p_objs (px_proc ex_px) 1 = Some m" "p_objs (px_proc ex_px) 2 = Some m'" "m_routeId m = - 1"
    "m_routeId m' = - 1" "m_mapperId m = 0" "m_mapperId m' = 0" "m_fixedByte m = 7" "m_fixedByte m' = 8" by (rule ex_miners)
  have "m_mapperId m' = m_mapperId m" "0 \<le> m_mapperId m" "(1 :: int) \<noteq> 2" using m by simp_all
  from proxy_splits_nonces [OF ex_run_ok ex_px_def m(1,2) this(3) m(3,4) this(2,1)] m(7,8) show ?thesis by simp
qed

text \<open>C2: In every run the process counters are the numbers of ready miners and of open connections, and the registry of \<open>Miners\<close> lists exactly the live connections, in order.\<close>

theorem proxy_counts:
  assumes "run_ok px_ok (px_step w) (px_new w now r) es" and "px = run (px_step w) (px_new w now r) es"
  shows "c_miners (p_cnt (px_proc px)) = of_nat (card (ready_ids (px_proc px))) \<and>
    c_connections (p_cnt (px_proc px)) = of_nat (length (px_miners px)) \<and>
    px_miners px = sorted_list_of_set (dom (p_objs (px_proc px)))"
proof -
  have "px_inv False px" using proxy_run_inv [OF assms(1)] by (simp add: assms(2))
  then show ?thesis using px_counters [of False px] by (simp add: px_inv_def px_reg_def)
qed

theorem proxy_counts_witness:
  "c_connections (p_cnt (px_proc ex_px)) = of_nat (length (px_miners ex_px))"
  using proxy_counts [OF ex_run_ok ex_px_def] by blast

text \<open>C3: In every run a miner placed on an upstream belongs to the table of exactly that upstream, which exists and is not suspended, and no upstream ever holds more than 256 miners.\<close>

theorem proxy_places_miners:
  assumes "run_ok px_ok (px_step w) (px_new w now r) es" and "px = run (px_step w) (px_new w now r) es"
    and "p_objs (px_proc px) i = Some m" and "m_routeId m = - 1" and "0 \<le> m_mapperId m"
  shows "\<exists>nm. nm \<in> set (px_up px) \<and> int (nm_id nm) = m_mapperId m \<and> ns_miners (nm_storage nm) i \<noteq> None \<and>
    nm_suspended nm = 0 \<and> card (dom (ns_miners (nm_storage nm))) \<le> 256"
proof -
  have inv: "px_inv False px" using proxy_run_inv [OF assms(1)] by (simp add: assms(2))
  note u = px_upstream [OF inv assms(3-5)] and sp = px_inv_sp(1) [OF inv]
  from sp_invD(3,4) [OF sp u(1)] nm_members_card u assms(5) show ?thesis by (intro exI conjI) auto
qed

theorem proxy_places_miners_witness:
  "\<exists>nm. nm \<in> set (px_up ex_px) \<and> int (nm_id nm) = 0 \<and> ns_miners (nm_storage nm) 2 \<noteq> None \<and>
    nm_suspended nm = 0 \<and> card (dom (ns_miners (nm_storage nm))) \<le> 256"
proof -
  obtain m m' where m: "p_objs (px_proc ex_px) 1 = Some m" "p_objs (px_proc ex_px) 2 = Some m'" "m_routeId m = - 1"
    "m_routeId m' = - 1" "m_mapperId m = 0" "m_mapperId m' = 0" "m_fixedByte m = 7" "m_fixedByte m' = 8" by (rule ex_miners)
  then show ?thesis using proxy_places_miners [OF ex_run_ok ex_px_def m(2,4)] by simp
qed

text \<open>C4: In every run in which no reload of the configuration changes the workers mode while a routed miner is connected (such a reload counts it for ever), with the worker table on, the connection count of each worker is the number of placed miners that the table maps to it: no login is counted twice and no close is missed, and a change of the mode counts afresh.\<close>

theorem proxy_counts_workers:
  assumes "run_ok (\<lambda>px ev. px_ok px ev \<and> px_calm px ev) (px_step w) (px_new w now r) es"
    and "px = run (px_step w) (px_new w now r) es"
    and "wk_isEnabled (px_workers px)" and "k < length (wk_workers (px_workers px))"
  shows "w_connections (wk_workers (px_workers px) ! k) =
    of_nat (card {i. (\<exists>m. p_objs (px_proc px) i = Some m \<and> m_routeId m = - 1 \<and> 0 \<le> m_mapperId m) \<and>
      wk_miners (px_workers px) i = Some k})"
  using px_worker_connections [OF _ assms(3,4)] proxy_calm_run_inv [OF assms(1)] by (simp add: assms(2) counted_def)

theorem proxy_counts_workers_witness:
  "w_connections (wk_workers (px_workers ex_px) ! 0) =
    of_nat (card {i. (\<exists>m. p_objs (px_proc ex_px) i = Some m \<and> m_routeId m = - 1 \<and> 0 \<le> m_mapperId m) \<and>
      wk_miners (px_workers ex_px) i = Some 0})"
  by (rule proxy_counts_workers [OF ex_run_calm ex_px_def ex_workers])

text \<open>C5: The close callback of a closing connection forgets the miner: it is deleted, the registry no longer lists it, no upstream holds it and no client of the donation over the proxy points to it; every other miner is untouched. (Only the map of \<open>Workers\<close> from miners to workers keeps an entry.)\<close>

theorem close_forgets_miner:
  assumes "px_inv False px" and "p_objs (px_proc px) i = Some m" and "m_state m = miner_state.ClosingState" and "px' = px_closed w env i px"
  shows "p_objs (px_proc px') = (p_objs (px_proc px))(i := None) \<and> i \<notin> set (px_miners px') \<and>
    (\<forall>nm \<in> set (px_up px'). ns_miners (nm_storage nm) i = None) \<and>
    \<not> (\<exists>k dm. dp_mappers (px_donate px') k = Some (Some dm) \<and> dm_miner dm = i)"
proof -
  from px_closed_inv [OF assms(1-3)] have inv: "px_inv False px'" and o: "p_objs (px_proc px') = (p_objs (px_proc px))(i := None)"
    by (simp_all add: assms(4))
  note sp = px_inv_sp(1) [OF inv] and dp = px_inv_sp(2) [OF inv]
  have "ns_miners (nm_storage (px_up px' ! k)) i = None" if "k < length (px_up px')" for k
    using nm_inv_memberD [OF sp_invD(4) [OF sp that], of i] o by (metis fun_upd_same option.distinct(1))
  then have "\<forall>nm \<in> set (px_up px'). ns_miners (nm_storage nm) i = None" by (metis in_set_conv_nth)
  moreover have "i \<notin> set (px_miners px')"
    using inv o by (auto simp: px_inv_def px_core_def px_reg_def proc_ok_def)
  moreover have "\<not> (\<exists>k dm. dp_mappers (px_donate px') k = Some (Some dm) \<and> dm_miner dm = i)"
    using dp_invD(1) [OF dp] o by fastforce
  ultimately show ?thesis using o by blast
qed

theorem close_forgets_miner_witness:
  "p_objs (px_proc (px_closed ex_world ex_env 2 (px_miner (shutdown ex_env True) 2 ex_px))) 2 = None"
proof -
  let ?px = "px_miner (shutdown ex_env True) 2 ex_px"
  have inv: "px_inv False ?px" by (rule px_miner_inv [OF ex_px_inv shutdown_frame]) (simp add: frame_simps)
  obtain m where "p_objs (px_proc ex_px) 2 = Some m" by (rule ex_miners)
  then have "p_objs (px_proc ?px) 2 = Some (fst (shutdown ex_env True (m, p_cnt (px_proc ex_px))))"
    by (simp add: px_miner_def on_miner_def put_miner_def)
  from close_forgets_miner [OF inv this shutdown_closing refl] show ?thesis by simp
qed

text \<open>C6: An accepted share whose miner has gone (or whose number is unknown) makes the recorder follow a null pointer: \<open>NonceMapper::onResultAccepted\<close> starts the accept event before it looks whether there is a miner, and \<open>Recorder::accept\<close> never looks.\<close>

theorem result_without_miner_crashes:
  assumes "client \<noteq> - 1" and "sc_miner (fst (sp_result_event k client result None (px_up px))) = None"
  shows "p_fault (px_proc (px_result w env k client result None px))"
proof -
  obtain ctx ev ms where r: "sp_result_event k client result None (px_up px) = (ctx, ev, ms)" by (cases rule: prod_cases3)
  have ev: "ae_miner ev = None" "ae_error ev = None" "ae_donate ev \<longleftrightarrow> client = - 1" "\<not> ae_customDiff ev"
    using r assms(2) by (auto simp: sp_result_event_def nm_result_event_def Let_def split: prod.splits)
  obtain ok e px' where start: "px_start w env 0 (EvAccept ev) (px\<lparr>px_up := ms\<rparr>) = (ok, e, px')" by (cases rule: prod_cases3)
  have "p_fault (px_proc px')"
    using start ev assms(1)
    by (auto simp: px_start_call bus_lists listener_defs recorder_accept_def ae_isRejected_def split: prod.splits)
  then show ?thesis using reply_result_same(2) [of "px_proc px'" env ctx None] r start by (simp add: px_result_def proc_frame_def)
qed

theorem result_without_miner_crashes_witness:
  "p_fault (px_proc (px_result ex_world ex_env 0 0 (mk_submit_result 0 5 1000 2000 7 0) None (ex_px\<lparr>px_up := [ex_upstream]\<rparr>)))"
  by (rule result_without_miner_crashes) (simp_all add: sp_result_event_def nm_result_event_def ex_upstream_def nm_new_def take_ctx_def ctx_empty_def)

section \<open>Upstreams\<close>

text \<open>C7: The login of a miner that is not routed elsewhere ends and places the miner on the first upstream in use that has a free byte; when none has, on the first suspended one that has; and only when all are full on one new upstream. The miner is in the table of that upstream, and the other miners keep their places.\<close>

theorem login_always_places:
  assumes "sp_inv p ms" and "p_objs p (le_miner ev) = Some m" and "0 < le_miner ev" and "m_mapperId m < 0" and "m_routeId m = - 1"
    and "sp_onLogin env cfg src ev p ms = (p', ms')"
  shows "sp_inv p' ms' \<and> (\<exists>m'. p_objs p' (le_miner ev) = Some m' \<and> m_mapperId m' = int (login_place ms)) \<and>
    length ms' = (if login_place ms < length ms then length ms else length ms + 1) \<and>
    ns_miners (nm_storage (ms' ! login_place ms)) (le_miner ev) \<noteq> None \<and>
    \<not> (\<exists>j. j \<noteq> le_miner ev \<and> map_option nm_view (p_objs p' j) \<noteq> map_option nm_view (p_objs p j))"
proof -
  note l = sp_onLogin_inv [OF assms(1-4,6)] and pl = sp_onLogin_place [OF assms(1,2,5,6)]
  from l(3) [OF assms(5)] obtain m' where m': "p_objs p' (le_miner ev) = Some m'" "m_routeId m' = - 1" "0 \<le> m_mapperId m'"
    and same: "\<And>j. j \<noteq> le_miner ev \<Longrightarrow> same_view p p' j" unfolding placed_def by blast
  have k: "m_mapperId m' = int (login_place ms)" using pl(1) m'(1) by auto
  moreover have "length ms' = (if login_place ms < length ms then length ms else length ms + 1)"
    using pl(2) login_place_le [of ms] by auto
  ultimately show ?thesis using sp_invD(5) [OF l(1) m'] l(1) m'(1) same by (simp add: k) blast
qed

theorem login_always_places_witness:
  "\<exists>m'. p_objs (fst (sp_onLogin ex_env (w_cfg ex_world) (w_src ex_world) ex_login_event (px_proc ex_px0) (px_up ex_px0)))
      (le_miner ex_login_event) = Some m' \<and> m_mapperId m' = int (login_place (px_up ex_px0))"
proof -
  obtain m where m: "p_objs (px_proc ex_px0) (le_miner ex_login_event) = Some m" "m_mapperId m < 0" "m_routeId m = - 1"
    by (rule ex_px0_miner)
  have "0 < le_miner ex_login_event" by (simp add: ex_login_event_def)
  from login_always_places [OF px_inv_sp(1) [OF ex_px0_inv] m(1) this m(2,3) surjective_pairing] show ?thesis by blast
qed

text \<open>C8: The result of a share that an upstream passed on finds its way back: the entry under its sequence number gives the miner that sent it and the id of its request, the accept event names that miner, and the entry is gone.\<close>

theorem share_result_returns:
  assumes "nm_check ev (p_cnt p) nm = (NoError, c)" and "nm_submit seq ev p nm = (ev', p', nm')"
    and "ns_miners (nm_storage nm) (se_miner ev) = Some (se_miner ev)" and "sr_seq result = seq"
    and "nm_result_event client result err nm' = (ctx, ae, nm'')"
  shows "sc_miner ctx = Some (se_miner ev) \<and> sc_id ctx = jr_id (se_request ev) \<and> ae_miner ae = Some (se_miner ev) \<and>
    nm_results nm'' seq = None"
  using nm_submit_result [OF assms] by blast

theorem share_result_returns_witness:
  "\<exists>nm' nm'' ctx ae. snd (snd (nm_submit 5 ex_submit proc_new ex_upstream)) = nm' \<and>
    nm_result_event 0 (mk_submit_result 0 5 1000 2000 7 0) None nm' = (ctx, ae, nm'') \<and> ae_miner ae = Some 2 \<and>
    sc_id ctx = jr_id (se_request ex_submit)"
proof -
  obtain ev' p' nm' where s: "nm_submit 5 ex_submit proc_new ex_upstream = (ev', p', nm')" by (cases rule: prod_cases3)
  obtain ctx ae nm'' where r: "nm_result_event 0 (mk_submit_result 0 5 1000 2000 7 0) None nm' = (ctx, ae, nm'')"
    by (cases rule: prod_cases3)
  have c: "nm_check ex_submit (p_cnt proc_new) ex_upstream = (NoError, p_cnt proc_new)"
    by (simp add: nm_check_def ex_upstream_def ex_submit_def submit_event_of_def mk_job_result_def ex_share_def ns_isValidJobId_def
        str_isEqual_def nm_new_def algo_parse_def algo_isValid_def Let_def)
  have "ns_miners (nm_storage ex_upstream) (se_miner ex_submit) = Some (se_miner ex_submit)"
    by (simp add: ex_upstream_def ex_submit_def)
  from share_result_returns [OF c s this _ r] s r show ?thesis by (auto simp: mk_submit_result_def ex_submit_def)
qed

text \<open>C9: When the donation pool drops the connection during a donation round, \<open>NonceMapper::onPause\<close> marks the upstream inactive although its own pool is connected; the next job of that pool does not mark it active, and every share is refused with a bad gateway.\<close>

theorem donation_close_blocks_upstream:
  assumes "nm_donate nm = Some d" and "ds_active d" and "client \<noteq> - 1"
    and "nm_onJob env cfg client host port job p (nm_donate_onClose nm) = (p', nm')"
  shows "\<not> ns_active (nm_storage nm') \<and> fst (nm_check ev c nm') = BadGateway"
  using donate_close_blocks [OF assms] by blast

theorem donation_close_blocks_upstream_witness:
  "\<not> ns_active (nm_storage (snd (nm_onJob ex_env (config_new 1) 0 None 0 job_default proc_new
    (nm_donate_onClose (ex_upstream\<lparr>nm_donate := Some ((ds_new 1 (1 / 2))\<lparr>ds_active := True\<rparr>)\<rparr>)))))"
  using donation_close_blocks_upstream
    [of "ex_upstream\<lparr>nm_donate := Some ((ds_new 1 (1 / 2))\<lparr>ds_active := True\<rparr>)\<rparr>" "(ds_new 1 (1 / 2))\<lparr>ds_active := True\<rparr>" 0
      ex_env "config_new 1" None 0 job_default proc_new, OF _ _ _ surjective_pairing] by simp

text \<open>C10: A share of a miner that was routed to its own pool goes to the client made for that miner, with the difficulty of its last job, or is refused when the client has closed; the lookup never inserts a null pointer into the map.\<close>

theorem routed_share_reaches_own_client:
  assumes "dp_inv p dp" and "p_objs p (se_miner ev) = Some m" and "m_routeId m = 0" and "0 \<le> m_mapperId m"
    and "dp_submit ev p dp = (ev', p', dp')"
  shows "\<exists>dm. dp_mappers dp (nat (m_mapperId m)) = Some (Some dm) \<and> dm_miner dm = se_miner ev \<and> p' = p \<and>
    (if dm_active dm
     then ev' = ev \<and> dp_mappers dp' = (dp_mappers dp)(nat (m_mapperId m) \<mapsto>
       Some (dm_call (CSubmit ((se_request ev)\<lparr>jr_diff := dm_diff dm\<rparr>)) dm))
     else ev' = ev\<lparr>se_error := BadGateway\<rparr> \<and> dp_mappers dp' = dp_mappers dp)"
  by (rule dp_submit_routed [OF assms])

theorem routed_share_reaches_own_client_witness:
  "dp_mappers (snd (snd (dp_submit ex_submit ex_routed_proc ex_donate))) 0 =
    Some (Some (dm_call (CSubmit ((se_request ex_submit)\<lparr>jr_diff := dm_diff ex_client\<rparr>)) ex_client))"
proof -
  obtain ev' p' dp' where s: "dp_submit ex_submit ex_routed_proc ex_donate = (ev', p', dp')" by (cases rule: prod_cases3)
  have "0 \<le> m_mapperId ex_routed" by (simp add: ex_routed)
  from routed_share_reaches_own_client [OF ex_routed(1-3) this s] show ?thesis using ex_routed(4-6) by (auto simp: s)
qed

section \<open>Connections: login, expiry, difficulty\<close>

text \<open>C11: The login timeout is set from the wall clock and tested against the clock of the event loop: a connection accepted at the wall clock time \<open>W\<close> (milliseconds since 1970) that never says anything is closed by the timers exactly when the clock of the loop, milliseconds since an arbitrary start such as the boot, is beyond \<open>W\<close> plus ten seconds; however long it is silent before that, it stays open.\<close>

theorem login_timeout_mixes_clocks:
  assumes "server_create env rpcId ctx port tls acc ip (px_proc px) = (Some i, p')"
    and "px' = run (px_step w) (px_create w env rpcId ctx port tls acc ip px) (map PxMinersTick ts)"
  shows "\<exists>m. p_objs (px_proc px') i = Some m \<and>
    m_state m = (if \<exists>t \<in> set ts. e_loop_now t > e_now env + 10000 then miner_state.ClosingState else WaitLoginState)"
proof -
  obtain m where m: "p_objs (px_proc (px_create w env rpcId ctx port tls acc ip px)) i = Some m" "m_expire m = e_now env + kLoginTimeout"
    "m_state m = WaitLoginState" "i \<in> set (px_miners (px_create w env rpcId ctx port tls acc ip px))"
    using px_create_expire [OF assms(1)] by blast
  have timeout: "kLoginTimeout = 10000" by (simp add: kLoginTimeout_def)
  from run_ticks_one [OF m(4,1), of w ts] show ?thesis unfolding assms(2) m(2,3) timeout .
qed

theorem login_timeout_mixes_clocks_witness:
  "\<exists>m. p_objs (px_proc (run (px_step ex_world) (px_create ex_world ex_env None False 1 False True ''ip'' (px_new ex_world 0 ()))
      (map PxMinersTick [ex_env\<lparr>e_loop_now := 900000\<rparr>]))) 1 = Some m \<and> m_state m = WaitLoginState"
proof -
  have s: "server_create ex_env None False 1 False True ''ip'' (px_proc (px_new ex_world 0 ())) =
    (Some 1, snd (server_create ex_env None False 1 False True ''ip'' (px_proc (px_new ex_world 0 ()))))"
    by (simp add: server_create_def miner_new_def px_new_def proc_new_def Let_def)
  have "\<not> (\<exists>t \<in> set [ex_env\<lparr>e_loop_now := 900000\<rparr>]. e_loop_now t > e_now ex_env + 10000)"
    by (simp add: ex_env_def)
  then show ?thesis using login_timeout_mixes_clocks [OF s refl, of ex_world "[ex_env\<lparr>e_loop_now := 900000\<rparr>]"] by (simp only: if_False)
qed

section \<open>Statistics and the recorder\<close>

text \<open>C12: After any sequence of accept events the statistics count the accepted shares and their difficulties, and the table of ten holds the ten greatest actual difficulties among them, in descending order.\<close>

theorem ten_best_shares:
  assumes "st_onAccepts cfg evs (p, st_new now) = (p', s')"
  shows "sd_accepted (st_data s') = of_nat (length (List.filter ae_counted evs)) \<and>
    sd_hashes (st_data s') = (\<Sum>ev\<leftarrow>List.filter ae_counted evs. sr_diff (ae_result ev)) \<and>
    sd_topDiff (st_data s') = ten_best (rev (map (\<lambda>ev. sr_actualDiff (ae_result ev)) (List.filter ae_counted evs)))"
  using st_onAccepts_counts [OF assms, of "[]"] sd_new_top [of now] by (simp add: st_new_def sd_new_def)

theorem ten_best_shares_witness:
  "sd_accepted (st_data (snd (st_onAccepts (config_new 1)
     [\<lparr>ae_mapperId = 0, ae_miner = Some 1, ae_result = mk_submit_result 0 1 1000 2000 7 0, ae_donate = False, ae_customDiff = False,
       ae_error = None\<rparr>] (proc_new, st_new 0)))) = 1"
  using ten_best_shares [OF surjective_pairing, of "config_new 1"
      "[\<lparr>ae_mapperId = 0, ae_miner = Some 1, ae_result = mk_submit_result 0 1 1000 2000 7 0, ae_donate = False, ae_customDiff = False,
        ae_error = None\<rparr>]" proc_new 0] by (simp add: ae_counted_def ae_isRejected_def)

text \<open>C13: An accepted share of a user with a valid address is appended exactly once to the list of that user (the login up to its first plus sign), which is created when it is missing, given a Redis server that follows the documentation of the two JSON commands.\<close>

theorem accepted_share_is_recorded:
  assumes "redis_json db redis" and "ae_miner ev = Some i" and "p_objs p i = Some m" and "m_user m = Some u"
    and "\<not> ae_donate ev" and "\<not> ae_customDiff ev" and "\<not> ae_isRejected ev" and "validateAddress (Some (share_user u))"
  shows "\<exists>r'. recorder_onAccept redis True p now ev r = Some r' \<and>
    db r' = (db r)(share_key (share_user u) \<mapsto>
      (case db r (share_key (share_user u)) of None \<Rightarrow> [] | Some xs \<Rightarrow> xs) @ [share_json now (sr_diff (ae_result ev))])"
  by (rule recorder_appends [OF assms])

theorem accepted_share_is_recorded_witness:
  "\<exists>r'. recorder_onAccept ex_redis True (proc_new\<lparr>p_objs := [1 \<mapsto> ex_miner\<lparr>m_user := Some (CHR ''4'' # replicate 94 (CHR ''A''))\<rparr>]\<rparr>) 99
      \<lparr>ae_mapperId = 0, ae_miner = Some 1, ae_result = mk_submit_result 0 1 1000 2000 7 0, ae_donate = False, ae_customDiff = False,
        ae_error = None\<rparr> Map.empty = Some r' \<and>
    r' = [share_key (share_user (CHR ''4'' # replicate 94 (CHR ''A''))) \<mapsto> [share_json 99 1000]]"
proof -
  have v: "validateAddress (Some (share_user (CHR ''4'' # replicate 94 (CHR ''A''))))" by code_simp
  show ?thesis
    using accepted_share_is_recorded [OF ex_redis_json, where now = 99 and r = Map.empty and i = 1 and
        p = "proc_new\<lparr>p_objs := [1 \<mapsto> ex_miner\<lparr>m_user := Some (CHR ''4'' # replicate 94 (CHR ''A''))\<rparr>]\<rparr>" and
        ev = "\<lparr>ae_mapperId = 0, ae_miner = Some 1, ae_result = mk_submit_result 0 1 1000 2000 7 0, ae_donate = False, ae_customDiff = False,
          ae_error = None\<rparr>", OF _ _ _ _ _ _ v]
    by (simp add: mk_submit_result_def ae_isRejected_def)
qed

section \<open>The other splitters\<close>

text \<open>C14: In every run of the extra nonce splitter that has not yet written outside the buffers of a job or followed a null pointer (\<open>p_fault\<close>), two members that have an extra nonce have different ones, below the counter from which the next miner gets its own. And the numbers are what separates their work: of a job with an extra nonce of four bytes, \<open>setJob\<close> writes different miner transactions for the two members, whatever earlier members have written into the buffers of the job, as long as the counter stays within 32 bits.\<close>

theorem extra_nonces_distinct:
  assumes "run_ok xs_ok (xs_step env cfg h dr) (xs_init cfg h dr) es" and "run (xs_step env cfg h dr) (xs_init cfg h dr) es = (p, em)"
    and "\<not> p_fault p" and "i \<in> set (em_members em)" and "j \<in> set (em_members em)" and "i \<noteq> j"
    and "p_objs p i = Some m" and "p_objs p j = Some m'" and "m_extraNonce m \<noteq> - 1" and "m_extraNonce m' \<noteq> - 1"
  shows "m_extraNonce m \<noteq> m_extraNonce m' \<and> 0 \<le> m_extraNonce m \<and> m_extraNonce m < es_extraNonce (em_storage em) \<and>
    (\<forall>e e' job job' c c' job1 job1' s s'.
       setJob e job (m_extraNonce m) (m, c) = Some (job1, s) \<longrightarrow> setJob e' job' (m_extraNonce m') (m', c') = Some (job1', s') \<longrightarrow>
       j_extraNonceOffset job' = j_extraNonceOffset job \<longrightarrow> j_extraNonceSize job' = j_extraNonceSize job \<longrightarrow>
       4 \<le> j_extraNonceSize job \<longrightarrow> es_extraNonce (em_storage em) \<le> 2 ^ 32 \<longrightarrow>
       j_minerTxPrefix job1 \<noteq> j_minerTxPrefix job1')"
proof -
  have "xs_inv (p, em)" using extra.run_init_inv [OF refl assms(1)] assms(2) by simp
  from xs_invD(7) [OF this assms(3)] have d: "xs_distinct p (em_storage em)" .
  then have range: "0 \<le> m_extraNonce m \<and> m_extraNonce m < es_extraNonce (em_storage em)"
    "0 \<le> m_extraNonce m' \<and> m_extraNonce m' < es_extraNonce (em_storage em)"
    using xs_distinct_range assms(4-10) by blast+
  moreover have "m_extraNonce m \<noteq> m_extraNonce m'" using d assms(4-9) unfolding xs_distinct_def by blast
  moreover have "j_minerTxPrefix job1 \<noteq> j_minerTxPrefix job1'"
    if "setJob e job (m_extraNonce m) (m, c) = Some (job1, s)" "setJob e' job' (m_extraNonce m') (m', c') = Some (job1', s')"
      "j_extraNonceOffset job' = j_extraNonceOffset job" "j_extraNonceSize job' = j_extraNonceSize job" "4 \<le> j_extraNonceSize job"
      "es_extraNonce (em_storage em) \<le> 2 ^ 32" for e e' job job' c c' job1 job1' s s'
    by (rule setJob_differs [OF that(1-5)]) (use calculation that(6) in linarith)+
  ultimately show ?thesis by blast
qed

theorem extra_nonces_distinct_witness:
  "\<exists>p em m m' job1 job1' s s'. run (xs_step ex_env eg_cfg 5 1) (xs_init eg_cfg 5 1) eg_extra_run = (p, em) \<and>
    p_objs p 1 = Some m \<and> p_objs p 2 = Some m' \<and> m_extraNonce m' \<noteq> m_extraNonce m \<and>
    setJob ex_env eg_job (m_extraNonce m') (m', counters_zero) = Some (job1', s') \<and>
    setJob ex_env eg_job (m_extraNonce m) (m, counters_zero) = Some (job1, s) \<and> j_minerTxPrefix job1' \<noteq> j_minerTxPrefix job1"
proof -
  obtain p em m m' where s: "run (xs_step ex_env eg_cfg 5 1) (xs_init eg_cfg 5 1) eg_extra_run = (p, em)" "\<not> p_fault p"
      "em_members em = [1, 2]" "p_objs p 1 = Some m" "p_objs p 2 = Some m'" "m_extraNonce m = 0" "m_extraNonce m' = 1"
      "es_extraNonce (em_storage em) = 2"
    and ok: "run_ok xs_ok (xs_step ex_env eg_cfg 5 1) (xs_init eg_cfg 5 1) eg_extra_run" using eg_extra by blast
  have "(2 :: int) \<in> set (em_members em)" "(1 :: int) \<in> set (em_members em)" "(2 :: int) \<noteq> 1" "m_extraNonce m' \<noteq> - 1"
    "m_extraNonce m \<noteq> - 1" using s by simp_all
  note d = extra_nonces_distinct [OF ok s(1,2) this(1-3) s(5,4) this(4,5)]
  obtain job1 t job1' t' where j: "setJob ex_env eg_job (m_extraNonce m') (m', counters_zero) = Some (job1', t')"
    "setJob ex_env eg_job (m_extraNonce m) (m, counters_zero) = Some (job1, t)"
    using setJob_fits [OF eg_job_fits] by meson
  have "4 \<le> j_extraNonceSize eg_job" by (simp add: eg_job_def)
  moreover have "es_extraNonce (em_storage em) \<le> 2 ^ 32" by (simp add: s(8))
  ultimately have "j_minerTxPrefix job1' \<noteq> j_minerTxPrefix job1" using d j by blast
  with d s(1,4,5) j show ?thesis by blast
qed



text \<open>C16: In every run of the simple splitter a placed miner has an upstream of its own: the entry under its number exists and its miner is exactly this one, so no two miners share an upstream.\<close>

theorem simple_own_upstream:
  assumes "run_ok ss_ok (ss_step env) (ss_init cfg) es" and "run (ss_step env) (ss_init cfg) es = (p, ss)"
    and "p_objs p i = Some m" and "m_routeId m = - 1" and "0 \<le> m_mapperId m"
  shows "\<exists>sm. map_of (ss_upstreams ss) (nat (m_mapperId m)) = Some (Some (nat (m_mapperId m))) \<and>
    ss_objs ss (nat (m_mapperId m)) = Some sm \<and> sm_miner sm = Some i"
proof -
  have "ss_inv (p, ss)" using simple.run_init_inv [OF refl assms(1)] assms(2) by simp
  from ss_inv_own [OF this assms(3-5)] show ?thesis .
qed

theorem simple_own_upstream_witness:
  "\<exists>p ss sm. run (ss_step ex_env) (ss_init eg_simple_cfg) eg_simple_run = (p, ss) \<and> ss_objs ss 0 = Some sm \<and> sm_miner sm = Some 1"
proof -
  obtain p ss m where s: "run (ss_step ex_env) (ss_init eg_simple_cfg) eg_simple_run = (p, ss)" "p_objs p 1 = Some m"
      "m_routeId m = - 1" "m_mapperId m = 0"
    and ok: "run_ok ss_ok (ss_step ex_env) (ss_init eg_simple_cfg) eg_simple_run" using eg_simple by blast
  from simple_own_upstream [OF ok s(1-3)] s(1,4) show ?thesis by auto
qed

text \<open>C17: In every run of the simple splitter the pointers of both maps lead to live upstreams, although released upstreams are deleted by a timer; so the walk that counts the active ones never follows a dangling pointer.\<close>

theorem simple_pointers_live:
  assumes "run_ok ss_ok (ss_step env) (ss_init cfg) es" and "run (ss_step env) (ss_init cfg) es = (p, ss)"
  shows "(\<forall>(k, ptr) \<in> set (ss_upstreams ss). ptr = Some k \<and> ss_objs ss k \<noteq> None) \<and>
    (\<forall>(k, l) \<in> set (ss_idles ss). l = k \<and> ss_objs ss k \<noteq> None) \<and> ss_upstreams_info ss \<noteq> None"
proof -
  have "ss_inv (p, ss)" using simple.run_init_inv [OF refl assms(1)] assms(2) by simp
  from ss_inv_pointers [OF this] show ?thesis by (intro conjI)
qed

theorem simple_pointers_live_witness:
  "\<exists>p ss. run (ss_step ex_env) (ss_init eg_simple_cfg) (eg_simple_run @ [SsClose 1]) = (p, ss) \<and> ss_upstreams_info ss \<noteq> None"
proof -
  obtain p ss sm where s: "run (ss_step ex_env) (ss_init eg_simple_cfg) (eg_simple_run @ [SsClose 1]) = (p, ss)"
    and ok: "run_ok ss_ok (ss_step ex_env) (ss_init eg_simple_cfg) (eg_simple_run @ [SsClose 1])" using eg_simple_idle by blast
  from simple_pointers_live [OF ok s] s show ?thesis by blast
qed

text \<open>C18: An upstream without a miner is deleted in the end: at most as many ticks after it fell idle as the reuse timeout allows, plus the one that takes it out of the map and the one that deletes it (a timeout of \<open>2 ^ 64 - 1\<close>, a negative setting, is never exceeded).\<close>

theorem simple_idle_released:
  assumes "run_ok ss_ok (ss_step env) (ss_init cfg) es" and "run (ss_step env) (ss_init cfg) es = (p, ss)"
    and "k \<in> fst ` set (ss_upstreams ss)" and "ss_objs ss k = Some sm" and "sm_miner sm = None" and "ss_reuseTimeout ss \<noteq> - 1"
    and "length nows = unat (ss_reuseTimeout ss) + 1 - unat (sm_idleTime sm) + 2"
  shows "ss_objs (snd (run (ss_step env) (p, ss) (map SsTick nows))) k = None"
proof -
  have "ss_inv (p, ss)" using simple.run_init_inv [OF refl assms(1)] assms(2) by simp
  from ss_idle_ages [OF this assms(3-7)] show ?thesis .
qed

theorem simple_idle_released_witness:
  "\<exists>p ss. run (ss_step ex_env) (ss_init eg_simple_cfg) (eg_simple_run @ [SsClose 1]) = (p, ss) \<and> ss_objs ss 0 \<noteq> None \<and>
    ss_objs (snd (run (ss_step ex_env) (p, ss) (map SsTick [1, 2, 3, 4]))) 0 = None"
proof -
  obtain p ss sm where s: "run (ss_step ex_env) (ss_init eg_simple_cfg) (eg_simple_run @ [SsClose 1]) = (p, ss)" "0 \<in> ss_keys ss"
      "ss_objs ss 0 = Some sm" "sm_miner sm = None" and t: "sm_idleTime sm = 0" "ss_reuseTimeout ss = 1"
    and ok: "run_ok ss_ok (ss_step ex_env) (ss_init eg_simple_cfg) (eg_simple_run @ [SsClose 1])" using eg_simple_idle by blast
  have "ss_reuseTimeout ss \<noteq> - 1" "length [1, 2, 3, 4 :: u64] = unat (ss_reuseTimeout ss) + 1 - unat (sm_idleTime sm) + 2"
    using t by simp_all
  from simple_idle_released [OF ok s this] s(1,3) show ?thesis by blast
qed

text \<open>C19: When a miner gets an idle upstream, the pointer is read from a map node that \<open>removeIdle\<close> has freed, the miner is given neither the current job nor the algorithm extension, and the answer to a share of the miner that had left is sent to the new one, under the request id of the other connection.\<close>

theorem reused_upstream_answers_wrong_miner:
  assumes "ss_reusable (ss_idles ss) ss = Some (Some (k, l))" and "ss_objs ss l = Some sm" and "le_miner ev = j"
    and "p_objs p j = Some m" and "m_routeId m = - 1" and "ss_login cfg hs ev p ss = (p', ss')"
    and "\<And>ae q. p_objs (start ae q) = p_objs q"
  shows "p_fault p' \<and> p_objs p' j = Some (m\<lparr>m_mapperId := int (sm_id sm)\<rparr>) \<and>
    (\<exists>sm'. ss_objs ss' l = Some sm' \<and> sm_miner sm' = Some j \<and>
      p_objs (sm_onResultAccepted env start client result None p' sm') j =
        Some (fst (success env (sr_reqId result) ''OK'' (m\<lparr>m_mapperId := int (sm_id sm)\<rparr>, p_cnt (start (sm_accept_event client result None sm') p')))))"
proof -
  let ?sm = "sm\<lparr>sm_idleTime := 0, sm_miner := Some j\<rparr>" and ?m = "m\<lparr>m_mapperId := int (sm_id sm)\<rparr>"
  have l: "p' = upd_miner (\<lambda>m. m\<lparr>m_mapperId := int (sm_id sm)\<rparr>) j (p\<lparr>p_fault := True\<rparr>)" "ss_objs ss' l = Some ?sm"
    using assms(1-6) by (auto simp: ss_login_def ss_removeIdle_def sm_reuse_def ss_put_def Let_def)
  then have "p_fault p'" "p_objs p' j = Some ?m" using assms(4) by (auto simp: upd_miner_def on_miner_def put_miner_def)
  then show ?thesis using l(2) assms(7)
    by (intro conjI exI [of _ ?sm]) (simp_all add: sm_onResultAccepted_def Let_def on_miner_def put_miner_def case_prod_beta)
qed

theorem reused_upstream_answers_wrong_miner_witness:
  "p_fault (fst (ss_login eg_simple_cfg (\<lambda>k. k) (eg_login 1) eg_proc
    ((ss_new eg_simple_cfg)\<lparr>ss_objs := [0 \<mapsto> (sm_new 0 0)\<lparr>sm_active := True\<rparr>], ss_idles := [(0, 0)]\<rparr>)))"
proof -
  let ?ss = "(ss_new eg_simple_cfg)\<lparr>ss_objs := [0 \<mapsto> (sm_new 0 0)\<lparr>sm_active := True\<rparr>], ss_idles := [(0, 0)]\<rparr>"
  obtain p' ss' where s: "ss_login eg_simple_cfg (\<lambda>k. k) (eg_login 1) eg_proc ?ss = (p', ss')" by fastforce
  have "ss_reusable (ss_idles ?ss) ?ss = Some (Some (0, 0))" by (simp add: sm_isReusable_def sm_new_def)
  from reused_upstream_answers_wrong_miner [OF this _ _ _ _ s, of _ 1 _ "\<lambda>ae q. q"] have "p_fault p'" by simp
  with s show ?thesis by simp
qed

section \<open>Pools, failover and addresses\<close>

text \<open>C20: What a failover strategy tells its listener is always a run of the abstract one: it announces a pool only when another or none was active, it hands on jobs of the announced pool only, and the pool last announced is the active one, which exists.\<close>

theorem failover_refines_listener:
  assumes "run_ok fs_ok fs_step (fs_new ps retryPause retries quiet) es" and "fs = run fs_step (fs_new ps retryPause retries quiet) es"
  shows "listener_state (- 1) (fs_told fs) = Some (fs_active fs) \<and> fs_active fs < int (length (fs_pools fs)) \<and>
    (0 \<le> fs_active fs \<longrightarrow> fs_client fs = Some (fs_active fs))"
proof -
  have "fs_inv fs" using failover.run_init_inv [OF refl assms(1)] assms(2) by simp
  then show ?thesis by (auto simp: fs_inv_def fs_client_def fs_isActive_def)
qed

theorem failover_refines_listener_witness:
  "listener_state (- 1) (fs_told (run fs_step (fs_new [7, 8 :: nat] 5 2 False) [FsConnect, FsClose 0 2, FsLoginSuccess 1, FsLoginSuccess 0])) = Some 0"
proof -
  let ?es = "[FsConnect, FsClose 0 2, FsLoginSuccess 1, FsLoginSuccess 0]"
  have "run_ok fs_ok fs_step (fs_new [7, 8 :: nat] 5 2 False) ?es" by code_simp
  moreover have "fs_active (run fs_step (fs_new [7, 8 :: nat] 5 2 False) ?es) = 0" by code_simp
  ultimately show ?thesis using failover_refines_listener [OF _ refl] by metis
qed

text \<open>C21: When the pools fail one after the other, the first as often as the retries allow, each next one is connected, in the order of the list, and the first of them that logs in becomes the active one.\<close>

theorem failover_reaches_next_pool:
  assumes "fs_active fs = - 1" and "fs_index fs = 0" and "j < length (fs_pools fs)"
    and "\<forall>i < j. failures i \<noteq> - 1" and "0 < j \<longrightarrow> fs_retries fs \<le> failures 0"
    and "fs' = run fs_step fs (map (\<lambda>i. FsClose (int i) (failures i)) [0..<j])"
  shows "fs_ops fs' = fs_ops fs @ map (\<lambda>i. (int i, OpConnect)) [1..<Suc j] \<and> fs_told fs' = fs_told fs \<and>
    fs_active (fs_onLoginSuccess (int j) fs') = int j \<and> fs_told (fs_onLoginSuccess (int j) fs') = fs_told fs @ [LnActive (int j)]"
proof -
  have "fs_active fs' = - 1 \<and> fs_told fs' = fs_told fs \<and> fs_ops fs' = fs_ops fs @ map (\<lambda>i. (int i, OpConnect)) [1..<Suc j]"
    using fs_fails_over [OF assms(1-3) _ _ assms(6)] assms(4,5) by blast
  then show ?thesis using fs_login_success [of fs' "int j"] by simp
qed

theorem failover_reaches_next_pool_witness:
  "fs_active (fs_onLoginSuccess (int 2) (run fs_step (fs_new [7, 8, 9 :: nat] 5 2 False) (map (\<lambda>i. FsClose (int i) 2) [0..<2]))) = int 2"
  by (rule failover_reaches_next_pool [where failures = "\<lambda>_. 2", OF _ _ _ _ _ refl, THEN conjunct2, THEN conjunct2, THEN conjunct1])
    (simp_all add: fs_new_def fs_new_fields fs_empty_def fs_add_def fs_op_def Let_def)

text \<open>C22: A pool that was read from the configuration and written back reads as an equal pool, spend key included, when it sets nothing its kind of pool is written without (a daemon no password or keep-alive, another pool no polling) and takes its nicehash flag from the host.\<close>

theorem pool_json_roundtrip:
  assumes "pool_isValid (pool_of_json v)" and "pool_expressible (pool_of_json v)" and "pl_spendSecretKey (pool_of_json v) \<noteq> Some []"
  shows "pool_isEqual (pool_of_json (pool_toJSON (pool_of_json v))) (pool_of_json v) \<and>
    pl_spendSecretKey (pool_of_json (pool_toJSON (pool_of_json v))) = pl_spendSecretKey (pool_of_json v)"
  using pool_reads_back [OF assms(1) pool_of_json_read [OF assms(1)] assms(2)] assms(3) by blast

theorem pool_json_roundtrip_witness:
  "pool_isEqual (pool_of_json (pool_toJSON (pool_of_json (JsObject [(''url'', JsString ''pool.example:3333''), (''keepalive'', JsBool True)]))))
    (pool_of_json (JsObject [(''url'', JsString ''pool.example:3333''), (''keepalive'', JsBool True)]))"
proof -
  let ?v = "JsObject [(''url'', JsString ''pool.example:3333''), (''keepalive'', JsBool True)]"
  have "pool_isValid (pool_of_json ?v)" by code_simp
  moreover have "pool_expressible (pool_of_json ?v)" by code_simp
  moreover have "pl_spendSecretKey (pool_of_json ?v) \<noteq> Some []" by code_simp
  ultimately show ?thesis using pool_json_roundtrip by blast
qed

text \<open>C23: An address text that a reference encoder writes for a tag, two keys and further bytes (together at most 186 bytes, the room of the decoder, and without the prefix TF, which the decoder takes off the front of a text) is decoded to exactly these, with the checksum verified and whatever the object held before.\<close>

theorem wallet_address_roundtrip:
  assumes "length spend = 32" and "length view = 32" and "length (wallet_payload tag spend view ext) \<le> 186"
    and "take 2 (b58_encode (wallet_payload tag spend view ext)) \<noteq> ''TF''"
  shows "wallet_decode (b58_encode (wallet_payload tag spend view ext)) w =
    Some (True, \<lparr>w_data = Some (b58_encode (wallet_payload tag spend view ext)), w_tag = tag,
      w_checksum = take 4 (keccak200 (put_varint tag @ spend @ view @ ext)), w_spend = spend, w_view = view\<rparr>)"
  using wallet_decode_bytes [of "b58_encode (wallet_payload tag spend view ext)" 0 tag spend view ext w] assms
  by (simp add: wallet_prefix_def)

theorem wallet_address_roundtrip_witness:
  "\<exists>w. wallet_decode (b58_encode eg_address) wallet_new = Some (True, w) \<and> w_tag w = 0x12"
  using wallet_address_roundtrip [OF _ _ eg_address_short(1) [unfolded eg_address_def] eg_address_plain [unfolded eg_address_def], of wallet_new]
  by (simp add: eg_address_def)

text \<open>C24: In Keccak mode the streaming sponge of \<open>sha3.cpp\<close>, with its words, tails and running permutation, computes the hash of the block-wise \<open>keccak.cpp\<close>, for every size it accepts and every input.\<close>

theorem sha3_keccak_mode:
  assumes "bits \<in> {256, 384, 512}" and "outBytes \<le> bits div 8"
  shows "sha3_HashBuffer bits SHA3_FLAGS_KECCAK ins outBytes = Some (take outBytes (keccak ins (bits div 8)))"
  by (rule sha3_HashBuffer_keccak [OF assms])

theorem sha3_keccak_mode_witness:
  "sha3_HashBuffer 256 SHA3_FLAGS_KECCAK [1, 2, 3] 32 = Some (take 32 (keccak [1, 2, 3] 32))"
  using sha3_keccak_mode [of 256 32] by simp

section \<open>The client of a pool\<close>

text \<open>C25: In every run of the stratum client in which no pool redirects it and in which its owner connects it only when it has no socket (it is unconnected, looks up a host or waits to reconnect; a client that is still closing is not connected again) and does not use it after deleteLater, no socket is freed before it is closed, no null socket and no listener that is gone is used, at most one socket is open, a connected client has one that is open and not closed, and a client that is not connected has none.\<close>

theorem client_sockets_sound:
  assumes "run_ok cl_guard cl_step (cl_new i agent seq) es" "s = run cl_step (cl_new i agent seq) es"
  shows "(\<forall>f \<in> {FreedOpenHandle, NullSocket, NullListener}. f \<notin> set (cl_faults s)) \<and> length (cl_live s) \<le> 1 \<and>
    (cl_state s = ConnectedState \<longrightarrow> (\<exists>h. cl_socket s = Some h \<and> cl_live s = [h] \<and> h \<notin> set (cl_shut s))) \<and>
    (cl_state s \<in> {UnconnectedState, HostLookupState, ReconnectingState} \<longrightarrow> cl_live s = [])"
proof -
  have inv: "cl_inv s" using stratum_client.run_init_inv [OF _ assms(1)] assms(2) by blast
  have "\<not> list_ex bad_fault (cl_faults s)" using inv by (simp add: cl_inv_def conn_inv_def)
  then have "\<forall>f \<in> {FreedOpenHandle, NullSocket, NullListener}. f \<notin> set (cl_faults s)"
    by (auto simp: list_ex_iff bad_fault_def)
  then show ?thesis using inv by (auto simp: cl_inv_def conn_inv_def split: option.splits)
qed

theorem client_sockets_sound_witness:
  "length (cl_live (run cl_step (cl_new 0 ''agent'' 1) eg_client_run)) \<le> 1"
  using client_sockets_sound [OF eg_client_ok refl] by blast

text \<open>C26: Whatever a pool sends, the listener of a stratum client is told of each submitted share at most once, with the number, difficulties and request it was submitted with: the answers are a sub-multiset of the submissions.\<close>

theorem client_shares_answered_once:
  "mset (answers (cl_log (run cl_step (cl_new i agent seq) es))) \<subseteq># mset (cl_shares (run cl_step (cl_new i agent seq) es))"
  using share_ok_answered [OF client_run_shares, of i agent seq es] by (simp add: book_def)

text \<open>C27: When the pool refuses the login of the first client (its number is not one) with an error that is not one of four critical texts, and keep-alive is off, the client stays connected without a deadline: no tick ever closes it, and nobody is told. The test compares the number of the client where it means that of the request.\<close>

theorem refused_login_hangs:
  assumes "cl_id s \<noteq> 1" "cl_state s = ConnectedState" "\<not> has_keepalive s" "cl_keepAlive s = 0" "cl_results s 1 = None"
    and "length line \<ge> 22" "line ! 0 = CHR ''{''" "ce_json e (c_string line) = Some doc" "is_object doc"
    and "getString doc ''method'' None = None" "getValue doc ''id'' = JsInt 1" "is_object (getValue doc ''error'')"
    and "getString (getValue doc ''error'') ''message'' None = Some m" "\<not> isCriticalError (Some m)"
  shows "cl_ticks ts (cl_parse e line s) = s\<lparr>cl_expire := 0\<rparr>"
proof -
  have "cl_parse e line s = s\<lparr>cl_expire := 0\<rparr>"
    using assms by (simp add: cl_parse_def cl_startTimeout_def has_keepalive_def cl_parseResponse_def cl_handleResponse_def
        refuse_response_def cl_handleSubmitResponse_def is_int64_def Let_def)
  then show ?thesis using assms by (simp add: cl_ticks_idle)
qed

theorem refused_login_hangs_witness:
  "cl_ticks [(eg_cenv 0 JsNull, 9999999)] (cl_parse (eg_cenv 5 eg_refusal) eg_line (eg_client\<lparr>cl_expire := 1\<rparr>)) =
     eg_client\<lparr>cl_expire := 0\<rparr>"
proof -
  have c: "\<not> isCriticalError (Some ''No wallet'')" by code_simp
  have "cl_ticks [(eg_cenv 0 JsNull, 9999999)] (cl_parse (eg_cenv 5 eg_refusal) eg_line (eg_client\<lparr>cl_expire := 1\<rparr>)) =
     (eg_client\<lparr>cl_expire := 1\<rparr>)\<lparr>cl_expire := 0\<rparr>"
    by (rule refused_login_hangs [where doc = eg_refusal and m = "''No wallet''"])
      (simp_all add: eg_client_def cl_new_def has_keepalive_def pool_of_url_def eg_cenv_def eg_line_def eg_refusal_def is_object_def
        getString_def getValue_def json_find_def c_string_def c)
  then show ?thesis by simp
qed

text \<open>C28: A client that is redirected by client.reconnect keeps the old connection open and goes on reading it, and the next line of any kind from there clears the deadline of the reconnection: from then on no tick connects to the new pool, as long as the old one does not close the connection.\<close>

theorem redirect_never_connects:
  assumes "cl_state s = ConnectedState" "cl_socket s = Some h" "cl_listener s" "cl_failures s \<noteq> - 1"
    and "length line \<ge> 22" "line ! 0 = CHR ''{''" "ce_json e (c_string line) = Some doc" "is_object doc"
    and "getString doc ''method'' None = Some ''client.reconnect''" "reconnect_url (getValue doc ''params'') = Some url"
    and more: "\<forall>(e', l) \<in> set ls. no_redirect e'" "ls \<noteq> []"
    and t: "t = fold (\<lambda>(e', l). cl_parse e' l) ls (cl_parse e line s)" "cl_state t \<noteq> socket_state.ClosingState"
  shows "cl_state t = ReconnectingState \<and> cl_socket t = Some h \<and> cl_live t = cl_live s \<and> cl_ticks ts t = t"
proof -
  let ?u = "cl_parse e line s"
  have u: "?u = cl_reconnect e (cl_setPoolUrl url (cl_startTimeout e s))"
    using assms(5-10) by (simp add: cl_parse_def Let_def)
  have eq: "conn_of (cl_setPoolUrl url (cl_startTimeout e s)) = conn_of s" by simp
  have fl: "cl_failures (cl_setPoolUrl url (cl_startTimeout e s)) = cl_failures s"
    by (simp add: cl_setPoolUrl_def cl_startTimeout_def Let_def)
  have cu: "conn_of ?u = (conn_of s)\<lparr>cn_state := ReconnectingState\<rparr>"
    unfolding u using conn_of_reconnect [of "cl_setPoolUrl url (cl_startTimeout e s)" e] listener_conn [OF eq] eq fl assms(3,4) by simp
  have "calm ?u t"
    unfolding t using more(1) by (intro calm_fold) (auto intro: calm_parse)
  moreover have "conn_ready (conn_of ?u)" unfolding cu using assms(3) by (simp add: conn_ready_def)
  ultimately have "conn_of t = conn_of ?u \<or> conn_of t = conn_close (conn_of ?u)" by (simp add: calm_def)
  moreover have "cn_state (conn_close (conn_of ?u)) = socket_state.ClosingState" unfolding cu using assms(2) by (simp add: conn_close_def)
  ultimately have ct: "conn_of t = (conn_of s)\<lparr>cn_state := ReconnectingState\<rparr>" using t(2) cu by (metis conn_of_sel(1))
  have st: "cl_state t = ReconnectingState" "cl_socket t = Some h" "cl_live t = cl_live s"
    using arg_cong [OF ct, of cn_state] arg_cong [OF ct, of cn_socket] arg_cong [OF ct, of cn_live] assms(2) by simp_all
  have "cl_expire (fold (\<lambda>(e', l). cl_parse e' l) ls v) = 0" if "ls \<noteq> []" "\<forall>(e', l) \<in> set ls. no_redirect e'" for v :: "'a client" and ls
    using that by (induction ls arbitrary: v rule: rev_induct) (auto simp: expire_parse)
  then have "cl_expire t = 0" unfolding t using more by blast
  then show ?thesis using st by (simp add: cl_ticks_idle)
qed

theorem redirect_never_connects_witness:
  "cl_state (cl_parse (eg_cenv 9 JsNull) ''x'' (cl_parse (eg_cenv 5 eg_redirect) eg_line eg_client)) = ReconnectingState"
proof -
  let ?u = "cl_parse (eg_cenv 5 eg_redirect) eg_line eg_client"
  let ?t = "fold (\<lambda>(e', l). cl_parse e' l) [(eg_cenv 9 JsNull, ''x'')] ?u"
  have r: "getString eg_redirect ''method'' None = Some ''client.reconnect''" "reconnect_url (getValue eg_redirect ''params'') = Some ''a.b:1''"
    by (simp_all add: eg_redirect_def getString_def getValue_def json_find_def c_string_def reconnect_url_def)
  have s: "cl_state eg_client = ConnectedState" "cl_socket eg_client = Some 0" "cl_listener eg_client" "cl_failures eg_client \<noteq> - 1"
    by (simp_all add: eg_client_def cl_new_def)
  have l: "length eg_line \<ge> 22" "eg_line ! 0 = CHR ''{''" by (simp_all add: eg_line_def)
  have o: "is_object eg_redirect" "ce_json (eg_cenv 5 eg_redirect) (c_string eg_line) = Some eg_redirect"
    by (simp_all add: eg_redirect_def is_object_def eg_cenv_def)
  have "cl_parse (eg_cenv 9 JsNull) ''x'' v = cl_startTimeout (eg_cenv 9 JsNull) v" for v by (simp add: cl_parse_def)
  moreover have "cl_state (cl_startTimeout e v) = cl_state v" for e and v :: "unit client" by (simp add: cl_startTimeout_def Let_def)
  moreover have "cl_state ?u = ReconnectingState"
    using s r l o by (simp add: cl_parse_def Let_def cl_reconnect_def cl_setState_def cl_tell_def cl_say_def cl_setPoolUrl_def cl_startTimeout_def)
  ultimately have "cl_state ?t \<noteq> socket_state.ClosingState" by simp
  from redirect_never_connects [OF s l o(2,1) r _ _ refl this] eg_no_redirect show ?thesis by simp
qed

text \<open>C29: A pool that does not answer a login over a connection without TLS is given up: ticks within twenty seconds change nothing, the first one after that closes the socket, and when libuv has closed it the client waits to reconnect and tells its listener one more failure.\<close>

theorem silent_pool_dropped:
  assumes "cl_state s = ConnectedState" "cl_socket s = Some h" "h \<notin> set (cl_shut s)" "\<not> cl_isTLS s" "cl_listener s" "cl_keepAlive s = 0"
    and "ce_writable e" "ce_accepts e" "\<And>obj. length (ce_text e obj) \<le> kMaxSendBufferSize"
    and "ce_now e \<le> 0xFFFFFFFFFFFF0000" "0 \<le> cl_failures s" "cl_failures s < 2 ^ 31 - 1"
    and "\<forall>(e', t) \<in> set ts. t \<le> ce_now e + 20000" "now > ce_now e + 20000"
    and u: "u = cl_tick e1 now (cl_ticks ts (cl_login e s))"
  shows "cl_state u = socket_state.ClosingState \<and> last (cl_log u) = CcShut h \<and>
    cl_state (cl_onClose e2 u) = ReconnectingState \<and> last (cl_log (cl_onClose e2 u)) = CcClose (cl_failures s + 1)"
proof -
  let ?t = "cl_login e s"
  note t = login_sent [OF assms(1,2,4,5,7,8) assms(9)]
  have "ce_now e + 20000 \<noteq> 0"
  proof
    assume "ce_now e + 20000 = 0"
    then have "ce_now e = - 20000" by (simp add: eq_neg_iff_add_eq_0)
    with assms(10) show False by simp
  qed
  then have x: "cl_expire ?t \<noteq> 0" "cl_expire ?t = ce_now e + 20000" using t(3) by (simp_all add: kResponseTimeout_def)
  have "cl_ticks ts ?t = ?t"
  proof (rule cl_ticks_id)
    fix e' tm assume "(e', tm) \<in> set ts"
    then have "\<not> tm > cl_expire ?t" using assms(13) x by auto
    then show "cl_tick e' tm ?t = ?t" using t(1,4) assms(6) by (simp add: cl_tick_def)
  qed
  then have u': "u = snd (cl_close e1 ?t)" using t(1) x assms(14) by (simp add: u cl_tick_def)
  have "cl_state u = socket_state.ClosingState \<and> last (cl_log u) = CcShut h \<and> cl_socket u = Some h \<and> h \<in> set (cl_shut u) \<and> cl_listener u \<and>
      cl_failures u = cl_failures s"
    using t assms(3) by (simp add: u' cl_close_def cl_setState_def cl_say_def Let_def)
  moreover have "signed_take_bit 31 (cl_failures s + 1) = cl_failures s + 1"
    using assms(11,12) by (intro signed_take_bit_int_eq_self) simp_all
  ultimately show ?thesis
    using assms(11) by (simp add: cl_onClose_def cl_reconnect_def cl_setState_def cl_tell_def cl_say_def Let_def)
qed

theorem silent_pool_dropped_witness:
  "cl_state (cl_onClose (eg_cenv 30001 JsNull) (cl_tick (eg_cenv 30000 JsNull) 30000
     (cl_ticks [(eg_cenv 200 JsNull, 200)] (cl_login (eg_cenv 100 JsNull) eg_client)))) = ReconnectingState"
proof -
  have s: "cl_state eg_client = ConnectedState" "cl_socket eg_client = Some 0" "0 \<notin> set (cl_shut eg_client)" "\<not> cl_isTLS eg_client"
      "cl_listener eg_client" "cl_keepAlive eg_client = 0" "0 \<le> cl_failures eg_client" "cl_failures eg_client < 2 ^ 31 - 1"
    by (simp_all add: eg_client_def cl_new_def cl_isTLS_def)
  have e: "ce_writable (eg_cenv 100 JsNull)" "ce_accepts (eg_cenv 100 JsNull)" "length (ce_text (eg_cenv 100 JsNull) obj) \<le> kMaxSendBufferSize"
      "ce_now (eg_cenv 100 JsNull) \<le> 0xFFFFFFFFFFFF0000" for obj
    by (simp_all add: eg_cenv_def kMaxSendBufferSize_def)
  have n: "\<forall>(e', t) \<in> set [(eg_cenv 200 JsNull, 200 :: u64)]. t \<le> ce_now (eg_cenv 100 JsNull) + 20000"
      "30000 > ce_now (eg_cenv 100 JsNull) + 20000"
    by (simp_all add: eg_cenv_def)
  from silent_pool_dropped [OF s(1-6) e s(7,8) n refl] show ?thesis by blast
qed

text \<open>C30: A job that the stratum client takes from a message is the one of the message and has passed every check: it has its number, the session of the client, an algorithm the listener allows, a target and the difficulty of it, the blob of the message, a seed hash of 32 bytes when it is for RandomX, and it differs from the current job.\<close>

theorem accepted_job_checked:
  assumes "fst (cl_parseJob e params code s)" "j = cl_job (snd (snd (cl_parseJob e params code s)))" "p = cl_pool s"
  shows "j_id j = getString params ''job_id'' None \<and> j_id j \<noteq> None \<and> j_clientId j = cl_rpcId s \<and>
    algo_isValid (j_algorithm j) \<and> ce_verify e (j_algorithm j) \<and> j_target j \<noteq> 0 \<and> j_diff j = toDiff (j_target j) \<and>
    (pl_mode p \<noteq> MODE_SELF_SELECT \<longrightarrow> getString params ''blob'' None = Some (j_rawBlob j) \<and> 2 * j_size j = length (j_rawBlob j)) \<and>
    (pl_mode p \<noteq> MODE_SELF_SELECT \<and> algo_family (j_algorithm j) = FAM_RANDOM_X \<longrightarrow>
       j_rawSeedHash j = getString params ''seed_hash'' None \<and> str_size (j_rawSeedHash j) = 64) \<and>
    \<not> job_isEqual ((cl_job s)\<lparr>j_clientId := cl_rpcId s\<rparr>) j"
proof -
  let ?v = "\<lambda>a. snd (cl_verifyAlgorithm e a s)"
  have v: "cl_pool (?v a) = cl_pool s \<and> cl_job (?v a) = cl_job s \<and> cl_rpcId (?v a) = cl_rpcId s" for a
    by (simp add: cl_verifyAlgorithm_def cl_tell_def cl_say_def cl_fault_def)
  obtain q where q: "read_job p (has_nicehash s) (cl_rpcId s) params = JobRead q"
    using assms(1,3) by (cases "read_job p (has_nicehash s) (cl_rpcId s) params") (auto simp: cl_parseJob_def)
  have ok: "fst (cl_verifyAlgorithm e (j_algorithm q) s)"
    using assms(1,3) q by (auto simp: cl_parseJob_def case_prod_beta split: if_splits)
  then obtain r where r: "read_seed p params q = Some r"
    using assms(1,3) q v by (cases "read_seed p params q") (auto simp: cl_parseJob_def case_prod_beta)
  let ?t = "take_job e r (?v (j_algorithm q))"
  have pj: "cl_parseJob e params code s = (fst ?t, code, snd ?t)"
    using assms(3) q ok r v by (simp add: cl_parseJob_def case_prod_beta)
  have ne: "\<not> job_isEqual ((cl_job s)\<lparr>j_clientId := cl_rpcId s\<rparr>) r"
    and jr: "j = job_copy ((cl_job s)\<lparr>j_clientId := cl_rpcId s\<rparr>) r"
    using assms(1,2) pj v by (auto simp: take_job_def Let_def job_move_def split: if_splits)
  have same: "job_isEqual x j = job_isEqual x r" for x
    by (simp add: jr job_copy_def job_isEqual_def isEqualBlob_def)
  have f: "j_id j = j_id r" "j_clientId j = j_clientId r" "j_target j = j_target r" "j_diff j = j_diff r" "j_rawBlob j = j_rawBlob r"
    "j_size j = j_size r" "j_algorithm j = j_algorithm r" "j_rawSeedHash j = j_rawSeedHash r"
    by (simp_all add: jr job_copy_def)
  obtain i where "getString params ''job_id'' None = Some i" using read_job_result [OF q] by (metis option.exhaust)
  then show ?thesis
    using read_job_result [OF q] read_seed_result [OF r] ok ne unfolding same f
    by (auto simp add: cl_verifyAlgorithm_def split: if_splits)
qed

theorem accepted_job_checked_witness:
  "ce_verify (eg_cenv 5 JsNull) (j_algorithm (cl_job (snd (snd (cl_parseJob (eg_cenv 5 JsNull) eg_params (- 1) eg_solo)))))"
  using accepted_job_checked [OF eg_params_ok refl refl] by blast

text \<open>C31: A client of a pool for which TLS is switched on and a fingerprint is pinned sends its login, with the wallet and the password, at one place only. From a call of connect on, through whatever happens to the connection until it is closed (name resolution, a SOCKS5 proxy before it, redirections, data, calls of the owner other than a change of the pool), an event that makes the client log in is the receipt of data that ends the TLS handshake with a certificate whose SHA-256 fingerprint is the pinned one, up to letter case. (Without TLS the fingerprint is not looked at: such a pool gets the login as soon as the socket is connected.)\<close>

theorem pinned_pool_login:
  assumes "pl_tls (cl_pool s)" and "pl_fingerprint (cl_pool s) = Some w" and "\<forall>(e, ev) \<in> set es. same_connection ev"
    and "t = run cl_step (cl_connect e0 s) es" and "login_count (cl_log t) < login_count (cl_log (cl_step t (e, ev)))"
  shows "\<exists>h data u c c' md. ev = EvRead h (Some data) \<and> cl_tls t = Some u \<and> tl_ssl u = Some c \<and>
    \<not> ssl_finished (ce_ssl e) (ssl_feed (ce_ssl e) data c) \<and>
    ssl_connect (ce_ssl e) (ssl_feed (ce_ssl e) data c) = (HandshakeDone, c') \<and> ssl_digest (ce_ssl e) c' = Some md \<and>
    map to_lower (take 64 (the (toHex_buf 72 (take 32 md)))) = map to_lower (take 64 w)"
proof -
  have c: "pl_tls (cl_pool t)" "guarded t" "pl_fingerprint (cl_pool t) = Some w"
    using connection_secure [OF assms(1,3)] assms(2,4) by simp_all
  have "\<not> no_new_login t (cl_step t (e, ev))" using assms(5) by (simp add: no_new_login_def)
  from login_step [OF c(1,2) this] c(3) show ?thesis unfolding checked_def fingerprint_ok_def by auto
qed

theorem pinned_pool_login_witness:
  "\<exists>u. cl_tls eg_handshake = Some u \<and> tl_ssl u = Some () \<and> ssl_digest eg_ssl () = Some (replicate 32 0) \<and>
    map to_lower (take 64 (the (toHex_buf 72 (replicate 32 0)))) = map to_lower (take 64 (replicate 64 (CHR ''0'')))"
proof -
  have p: "pl_tls (cl_pool eg_pinned)" "pl_fingerprint (cl_pool eg_pinned) = Some (replicate 64 (CHR ''0''))" by (simp_all add: eg_pinned_def)
  have r: "\<forall>(e, ev) \<in> set eg_pinned_run. same_connection ev" by (simp add: eg_pinned_run_def)
  from pinned_pool_login [OF p r eg_handshake_def eg_pinned_login] show ?thesis by (auto simp: eg_cenv_def eg_ssl_def)
qed

section \<open>Field arithmetic of the signatures\<close>

text \<open>C32: For operands within the bounds the comments of crypto-ops.c require, fe_mul computes the product modulo 2^255-19; no sum and no carry on the way leaves the 64-bit range, and the result is within the bounds the comments promise.\<close>

theorem field_product:
  assumes "fe_le mul_pre f" "fe_le mul_pre g"
  shows "fe_mod (fe_mul f g) = fe_mod f * fe_mod g mod p25519 \<and> fe_le mul_post (fe_mul f g) \<and>
    (\<forall>n. int64_safe (fold (\<lambda>c. c) (take n fe_carry_steps) (fe_mul_wide f g)))"
  using assms by (simp add: fe_mod_mul fe_mul_post carry_safe mul_wide_in_bd)

theorem field_product_witness:
  "fe_mod (fe_mul (Fe 7 0 0 0 0 0 0 0 0 16777216) (Fe 3 0 0 0 0 0 0 0 0 0)) =
    fe_mod (Fe 7 0 0 0 0 0 0 0 0 16777216) * fe_mod (Fe 3 0 0 0 0 0 0 0 0 0) mod p25519"
proof -
  have "fe_le mul_pre (Fe 7 0 0 0 0 0 0 0 0 16777216)" "fe_le mul_pre (Fe 3 0 0 0 0 0 0 0 0 0)"
    by (simp_all add: fe_le_def mul_pre_def fe_lim_def)
  from field_product [OF this] show ?thesis by blast
qed

text \<open>C33: For an element within the bounds of one addition, fe_tobytes writes the canonical residue in little-endian order, the decoder accepts these bytes and returns the same residue with limbs fit for a multiplication; and the decoder refuses exactly the 32 bytes whose low 255 bits are not below the prime.\<close>

theorem field_encoding:
  assumes "fe_le add_post h" "length s = 32"
  shows "le_val (fe_tobytes h) = fe_mod h \<and>
    (\<exists>g. fe_frombytes (fe_tobytes h) = Some g \<and> fe_mod g = fe_mod h \<and> fe_le mul_post g) \<and>
    (fe_frombytes s = None \<longleftrightarrow> p25519 \<le> le_val s mod 2 ^ 255)"
  using fe_tobytes_val [OF assms(1)] tobytes_frombytes [OF assms(1)] fe_frombytes_none [OF assms(2)] by blast

theorem field_encoding_witness:
  "le_val (fe_tobytes (Fe (- 20) 0 0 0 0 0 0 0 0 33554432)) = fe_mod (Fe (- 20) 0 0 0 0 0 0 0 0 33554432)"
proof -
  have "fe_le add_post (Fe (- 20) 0 0 0 0 0 0 0 0 33554432)"
    by (simp add: fe_le_def add_post_def fe_lim_def)
  from field_encoding [OF this, of "replicate 32 0"] show ?thesis by simp
qed

text \<open>C34: The scalar functions compute the canonical residues modulo the order l of the base point, for every 32-byte (sc_reduce: 64-byte) input: sums, differences, products, a b + c and c - a b; and no limb of the product leaves the 64-bit range at any of the steps of its instruction list.\<close>

theorem scalar_arithmetic:
  assumes "length a = 32" "length b = 32" "length c = 32" "length s = 64"
  shows "le_val (sc_reduce s) = le_val s mod l25519 \<and> le_val (sc_reduce32 a) = le_val a mod l25519 \<and>
    le_val (sc_add a b) = (le_val a + le_val b) mod l25519 \<and> le_val (sc_sub a b) = (le_val a - le_val b) mod l25519 \<and>
    le_val (sc_mul a b) = le_val a * le_val b mod l25519 \<and>
    le_val (sc_muladd a b c) = (le_val a * le_val b + le_val c) mod l25519 \<and>
    le_val (sc_mulsub a b c) = (le_val c - le_val a * le_val b) mod l25519 \<and>
    (\<forall>n. list_all (\<lambda>x. \<bar>x\<bar> \<le> 2 ^ 62)
      (sc_run (take n sc_product_steps) (map (sc_conv (sc_limbs a) (sc_limbs b)) [0..<23] @ [0])))"
  by (intro conjI allI sc_reduce_val sc_reduce32_val sc_add_val sc_sub_val sc_mul_val sc_muladd_val
      sc_mulsub_val sc_product_fits assms)

theorem scalar_arithmetic_witness:
  "le_val (sc_mul (replicate 32 255) (replicate 32 1)) =
    le_val (replicate 32 255) * le_val (replicate 32 1) mod l25519"
  using scalar_arithmetic [of "replicate 32 255" "replicate 32 1" "replicate 32 0" "replicate 64 0"]
  by simp

text \<open>C35: sc_check returns 0 exactly for the scalars below the order l, -1 for all others, and sc_isnonzero 0 exactly for zero.\<close>

theorem scalar_check:
  assumes "length s = 32"
  shows "sc_check s = (if le_val s < l25519 then 0 else - 1) \<and> sc_isnonzero s = (if le_val s = 0 then 0 else 1)"
  using sc_check_val [OF assms] sc_isnonzero_val by blast

theorem scalar_check_witness:
  "sc_check (replicate 32 255) = - 1"
proof -
  have "\<not> le_val (replicate 32 255) < l25519"
    by code_simp
  then show ?thesis using scalar_check [of "replicate 32 255"] by simp
qed

section \<open>The block template parser and its hashes\<close>

text \<open>C36: The unrolled permutation of \<open>keccak.cpp\<close> applied for \<open>n\<close> rounds is the iterated round function of Keccak-f[1600] as the standard states it by coordinates (theta, rho, pi, chi, iota).\<close>

theorem keccakf_meets_specification:
  "length st = 25 \<Longrightarrow> keccakf n st = foldl spec_round st (take n keccakf_rndc)"
  by (rule keccakf_spec)

theorem keccakf_meets_specification_witness:
  "keccakf 24 (replicate 25 0) = foldl spec_round (replicate 25 0) (take 24 keccakf_rndc)"
  using keccakf_meets_specification [of "replicate 25 0" 24] by simp

text \<open>C37: Folding a new miner transaction hash over the branch that the in-place tree routine stored for another one gives the root of the tree with the new hash, for every number of transactions: the cached branch may be reused for each hashing blob.\<close>

theorem merkle_branch_gives_root:
  "foldl hash2 x (fst (merkle_tree (y # t))) = snd (merkle_tree (x # t))"
  by (rule merkle_replace)

section \<open>A client that is connected while it closes\<close>

text \<open>C38: The condition on the owner of a client in C25 is needed, and the proxy breaks it: an upstream that is suspended disconnects its client, and connects it again when a miner logs in before the close callback has run. Whenever a connected client is stopped and connected again like this and the host is resolved first (from the cache of the resolver, at once), the new socket replaces the old one; the resolver and the socket library do only what they promise, and then the close callback of the old socket frees the new one, which was never closed, and leaves the client without a socket.\<close>

theorem reconnect_while_closing_frees_socket:
  assumes "cl_state s = ConnectedState" "cl_socket s = Some h" "h \<in> set (cl_live s)" "h \<notin> set (cl_shut s)"
    and "cl_listener s" "\<not> cl_gone s" "cl_handles s \<notin> set (h # cl_live s @ cl_shut s)"
    and "s1 = cl_step s (e1, EvDisconnect)" "s2 = cl_step s1 (e2, EvConnect)"
    and "s3 = cl_step s2 (e3, EvResolved (Some ip) 0)" "s4 = cl_step s3 (e4, EvClosed h)"
  shows "cl_lib_ok s2 (EvResolved (Some ip) 0) \<and> cl_lib_ok s3 (EvClosed h) \<and> cl_socket s3 = Some (cl_handles s) \<and>
    cl_handles s \<notin> set (cl_shut s3) \<and> FreedOpenHandle \<in> set (cl_faults s4) \<and> cl_socket s4 = None"
  using reconnect_while_closing [OF assms] .

theorem reconnect_while_closing_frees_socket_witness:
  "FreedOpenHandle \<in> set (cl_faults (run cl_step eg_client (map (\<lambda>x. (eg_cenv 7 JsNull, x))
     [EvDisconnect, EvConnect, EvResolved (Some ''10.0.0.1'') 0, EvClosed 0])))"
proof -
  have "cl_state eg_client = ConnectedState" "cl_socket eg_client = Some 0" "0 \<in> set (cl_live eg_client)" "0 \<notin> set (cl_shut eg_client)"
    "cl_listener eg_client" "\<not> cl_gone eg_client" "cl_handles eg_client \<notin> set (0 # cl_live eg_client @ cl_shut eg_client)"
    by (simp_all add: eg_client_def cl_new_def)
  from reconnect_while_closing_frees_socket [OF this refl refl refl refl] show ?thesis by simp
qed

section \<open>Loops over what a peer sends\<close>

text \<open>C39: A nonce field that declares the size \<open>2 ^ 64 - 11\<close> makes the unchecked addition of the reader wrap to the start of the extra field: the loop never ends, whatever the number of turns.\<close>

theorem extra_loop_wrap_diverges:
  assumes "11 \<le> n" and "n \<le> 11 + length rest" and "n < 2 ^ 64" and "0 < bt_extraSize bt"
  shows "extra_loop fuel (wrap_extra rest n, first, bt) = None"
  by (rule wrap_diverges [OF assms])

theorem extra_loop_wrap_diverges_witness:
  "\<forall>fuel. extra_loop fuel (wrap_extra [] 11, True, bt_new\<lparr>bt_extraSize := 11\<rparr>) = None"
  by (intro allI extra_loop_wrap_diverges) simp_all

section \<open>The stream of a connection\<close>

text \<open>C40: The lines handed to the parser do not depend on how the stream was cut into reads: feeding the pieces gives the nonempty lines of the whole stream, and the unfinished line is kept, while no line is longer than a buffer.\<close>

theorem lines_independent_of_chunks:
  assumes "short_lines (concat cs)"
  shows "fst (lr_feed cs lr_new) = fst (cut_lines (concat cs)) \<and>
    lr_data (snd (lr_feed cs lr_new)) = snd (cut_lines (concat cs))"
  using lr_feed_cut [of lr_new cs] assms by (simp add: lr_new_def lr_inv_def)

theorem lines_independent_of_chunks_witness:
  "fst (lr_feed [''ab'', ''c'' @ [newline, newline] @ ''d'', ''e'' @ [newline]] lr_new) = [''abc'', ''de'']"
  using lines_independent_of_chunks [of "[''ab'', ''c'' @ [newline, newline] @ ''d'', ''e'' @ [newline]]"]
  by (simp add: short_lines.simps cut_lines.simps newline_def XMRIG_NET_BUFFER_CHUNK_SIZE_def)

end
